(* ===== verification/Prelude.thy ===== *)
theory Prelude
  imports Complex_Main "HOL-Library.Word" "HOL-Library.Product_Lexorder"
    "HOL-Library.List_Lexorder" "HOL-Library.Char_ord" "HOL-Library.Sublist"
begin

unbundle bit_operations_syntax

text \<open>
  Shared vocabulary of the development: the machine types of the C++ code, the
  decimal and hexadecimal printing of its formatting helpers, the ordered map that
  stands for \<open>std::map\<close> (and, with unit values, for \<open>std::set\<close>), the capped
  vectors the state machines keep their histories in, and the exception-and-state
  monad the frame parsers are written in.

  Conventions.  \<open>uintN_t\<close> is an \<open>N\<close>-bit word, so arithmetic wraps as in C++.
  \<open>std::string\<close> is a \<open>string\<close>, a list of bytes; the few non-ASCII characters of
  the source's messages are written as their UTF-8 bytes.  \<open>double\<close> is \<open>real\<close>:
  the arithmetic on time stamps is exact and floating-point rounding is not modelled.
\<close>

section \<open>Machine types\<close>

type_synonym u8 = "8 word"
type_synonym u16 = "16 word"
type_synonym u32 = "32 word"
type_synonym u64 = "64 word"
type_synonym double = real
type_synonym byte = "8 word"

text \<open>Proof hints collected across the theories.\<close>

named_theorems om_simps \<open>lookup and update laws of the ordered map\<close>
named_theorems step_defs \<open>unfolding rules for the steps of the state machines\<close>
named_theorems inv_intros \<open>preservation lemmas of the component invariants\<close>

section \<open>Printing numbers\<close>

definition digit_char :: "nat \<Rightarrow> char" where
  "digit_char d = ''0123456789abcdef'' ! d"

text \<open>\<open>std::to_string\<close> on an unsigned value: decimal digits, most significant first.\<close>

fun nat_str :: "nat \<Rightarrow> string" where
  "nat_str n = (if n < 10 then [digit_char n] else nat_str (n div 10) @ [digit_char (n mod 10)])"

declare nat_str.simps [simp del]

definition int_str :: "int \<Rightarrow> string" where
  "int_str i = (if i < 0 then CHR ''-'' # nat_str (nat (- i)) else nat_str (nat i))"

definition u_str :: "'a::len word \<Rightarrow> string" where
  "u_str w = nat_str (unat w)"

text \<open>\<open>%x\<close>: lower-case hexadecimal without padding, and \<open>%0*x\<close> with a minimum width.\<close>

fun hex_digits :: "nat \<Rightarrow> string" where
  "hex_digits n = (if n < 16 then [digit_char n] else hex_digits (n div 16) @ [digit_char (n mod 16)])"

declare hex_digits.simps [simp del]

definition hex_pad :: "nat \<Rightarrow> nat \<Rightarrow> string" where
  "hex_pad w n = (let s = hex_digits n in replicate (w - length s) (CHR ''0'') @ s)"

text \<open>
  \<open>std::string\<close> concatenation \<open>a + b + \<dots>\<close>.  A constant of its own, so that the
  simplifier leaves the texts of messages alone.
\<close>

definition cat :: "string list \<Rightarrow> string" where
  "cat = concat"

text \<open>The source's non-ASCII punctuation: an em dash between spaces, and a times sign.\<close>

definition emdash :: string where
  "emdash = [CHR '' '', CHR 0xE2, CHR 0x80, CHR 0x94, CHR '' '']"

definition times_sign :: string where
  "times_sign = [CHR 0xC3, CHR 0x97]"

definition section_sign :: string where
  "section_sign = [CHR 0xC2, CHR 0xA7]"

lemma nat_str_nonempty [simp]: "nat_str n \<noteq> []"
  by (subst nat_str.simps) simp

lemma hex_digits_nonempty [simp]: "hex_digits n \<noteq> []"
  by (subst hex_digits.simps) simp

text \<open>Reading decimal digits back, the left inverse of \<open>nat_str\<close>.\<close>

definition dec_val :: "string \<Rightarrow> nat" where
  "dec_val s = foldl (\<lambda>acc c. acc * 10 + (of_char c - 48)) 0 s"

lemma digit_char_val: "d < 10 \<Longrightarrow> (of_char (digit_char d) :: nat) = 48 + d"
proof -
  assume "d < 10"
  then have "d \<in> {0,1,2,3,4,5,6,7,8,9}" by auto
  then show ?thesis by (auto simp: digit_char_def)
qed

lemma dec_val_snoc: "dec_val (s @ [c]) = dec_val s * 10 + (of_char c - 48)"
  by (simp add: dec_val_def)

lemma dec_val_nat_str [simp]: "dec_val (nat_str n) = n"
proof (induction n rule: nat_str.induct)
  case (1 n)
  show ?case
  proof (cases "n < 10")
    case True
    then show ?thesis
      by (simp add: nat_str.simps [of n] dec_val_def digit_char_val)
  next
    case False
    then have "dec_val (nat_str n) = dec_val (nat_str (n div 10)) * 10 + n mod 10"
      by (simp add: nat_str.simps [of n] dec_val_snoc digit_char_val)
    with "1" False show ?thesis by simp
  qed
qed

lemma nat_str_inject [simp]: "nat_str m = nat_str n \<longleftrightarrow> m = n"
  by (metis dec_val_nat_str)

lemma u_str_inject [simp]: "u_str (v :: 'a::len word) = u_str w \<longleftrightarrow> v = w"
  by (simp add: u_str_def word_unat_eq_iff)

lemma nat_str_digits: "c \<in> set (nat_str n) \<Longrightarrow> c \<in> set ''0123456789''"
proof (induction n rule: nat_str.induct)
  case (1 n)
  have dig: "digit_char d \<in> set ''0123456789''" if "d < 10" for d
  proof -
    have "d \<in> {0,1,2,3,4,5,6,7,8,9}" using that by auto
    then show ?thesis by (auto simp: digit_char_def)
  qed
  show ?case
  proof (cases "n < 10")
    case True
    with "1.prems" dig show ?thesis by (simp add: nat_str.simps [of n])
  next
    case False
    with "1" dig [of "n mod 10"] show ?thesis by (auto simp: nat_str.simps [of n])
  qed
qed

section \<open>Ordered maps\<close>

text \<open>
  \<open>std::map\<close> as an association list whose keys are strictly increasing; iteration is
  the list itself, which is the key order the C++ container guarantees.
\<close>

type_synonym ('k, 'v) omap = "('k \<times> 'v) list"

abbreviation om_get :: "('k, 'v) omap \<Rightarrow> 'k \<Rightarrow> 'v option" where
  "om_get \<equiv> map_of"

fun om_set :: "'k::linorder \<Rightarrow> 'v \<Rightarrow> ('k, 'v) omap \<Rightarrow> ('k, 'v) omap" where
  "om_set k v [] = [(k, v)]"
| "om_set k v ((k', v') # m) =
     (if k < k' then (k, v) # (k', v') # m
      else if k = k' then (k, v) # m
      else (k', v') # om_set k v m)"

definition om_del :: "'k \<Rightarrow> ('k, 'v) omap \<Rightarrow> ('k, 'v) omap" where
  "om_del k m = filter (\<lambda>(k', v). k' \<noteq> k) m"

text \<open>\<open>m[k]\<close> reads the value, a default-constructed one where the key is absent.\<close>

definition om_at :: "'v \<Rightarrow> ('k, 'v) omap \<Rightarrow> 'k \<Rightarrow> 'v" where
  "om_at d m k = (case map_of m k of None \<Rightarrow> d | Some v \<Rightarrow> v)"

text \<open>A range-for over the map whose body updates the entry and threads a state.\<close>

fun om_iter :: "('k \<Rightarrow> 'v \<Rightarrow> 's \<Rightarrow> 'v \<times> 's) \<Rightarrow> ('k, 'v) omap \<Rightarrow> 's \<Rightarrow> ('k, 'v) omap \<times> 's" where
  "om_iter f [] s = ([], s)"
| "om_iter f ((k, v) # m) s =
     (let (v', s') = f k v s; (m', s'') = om_iter f m s' in ((k, v') # m', s''))"

text \<open>An iterator loop that erases the entries whose body says so.\<close>

fun om_sweep :: "('k \<Rightarrow> 'v \<Rightarrow> 's \<Rightarrow> 'v option \<times> 's) \<Rightarrow> ('k, 'v) omap \<Rightarrow> 's \<Rightarrow> ('k, 'v) omap \<times> 's" where
  "om_sweep f [] s = ([], s)"
| "om_sweep f ((k, v) # m) s =
     (let (r, s') = f k v s; (m', s'') = om_sweep f m s'
      in (case r of None \<Rightarrow> m' | Some v' \<Rightarrow> (k, v') # m', s''))"

definition om_ok :: "('k::linorder, 'v) omap \<Rightarrow> bool" where
  "om_ok m \<longleftrightarrow> sorted (map fst m) \<and> distinct (map fst m)"

lemma om_ok_Nil [simp, intro]: "om_ok []"
  by (simp add: om_ok_def)

lemma om_ok_Cons: "om_ok ((k, v) # m) \<longleftrightarrow> (\<forall>k' \<in> fst ` set m. k < k') \<and> om_ok m"
  by (auto simp: om_ok_def order_less_le)

lemma keys_om_set: "fst ` set (om_set k v m) = insert k (fst ` set m)"
  by (induction k v m rule: om_set.induct) auto

lemma om_ok_set [simp, intro]: "om_ok m \<Longrightarrow> om_ok (om_set k v m)"
  by (induction k v m rule: om_set.induct) (auto simp: om_ok_Cons keys_om_set split: if_splits)

lemma om_ok_del [simp, intro]: "om_ok m \<Longrightarrow> om_ok (om_del k m)"
  by (induction m) (auto simp: om_del_def om_ok_Cons)

lemma om_ok_filter [simp, intro]: "om_ok m \<Longrightarrow> om_ok (filter P m)"
  by (induction m) (auto simp: om_ok_Cons)

lemma om_get_set [om_simps]: "map_of (om_set k v m) k' = (if k' = k then Some v else map_of m k')"
  by (induction k v m rule: om_set.induct) auto

lemma om_get_del [om_simps]: "map_of (om_del k m) k' = (if k' = k then None else map_of m k')"
  by (induction m) (auto simp: om_del_def)

lemma map_of_om_set: "map_of (om_set k v m) = (map_of m)(k \<mapsto> v)"
  by (rule ext) (simp add: om_get_set)

lemma map_of_om_del: "map_of (om_del k m) = (map_of m)(k := None)"
  by (rule ext) (simp add: om_get_del)

lemma om_at_set [om_simps]: "om_at d (om_set k v m) k' = (if k' = k then v else om_at d m k')"
  by (simp add: om_at_def om_get_set)

lemma set_om_set_subset: "set (om_set k v m) \<subseteq> insert (k, v) (set m)"
  by (induction k v m rule: om_set.induct) auto

lemma in_om_set: "om_ok m \<Longrightarrow> (k', v') \<in> set (om_set k v m) \<longleftrightarrow>
    (k' = k \<and> v' = v) \<or> (k' \<noteq> k \<and> (k', v') \<in> set m)"
  by (induction k v m rule: om_set.induct) (auto simp: om_ok_Cons)

lemma in_om_del [simp]: "(k', v') \<in> set (om_del k m) \<longleftrightarrow> k' \<noteq> k \<and> (k', v') \<in> set m"
  by (auto simp: om_del_def)

lemma om_get_iff_in: "om_ok m \<Longrightarrow> map_of m k = Some v \<longleftrightarrow> (k, v) \<in> set m"
  by (simp add: om_ok_def)

lemma keys_om_iter [simp]: "map fst (fst (om_iter f m s)) = map fst m"
  by (induction f m s rule: om_iter.induct) (auto split: prod.splits simp: Let_def)

lemma om_ok_iter [simp, intro]: "om_ok m \<Longrightarrow> om_ok (fst (om_iter f m s))"
  by (simp add: om_ok_def)

lemma keys_om_sweep: "set (map fst (fst (om_sweep f m s))) \<subseteq> set (map fst m)"
proof (induction f m s rule: om_sweep.induct)
  case (2 f k v m s)
  then show ?case
    by (auto split: prod.splits option.splits simp: Let_def) (metis fst_conv image_subset_iff)+
qed simp

lemma om_ok_sweep [simp, intro]: "om_ok m \<Longrightarrow> om_ok (fst (om_sweep f m s))"
proof (induction f m s rule: om_sweep.induct)
  case (2 f k v m s)
  obtain r s' where f: "f k v s = (r, s')" by force
  obtain m' s'' where m: "om_sweep f m s' = (m', s'')" by force
  from "2.prems" have lt: "\<forall>k' \<in> fst ` set m. k < k'" and "om_ok m" by (auto simp: om_ok_Cons)
  with "2.IH" f m have ok: "om_ok m'" by simp
  have "fst ` set m' \<subseteq> fst ` set m" using keys_om_sweep [of f m s'] m by simp
  with lt have "\<forall>k' \<in> fst ` set m'. k < k'" by blast
  with ok f m show ?case by (auto simp: om_ok_Cons split: option.splits)
qed simp

section \<open>Invariants of the values of a map\<close>

text \<open>\<open>om_all P m\<close>: every entry satisfies \<open>P\<close>; updates and loops keep it.\<close>

definition om_all :: "('k \<Rightarrow> 'v \<Rightarrow> bool) \<Rightarrow> ('k, 'v) omap \<Rightarrow> bool" where
  "om_all P m \<longleftrightarrow> (\<forall>(k, v) \<in> set m. P k v)"

lemma om_all_Nil [simp, intro]: "om_all P []"
  by (simp add: om_all_def)

lemma om_all_Cons [simp]: "om_all P ((k, v) # m) \<longleftrightarrow> P k v \<and> om_all P m"
  by (auto simp: om_all_def)

lemma om_all_set [intro]: "om_all P m \<Longrightarrow> P k v \<Longrightarrow> om_all P (om_set k v m)"
  by (induction k v m rule: om_set.induct) auto

lemma om_all_del [intro]: "om_all P m \<Longrightarrow> om_all P (om_del k m)"
  by (auto simp: om_all_def om_del_def)

lemma om_all_get: "om_all P m \<Longrightarrow> map_of m k = Some v \<Longrightarrow> P k v"
  by (auto simp: om_all_def dest: map_of_SomeD)

lemma om_all_at: "om_all P m \<Longrightarrow> P k d \<Longrightarrow> P k (om_at d m k)"
  by (auto simp: om_at_def dest: om_all_get split: option.splits)

lemma om_all_iter:
  assumes "om_all P m" and "\<And>k v s. P k v \<Longrightarrow> Q k (fst (f k v s))"
  shows "om_all Q (fst (om_iter f m s))"
  using assms
proof (induction f m s rule: om_iter.induct)
  case (2 f k v m s)
  obtain v' s' where f: "f k v s = (v', s')" by force
  obtain m' s'' where m: "om_iter f m s' = (m', s'')" by force
  have "om_all Q m'" using "2.IH" [of "(v', s')" v' s'] f m "2.prems" by simp
  moreover have "Q k v'" using "2.prems" f by (metis fst_conv om_all_Cons)
  ultimately show ?case using f m by simp
qed simp

lemma om_all_sweep:
  assumes "om_all P m" and "\<And>k v s v'. P k v \<Longrightarrow> fst (f k v s) = Some v' \<Longrightarrow> Q k v'"
  shows "om_all Q (fst (om_sweep f m s))"
  using assms
proof (induction f m s rule: om_sweep.induct)
  case (2 f k v m s)
  obtain r s' where f: "f k v s = (r, s')" by force
  obtain m' s'' where m: "om_sweep f m s' = (m', s'')" by force
  have "om_all Q m'" using "2.IH" [of "(r, s')" r s'] f m "2.prems" by simp
  moreover have "Q k v'" if "r = Some v'" for v'
    using "2.prems" f that by (metis fst_conv om_all_Cons)
  ultimately show ?case using f m by (auto split: option.splits)
qed simp

text \<open>The threaded state of a loop satisfies what every body keeps.\<close>

lemma om_iter_state:
  assumes "I s" and "\<And>k v s. (k, v) \<in> set m \<Longrightarrow> I s \<Longrightarrow> I (snd (f k v s))"
  shows "I (snd (om_iter f m s))"
  using assms
proof (induction f m s rule: om_iter.induct)
  case (2 f k v m s)
  obtain v' s' where f: "f k v s = (v', s')" by force
  obtain m' s'' where m: "om_iter f m s' = (m', s'')" by force
  have "I s'" using "2.prems"(2) [of k v s] "2.prems"(1) f by simp
  then have "I s''" using "2.IH" [of "(v', s')" v' s'] f m "2.prems"(2) by auto
  then show ?case using f m by simp
qed simp

text \<open>A predicate tying an entry to the threaded state, untouched by the visits of other entries.\<close>

lemma om_iter_each:
  fixes m :: "('k::linorder, 'v) omap"
  assumes step: "\<And>k v s. P k v s \<Longrightarrow> P k (fst (f k v s)) (snd (f k v s))"
    and other: "\<And>k v s k' v'. k' \<noteq> k \<Longrightarrow> P k v s \<Longrightarrow> P k' v' s \<Longrightarrow> P k' v' (snd (f k v s))"
    and "om_ok m" and "om_all (\<lambda>k v. P k v s) m"
  shows "om_all (\<lambda>k v. P k v (snd (om_iter f m s))) (fst (om_iter f m s))"
proof -
  have tail: "om_all (\<lambda>j u. P j u (snd (f k v0 s))) m"
    if "om_all (\<lambda>k v. P k v s) m" and "k \<notin> fst ` set m" and "P k v0 s" for k v0 s and m :: "('k, 'v) omap"
  proof -
    have "P j u (snd (f k v0 s))" if "(j, u) \<in> set m" for j u
    proof (rule other)
      show "j \<noteq> k" using \<open>k \<notin> fst ` set m\<close> that by force
      show "P j u s" using \<open>om_all (\<lambda>k v. P k v s) m\<close> that by (auto simp: om_all_def)
    qed fact
    then show ?thesis by (auto simp: om_all_def)
  qed
  have untouched: "P j u (snd (om_iter f m s))"
    if "om_ok m" and "om_all (\<lambda>k v. P k v s) m" and "j \<notin> fst ` set m" and "P j u s" for j u s m
    using that
  proof (induction m arbitrary: s)
    case (Cons kv m)
    obtain k v where kv: "kv = (k, v)" by force
    with Cons.prems have m: "om_ok m" "om_all (\<lambda>k v. P k v s) m" "k \<notin> fst ` set m" "P k v s" "j \<noteq> k" "j \<notin> fst ` set m"
      by (auto simp: om_ok_Cons)
    show ?case using Cons.IH [OF m(1) tail [OF m(2,3,4)] m(6) other [OF m(5,4) Cons.prems(4)]] kv
      by (simp add: case_prod_beta Let_def)
  qed simp
  show ?thesis using assms(3,4)
  proof (induction m arbitrary: s)
    case (Cons kv m)
    obtain k v where kv: "kv = (k, v)" by force
    with Cons.prems have m: "om_ok m" "om_all (\<lambda>k v. P k v s) m" "k \<notin> fst ` set m" "P k v s"
      by (auto simp: om_ok_Cons)
    note t = tail [OF m(2,3,4)]
    show ?case using Cons.IH [OF m(1) t] untouched [OF m(1) t m(3) step [OF m(4)]] kv
      by (simp add: case_prod_beta Let_def)
  qed simp
qed

text \<open>A sweep that decides by the entry alone keeps the entries it does not erase.\<close>

lemma om_sweep_filter:
  assumes "\<And>k v s. fst (f k v s) = (if Q k v then None else Some v)"
  shows "fst (om_sweep f m s) = filter (\<lambda>(k, v). \<not> Q k v) m"
proof (induction m arbitrary: s)
  case (Cons kv m)
  obtain k v where kv: "kv = (k, v)" by force
  show ?case using Cons [of "snd (f k v s)"] assms [of k v s] kv
    by (simp add: case_prod_beta Let_def)
qed simp

text \<open>The state a sweep threads, as a fold over the entries.\<close>

lemma om_sweep_state: "snd (om_sweep f m s) = fold (\<lambda>(k, v) s. snd (f k v s)) m s"
  by (induction m arbitrary: s) (auto simp: Let_def case_prod_beta)

section \<open>The map interface\<close>

text \<open>
  What the clients of \<open>std::map\<close> rely on; the components below use it only through
  these laws, which the association list discharges.
\<close>

locale std_map =
  fixes get :: "'m \<Rightarrow> 'k \<Rightarrow> 'v option"
    and put :: "'k \<Rightarrow> 'v \<Rightarrow> 'm \<Rightarrow> 'm"
    and erase :: "'k \<Rightarrow> 'm \<Rightarrow> 'm"
    and valid :: "'m \<Rightarrow> bool"
    and none :: 'm
  assumes get_none: "get none k = None"
    and get_put: "get (put k v m) k' = (if k' = k then Some v else get m k')"
    and get_erase: "get (erase k m) k' = (if k' = k then None else get m k')"
    and valid_none: "valid none"
    and valid_put: "valid m \<Longrightarrow> valid (put k v m)"
    and valid_erase: "valid m \<Longrightarrow> valid (erase k m)"
begin

lemma put_put: "get (put k v (put k u m)) = get (put k v m)"
  by (rule ext) (simp add: get_put)

lemma erase_put: "get (erase k (put k v m)) = get (erase k m)"
  by (rule ext) (simp add: get_put get_erase)

lemma put_commute: "k \<noteq> l \<Longrightarrow> get (put k v (put l u m)) = get (put l u (put k v m))"
  by (rule ext) (auto simp: get_put)

end

interpretation om: std_map map_of om_set om_del om_ok "[] :: ('k::linorder, 'v) omap"
  by unfold_locales (auto simp: om_simps)

section \<open>Published sets\<close>

text \<open>
  A module that owns a map of objects and keeps a set of the keys whose object satisfies
  \<open>P\<close> for other modules to read.  If the body of a loop keeps the set right for the entry
  it visits and leaves the rest of the set alone, the whole loop keeps it right.
\<close>

locale published =
  fixes body :: "'k::linorder \<Rightarrow> 'v \<Rightarrow> 's \<Rightarrow> 'v \<times> 's"
    and ok :: "'k \<Rightarrow> 'v \<Rightarrow> bool"
    and P :: "'v \<Rightarrow> bool"
    and view :: "'s \<Rightarrow> 'k set"
  assumes body_ok: "ok k v \<Longrightarrow> ok k (fst (body k v s))"
    and body_view: "ok k v \<Longrightarrow> k \<in> view s \<longleftrightarrow> P v \<Longrightarrow>
      k \<in> view (snd (body k v s)) \<longleftrightarrow> P (fst (body k v s))"
    and body_frame: "ok k v \<Longrightarrow> j \<noteq> k \<Longrightarrow> j \<in> view (snd (body k v s)) \<longleftrightarrow> j \<in> view s"
begin

lemma iter_frame: "om_all ok m \<Longrightarrow> j \<notin> fst ` set m \<Longrightarrow>
    j \<in> view (snd (om_iter body m s)) \<longleftrightarrow> j \<in> view s"
proof (induction m arbitrary: s)
  case (Cons kv m)
  obtain k v where kv: "kv = (k, v)" by force
  with Cons.prems have "ok k v" and "j \<noteq> k" and m: "om_all ok m" "j \<notin> fst ` set m" by auto
  then show ?case using Cons.IH [OF m, of "snd (body k v s)"] body_frame [of k v j s] kv
    by (simp add: case_prod_beta Let_def)
qed simp

lemma iter_view:
  assumes "om_ok m" and "om_all ok m" and "om_all (\<lambda>k v. k \<in> view s \<longleftrightarrow> P v) m"
  shows "om_all (\<lambda>k v. k \<in> view (snd (om_iter body m s)) \<longleftrightarrow> P v) (fst (om_iter body m s))"
  using assms
proof (induction m arbitrary: s)
  case (Cons kv m)
  obtain k v where kv: "kv = (k, v)" by force
  let ?s = "snd (body k v s)"
  from Cons.prems kv have ok: "ok k v" and m: "om_ok m" "om_all ok m" and new: "k \<notin> fst ` set m"
    and pv: "k \<in> view s \<longleftrightarrow> P v" by (auto simp: om_ok_Cons)
  have "j \<in> view ?s \<longleftrightarrow> P u" if "(j, u) \<in> set m" for j u
  proof -
    have "j \<noteq> k" using new that by force
    then show ?thesis using Cons.prems(3) kv that body_frame [OF ok, of j s] by (auto simp: om_all_def)
  qed
  then have "om_all (\<lambda>k v. k \<in> view ?s \<longleftrightarrow> P v) m" by (auto simp: om_all_def)
  from Cons.IH [OF m this] have tail:
    "om_all (\<lambda>k v. k \<in> view (snd (om_iter body m ?s)) \<longleftrightarrow> P v) (fst (om_iter body m ?s))" .
  have "k \<in> view (snd (om_iter body m ?s)) \<longleftrightarrow> P (fst (body k v s))"
    using iter_frame [OF m(2) new, of ?s] body_view [OF ok pv] by simp
  with tail kv show ?case by (simp add: case_prod_beta Let_def)
qed simp

end

section \<open>Capped vectors\<close>

declare suffix_snoc [simp del]

text \<open>\<open>v.push_back(x); if (v.size() > cap) v.erase(v.begin());\<close>\<close>

definition push_cap :: "nat \<Rightarrow> 'a \<Rightarrow> 'a list \<Rightarrow> 'a list" where
  "push_cap cap x v = (let v' = v @ [x] in if length v' > cap then tl v' else v')"

locale bounded_log =
  fixes push :: "'a \<Rightarrow> 'a list \<Rightarrow> 'a list" and cap :: nat
  assumes push_le: "length v \<le> cap \<Longrightarrow> length (push x v) \<le> cap"
    and push_suffix: "suffix (push x v) (v @ [x])"
    and push_keeps: "length v < cap \<Longrightarrow> push x v = v @ [x]"
begin

lemma fold_push_le: "length v \<le> cap \<Longrightarrow> length (fold push xs v) \<le> cap"
  by (induction xs arbitrary: v) (auto intro: push_le)

lemma fold_push_suffix: "suffix (fold push xs v) (v @ xs)"
proof (induction xs arbitrary: v)
  case (Cons x xs)
  have "suffix (push x v @ xs) (v @ x # xs)"
    using push_suffix [of x v] by (auto simp: suffix_def)
  with Cons [of "push x v"] show ?case by (auto intro: suffix_order.trans)
qed simp

end

lemma push_cap_len: "length v \<le> cap \<Longrightarrow> length (push_cap cap x v) \<le> cap"
  by (auto simp: push_cap_def Let_def)

lemma push_cap_suffix: "suffix (push_cap cap x v) (v @ [x])"
  by (cases v) (auto simp: push_cap_def Let_def suffix_def)

interpretation capped: bounded_log "push_cap cap" cap for cap
  by (unfold_locales; (rule push_cap_suffix | (rule push_cap_len, assumption) | simp add: push_cap_def))

lemma last_push_cap: "0 < cap \<Longrightarrow> push_cap cap x v \<noteq> [] \<and> last (push_cap cap x v) = x"
  by (cases v) (auto simp: push_cap_def Let_def)

section \<open>Computations that may throw\<close>

text \<open>
  C++ code that throws keeps the side effects it made before the throw, so a step
  returns its state next to either an exception or a value.
\<close>

type_synonym ('e, 's, 'a) thrower = "'s \<Rightarrow> ('e + 'a) \<times> 's"

definition ret :: "'a \<Rightarrow> ('e, 's, 'a) thrower" where
  "ret x = (\<lambda>s. (Inr x, s))"

definition throw :: "'e \<Rightarrow> ('e, 's, 'a) thrower" where
  "throw e = (\<lambda>s. (Inl e, s))"

definition andthen :: "('e, 's, 'a) thrower \<Rightarrow> ('a \<Rightarrow> ('e, 's, 'b) thrower) \<Rightarrow> ('e, 's, 'b) thrower" where
  "andthen m f = (\<lambda>s. case m s of (Inl e, s') \<Rightarrow> (Inl e, s') | (Inr x, s') \<Rightarrow> f x s')"

primrec seqs :: "('e, 's, unit) thrower list \<Rightarrow> ('e, 's, unit) thrower" where
  "seqs [] = ret ()"
| "seqs (m # ms) = andthen m (\<lambda>_. seqs ms)"

definition modify :: "('s \<Rightarrow> 's) \<Rightarrow> ('e, 's, unit) thrower" where
  "modify f = (\<lambda>s. (Inr (), f s))"

definition reads :: "('s \<Rightarrow> 'a) \<Rightarrow> ('e, 's, 'a) thrower" where
  "reads f = (\<lambda>s. (Inr (f s), s))"

text \<open>
  \<open>keeps I E m\<close>: from a state satisfying \<open>I\<close> the computation ends in one satisfying
  \<open>I\<close>, and if it throws, it throws something \<open>E\<close> allows.
\<close>

definition keeps :: "('s \<Rightarrow> bool) \<Rightarrow> ('e \<Rightarrow> bool) \<Rightarrow> ('e, 's, 'a) thrower \<Rightarrow> bool" where
  "keeps I E m \<longleftrightarrow> (\<forall>s. I s \<longrightarrow> I (snd (m s)) \<and> (\<forall>e. fst (m s) = Inl e \<longrightarrow> E e))"

lemma keeps_ret [intro, simp]: "keeps I E (ret x)"
  by (simp add: keeps_def ret_def)

lemma keeps_throw [intro]: "E e \<Longrightarrow> keeps I E (throw e)"
  by (simp add: keeps_def throw_def)

lemma keeps_reads [intro, simp]: "keeps I E (reads f)"
  by (simp add: keeps_def reads_def)

lemma keeps_modify [intro]: "(\<And>s. I s \<Longrightarrow> I (f s)) \<Longrightarrow> keeps I E (modify f)"
  by (simp add: keeps_def modify_def)

lemma keeps_andthen [intro]:
  assumes "keeps I E m" and "\<And>x. keeps I E (f x)"
  shows "keeps I E (andthen m f)"
  unfolding keeps_def
proof (intro allI impI)
  fix s assume s: "I s"
  obtain r s' where r: "m s = (r, s')" by force
  have "I s'" and "\<forall>e. r = Inl e \<longrightarrow> E e" using assms(1) s r by (auto simp: keeps_def)
  then show "I (snd (andthen m f s)) \<and> (\<forall>e. fst (andthen m f s) = Inl e \<longrightarrow> E e)"
    using assms(2) r by (cases r) (auto simp: andthen_def keeps_def)
qed

lemma keeps_seqs [intro]: "(\<And>m. m \<in> set ms \<Longrightarrow> keeps I E m) \<Longrightarrow> keeps I E (seqs ms)"
  by (induction ms) auto

text \<open>Run in order and collect the values.\<close>

primrec gather :: "('e, 's, 'a) thrower list \<Rightarrow> ('e, 's, 'a list) thrower" where
  "gather [] = ret []"
| "gather (m # ms) = andthen m (\<lambda>x. andthen (gather ms) (\<lambda>xs. ret (x # xs)))"

lemma keeps_gather [intro]: "(\<And>m. m \<in> set ms \<Longrightarrow> keeps I E m) \<Longrightarrow> keeps I E (gather ms)"
  by (induction ms) auto

text \<open>\<open>yields I Q m\<close>: a normal return from a state satisfying \<open>I\<close> gives a value satisfying \<open>Q\<close>.\<close>

definition yields :: "('s \<Rightarrow> bool) \<Rightarrow> ('a \<Rightarrow> bool) \<Rightarrow> ('e, 's, 'a) thrower \<Rightarrow> bool" where
  "yields I Q m \<longleftrightarrow> (\<forall>s x s'. I s \<longrightarrow> m s = (Inr x, s') \<longrightarrow> Q x \<and> I s')"

lemma yields_ret [intro]: "Q x \<Longrightarrow> yields I Q (ret x)"
  by (simp add: yields_def ret_def)

lemma yields_throw [intro, simp]: "yields I Q (throw e)"
  by (simp add: yields_def throw_def)

lemma yieldsD: "yields I Q m \<Longrightarrow> I s \<Longrightarrow> m s = (Inr x, s') \<Longrightarrow> Q x \<and> I s'"
  by (auto simp: yields_def)

lemma yields_andthen:
  assumes "yields I P m" and "\<And>x. P x \<Longrightarrow> yields I Q (f x)"
  shows "yields I Q (andthen m f)"
  unfolding yields_def
proof (intro allI impI)
  fix s y s' assume s: "I s" and r: "andthen m f s = (Inr y, s')"
  obtain x s1 where m: "m s = (Inr x, s1)" and f: "f x s1 = (Inr y, s')"
    using r by (auto simp: andthen_def split: prod.splits sum.splits)
  have x: "P x \<and> I s1" by (rule yieldsD [OF assms(1) s m])
  then show "Q y \<and> I s'" using yieldsD [OF assms(2) _ f] by blast
qed

lemma yields_weaken: "yields I Q m \<Longrightarrow> (\<And>x. Q x \<Longrightarrow> Q' x) \<Longrightarrow> yields I Q' m"
  by (auto simp: yields_def)

lemma yields_if: "yields I Q p \<Longrightarrow> (\<not> b \<Longrightarrow> yields I Q q) \<Longrightarrow> yields I Q (if b then p else q)"
  by simp

lemma yields_keeps: "keeps I E m \<Longrightarrow> yields I (\<lambda>_. True) m"
  unfolding keeps_def yields_def by (metis snd_conv)

lemma keeps_andthen_yields:
  assumes "keeps I E m" and "yields I P m" and "\<And>x. P x \<Longrightarrow> keeps I E (f x)"
  shows "keeps I E (andthen m f)"
  unfolding keeps_def
proof (intro allI impI)
  fix s assume s: "I s"
  obtain r s' where r: "m s = (r, s')" by force
  have e: "\<forall>e. r = Inl e \<longrightarrow> E e" and s': "I s'" using assms(1) s r by (auto simp: keeps_def)
  show "I (snd (andthen m f s)) \<and> (\<forall>e. fst (andthen m f s) = Inl e \<longrightarrow> E e)"
  proof (cases r)
    case (Inl a)
    with e s' r show ?thesis by (simp add: andthen_def)
  next
    case (Inr x)
    then have "P x" using yieldsD [OF assms(2) s] r by blast
    from assms(3) [OF this] s' have "I (snd (f x s')) \<and> (\<forall>e. fst (f x s') = Inl e \<longrightarrow> E e)"
      by (simp add: keeps_def)
    with r Inr show ?thesis by (simp add: andthen_def)
  qed
qed

lemmas monad_defs = ret_def throw_def andthen_def modify_def reads_def

end
