(* ===== verification/Bytes.thy ===== *)
theory Bytes
  imports Prelude
begin

text \<open>
  \<open>backend/src/util/bytes.h\<close>: the bounds-checked big-endian reader all decoders use
  and the formatting helpers for MAC addresses, 64-bit identifiers and hex values.
  A reader is the byte span with a position; reading past the end throws
  \<open>ShortFrame\<close>.  An access outside the span would be undefined behaviour in C++: the
  model makes it the distinct exception \<open>OutOfBounds\<close>.  The parsers' \<open>while\<close> loops
  run on fuel, one more than the bytes left, and running out of it is the exception
  \<open>OutOfFuel\<close>.  The lemmas show that neither is ever thrown: reads stay in the span,
  and a loop whose every round reads a byte ends before its fuel does.
\<close>

datatype exn = ShortFrame string | OutOfBounds | OutOfFuel

record reader =
  rdata :: "byte list"
  rpos :: nat

definition BeReader :: "byte list \<Rightarrow> reader" where
  "BeReader d = \<lparr>rdata = d, rpos = 0\<rparr>"

definition remaining :: "reader \<Rightarrow> nat" where
  "remaining r = length (rdata r) - rpos r"

text \<open>A parser threads the reader and a further state it writes its results to.\<close>

type_synonym ('s, 'a) parser = "(exn, reader \<times> 's, 'a) thrower"

definition need :: "nat \<Rightarrow> string \<Rightarrow> ('s, unit) parser" where
  "need n what = (\<lambda>(r, s).
     if remaining r < n
     then (Inl (ShortFrame (''truncated '' @ what @ '' (need '' @ nat_str n @ '' bytes, have '' @
             nat_str (remaining r) @ '')'')), (r, s))
     else (Inr (), (r, s)))"

text \<open>The bytes at \<open>mPos .. mPos + n - 1\<close>, and the position moved past them.\<close>

definition fetch :: "nat \<Rightarrow> ('s, byte list) parser" where
  "fetch n = (\<lambda>(r, s).
     if rpos r + n \<le> length (rdata r)
     then (Inr (take n (drop (rpos r) (rdata r))), (r\<lparr>rpos := rpos r + n\<rparr>, s))
     else (Inl OutOfBounds, (r, s)))"

text \<open>The loop \<open>v = (v << 8) | byte\<close>.\<close>

definition be_word :: "byte list \<Rightarrow> 'a::len word" where
  "be_word bs = foldl (\<lambda>v b. push_bit 8 v OR ucast b) 0 bs"

definition r_u8 :: "string \<Rightarrow> ('s, u8) parser" where
  "r_u8 what = andthen (need 1 what) (\<lambda>_. andthen (fetch 1) (\<lambda>bs. ret (bs ! 0)))"

definition r_u16 :: "string \<Rightarrow> ('s, u16) parser" where
  "r_u16 what = andthen (need 2 what) (\<lambda>_. andthen (fetch 2) (\<lambda>bs.
     ret (push_bit 8 (ucast (bs ! 0)) OR ucast (bs ! 1))))"

definition r_u32 :: "string \<Rightarrow> ('s, u32) parser" where
  "r_u32 what = andthen (need 4 what) (\<lambda>_. andthen (fetch 4) (\<lambda>bs.
     ret (push_bit 24 (ucast (bs ! 0)) OR push_bit 16 (ucast (bs ! 1)) OR
          push_bit 8 (ucast (bs ! 2)) OR ucast (bs ! 3))))"

definition r_u48 :: "string \<Rightarrow> ('s, u64) parser" where
  "r_u48 what = andthen (need 6 what) (\<lambda>_. andthen (fetch 6) (\<lambda>bs. ret (be_word bs)))"

definition r_u64 :: "string \<Rightarrow> ('s, u64) parser" where
  "r_u64 what = andthen (need 8 what) (\<lambda>_. andthen (fetch 8) (\<lambda>bs. ret (be_word bs)))"

definition r_bytes :: "nat \<Rightarrow> string \<Rightarrow> ('s, byte list) parser" where
  "r_bytes n what = andthen (need n what) (\<lambda>_. fetch n)"

definition r_skip :: "nat \<Rightarrow> string \<Rightarrow> ('s, unit) parser" where
  "r_skip n what = andthen (need n what) (\<lambda>_. andthen (fetch n) (\<lambda>_. ret ()))"

definition r_remaining :: "('s, nat) parser" where
  "r_remaining = reads (\<lambda>(r, s). remaining r)"

definition r_pos :: "('s, nat) parser" where
  "r_pos = reads (\<lambda>(r, s). rpos r)"

text \<open>
  A parser run on a reader of its own, as \<open>BeReader body(r.bytes(\<dots>))\<close> opens one: the
  outer reader is untouched, the result state is kept.
\<close>

definition with_reader :: "byte list \<Rightarrow> ('s, 'a) parser \<Rightarrow> ('s, 'a) parser" where
  "with_reader d p = (\<lambda>(r, s). case p (BeReader d, s) of (res, (_, s')) \<Rightarrow> (res, (r, s')))"

text \<open>
  A \<open>while\<close> loop: the body stops with a result (\<open>Inl\<close>) or goes round again (\<open>Inr\<close>).
\<close>

primrec iterate :: "nat \<Rightarrow> ('a \<Rightarrow> ('s, 'b + 'a) parser) \<Rightarrow> 'a \<Rightarrow> ('s, 'b) parser" where
  "iterate 0 body x = throw OutOfFuel"
| "iterate (Suc n) body x = andthen (body x) (\<lambda>r. case r of Inl y \<Rightarrow> ret y | Inr x' \<Rightarrow> iterate n body x')"

definition loop :: "('a \<Rightarrow> ('s, 'b + 'a) parser) \<Rightarrow> 'a \<Rightarrow> ('s, 'b) parser" where
  "loop body x = (\<lambda>(r, s). iterate (Suc (remaining r)) body x (r, s))"

text \<open>\<open>packed[i]\<close> on a span.\<close>

definition index :: "byte list \<Rightarrow> nat \<Rightarrow> (exn, 's, byte) thrower" where
  "index d i = (if i < length d then ret (d ! i) else throw OutOfBounds)"

section \<open>Formatting\<close>

definition hex2 :: "byte \<Rightarrow> string" where
  "hex2 b = hex_pad 2 (unat b)"

definition macStr_bytes :: "byte list \<Rightarrow> string" where
  "macStr_bytes m = hex2 (m ! 0) @ '':'' @ hex2 (m ! 1) @ '':'' @ hex2 (m ! 2) @ '':'' @
     hex2 (m ! 3) @ '':'' @ hex2 (m ! 4) @ '':'' @ hex2 (m ! 5)"

definition macStr :: "u64 \<Rightarrow> string" where
  "macStr m48 = macStr_bytes (map (\<lambda>i. ucast (drop_bit (8 * (5 - i)) m48)) [0..<6])"

definition idStr :: "u64 \<Rightarrow> string" where
  "idStr v = ''0x'' @ hex_pad 16 (unat v)"

definition hexStr :: "u64 \<Rightarrow> nat \<Rightarrow> string" where
  "hexStr v digits = ''0x'' @ (if digits > 0 then hex_pad digits (unat v) else hex_digits (unat v))"

definition hexDump :: "byte list \<Rightarrow> string" where
  "hexDump d = concat (map (\<lambda>b. [digit_char (unat (drop_bit 4 b)), digit_char (unat (b AND 0xf))]) d)"

definition byte_char :: "byte \<Rightarrow> char" where
  "byte_char c = char_of (unat c)"

definition paddedStr :: "byte list \<Rightarrow> string" where
  "paddedStr d = map (\<lambda>c. if 0x20 \<le> c \<and> c < 0x7f then byte_char c else CHR ''.'')
     (rev (dropWhile (\<lambda>b. b = 0) (rev d)))"

section \<open>The reader never leaves its span\<close>

definition rd_ok :: "reader \<times> 's \<Rightarrow> bool" where
  "rd_ok = (\<lambda>(r, s). rpos r \<le> length (rdata r))"

definition no_oob :: "exn \<Rightarrow> bool" where
  "no_oob e \<longleftrightarrow> e \<noteq> OutOfBounds \<and> e \<noteq> OutOfFuel"

abbreviation in_span :: "('s, 'a) parser \<Rightarrow> bool" where
  "in_span p \<equiv> keeps rd_ok no_oob p"

lemma no_oob_ShortFrame [simp, intro]: "no_oob (ShortFrame w)"
  by (simp add: no_oob_def)

lemma in_span_read:
  assumes "\<And>bs. in_span (f bs)"
  shows "in_span (andthen (need n what) (\<lambda>_. andthen (fetch n) f))"
  unfolding keeps_def
proof (intro allI impI)
  fix s :: "reader \<times> 'a" assume ok: "rd_ok s"
  obtain r t where s: "s = (r, t)" by force
  show "rd_ok (snd (andthen (need n what) (\<lambda>_. andthen (fetch n) f) s)) \<and>
        (\<forall>e. fst (andthen (need n what) (\<lambda>_. andthen (fetch n) f) s) = Inl e \<longrightarrow> no_oob e)"
  proof (cases "remaining r < n")
    case True
    with ok s show ?thesis by (simp add: andthen_def need_def)
  next
    case False
    let ?r = "r\<lparr>rpos := rpos r + n\<rparr>"
    from False ok s have fit: "rpos r + n \<le> length (rdata r)"
      by (simp add: remaining_def rd_ok_def)
    then have "rd_ok (?r, t)" by (simp add: rd_ok_def)
    with assms [unfolded keeps_def] fit s False show ?thesis
      by (simp add: andthen_def need_def fetch_def)
  qed
qed

lemma in_span_need [intro, simp]: "in_span (need n what)"
  by (auto simp: keeps_def need_def)

lemma in_span_u8 [intro, simp]: "in_span (r_u8 what)"
  unfolding r_u8_def by (rule in_span_read) simp

lemma in_span_u16 [intro, simp]: "in_span (r_u16 what)"
  unfolding r_u16_def by (rule in_span_read) simp

lemma in_span_u32 [intro, simp]: "in_span (r_u32 what)"
  unfolding r_u32_def by (rule in_span_read) simp

lemma in_span_u48 [intro, simp]: "in_span (r_u48 what)"
  unfolding r_u48_def by (rule in_span_read) simp

lemma in_span_u64 [intro, simp]: "in_span (r_u64 what)"
  unfolding r_u64_def by (rule in_span_read) simp

lemma in_span_skip [intro, simp]: "in_span (r_skip n what)"
  unfolding r_skip_def by (rule in_span_read) simp

lemma andthen_ret [simp]: "andthen m ret = m"
  by (rule ext) (auto simp: andthen_def ret_def split: prod.splits sum.splits)

lemma in_span_bytes [intro, simp]: "in_span (r_bytes n what)"
  using in_span_read [of ret n what] by (simp add: r_bytes_def)

lemma in_span_remaining [intro, simp]: "in_span r_remaining"
  by (simp add: r_remaining_def)

lemma in_span_pos [intro, simp]: "in_span r_pos"
  by (simp add: r_pos_def)

lemma in_span_with_reader [intro]:
  assumes "in_span p" shows "in_span (with_reader d p)"
  unfolding keeps_def
proof (intro allI impI)
  fix s :: "reader \<times> 'a" assume ok: "rd_ok s"
  obtain r t where s: "s = (r, t)" by force
  obtain res r' t' where p: "p (BeReader d, t) = (res, (r', t'))" by (metis surj_pair)
  have "rd_ok (BeReader d, t)" by (simp add: rd_ok_def BeReader_def)
  with assms have "\<forall>e. fst (p (BeReader d, t)) = Inl e \<longrightarrow> no_oob e"
    unfolding keeps_def by blast
  with p s ok show "rd_ok (snd (with_reader d p s)) \<and>
      (\<forall>e. fst (with_reader d p s) = Inl e \<longrightarrow> no_oob e)"
    by (simp add: with_reader_def rd_ok_def)
qed

section \<open>Parsers that move forward\<close>

text \<open>\<open>adv k p\<close>: a normal return of \<open>p\<close> leaves the same span, at least \<open>k\<close> bytes further on.\<close>

definition adv :: "nat \<Rightarrow> ('s, 'a) parser \<Rightarrow> bool" where
  "adv k p \<longleftrightarrow> (\<forall>r s x r' s'. rd_ok (r, s) \<longrightarrow> p (r, s) = (Inr x, (r', s')) \<longrightarrow>
     rdata r' = rdata r \<and> rpos r + k \<le> rpos r' \<and> rd_ok (r', s'))"

lemma adv_ret [intro, simp]: "adv 0 (ret x)"
  by (simp add: adv_def ret_def)

lemma adv_throw [intro, simp]: "adv k (throw e)"
  by (simp add: adv_def throw_def)

lemma adv_reads [intro, simp]: "adv 0 r_remaining" "adv 0 r_pos"
  by (auto simp: adv_def r_remaining_def r_pos_def reads_def)

lemma adv_modify [intro]: "(\<And>r s. fst (f (r, s)) = r) \<Longrightarrow> adv 0 (modify f)"
  by (auto simp: adv_def modify_def rd_ok_def) (metis fst_conv order_refl)+

lemma adv_andthen [intro]:
  assumes "adv a p" and "\<And>x. adv b (f x)"
  shows "adv (a + b) (andthen p f)"
  unfolding adv_def
proof (intro allI impI)
  fix r s y r' s'
  assume ok: "rd_ok (r, s)" and res: "andthen p f (r, s) = (Inr y, (r', s'))"
  obtain x r1 s1 where p: "p (r, s) = (Inr x, (r1, s1))" and f: "f x (r1, s1) = (Inr y, (r', s'))"
    using res by (auto simp: andthen_def split: prod.splits sum.splits)
  have "rdata r1 = rdata r \<and> rpos r + a \<le> rpos r1 \<and> rd_ok (r1, s1)"
    using assms(1) ok p unfolding adv_def by blast
  moreover from this have "rdata r' = rdata r1 \<and> rpos r1 + b \<le> rpos r' \<and> rd_ok (r', s')"
    using assms(2) f unfolding adv_def by blast
  ultimately show "rdata r' = rdata r \<and> rpos r + (a + b) \<le> rpos r' \<and> rd_ok (r', s')" by simp
qed

lemma adv_weaken: "adv a p \<Longrightarrow> b \<le> a \<Longrightarrow> adv b p"
  unfolding adv_def by (meson add_left_mono le_trans)

lemma adv_after: "adv 0 p \<Longrightarrow> (\<And>x. adv b (f x)) \<Longrightarrow> adv b (andthen p f)"
  using adv_andthen [of 0 p b f] by simp

lemma adv_seqs [intro]: "(\<And>m. m \<in> set ms \<Longrightarrow> adv 0 m) \<Longrightarrow> adv 0 (seqs ms)"
  by (induction ms) (auto intro!: adv_after)

lemma adv_need [intro, simp]: "adv 0 (need n what)"
  by (auto simp: adv_def need_def split: if_splits)

lemma adv_fetch: "adv n (fetch n)"
  by (auto simp: adv_def fetch_def rd_ok_def split: if_splits)

lemma adv_read: "(\<And>bs. adv 0 (f bs)) \<Longrightarrow> adv n (andthen (need n what) (\<lambda>_. andthen (fetch n) f))"
  using adv_andthen [OF adv_need adv_andthen [OF adv_fetch]] by fastforce

lemma adv_reader [intro, simp]: "adv 1 (r_u8 what)" "adv 2 (r_u16 what)" "adv 4 (r_u32 what)"
  "adv 6 (r_u48 what)" "adv 8 (r_u64 what)" "adv n (r_bytes n what)" "adv n (r_skip n what)"
  unfolding r_u8_def r_u16_def r_u32_def r_u48_def r_u64_def r_skip_def
  using adv_read [of ret n what] by (auto intro!: adv_read simp: r_bytes_def)

lemma adv_with_reader [intro, simp]: "adv 0 (with_reader d p)"
  by (auto simp: adv_def with_reader_def rd_ok_def split: prod.splits)

text \<open>A loop body that reads something whenever it goes round again.\<close>

definition progress :: "('a \<Rightarrow> ('s, 'b + 'a) parser) \<Rightarrow> bool" where
  "progress body \<longleftrightarrow> (\<forall>x r s x' r' s'. rd_ok (r, s) \<longrightarrow> body x (r, s) = (Inr (Inr x'), (r', s')) \<longrightarrow>
     rdata r' = rdata r \<and> rpos r < rpos r' \<and> rd_ok (r', s'))"

definition progresses :: "('s, 'b + 'a) parser \<Rightarrow> bool" where
  "progresses p \<longleftrightarrow> (\<forall>r s x' r' s'. rd_ok (r, s) \<longrightarrow> p (r, s) = (Inr (Inr x'), (r', s')) \<longrightarrow>
     rdata r' = rdata r \<and> rpos r < rpos r' \<and> rd_ok (r', s'))"

lemma progressI: "(\<And>x. progresses (body x)) \<Longrightarrow> progress body"
  by (simp add: progress_def progresses_def)

lemma progresses_stop [intro, simp]: "progresses (ret (Inl y))"
  by (simp add: progresses_def ret_def)

lemma progresses_throw [intro, simp]: "progresses (throw e)"
  by (simp add: progresses_def throw_def)

lemma progresses_adv: "adv k p \<Longrightarrow> 0 < k \<Longrightarrow> progresses p"
  unfolding progresses_def adv_def by (meson add_less_cancel_left less_add_same_cancel1 less_le_trans)

lemma progresses_read:
  assumes "adv k p" and "0 < k" and "\<And>x. adv 0 (f x)"
  shows "progresses (andthen p f)"
  using progresses_adv [OF adv_andthen [OF assms(1,3)]] assms(2) by simp

lemma progresses_if: "progresses p \<Longrightarrow> progresses q \<Longrightarrow> progresses (if b then p else q)"
  by simp

lemma adv_if: "adv k p \<Longrightarrow> adv k q \<Longrightarrow> adv k (if b then p else q)"
  by simp

lemma adv_reader0 [intro, simp]: "adv 0 (r_u8 what)" "adv 0 (r_u16 what)" "adv 0 (r_u32 what)"
  "adv 0 (r_u48 what)" "adv 0 (r_u64 what)" "adv 0 (r_bytes n what)" "adv 0 (r_skip n what)"
  by (auto intro: adv_weaken [OF adv_reader(1)] adv_weaken [OF adv_reader(2)] adv_weaken [OF adv_reader(3)]
      adv_weaken [OF adv_reader(4)] adv_weaken [OF adv_reader(5)] adv_weaken [OF adv_reader(6)]
      adv_weaken [OF adv_reader(7)])

lemma adv_iterate: "(\<And>x. adv 0 (body x)) \<Longrightarrow> adv 0 (iterate n body x)"
  by (induction n arbitrary: x) (auto intro!: adv_after split: sum.splits)

lemma adv_loop [intro]: "(\<And>x. adv 0 (body x)) \<Longrightarrow> adv 0 (loop body x)"
proof -
  assume "\<And>x. adv 0 (body x)"
  then have it: "adv 0 (iterate n body x)" for n by (rule adv_iterate)
  show ?thesis
    unfolding adv_def loop_def split_conv
  proof (intro allI impI)
    fix r s y r' s'
    assume "rd_ok (r, s)" and "iterate (Suc (remaining r)) body x (r, s) = (Inr y, r', s')"
    with it [of "Suc (remaining r)", unfolded adv_def]
    show "rdata r' = rdata r \<and> rpos r + 0 \<le> rpos r' \<and> rd_ok (r', s')" by blast
  qed
qed

lemmas adv_intros = adv_after adv_if adv_reader0 adv_reads adv_ret adv_throw adv_loop

lemma progresses_after:
  assumes "adv 0 p" and "\<And>x. progresses (f x)"
  shows "progresses (andthen p f)"
  unfolding progresses_def
proof (intro allI impI)
  fix r s y r' s'
  assume ok: "rd_ok (r, s)" and res: "andthen p f (r, s) = (Inr (Inr y), (r', s'))"
  obtain x r1 s1 where p: "p (r, s) = (Inr x, (r1, s1))" and f: "f x (r1, s1) = (Inr (Inr y), (r', s'))"
    using res by (auto simp: andthen_def split: prod.splits sum.splits)
  have "rdata r1 = rdata r \<and> rpos r + 0 \<le> rpos r1 \<and> rd_ok (r1, s1)"
    using assms(1) ok p unfolding adv_def by blast
  moreover from this have "rdata r' = rdata r1 \<and> rpos r1 < rpos r' \<and> rd_ok (r', s')"
    using assms(2) f unfolding progresses_def by blast
  ultimately show "rdata r' = rdata r \<and> rpos r < rpos r' \<and> rd_ok (r', s')" by simp
qed

lemma iterate_in_span:
  assumes "\<And>x. in_span (body x)" and "progress body"
  shows "rd_ok (r, s) \<Longrightarrow> remaining r < n \<Longrightarrow>
    rd_ok (snd (iterate n body x (r, s))) \<and> (\<forall>e. fst (iterate n body x (r, s)) = Inl e \<longrightarrow> no_oob e)"
proof (induction n arbitrary: x r s)
  case (Suc n)
  obtain res r1 s1 where b: "body x (r, s) = (res, (r1, s1))" by (metis prod.collapse)
  have ok: "rd_ok (r1, s1)" and err: "\<forall>e. res = Inl e \<longrightarrow> no_oob e"
    using assms(1) [unfolded keeps_def] Suc.prems(1) b by (metis fst_conv snd_conv)+
  show ?case
  proof (cases res)
    case (Inl e)
    with b ok err show ?thesis by (simp add: andthen_def)
  next
    case (Inr y)
    show ?thesis
    proof (cases y)
      case (Inl z)
      with b Inr ok show ?thesis by (simp add: andthen_def ret_def)
    next
      case x': (Inr x')
      have "rdata r1 = rdata r" "rpos r < rpos r1"
        using assms(2) Suc.prems(1) b Inr x' unfolding progress_def by blast+
      moreover have "rpos r1 \<le> length (rdata r1)" using ok by (simp add: rd_ok_def)
      ultimately have "remaining r1 < n" using Suc.prems(2) by (simp add: remaining_def)
      from Suc.IH [OF ok this] b Inr x' show ?thesis by (simp add: andthen_def)
    qed
  qed
qed simp

lemma in_span_loop [intro]:
  assumes "\<And>x. in_span (body x)" and "progress body"
  shows "in_span (loop body x)"
  unfolding keeps_def loop_def
  using iterate_in_span [OF assms] by fastforce

lemma iterate_yields:
  assumes "\<And>x. J x \<Longrightarrow> yields rd_ok (\<lambda>r. case r of Inl y \<Rightarrow> Q y | Inr x' \<Rightarrow> J x') (body x)"
  shows "J x \<Longrightarrow> yields rd_ok Q (iterate n body x)"
proof (induction n arbitrary: x)
  case (Suc n)
  show ?case unfolding iterate.simps
    by (rule yields_andthen [OF assms [OF Suc.prems]]) (auto intro: Suc.IH split: sum.splits)
qed simp

lemma loop_yields:
  assumes "\<And>x. J x \<Longrightarrow> yields rd_ok (\<lambda>r. case r of Inl y \<Rightarrow> Q y | Inr x' \<Rightarrow> J x') (body x)" and "J x"
  shows "yields rd_ok Q (loop body x)"
  using iterate_yields [of J Q body, OF assms(1) assms(2)] unfolding yields_def loop_def by fastforce

lemma yields_bytes: "yields rd_ok (\<lambda>bs. length bs = n) (r_bytes n what)"
  by (auto simp: yields_def r_bytes_def andthen_def need_def fetch_def rd_ok_def split: if_splits)

lemma keeps_index: "i < length d \<Longrightarrow> keeps I E (index d i)"
  by (simp add: index_def)

text \<open>A fetched run of bytes has the length asked for.\<close>

lemma fetch_length: "fetch n (r, s) = (Inr bs, st) \<Longrightarrow> length bs = n"
  by (auto simp: fetch_def split: if_splits)

lemma r_bytes_length: "r_bytes n what (r, s) = (Inr bs, st) \<Longrightarrow> length bs = n"
  by (auto simp: r_bytes_def andthen_def need_def fetch_length split: if_splits)

section \<open>Big-endian words\<close>

text \<open>The encoder the frames come from: \<open>n\<close> bytes, most significant first.\<close>

definition be_bytes :: "nat \<Rightarrow> 'a::len word \<Rightarrow> byte list" where
  "be_bytes n v = map (\<lambda>i. ucast (drop_bit (8 * (n - 1 - i)) v)) [0..<n]"

lemma length_be_bytes [simp]: "length (be_bytes n v) = n"
  by (simp add: be_bytes_def)

lemma bit_be_word:
  "bit (be_word bs :: 'a::len word) n \<longleftrightarrow>
     n < LENGTH('a) \<and> n < 8 * length bs \<and> bit (rev bs ! (n div 8)) (n mod 8)"
proof (induction bs arbitrary: n rule: rev_induct)
  case Nil
  then show ?case by (simp add: be_word_def)
next
  case (snoc b bs)
  have step: "(be_word (bs @ [b]) :: 'a word) = push_bit 8 (be_word bs) OR ucast b"
    by (simp add: be_word_def)
  show ?case
  proof (cases "n < 8")
    case True
    then have "n div 8 = 0" and "n mod 8 = n" by simp_all
    with True show ?thesis
      by (simp add: step bit_or_iff bit_push_bit_iff bit_unsigned_iff)
  next
    case False
    then have "n div 8 = Suc ((n - 8) div 8)" and "n mod 8 = (n - 8) mod 8"
      by (simp_all add: div_if mod_if)
    moreover have "\<not> bit b n" using False by (auto dest: bit_imp_le_length)
    ultimately show ?thesis
      using False snoc [of "n - 8"]
      by (simp add: step bit_or_iff bit_push_bit_iff bit_unsigned_iff) linarith
  qed
qed

lemma be_word_bytes:
  fixes w :: "'a::len word"
  assumes "\<And>i. bit w i \<Longrightarrow> i < 8 * n"
  shows "be_word (be_bytes n w) = w"
proof (rule bit_word_eqI)
  fix i assume i: "i < LENGTH('a)"
  show "bit (be_word (be_bytes n w) :: 'a word) i = bit w i"
  proof (cases "i < 8 * n")
    case True
    then have "i div 8 < n" by linarith
    then have "rev (be_bytes n w) ! (i div 8) = ucast (drop_bit (8 * (i div 8)) w)"
      by (simp add: be_bytes_def rev_nth)
    then show ?thesis
      using True i by (simp add: bit_be_word bit_simps)
  next
    case False
    then show ?thesis using assms [of i] by (auto simp: bit_be_word)
  qed
qed

lemma be_word_bytes_64 [simp]: "be_word (be_bytes 8 (w :: u64)) = w"
  by (rule be_word_bytes) (auto dest: bit_imp_le_length)

lemma be_word_bytes_48: "w < 2 ^ 48 \<Longrightarrow> be_word (be_bytes 6 (w :: u64)) = w"
proof (rule be_word_bytes)
  fix i assume "w < 2 ^ 48" and "bit w i"
  then have "unat w < 2 ^ 48" by (simp add: word_less_nat_alt)
  then have "take_bit 48 (unat w) = unat w" by (simp add: take_bit_nat_eq_self_iff)
  moreover have "bit (unat w) i"
    using \<open>bit w i\<close> by (auto simp: bit_unsigned_iff dest: bit_imp_le_length)
  ultimately have "bit (take_bit 48 (unat w)) i" by simp
  then show "i < 8 * 6" by (simp add: bit_take_bit_iff)
qed

section \<open>Distinct values print differently\<close>

definition hex_val :: "string \<Rightarrow> nat" where
  "hex_val s = foldl (\<lambda>acc c. acc * 16 + (let n = of_char c in if n < 58 then n - 48 else n - 87)) 0 s"

lemma digit_char_hex_all: "list_all (\<lambda>d. (let n = of_char (digit_char d) in
    if n < 58 then n - 48 else n - 87) = (d :: nat)) [0..<16]"
  by code_simp

lemma digit_char_hex: "d < 16 \<Longrightarrow>
    (let n = of_char (digit_char d) in if n < 58 then n - 48 else n - 87) = (d :: nat)"
  using digit_char_hex_all unfolding list_all_iff by simp

lemma hex_val_snoc: "d < 16 \<Longrightarrow> hex_val (s @ [digit_char d]) = hex_val s * 16 + d"
  using digit_char_hex [of d] by (simp add: hex_val_def)

lemma hex_val_digits: "hex_val (hex_digits n) = n"
proof (induction n rule: hex_digits.induct)
  case (1 n)
  show ?case
  proof (cases "n < 16")
    case True
    then show ?thesis
      using hex_val_snoc [of n "[]"] by (simp add: hex_digits.simps [of n] hex_val_def)
  next
    case False
    with "1" show ?thesis by (simp add: hex_digits.simps [of n] hex_val_snoc)
  qed
qed

lemma hex_val_zeros: "hex_val (replicate k (CHR ''0'') @ s) = hex_val s"
  by (induction k) (simp_all add: hex_val_def)

lemma hex_val_pad [simp]: "hex_val (hex_pad w n) = n"
  by (simp add: hex_pad_def Let_def hex_val_zeros hex_val_digits)

lemma hex_pad_inject: "hex_pad w m = hex_pad w n \<longleftrightarrow> m = n"
  by (metis hex_val_pad)

lemma idStr_inject [simp]: "idStr v = idStr w \<longleftrightarrow> v = w"
  by (simp add: idStr_def hex_pad_inject word_unat_eq_iff)

lemma hex_digits_len: "n < 16 ^ w \<Longrightarrow> 0 < w \<Longrightarrow> length (hex_digits n) \<le> w"
proof (induction n arbitrary: w rule: hex_digits.induct)
  case (1 n w)
  show ?case
  proof (cases "n < 16")
    case True
    with "1.prems" show ?thesis by (simp add: hex_digits.simps [of n])
  next
    case False
    with "1.prems" obtain w' where w: "w = Suc w'" "0 < w'"
      by (cases w; cases "w - 1") auto
    with "1.prems" have "n div 16 < 16 ^ w'" by (simp add: less_mult_imp_div_less mult.commute)
    with "1.IH" False w have "length (hex_digits (n div 16)) \<le> w'" by blast
    with w False show ?thesis by (simp add: hex_digits.simps [of n])
  qed
qed

lemma length_hex_pad: "n < 16 ^ w \<Longrightarrow> 0 < w \<Longrightarrow> length (hex_pad w n) = w"
  using hex_digits_len [of n w] by (simp add: hex_pad_def Let_def)

lemma length_idStr [simp]: "length (idStr v) = 18"
proof -
  have "unat v < 16 ^ 16" using unsigned_less [of v, where 'a = nat] by simp
  then show ?thesis by (simp add: idStr_def length_hex_pad)
qed

lemma length_hex2 [simp]: "length (hex2 b) = 2"
proof -
  have "unat b < 16 ^ 2" using unsigned_less [of b, where 'a = nat] by simp
  then show ?thesis by (simp add: hex2_def length_hex_pad)
qed

lemma hex2_inject [simp]: "hex2 a = hex2 b \<longleftrightarrow> a = b"
  by (simp add: hex2_def hex_pad_inject word_unat_eq_iff)

section \<open>Bytes of a word\<close>

lemma be_bytes_word:
  assumes "8 * length bs \<le> LENGTH('a)"
  shows "be_bytes (length bs) (be_word bs :: 'a::len word) = bs"
proof (rule nth_equalityI)
  fix i assume "i < length (be_bytes (length bs) (be_word bs :: 'a word))"
  then have i: "i < length bs" by simp
  show "be_bytes (length bs) (be_word bs :: 'a word) ! i = bs ! i"
  proof (rule bit_word_eqI)
    fix n assume n: "n < LENGTH(8)"
    let ?j = "length bs - 1 - i"
    have "8 * ?j + n < 8 * length bs" and "8 * ?j + n < LENGTH('a)"
      and "(8 * ?j + n) div 8 = ?j" and "(8 * ?j + n) mod 8 = n" and "rev bs ! ?j = bs ! i"
      using i n assms by (auto simp: rev_nth)
    then show "bit (be_bytes (length bs) (be_word bs :: 'a word) ! i) n = bit (bs ! i) n"
      using i n by (simp add: be_bytes_def bit_simps bit_be_word add.commute)
  qed
qed simp

lemma be_word_bytes_32 [simp]: "be_word (be_bytes 4 (w :: u32)) = w"
  by (rule be_word_bytes) (auto dest: bit_imp_le_length)

lemma be_word_bytes_16 [simp]: "be_word (be_bytes 2 (w :: u16)) = w"
  by (rule be_word_bytes) (auto dest: bit_imp_le_length)

end
