(* ===== verification/Event_Model.thy ===== *)
theory Event_Model
  imports Bytes
begin

text \<open>
  \<open>backend/src/model/event.h\<close>, the history entries of \<open>logic/avb_logic.h\<close> and the
  \<open>tsn_gen\<close> contracts: protocols and event kinds, the event and transition records,
  the variable context that carries decoded fields to a logic module, the registry of
  module factories, and the printing of intervals shared by the gPTP code.  The locale
  \<open>object_log\<close> states what every state object promises about its history.
\<close>

section \<open>Protocols, events, transitions\<close>

datatype proto = ETH | MSRP | MVRP | MAAP | ADP | AECP | ACMP | GPTP

definition protoName :: "proto \<Rightarrow> string" where
  "protoName p = (case p of
     ETH \<Rightarrow> ''ETH'' | MSRP \<Rightarrow> ''MSRP'' | MVRP \<Rightarrow> ''MVRP'' | MAAP \<Rightarrow> ''MAAP''
   | ADP \<Rightarrow> ''ADP'' | AECP \<Rightarrow> ''AECP'' | ACMP \<Rightarrow> ''ACMP'' | GPTP \<Rightarrow> ''GPTP'')"

text \<open>The enumerator's value, \<open>(int)proto\<close>.\<close>

definition proto_id :: "proto \<Rightarrow> nat" where
  "proto_id p = (case p of ETH \<Rightarrow> 0 | MSRP \<Rightarrow> 1 | MVRP \<Rightarrow> 2 | MAAP \<Rightarrow> 3
   | ADP \<Rightarrow> 4 | AECP \<Rightarrow> 5 | ACMP \<Rightarrow> 6 | GPTP \<Rightarrow> 7)"

lemma proto_id_inject [simp]: "proto_id p = proto_id q \<longleftrightarrow> p = q"
  by (cases p; cases q) (simp_all add: proto_id_def)

lemma protoName_inject [simp]: "protoName p = protoName q \<longleftrightarrow> p = q"
  by (cases p; cases q) (simp_all add: protoName_def)

text \<open>The enumeration is ordered by its values, as a key of \<open>std::map\<close> would be.\<close>

instantiation proto :: linorder
begin

definition less_eq_proto :: "proto \<Rightarrow> proto \<Rightarrow> bool" where
  "less_eq_proto p q \<longleftrightarrow> proto_id p \<le> proto_id q"

definition less_proto :: "proto \<Rightarrow> proto \<Rightarrow> bool" where
  "less_proto p q \<longleftrightarrow> proto_id p < proto_id q"

instance
proof
  fix p q :: proto
  assume "p \<le> q" and "q \<le> p"
  then have "proto_id p = proto_id q" by (simp add: less_eq_proto_def)
  then show "p = q" by simp
qed (auto simp: less_eq_proto_def less_proto_def)

end

datatype kind = Packet | TransitionEv | ErrorEv

definition kindName :: "kind \<Rightarrow> string" where
  "kindName k = (case k of Packet \<Rightarrow> ''packet'' | TransitionEv \<Rightarrow> ''transition'' | ErrorEv \<Rightarrow> ''error'')"

record event =
  ev_i :: u32
  ev_n :: u32
  ev_ts :: double
  ev_kind :: kind
  ev_proto :: proto
  ev_type :: string
  ev_src :: string
  ev_dst :: string
  ev_summary :: string
  ev_entity :: string
  ev_stream :: string
  ev_fields :: "(string \<times> string) list"

definition Event :: event where
  "Event = \<lparr>ev_i = 0, ev_n = 0, ev_ts = 0, ev_kind = Packet, ev_proto = ETH, ev_type = '''',
     ev_src = '''', ev_dst = '''', ev_summary = '''', ev_entity = '''', ev_stream = '''', ev_fields = []\<rparr>"

text \<open>One state-machine transition reported by a logic module.\<close>

record transition =
  t_proto :: proto
  t_object :: string
  t_from :: string
  t_to :: string
  t_why :: string
  t_summary :: string
  t_entity :: string
  t_stream :: string

definition isNumeric :: "string \<Rightarrow> bool" where
  "isNumeric s =
     (if s = [] \<or> length s > 18 then False
      else let start = (if s ! 0 = CHR ''-'' then 1 else 0)
        in if start = length s then False
           else if s ! start = CHR ''0'' \<and> length s > start + 1 then False
           else list_all (\<lambda>c. CHR ''0'' \<le> c \<and> c \<le> CHR ''9'') (drop start s))"

section \<open>Variable contexts\<close>

text \<open>
  \<open>VarLayerContext\<close>: the decoded fields of one layer, numbers and byte strings.  The
  hash maps are only looked up, never iterated, so they are partial functions.
\<close>

record var_ctx =
  service :: string
  mVars :: "string \<rightharpoonup> u64"
  mBytes :: "string \<rightharpoonup> string"

definition VarLayerContext :: "string \<Rightarrow> var_ctx" where
  "VarLayerContext svc = \<lparr>service = svc, mVars = Map.empty, mBytes = Map.empty\<rparr>"

definition getValue :: "var_ctx \<Rightarrow> string \<Rightarrow> u64 option" where
  "getValue c n = mVars c n"

definition setValue :: "string \<Rightarrow> u64 \<Rightarrow> var_ctx \<Rightarrow> var_ctx" where
  "setValue n v c = c\<lparr>mVars := (mVars c)(n \<mapsto> v)\<rparr>"

definition getBytes :: "var_ctx \<Rightarrow> string \<Rightarrow> string option" where
  "getBytes c n = mBytes c n"

definition setBytes :: "string \<Rightarrow> string \<Rightarrow> var_ctx \<Rightarrow> var_ctx" where
  "setBytes n v c = c\<lparr>mBytes := (mBytes c)(n \<mapsto> v)\<rparr>"

text \<open>\<open>at\<close>: the value, or 0 where the variable is absent.\<close>

definition ctx_at :: "var_ctx \<Rightarrow> string \<Rightarrow> u64" where
  "ctx_at c n = (case getValue c n of None \<Rightarrow> 0 | Some v \<Rightarrow> v)"

lemma ctx_at_setValue [simp]: "ctx_at (setValue n v c) m = (if m = n then v else ctx_at c m)"
  by (simp add: ctx_at_def getValue_def setValue_def)

lemma ctx_at_new [simp]: "ctx_at (VarLayerContext svc) m = 0"
  by (simp add: ctx_at_def getValue_def VarLayerContext_def)

lemma service_set [simp]: "service (setValue n v c) = service c" "service (setBytes n s c) = service c"
  by (simp_all add: setValue_def setBytes_def)

lemma getBytes_set [simp]: "getBytes (setBytes n s c) m = (if m = n then Some s else getBytes c m)"
  "getBytes (setValue n v c) m = getBytes c m" "ctx_at (setBytes n s c) m = ctx_at c m"
  by (simp_all add: getBytes_def setBytes_def setValue_def ctx_at_def getValue_def)

text \<open>\<open>(int)v\<close>: the low 32 bits, read as signed.\<close>

definition to_int :: "u64 \<Rightarrow> int" where
  "to_int v = sint (ucast v :: u32)"

text \<open>A context with the given variables, for concrete inputs.\<close>

definition ctx_of :: "(string \<times> u64) list \<Rightarrow> var_ctx" where
  "ctx_of vs = fold (\<lambda>(n, v). setValue n v) vs (VarLayerContext '''')"

definition tsOf :: "var_ctx \<Rightarrow> double" where
  "tsOf c = real (unat (ctx_at c ''ts_ns'')) / 10 ^ 9"

definition numOf :: "var_ctx \<Rightarrow> u32" where
  "numOf c = ucast (ctx_at c ''pkt_num'')"

section \<open>The module registry\<close>

text \<open>\<open>LogicRegistry\<close>: names to factories; a null factory is \<open>None\<close>.\<close>

type_synonym 'm registry = "(string, 'm) omap"

definition reg_add :: "string \<Rightarrow> 'm option \<Rightarrow> 'm registry \<Rightarrow> bool \<times> 'm registry" where
  "reg_add name factory reg =
     (if name = [] then (False, reg)
      else case factory of None \<Rightarrow> (False, reg)
        | Some f \<Rightarrow> (case om_get reg name of
            Some _ \<Rightarrow> (False, reg)
          | None \<Rightarrow> (True, om_set name f reg)))"

definition reg_create :: "'m registry \<Rightarrow> string \<Rightarrow> 'm option" where
  "reg_create reg name = om_get reg name"

definition reg_has :: "'m registry \<Rightarrow> string \<Rightarrow> bool" where
  "reg_has reg name \<longleftrightarrow> om_get reg name \<noteq> None"

definition reg_size :: "'m registry \<Rightarrow> nat" where
  "reg_size reg = length reg"

lemma length_om_set: "length (om_set k v m) = (if k \<in> fst ` set m then length m else Suc (length m))"
  if "om_ok m"
  using that by (induction k v m rule: om_set.induct) (auto simp: om_ok_Cons)

section \<open>Histories\<close>

record hist_entry =
  h_ts :: double
  h_n :: u32
  h_from :: string
  h_to :: string
  h_why :: string

definition HistEntry :: "double \<Rightarrow> u32 \<Rightarrow> string \<Rightarrow> string \<Rightarrow> string \<Rightarrow> hist_entry" where
  "HistEntry ts n from to why = \<lparr>h_ts = ts, h_n = n, h_from = from, h_to = to, h_why = why\<rparr>"

lemma HistEntry_sel [simp]: "h_from (HistEntry ts n from to why) = from"
  "h_to (HistEntry ts n from to why) = to" "h_ts (HistEntry ts n from to why) = ts"
  "h_n (HistEntry ts n from to why) = n" "h_why (HistEntry ts n from to why) = why"
  by (simp_all add: HistEntry_def)

text \<open>
  A history is linked when every entry starts in the state the one before it ended in.
\<close>

fun linked :: "hist_entry list \<Rightarrow> bool" where
  "linked [] = True"
| "linked [h] = True"
| "linked (h # h' # hs) = (h_to h = h_from h' \<and> linked (h' # hs))"

lemma linked_snoc: "linked (hs @ [h]) \<longleftrightarrow> linked hs \<and> (hs \<noteq> [] \<longrightarrow> h_to (last hs) = h_from h)"
  by (induction hs rule: linked.induct) auto

lemma linked_append2: "linked (xs @ ys) \<Longrightarrow> linked ys"
proof (induction xs)
  case (Cons x xs)
  then have "linked (xs @ ys)" by (cases "xs @ ys") auto
  with Cons show ?case by blast
qed simp

lemma linked_suffix: "suffix ys xs \<Longrightarrow> linked xs \<Longrightarrow> linked ys"
  by (auto simp: suffix_def linked_append2)

text \<open>The history of an object whose current label is \<open>l\<close>.\<close>

definition hist_ok :: "string \<Rightarrow> hist_entry list \<Rightarrow> bool" where
  "hist_ok l hs \<longleftrightarrow> linked hs \<and> (hs \<noteq> [] \<longrightarrow> h_to (last hs) = l)"

lemma hist_ok_Nil [simp, intro]: "hist_ok l []"
  by (simp add: hist_ok_def)

lemma hist_ok_push:
  assumes "hist_ok l hs" and "suffix hs' (hs @ [h])" and "hs' \<noteq> []" and "h_from h = l"
  shows "hist_ok (h_to h) hs'"
proof -
  have "linked (hs @ [h])" using assms by (auto simp: linked_snoc hist_ok_def)
  then have "linked hs'" using assms(2) by (rule linked_suffix [rotated])
  moreover have "last hs' = h"
    using assms(2,3) by (metis last_appendR last_snoc suffix_def)
  ultimately show ?thesis by (simp add: hist_ok_def)
qed

text \<open>
  What every state object of the logic modules promises: a step to a label either leaves
  the object alone or appends one entry from the present label to the new one, dropping
  at most old entries.
\<close>

locale object_log =
  fixes label :: "'o \<Rightarrow> string"
    and hist :: "'o \<Rightarrow> hist_entry list"
    and step :: "double \<Rightarrow> u32 \<Rightarrow> string \<Rightarrow> string \<Rightarrow> 'o \<Rightarrow> 'o"
  assumes step_cases: "to \<noteq> [] \<Longrightarrow> step ts n to why ob = ob \<or>
      label (step ts n to why ob) = to \<and> hist (step ts n to why ob) \<noteq> [] \<and>
      suffix (hist (step ts n to why ob)) (hist ob @ [HistEntry ts n (label ob) to why])"
begin

definition consistent :: "'o \<Rightarrow> bool" where
  "consistent ob \<longleftrightarrow> hist_ok (label ob) (hist ob)"

lemma step_consistent:
  assumes "consistent ob" and "to \<noteq> []"
  shows "consistent (step ts n to why ob)"
  using step_cases [OF assms(2), of ts n why ob] assms(1)
    hist_ok_push [of "label ob" "hist ob" "hist (step ts n to why ob)" "HistEntry ts n (label ob) to why"]
  by (auto simp: consistent_def)

lemma run_consistent:
  "consistent ob \<Longrightarrow> \<forall>(ts, n, to, why) \<in> set moves. to \<noteq> [] \<Longrightarrow>
   consistent (fold (\<lambda>(ts, n, to, why). step ts n to why) moves ob)"
  by (induction moves arbitrary: ob) (auto intro: step_consistent)

end

section \<open>Printing of doubles\<close>

text \<open>
  \<open>printf("%.pf")\<close>: correctly rounded to \<open>p\<close> decimals, ties to even.
\<close>

definition round_half_even :: "real \<Rightarrow> int" where
  "round_half_even x = (let f = \<lfloor>x\<rfloor>; d = x - of_int f
     in if d < 1 / 2 then f else if d > 1 / 2 then f + 1 else if even f then f else f + 1)"

definition fmt_fixed :: "nat \<Rightarrow> real \<Rightarrow> string" where
  "fmt_fixed p x = (let n = nat (round_half_even (\<bar>x\<bar> * 10 ^ p));
       ip = nat_str (n div 10 ^ p); fp = nat_str (n mod 10 ^ p)
     in (if x < 0 then ''-'' else '''') @ ip @
        (if p = 0 then '''' else ''.'' @ replicate (p - length fp) (CHR ''0'') @ fp))"

lemma round_half_even_near: "\<bar>of_int (round_half_even x) - x\<bar> \<le> 1 / 2"
  unfolding round_half_even_def Let_def
  by (simp split: if_splits)

end
