(* ===== verification/Names.thy ===== *)
theory Names
  imports Event_Model
begin

text \<open>
  \<open>backend/src/decode/names.cpp\<close>: the names of the protocol constants.  Every
  \<open>switch\<close> of the source is the table of its cases with the value it returns after
  the \<open>switch\<close>.
\<close>

definition lookup_name :: "('k \<times> string) list \<Rightarrow> 'k \<Rightarrow> string \<Rightarrow> string" where
  "lookup_name tbl k dflt = (case map_of tbl k of Some s \<Rightarrow> s | None \<Rightarrow> dflt)"

definition mrpEventName :: "int \<Rightarrow> string" where
  "mrpEventName e = lookup_name
     [(0, ''New''), (1, ''JoinIn''), (2, ''In''), (3, ''JoinMt''), (4, ''Mt''), (5, ''Lv''),
      (6, ''LeaveAll'')]
     e (''?'')"

definition fourPackedName :: "int \<Rightarrow> string" where
  "fourPackedName e = lookup_name
     [(0, ''Ignore''), (1, ''AskingFailed''), (2, ''Ready''), (3, ''ReadyFailed'')]
     e (''?'')"

definition msrpAttrName :: "u8 \<Rightarrow> string" where
  "msrpAttrName t = lookup_name
     [(1, ''TALKER_ADVERTISE''), (2, ''TALKER_FAILED''), (3, ''LISTENER''), (4, ''DOMAIN'')]
     t (''UNKNOWN_ATTR'')"

definition msrpFailureName :: "u8 \<Rightarrow> string" where
  "msrpFailureName code = lookup_name
     [(1, ''INSUFFICIENT_BANDWIDTH''), (2, ''INSUFFICIENT_BRIDGE_RESOURCES''),
      (3, ''INSUFFICIENT_TRAFFIC_CLASS_BANDWIDTH''), (4, ''STREAM_ID_IN_USE''),
      (5, ''STREAM_DESTINATION_ADDRESS_IN_USE''), (6, ''STREAM_PREEMPTED_BY_HIGHER_RANK''),
      (7, ''LATENCY_HAS_CHANGED''), (8, ''EGRESS_PORT_NOT_AVB_CAPABLE''),
      (9, ''USE_DIFFERENT_DESTINATION_ADDRESS''), (10, ''OUT_OF_MSRP_RESOURCES''),
      (11, ''OUT_OF_MMRP_RESOURCES''), (12, ''CANNOT_STORE_DESTINATION_ADDRESS''),
      (13, ''PRIORITY_IS_NOT_AN_SR_CLASS''), (14, ''MAX_FRAME_SIZE_TOO_LARGE''),
      (15, ''MAX_FAN_IN_PORTS_LIMIT_REACHED''),
      (16, ''CHANGE_IN_FIRST_VALUE_FOR_REGISTERED_STREAM''), (17, ''VLAN_BLOCKED_ON_EGRESS''),
      (18, ''VLAN_TAGGING_DISABLED_ON_EGRESS''), (19, ''SR_CLASS_PRIORITY_MISMATCH'')]
     code (''FAILURE_'' @ u_str code)"

definition maapMsgName :: "u8 \<Rightarrow> string" where
  "maapMsgName t = lookup_name
     [(1, ''MAAP_PROBE''), (2, ''MAAP_DEFEND''), (3, ''MAAP_ANNOUNCE'')]
     t (''MAAP_UNKNOWN'')"

definition adpMsgName :: "u8 \<Rightarrow> string" where
  "adpMsgName t = lookup_name
     [(0, ''ENTITY_AVAILABLE''), (1, ''ENTITY_DEPARTING''), (2, ''ENTITY_DISCOVER'')]
     t (''ADP_UNKNOWN'')"

definition aecpMsgName :: "u8 \<Rightarrow> string" where
  "aecpMsgName t = lookup_name
     [(0, ''AEM_COMMAND''), (1, ''AEM_RESPONSE''), (2, ''ADDRESS_ACCESS_COMMAND''),
      (3, ''ADDRESS_ACCESS_RESPONSE''), (4, ''AVC_COMMAND''), (5, ''AVC_RESPONSE''),
      (6, ''VENDOR_UNIQUE_COMMAND''), (7, ''VENDOR_UNIQUE_RESPONSE''),
      (14, ''EXTENDED_COMMAND''), (15, ''EXTENDED_RESPONSE'')]
     t (''AECP_UNKNOWN'')"

definition aemCommandName :: "u16 \<Rightarrow> string" where
  "aemCommandName cmd = lookup_name
     [(0x0000, ''ACQUIRE_ENTITY''), (0x0001, ''LOCK_ENTITY''), (0x0002, ''ENTITY_AVAILABLE''),
      (0x0003, ''CONTROLLER_AVAILABLE''), (0x0004, ''READ_DESCRIPTOR''),
      (0x0005, ''WRITE_DESCRIPTOR''), (0x0006, ''SET_CONFIGURATION''),
      (0x0007, ''GET_CONFIGURATION''), (0x0008, ''SET_STREAM_FORMAT''),
      (0x0009, ''GET_STREAM_FORMAT''), (0x000e, ''SET_STREAM_INFO''),
      (0x000f, ''GET_STREAM_INFO''), (0x0010, ''SET_NAME''), (0x0011, ''GET_NAME''),
      (0x0012, ''SET_ASSOCIATION_ID''), (0x0013, ''GET_ASSOCIATION_ID''),
      (0x0014, ''SET_SAMPLING_RATE''), (0x0015, ''GET_SAMPLING_RATE''),
      (0x0016, ''SET_CLOCK_SOURCE''), (0x0017, ''GET_CLOCK_SOURCE''), (0x0018, ''SET_CONTROL''),
      (0x0019, ''GET_CONTROL''), (0x0022, ''START_STREAMING''), (0x0023, ''STOP_STREAMING''),
      (0x0024, ''REGISTER_UNSOLICITED_NOTIFICATION''),
      (0x0025, ''DEREGISTER_UNSOLICITED_NOTIFICATION''), (0x0026, ''IDENTIFY_NOTIFICATION''),
      (0x0027, ''GET_AVB_INFO''), (0x0028, ''GET_AS_PATH''), (0x0029, ''GET_COUNTERS''),
      (0x002a, ''REBOOT''), (0x002b, ''GET_AUDIO_MAP''), (0x002c, ''ADD_AUDIO_MAPPINGS''),
      (0x002d, ''REMOVE_AUDIO_MAPPINGS''), (0x004b, ''GET_DYNAMIC_INFO'')]
     cmd (''AEM_CMD_'' @ hexStr (ucast cmd) 4)"

definition aemStatusName :: "u8 \<Rightarrow> string" where
  "aemStatusName status = lookup_name
     [(0, ''SUCCESS''), (1, ''NOT_IMPLEMENTED''), (2, ''NO_SUCH_DESCRIPTOR''),
      (3, ''ENTITY_LOCKED''), (4, ''ENTITY_ACQUIRED''), (5, ''NOT_AUTHENTICATED''),
      (6, ''AUTHENTICATION_DISABLED''), (7, ''BAD_ARGUMENTS''), (8, ''NO_RESOURCES''),
      (9, ''IN_PROGRESS''), (10, ''ENTITY_MISBEHAVING''), (11, ''NOT_SUPPORTED''),
      (12, ''STREAM_IS_RUNNING'')]
     status (''STATUS_'' @ u_str status)"

definition descriptorTypeName :: "u16 \<Rightarrow> string" where
  "descriptorTypeName t = lookup_name
     [(0x0000, ''ENTITY''), (0x0001, ''CONFIGURATION''), (0x0002, ''AUDIO_UNIT''),
      (0x0003, ''VIDEO_UNIT''), (0x0005, ''STREAM_INPUT''), (0x0006, ''STREAM_OUTPUT''),
      (0x0007, ''JACK_INPUT''), (0x0008, ''JACK_OUTPUT''), (0x0009, ''AVB_INTERFACE''),
      (0x000a, ''CLOCK_SOURCE''), (0x000b, ''MEMORY_OBJECT''), (0x000c, ''LOCALE''),
      (0x000d, ''STRINGS''), (0x000e, ''STREAM_PORT_INPUT''), (0x000f, ''STREAM_PORT_OUTPUT''),
      (0x0024, ''CLOCK_DOMAIN'')]
     t (''DESC_'' @ hexStr (ucast t) 4)"

definition acmpMsgName :: "u8 \<Rightarrow> string" where
  "acmpMsgName t = lookup_name
     [(0, ''CONNECT_TX_COMMAND''), (1, ''CONNECT_TX_RESPONSE''), (2, ''DISCONNECT_TX_COMMAND''),
      (3, ''DISCONNECT_TX_RESPONSE''), (4, ''GET_TX_STATE_COMMAND''),
      (5, ''GET_TX_STATE_RESPONSE''), (6, ''CONNECT_RX_COMMAND''), (7, ''CONNECT_RX_RESPONSE''),
      (8, ''DISCONNECT_RX_COMMAND''), (9, ''DISCONNECT_RX_RESPONSE''),
      (10, ''GET_RX_STATE_COMMAND''), (11, ''GET_RX_STATE_RESPONSE''),
      (12, ''GET_TX_CONNECTION_COMMAND''), (13, ''GET_TX_CONNECTION_RESPONSE'')]
     t (''ACMP_MSG_'' @ u_str t)"

definition gptpMsgName :: "u8 \<Rightarrow> string" where
  "gptpMsgName t = lookup_name
     [(0x0, ''SYNC''), (0x2, ''PDELAY_REQ''), (0x3, ''PDELAY_RESP''), (0x8, ''FOLLOW_UP''),
      (0xa, ''PDELAY_RESP_FOLLOW_UP''), (0xb, ''ANNOUNCE''), (0xc, ''SIGNALING'')]
     t (''GPTP_UNKNOWN'')"

definition gptpTimeSourceName :: "u8 \<Rightarrow> string" where
  "gptpTimeSourceName t = lookup_name
     [(0x10, ''ATOMIC_CLOCK''), (0x20, ''GNSS''), (0x30, ''TERRESTRIAL_RADIO''), (0x40, ''PTP''),
      (0x50, ''NTP''), (0x60, ''HAND_SET''), (0x90, ''OTHER''), (0xa0, ''INTERNAL_OSCILLATOR'')]
     t (hexStr (ucast t) 2)"

definition gptpClockClassName :: "u8 \<Rightarrow> string" where
  "gptpClockClassName c = lookup_name
     [(6, ''6 (primary sync)''), (7, ''7 (holdover)''), (248, ''248 (default)''),
      (255, ''255 (slave-only)'')]
     c (u_str c)"

definition gptpLogIntervalStr :: "u8 \<Rightarrow> string" where
  "gptpLogIntervalStr raw = (let v = sint raw
     in if raw = 0x7F then ''127 (not used)''
        else if v < -30 \<or> v > 30 then int_str v @ '' (out of range)''
        else let s = (if v \<ge> 0 then 2 ^ nat v else 1 / 2 ^ nat (- v) :: double)
          in if s \<ge> 1 then int_str v @ '' ('' @ fmt_fixed 0 s @ '' s)''
             else int_str v @ '' ('' @ fmt_fixed 0 (s * 1000) @ '' ms)'')"

definition acmpStatusName :: "u8 \<Rightarrow> string" where
  "acmpStatusName status = lookup_name
     [(0, ''SUCCESS''), (1, ''LISTENER_UNKNOWN_ID''), (2, ''TALKER_UNKNOWN_ID''),
      (3, ''TALKER_DEST_MAC_FAIL''), (4, ''TALKER_NO_STREAM_INDEX''),
      (5, ''TALKER_NO_BANDWIDTH''), (6, ''TALKER_EXCLUSIVE''), (7, ''LISTENER_TALKER_TIMEOUT''),
      (8, ''LISTENER_EXCLUSIVE''), (9, ''STATE_UNAVAILABLE''), (10, ''NOT_CONNECTED''),
      (11, ''NO_SUCH_CONNECTION''), (12, ''COULD_NOT_SEND_MESSAGE''),
      (13, ''TALKER_MISBEHAVING''), (14, ''LISTENER_MISBEHAVING''),
      (16, ''CONTROLLER_NOT_AUTHORIZED''), (17, ''INCOMPATIBLE_REQUEST''),
      (31, ''NOT_SUPPORTED'')]
     status (''STATUS_'' @ u_str status)"

lemmas name_defs = mrpEventName_def fourPackedName_def msrpAttrName_def maapMsgName_def adpMsgName_def
  aecpMsgName_def gptpMsgName_def lookup_name_def

text \<open>No event name is empty, so a described event always shows.\<close>

lemma mrpEventName_nonempty [simp]: "mrpEventName e \<noteq> []"
  by (auto simp: mrpEventName_def lookup_name_def split: option.splits dest!: map_of_SomeD)

lemma msrpAttrName_nonempty [simp]: "msrpAttrName t \<noteq> []"
  by (auto simp: msrpAttrName_def lookup_name_def split: option.splits dest!: map_of_SomeD)

lemma gptpMsgName_nonempty [simp]: "gptpMsgName t \<noteq> []"
  by (auto simp: gptpMsgName_def lookup_name_def split: option.splits dest!: map_of_SomeD)

end
