(* ===== verification/Decode_Fields.thy ===== *)
theory Decode_Fields
  imports Event_Model Names
begin

text \<open>
  \<open>backend/src/decode/decode.cpp\<close>, first part: the sink every parsed field is written to
  (the variables of the state pass, the inspector's list, or both), the Ethernet and AVTP
  control headers, and the ADP, AECP, ACMP and MAAP payloads.
\<close>

section \<open>The sink\<close>

type_synonym dfield = "string \<times> string"

record field_sink =
  sn_vars :: "var_ctx option"
  sn_disp :: "dfield list option"

definition s_numd :: "string \<Rightarrow> u64 \<Rightarrow> string \<Rightarrow> field_sink \<Rightarrow> field_sink" where
  "s_numd n v display s = s\<lparr>sn_vars := map_option (setValue n v) (sn_vars s),
     sn_disp := map_option (\<lambda>d. d @ [(n, display)]) (sn_disp s)\<rparr>"

definition s_num :: "string \<Rightarrow> u64 \<Rightarrow> field_sink \<Rightarrow> field_sink" where
  "s_num n v = s_numd n v (u_str v)"

definition s_hexf :: "string \<Rightarrow> u64 \<Rightarrow> nat \<Rightarrow> field_sink \<Rightarrow> field_sink" where
  "s_hexf n v digits = s_numd n v (hexStr v digits)"

definition s_mac :: "string \<Rightarrow> u64 \<Rightarrow> field_sink \<Rightarrow> field_sink" where
  "s_mac n v = s_numd n v (macStr v)"

definition s_id :: "string \<Rightarrow> u64 \<Rightarrow> field_sink \<Rightarrow> field_sink" where
  "s_id n v = s_numd n v (idStr v)"

definition s_str :: "string \<Rightarrow> string \<Rightarrow> field_sink \<Rightarrow> field_sink" where
  "s_str n v s = s\<lparr>sn_vars := map_option (setBytes n v) (sn_vars s),
     sn_disp := map_option (\<lambda>d. d @ [(n, v)]) (sn_disp s)\<rparr>"

definition s_info :: "string \<Rightarrow> string \<Rightarrow> field_sink \<Rightarrow> field_sink" where
  "s_info n v s = s\<lparr>sn_disp := map_option (\<lambda>d. d @ [(n, v)]) (sn_disp s)\<rparr>"

text \<open>Sink writes as parser steps, alone or of a value just read.\<close>

type_synonym 'a fparser = "(field_sink, 'a) parser"

definition put :: "(field_sink \<Rightarrow> field_sink) \<Rightarrow> unit fparser" where
  "put f = modify (apsnd f)"

definition f_num :: "string \<Rightarrow> 'a::len word fparser \<Rightarrow> unit fparser" where
  "f_num n p = andthen p (\<lambda>w. put (s_num n (ucast w)))"

definition f_hex :: "string \<Rightarrow> 'a::len word fparser \<Rightarrow> nat \<Rightarrow> unit fparser" where
  "f_hex n p digits = andthen p (\<lambda>w. put (s_hexf n (ucast w) digits))"

definition f_mac :: "string \<Rightarrow> u64 fparser \<Rightarrow> unit fparser" where
  "f_mac n p = andthen p (\<lambda>w. put (s_mac n w))"

definition f_id :: "string \<Rightarrow> u64 fparser \<Rightarrow> unit fparser" where
  "f_id n p = andthen p (\<lambda>w. put (s_id n w))"

definition f_str :: "string \<Rightarrow> byte list fparser \<Rightarrow> unit fparser" where
  "f_str n p = andthen p (\<lambda>d. put (s_str n (paddedStr d)))"

definition f_numd :: "string \<Rightarrow> 'a::len word fparser \<Rightarrow> ('a word \<Rightarrow> string) \<Rightarrow> unit fparser" where
  "f_numd n p name = andthen p (\<lambda>w. put (s_numd n (ucast w) (name w)))"

lemmas field_defs = f_num_def f_hex_def f_mac_def f_id_def f_str_def f_numd_def

lemma in_span_put [intro, simp]: "in_span (put f)"
  by (auto simp: put_def rd_ok_def intro!: keeps_modify split: prod.splits)

lemma adv_put [intro, simp]: "adv 0 (put f)"
  by (auto simp: put_def intro!: adv_modify)

lemma in_span_field [intro]: "in_span p \<Longrightarrow> in_span (f_num n p)" "in_span p \<Longrightarrow> in_span (f_hex n p d)"
  "in_span q \<Longrightarrow> in_span (f_mac n q)" "in_span q \<Longrightarrow> in_span (f_id n q)" "in_span b \<Longrightarrow> in_span (f_str n b)"
  "in_span p \<Longrightarrow> in_span (f_numd n p f)"
  by (auto simp: field_defs)

lemma adv_field [intro]: "adv k p \<Longrightarrow> adv k (f_num n p)" "adv k p \<Longrightarrow> adv k (f_hex n p d)"
  "adv k q \<Longrightarrow> adv k (f_mac n q)" "adv k q \<Longrightarrow> adv k (f_id n q)" "adv k b \<Longrightarrow> adv k (f_str n b)"
  "adv k p \<Longrightarrow> adv k (f_numd n p f)"
  unfolding field_defs using adv_andthen [where b = 0] by fastforce+

section \<open>The decoded packet\<close>

record decoded =
  dp_num :: u32
  dp_ts :: double
  dp_src :: string
  dp_dst :: string
  dp_srcMac :: u64
  dp_dstMac :: u64
  dp_proto :: proto
  dp_interesting :: bool
  dp_ok :: bool
  dp_error :: string
  dp_type :: string
  dp_summary :: string
  dp_entity :: string
  dp_stream :: string
  dp_eventFields :: "(string \<times> string) list"
  dp_logicCtxs :: "var_ctx list"

definition DecodedPacket :: decoded where
  "DecodedPacket = \<lparr>dp_num = 0, dp_ts = 0, dp_src = [], dp_dst = [], dp_srcMac = 0, dp_dstMac = 0,
     dp_proto = ETH, dp_interesting = False, dp_ok = False, dp_error = [], dp_type = [], dp_summary = [],
     dp_entity = [], dp_stream = [], dp_eventFields = [], dp_logicCtxs = []\<rparr>"

section \<open>Headers\<close>

definition kEtypeMsrp :: u16 where "kEtypeMsrp = 0x22EA"
definition kEtypeMvrp :: u16 where "kEtypeMvrp = 0x88F5"
definition kEtypeAvtp :: u16 where "kEtypeAvtp = 0x22F0"
definition kEtypeGptp :: u16 where "kEtypeGptp = 0x88F7"
definition kEtypeVlan :: u16 where "kEtypeVlan = 0x8100"
definition kEtypeQinQ :: u16 where "kEtypeQinQ = 0x88A8"

definition kSubtypeAdp :: u8 where "kSubtypeAdp = 0xFA"
definition kSubtypeAecp :: u8 where "kSubtypeAecp = 0xFB"
definition kSubtypeAcmp :: u8 where "kSubtypeAcmp = 0xFC"
definition kSubtypeMaap :: u8 where "kSubtypeMaap = 0xFE"

record eth_header =
  eh_dst :: u64
  eh_src :: u64
  eh_etype :: u16
  eh_vlan :: "u16 option"

text \<open>The loop over 802.1Q tags: each round reads a TCI and the next ethertype.\<close>

definition vlan_round :: "eth_header \<Rightarrow> ('s, eth_header + eth_header) parser" where
  "vlan_round h =
     (if eh_etype h = kEtypeVlan \<or> eh_etype h = kEtypeQinQ then
        andthen (r_u16 ''802.1Q TCI'') (\<lambda>tci.
        andthen (r_u16 ''ethertype'') (\<lambda>et.
          ret (Inr (h\<lparr>eh_vlan := Some (tci AND 0x0fff), eh_etype := et\<rparr>))))
      else ret (Inl h))"

definition parseEth :: "('s, eth_header) parser" where
  "parseEth =
     andthen (r_u48 ''ethernet dst'') (\<lambda>dst.
     andthen (r_u48 ''ethernet src'') (\<lambda>src.
     andthen (r_u16 ''ethertype'') (\<lambda>et.
       loop vlan_round \<lparr>eh_dst = dst, eh_src = src, eh_etype = et, eh_vlan = None\<rparr>)))"

text \<open>The inspector's view of the header.\<close>

definition ethFields :: "eth_header \<Rightarrow> dfield list" where
  "ethFields h =
     [(''dst_mac'', macStr (eh_dst h)), (''src_mac'', macStr (eh_src h))] @
     (case eh_vlan h of Some v \<Rightarrow> [(''vlan_id'', u_str v)] | None \<Rightarrow> []) @
     [(''ethertype'', cat [hexStr (ucast (eh_etype h)) 4,
        (if eh_etype h = kEtypeAvtp then '' (AVTP)'' else if eh_etype h = kEtypeMsrp then '' (MSRP)''
         else if eh_etype h = kEtypeMvrp then '' (MVRP)'' else if eh_etype h = kEtypeGptp then '' (gPTP)''
         else [])])]"

record avtp_header =
  ah_subtype :: u8
  ah_sv :: u8
  ah_version :: u8
  ah_msgType :: u8
  ah_status5 :: u8
  ah_cdl :: u16

definition parseAvtpCtrl :: "('s, avtp_header) parser" where
  "parseAvtpCtrl =
     andthen (r_u8 ''AVTP subtype'') (\<lambda>st.
     andthen (r_u8 ''AVTP control byte'') (\<lambda>b1.
     andthen (r_u16 ''status/control_data_length'') (\<lambda>w.
       ret \<lparr>ah_subtype = st, ah_sv = drop_bit 7 b1 AND 1, ah_version = drop_bit 4 b1 AND 7,
            ah_msgType = b1 AND 0x0f, ah_status5 = ucast (drop_bit 11 w AND 0x1f), ah_cdl = w AND 0x07ff\<rparr>)))"

definition avtpCtrlLayer :: "avtp_header \<Rightarrow> string \<Rightarrow> string \<Rightarrow> dfield list" where
  "avtpCtrlLayer h statusName statusDisplay =
     [(''subtype'', cat [hexStr (ucast (ah_subtype h)) 2,
        (if ah_subtype h = kSubtypeAdp then '' (ADP)'' else if ah_subtype h = kSubtypeAecp then '' (AECP)''
         else if ah_subtype h = kSubtypeAcmp then '' (ACMP)'' else if ah_subtype h = kSubtypeMaap then '' (MAAP)''
         else [])]),
      (''sv'', u_str (ah_sv h)), (''version'', u_str (ah_version h)), (statusName, statusDisplay),
      (''control_data_length'', u_str (ah_cdl h))]"

section \<open>ADP\<close>

text \<open>\<open>status5 * 2\<close> is an \<open>int\<close>.\<close>

definition validTime2 :: "avtp_header \<Rightarrow> u64" where
  "validTime2 h = ucast (ah_status5 h) * 2"

definition parseAdp :: "avtp_header \<Rightarrow> unit fparser" where
  "parseAdp h = seqs
    [put (s_numd ''message_type'' (ucast (ah_msgType h)) (adpMsgName (ah_msgType h))),
     put (s_numd ''valid_time'' (validTime2 h) (cat [u_str (validTime2 h), '' s''])),
     f_id ''entity_id'' (r_u64 ''entity_id''),
     f_id ''entity_model_id'' (r_u64 ''entity_model_id''),
     f_hex ''entity_capabilities'' (r_u32 ''entity_capabilities'') 8,
     f_num ''talker_stream_sources'' (r_u16 ''talker_stream_sources''),
     f_hex ''talker_capabilities'' (r_u16 ''talker_capabilities'') 4,
     f_num ''listener_stream_sinks'' (r_u16 ''listener_stream_sinks''),
     f_hex ''listener_capabilities'' (r_u16 ''listener_capabilities'') 4,
     f_hex ''controller_capabilities'' (r_u32 ''controller_capabilities'') 8,
     f_num ''available_index'' (r_u32 ''available_index''),
     f_id ''gptp_grandmaster_id'' (r_u64 ''gptp_grandmaster_id''),
     f_num ''gptp_domain_number'' (r_u8 ''gptp_domain_number''),
     r_skip 3 ''adp reserved'',
     f_num ''identify_control_index'' (r_u16 ''identify_control_index''),
     f_num ''interface_index'' (r_u16 ''interface_index''),
     f_id ''association_id'' (r_u64 ''association_id'')]"

section \<open>AECP\<close>

definition f_descriptor :: "unit fparser" where
  "f_descriptor = f_numd ''descriptor_type'' (r_u16 ''descriptor_type'') descriptorTypeName"

definition aem_lock :: "u16 \<Rightarrow> unit fparser" where
  "aem_lock cmd = seqs
    [f_hex ''flags'' (r_u32 ''flags'') 8,
     f_id (if cmd = 0 then ''owner_id'' else ''locked_id'') (r_u64 ''owner/locked id''),
     f_descriptor,
     f_num ''descriptor_index'' (r_u16 ''descriptor_index'')]"

text \<open>The tail of an ENTITY descriptor, only where it is there in full.\<close>

definition aem_entity_tail :: "unit fparser" where
  "aem_entity_tail = andthen r_remaining (\<lambda>n.
     if n \<ge> 2 + 2 + 64 * 3 + 4 then seqs
       [f_num ''vendor_name_string'' (r_u16 ''u16''),
        f_num ''model_name_string'' (r_u16 ''u16''),
        f_str ''firmware_version'' (r_bytes 64 ''bytes''),
        f_str ''group_name'' (r_bytes 64 ''bytes''),
        f_str ''serial_number'' (r_bytes 64 ''bytes''),
        f_num ''configurations_count'' (r_u16 ''u16''),
        f_num ''current_configuration'' (r_u16 ''u16'')]
     else ret ())"

definition aem_entity :: "unit fparser" where
  "aem_entity = seqs
    [f_id ''entity_id'' (r_u64 ''entity_id''),
     f_id ''entity_model_id'' (r_u64 ''entity_model_id''),
     f_hex ''entity_capabilities'' (r_u32 ''entity_capabilities'') 8,
     f_num ''talker_stream_sources'' (r_u16 ''talker_stream_sources''),
     f_hex ''talker_capabilities'' (r_u16 ''talker_capabilities'') 4,
     f_num ''listener_stream_sinks'' (r_u16 ''listener_stream_sinks''),
     f_hex ''listener_capabilities'' (r_u16 ''listener_capabilities'') 4,
     f_hex ''controller_capabilities'' (r_u32 ''controller_capabilities'') 8,
     f_num ''available_index'' (r_u32 ''available_index''),
     f_id ''association_id'' (r_u64 ''association_id''),
     f_str ''entity_name'' (r_bytes 64 ''entity_name''),
     aem_entity_tail]"

definition aem_read_descriptor :: "bool \<Rightarrow> unit fparser" where
  "aem_read_descriptor isResponse = seqs
    [f_num ''configuration_index'' (r_u16 ''configuration_index''),
     r_skip 2 ''reserved'',
     andthen (r_u16 ''descriptor_type'') (\<lambda>dt. seqs
       [put (s_numd ''descriptor_type'' (ucast dt) (descriptorTypeName dt)),
        f_num ''descriptor_index'' (r_u16 ''descriptor_index''),
        (if isResponse \<and> dt = 0 then aem_entity else ret ())])]"

definition aem_name :: "bool \<Rightarrow> u16 \<Rightarrow> unit fparser" where
  "aem_name isResponse cmd = seqs
    [f_descriptor,
     f_num ''descriptor_index'' (r_u16 ''descriptor_index''),
     f_num ''name_index'' (r_u16 ''name_index''),
     f_num ''configuration_index'' (r_u16 ''configuration_index''),
     (if cmd = 0x0010 \<or> isResponse then f_str ''name'' (r_bytes 64 ''name'') else ret ())]"

definition not_decoded :: "unit fparser" where
  "not_decoded = andthen r_remaining (\<lambda>n.
     put (s_info ''payload_length'' (cat [nat_str n, '' bytes (not decoded)''])))"

definition parseAemPayload :: "u8 \<Rightarrow> u16 \<Rightarrow> unit fparser" where
  "parseAemPayload msgType cmd =
     (let isResponse = (msgType = 1)
      in if cmd = 0 \<or> cmd = 1 then aem_lock cmd
         else if cmd = 4 then aem_read_descriptor isResponse
         else if cmd = 0x10 \<or> cmd = 0x11 then aem_name isResponse cmd
         else not_decoded)"

definition parseAecp :: "avtp_header \<Rightarrow> unit fparser" where
  "parseAecp h = seqs
    [put (s_numd ''message_type'' (ucast (ah_msgType h)) (aecpMsgName (ah_msgType h))),
     put (s_numd ''status'' (ucast (ah_status5 h)) (aemStatusName (ah_status5 h))),
     f_id ''target_entity_id'' (r_u64 ''target_entity_id''),
     f_id ''controller_entity_id'' (r_u64 ''controller_entity_id''),
     f_num ''sequence_id'' (r_u16 ''sequence_id''),
     (if ah_msgType h = 0 \<or> ah_msgType h = 1 then
        andthen (r_u16 ''u/command_type'') (\<lambda>uc. seqs
          [put (s_num ''unsolicited'' (ucast (drop_bit 15 uc AND 1))),
           put (s_numd ''command_type'' (ucast (uc AND 0x7fff)) (aemCommandName (uc AND 0x7fff))),
           parseAemPayload (ah_msgType h) (uc AND 0x7fff)])
      else not_decoded)]"

section \<open>ACMP and MAAP\<close>

definition parseAcmp :: "avtp_header \<Rightarrow> unit fparser" where
  "parseAcmp h = seqs
    [put (s_numd ''message_type'' (ucast (ah_msgType h)) (acmpMsgName (ah_msgType h))),
     put (s_numd ''status'' (ucast (ah_status5 h)) (acmpStatusName (ah_status5 h))),
     f_id ''stream_id'' (r_u64 ''stream_id''),
     f_id ''controller_entity_id'' (r_u64 ''controller_entity_id''),
     f_id ''talker_entity_id'' (r_u64 ''talker_entity_id''),
     f_id ''listener_entity_id'' (r_u64 ''listener_entity_id''),
     f_num ''talker_unique_id'' (r_u16 ''talker_unique_id''),
     f_num ''listener_unique_id'' (r_u16 ''listener_unique_id''),
     f_mac ''stream_dest_mac'' (r_u48 ''stream_dest_mac''),
     f_num ''connection_count'' (r_u16 ''connection_count''),
     f_num ''sequence_id'' (r_u16 ''sequence_id''),
     f_hex ''flags'' (r_u16 ''flags'') 4,
     f_num ''stream_vlan_id'' (r_u16 ''stream_vlan_id'')]"

definition parseMaap :: "avtp_header \<Rightarrow> unit fparser" where
  "parseMaap h = seqs
    [put (s_numd ''message_type'' (ucast (ah_msgType h)) (maapMsgName (ah_msgType h))),
     put (s_num ''maap_version'' (ucast (ah_status5 h))),
     f_id ''stream_id'' (r_u64 ''stream_id''),
     f_mac ''requested_start_address'' (r_u48 ''requested_start_address''),
     f_num ''requested_count'' (r_u16 ''requested_count''),
     f_mac ''conflict_start_address'' (r_u48 ''conflict_start_address''),
     f_num ''conflict_count'' (r_u16 ''conflict_count'')]"

section \<open>The parsers stay in their span\<close>

lemma in_span_eth [intro, simp]: "in_span parseEth"
proof -
  have "in_span (vlan_round h)" for h :: eth_header
    by (auto simp: vlan_round_def)
  moreover have "progress (vlan_round :: eth_header \<Rightarrow> ('s, eth_header + eth_header) parser)"
  proof (rule progressI)
    fix h :: eth_header
    have "adv (2 + (2 + 0)) (andthen (r_u16 ''802.1Q TCI'') (\<lambda>tci.
        andthen (r_u16 ''ethertype'') (\<lambda>et.
          ret (Inr (h\<lparr>eh_vlan := Some (tci AND 0x0fff), eh_etype := et\<rparr>) :: eth_header + eth_header))))"
      by (intro adv_andthen adv_reader adv_ret)
    then show "progresses (vlan_round h :: ('s, eth_header + eth_header) parser)"
      unfolding vlan_round_def by (auto dest: progresses_adv)
  qed
  ultimately show ?thesis unfolding parseEth_def by (auto intro!: in_span_loop)
qed

lemma in_span_avtp [intro, simp]: "in_span parseAvtpCtrl"
  by (auto simp: parseAvtpCtrl_def)

lemma in_span_adp [intro, simp]: "in_span (parseAdp h)"
  unfolding parseAdp_def by (auto intro!: keeps_andthen in_span_field)

lemma in_span_aem_parts [intro, simp]: "in_span (aem_lock cmd)" "in_span aem_entity_tail" "in_span not_decoded"
  "in_span f_descriptor"
  unfolding aem_lock_def f_descriptor_def aem_entity_tail_def not_decoded_def
  by (auto intro!: keeps_andthen in_span_field)

lemma in_span_aem_entity [intro, simp]: "in_span aem_entity"
  unfolding aem_entity_def by (auto intro!: keeps_andthen in_span_field)

lemma in_span_optional [intro]: "in_span p \<Longrightarrow> in_span q \<Longrightarrow> in_span (if b then p else q)"
  by simp

lemma in_span_aem_read [intro, simp]: "in_span (aem_read_descriptor isResponse)"
  unfolding aem_read_descriptor_def seqs.simps
  by (intro keeps_andthen in_span_field in_span_optional in_span_u16 in_span_skip in_span_put in_span_aem_entity keeps_ret)

lemma in_span_aem_name [intro, simp]: "in_span (aem_name isResponse cmd)"
  unfolding aem_name_def seqs.simps
  by (intro keeps_andthen in_span_field in_span_optional in_span_u16 in_span_bytes in_span_aem_parts keeps_ret)

lemma in_span_aem [intro, simp]: "in_span (parseAemPayload msgType cmd)"
  unfolding parseAemPayload_def Let_def
  by (intro in_span_optional in_span_aem_parts in_span_aem_read in_span_aem_name)

lemma in_span_aecp [intro, simp]: "in_span (parseAecp h)"
  unfolding parseAecp_def seqs.simps
  by (intro keeps_andthen in_span_field in_span_optional in_span_u16 in_span_u64 in_span_put in_span_aem
      in_span_aem_parts keeps_ret)

lemma in_span_acmp [intro, simp]: "in_span (parseAcmp h)"
  unfolding parseAcmp_def by (auto intro!: keeps_andthen in_span_field)

lemma in_span_maap [intro, simp]: "in_span (parseMaap h)"
  unfolding parseMaap_def by (auto intro!: keeps_andthen in_span_field)

end
