(* ===== verification/Decode_Mrp.thy ===== *)
theory Decode_Mrp
  imports Decode_Fields
begin

text \<open>
  \<open>backend/src/decode/decode.cpp\<close>, second part: the MRP PDU walk shared by MVRP and MSRP,
  the packed events, the expansion of vector attributes into one context per declaration
  and the inspector's fields.  An index into a packed span is checked in the model; the
  lemmas show the check never fails on what the walk produced.
\<close>

section \<open>The PDU\<close>

definition kMaxVectorValues :: nat where "kMaxVectorValues = 4096"
definition kMaxDeclsPerPacket :: nat where "kMaxDeclsPerPacket = 8192"

record mrp_vector =
  mv_leaveAll :: bool
  mv_numValues :: nat
  mv_first :: "byte list"
  mv_three :: "byte list"
  mv_four :: "byte list"

record mrp_message =
  mm_attrType :: u8
  mm_attrLen :: u8
  mm_vectors :: "mrp_vector list"

text \<open>One round of the vector loop.\<close>

definition vector_round ::
    "bool \<Rightarrow> u8 \<Rightarrow> u8 \<Rightarrow> nat \<Rightarrow> mrp_vector list \<Rightarrow> ('s, mrp_vector list + mrp_vector list) parser" where
  "vector_round isMsrp attrType attrLen vecEnd vs =
     andthen r_remaining (\<lambda>n. andthen r_pos (\<lambda>p.
       if \<not> (n \<ge> 2 \<and> (\<not> isMsrp \<or> p < vecEnd)) then ret (Inl vs)
       else andthen (r_u16 ''vector header'') (\<lambda>header.
         if header = 0 then ret (Inl vs)
         else let nv = unat (header AND 0x1fff)
           in if nv > kMaxVectorValues
              then throw (ShortFrame (cat [''implausible MRP vector size '', nat_str nv]))
              else andthen (r_bytes (unat attrLen) ''first value'') (\<lambda>fv.
                andthen (r_bytes ((nv + 2) div 3) ''three-packed events'') (\<lambda>three.
                andthen (if isMsrp \<and> attrType = 3 then r_bytes ((nv + 3) div 4) ''four-packed events''
                         else ret []) (\<lambda>four.
                  ret (Inr (vs @ [\<lparr>mv_leaveAll = (drop_bit 13 header AND 0x7 = 1), mv_numValues = nv,
                    mv_first = fv, mv_three = three, mv_four = four\<rparr>]))))))))"

text \<open>One round of the message loop.\<close>

definition message_round ::
    "bool \<Rightarrow> mrp_message list \<Rightarrow> ('s, mrp_message list + mrp_message list) parser" where
  "message_round isMsrp msgs =
     andthen r_remaining (\<lambda>n.
       if n < 2 then ret (Inl msgs)
       else andthen (r_u8 ''attribute type'') (\<lambda>attrType.
         if attrType = 0 then ret (Inl msgs)
         else andthen (r_u8 ''attribute length'') (\<lambda>attrLen.
           if attrLen = 0 \<or> attrLen > 64
           then throw (ShortFrame (cat [''implausible MRP attribute length '', u_str attrLen]))
           else andthen
             (if isMsrp then andthen (r_u16 ''attribute list length'') (\<lambda>listLen.
                andthen r_remaining (\<lambda>n'. andthen r_pos (\<lambda>p.
                  if unat listLen > n' then throw (ShortFrame ''MSRP attribute list length exceeds frame'')
                  else ret (p + unat listLen)))) else ret 0) (\<lambda>vecEnd.
             andthen (loop (vector_round isMsrp attrType attrLen vecEnd) []) (\<lambda>vs.
             andthen
               (if isMsrp then andthen r_pos (\<lambda>p.
                  if p > vecEnd
                  then throw (ShortFrame ''MSRP vector list overruns attribute list length'')
                  else r_skip (vecEnd - p) ''attribute list padding'') else ret ()) (\<lambda>_.
               let msgs' = msgs @ [\<lparr>mm_attrType = attrType, mm_attrLen = attrLen, mm_vectors = vs\<rparr>]
               in if length msgs' > 256 then throw (ShortFrame ''runaway MRP message list'')
                  else ret (Inr msgs')))))))"

definition parseMrpPdu :: "bool \<Rightarrow> ('s, u8 \<times> mrp_message list) parser" where
  "parseMrpPdu isMsrp =
     andthen (r_u8 ''MRP protocol version'') (\<lambda>version.
     andthen (loop (message_round isMsrp) []) (\<lambda>msgs. ret (version, msgs)))"

section \<open>Packed events\<close>

definition threePackedEvent :: "byte list \<Rightarrow> nat \<Rightarrow> (exn, 's, int) thrower" where
  "threePackedEvent packed idx = andthen (index packed (idx div 3)) (\<lambda>b.
     ret (if idx mod 3 = 0 then int (unat b div 36)
          else if idx mod 3 = 1 then int ((unat b div 6) mod 6)
          else int (unat b mod 6)))"

definition fourPackedEvent :: "byte list \<Rightarrow> nat \<Rightarrow> (exn, 's, int) thrower" where
  "fourPackedEvent packed idx = andthen (index packed (idx div 4)) (\<lambda>b.
     ret (uint (drop_bit (6 - 2 * (idx mod 4)) b AND 0x3)))"

section \<open>First values\<close>

record first_value =
  fv_streamId :: u64
  fv_destMac :: u64
  fv_failBridge :: u64
  fv_vlan :: u16
  fv_maxFrameSize :: u16
  fv_maxIntervalFrames :: u16
  fv_classVid :: u16
  fv_accLatency :: u32
  fv_priority :: u8
  fv_rank :: u8
  fv_failCode :: u8
  fv_classId :: u8
  fv_classPrio :: u8

definition MsrpFirstValue :: first_value where
  "MsrpFirstValue = \<lparr>fv_streamId = 0, fv_destMac = 0, fv_failBridge = 0, fv_vlan = 0, fv_maxFrameSize = 0,
     fv_maxIntervalFrames = 0, fv_classVid = 0, fv_accLatency = 0, fv_priority = 0, fv_rank = 0,
     fv_failCode = 0, fv_classId = 0, fv_classPrio = 0\<rparr>"

definition talkerFirstValue :: "u8 \<Rightarrow> (unit, first_value) parser" where
  "talkerFirstValue attrType =
     andthen (r_u64 ''stream id'') (\<lambda>sid.
     andthen (r_u48 ''dataframe dest mac'') (\<lambda>mac.
     andthen (r_u16 ''dataframe vlan'') (\<lambda>vlan.
     andthen (r_u16 ''tspec max frame size'') (\<lambda>mfs.
     andthen (r_u16 ''tspec max interval frames'') (\<lambda>mif.
     andthen (r_u8 ''priority and rank'') (\<lambda>pr.
     andthen (r_u32 ''accumulated latency'') (\<lambda>lat.
       let v = MsrpFirstValue\<lparr>fv_streamId := sid, fv_destMac := mac, fv_vlan := vlan AND 0x0fff,
             fv_maxFrameSize := mfs, fv_maxIntervalFrames := mif, fv_priority := drop_bit 5 pr AND 0x7,
             fv_rank := drop_bit 4 pr AND 0x1, fv_accLatency := lat\<rparr>
       in if attrType = 2 then
            andthen (r_u64 ''failure bridge id'') (\<lambda>fb.
            andthen (r_u8 ''failure code'') (\<lambda>fc. ret (v\<lparr>fv_failBridge := fb, fv_failCode := fc\<rparr>)))
          else ret v)))))))"

definition parseMsrpFirstValue :: "u8 \<Rightarrow> (unit, first_value) parser" where
  "parseMsrpFirstValue attrType =
     (if attrType = 1 \<or> attrType = 2 then talkerFirstValue attrType
      else if attrType = 3 then
        andthen (r_u64 ''stream id'') (\<lambda>sid. ret (MsrpFirstValue\<lparr>fv_streamId := sid\<rparr>))
      else if attrType = 4 then
        andthen (r_u8 ''sr class id'') (\<lambda>c.
        andthen (r_u8 ''sr class priority'') (\<lambda>p.
        andthen (r_u16 ''sr class vid'') (\<lambda>vid.
          ret (MsrpFirstValue\<lparr>fv_classId := c, fv_classPrio := p, fv_classVid := vid AND 0x0fff\<rparr>))))
      else ret MsrpFirstValue)"

text \<open>A parser on a span of its own, inside a computation with another state.\<close>

definition on_span :: "byte list \<Rightarrow> (unit, 'a) parser \<Rightarrow> (exn, 's, 'a) thrower" where
  "on_span d p = (\<lambda>s. (fst (p (BeReader d, ())), s))"

definition mvrpFirstVid :: "byte list \<Rightarrow> (exn, 's, u16) thrower" where
  "mvrpFirstVid fv = andthen (index fv 0) (\<lambda>a. andthen (index fv 1) (\<lambda>b.
     ret (push_bit 8 (ucast a) OR ucast b)))"

definition srClassName :: "u8 \<Rightarrow> string" where
  "srClassName classId = (if classId = 6 then ''A'' else if classId = 5 then ''B'' else u_str classId)"

section \<open>Declarations\<close>

text \<open>\<open>addCtx\<close>: the context of the declaration \<open>k\<close> values after the first.\<close>

definition decl_ctx :: "bool \<Rightarrow> mrp_message \<Rightarrow> int \<Rightarrow> int \<Rightarrow> first_value \<Rightarrow> u16 \<Rightarrow> nat \<Rightarrow> var_ctx" where
  "decl_ctx isMsrp m ev fp v vid k =
     (let kw = of_nat k :: u64; attr = mm_attrType m;
          c0 = setValue ''mrp_event'' (of_int ev)
                 (setValue ''attribute_type'' (ucast attr)
                   (VarLayerContext (if isMsrp then ''mrp_msrp'' else ''mrp_mvrp'')));
          c1 = (if fp \<ge> 0 then setValue ''four_packed_event'' (of_int fp) c0 else c0)
      in if isMsrp then
           (if attr = 1 \<or> attr = 2 then
              let c2 = fold (\<lambda>(n, w). setValue n w)
                    [(''stream_id'', fv_streamId v + kw), (''dest_mac'', fv_destMac v + kw),
                     (''vlan_id'', ucast (fv_vlan v)), (''max_frame_size'', ucast (fv_maxFrameSize v)),
                     (''max_interval_frames'', ucast (fv_maxIntervalFrames v)),
                     (''priority'', ucast (fv_priority v)), (''rank'', ucast (fv_rank v)),
                     (''accumulated_latency'', ucast (fv_accLatency v))] c1
              in if attr = 2 then setValue ''failure_code'' (ucast (fv_failCode v))
                                    (setValue ''failure_bridge_id'' (fv_failBridge v) c2)
                 else c2
            else if attr = 3 then setValue ''stream_id'' (fv_streamId v + kw) c1
            else if attr = 4 then
              setValue ''sr_class_vid'' (ucast (fv_classVid v))
                (setValue ''sr_class_priority'' (ucast (fv_classPrio v))
                  (setValue ''sr_class_id'' (ucast (fv_classId v) + kw) c1))
            else c1)
         else setValue ''vid'' ((ucast vid + kw) AND 0x0fff) c1)"

text \<open>The description of a value declaration.\<close>

definition decl_desc :: "bool \<Rightarrow> mrp_message \<Rightarrow> int \<Rightarrow> int \<Rightarrow> first_value \<Rightarrow> u16 \<Rightarrow> nat \<Rightarrow> string" where
  "decl_desc isMsrp m ev fp v vid k =
     (let kw = of_nat k :: u64; attr = mm_attrType m
      in if \<not> isMsrp then cat [''VLAN '', u_str ((ucast vid + of_nat k :: u32) AND 0x0fff), '' '', mrpEventName ev]
         else if attr = 1 \<or> attr = 2 then
           cat [(if attr = 1 then ''TalkerAdvertise '' else ''TalkerFailed ''), mrpEventName ev, '' stream '',
                idStr (fv_streamId v + kw), '' dst '', macStr (fv_destMac v + kw), '' vlan '', u_str (fv_vlan v),
                (if attr = 2 then cat ['' ('', msrpFailureName (fv_failCode v), '')''] else [])]
         else if attr = 3 then
           cat [''Listener '', fourPackedName fp, '' '', mrpEventName ev, '' stream '', idStr (fv_streamId v + kw)]
         else if attr = 4 then
           cat [''Domain '', mrpEventName ev, '' class '', srClassName (fv_classId v + of_nat k), '' prio '',
                u_str (fv_classPrio v), '' vid '', u_str (fv_classVid v)]
         else [])"

text \<open>What the expansion threads: the locals of \<open>emitMrpDecls\<close> and the packet.\<close>

record mrp_acc =
  ea_count :: nat
  ea_labeled :: bool
  ea_desc :: string
  ea_out :: decoded

definition add_ctx :: "var_ctx \<Rightarrow> mrp_acc \<Rightarrow> mrp_acc" where
  "add_ctx c a = a\<lparr>ea_count := ea_count a + 1,
     ea_out := (ea_out a)\<lparr>dp_logicCtxs := dp_logicCtxs (ea_out a) @ [c]\<rparr>\<rparr>"

definition emit_leaveAll :: "bool \<Rightarrow> mrp_message \<Rightarrow> first_value \<Rightarrow> u16 \<Rightarrow> mrp_acc \<Rightarrow> mrp_acc" where
  "emit_leaveAll isMsrp m v vid a0 =
     (let a = add_ctx (decl_ctx isMsrp m 6 (-1) v vid 0) a0
      in if ea_desc a = [] then
           a\<lparr>ea_desc := cat [''LeaveAll ('', (if isMsrp then msrpAttrName (mm_attrType m) else ''VID''), '')''],
             ea_out := (ea_out a)\<lparr>dp_type := ''LEAVEALL''\<rparr>\<rparr>
         else a)"

definition emit_value ::
    "bool \<Rightarrow> mrp_message \<Rightarrow> first_value \<Rightarrow> u16 \<Rightarrow> nat \<Rightarrow> int \<Rightarrow> int \<Rightarrow> mrp_acc \<Rightarrow> mrp_acc" where
  "emit_value isMsrp m v vid k ev fp a0 =
     (let a = add_ctx (decl_ctx isMsrp m ev fp v vid k) a0
      in if ea_labeled a then a
         else let d = decl_desc isMsrp m ev fp v vid k; out = ea_out a
           in a\<lparr>ea_labeled := True, ea_desc := (if ea_desc a = [] then d else ea_desc a),
                ea_out := out\<lparr>dp_type := (if isMsrp then msrpAttrName (mm_attrType m) else ''VID_VECTOR''),
                  dp_stream := (if isMsrp \<and> mm_attrType m \<noteq> 4 then idStr (fv_streamId v + of_nat k)
                                else dp_stream out)\<rparr>\<rparr>)"

definition value_step ::
    "bool \<Rightarrow> mrp_message \<Rightarrow> mrp_vector \<Rightarrow> first_value \<Rightarrow> u16 \<Rightarrow> nat \<Rightarrow> (exn, mrp_acc, unit) thrower" where
  "value_step isMsrp m vec v vid k =
     andthen (reads ea_count) (\<lambda>c.
       if c \<ge> kMaxDeclsPerPacket then throw (ShortFrame ''too many MRP declarations in one PDU'')
       else andthen (threePackedEvent (mv_three vec) k) (\<lambda>ev.
            andthen (if isMsrp \<and> mm_attrType m = 3 then fourPackedEvent (mv_four vec) k else ret (-1)) (\<lambda>fp.
              modify (emit_value isMsrp m v vid k ev fp))))"

definition vector_step :: "bool \<Rightarrow> mrp_message \<Rightarrow> mrp_vector \<Rightarrow> (exn, mrp_acc, unit) thrower" where
  "vector_step isMsrp m vec =
     andthen (if isMsrp then on_span (mv_first vec) (parseMsrpFirstValue (mm_attrType m)) else ret MsrpFirstValue) (\<lambda>v.
     andthen (if isMsrp then ret 0 else mvrpFirstVid (mv_first vec)) (\<lambda>vid.
     andthen (if mv_leaveAll vec then modify (emit_leaveAll isMsrp m v vid) else ret ()) (\<lambda>_.
       seqs (map (value_step isMsrp m vec v vid) [0..<mv_numValues vec]))))"

definition finish_decls :: "bool \<Rightarrow> mrp_acc \<Rightarrow> mrp_acc" where
  "finish_decls isMsrp a =
     (let out = ea_out a; n = ea_count a
      in a\<lparr>ea_out := out\<lparr>
           dp_type := (if dp_type out = [] then (if isMsrp then ''MSRP'' else ''MVRP'') else dp_type out),
           dp_summary := cat [(if ea_desc a = [] then ''empty MRP PDU'' else ea_desc a),
             (if n > 1 then cat ['' (+'', nat_str (n - 1), '' more declaration'', (if n > 2 then ''s)'' else '')'')]
              else [])]\<rparr>\<rparr>)"

definition emitMrpDecls :: "mrp_message list \<Rightarrow> bool \<Rightarrow> (exn, decoded, nat) thrower" where
  "emitMrpDecls msgs isMsrp = (\<lambda>out.
     case seqs (concat (map (\<lambda>m. map (vector_step isMsrp m) (mm_vectors m)) msgs))
            \<lparr>ea_count = 0, ea_labeled = False, ea_desc = [], ea_out = out\<rparr> of
       (Inl e, a) \<Rightarrow> (Inl e, ea_out a)
     | (Inr _, a) \<Rightarrow> (let a' = finish_decls isMsrp a in (Inr (ea_count a'), ea_out a')))"

section \<open>The inspector's view\<close>

definition first_fields :: "string \<Rightarrow> u8 \<Rightarrow> first_value \<Rightarrow> dfield list" where
  "first_fields q attr v =
     (if attr = 1 \<or> attr = 2 then
        [(cat [q, ''stream_id''], idStr (fv_streamId v)), (cat [q, ''dest_mac''], macStr (fv_destMac v)),
         (cat [q, ''vlan_id''], u_str (fv_vlan v)), (cat [q, ''max_frame_size''], u_str (fv_maxFrameSize v)),
         (cat [q, ''max_interval_frames''], u_str (fv_maxIntervalFrames v)),
         (cat [q, ''priority''], u_str (fv_priority v)), (cat [q, ''rank''], u_str (fv_rank v)),
         (cat [q, ''accumulated_latency''], u_str (fv_accLatency v))] @
        (if attr = 2 then
           [(cat [q, ''failure_bridge_id''], idStr (fv_failBridge v)),
            (cat [q, ''failure_code''], cat [u_str (fv_failCode v), '' ('', msrpFailureName (fv_failCode v), '')''])]
         else [])
      else if attr = 3 then [(cat [q, ''stream_id''], idStr (fv_streamId v))]
      else if attr = 4 then
        [(cat [q, ''sr_class_id''], cat [u_str (fv_classId v), '' (class '', srClassName (fv_classId v), '')'']),
         (cat [q, ''sr_class_priority''], u_str (fv_classPrio v)), (cat [q, ''sr_class_vid''], u_str (fv_classVid v))]
      else [])"

text \<open>The event list, comma-separated.\<close>

definition join_events :: "string list \<Rightarrow> string" where
  "join_events = foldl (\<lambda>acc e. if acc = [] then e else acc @ '', '' @ e) []"

definition event_name :: "bool \<Rightarrow> u8 \<Rightarrow> mrp_vector \<Rightarrow> nat \<Rightarrow> (exn, 's, string) thrower" where
  "event_name isMsrp attr vec k =
     andthen (threePackedEvent (mv_three vec) k) (\<lambda>ev.
       if isMsrp \<and> attr = 3 then
         andthen (fourPackedEvent (mv_four vec) k) (\<lambda>fp. ret (cat [mrpEventName ev, ''/'', fourPackedName fp]))
       else ret (mrpEventName ev))"

definition disp_add :: "dfield list \<Rightarrow> (exn, dfield list, unit) thrower" where
  "disp_add fs = modify (\<lambda>d. d @ fs)"

definition vector_fields ::
    "bool \<Rightarrow> mrp_message \<Rightarrow> string \<Rightarrow> nat \<times> mrp_vector \<Rightarrow> (exn, dfield list, unit) thrower" where
  "vector_fields isMsrp m p = (\<lambda>(vi, vec).
     let q = cat [p, ''vec'', nat_str vi, ''.'']
     in seqs
       [disp_add [(cat [q, ''leave_all''], if mv_leaveAll vec then ''1'' else ''0''),
              (cat [q, ''number_of_values''], nat_str (mv_numValues vec))],
        (if isMsrp then andthen (on_span (mv_first vec) (parseMsrpFirstValue (mm_attrType m)))
                          (\<lambda>v. disp_add (first_fields q (mm_attrType m) v))
         else andthen (mvrpFirstVid (mv_first vec)) (\<lambda>vid. disp_add [(cat [q, ''first_vid''], u_str vid)])),
        andthen (gather (map (event_name isMsrp (mm_attrType m) vec) [0..<mv_numValues vec])) (\<lambda>es.
          let events = join_events es
          in if events \<noteq> [] then disp_add [(cat [q, ''events''], events)] else ret ())])"

definition message_fields :: "bool \<Rightarrow> nat \<times> mrp_message \<Rightarrow> (exn, dfield list, unit) thrower" where
  "message_fields isMsrp = (\<lambda>(mi, m).
     let p = cat [''msg'', nat_str mi, ''.'']
     in seqs
       [disp_add [(cat [p, ''attribute_type''], cat [u_str (mm_attrType m), '' ('',
                 (if isMsrp then msrpAttrName (mm_attrType m) else ''VID''), '')'']),
              (cat [p, ''attribute_length''], u_str (mm_attrLen m))],
        seqs (map (vector_fields isMsrp m p) (enumerate 0 (mm_vectors m)))])"

definition mrpInspectorFields :: "mrp_message list \<Rightarrow> bool \<Rightarrow> u8 \<Rightarrow> (exn, dfield list, unit) thrower" where
  "mrpInspectorFields msgs isMsrp version = seqs
     [disp_add [(''protocol_version'', u_str version)], seqs (map (message_fields isMsrp) (enumerate 0 msgs))]"

text \<open>The length checks \<open>decodeInner\<close> makes before it uses the messages.\<close>

definition kLens :: "nat list" where "kLens = [0, 25, 34, 8, 4]"

definition mrpLengthError :: "bool \<Rightarrow> mrp_message \<Rightarrow> exn option" where
  "mrpLengthError isMsrp m =
     (if \<not> isMsrp then
        (if mm_attrType m \<noteq> 1 \<or> mm_attrLen m \<noteq> 2
         then Some (ShortFrame (cat [''MVRP: unsupported attribute type '', u_str (mm_attrType m), '' / length '',
                u_str (mm_attrLen m)]))
         else None)
      else if 1 \<le> mm_attrType m \<and> mm_attrType m \<le> 4 \<and> unat (mm_attrLen m) \<noteq> kLens ! unat (mm_attrType m)
      then Some (ShortFrame (cat [''MSRP: attribute length '', u_str (mm_attrLen m), '' does not match type '',
             msrpAttrName (mm_attrType m)]))
      else None)"

definition checkLengths :: "bool \<Rightarrow> mrp_message list \<Rightarrow> (exn, 's, unit) thrower" where
  "checkLengths isMsrp msgs = seqs (map (\<lambda>m. case mrpLengthError isMsrp m of Some e \<Rightarrow> throw e | None \<Rightarrow> ret ()) msgs)"

section \<open>The walk is well-formed\<close>

text \<open>The shape of a vector the walk produces, and of a message whose length was checked.\<close>

definition vector_ok :: "bool \<Rightarrow> u8 \<Rightarrow> u8 \<Rightarrow> mrp_vector \<Rightarrow> bool" where
  "vector_ok isMsrp attr len vec \<longleftrightarrow> length (mv_first vec) = unat len \<and>
     length (mv_three vec) = (mv_numValues vec + 2) div 3 \<and>
     (isMsrp \<and> attr = 3 \<longrightarrow> length (mv_four vec) = (mv_numValues vec + 3) div 4) \<and>
     mv_numValues vec \<le> kMaxVectorValues"

definition message_ok :: "bool \<Rightarrow> mrp_message \<Rightarrow> bool" where
  "message_ok isMsrp m \<longleftrightarrow> list_all (vector_ok isMsrp (mm_attrType m) (mm_attrLen m)) (mm_vectors m)"

lemma yields_any: "in_span p \<Longrightarrow> yields rd_ok (\<lambda>_. True) p"
  by (rule yields_keeps)

lemma vector_round_ok:
  assumes "list_all (vector_ok isMsrp attr len) vs"
  shows "yields rd_ok (\<lambda>r. case r of Inl y \<Rightarrow> list_all (vector_ok isMsrp attr len) y
      | Inr x \<Rightarrow> list_all (vector_ok isMsrp attr len) x) (vector_round isMsrp attr len vecEnd vs)"
proof -
  have four: "yields rd_ok (\<lambda>f. isMsrp \<and> attr = 3 \<longrightarrow> length f = k)
      (if isMsrp \<and> attr = 3 then r_bytes k what else ret [])" for k what
    by (cases "isMsrp \<and> attr = 3") (auto intro: yields_weaken [OF yields_bytes])
  have stop: "yields rd_ok (\<lambda>r. case r of Inl y \<Rightarrow> list_all (vector_ok isMsrp attr len) y
      | Inr x \<Rightarrow> list_all (vector_ok isMsrp attr len) x) (ret (Inl vs))"
    using assms by (intro yields_ret) simp
  show ?thesis
    unfolding vector_round_def Let_def
    apply (rule yields_andthen [OF yields_any], simp)
    apply (rule yields_andthen [OF yields_any], simp)
    apply (rule yields_if [OF stop])
    apply (rule yields_andthen [OF yields_any], simp)
    apply (rule yields_if [OF stop])
    apply (rule yields_if [OF yields_throw])
    apply (rule yields_andthen [OF yields_bytes])
    apply (rule yields_andthen [OF yields_bytes])
    apply (rule yields_andthen [OF four])
    apply (rule yields_ret)
    using assms by (simp add: vector_ok_def not_less)
qed

lemma in_span_vector_round [intro, simp]: "in_span (vector_round isMsrp attr len vecEnd vs)"
  unfolding vector_round_def Let_def
  by (intro keeps_andthen in_span_optional in_span_remaining in_span_pos in_span_u16 in_span_bytes
      keeps_ret keeps_throw no_oob_ShortFrame)

lemma progress_vector_round: "progress (vector_round isMsrp attr len vecEnd)"
  unfolding vector_round_def Let_def
  by (intro progressI progresses_after progresses_if progresses_stop progresses_read [OF adv_reader(2)] adv_intros)
    simp_all

lemma adv_vector_round [intro, simp]: "adv 0 (vector_round isMsrp attr len vecEnd vs)"
  unfolding vector_round_def Let_def by (intro adv_intros)

lemma vector_loop_ok: "yields rd_ok (list_all (vector_ok isMsrp attr len)) (loop (vector_round isMsrp attr len vecEnd) [])"
  by (rule loop_yields [where J = "list_all (vector_ok isMsrp attr len)"]) (auto intro: vector_round_ok)

lemma in_span_vector_loop [intro, simp]: "in_span (loop (vector_round isMsrp attr len vecEnd) [])"
  by (auto intro!: in_span_loop progress_vector_round)

lemma message_round_ok:
  assumes "list_all (message_ok isMsrp) msgs"
  shows "yields rd_ok (\<lambda>r. case r of Inl y \<Rightarrow> list_all (message_ok isMsrp) y
      | Inr x \<Rightarrow> list_all (message_ok isMsrp) x) (message_round isMsrp msgs)"
proof -
  have stop: "yields rd_ok (\<lambda>r. case r of Inl y \<Rightarrow> list_all (message_ok isMsrp) y
      | Inr x \<Rightarrow> list_all (message_ok isMsrp) x) (ret (Inl msgs))"
    using assms by (intro yields_ret) simp
  have listEnd: "in_span (if isMsrp then andthen (r_u16 w) (\<lambda>listLen.
      andthen r_remaining (\<lambda>n'. andthen r_pos (\<lambda>p. if unat listLen > n' then throw (ShortFrame w')
        else ret (p + unat listLen)))) else ret 0)" for w w'
    by (intro in_span_optional keeps_andthen in_span_u16 in_span_remaining in_span_pos keeps_ret keeps_throw
        no_oob_ShortFrame)
  have pad: "in_span (if isMsrp then andthen r_pos (\<lambda>p. if p > e then throw (ShortFrame w)
      else r_skip (e - p) w') else ret ())" for e w w'
    by (intro in_span_optional keeps_andthen in_span_pos in_span_skip keeps_ret keeps_throw no_oob_ShortFrame)
  show ?thesis
    unfolding message_round_def Let_def
    apply (rule yields_andthen [OF yields_any], simp)
    apply (rule yields_if [OF stop])
    apply (rule yields_andthen [OF yields_any], simp)
    apply (rule yields_if [OF stop])
    apply (rule yields_andthen [OF yields_any], simp)
    apply (rule yields_if [OF yields_throw])
    apply (rule yields_andthen [OF yields_any [OF listEnd]])
    apply (rule yields_andthen [OF vector_loop_ok])
    apply (rule yields_andthen [OF yields_any [OF pad]])
    apply (rule yields_if [OF yields_throw])
    apply (rule yields_ret)
    using assms by (simp add: message_ok_def)
qed

lemma in_span_message_round [intro, simp]: "in_span (message_round isMsrp msgs)"
  unfolding message_round_def Let_def
  by (intro keeps_andthen in_span_optional in_span_remaining in_span_pos in_span_u8 in_span_u16 in_span_skip
      in_span_vector_loop keeps_ret keeps_throw no_oob_ShortFrame)

lemma progress_message_round: "progress (message_round isMsrp)"
  unfolding message_round_def Let_def
  by (intro progressI progresses_after progresses_if progresses_stop progresses_read [OF adv_reader(1)] adv_intros
      adv_vector_round) simp_all

lemma in_span_pdu [intro, simp]: "in_span (parseMrpPdu isMsrp)"
  unfolding parseMrpPdu_def
  by (intro keeps_andthen in_span_u8 in_span_loop in_span_message_round progress_message_round keeps_ret)

lemma pdu_ok: "yields rd_ok (\<lambda>r. list_all (message_ok isMsrp) (snd r)) (parseMrpPdu isMsrp)"
proof -
  have "yields rd_ok (list_all (message_ok isMsrp)) (loop (message_round isMsrp) [])"
    by (rule loop_yields [where J = "list_all (message_ok isMsrp)"]) (auto intro: message_round_ok)
  then show ?thesis
    unfolding parseMrpPdu_def
    by (intro yields_andthen [OF yields_any [OF in_span_u8]] yields_andthen [where P = "list_all (message_ok isMsrp)"])
      (auto intro: yields_ret)
qed

section \<open>Indices stay in their spans\<close>

abbreviation safe :: "(exn, 's, 'a) thrower \<Rightarrow> bool" where
  "safe m \<equiv> keeps (\<lambda>_. True) no_oob m"

lemma safe_index: "i < length d \<Longrightarrow> safe (index d i)"
  by (rule keeps_index)

lemma safe_modify [intro, simp]: "safe (modify f)"
  by auto

lemma safe_if: "safe p \<Longrightarrow> safe q \<Longrightarrow> safe (if b then p else q)"
  by simp

lemma safe_on_span: "in_span p \<Longrightarrow> safe (on_span d p)"
proof -
  assume p: "in_span p"
  have "rd_ok (BeReader d, ())" by (simp add: rd_ok_def BeReader_def)
  with p show ?thesis by (auto simp: keeps_def on_span_def)
qed

lemma in_span_first [intro, simp]: "in_span (parseMsrpFirstValue attr)"
  unfolding parseMsrpFirstValue_def talkerFirstValue_def Let_def
  by (intro in_span_optional keeps_andthen in_span_u8 in_span_u16 in_span_u32 in_span_u48 in_span_u64 keeps_ret)

lemma safe_three: "k < n \<Longrightarrow> length d = (n + 2) div 3 \<Longrightarrow> safe (threePackedEvent d k)"
  unfolding threePackedEvent_def by (intro keeps_andthen safe_index keeps_ret) linarith

lemma safe_four: "k < n \<Longrightarrow> length d = (n + 3) div 4 \<Longrightarrow> safe (fourPackedEvent d k)"
  unfolding fourPackedEvent_def by (intro keeps_andthen safe_index keeps_ret) linarith

lemma safe_vid: "length d = 2 \<Longrightarrow> safe (mvrpFirstVid d)"
  unfolding mvrpFirstVid_def by (intro keeps_andthen safe_index keeps_ret) simp_all

lemma safe_value_step:
  assumes "vector_ok isMsrp (mm_attrType m) len vec" and "k < mv_numValues vec"
  shows "safe (value_step isMsrp m vec v vid k)"
proof -
  have three: "safe (threePackedEvent (mv_three vec) k)"
    using assms by (intro safe_three [of k "mv_numValues vec"]) (simp_all add: vector_ok_def)
  have four: "safe (if isMsrp \<and> mm_attrType m = 3 then fourPackedEvent (mv_four vec) k else ret (-1))"
    using assms safe_four [of k "mv_numValues vec" "mv_four vec"] by (auto simp: vector_ok_def)
  have "safe (andthen (threePackedEvent (mv_three vec) k) (\<lambda>ev.
      andthen (if isMsrp \<and> mm_attrType m = 3 then fourPackedEvent (mv_four vec) k else ret (-1)) (\<lambda>fp.
        modify (emit_value isMsrp m v vid k ev fp))))"
    by (intro keeps_andthen three four safe_modify)
  then show ?thesis
    unfolding value_step_def by (auto intro!: keeps_andthen keeps_throw)
qed

lemma safe_vector_step:
  assumes "vector_ok isMsrp (mm_attrType m) (mm_attrLen m) vec" and "mrpLengthError isMsrp m = None"
  shows "safe (vector_step isMsrp m vec)"
proof -
  have vid: "safe (if isMsrp then ret 0 else mvrpFirstVid (mv_first vec))"
    using assms by (auto simp: vector_ok_def mrpLengthError_def split: if_splits intro: safe_vid)
  have vals: "safe (seqs (map (value_step isMsrp m vec v vid) [0..<mv_numValues vec]))" for v vid
    by (rule keeps_seqs) (auto intro: safe_value_step [OF assms(1)])
  have first: "safe (if isMsrp then on_span (mv_first vec) (parseMsrpFirstValue (mm_attrType m)) else ret MsrpFirstValue)"
    by (auto intro: safe_on_span)
  have la: "safe (if mv_leaveAll vec then modify (emit_leaveAll isMsrp m v vid) else ret ())" for v vid
    by auto
  show ?thesis
    unfolding vector_step_def by (intro keeps_andthen first vid la vals)
qed

lemma message_okD: "message_ok isMsrp m \<Longrightarrow> vec \<in> set (mm_vectors m) \<Longrightarrow>
    vector_ok isMsrp (mm_attrType m) (mm_attrLen m) vec"
  by (auto simp: message_ok_def list_all_iff)

text \<open>\<open>usable\<close>: the messages came out of the walk and passed the length checks.\<close>

definition usable :: "bool \<Rightarrow> mrp_message list \<Rightarrow> bool" where
  "usable isMsrp msgs \<longleftrightarrow> (\<forall>m \<in> set msgs. message_ok isMsrp m \<and> mrpLengthError isMsrp m = None)"

lemma safe_emit:
  assumes "usable isMsrp msgs"
  shows "safe (emitMrpDecls msgs isMsrp)"
proof -
  have "safe (seqs (concat (map (\<lambda>m. map (vector_step isMsrp m) (mm_vectors m)) msgs)))"
    using assms by (intro keeps_seqs) (auto simp: usable_def intro: safe_vector_step message_okD)
  then show ?thesis
    unfolding emitMrpDecls_def keeps_def by (auto simp: Let_def split: prod.splits sum.splits) (metis fst_conv)
qed

lemma safe_vector_fields:
  assumes "vector_ok isMsrp (mm_attrType m) (mm_attrLen m) vec" and "mrpLengthError isMsrp m = None"
  shows "safe (vector_fields isMsrp m p (i, vec))"
proof -
  have "safe (if isMsrp \<and> mm_attrType m = 3 then andthen (fourPackedEvent (mv_four vec) k) f else g)"
    if "k < mv_numValues vec" "\<And>x. safe (f x)" "safe g" for k f g
    using that assms(1) by (auto simp: vector_ok_def intro!: keeps_andthen intro: safe_four [of k "mv_numValues vec"])
  note four = this
  have ev: "safe (event_name isMsrp (mm_attrType m) vec k)" if "k < mv_numValues vec" for k
    unfolding event_name_def
    by (intro keeps_andthen four that keeps_ret safe_three [OF that])
      (use assms(1) in \<open>simp add: vector_ok_def\<close>)
  have ga: "safe (gather (map (event_name isMsrp (mm_attrType m) vec) [0..<mv_numValues vec]))"
    by (rule keeps_gather) (auto intro: ev)
  have vid: "safe (if isMsrp then andthen (on_span (mv_first vec) (parseMsrpFirstValue (mm_attrType m))) f
      else andthen (mvrpFirstVid (mv_first vec)) g)" if "\<And>x. safe (f x)" "\<And>x. safe (g x)" for f g
    using that assms by (auto simp: vector_ok_def mrpLengthError_def split: if_splits
        intro!: keeps_andthen safe_on_span intro: safe_vid)
  show ?thesis
    unfolding vector_fields_def split_conv Let_def seqs.simps
    by (intro keeps_andthen ga vid keeps_ret safe_if) (simp_all add: disp_add_def)
qed

lemma safe_inspector:
  assumes "usable isMsrp msgs"
  shows "safe (mrpInspectorFields msgs isMsrp version)"
proof -
  have "safe (message_fields isMsrp (i, m))" if m: "m \<in> set msgs" for i m
  proof -
    have "safe (vector_fields isMsrp m p (j, vec))" if "vec \<in> set (mm_vectors m)" for p j vec
      using assms m that by (intro safe_vector_fields) (auto simp: usable_def dest: message_okD)
    then have "safe (seqs (map (vector_fields isMsrp m p) (enumerate 0 (mm_vectors m))))" for p
      by (intro keeps_seqs) (auto simp: in_set_enumerate_eq)
    then show ?thesis
      unfolding message_fields_def split_conv Let_def seqs.simps
      by (intro keeps_andthen keeps_ret) (simp_all add: disp_add_def)
  qed
  then have "safe (seqs (map (message_fields isMsrp) (enumerate 0 msgs)))"
    by (intro keeps_seqs) (auto simp: in_set_enumerate_eq)
  then show ?thesis
    unfolding mrpInspectorFields_def seqs.simps
    by (intro keeps_andthen keeps_ret) (simp_all add: disp_add_def)
qed

text \<open>The checks either reject the PDU or leave it usable.\<close>

lemma checkLengths_yields: "checkLengths isMsrp msgs s = (Inr x, s') \<Longrightarrow>
    (\<forall>m \<in> set msgs. mrpLengthError isMsrp m = None) \<and> s' = s"
  by (induction msgs) (auto simp: checkLengths_def andthen_def ret_def throw_def split: option.splits sum.splits)

lemma checkLengths_safe: "keeps I no_oob (checkLengths isMsrp msgs)"
  unfolding checkLengths_def
  by (intro keeps_seqs) (auto simp: mrpLengthError_def split: option.splits if_splits intro!: keeps_throw)

text \<open>
  A packed byte of 216 or more encodes a first event of 6, which the state pass reads as
  a LeaveAll although the event range ends at 5.
\<close>

lemma three_packed_first: "threePackedEvent (b # bs) 0 s = (Inr (int (unat b div 36)), s)"
  by (simp add: threePackedEvent_def index_def andthen_def ret_def)

section \<open>Packing and unpacking\<close>

text \<open>The encoders of 802.1Q: three events in a byte, base 6; four in a byte, two bits each.\<close>

fun packThree :: "nat list \<Rightarrow> byte list" where
  "packThree (a # b # c # es) = of_nat (36 * a + 6 * b + c) # packThree es"
| "packThree [a, b] = [of_nat (36 * a + 6 * b)]"
| "packThree [a] = [of_nat (36 * a)]"
| "packThree [] = []"

lemma three_byte:
  assumes "a < 6" and "b < 6" and "c < 6"
  shows "unat (of_nat (36 * a + 6 * b + c) :: byte) = 36 * a + 6 * b + c"
proof -
  have "36 * a + 6 * b + c < 2 ^ 8" using assms by simp
  then show ?thesis unfolding unat_of_nat by simp
qed

lemma base_six:
  assumes "a < 6" and "b < 6" and "c < (6 :: nat)"
  shows "(36 * a + 6 * b + c) div 36 = a" "(36 * a + 6 * b + c) div 6 mod 6 = b" "(36 * a + 6 * b + c) mod 6 = c"
proof -
  show "(36 * a + 6 * b + c) div 36 = a" using assms by (intro div_nat_eqI) simp_all
  have "(36 * a + 6 * b + c) div 6 = 6 * a + b" using assms by (intro div_nat_eqI) simp_all
  then show "(36 * a + 6 * b + c) div 6 mod 6 = b" using assms by simp
  have "36 * a + 6 * b + c = 6 * (6 * a + b) + c" by simp
  then show "(36 * a + 6 * b + c) mod 6 = c" using assms by (metis mod_less mod_mult_self4)
qed

lemma three_at: "threePackedEvent (b # bs) (k + 3) s = threePackedEvent bs k s"
proof -
  have "(k + 3) div 3 = Suc (k div 3)" "(k + 3) mod 3 = k mod 3" by simp_all
  then show ?thesis by (simp only: threePackedEvent_def index_def length_Cons Suc_less_eq nth_Cons_Suc)
qed

lemma three_in_byte:
  assumes "a < 6" and "b < 6" and "c < 6"
  shows "threePackedEvent (of_nat (36 * a + 6 * b + c) # bs) 0 s = (Inr (int a), s)"
    "threePackedEvent (of_nat (36 * a + 6 * b + c) # bs) 1 s = (Inr (int b), s)"
    "threePackedEvent (of_nat (36 * a + 6 * b + c) # bs) 2 s = (Inr (int c), s)"
proof -
  define w :: byte where "w = of_nat (36 * a + 6 * b + c)"
  have u: "unat w = 36 * a + 6 * b + c" unfolding w_def by (rule three_byte [OF assms])
  show "threePackedEvent (of_nat (36 * a + 6 * b + c) # bs) 0 s = (Inr (int a), s)"
    "threePackedEvent (of_nat (36 * a + 6 * b + c) # bs) 1 s = (Inr (int b), s)"
    "threePackedEvent (of_nat (36 * a + 6 * b + c) # bs) 2 s = (Inr (int c), s)"
    unfolding w_def [symmetric] threePackedEvent_def index_def andthen_def ret_def
    using base_six [OF assms] by (simp_all add: u)
qed

lemma unpack_three:
  "\<forall>e \<in> set es. e < 6 \<Longrightarrow> k < length es \<Longrightarrow> threePackedEvent (packThree es) k s = (Inr (int (es ! k)), s)"
proof (induction es arbitrary: k rule: packThree.induct)
  case (1 a b c es)
  have lt: "a < 6" "b < 6" "c < 6" using 1 by auto
  show ?case
  proof (cases "k < 3")
    case True
    then have "k \<in> {0, 1, 2}" by auto
    then show ?thesis using three_in_byte [OF lt] by auto
  next
    case False
    then obtain j where "k = j + 3" by (metis add.commute le_Suc_ex not_less)
    then show ?thesis using 1 by (simp add: three_at nth_Cons' del: add_Suc_right)
  qed
next
  case (2 a b)
  then have lt: "a < 6" "b < 6" and "k \<in> {0, 1}" by auto
  then show ?case using three_in_byte [OF lt, of 0] by auto
next
  case (3 a)
  then show ?case using three_in_byte(1) [of a 0 0] by simp
qed simp

end
