(* ===== verification/Decode_Gptp.thy ===== *)
theory Decode_Gptp
  imports Decode_Fields
begin

text \<open>
  \<open>backend/src/decode/decode.cpp\<close>, third part: the IEEE 802.1AS frame, bounded by its
  own \<open>messageLength\<close>, its TLVs, and the event material derived from it.
\<close>

section \<open>Header and timestamps\<close>

record gptp_header =
  gh_majorSdoId :: u8
  gh_msgType :: u8
  gh_version :: u8
  gh_domain :: u8
  gh_msgLen :: u16
  gh_flags :: u16
  gh_srcPort :: u16
  gh_seq :: u16
  gh_correction :: u64
  gh_srcClock :: u64
  gh_control :: u8
  gh_logInterval :: u8

definition pad9 :: "string \<Rightarrow> string" where
  "pad9 s = replicate (9 - length s) (CHR ''0'') @ s"

text \<open>The inspector shows the seconds and nanoseconds; only the context gets the \<open>_ns\<close> variable.\<close>

definition gptpTimestamp :: "string \<Rightarrow> unit fparser" where
  "gptpTimestamp pfx =
     andthen (r_u48 ''ptp timestamp seconds'') (\<lambda>sec.
     andthen (r_u32 ''ptp timestamp ns'') (\<lambda>ns. seqs
       [put (s_numd (pfx @ ''_seconds'') sec (cat [u_str sec, ''.'', pad9 (u_str ns), '' s''])),
        put (\<lambda>s. s\<lparr>sn_vars := map_option (setValue (pfx @ ''_ns'') (ucast ns)) (sn_vars s)\<rparr>)]))"

definition parseGptpHeader :: "gptp_header fparser" where
  "parseGptpHeader =
     andthen (r_u8 ''gPTP byte 0'') (\<lambda>b0.
     andthen (r_u8 ''gPTP version'') (\<lambda>b1. let ver = b1 AND 0xf in
       if ver \<noteq> 2 then throw (ShortFrame (cat [''gPTP: unsupported PTP version '', u_str ver]))
       else
         andthen (r_u16 ''gPTP messageLength'') (\<lambda>len.
         andthen (r_u8 ''gPTP domainNumber'') (\<lambda>domain.
         andthen (r_skip 1 ''gPTP minorSdoId'') (\<lambda>_.
         andthen (r_u16 ''gPTP flags'') (\<lambda>flags.
         andthen (r_u64 ''gPTP correctionField'') (\<lambda>corr.
         andthen (r_skip 4 ''gPTP messageTypeSpecific'') (\<lambda>_.
         andthen (r_u64 ''gPTP sourcePortIdentity.clockIdentity'') (\<lambda>clk.
         andthen (r_u16 ''gPTP sourcePortIdentity.portNumber'') (\<lambda>prt.
         andthen (r_u16 ''gPTP sequenceId'') (\<lambda>seq.
         andthen (r_u8 ''gPTP control'') (\<lambda>ctl.
         andthen (r_u8 ''gPTP logMessageInterval'') (\<lambda>logi.
           ret \<lparr>gh_majorSdoId = drop_bit 4 b0 AND 0xf, gh_msgType = b0 AND 0xf, gh_version = ver,
                gh_domain = domain, gh_msgLen = len, gh_flags = flags, gh_srcPort = prt, gh_seq = seq,
                gh_correction = corr, gh_srcClock = clk, gh_control = ctl, gh_logInterval = logi\<rparr>)))))))))))))"

definition gh_twoStep :: "gptp_header \<Rightarrow> bool" where
  "gh_twoStep h \<longleftrightarrow> drop_bit 9 (gh_flags h) AND 1 \<noteq> 0"

definition gptpHeaderFields :: "gptp_header \<Rightarrow> unit fparser" where
  "gptpHeaderFields h = seqs
    [put (s_numd ''message_type'' (ucast (gh_msgType h)) (gptpMsgName (gh_msgType h))),
     put (s_num ''transport_specific'' (ucast (gh_majorSdoId h))),
     put (s_num ''version'' (ucast (gh_version h))),
     put (s_num ''message_length'' (ucast (gh_msgLen h))),
     put (s_num ''domain_number'' (ucast (gh_domain h))),
     put (s_hexf ''flags'' (ucast (gh_flags h)) 4),
     put (s_num ''two_step'' (if gh_twoStep h then 1 else 0)),
     put (s_numd ''correction_field'' (gh_correction h)
       (cat [fmt_fixed 3 (real_of_int (sint (gh_correction h)) / 65536), '' ns''])),
     put (s_id ''source_clock_id'' (gh_srcClock h)),
     put (s_num ''source_port_number'' (ucast (gh_srcPort h))),
     put (s_num ''sequence_id'' (ucast (gh_seq h))),
     put (s_num ''control'' (ucast (gh_control h))),
     put (s_numd ''log_message_interval'' (ucast (gh_logInterval h)) (gptpLogIntervalStr (gh_logInterval h)))]"

section \<open>TLVs\<close>

text \<open>The 802.1AS information TLV of a Follow_Up.\<close>

definition followUpTlv :: "u16 \<Rightarrow> u16 \<Rightarrow> unit fparser" where
  "followUpTlv tlvType tlvLen =
     (if tlvType = 0x0003 \<and> tlvLen \<ge> 28 then
        andthen (r_u48 ''org id + subtype'') (\<lambda>orgSub.
          if orgSub = 0x0080C2000001 then seqs
            [put (s_num ''has_as_tlv'' 1),
             andthen (r_u32 ''cumulativeScaledRateOffset'') (\<lambda>csro.
               put (s_numd ''cumulative_scaled_rate_offset'' (ucast csro)
                 (cat [fmt_fixed 3 (real_of_int (sint csro) / 2199023255552 * 10 ^ 6), '' ppm'']))),
             f_num ''gm_time_base_indicator'' (r_u16 ''gmTimeBaseIndicator'')]
          else ret ())
      else ret ())"

text \<open>A TLV list whose entries must fit the body.\<close>

definition tlv_round :: "string \<Rightarrow> (u16 \<Rightarrow> u16 \<Rightarrow> unit fparser) \<Rightarrow> unit \<Rightarrow> (unit + unit) fparser" where
  "tlv_round overrun tlv u =
     andthen r_remaining (\<lambda>n.
       if n < 4 then ret (Inl ())
       else andthen (r_u16 ''tlv type'') (\<lambda>tlvType.
            andthen (r_u16 ''tlv length'') (\<lambda>tlvLen.
            andthen r_remaining (\<lambda>n'.
              if unat tlvLen > n' then throw (ShortFrame overrun)
              else andthen (r_bytes (unat tlvLen) ''tlv value'') (\<lambda>d.
                   andthen (with_reader d (tlv tlvType tlvLen)) (\<lambda>_. ret (Inr ())))))))"

definition followUpBody :: "unit fparser" where
  "followUpBody = seqs
    [gptpTimestamp ''origin'',
     loop (tlv_round ''gPTP: Follow_Up TLV overruns messageLength'' followUpTlv) ()]"

definition pathTraceTlv :: "u16 \<Rightarrow> u16 \<Rightarrow> unit fparser" where
  "pathTraceTlv tlvType tlvLen =
     (if tlvType = 0x0008 then
        let n = unat tlvLen div 8
        in if n > 32 then throw (ShortFrame ''gPTP: implausible path trace length'')
           else seqs
             [put (s_num ''path_trace_count'' (of_nat n)),
              andthen (gather (replicate n (r_u64 ''path trace clockIdentity''))) (\<lambda>ids.
                put (s_str ''path_trace''
                  (foldl (\<lambda>acc i. if acc = [] then idStr i else acc @ '', '' @ idStr i) [] ids)))]
      else ret ())"

definition announceBody :: "unit fparser" where
  "announceBody = seqs
    [r_skip 10 ''announce originTimestamp'',
     f_numd ''current_utc_offset'' (r_u16 ''currentUtcOffset'') (\<lambda>utc. int_str (sint utc)),
     r_skip 1 ''reserved'',
     f_num ''gm_priority1'' (r_u8 ''grandmasterPriority1''),
     f_numd ''gm_clock_class'' (r_u8 ''clockClass'') gptpClockClassName,
     f_hex ''gm_clock_accuracy'' (r_u8 ''clockAccuracy'') 2,
     f_num ''gm_clock_variance'' (r_u16 ''offsetScaledLogVariance''),
     f_num ''gm_priority2'' (r_u8 ''grandmasterPriority2''),
     f_id ''gm_identity'' (r_u64 ''grandmasterIdentity''),
     f_num ''steps_removed'' (r_u16 ''stepsRemoved''),
     f_numd ''time_source'' (r_u8 ''timeSource'') gptpTimeSourceName,
     loop (tlv_round ''gPTP: Announce TLV overruns messageLength'' pathTraceTlv) ()]"

text \<open>The organization TLVs of a Signaling message: \<open>switch (orgSub & 0xffffff)\<close>.\<close>

definition f_interval :: "string \<Rightarrow> string \<Rightarrow> unit fparser" where
  "f_interval n what = f_numd n (r_u8 what) gptpLogIntervalStr"

text \<open>The three intervals are read before any of them is written.\<close>

definition intervalRequest :: "unit fparser" where
  "intervalRequest =
     andthen (put (s_num ''signaling_interval_request'' 1)) (\<lambda>_.
     andthen (r_u8 ''logLinkDelayInterval'') (\<lambda>ld.
     andthen (r_u8 ''logTimeSyncInterval'') (\<lambda>tsi.
     andthen (r_u8 ''logAnnounceInterval'') (\<lambda>ai. seqs
       [put (s_numd ''req_link_delay_interval'' (ucast ld) (gptpLogIntervalStr ld)),
        put (s_numd ''req_time_sync_interval'' (ucast tsi) (gptpLogIntervalStr tsi)),
        put (s_numd ''req_announce_interval'' (ucast ai) (gptpLogIntervalStr ai)),
        f_hex ''interval_request_flags'' (r_u8 ''flags'') 2]))))"

definition signalingTlv :: "u16 \<Rightarrow> u16 \<Rightarrow> unit fparser" where
  "signalingTlv tlvType tlvLen =
     (if tlvType \<noteq> 0x0003 \<or> tlvLen < 6 then ret ()
      else andthen (r_u48 ''org id + subtype'') (\<lambda>orgSub.
        if drop_bit 24 orgSub \<noteq> 0x0080C2 then ret ()
        else let sub = orgSub AND 0xffffff
          in andthen r_remaining (\<lambda>n.
               if sub = 2 then (if n \<ge> 4 then intervalRequest else ret ())
               else if sub = 4 then
                 (if n \<ge> 2 then seqs
                    [put (s_num ''signaling_gptp_capable'' 1),
                     f_interval ''gptp_capable_interval'' ''logGptpCapableMessageInterval'',
                     f_hex ''gptp_capable_flags'' (r_u8 ''flags'') 2]
                  else ret ())
               else if sub = 5 then
                 (if n \<ge> 1 then seqs
                    [put (s_num ''signaling_gptp_capable_request'' 1),
                     f_interval ''req_gptp_capable_interval'' ''logGptpCapableMessageInterval'']
                  else ret ())
               else ret ())))"

text \<open>The best-effort walk: an overrunning TLV ends it without an error.\<close>

definition signaling_round :: "nat \<Rightarrow> (nat + nat) fparser" where
  "signaling_round tlvCount =
     andthen r_remaining (\<lambda>n.
       if n < 4 then ret (Inl tlvCount)
       else andthen (r_u16 ''tlv type'') (\<lambda>tlvType.
            andthen (r_u16 ''tlv length'') (\<lambda>tlvLen.
            andthen r_remaining (\<lambda>n'.
              if unat tlvLen > n' then ret (Inl tlvCount)
              else andthen (r_bytes (unat tlvLen) ''tlv value'') (\<lambda>d.
                   andthen (with_reader d (signalingTlv tlvType tlvLen)) (\<lambda>_. ret (Inr (tlvCount + 1))))))))"

definition signalingBody :: "unit fparser" where
  "signalingBody = seqs
    [andthen r_remaining (\<lambda>n. if n \<ge> 10 then seqs
        [put (s_num ''have_target'' 1),
         f_id ''target_clock_id'' (r_u64 ''targetPortIdentity''),
         f_num ''target_port_number'' (r_u16 ''target port'')]
       else ret ()),
     andthen (loop signaling_round 0) (\<lambda>n. put (s_num ''signaling_tlv_count'' (of_nat n)))]"

definition requestingPort :: "unit fparser" where
  "requestingPort = seqs
    [f_id ''requesting_clock_id'' (r_u64 ''requestingPortIdentity''),
     f_num ''requesting_port_number'' (r_u16 ''requesting port'')]"

definition gptpBody :: "u8 \<Rightarrow> unit fparser" where
  "gptpBody msgType =
     (if msgType = 0x0 then andthen r_remaining (\<lambda>n. if n \<ge> 10 then gptpTimestamp ''origin'' else ret ())
      else if msgType = 0x8 then followUpBody
      else if msgType = 0x2 then ret ()
      else if msgType = 0x3 then seqs [gptpTimestamp ''req_receipt'', requestingPort]
      else if msgType = 0xA then seqs [gptpTimestamp ''resp_origin'', requestingPort]
      else if msgType = 0xB then announceBody
      else if msgType = 0xC then signalingBody
      else ret ())"

text \<open>\<open>parseGptp\<close> up to the event material.\<close>

definition parseGptp :: "gptp_header fparser" where
  "parseGptp =
     andthen parseGptpHeader (\<lambda>h.
       if gh_msgLen h < 34
       then throw (ShortFrame (cat [''gPTP: messageLength '', u_str (gh_msgLen h), '' shorter than the common header'']))
       else andthen (r_bytes (unat (gh_msgLen h) - 34) ''gPTP body'') (\<lambda>d.
            andthen (gptpHeaderFields h) (\<lambda>_.
            andthen (with_reader d (gptpBody (gh_msgType h))) (\<lambda>_. ret h))))"

section \<open>Event material\<close>

definition gptpSummary :: "gptp_header \<Rightarrow> var_ctx \<Rightarrow> string" where
  "gptpSummary h c =
     (let dm = cat ['' dom '', u_str (gh_domain h)];
          portStr = cat [idStr (gh_srcClock h), '':'', u_str (gh_srcPort h)];
          msg = gh_msgType h; seq = u_str (gh_seq h)
      in if msg = 0x0 then
           cat [''SYNC seq '', seq, dm, '' from '', portStr, (if gh_twoStep h then '' (two-step)'' else '' (one-step)'')]
         else if msg = 0x8 then cat [''FOLLOW_UP seq '', seq, dm, '' from '', portStr]
         else if msg = 0xB then
           cat [''ANNOUNCE'', dm, '' GM '', idStr (ctx_at c ''gm_identity''), '' prio1 '',
                u_str (ctx_at c ''gm_priority1''), '' class '', u_str (ctx_at c ''gm_clock_class''), '' steps '',
                u_str (ctx_at c ''steps_removed'')]
         else if msg = 0x2 then cat [''PDELAY_REQ seq '', seq, '' from '', portStr]
         else if msg = 0x3 \<or> msg = 0xA then
           cat [gptpMsgName msg, '' seq '', seq, '' to '', idStr (ctx_at c ''requesting_clock_id''), '':'',
                u_str (ctx_at c ''requesting_port_number'')]
         else if msg = 0xC then
           cat [''SIGNALING '',
                (if ctx_at c ''signaling_gptp_capable'' \<noteq> 0 then ''gPTP-capable''
                 else if ctx_at c ''signaling_interval_request'' \<noteq> 0 then ''message interval request''
                 else if ctx_at c ''signaling_gptp_capable_request'' \<noteq> 0 then ''gPTP-capable interval request''
                 else cat [u_str (ctx_at c ''signaling_tlv_count''), '' TLV(s)'']),
                dm, '' from '', portStr,
                (if ctx_at c ''have_target'' \<noteq> 0 then cat ['' to '', idStr (ctx_at c ''target_clock_id'')] else [])]
         else cat [gptpMsgName msg, '' seq '', seq, dm, '' from '', portStr])"

definition gptpEvent :: "gptp_header \<Rightarrow> decoded \<Rightarrow> decoded" where
  "gptpEvent h out =
     (let c = last (dp_logicCtxs out)
      in out\<lparr>dp_type := gptpMsgName (gh_msgType h), dp_entity := idStr (gh_srcClock h),
             dp_summary := gptpSummary h c,
             dp_eventFields := dp_eventFields out @
               [(''sequence_id'', u_str (gh_seq h)), (''domain'', u_str (gh_domain h))] @
               (if gh_msgType h = 0xB then
                  [(''gm_identity'', idStr (ctx_at c ''gm_identity'')),
                   (''priority1'', u_str (ctx_at c ''gm_priority1'')),
                   (''steps_removed'', u_str (ctx_at c ''steps_removed''))] else [])\<rparr>)"

section \<open>The parsers stay in their span\<close>

lemma in_span_timestamp [intro, simp]: "in_span (gptpTimestamp pfx)"
  unfolding gptpTimestamp_def seqs.simps
  by (intro keeps_andthen in_span_u48 in_span_u32 in_span_put keeps_ret)

lemma in_span_gptp_header [intro, simp]: "in_span parseGptpHeader"
  unfolding parseGptpHeader_def Let_def
  by (intro keeps_andthen in_span_optional keeps_throw no_oob_ShortFrame in_span_u8 in_span_u16 in_span_u64
      in_span_skip keeps_ret)

lemma in_span_header_fields [intro, simp]: "in_span (gptpHeaderFields h)"
  unfolding gptpHeaderFields_def seqs.simps by (intro keeps_andthen in_span_put keeps_ret)

lemma in_span_followUpTlv [intro, simp]: "in_span (followUpTlv t l)"
  unfolding followUpTlv_def seqs.simps
  by (intro in_span_optional keeps_andthen in_span_u48 in_span_u32 in_span_put in_span_field in_span_u16 keeps_ret)

lemma in_span_pathTrace [intro, simp]: "in_span (pathTraceTlv t l)"
  unfolding pathTraceTlv_def seqs.simps Let_def
  by (intro in_span_optional keeps_andthen in_span_put keeps_throw no_oob_ShortFrame keeps_ret keeps_gather) auto

lemma in_span_tlvs [intro]:
  assumes "\<And>t l. in_span (tlv t l)"
  shows "in_span (loop (tlv_round overrun tlv) ())"
proof (rule in_span_loop)
  show "in_span (tlv_round overrun tlv u)" for u
    unfolding tlv_round_def
    by (intro keeps_andthen in_span_optional in_span_remaining in_span_u16 in_span_bytes in_span_with_reader assms
        keeps_throw no_oob_ShortFrame keeps_ret)
  show "progress (tlv_round overrun tlv)"
    unfolding tlv_round_def
    by (intro progressI progresses_after progresses_if progresses_stop progresses_read [OF adv_reader(2)]
        adv_with_reader adv_intros) simp_all
qed

lemma in_span_interval [intro, simp]: "in_span (f_interval n what)"
  unfolding f_interval_def by (intro in_span_field in_span_u8)

lemma in_span_intervalRequest [intro, simp]: "in_span intervalRequest"
  unfolding intervalRequest_def seqs.simps
  by (intro keeps_andthen in_span_put in_span_u8 in_span_field keeps_ret)

lemma in_span_signalingTlv [intro, simp]: "in_span (signalingTlv t l)"
  unfolding signalingTlv_def seqs.simps Let_def
  by (intro in_span_optional keeps_andthen in_span_u48 in_span_remaining in_span_put in_span_interval
      in_span_intervalRequest in_span_field in_span_u8 keeps_ret)

lemma in_span_signaling [intro, simp]: "in_span signalingBody"
proof -
  have "in_span (loop signaling_round 0)"
  proof (rule in_span_loop)
    show "in_span (signaling_round c)" for c
      unfolding signaling_round_def
      by (intro keeps_andthen in_span_optional in_span_remaining in_span_u16 in_span_bytes in_span_with_reader
          in_span_signalingTlv keeps_ret)
    show "progress signaling_round"
      unfolding signaling_round_def
      by (intro progressI progresses_after progresses_if progresses_stop progresses_read [OF adv_reader(2)]
          adv_with_reader adv_intros) simp_all
  qed
  then show ?thesis
    unfolding signalingBody_def seqs.simps
    by (intro keeps_andthen in_span_optional in_span_remaining in_span_put in_span_field in_span_u64 in_span_u16
        keeps_ret)
qed

lemma in_span_announce [intro, simp]: "in_span announceBody"
  unfolding announceBody_def seqs.simps
  by (intro keeps_andthen in_span_skip in_span_field in_span_u8 in_span_u16 in_span_u64 in_span_tlvs
      in_span_pathTrace keeps_ret)

lemma in_span_gptp_body [intro, simp]: "in_span (gptpBody t)"
  unfolding gptpBody_def followUpBody_def requestingPort_def seqs.simps
  by (intro in_span_optional keeps_andthen in_span_remaining in_span_timestamp in_span_field in_span_u64 in_span_u16
      in_span_tlvs in_span_followUpTlv in_span_announce in_span_signaling keeps_ret)

lemma in_span_gptp [intro, simp]: "in_span parseGptp"
  unfolding parseGptp_def
  by (intro keeps_andthen in_span_optional keeps_throw no_oob_ShortFrame in_span_gptp_header in_span_bytes
      in_span_header_fields in_span_with_reader in_span_gptp_body keeps_ret)

end
