(* ===== verification/Decode.thy ===== *)
theory Decode
  imports Decode_Mrp Decode_Gptp
begin

text \<open>
  \<open>backend/src/decode/decode.cpp\<close>, the front door: \<open>decodeInner\<close> walks a frame for the
  analysis (a decoded packet) or for the inspector (a list of layers), \<open>decodePacket\<close> and
  \<open>inspectPacket\<close> catch what it throws.  Undefined behaviour of the C++ code would be the
  result \<open>None\<close> of the two entry points; the lemmas show it does not happen.
\<close>

section \<open>State of a walk\<close>

record layer =
  ly_service :: string
  ly_fields :: "dfield list"

record dstate =
  ds_out :: "decoded option"
  ds_layers :: "layer list option"

type_synonym 'a dparser = "(dstate, 'a) parser"

text \<open>\<open>if (out) \<dots>\<close> and \<open>if (layers) \<dots>\<close>.\<close>

definition on_out :: "(decoded \<Rightarrow> decoded) \<Rightarrow> unit dparser" where
  "on_out f = modify (apsnd (\<lambda>st. st\<lparr>ds_out := map_option f (ds_out st)\<rparr>))"

definition on_layers :: "(layer list \<Rightarrow> layer list) \<Rightarrow> unit dparser" where
  "on_layers f = modify (apsnd (\<lambda>st. st\<lparr>ds_layers := map_option f (ds_layers st)\<rparr>))"

definition push_layer :: "string \<Rightarrow> unit dparser" where
  "push_layer sv = on_layers (\<lambda>ls. ls @ [\<lparr>ly_service = sv, ly_fields = []\<rparr>])"

definition push_ctx :: "string \<Rightarrow> unit dparser" where
  "push_ctx sv = on_out (\<lambda>dp. dp\<lparr>dp_logicCtxs := dp_logicCtxs dp @ [VarLayerContext sv]\<rparr>)"

definition map_last :: "('a \<Rightarrow> 'a) \<Rightarrow> 'a list \<Rightarrow> 'a list" where
  "map_last f xs = (if xs = [] then [] else butlast xs @ [f (last xs)])"

definition add_fields :: "dfield list \<Rightarrow> unit dparser" where
  "add_fields fs = on_layers (map_last (\<lambda>l. l\<lparr>ly_fields := ly_fields l @ fs\<rparr>))"

text \<open>The last context and the last layer are what a \<open>Sink\<close> points to.\<close>

definition sink_of :: "dstate \<Rightarrow> field_sink" where
  "sink_of st = \<lparr>sn_vars = map_option (\<lambda>dp. last (dp_logicCtxs dp)) (ds_out st),
     sn_disp = map_option (\<lambda>ls. ly_fields (last ls)) (ds_layers st)\<rparr>"

definition store_sink :: "field_sink \<Rightarrow> dstate \<Rightarrow> dstate" where
  "store_sink s st = st\<lparr>
     ds_out := map_option (\<lambda>dp. case sn_vars s of Some c \<Rightarrow>
       dp\<lparr>dp_logicCtxs := map_last (\<lambda>_. c) (dp_logicCtxs dp)\<rparr> | None \<Rightarrow> dp) (ds_out st),
     ds_layers := map_option (\<lambda>ls. case sn_disp s of Some d \<Rightarrow>
       map_last (\<lambda>l. l\<lparr>ly_fields := d\<rparr>) ls | None \<Rightarrow> ls) (ds_layers st)\<rparr>"

definition with_sink :: "'a fparser \<Rightarrow> 'a dparser" where
  "with_sink p = (\<lambda>(r, st). case p (r, sink_of st) of (res, (r', s')) \<Rightarrow> (res, (r', store_sink s' st)))"

text \<open>A step on the packet or on the fields of the last layer that may throw.\<close>

definition lift_out :: "(exn, decoded, unit) thrower \<Rightarrow> unit dparser" where
  "lift_out m = (\<lambda>(r, st). case ds_out st of None \<Rightarrow> (Inr (), (r, st))
     | Some dp \<Rightarrow> (case m dp of (res, dp') \<Rightarrow> (res, (r, st\<lparr>ds_out := Some dp'\<rparr>))))"

definition lift_layer :: "(exn, dfield list, unit) thrower \<Rightarrow> unit dparser" where
  "lift_layer m = (\<lambda>(r, st). case ds_layers st of None \<Rightarrow> (Inr (), (r, st))
     | Some ls \<Rightarrow> (case m (ly_fields (last ls)) of (res, fs) \<Rightarrow>
         (res, (r, st\<lparr>ds_layers := Some (map_last (\<lambda>l. l\<lparr>ly_fields := fs\<rparr>) ls)\<rparr>))))"

section \<open>Branches of the walk\<close>

definition setMacs :: "eth_header \<Rightarrow> var_ctx \<Rightarrow> var_ctx" where
  "setMacs eth c = setValue ''dst_mac'' (eh_dst eth) (setValue ''src_mac'' (eh_src eth) c)"

definition set_proto :: "proto \<Rightarrow> unit dparser" where
  "set_proto p = on_out (\<lambda>dp. dp\<lparr>dp_interesting := True, dp_proto := p\<rparr>)"

definition mrpEvent_out :: "eth_header \<Rightarrow> u8 \<Rightarrow> mrp_message list \<Rightarrow> bool \<Rightarrow> (exn, decoded, unit) thrower" where
  "mrpEvent_out eth version msgs isMsrp =
     andthen (emitMrpDecls msgs isMsrp) (\<lambda>n.
       modify (\<lambda>dp. dp\<lparr>dp_eventFields := dp_eventFields dp @
           [(''protocol_version'', u_str version), (''declarations'', nat_str n)],
         dp_logicCtxs := map (setMacs eth) (dp_logicCtxs dp)\<rparr>))"

definition decodeMrp :: "eth_header \<Rightarrow> bool \<Rightarrow> unit dparser" where
  "decodeMrp eth isMsrp =
     andthen (set_proto (if isMsrp then MSRP else MVRP)) (\<lambda>_.
     andthen (parseMrpPdu isMsrp) (\<lambda>r.
     andthen (checkLengths isMsrp (snd r)) (\<lambda>_.
     andthen (lift_out (mrpEvent_out eth (fst r) (snd r) isMsrp)) (\<lambda>_.
     andthen (push_layer (if isMsrp then ''mrp_msrp'' else ''mrp_mvrp'')) (\<lambda>_.
       lift_layer (mrpInspectorFields (snd r) isMsrp (fst r)))))))"

definition decodeGptp :: "eth_header \<Rightarrow> unit dparser" where
  "decodeGptp eth =
     andthen (set_proto GPTP) (\<lambda>_.
     andthen (push_ctx ''8021as_gptp'') (\<lambda>_.
     andthen (push_layer ''8021as_gptp'') (\<lambda>_.
     andthen (with_sink parseGptp) (\<lambda>h.
       on_out (\<lambda>dp. let dp' = gptpEvent h dp
         in dp'\<lparr>dp_logicCtxs := map_last (setMacs eth) (dp_logicCtxs dp')\<rparr>)))))"

definition protoOf :: "u8 \<Rightarrow> proto" where
  "protoOf subtype = (if subtype = kSubtypeAdp then ADP else if subtype = kSubtypeAecp then AECP
     else if subtype = kSubtypeAcmp then ACMP else if subtype = kSubtypeMaap then MAAP else ETH)"

definition avtpService :: "proto \<Rightarrow> string" where
  "avtpService p = (if p = ADP then ''atdecc_adp'' else if p = AECP then ''atdecc_aecp''
     else if p = ACMP then ''atdecc_acmp'' else ''1722_maap'')"

definition avtpStatusName :: "proto \<Rightarrow> string" where
  "avtpStatusName p = (if p = ADP then ''valid_time'' else if p = MAAP then ''maap_version'' else ''status'')"

definition avtpStatusDisp :: "proto \<Rightarrow> avtp_header \<Rightarrow> string" where
  "avtpStatusDisp p h =
     (if p = ADP then cat [u_str (validTime2 h), '' s'']
      else if p = AECP then cat [u_str (ah_status5 h), '' ('', aemStatusName (ah_status5 h), '')'']
      else if p = ACMP then cat [u_str (ah_status5 h), '' ('', acmpStatusName (ah_status5 h), '')'']
      else u_str (ah_status5 h))"

text \<open>The event material of the four AVTP protocols.\<close>

definition adpEvent :: "avtp_header \<Rightarrow> var_ctx \<Rightarrow> decoded \<Rightarrow> decoded" where
  "adpEvent h c dp =
     (let eid = ctx_at c ''entity_id''; ty = adpMsgName (ah_msgType h)
      in dp\<lparr>dp_type := ty, dp_entity := idStr eid,
           dp_summary :=
             (if ah_msgType h = 2 \<and> eid = 0 then ''ENTITY_DISCOVER (all entities)''
              else cat [ty, '' '', idStr eid, (if ah_msgType h = 0 then
                cat ['' valid '', u_str (validTime2 h), ''s idx '', u_str (ctx_at c ''available_index'')] else [])]),
           dp_eventFields := dp_eventFields dp @ [(''message_type'', ty), (''valid_time'', u_str (validTime2 h)),
             (''available_index'', u_str (ctx_at c ''available_index''))]\<rparr>)"

definition aecpEvent :: "avtp_header \<Rightarrow> var_ctx \<Rightarrow> decoded \<Rightarrow> decoded" where
  "aecpEvent h c dp =
     (let cmd = aemCommandName (ucast (ctx_at c ''command_type'')); rsp = (ah_msgType h = 1);
          ent = idStr (ctx_at c ''target_entity_id'');
          ty = (if ah_msgType h > 1 then aecpMsgName (ah_msgType h)
                else cat [cmd, (if rsp then ''_RESPONSE'' else ''_COMMAND'')])
      in dp\<lparr>dp_type := ty, dp_entity := ent,
           dp_summary := cat [ty, '' target '', ent,
             (if rsp then cat ['' ('', aemStatusName (ah_status5 h), '')''] else []),
             (case getBytes c ''entity_name'' of Some nm \<Rightarrow>
                if nm \<noteq> [] then cat ['' name '', [CHR 0x22], nm, [CHR 0x22]] else [] | None \<Rightarrow> [])],
           dp_eventFields := dp_eventFields dp @ [(''message_type'', aecpMsgName (ah_msgType h)), (''command'', cmd),
             (''status'', aemStatusName (ah_status5 h)), (''sequence_id'', u_str (ctx_at c ''sequence_id''))]\<rparr>)"

definition acmpEvent :: "avtp_header \<Rightarrow> var_ctx \<Rightarrow> decoded \<Rightarrow> decoded" where
  "acmpEvent h c dp =
     (let ty = acmpMsgName (ah_msgType h); sid = idStr (ctx_at c ''stream_id'');
          rx = (ah_msgType h \<ge> 6 \<and> ah_msgType h \<le> 11)
      in dp\<lparr>dp_type := ty, dp_stream := sid,
           dp_entity := idStr (if rx then ctx_at c ''listener_entity_id'' else ctx_at c ''talker_entity_id''),
           dp_summary := cat [ty, '' talker '', idStr (ctx_at c ''talker_entity_id''), ''['',
             u_str (ctx_at c ''talker_unique_id''), ''] -> listener '', idStr (ctx_at c ''listener_entity_id''), ''['',
             u_str (ctx_at c ''listener_unique_id''), '']'',
             (if ah_msgType h AND 1 \<noteq> 0 then cat ['' ('', acmpStatusName (ah_status5 h), '')''] else [])],
           dp_eventFields := dp_eventFields dp @ [(''message_type'', ty), (''status'', acmpStatusName (ah_status5 h)),
             (''sequence_id'', u_str (ctx_at c ''sequence_id'')), (''stream_id'', sid)]\<rparr>)"

definition maapEvent :: "avtp_header \<Rightarrow> var_ctx \<Rightarrow> decoded \<Rightarrow> decoded" where
  "maapEvent h c dp =
     (let ty = maapMsgName (ah_msgType h); start = macStr (ctx_at c ''requested_start_address'')
      in dp\<lparr>dp_type := ty, dp_stream := start,
           dp_summary := cat [ty, '' range '', start, '' '', times_sign, u_str (ctx_at c ''requested_count''),
             (if ah_msgType h = 2 then cat ['' conflict '', macStr (ctx_at c ''conflict_start_address''), '' '',
                times_sign, u_str (ctx_at c ''conflict_count'')] else [])],
           dp_eventFields := dp_eventFields dp @ [(''message_type'', ty), (''requested_start'', start),
             (''requested_count'', u_str (ctx_at c ''requested_count''))]\<rparr>)"

definition avtpEvent :: "proto \<Rightarrow> avtp_header \<Rightarrow> decoded \<Rightarrow> decoded" where
  "avtpEvent p h dp =
     (let c = last (dp_logicCtxs dp)
      in if p = ADP then adpEvent h c dp else if p = AECP then aecpEvent h c dp
         else if p = ACMP then acmpEvent h c dp else maapEvent h c dp)"

definition parseAvtpBody :: "proto \<Rightarrow> avtp_header \<Rightarrow> unit fparser" where
  "parseAvtpBody p h = (if p = ADP then parseAdp h else if p = AECP then parseAecp h
     else if p = ACMP then parseAcmp h else parseMaap h)"

definition decodeAvtp :: "eth_header \<Rightarrow> unit dparser" where
  "decodeAvtp eth =
     andthen parseAvtpCtrl (\<lambda>h. let p = protoOf (ah_subtype h)
       in if p = ETH then ret ()
          else
            andthen (set_proto p) (\<lambda>_.
            andthen (push_ctx (avtpService p)) (\<lambda>_.
            andthen (push_layer ''1722_avtp_control'') (\<lambda>_.
            andthen (add_fields (avtpCtrlLayer h (avtpStatusName p) (avtpStatusDisp p h))) (\<lambda>_.
            andthen (push_layer (avtpService p)) (\<lambda>_.
            andthen (with_sink (parseAvtpBody p h)) (\<lambda>_.
              on_out (\<lambda>dp. avtpEvent p h (dp\<lparr>dp_logicCtxs := map_last (setMacs eth) (dp_logicCtxs dp)\<rparr>)))))))))"

definition decodeInner :: "unit dparser" where
  "decodeInner =
     andthen (push_layer ''ethernet_mac_frame'') (\<lambda>_.
     andthen parseEth (\<lambda>eth.
     andthen (add_fields (ethFields eth)) (\<lambda>_.
     andthen (on_out (\<lambda>dp. dp\<lparr>dp_src := macStr (eh_src eth), dp_dst := macStr (eh_dst eth),
                dp_srcMac := eh_src eth, dp_dstMac := eh_dst eth\<rparr>)) (\<lambda>_.
       if eh_etype eth = kEtypeMsrp \<or> eh_etype eth = kEtypeMvrp then decodeMrp eth (eh_etype eth = kEtypeMsrp)
       else if eh_etype eth = kEtypeGptp then decodeGptp eth
       else if eh_etype eth = kEtypeAvtp then decodeAvtp eth
       else andthen r_remaining (\<lambda>n.
              on_layers (\<lambda>ls. ls @ [\<lparr>ly_service = ''payload'',
                ly_fields = [(''length'', cat [nat_str n, '' bytes''])]\<rparr>]))))))"

section \<open>Entry points\<close>

definition decodePacket :: "byte list \<Rightarrow> decoded \<Rightarrow> decoded option" where
  "decodePacket frame out0 =
     (case decodeInner (BeReader frame, \<lparr>ds_out = Some out0, ds_layers = None\<rparr>) of
        (res, (_, st)) \<Rightarrow>
          (case ds_out st of None \<Rightarrow> None
           | Some out \<Rightarrow>
             (case res of
                Inr _ \<Rightarrow> Some (out\<lparr>dp_ok := True\<rparr>)
              | Inl (ShortFrame w) \<Rightarrow>
                  Some (out\<lparr>dp_ok := False, dp_interesting := True, dp_error := w, dp_logicCtxs := []\<rparr>)
              | Inl _ \<Rightarrow> None)))"

definition inspectPacket :: "byte list \<Rightarrow> layer list option" where
  "inspectPacket frame =
     (case decodeInner (BeReader frame, \<lparr>ds_out = None, ds_layers = Some []\<rparr>) of
        (res, (_, st)) \<Rightarrow>
          (case ds_layers st of None \<Rightarrow> None
           | Some ls \<Rightarrow>
             (case res of
                Inr _ \<Rightarrow> Some ls
              | Inl (ShortFrame w) \<Rightarrow> Some (ls @ [\<lparr>ly_service = ''decode_error'', ly_fields = [(''message'', w)]\<rparr>])
              | Inl _ \<Rightarrow> None)))"

section \<open>The walk stays in the frame\<close>

lemma in_span_dmodify: "in_span (modify (apsnd f))"
  by (auto simp: rd_ok_def intro!: keeps_modify split: prod.splits)

lemma in_span_dsteps [intro, simp]: "in_span (on_out f)" "in_span (on_layers g)" "in_span (push_layer s)"
  "in_span (push_ctx s)" "in_span (add_fields fs)" "in_span (set_proto p)"
  by (simp_all add: on_out_def on_layers_def push_layer_def push_ctx_def add_fields_def set_proto_def in_span_dmodify)

lemma in_span_with_sink [intro]:
  assumes "in_span p" shows "in_span (with_sink p)"
  unfolding keeps_def
proof (intro allI impI)
  fix s :: "reader \<times> dstate" assume ok: "rd_ok s"
  obtain r st where s: "s = (r, st)" by force
  obtain res r' s' where p: "p (r, sink_of st) = (res, (r', s'))" by (metis prod.collapse)
  have "rd_ok (r, sink_of st)" using ok s by (simp add: rd_ok_def)
  with assms p have "rd_ok (r', s') \<and> (\<forall>e. res = Inl e \<longrightarrow> no_oob e)"
    unfolding keeps_def by (metis fst_conv snd_conv)
  with p s show "rd_ok (snd (with_sink p s)) \<and> (\<forall>e. fst (with_sink p s) = Inl e \<longrightarrow> no_oob e)"
    by (simp add: with_sink_def rd_ok_def)
qed

lemma in_span_lift_out [intro]: "safe m \<Longrightarrow> in_span (lift_out m)"
  by (auto simp: keeps_def lift_out_def rd_ok_def split: prod.splits option.splits) (metis fst_conv)

lemma in_span_lift_layer [intro]: "safe m \<Longrightarrow> in_span (lift_layer m)"
  by (auto simp: keeps_def lift_layer_def rd_ok_def split: prod.splits option.splits) (metis fst_conv)

lemma checkLengths_usable: "list_all (message_ok isMsrp) msgs \<Longrightarrow>
    yields rd_ok (\<lambda>_. usable isMsrp msgs) (checkLengths isMsrp msgs)"
  by (auto simp: yields_def usable_def list_all_iff dest!: checkLengths_yields)

lemma in_span_decodeMrp [intro, simp]: "in_span (decodeMrp eth isMsrp)"
proof -
  have use: "in_span (andthen (lift_out (mrpEvent_out eth ver msgs isMsrp)) (\<lambda>_.
      andthen (push_layer s) (\<lambda>_. lift_layer (mrpInspectorFields msgs isMsrp ver))))"
    if "usable isMsrp msgs" for ver msgs s
    unfolding mrpEvent_out_def
    by (intro keeps_andthen in_span_lift_out in_span_lift_layer safe_emit safe_inspector that in_span_dsteps safe_modify)
  have checked: "in_span (andthen (checkLengths isMsrp msgs) (\<lambda>_. andthen (lift_out (mrpEvent_out eth ver msgs isMsrp)) (\<lambda>_.
      andthen (push_layer s) (\<lambda>_. lift_layer (mrpInspectorFields msgs isMsrp ver)))))"
    if "list_all (message_ok isMsrp) msgs" for ver msgs s
    by (rule keeps_andthen_yields [OF checkLengths_safe checkLengths_usable [OF that]]) (rule use)
  show ?thesis
    unfolding decodeMrp_def
    by (rule keeps_andthen [OF in_span_dsteps(6)], rule keeps_andthen_yields [OF in_span_pdu pdu_ok], rule checked)
qed

lemma in_span_decodeGptp [intro, simp]: "in_span (decodeGptp eth)"
  unfolding decodeGptp_def by (intro keeps_andthen in_span_dsteps in_span_with_sink in_span_gptp)

lemma in_span_avtp_body [intro, simp]: "in_span (parseAvtpBody p h)"
  unfolding parseAvtpBody_def by (intro in_span_optional in_span_adp in_span_aecp in_span_acmp in_span_maap)

lemma in_span_decodeAvtp [intro, simp]: "in_span (decodeAvtp eth)"
  unfolding decodeAvtp_def Let_def
  by (intro keeps_andthen in_span_optional keeps_ret in_span_dsteps in_span_avtp in_span_with_sink in_span_avtp_body)

lemma in_span_decodeInner [intro, simp]: "in_span decodeInner"
  unfolding decodeInner_def
  by (intro keeps_andthen in_span_optional in_span_dsteps in_span_eth in_span_decodeMrp in_span_decodeGptp
      in_span_decodeAvtp in_span_remaining)

lemma decodeInner_errors: "fst (decodeInner (BeReader frame, st)) = Inl e \<Longrightarrow> \<exists>w. e = ShortFrame w"
proof -
  assume e: "fst (decodeInner (BeReader frame, st)) = Inl e"
  have "rd_ok (BeReader frame, st)" by (simp add: rd_ok_def BeReader_def)
  with e have "no_oob e" using in_span_decodeInner by (auto simp: keeps_def)
  then show ?thesis by (cases e) (simp_all add: no_oob_def)
qed

section \<open>The sinks survive the walk\<close>

text \<open>
  \<open>rides Q p\<close>: whatever \<open>p\<close> does to the reader, it keeps \<open>Q\<close> of the rest of the state.  A
  parser that only reads keeps every \<open>Q\<close>.
\<close>

abbreviation rides :: "('s \<Rightarrow> bool) \<Rightarrow> ('s, 'a) parser \<Rightarrow> bool" where
  "rides Q p \<equiv> keeps (\<lambda>s. Q (snd s)) (\<lambda>_. True) p"

lemma rides_read [intro, simp]: "rides Q (need n what)" "rides Q (fetch n)" "rides Q r_remaining" "rides Q r_pos"
  by (auto simp: keeps_def need_def fetch_def r_remaining_def r_pos_def reads_def)

lemma rides_reader [intro, simp]: "rides Q (r_u8 what)" "rides Q (r_u16 what)" "rides Q (r_u32 what)"
  "rides Q (r_u48 what)" "rides Q (r_u64 what)" "rides Q (r_bytes n what)" "rides Q (r_skip n what)"
  unfolding r_u8_def r_u16_def r_u32_def r_u48_def r_u64_def r_bytes_def r_skip_def by auto

lemma rides_iterate:
  assumes "\<And>x. rides Q (body x)"
  shows "rides Q (iterate n body x)"
proof (induction n arbitrary: x)
  case (Suc n)
  have "rides Q (case r of Inl y \<Rightarrow> ret y | Inr x' \<Rightarrow> iterate n body x')" for r
    using Suc by (cases r) auto
  then show ?case using assms by (auto intro: keeps_andthen)
qed auto

lemma rides_loop [intro]:
  assumes "\<And>x. rides Q (body x)"
  shows "rides Q (loop body x)"
proof -
  from assms have "rides Q (iterate n body x)" for n by (rule rides_iterate)
  then show ?thesis by (auto simp: keeps_def loop_def simp del: iterate.simps)
qed

lemma keeps_if: "keeps I E p \<Longrightarrow> keeps I E q \<Longrightarrow> keeps I E (if b then p else q)"
  by simp

lemma rides_if [intro]: "rides Q p \<Longrightarrow> rides Q q \<Longrightarrow> rides Q (if b then p else q)"
  by simp

lemma rides_eth [intro, simp]: "rides Q parseEth"
  unfolding parseEth_def vlan_round_def by (intro keeps_andthen rides_reader rides_loop rides_if keeps_ret)

lemma rides_avtp [intro, simp]: "rides Q parseAvtpCtrl"
  unfolding parseAvtpCtrl_def by (intro keeps_andthen rides_reader keeps_ret)

lemma rides_vector: "rides Q (vector_round isMsrp ty len e vs)"
  unfolding vector_round_def Let_def
  by (intro keeps_andthen rides_reader rides_read rides_if keeps_ret keeps_throw TrueI)

lemma rides_message: "rides Q (message_round isMsrp msgs)"
  unfolding message_round_def Let_def
  by (intro keeps_andthen rides_reader rides_read rides_if keeps_ret keeps_throw TrueI rides_loop rides_vector)

lemma rides_pdu [intro, simp]: "rides Q (parseMrpPdu isMsrp)"
  unfolding parseMrpPdu_def by (intro keeps_andthen rides_reader keeps_ret rides_loop rides_message)

lemma rides_lengths [intro, simp]: "rides Q (checkLengths isMsrp msgs)"
  unfolding checkLengths_def by (rule keeps_seqs) (auto split: option.split)

text \<open>An event being assembled, or a layer list being filled, stays one.\<close>

definition assembling :: "dstate \<Rightarrow> bool" where
  "assembling st \<longleftrightarrow> ds_out st \<noteq> None"

definition inspecting :: "dstate \<Rightarrow> bool" where
  "inspecting st \<longleftrightarrow> ds_layers st \<noteq> None"

definition sinks :: "bool \<Rightarrow> bool \<Rightarrow> dstate \<Rightarrow> bool" where
  "sinks a i st \<longleftrightarrow> assembling st = a \<and> inspecting st = i"

lemma sinks_steps [intro, simp]: "rides (sinks a i) (on_out f)" "rides (sinks a i) (on_layers g)"
  "rides (sinks a i) (push_layer s)" "rides (sinks a i) (push_ctx s)" "rides (sinks a i) (add_fields fs)"
  "rides (sinks a i) (set_proto p)"
  unfolding push_layer_def push_ctx_def add_fields_def set_proto_def
  by (auto simp: on_out_def on_layers_def keeps_def modify_def sinks_def assembling_def inspecting_def)

lemma sinks_with_sink [intro]: "rides (sinks a i) (with_sink p)"
  by (auto simp: keeps_def with_sink_def store_sink_def sinks_def assembling_def inspecting_def split: prod.splits)

lemma sinks_lift [intro]: "rides (sinks a i) (lift_out m)" "rides (sinks a i) (lift_layer m')"
  by (auto simp: keeps_def lift_out_def lift_layer_def sinks_def assembling_def inspecting_def
      split: prod.splits option.splits)

lemma sinks_decodeInner: "rides (sinks a i) decodeInner"
  unfolding decodeInner_def decodeMrp_def decodeGptp_def decodeAvtp_def Let_def
  by (intro keeps_andthen rides_if sinks_steps sinks_with_sink sinks_lift rides_eth rides_avtp rides_pdu
      rides_lengths rides_read keeps_ret)

lemma decodeInner_sinks:
  assumes "decodeInner (BeReader frame, st) = (res, (r, st'))"
  shows "(ds_out st' = None) = (ds_out st = None)" and "(ds_layers st' = None) = (ds_layers st = None)"
proof -
  have "sinks (assembling st) (inspecting st) st'"
    using sinks_decodeInner [of "assembling st" "inspecting st"] assms
    unfolding keeps_def by (metis snd_conv sinks_def)
  then show "(ds_out st' = None) = (ds_out st = None)" "(ds_layers st' = None) = (ds_layers st = None)"
    by (auto simp: sinks_def assembling_def inspecting_def)
qed

text \<open>The error branch and the normal branch are the only ways out of the decoder.\<close>

lemma decodePacket_cases:
  obtains (decoded) dp where "decodePacket frame out = Some (dp\<lparr>dp_ok := True\<rparr>)"
  | (rejected) dp w where "decodePacket frame out =
      Some (dp\<lparr>dp_ok := False, dp_interesting := True, dp_error := w, dp_logicCtxs := []\<rparr>)"
proof -
  obtain res r st where run: "decodeInner (BeReader frame, \<lparr>ds_out = Some out, ds_layers = None\<rparr>) = (res, (r, st))"
    by (metis prod.collapse)
  obtain dp where dp: "ds_out st = Some dp" using decodeInner_sinks(1) [OF run] by auto
  show thesis
  proof (cases res)
    case (Inl e)
    obtain w where "e = ShortFrame w" using decodeInner_errors [of frame] run Inl by (metis fst_conv)
    then show thesis using Inl run dp rejected by (simp add: decodePacket_def)
  next
    case (Inr u) then show thesis using run dp decoded by (simp add: decodePacket_def)
  qed
qed

lemma inspectPacket_total: "inspectPacket frame \<noteq> None"
proof -
  obtain res r st where run: "decodeInner (BeReader frame, \<lparr>ds_out = None, ds_layers = Some []\<rparr>) = (res, (r, st))"
    by (metis prod.collapse)
  obtain ls where ls: "ds_layers st = Some ls" using decodeInner_sinks(2) [OF run] by auto
  show ?thesis
  proof (cases res)
    case (Inl e)
    obtain w where "e = ShortFrame w" using decodeInner_errors [of frame] run Inl by (metis fst_conv)
    then show ?thesis using Inl run ls by (simp add: inspectPacket_def)
  qed (use run ls in \<open>simp add: inspectPacket_def\<close>)
qed

section \<open>The number and the time stay\<close>

definition stamped :: "u32 \<Rightarrow> double \<Rightarrow> decoded \<Rightarrow> bool" where
  "stamped n t dp \<longleftrightarrow> dp_num dp = n \<and> dp_ts dp = t"

abbreviation stamps :: "u32 \<Rightarrow> double \<Rightarrow> (exn, mrp_acc, 'a) thrower \<Rightarrow> bool" where
  "stamps n t m \<equiv> keeps (\<lambda>a. stamped n t (ea_out a)) (\<lambda>_. True) m"

lemma stamps_pure [simp]: "stamps n t (index d i)" "stamps n t (threePackedEvent d i)" "stamps n t (fourPackedEvent d i)"
  "stamps n t (mvrpFirstVid d)" "stamps n t (on_span d p)"
  unfolding threePackedEvent_def fourPackedEvent_def mvrpFirstVid_def
  by (auto simp: index_def keeps_def ret_def throw_def andthen_def on_span_def split: prod.splits)

lemma stamped_emits [simp]: "stamped n t (ea_out (emit_value isMsrp m v vid k ev fp a)) = stamped n t (ea_out a)"
  "stamped n t (ea_out (emit_leaveAll isMsrp m v vid a)) = stamped n t (ea_out a)"
  by (simp_all add: emit_value_def emit_leaveAll_def add_ctx_def stamped_def Let_def)

lemma stamps_value: "stamps n t (value_step isMsrp m vec v vid k)"
  unfolding value_step_def
  by (intro keeps_andthen keeps_reads keeps_if keeps_throw TrueI stamps_pure keeps_ret keeps_modify) simp

lemma stamps_vector: "stamps n t (vector_step isMsrp m vec)"
  unfolding vector_step_def
  by (intro keeps_andthen keeps_if stamps_pure keeps_ret keeps_modify keeps_seqs) (auto intro: stamps_value)

lemma stamped_emit: "keeps (stamped n t) (\<lambda>_. True) (emitMrpDecls msgs isMsrp)"
  unfolding keeps_def
proof (intro allI impI conjI TrueI)
  fix out assume out: "stamped n t out"
  let ?steps = "seqs (concat (map (\<lambda>m. map (vector_step isMsrp m) (mm_vectors m)) msgs))"
  let ?a = "\<lparr>ea_count = 0, ea_labeled = False, ea_desc = [], ea_out = out\<rparr>"
  have "stamps n t ?steps" by (rule keeps_seqs) (auto intro: stamps_vector)
  then have "stamped n t (ea_out (snd (?steps ?a)))" using out by (simp add: keeps_def)
  then show "stamped n t (snd (emitMrpDecls msgs isMsrp out))"
    by (auto simp: emitMrpDecls_def finish_decls_def stamped_def Let_def split: prod.split sum.split)
qed

definition keeps_stamp :: "u32 \<Rightarrow> double \<Rightarrow> dstate \<Rightarrow> bool" where
  "keeps_stamp n t st \<longleftrightarrow> pred_option (stamped n t) (ds_out st)"

lemma stamp_on_out: "(\<And>dp. stamped n t dp \<Longrightarrow> stamped n t (f dp)) \<Longrightarrow> rides (keeps_stamp n t) (on_out f)"
  by (auto simp: on_out_def keeps_def modify_def keeps_stamp_def pred_option_def)

lemma stamp_on_layers [intro, simp]: "rides (keeps_stamp n t) (on_layers g)" "rides (keeps_stamp n t) (push_layer s)"
  "rides (keeps_stamp n t) (add_fields fs)"
  unfolding push_layer_def add_fields_def by (auto simp: on_layers_def keeps_def modify_def keeps_stamp_def)

lemma stamp_ctx [intro, simp]: "rides (keeps_stamp n t) (push_ctx s)" "rides (keeps_stamp n t) (set_proto p)"
  unfolding push_ctx_def set_proto_def by (auto intro!: stamp_on_out simp: stamped_def)

lemma stamp_with_sink [intro]: "rides (keeps_stamp n t) (with_sink p)"
  by (auto simp: keeps_def with_sink_def store_sink_def keeps_stamp_def pred_option_def stamped_def
      split: prod.splits option.splits)

lemma stamp_lift_layer [intro]: "rides (keeps_stamp n t) (lift_layer m)"
  by (auto simp: keeps_def lift_layer_def keeps_stamp_def split: prod.splits option.splits)

lemma stamp_lift_out:
  assumes "keeps (stamped n t) (\<lambda>_. True) m"
  shows "rides (keeps_stamp n t) (lift_out m)"
  using assms by (auto simp: keeps_def lift_out_def keeps_stamp_def split: prod.splits option.splits)

lemma stamp_mrpEvent: "keeps (stamped n t) (\<lambda>_. True) (mrpEvent_out eth ver msgs isMsrp)"
  unfolding mrpEvent_out_def by (intro keeps_andthen stamped_emit keeps_modify) (simp add: stamped_def)

lemma stamped_events [simp]: "stamped n t (avtpEvent p h dp) = stamped n t dp" "stamped n t (gptpEvent g dp) = stamped n t dp"
  by (simp_all add: avtpEvent_def adpEvent_def aecpEvent_def acmpEvent_def maapEvent_def gptpEvent_def Let_def stamped_def)

lemma stamped_update [simp]: "stamped n t (dp\<lparr>dp_logicCtxs := cs\<rparr>) = stamped n t dp"
  "stamped n t (dp\<lparr>dp_src := a, dp_dst := b, dp_srcMac := c, dp_dstMac := d\<rparr>) = stamped n t dp"
  by (simp_all add: stamped_def)

lemma stamp_decodeInner: "rides (keeps_stamp n t) decodeInner"
  unfolding decodeInner_def decodeMrp_def decodeGptp_def decodeAvtp_def Let_def
  by (intro keeps_andthen rides_if stamp_on_out stamp_on_layers stamp_ctx stamp_with_sink stamp_lift_layer
      stamp_lift_out stamp_mrpEvent rides_eth rides_avtp rides_pdu rides_lengths rides_read keeps_ret)
    simp_all

lemma decodePacket_stamp:
  assumes "decodePacket frame out = Some dp"
  shows "dp_num dp = dp_num out" and "dp_ts dp = dp_ts out"
proof -
  obtain res r st where run: "decodeInner (BeReader frame, \<lparr>ds_out = Some out, ds_layers = None\<rparr>) = (res, (r, st))"
    by (metis prod.collapse)
  have "keeps_stamp (dp_num out) (dp_ts out) st"
    using stamp_decodeInner [of "dp_num out" "dp_ts out"] run unfolding keeps_def
    by (metis keeps_stamp_def option.pred_inject(2) select_convs(1) snd_conv stamped_def)
  then have "stamped (dp_num out) (dp_ts out) dp"
    using assms run
    by (auto simp: decodePacket_def keeps_stamp_def stamped_def split: option.splits sum.splits exn.splits)
  then show "dp_num dp = dp_num out" "dp_ts dp = dp_ts out" by (simp_all add: stamped_def)
qed

end
