(* ===== verification/Inspector.thy ===== *)
theory Inspector
  imports Decode
begin

text \<open>
  \<open>decodePacket\<close> and \<open>inspectPacket\<close> walk a frame with the same code and different sinks.  The
  lemmas show that what the walk reads, returns and throws does not depend on the sinks, so that
  the inspector shows an error where the decoder rejects and only there; the one exception is
  the bound on declarations, which the decoder checks while it expands them.
\<close>

section \<open>Parsers blind to their sinks\<close>

definition blind :: "('s, 'a) parser \<Rightarrow> bool" where
  "blind p \<longleftrightarrow> (\<forall>r s s'. fst (p (r, s)) = fst (p (r, s')) \<and> fst (snd (p (r, s))) = fst (snd (p (r, s'))))"

lemma blind_ret [intro, simp]: "blind (ret x)" "blind (throw e)"
  by (simp_all add: blind_def ret_def throw_def)

lemma blind_andthen [intro]:
  assumes p: "blind p" and f: "\<And>x. blind (f x)"
  shows "blind (andthen p f)"
  unfolding blind_def
proof (intro allI)
  fix r s s'
  obtain x1 r1 s1 where 1: "p (r, s) = (x1, r1, s1)" by (metis prod.collapse)
  obtain x2 r2 s2 where 2: "p (r, s') = (x2, r2, s2)" by (metis prod.collapse)
  have "x1 = x2" "r1 = r2" using p 1 2 unfolding blind_def by (metis fst_conv snd_conv)+
  moreover have "fst (f x (r1, s1)) = fst (f x (r1, s2)) \<and> fst (snd (f x (r1, s1))) = fst (snd (f x (r1, s2)))" for x
    using f unfolding blind_def by blast
  ultimately show "fst (andthen p f (r, s)) = fst (andthen p f (r, s')) \<and>
      fst (snd (andthen p f (r, s))) = fst (snd (andthen p f (r, s')))"
    by (cases x2) (simp_all add: andthen_def 1 2)
qed

lemma blind_if [intro]: "blind p \<Longrightarrow> blind q \<Longrightarrow> blind (if b then p else q)"
  by simp

lemma blind_seqs [intro]: "(\<And>m. m \<in> set ms \<Longrightarrow> blind m) \<Longrightarrow> blind (seqs ms)"
  by (induction ms) auto

lemma blind_gather [intro]: "(\<And>m. m \<in> set ms \<Longrightarrow> blind m) \<Longrightarrow> blind (gather ms)"
  by (induction ms) auto

lemma blind_read [intro, simp]: "blind (need n what)" "blind (fetch n)" "blind r_remaining" "blind r_pos"
  by (auto simp: blind_def need_def fetch_def r_remaining_def r_pos_def reads_def)

lemma blind_reader [intro, simp]: "blind (r_u8 what)" "blind (r_u16 what)" "blind (r_u32 what)" "blind (r_u48 what)"
  "blind (r_u64 what)" "blind (r_bytes n what)" "blind (r_skip n what)"
  unfolding r_u8_def r_u16_def r_u32_def r_u48_def r_u64_def r_bytes_def r_skip_def by auto

lemma blind_with_reader [intro]:
  assumes "blind p"
  shows "blind (with_reader d p)"
  unfolding blind_def
proof (intro allI)
  fix r s s'
  obtain x1 r1 s1 where 1: "p (BeReader d, s) = (x1, r1, s1)" by (metis prod.collapse)
  obtain x2 r2 s2 where 2: "p (BeReader d, s') = (x2, r2, s2)" by (metis prod.collapse)
  have "x1 = x2" using assms 1 2 unfolding blind_def by (metis fst_conv)
  then show "fst (with_reader d p (r, s)) = fst (with_reader d p (r, s')) \<and>
      fst (snd (with_reader d p (r, s))) = fst (snd (with_reader d p (r, s')))"
    by (simp add: with_reader_def 1 2)
qed

lemma blind_iterate: "(\<And>x. blind (body x)) \<Longrightarrow> blind (iterate n body x)"
proof (induction n arbitrary: x)
  case (Suc n)
  have "blind (case r of Inl y \<Rightarrow> ret y | Inr x' \<Rightarrow> iterate n body x')" for r
    using Suc by (cases r) auto
  then show ?case using Suc.prems by auto
qed auto

lemma blind_loop [intro]: "(\<And>x. blind (body x)) \<Longrightarrow> blind (loop body x)"
  using blind_iterate [of body] by (auto simp: blind_def loop_def simp del: iterate.simps)

lemma blind_modify [intro, simp]: "blind (modify (apsnd f))" "blind (put g)"
  by (simp_all add: blind_def modify_def put_def)

lemma blind_field [intro]: "blind p \<Longrightarrow> blind (f_num n p)" "blind p \<Longrightarrow> blind (f_hex n p d)" "blind q \<Longrightarrow> blind (f_mac n q)"
  "blind q \<Longrightarrow> blind (f_id n q)" "blind b \<Longrightarrow> blind (f_str n b)" "blind p \<Longrightarrow> blind (f_numd n p g)"
  unfolding field_defs by auto

lemmas blind_intros = blind_andthen blind_if blind_ret blind_read blind_reader blind_modify blind_field

lemma blind_headers [intro, simp]: "blind parseEth" "blind parseAvtpCtrl"
  unfolding parseEth_def vlan_round_def parseAvtpCtrl_def by (intro blind_intros blind_loop)+

lemma blind_aem [intro, simp]: "blind (parseAemPayload t c)"
  unfolding parseAemPayload_def Let_def aem_lock_def aem_read_descriptor_def aem_name_def not_decoded_def aem_entity_def
    aem_entity_tail_def f_descriptor_def seqs.simps
  by (intro blind_intros)

lemma blind_avtp_body [intro, simp]: "blind (parseAvtpBody p h)"
  unfolding parseAvtpBody_def parseAdp_def parseAecp_def parseAcmp_def parseMaap_def not_decoded_def seqs.simps
  by (intro blind_intros blind_aem)

lemma blind_tlv [intro, simp]: "blind (followUpTlv t l)" "blind (pathTraceTlv t l)" "blind (signalingTlv t l)"
  unfolding followUpTlv_def pathTraceTlv_def signalingTlv_def intervalRequest_def f_interval_def Let_def seqs.simps
  by (intro blind_intros blind_gather; auto)+

lemma blind_timestamp [intro, simp]: "blind (gptpTimestamp pfx)"
  unfolding gptpTimestamp_def seqs.simps by (intro blind_intros)

lemma blind_tlvs [intro]: "(\<And>t l. blind (tlv t l)) \<Longrightarrow> blind (loop (tlv_round overrun tlv) ())"
  unfolding tlv_round_def by (intro blind_loop blind_intros blind_with_reader)

lemma blind_signaling [intro, simp]: "blind signalingBody"
  unfolding signalingBody_def signaling_round_def seqs.simps by (intro blind_loop blind_intros blind_with_reader blind_tlv)

lemma blind_gptp_body [intro, simp]: "blind (gptpBody t)"
  unfolding gptpBody_def followUpBody_def announceBody_def requestingPort_def seqs.simps
  by (intro blind_intros blind_timestamp blind_tlvs blind_tlv blind_signaling)

lemma blind_gptp [intro, simp]: "blind parseGptp"
  unfolding parseGptp_def parseGptpHeader_def gptpHeaderFields_def Let_def seqs.simps
  by (intro blind_intros blind_with_reader blind_gptp_body)

lemma blind_pdu [intro, simp]: "blind (parseMrpPdu isMsrp)"
  unfolding parseMrpPdu_def message_round_def vector_round_def Let_def by (intro blind_loop blind_intros)

lemma blind_lengths [intro, simp]: "blind (checkLengths isMsrp msgs)"
  unfolding checkLengths_def by (rule blind_seqs) (auto split: option.split)

lemma blind_steps [intro, simp]: "blind (on_out f)" "blind (on_layers g)" "blind (push_layer s)" "blind (push_ctx s)"
  "blind (add_fields fs)" "blind (set_proto p)"
  unfolding on_out_def on_layers_def push_layer_def push_ctx_def add_fields_def set_proto_def by auto

lemma blind_with_sink [intro]:
  assumes "blind p"
  shows "blind (with_sink p)"
  unfolding blind_def
proof (intro allI)
  fix r s s'
  obtain x1 r1 s1 where 1: "p (r, sink_of s) = (x1, r1, s1)" by (metis prod.collapse)
  obtain x2 r2 s2 where 2: "p (r, sink_of s') = (x2, r2, s2)" by (metis prod.collapse)
  have "x1 = x2" "r1 = r2" using assms 1 2 unfolding blind_def by (metis fst_conv snd_conv)+
  then show "fst (with_sink p (r, s)) = fst (with_sink p (r, s')) \<and> fst (snd (with_sink p (r, s))) = fst (snd (with_sink p (r, s')))"
    by (simp add: with_sink_def 1 2)
qed

section \<open>The expansion of usable messages\<close>

text \<open>\<open>fits n p\<close>: with \<open>n\<close> bytes left \<open>p\<close> returns, and takes no more than those.\<close>

definition fits :: "nat \<Rightarrow> ('s, 'a) parser \<Rightarrow> bool" where
  "fits n p \<longleftrightarrow> (\<forall>r s. rd_ok (r, s) \<longrightarrow> n \<le> remaining r \<longrightarrow>
     (\<exists>x r' s'. p (r, s) = (Inr x, r', s') \<and> rd_ok (r', s') \<and> remaining r \<le> remaining r' + n))"

lemma fits_ret [intro, simp]: "fits n (ret x)"
  by (simp add: fits_def ret_def)

lemma fits_andthen:
  fixes p :: "('s, 'a) parser"
  assumes "fits a p" and "\<And>x. fits b (f x)"
  shows "fits (a + b) (andthen p f)"
  unfolding fits_def
proof (intro allI impI)
  fix r and s :: 's assume ok: "rd_ok (r, s)" and n: "a + b \<le> remaining r"
  obtain x r1 s1 where 1: "p (r, s) = (Inr x, r1, s1)" "rd_ok (r1, s1)" "remaining r \<le> remaining r1 + a"
    using assms(1) ok n unfolding fits_def by (metis add_leD1)
  obtain y r2 s2 where 2: "f x (r1, s1) = (Inr y, r2, s2)" "rd_ok (r2, s2)" "remaining r1 \<le> remaining r2 + b"
    using assms(2) [of x] 1 n unfolding fits_def by (metis add.commute add_le_imp_le_left le_trans)
  show "\<exists>x r' s'. andthen p f (r, s) = (Inr x, r', s') \<and> rd_ok (r', s') \<and> remaining r \<le> remaining r' + (a + b)"
    using 1 2 by (auto simp: andthen_def)
qed

lemma fits_read: "fits n (andthen (need n what) (\<lambda>_. andthen (fetch n) (\<lambda>bs. ret (g bs))))"
  by (auto simp: fits_def andthen_def need_def fetch_def ret_def remaining_def rd_ok_def)

lemma fits_reader: "fits 1 (r_u8 what)" "fits 2 (r_u16 what)" "fits 4 (r_u32 what)" "fits 6 (r_u48 what)" "fits 8 (r_u64 what)"
  unfolding r_u8_def r_u16_def r_u32_def r_u48_def r_u64_def by (rule fits_read)+

lemma fits_last: "fits n p \<Longrightarrow> fits n (andthen p (\<lambda>x. ret (g x)))"
  using fits_andthen [of n p 0 "\<lambda>x. ret (g x)"] by simp

abbreviation quiet :: "(exn, 's, 'a) thrower \<Rightarrow> bool" where
  "quiet m \<equiv> keeps (\<lambda>_. True) (\<lambda>_. False) m"

lemma quiet_on_span: "fits n p \<Longrightarrow> n \<le> length d \<Longrightarrow> quiet (on_span d p)"
proof -
  assume p: "fits n p" and n: "n \<le> length d"
  have "rd_ok (BeReader d, ())" "n \<le> remaining (BeReader d)" using n by (simp_all add: rd_ok_def BeReader_def remaining_def)
  then obtain x r' s' where "p (BeReader d, ()) = (Inr x, r', s')" using p unfolding fits_def by blast
  then show ?thesis by (simp add: keeps_def on_span_def)
qed

lemma fits_talker: "fits (if attr = 2 then 34 else 25) (talkerFirstValue attr)"
proof -
  have tail: "fits (if attr = 2 then 9 else 0) (if attr = 2 then
      andthen (r_u64 ''failure bridge id'') (\<lambda>fb. andthen (r_u8 ''failure code'') (\<lambda>fc. ret (g fb fc))) else ret v :: (unit, first_value) parser)" for g v
  proof -
    have "fits (8 + 1) (andthen (r_u64 ''failure bridge id'') (\<lambda>fb. andthen (r_u8 ''failure code'') (\<lambda>fc. ret (g fb fc))) ::
        (unit, first_value) parser)"
      by (intro fits_andthen fits_last fits_reader)
    then show ?thesis by simp
  qed
  have "fits (8 + (6 + (2 + (2 + (2 + (1 + (4 + (if attr = 2 then 9 else 0)))))))) (talkerFirstValue attr)"
    unfolding talkerFirstValue_def Let_def by (intro fits_andthen fits_reader tail)
  then show ?thesis by (cases "attr = 2") simp_all
qed

lemma quiet_first:
  assumes "vector_ok True (mm_attrType m) (mm_attrLen m) vec" and "mrpLengthError True m = None"
  shows "quiet (on_span (mv_first vec) (parseMsrpFirstValue (mm_attrType m)))"
proof -
  let ?a = "mm_attrType m"
  have len: "length (mv_first vec) = kLens ! unat ?a" if "?a \<in> {1, 2, 3, 4}"
    using assms that by (auto simp: vector_ok_def mrpLengthError_def split: if_splits)
  consider "?a \<in> {1, 2}" | "?a = 3" | "?a = 4" | "?a \<notin> {1, 2, 3, 4}" by blast
  then show ?thesis
  proof cases
    case 1
    then show ?thesis
      using quiet_on_span [OF fits_talker, of ?a "mv_first vec"] len by (auto simp: parseMsrpFirstValue_def kLens_def)
  next
    case 2
    have "fits 8 (parseMsrpFirstValue ?a)" using 2 unfolding parseMsrpFirstValue_def by (simp add: fits_last fits_reader)
    then show ?thesis by (rule quiet_on_span) (use len 2 in \<open>simp add: kLens_def\<close>)
  next
    case 3
    have "fits (1 + (1 + 2)) (andthen (r_u8 ''sr class id'') (\<lambda>c. andthen (r_u8 ''sr class priority'') (\<lambda>p.
        andthen (r_u16 ''sr class vid'') (\<lambda>vid. ret (MsrpFirstValue\<lparr>fv_classId := c, fv_classPrio := p, fv_classVid := vid AND 0x0fff\<rparr>)))) :: (unit, first_value) parser)"
      by (intro fits_andthen fits_last fits_reader)
    moreover have "1 + (1 + 2) = (4 :: nat)" by simp
    ultimately have "fits 4 (parseMsrpFirstValue ?a)" unfolding 3 by (simp only: parseMsrpFirstValue_def) simp
    then show ?thesis by (rule quiet_on_span) (use len 3 in \<open>simp add: kLens_def\<close>)
  next
    case 4
    then show ?thesis using quiet_on_span [OF fits_ret, of 0] by (auto simp: parseMsrpFirstValue_def)
  qed
qed

lemma quiet_events:
  assumes "vector_ok isMsrp attr len vec" and "k < mv_numValues vec"
  shows "keeps (\<lambda>_. True) E (threePackedEvent (mv_three vec) k)"
    and "keeps (\<lambda>_. True) E (if isMsrp \<and> attr = 3 then fourPackedEvent (mv_four vec) k else ret (-1))"
proof -
  have "k div 3 < length (mv_three vec)" "isMsrp \<and> attr = 3 \<longrightarrow> k div 4 < length (mv_four vec)"
    using assms by (auto simp: vector_ok_def)
  then show "keeps (\<lambda>_. True) E (threePackedEvent (mv_three vec) k)"
    "keeps (\<lambda>_. True) E (if isMsrp \<and> attr = 3 then fourPackedEvent (mv_four vec) k else ret (-1))"
    unfolding threePackedEvent_def fourPackedEvent_def by (auto intro: keeps_index)
qed

lemma quiet_vid: "length d = 2 \<Longrightarrow> keeps I E (mvrpFirstVid d)"
  unfolding mvrpFirstVid_def by (intro keeps_andthen keeps_index keeps_ret) simp_all

lemma keeps_errors: "keeps I (\<lambda>_. False) m \<Longrightarrow> keeps I E m"
  by (auto simp: keeps_def)

definition runaway :: exn where
  "runaway = ShortFrame ''too many MRP declarations in one PDU''"

text \<open>The decoder throws nothing but its own bound, the inspector nothing at all.\<close>

lemma vector_values:
  assumes "vector_ok isMsrp (mm_attrType m) (mm_attrLen m) vec" and "mrpLengthError isMsrp m = None"
  shows "isMsrp \<Longrightarrow> keeps (\<lambda>_. True) E (on_span (mv_first vec) (parseMsrpFirstValue (mm_attrType m)))"
    and "\<not> isMsrp \<Longrightarrow> keeps (\<lambda>_. True) E (mvrpFirstVid (mv_first vec))"
proof -
  show "keeps (\<lambda>_. True) E (on_span (mv_first vec) (parseMsrpFirstValue (mm_attrType m)))" if isMsrp
    by (rule keeps_errors, rule quiet_first) (use assms that in simp_all)
  show "keeps (\<lambda>_. True) E (mvrpFirstVid (mv_first vec))" if "\<not> isMsrp"
    by (rule quiet_vid) (use assms that in \<open>auto simp: vector_ok_def mrpLengthError_def split: if_splits\<close>)
qed

lemma keeps_either: "(b \<Longrightarrow> keeps I E p) \<Longrightarrow> (\<not> b \<Longrightarrow> keeps I E q) \<Longrightarrow> keeps I E (if b then p else q)"
  by simp

lemma emit_errors:
  assumes "usable isMsrp msgs"
  shows "keeps (\<lambda>_. True) (\<lambda>e. e = runaway) (emitMrpDecls msgs isMsrp)"
proof -
  have step: "keeps (\<lambda>_. True) (\<lambda>e. e = runaway) (vector_step isMsrp m vec)" if m: "m \<in> set msgs" "vec \<in> set (mm_vectors m)" for m vec
  proof -
    have ok: "vector_ok isMsrp (mm_attrType m) (mm_attrLen m) vec" "mrpLengthError isMsrp m = None"
      using assms m by (auto simp: usable_def dest: message_okD)
    have "keeps (\<lambda>_. True) (\<lambda>e. e = runaway) (value_step isMsrp m vec v vid k)" if "k < mv_numValues vec" for v vid k
      unfolding value_step_def
      by (intro keeps_andthen keeps_reads keeps_if keeps_throw quiet_events [OF ok(1) that] keeps_modify) (simp_all add: runaway_def)
    then have "keeps (\<lambda>_. True) (\<lambda>e. e = runaway) (seqs (map (value_step isMsrp m vec v vid) [0..<mv_numValues vec]))" for v vid
      by (intro keeps_seqs) auto
    then show ?thesis
      unfolding vector_step_def
      by (intro keeps_andthen keeps_either vector_values [OF ok] keeps_modify keeps_ret; simp)
  qed
  have "keeps (\<lambda>_. True) (\<lambda>e. e = runaway) (seqs (concat (map (\<lambda>m. map (vector_step isMsrp m) (mm_vectors m)) msgs)))"
    using step by (intro keeps_seqs) auto
  then show ?thesis
    unfolding emitMrpDecls_def keeps_def by (auto simp: Let_def split: prod.splits sum.splits) (metis fst_conv)
qed

lemma quiet_inspector:
  assumes "usable isMsrp msgs"
  shows "quiet (mrpInspectorFields msgs isMsrp version)"
proof -
  have add: "quiet (disp_add fs)" for fs by (auto simp: disp_add_def)
  have vec: "quiet (vector_fields isMsrp m p (i, vec))" if m: "m \<in> set msgs" "vec \<in> set (mm_vectors m)" for m p i vec
  proof -
    have ok: "vector_ok isMsrp (mm_attrType m) (mm_attrLen m) vec" "mrpLengthError isMsrp m = None"
      using assms m by (auto simp: usable_def dest: message_okD)
    have name: "quiet (event_name isMsrp (mm_attrType m) vec k)" if "k < mv_numValues vec" for k
      using quiet_events [OF ok(1) that] unfolding event_name_def
      by (cases "isMsrp \<and> mm_attrType m = 3") (simp_all only: if_True if_False, auto intro!: keeps_andthen)
    then have names: "quiet (gather (map (event_name isMsrp (mm_attrType m) vec) [0..<mv_numValues vec]))"
      by (intro keeps_gather) auto
    show ?thesis
      unfolding vector_fields_def split_conv Let_def seqs.simps
      by (intro keeps_andthen keeps_ret keeps_either vector_values [OF ok] names add; assumption)
  qed
  have "quiet (message_fields isMsrp (i, m))" if "m \<in> set msgs" for i m
    unfolding message_fields_def split_conv Let_def seqs.simps using that
    by (intro keeps_andthen keeps_ret add keeps_seqs) (auto simp: in_set_enumerate_eq intro!: vec)
  then show ?thesis
    unfolding mrpInspectorFields_def seqs.simps
    by (intro keeps_andthen keeps_ret add keeps_seqs) (auto simp: in_set_enumerate_eq)
qed

section \<open>The two walks agree\<close>

text \<open>On the same reader, with a packet to fill and with layers to fill.\<close>

definition agree :: "'a dparser \<Rightarrow> bool" where
  "agree p \<longleftrightarrow> (\<forall>r sD sI. rd_ok (r, ()) \<longrightarrow> sinks True False sD \<longrightarrow> sinks False True sI \<longrightarrow>
     (case fst (p (r, sI)) of Inl e \<Rightarrow> fst (p (r, sD)) = Inl e
      | Inr _ \<Rightarrow> (\<exists>x. fst (p (r, sD)) = Inr x) \<or> fst (p (r, sD)) = Inl runaway))"

lemma agree_blind: "blind p \<Longrightarrow> agree p"
proof -
  assume "blind p"
  then have eq: "fst (p (r, sD)) = fst (p (r, sI))" for r sD sI by (simp add: blind_def)
  have "case fst (p (r, sI)) of Inl e \<Rightarrow> fst (p (r, sD)) = Inl e
      | Inr _ \<Rightarrow> (\<exists>x. fst (p (r, sD)) = Inr x) \<or> fst (p (r, sD)) = Inl runaway" for r sD sI
    unfolding eq [of r sD sI] by (simp split: sum.split)
  then show ?thesis by (simp add: agree_def)
qed

lemma agree_andthen:
  assumes b: "blind p" and ok: "in_span p" and s: "\<And>a i. rides (sinks a i) p" and y: "yields rd_ok V p" and f: "\<And>x. V x \<Longrightarrow> agree (f x)"
  shows "agree (andthen p f)"
  unfolding agree_def
proof (intro allI impI)
  fix r sD sI assume r: "rd_ok (r, ())" and sD: "sinks True False sD" and sI: "sinks False True sI"
  obtain x r1 s1 where 1: "p (r, sI) = (x, r1, s1)" by (metis prod.collapse)
  obtain x' r2 s2 where 2: "p (r, sD) = (x', r2, s2)" by (metis prod.collapse)
  have eq: "x' = x" "r2 = r1" using b 1 2 unfolding blind_def by (metis fst_conv snd_conv)+
  show "case fst (andthen p f (r, sI)) of Inl e \<Rightarrow> fst (andthen p f (r, sD)) = Inl e
      | Inr _ \<Rightarrow> (\<exists>x. fst (andthen p f (r, sD)) = Inr x) \<or> fst (andthen p f (r, sD)) = Inl runaway"
  proof (cases x)
    case (Inl e)
    then show ?thesis using 1 2 eq by (simp add: andthen_def)
  next
    case (Inr v)
    have rI: "rd_ok (r, sI)" using r by (simp add: rd_ok_def)
    have "rd_ok (r1, s1)" using ok rI 1 unfolding keeps_def by (metis snd_conv)
    then have "rd_ok (r1, ())" by (simp add: rd_ok_def)
    moreover have "V v" using yieldsD [OF y rI] 1 Inr by blast
    moreover have "sinks False True s1" using s [of False True] sI 1 unfolding keeps_def by (metis snd_conv)
    moreover have "sinks True False s2" using s [of True False] sD 2 unfolding keeps_def by (metis snd_conv)
    moreover have "andthen p f (r, sI) = f v (r1, s1)" "andthen p f (r, sD) = f v (r1, s2)"
      using 1 2 eq Inr by (simp_all add: andthen_def)
    ultimately show ?thesis using f [of v] unfolding agree_def by metis
  qed
qed

lemma agree_any:
  "blind p \<Longrightarrow> in_span p \<Longrightarrow> (\<And>a i. rides (sinks a i) p) \<Longrightarrow> (\<And>x. agree (f x)) \<Longrightarrow> agree (andthen p f)"
  by (rule agree_andthen [where V = "\<lambda>_. True"]) (auto intro: yields_any)

lemma agree_if: "agree p \<Longrightarrow> agree q \<Longrightarrow> agree (if b then p else q)"
  by simp

lemma agree_lifts:
  assumes m: "keeps (\<lambda>_. True) (\<lambda>e. e = runaway) m" and m': "quiet m'"
  shows "agree (andthen (lift_out m) (\<lambda>_. andthen (push_layer sv) (\<lambda>_. lift_layer m')))"
  unfolding agree_def
proof (intro allI impI)
  fix r sD sI assume sD: "sinks True False sD" and sI: "sinks False True sI"
  let ?p = "andthen (lift_out m) (\<lambda>_. andthen (push_layer sv) (\<lambda>_. lift_layer m'))"
  have "fst (m' d) = Inr ()" for d using m' unfolding keeps_def by (cases "fst (m' d)") auto
  then have "fst (?p (r, sI)) = Inr ()"
    using sI by (auto simp: sinks_def assembling_def inspecting_def andthen_def lift_out_def push_layer_def on_layers_def modify_def
        lift_layer_def split: prod.splits) (metis fst_conv)
  moreover obtain dp where dp: "ds_out sD = Some dp" "ds_layers sD = None"
    using sD by (auto simp: sinks_def assembling_def inspecting_def)
  have "fst (?p (r, sD)) = fst (m dp)"
    by (cases "m dp"; cases "fst (m dp)") (auto simp: dp andthen_def lift_out_def push_layer_def on_layers_def modify_def lift_layer_def)
  moreover have "(\<exists>x. fst (m dp) = Inr x) \<or> fst (m dp) = Inl runaway" using m unfolding keeps_def by (cases "fst (m dp)") auto
  ultimately show "case fst (?p (r, sI)) of Inl e \<Rightarrow> fst (?p (r, sD)) = Inl e
      | Inr _ \<Rightarrow> (\<exists>x. fst (?p (r, sD)) = Inr x) \<or> fst (?p (r, sD)) = Inl runaway" by simp
qed

lemma agree_mrp: "agree (decodeMrp eth isMsrp)"
proof -
  have checked: "agree (andthen (checkLengths isMsrp msgs) (\<lambda>_. andthen (lift_out (mrpEvent_out eth ver msgs isMsrp)) (\<lambda>_.
      andthen (push_layer s) (\<lambda>_. lift_layer (mrpInspectorFields msgs isMsrp ver)))))"
    if "list_all (message_ok isMsrp) msgs" for ver msgs s
  proof (rule agree_andthen [OF _ checkLengths_safe _ checkLengths_usable [OF that]])
    fix u assume u: "usable isMsrp msgs"
    have "keeps (\<lambda>_. True) (\<lambda>e. e = runaway) (mrpEvent_out eth ver msgs isMsrp)"
      unfolding mrpEvent_out_def by (intro keeps_andthen emit_errors [OF u] keeps_modify) simp
    from agree_lifts [OF this quiet_inspector [OF u]] show "agree (andthen (lift_out (mrpEvent_out eth ver msgs isMsrp)) (\<lambda>_.
      andthen (push_layer s) (\<lambda>_. lift_layer (mrpInspectorFields msgs isMsrp ver))))" .
  qed auto
  show ?thesis
    unfolding decodeMrp_def
    by (rule agree_any, simp, simp, simp, rule agree_andthen [OF blind_pdu in_span_pdu _ pdu_ok], simp, rule checked)
qed

lemma blind_walks: "blind (decodeGptp eth)" "blind (decodeAvtp eth)"
  unfolding decodeGptp_def decodeAvtp_def Let_def by (intro blind_intros blind_with_sink blind_steps blind_gptp blind_headers blind_avtp_body)+

lemma agree_inner: "agree decodeInner"
  unfolding decodeInner_def
  by (intro agree_any agree_if agree_mrp blind_walks [THEN agree_blind] agree_blind [OF blind_andthen [OF blind_read(3) blind_steps(2)]]
      blind_steps blind_headers in_span_dsteps in_span_eth sinks_steps rides_eth)

section \<open>The layers\<close>

text \<open>The first layer is that of the Ethernet header and stays; no layer of the walk is an error layer.\<close>

definition tops :: "nat \<Rightarrow> layer \<Rightarrow> dstate \<Rightarrow> bool" where
  "tops n L st \<longleftrightarrow> (\<exists>ls. ds_layers st = Some ls \<and> n < length ls \<and> hd ls = L)"

lemma tops_more: "tops 1 L st \<Longrightarrow> tops 0 L st"
  by (auto simp: tops_def)

lemma hd_map_last: "1 < length ls \<Longrightarrow> hd (map_last f ls) = hd ls \<and> length (map_last f ls) = length ls"
  by (cases ls) (auto simp: map_last_def)

lemma tops_last: "1 < length ls \<Longrightarrow> hd ls = L \<Longrightarrow> ds_layers st' = Some (map_last f ls) \<Longrightarrow> tops 1 L st'"
  using hd_map_last [of ls f] by (simp add: tops_def)

lemma tops_steps [intro, simp]: "rides (tops n L) (on_out f)" "rides (tops n L) (push_layer s)" "rides (tops n L) (push_ctx s)"
  "rides (tops n L) (set_proto p)" "rides (tops 1 L) (add_fields fs)"
  unfolding push_layer_def push_ctx_def set_proto_def add_fields_def
  by (auto simp: on_out_def on_layers_def keeps_def modify_def tops_def hd_map_last hd_append intro: tops_last)

lemma tops_lift [intro, simp]: "rides (tops n L) (lift_out m)" "rides (tops 1 L) (lift_layer m')" "rides (tops 1 L) (with_sink p)"
proof -
  show "rides (tops n L) (lift_out m)" "rides (tops 1 L) (lift_layer m')"
    by (auto simp: keeps_def lift_out_def lift_layer_def tops_def hd_map_last split: prod.splits option.splits)
  have "tops 1 L (store_sink s st)" if "tops 1 L st" for s st
    using that by (cases "sn_disp s") (auto simp: store_sink_def tops_def hd_map_last)
  then show "rides (tops 1 L) (with_sink p)" by (auto simp: keeps_def with_sink_def split: prod.splits)
qed

lemma tops_push:
  fixes q :: "unit \<Rightarrow> unit dparser"
  assumes "\<And>u. rides (tops 1 L) (q u)"
  shows "rides (tops 0 L) (andthen (push_layer sv) q)"
  unfolding keeps_def
proof (intro allI impI conjI TrueI)
  fix s :: "reader \<times> dstate" assume s: "tops 0 L (snd s)"
  obtain s' where s': "push_layer sv s = (Inr (), s')" by (cases s) (simp add: push_layer_def on_layers_def modify_def)
  have "tops 1 L (snd s')" using s s' by (cases s) (auto simp: push_layer_def on_layers_def modify_def tops_def)
  then have "tops 1 L (snd (snd (q () s')))" using assms unfolding keeps_def by blast
  then show "tops 0 L (snd (snd (andthen (push_layer sv) q s)))" using tops_more by (simp add: andthen_def s')
qed

lemma tops_walks: "rides (tops 0 L) (decodeMrp eth isMsrp)" "rides (tops 0 L) (decodeGptp eth)" "rides (tops 0 L) (decodeAvtp eth)"
  unfolding decodeMrp_def decodeGptp_def decodeAvtp_def Let_def
  by (intro rides_if tops_push keeps_ret keeps_andthen [of "\<lambda>s. tops 0 L (snd s)"] keeps_andthen [of "\<lambda>s. tops 1 L (snd s)"]
      tops_steps tops_lift rides_pdu rides_lengths rides_avtp)+

definition no_error :: "layer list \<Rightarrow> bool" where
  "no_error ls \<longleftrightarrow> list_all (\<lambda>l. ly_service l \<noteq> ''decode_error'') ls"

definition clean :: "dstate \<Rightarrow> bool" where
  "clean st \<longleftrightarrow> (\<exists>ls. ds_layers st = Some ls \<and> no_error ls)"

lemma no_error_map_last: "no_error ls \<Longrightarrow> no_error (map_last (\<lambda>l. l\<lparr>ly_fields := f l\<rparr>) ls)"
  by (cases ls rule: rev_cases) (auto simp: no_error_def map_last_def)

lemma clean_steps [intro, simp]: "rides clean (on_out f)" "rides clean (push_ctx s)" "rides clean (set_proto p)"
  "rides clean (add_fields fs)" "s \<noteq> ''decode_error'' \<Longrightarrow> rides clean (push_layer s)"
  unfolding push_layer_def push_ctx_def set_proto_def add_fields_def
  by (auto simp: on_out_def on_layers_def keeps_def modify_def clean_def no_error_map_last) (simp add: no_error_def)

lemma clean_lift [intro, simp]: "rides clean (lift_out m)" "rides clean (lift_layer m')" "rides clean (with_sink p)"
proof -
  show "rides clean (lift_out m)" "rides clean (lift_layer m')"
    by (auto simp: keeps_def lift_out_def lift_layer_def clean_def no_error_map_last split: prod.splits option.splits)
  have "clean (store_sink s st)" if "clean st" for s st
    using that by (cases "sn_disp s") (auto simp: store_sink_def clean_def no_error_map_last)
  then show "rides clean (with_sink p)" by (auto simp: keeps_def with_sink_def split: prod.splits)
qed

lemma clean_inner: "rides clean decodeInner"
proof -
  have payload: "rides clean (on_layers (\<lambda>ls. ls @ [\<lparr>ly_service = ''payload'', ly_fields = fs n\<rparr>]))" for fs and n :: nat
    by (auto simp: on_layers_def keeps_def modify_def clean_def) (simp add: no_error_def)
  have names: "avtpService p \<noteq> ''decode_error''" for p by (simp add: avtpService_def)
  show ?thesis
    unfolding decodeInner_def decodeMrp_def decodeGptp_def decodeAvtp_def Let_def
    by (intro keeps_andthen rides_if clean_steps clean_lift rides_eth rides_avtp rides_pdu rides_lengths rides_read keeps_ret payload names)
      simp_all
qed

text \<open>The walk after the first layer.\<close>

definition walk :: "eth_header \<Rightarrow> unit dparser" where
  "walk eth =
     andthen (on_out (\<lambda>dp. dp\<lparr>dp_src := macStr (eh_src eth), dp_dst := macStr (eh_dst eth),
                dp_srcMac := eh_src eth, dp_dstMac := eh_dst eth\<rparr>)) (\<lambda>_.
       if eh_etype eth = kEtypeMsrp \<or> eh_etype eth = kEtypeMvrp then decodeMrp eth (eh_etype eth = kEtypeMsrp)
       else if eh_etype eth = kEtypeGptp then decodeGptp eth
       else if eh_etype eth = kEtypeAvtp then decodeAvtp eth
       else andthen r_remaining (\<lambda>n.
              on_layers (\<lambda>ls. ls @ [\<lparr>ly_service = ''payload'',
                ly_fields = [(''length'', cat [nat_str n, '' bytes''])]\<rparr>])))"

lemma tops_walk: "rides (tops 0 L) (walk eth)"
proof -
  have payload: "rides (tops 0 L) (on_layers (\<lambda>ls. ls @ [\<lparr>ly_service = ''payload'', ly_fields = fs n\<rparr>]))" for fs and n :: nat
    by (auto simp: on_layers_def keeps_def modify_def tops_def hd_append)
  show ?thesis unfolding walk_def by (intro keeps_andthen rides_if tops_steps tops_walks payload rides_read)
qed

definition eth_layer :: "dfield list \<Rightarrow> layer" where
  "eth_layer fs = \<lparr>ly_service = ''ethernet_mac_frame'', ly_fields = fs\<rparr>"

text \<open>What the Ethernet parser answers on a frame, apart from any sink.\<close>

definition eth_of :: "byte list \<Rightarrow> exn + eth_header" where
  "eth_of frame = fst ((parseEth :: eth_header dparser) (BeReader frame, \<lparr>ds_out = None, ds_layers = None\<rparr>))"

lemma eth_state: "\<exists>r. (parseEth :: eth_header dparser) (BeReader frame, st) = (eth_of frame, r, st)"
proof -
  obtain x r st' where p: "(parseEth :: eth_header dparser) (BeReader frame, st) = (x, r, st')" by (metis prod.collapse)
  have "st' = st" using rides_eth [of "\<lambda>s. s = st"] p unfolding keeps_def by (metis snd_conv)
  moreover have "x = eth_of frame"
    using blind_headers(1) p unfolding blind_def eth_of_def by (metis fst_conv)
  ultimately show ?thesis using p by blast
qed

lemma inner_walk:
  assumes "eth_of frame = Inr eth"
  shows "\<exists>r. decodeInner (BeReader frame, \<lparr>ds_out = None, ds_layers = Some []\<rparr>) =
    walk eth (r, \<lparr>ds_out = None, ds_layers = Some [eth_layer (ethFields eth)]\<rparr>)"
proof -
  obtain r where "(parseEth :: eth_header dparser) (BeReader frame, \<lparr>ds_out = None, ds_layers = Some [eth_layer []]\<rparr>) =
      (Inr eth, r, \<lparr>ds_out = None, ds_layers = Some [eth_layer []]\<rparr>)"
    using eth_state [of frame "\<lparr>ds_out = None, ds_layers = Some [eth_layer []]\<rparr>"] assms by auto
  then show ?thesis
    unfolding decodeInner_def walk_def [symmetric]
    by (auto simp: andthen_def push_layer_def add_fields_def on_layers_def modify_def eth_layer_def map_last_def)
qed

lemma inner_short:
  assumes "eth_of frame = Inl e"
  shows "\<exists>r. decodeInner (BeReader frame, \<lparr>ds_out = None, ds_layers = Some []\<rparr>) =
    (Inl e, r, \<lparr>ds_out = None, ds_layers = Some [eth_layer []]\<rparr>)"
proof -
  obtain r where "(parseEth :: eth_header dparser) (BeReader frame, \<lparr>ds_out = None, ds_layers = Some [eth_layer []]\<rparr>) =
      (Inl e, r, \<lparr>ds_out = None, ds_layers = Some [eth_layer []]\<rparr>)"
    using eth_state [of frame "\<lparr>ds_out = None, ds_layers = Some [eth_layer []]\<rparr>"] assms by auto
  then show ?thesis
    unfolding decodeInner_def
    by (auto simp: andthen_def push_layer_def on_layers_def modify_def eth_layer_def)
qed

text \<open>The layers shown: the header, the layers of the walk, and one error layer when the walk threw.\<close>

definition error_layer :: "string \<Rightarrow> layer" where
  "error_layer w = \<lparr>ly_service = ''decode_error'', ly_fields = [(''message'', w)]\<rparr>"

lemma inspected:
  obtains (shown) ls where "inspectPacket frame = Some ls" "no_error ls"
      "fst (decodeInner (BeReader frame, \<lparr>ds_out = None, ds_layers = Some []\<rparr>)) = Inr ()"
  | (thrown) ls w where "inspectPacket frame = Some (ls @ [error_layer w])" "no_error ls"
      "fst (decodeInner (BeReader frame, \<lparr>ds_out = None, ds_layers = Some []\<rparr>)) = Inl (ShortFrame w)"
proof -
  obtain res r st where run: "decodeInner (BeReader frame, \<lparr>ds_out = None, ds_layers = Some []\<rparr>) = (res, (r, st))"
    by (metis prod.collapse)
  have "clean \<lparr>ds_out = None, ds_layers = Some []\<rparr>" by (simp add: clean_def no_error_def)
  then have "clean st" using clean_inner run unfolding keeps_def by (metis snd_conv)
  then obtain ls where ls: "ds_layers st = Some ls" "no_error ls" by (auto simp: clean_def)
  show thesis
  proof (cases res)
    case (Inl e)
    obtain w where "e = ShortFrame w" using decodeInner_errors [of frame] run Inl by (metis fst_conv)
    then show thesis using thrown [of ls w] Inl run ls by (simp add: inspectPacket_def error_layer_def)
  next
    case (Inr u)
    then show thesis using shown [of ls] run ls by (simp add: inspectPacket_def)
  qed
qed

lemma first_layer:
  assumes "inspectPacket frame = Some ls"
  shows "ls \<noteq> [] \<and> hd ls = eth_layer (case eth_of frame of Inl _ \<Rightarrow> [] | Inr h \<Rightarrow> ethFields h)"
proof (cases "eth_of frame")
  case (Inl e)
  from inner_short [OF this] assms Inl show ?thesis
    by (auto simp: inspectPacket_def split: exn.splits)
next
  case (Inr eth)
  let ?s = "\<lparr>ds_out = None, ds_layers = Some [eth_layer (ethFields eth)]\<rparr>"
  obtain r where r: "decodeInner (BeReader frame, \<lparr>ds_out = None, ds_layers = Some []\<rparr>) = walk eth (r, ?s)"
    using inner_walk [OF Inr] by blast
  obtain res r1 st where run: "walk eth (r, ?s) = (res, (r1, st))" by (metis prod.collapse)
  have "tops 0 (eth_layer (ethFields eth)) ?s" by (simp add: tops_def)
  then have "tops 0 (eth_layer (ethFields eth)) st"
    using tops_walk [of "eth_layer (ethFields eth)" eth] run unfolding keeps_def by (metis snd_conv)
  then show ?thesis
    using assms r run Inr by (auto simp: inspectPacket_def tops_def hd_append split: sum.splits exn.splits)
qed

text \<open>The inspector and the decoder say the same of a frame.\<close>

lemma inspector_agrees:
  assumes "inspectPacket frame = Some ls" and "decodePacket frame out = Some dp"
  shows "dp_ok dp \<and> no_error ls \<or>
    \<not> dp_ok dp \<and> (last ls = error_layer (dp_error dp) \<and> no_error (butlast ls) \<or> ShortFrame (dp_error dp) = runaway \<and> no_error ls)"
proof -
  let ?D = "\<lparr>ds_out = Some out, ds_layers = None\<rparr>" and ?I = "\<lparr>ds_out = None, ds_layers = Some []\<rparr>"
  obtain res r st where run: "decodeInner (BeReader frame, ?D) = (res, (r, st))" by (metis prod.collapse)
  have dec: "dp_ok dp \<and> res = Inr () \<or> \<not> dp_ok dp \<and> res = Inl (ShortFrame (dp_error dp))"
    using assms(2) run by (auto simp: decodePacket_def split: option.splits sum.splits exn.splits)
  have "rd_ok (BeReader frame, ())" "sinks True False ?D" "sinks False True ?I"
    by (simp_all add: rd_ok_def BeReader_def sinks_def assembling_def inspecting_def)
  with agree_inner have eq: "case fst (decodeInner (BeReader frame, ?I)) of Inl e \<Rightarrow> fst (decodeInner (BeReader frame, ?D)) = Inl e
      | Inr _ \<Rightarrow> (\<exists>x. fst (decodeInner (BeReader frame, ?D)) = Inr x) \<or> fst (decodeInner (BeReader frame, ?D)) = Inl runaway"
    unfolding agree_def by blast
  show ?thesis
  proof (cases rule: inspected [of frame])
    case (shown ls')
    then show ?thesis using eq assms(1) dec run by auto
  next
    case (thrown ls' w)
    then show ?thesis using eq assms(1) dec run by auto
  qed
qed

end
