(* ===== verification/Pcap_Reader.thy ===== *)
theory Pcap_Reader
  imports Bytes "HOL-Library.Monad_Syntax"
begin

text \<open>
  \<open>backend/src/pcapio/pcap_reader.cpp\<close>: the readers of classic pcap and pcapng files and
  the merge of several captures into one.  File contents are byte lists and the file
  system is a parameter.  The host is little-endian, as \<open>memcpy\<close> into an integer assumes.
  A read outside the loaded file is undefined behaviour in C++ and the outcome \<open>UB\<close>; a
  \<open>while\<close> loop over the blocks that never ends is the outcome \<open>Diverges\<close>, reached when
  the fuel, one more than the bytes of the file, is spent.  The lemmas show where the
  packets lie, that writing and reading back a classic file is the identity, that merging
  sorts, and exactly when the pcapng reader does not return.
\<close>

section \<open>Outcomes\<close>

datatype 'a outcome = Ok 'a | Err string | UB | Diverges

primrec on_ok :: "('a \<Rightarrow> 'b outcome) \<Rightarrow> 'a outcome \<Rightarrow> 'b outcome" where
  "on_ok f (Ok x) = f x"
| "on_ok f (Err e) = Err e"
| "on_ok f UB = UB"
| "on_ok f Diverges = Diverges"

lemma on_ok_eq_Ok: "on_ok f r = Ok y \<longleftrightarrow> (\<exists>x. r = Ok x \<and> f x = Ok y)"
  by (cases r) simp_all

section \<open>Link types\<close>

definition kMagicUs :: u32 where "kMagicUs = 0xa1b2c3d4"
definition kMagicUsSwap :: u32 where "kMagicUsSwap = 0xd4c3b2a1"
definition kMagicNs :: u32 where "kMagicNs = 0xa1b23c4d"
definition kMagicNsSwap :: u32 where "kMagicNsSwap = 0x4d3cb2a1"
definition kMagicNg :: u32 where "kMagicNg = 0x0a0d0d0a"
definition kLinkEthernet :: u16 where "kLinkEthernet = 1"
definition kLinkEthernetMPacket :: u16 where "kLinkEthernetMPacket = 274"

definition usableLinkType :: "u16 \<Rightarrow> bool" where
  "usableLinkType lt \<longleftrightarrow> lt = kLinkEthernet \<or> lt = kLinkEthernetMPacket"

definition linkTypeName :: "u16 \<Rightarrow> string" where
  "linkTypeName lt =
     (if lt = 0 then ''NULL/loopback (0)''
      else if lt = 1 then ''Ethernet (1)''
      else if lt = 101 then ''raw IP (101)''
      else if lt = 105 then ''IEEE 802.11 (105)''
      else if lt = 113 then cat [''Linux cooked/SLL (113, the '', [CHR 0x22], ''any'', [CHR 0x22], '' pseudo-interface)'']
      else if lt = 127 then ''802.11 Radiotap (127)''
      else if lt = 274 then ''802.3br mPacket (274)''
      else if lt = 276 then cat [''Linux cooked v2/SLL2 (276, the '', [CHR 0x22], ''any'', [CHR 0x22], '' pseudo-interface)'']
      else cat [''link type '', u_str lt])"

definition kEthernetHint :: string where
  "kEthernetHint = cat [''; v1 decodes Ethernet captures only'', emdash,
     ''capture directly on the wired interface (e.g. tcpdump -i eth0), not on '', [CHR 0x22], ''any'', [CHR 0x22]]"

section \<open>Packets\<close>

record pcap_packet =
  pk_tsNanos :: u64
  pk_caplen :: u32
  pk_origlen :: u32
  pk_offset :: nat

text \<open>The captured bytes of a packet, \<open>None\<close> when they are not all in the file.\<close>

definition in_file :: "byte list \<Rightarrow> pcap_packet \<Rightarrow> bool" where
  "in_file d p \<longleftrightarrow> pk_offset p + unat (pk_caplen p) \<le> length d"

definition packetData :: "byte list \<Rightarrow> pcap_packet \<Rightarrow> byte list option" where
  "packetData d p = (if in_file d p then Some (take (unat (pk_caplen p)) (drop (pk_offset p) d)) else None)"

text \<open>
  \<open>stripMPacketPreamble\<close>: skip the preamble up to the start delimiter of an express
  frame; anything else is left alone.
\<close>

primrec strip_scan :: "byte list \<Rightarrow> pcap_packet \<Rightarrow> nat list \<Rightarrow> pcap_packet outcome" where
  "strip_scan d p [] = Ok p"
| "strip_scan d p (i # is) =
     (if length d \<le> pk_offset p + i then UB
      else if d ! (pk_offset p + i) = 0xD5 then
        Ok (p\<lparr>pk_offset := pk_offset p + (i + 1), pk_caplen := pk_caplen p - of_nat (i + 1),
              pk_origlen := (if i < unat (pk_origlen p) then pk_origlen p - of_nat (i + 1) else pk_origlen p)\<rparr>)
      else if d ! (pk_offset p + i) \<noteq> 0x55 then Ok p
      else strip_scan d p is)"

definition stripMPacketPreamble :: "byte list \<Rightarrow> pcap_packet \<Rightarrow> pcap_packet outcome" where
  "stripMPacketPreamble d p = strip_scan d p [0..<min (unat (pk_caplen p)) 16]"

definition on_link :: "u16 \<Rightarrow> byte list \<Rightarrow> pcap_packet \<Rightarrow> pcap_packet outcome" where
  "on_link linktype d p = (if linktype = kLinkEthernetMPacket then stripMPacketPreamble d p else Ok p)"

section \<open>The cursor\<close>

text \<open>A read gives the value and the position after it, \<open>None\<close> where the file ends first.\<close>

definition native :: "nat \<Rightarrow> byte list \<Rightarrow> nat \<Rightarrow> 'a::len word" where
  "native n d pos = be_word (rev (take n (drop pos d)))"

definition swapped :: "nat \<Rightarrow> byte list \<Rightarrow> nat \<Rightarrow> 'a::len word" where
  "swapped n d pos = be_word (take n (drop pos d))"

definition c_u16 :: "byte list \<Rightarrow> bool \<Rightarrow> nat \<Rightarrow> (u16 \<times> nat) option" where
  "c_u16 d swap pos =
     (if pos + 2 \<le> length d then Some (if swap then swapped 2 d pos else native 2 d pos, pos + 2) else None)"

definition c_u32 :: "byte list \<Rightarrow> bool \<Rightarrow> nat \<Rightarrow> (u32 \<times> nat) option" where
  "c_u32 d swap pos =
     (if pos + 4 \<le> length d then Some (if swap then swapped 4 d pos else native 4 d pos, pos + 4) else None)"

text \<open>\<open>skip\<close> stays where it is when the bytes are not there.\<close>

definition c_skip :: "byte list \<Rightarrow> nat \<Rightarrow> nat \<Rightarrow> nat" where
  "c_skip d n pos = (if pos + n \<le> length d then pos + n else pos)"

section \<open>Classic pcap\<close>

definition classic_header :: "byte list \<Rightarrow> bool \<Rightarrow> (u32 \<times> nat) option" where
  "classic_header d swap = do {
     (verMaj, p) \<leftarrow> c_u16 d swap 4;
     (verMin, p) \<leftarrow> c_u16 d swap p;
     (thiszone, p) \<leftarrow> c_u32 d swap p;
     (sigfigs, p) \<leftarrow> c_u32 d swap p;
     (snaplen, p) \<leftarrow> c_u32 d swap p;
     c_u32 d swap p }"

definition record_header :: "byte list \<Rightarrow> bool \<Rightarrow> nat \<Rightarrow> (u32 \<times> u32 \<times> u32 \<times> u32 \<times> nat) option" where
  "record_header d swap pos = do {
     (tsSec, p) \<leftarrow> c_u32 d swap pos;
     (tsFrac, p) \<leftarrow> c_u32 d swap p;
     (caplen, p) \<leftarrow> c_u32 d swap p;
     (origlen, p) \<leftarrow> c_u32 d swap p;
     Some (tsSec, tsFrac, caplen, origlen, p) }"

lemma record_header_pos: "record_header d swap pos = Some (a, b, c, l, p) \<Longrightarrow> p = pos + 16"
  by (auto simp: record_header_def c_u32_def split: if_splits)

function classic_records ::
    "byte list \<Rightarrow> bool \<Rightarrow> bool \<Rightarrow> u16 \<Rightarrow> nat \<Rightarrow> pcap_packet list \<Rightarrow> pcap_packet list outcome" where
  "classic_records d swap nanos linktype pos acc =
     (if pos + 16 \<le> length d then
        (case record_header d swap pos of
           None \<Rightarrow> Ok acc
         | Some (tsSec, tsFrac, caplen, origlen, p) \<Rightarrow>
             if p + unat caplen \<le> length d then
               (case on_link linktype d
                  \<lparr>pk_tsNanos = ucast tsSec * 1000000000 + (if nanos then ucast tsFrac else ucast tsFrac * 1000),
                   pk_caplen = caplen, pk_origlen = origlen, pk_offset = p\<rparr> of
                  Ok pkt \<Rightarrow> classic_records d swap nanos linktype (p + unat caplen) (acc @ [pkt])
                | Err e \<Rightarrow> Err e | UB \<Rightarrow> UB | Diverges \<Rightarrow> Diverges)
             else Err (cat [''truncated packet record #'', nat_str (length acc + 1)]))
      else Ok acc)"
  by pat_completeness auto

termination
  by (relation "measure (\<lambda>(d, swap, nanos, linktype, pos, acc). length d - pos)")
    (auto dest!: record_header_pos)

declare classic_records.simps [simp del]

definition parseClassic :: "byte list \<Rightarrow> pcap_packet list outcome" where
  "parseClassic d =
     (let magic = native 4 d 0 :: u32;
          swap = (magic = kMagicUsSwap \<or> magic = kMagicNsSwap);
          nanos = (magic = kMagicNs \<or> magic = kMagicNsSwap)
      in case classic_header d swap of
           None \<Rightarrow> Err ''truncated pcap global header''
         | Some (network, pos) \<Rightarrow>
             let linktype = ucast network :: u16
             in if \<not> usableLinkType linktype then
                  Err (cat [''capture is '', linkTypeName linktype, kEthernetHint])
                else on_ok (\<lambda>ps. if ps = [] then Err ''pcap contains no packets'' else Ok ps)
                  (classic_records d swap nanos linktype pos []))"

section \<open>pcapng\<close>

text \<open>
  The state of the block loop.  The two per-interface vectors are kept apart, as in the
  code: nanoseconds per tick and link type.
\<close>

record ng =
  ng_pos :: nat
  ng_swap :: bool
  ifaceNsPerTick :: "u64 list"
  ifaceLink :: "u16 list"
  sawEthernet :: bool
  ng_packets :: "pcap_packet list"

definition Ng_init :: ng where
  "Ng_init = \<lparr>ng_pos = 0, ng_swap = False, ifaceNsPerTick = [], ifaceLink = [], sawEthernet = False,
     ng_packets = []\<rparr>"

text \<open>A round of the block loop goes on, breaks out of it, or ends the parse.\<close>

datatype ng_round = Next ng | Break ng | Fails string | Undefined

text \<open>\<open>if_tsresol\<close>: the nanoseconds of one tick.\<close>

definition ns_per_tick :: "u8 \<Rightarrow> u64" where
  "ns_per_tick r =
     (let ticksPerSec = (if r AND 0x80 \<noteq> 0
            then (let p = unat (r AND 0x7f) in if p < 63 then push_bit p 1 else push_bit 62 1)
            else 10 ^ min (unat r) 18) :: u64;
          ns = (if ticksPerSec \<noteq> 0 then 1000000000 div ticksPerSec else 1)
      in if ns = 0 then 1 else ns)"

text \<open>\<open>(len + 3u) & ~3u\<close>.\<close>

definition pad4 :: "u16 \<Rightarrow> nat" where
  "pad4 len = unat ((ucast len + 3 :: u32) AND NOT 3)"

function ng_options :: "byte list \<Rightarrow> bool \<Rightarrow> nat \<Rightarrow> nat \<Rightarrow> u64 \<Rightarrow> u64 option" where
  "ng_options d swap optEnd pos nsPerTick =
     (if pos + 4 \<le> optEnd then
        (case c_u16 d swap pos of None \<Rightarrow> Some nsPerTick
         | Some (code, p1) \<Rightarrow>
           (case c_u16 d swap p1 of None \<Rightarrow> Some nsPerTick
            | Some (len, p2) \<Rightarrow>
              if code = 0 then Some nsPerTick
              else if code = 9 \<and> 1 \<le> len then
                (if p2 < length d
                 then ng_options d swap optEnd (c_skip d (pad4 len) p2) (ns_per_tick (d ! p2))
                 else None)
              else ng_options d swap optEnd (c_skip d (pad4 len) p2) nsPerTick))
      else Some nsPerTick)"
  by pat_completeness auto

termination
  by (relation "measure (\<lambda>(d, swap, optEnd, pos, ns). optEnd - pos)")
    (auto simp: c_u16_def c_skip_def split: if_splits)

declare ng_options.simps [simp del]

text \<open>The section header: the byte order comes from its magic, the interfaces start anew.\<close>

definition ng_shb :: "byte list \<Rightarrow> nat \<Rightarrow> nat \<Rightarrow> ng \<Rightarrow> ng_round" where
  "ng_shb d blockStart pos st =
     (if length d < pos + 8 then Undefined
      else let bom = native 4 d (pos + 4) :: u32; swap = (bom = 0x4d3c2b1a)
        in if \<not> swap \<and> bom \<noteq> 0x1a2b3c4d then Fails ''pcapng: bad byte-order magic''
           else case c_u32 d swap (blockStart + 4) of
               None \<Rightarrow> Break (st\<lparr>ng_swap := swap\<rparr>)
             | Some (blockLen, _) \<Rightarrow>
                 Next (st\<lparr>ng_pos := blockStart + unat blockLen, ng_swap := swap,
                         ifaceNsPerTick := [], ifaceLink := []\<rparr>))"

definition ng_idb :: "byte list \<Rightarrow> nat \<Rightarrow> u32 \<Rightarrow> nat \<Rightarrow> ng \<Rightarrow> ng_round" where
  "ng_idb d blockStart blockLen pos st =
     (let sw = ng_swap st
      in case do { (linktype, p) \<leftarrow> c_u16 d sw pos; (rsv, p) \<leftarrow> c_u16 d sw p;
                   (snaplen, p) \<leftarrow> c_u32 d sw p; Some (linktype, p) } of
           None \<Rightarrow> Fails ''pcapng: truncated IDB''
         | Some (linktype, p) \<Rightarrow>
             (case ng_options d sw (blockStart + unat blockLen - 4) p 1000 of
                None \<Rightarrow> Undefined
              | Some ns \<Rightarrow>
                  Next (st\<lparr>ng_pos := blockStart + unat blockLen,
                    ifaceNsPerTick := ifaceNsPerTick st @ [ns], ifaceLink := ifaceLink st @ [linktype],
                    sawEthernet := sawEthernet st \<or> usableLinkType linktype\<rparr>)))"

definition ng_push :: "nat \<Rightarrow> u32 \<Rightarrow> ng \<Rightarrow> pcap_packet outcome \<Rightarrow> ng_round" where
  "ng_push blockStart blockLen st r =
     (case r of
        Ok p \<Rightarrow> Next (st\<lparr>ng_pos := blockStart + unat blockLen, ng_packets := ng_packets st @ [p]\<rparr>)
      | Err e \<Rightarrow> Fails e | UB \<Rightarrow> Undefined | Diverges \<Rightarrow> Undefined)"

definition epb_header :: "byte list \<Rightarrow> bool \<Rightarrow> nat \<Rightarrow> (u32 \<times> u32 \<times> u32 \<times> u32 \<times> u32 \<times> nat) option" where
  "epb_header d sw pos = do {
     (ifaceId, p) \<leftarrow> c_u32 d sw pos;
     (tsHi, p) \<leftarrow> c_u32 d sw p;
     (tsLo, p) \<leftarrow> c_u32 d sw p;
     (caplen, p) \<leftarrow> c_u32 d sw p;
     (origlen, p) \<leftarrow> c_u32 d sw p;
     Some (ifaceId, tsHi, tsLo, caplen, origlen, p) }"

definition ng_epb :: "byte list \<Rightarrow> nat \<Rightarrow> u32 \<Rightarrow> nat \<Rightarrow> ng \<Rightarrow> ng_round" where
  "ng_epb d blockStart blockLen pos st =
     (case epb_header d (ng_swap st) pos of
           None \<Rightarrow> Fails ''pcapng: truncated EPB''
         | Some (ifaceId, tsHi, tsLo, caplen, origlen, p) \<Rightarrow>
             let i = unat ifaceId
             in if i < length (ifaceLink st) \<and> usableLinkType (ifaceLink st ! i) then
                  (if length d < p + unat caplen then Fails ''pcapng: truncated packet data''
                   else ng_push blockStart blockLen st (on_link (ifaceLink st ! i) d
                     \<lparr>pk_tsNanos = (push_bit 32 (ucast tsHi) OR ucast tsLo) * (ifaceNsPerTick st ! i),
                      pk_caplen = caplen, pk_origlen = origlen, pk_offset = p\<rparr>))
                else Next (st\<lparr>ng_pos := blockStart + unat blockLen\<rparr>))"

text \<open>The simple packet block has no time of its own and no length check of its own.\<close>

definition ng_spb :: "byte list \<Rightarrow> nat \<Rightarrow> u32 \<Rightarrow> nat \<Rightarrow> ng \<Rightarrow> ng_round" where
  "ng_spb d blockStart blockLen pos st =
     (case c_u32 d (ng_swap st) pos of
        None \<Rightarrow> Fails ''pcapng: truncated SPB''
      | Some (origlen, p) \<Rightarrow>
          if ifaceLink st \<noteq> [] \<and> usableLinkType (hd (ifaceLink st)) then
            ng_push blockStart blockLen st (on_link (hd (ifaceLink st)) d
              \<lparr>pk_tsNanos = (if ng_packets st = [] then 0 else pk_tsNanos (last (ng_packets st))),
               pk_caplen = blockLen - 16, pk_origlen = origlen, pk_offset = p\<rparr>)
          else Next (st\<lparr>ng_pos := blockStart + unat blockLen\<rparr>))"

text \<open>The blocks other than the section header, by type.\<close>

definition ng_body :: "byte list \<Rightarrow> nat \<Rightarrow> u32 \<Rightarrow> u32 \<Rightarrow> nat \<Rightarrow> ng \<Rightarrow> ng_round" where
  "ng_body d blockStart blockType blockLen pos st =
     (if blockType = 1 then ng_idb d blockStart blockLen pos st
      else if blockType = 6 then ng_epb d blockStart blockLen pos st
      else if blockType = 3 then ng_spb d blockStart blockLen pos st
      else Next (st\<lparr>ng_pos := blockStart + unat blockLen\<rparr>))"

definition ng_block :: "byte list \<Rightarrow> ng \<Rightarrow> ng_round" where
  "ng_block d st =
     (let blockStart = ng_pos st
      in if length d < blockStart + 12 then Break st
         else case c_u32 d (ng_swap st) blockStart of
             None \<Rightarrow> Break st
           | Some (blockType, pos) \<Rightarrow>
               if blockType = kMagicNg then ng_shb d blockStart pos st
               else case c_u32 d (ng_swap st) pos of
                   None \<Rightarrow> Fails ''pcapng: truncated block''
                 | Some (blockLen, pos) \<Rightarrow>
                     if blockLen < 12 \<or> length d < blockStart + unat blockLen
                     then Fails ''pcapng: truncated block''
                     else ng_body d blockStart blockType blockLen pos st)"

primrec ng_loop :: "nat \<Rightarrow> byte list \<Rightarrow> ng \<Rightarrow> ng outcome" where
  "ng_loop 0 d st = Diverges"
| "ng_loop (Suc fuel) d st =
     (case ng_block d st of
        Next st' \<Rightarrow> ng_loop fuel d st' | Break st' \<Rightarrow> Ok st' | Fails e \<Rightarrow> Err e | Undefined \<Rightarrow> UB)"

definition ng_found :: "u16 list \<Rightarrow> string" where
  "ng_found ls = (if ls = [] then '' (no interface description blocks at all)''
     else cat ['' (found: '', cat (map (\<lambda>i. (if i \<noteq> 0 then '', '' else '''') @ linkTypeName (ls ! i)) [0..<length ls]), '')''])"

definition parseNg :: "byte list \<Rightarrow> pcap_packet list outcome" where
  "parseNg d = on_ok (\<lambda>st.
     if \<not> sawEthernet st then
       Err (cat [''pcapng: no Ethernet interface in the capture'', ng_found (ifaceLink st), kEthernetHint])
     else if ng_packets st = [] then Err ''pcapng contains no packets''
     else Ok (ng_packets st)) (ng_loop (Suc (length d)) d Ng_init)"

section \<open>Opening a file\<close>

record pcap_file =
  mData :: "byte list"
  mPackets :: "pcap_packet list"

text \<open>The file system gives the content of the files that can be opened.\<close>

definition pcap_open :: "(string \<Rightarrow> byte list option) \<Rightarrow> string \<Rightarrow> pcap_file outcome" where
  "pcap_open fs path =
     (case fs path of
        None \<Rightarrow> Err (cat [''cannot open file: '', path])
      | Some d \<Rightarrow>
          if length d < 4 then Err ''file too small to be a capture''
          else let magic = native 4 d 0 :: u32
            in on_ok (\<lambda>ps. Ok \<lparr>mData = d, mPackets = ps\<rparr>)
              (if magic = kMagicNg then parseNg d
               else if magic = kMagicUs \<or> magic = kMagicUsSwap \<or> magic = kMagicNs \<or> magic = kMagicNsSwap
               then parseClassic d
               else Err ''not a pcap or pcapng file (bad magic)''))"

text \<open>The subtraction wraps before the conversion to \<open>double\<close>.\<close>

definition relTs :: "pcap_file \<Rightarrow> nat \<Rightarrow> double" where
  "relTs f i = (if mPackets f = [] then 0
     else real (unat (pk_tsNanos (mPackets f ! i) - pk_tsNanos (hd (mPackets f)))) / 10 ^ 9)"

definition duration :: "pcap_file \<Rightarrow> double" where
  "duration f = (if mPackets f = [] then 0 else relTs f (length (mPackets f) - 1))"

section \<open>Where the packets are\<close>

lemma strip_scan_in_file:
  assumes "strip_scan d p is = Ok q" and "in_file d p" and "\<forall>i \<in> set is. i < unat (pk_caplen p)"
  shows "in_file d q"
  using assms
proof (induction "is")
  case (Cons i "is")
  have i: "i + 1 \<le> unat (pk_caplen p)" using Cons.prems(3) by simp
  then have "i + 1 < 2 ^ 32" using unsigned_less [of "pk_caplen p", where 'a = nat] by simp
  then have "unat (of_nat (i + 1) :: u32) = i + 1"
    by (subst unat_of_nat) (simp add: take_bit_nat_eq_self)
  then have "unat (pk_caplen p - of_nat (i + 1)) = unat (pk_caplen p) - (i + 1)"
    using i by (subst unat_sub) (simp_all add: word_le_nat_alt del: of_nat_add of_nat_Suc)
  with Cons show ?case by (auto simp: in_file_def simp del: of_nat_add of_nat_Suc split: if_splits)
qed simp

lemma on_link_in_file: "on_link lt d p = Ok q \<Longrightarrow> in_file d p \<Longrightarrow> in_file d q"
  unfolding on_link_def stripMPacketPreamble_def
  by (auto split: if_splits elim!: strip_scan_in_file)

lemma classic_records_in_file:
  "classic_records d swap nanos lt pos acc = Ok ps \<Longrightarrow> \<forall>p \<in> set acc. in_file d p \<Longrightarrow> \<forall>p \<in> set ps. in_file d p"
proof (induction d swap nanos lt pos acc rule: classic_records.induct)
  case (1 d swap nanos lt pos acc)
  show ?case
  proof (cases "pos + 16 \<le> length d")
    case False
    with "1.prems" show ?thesis by (simp add: classic_records.simps [of d])
  next
    case True
    show ?thesis
    proof (cases "record_header d swap pos")
      case None
      with True "1.prems" show ?thesis by (simp add: classic_records.simps [of d])
    next
      case (Some h)
      obtain tsSec tsFrac caplen origlen p where h: "h = (tsSec, tsFrac, caplen, origlen, p)" by (metis prod.collapse)
      let ?p = "\<lparr>pk_tsNanos = ucast tsSec * 1000000000 + (if nanos then ucast tsFrac else ucast tsFrac * 1000),
          pk_caplen = caplen, pk_origlen = origlen, pk_offset = p\<rparr>"
      show ?thesis
      proof (cases "p + unat caplen \<le> length d")
        case False
        with True Some h "1.prems" show ?thesis by (simp add: classic_records.simps [of d])
      next
        case fits: True
        then have "in_file d ?p" by (simp add: in_file_def)
        then have link: "on_link lt d ?p = Ok q \<Longrightarrow> in_file d q" for q by (rule on_link_in_file [rotated])
        show ?thesis
        proof (cases "on_link lt d ?p")
          case (Ok q)
          with True Some h fits "1.prems"(1)
          have "classic_records d swap nanos lt (p + unat caplen) (acc @ [q]) = Ok ps"
            by (simp add: classic_records.simps [of d])
          from "1.IH" [OF True Some [unfolded h] refl refl refl refl fits Ok this] link [OF Ok] "1.prems"(2)
          show ?thesis by simp
        qed (use True Some h fits "1.prems" in \<open>simp_all add: classic_records.simps [of d]\<close>)
      qed
    qed
  qed
qed

lemma parseClassic_in_file: "parseClassic d = Ok ps \<Longrightarrow> p \<in> set ps \<Longrightarrow> in_file d p"
  unfolding parseClassic_def Let_def
  by (auto simp: on_ok_eq_Ok split: option.splits if_splits dest!: classic_records_in_file)

section \<open>Merging captures\<close>

definition le_bytes :: "nat \<Rightarrow> 'a::len word \<Rightarrow> byte list" where
  "le_bytes n v = rev (be_bytes n v)"

definition w32 :: "u32 \<Rightarrow> byte list" where "w32 v = le_bytes 4 v"
definition w16 :: "u16 \<Rightarrow> byte list" where "w16 v = le_bytes 2 v"

definition fileLabel :: "string list \<Rightarrow> string list \<Rightarrow> nat \<Rightarrow> string" where
  "fileLabel names sources i =
     (if i < length names \<and> names ! i \<noteq> [] then names ! i
      else rev (takeWhile (\<lambda>c. c \<noteq> CHR ''/'') (rev (sources ! i))))"

definition relabel :: "string \<Rightarrow> 'a outcome \<Rightarrow> 'a outcome" where
  "relabel l r = (case r of Err e \<Rightarrow> Err (cat [[CHR 0x27], l, [CHR 0x27], '': '', e]) | r \<Rightarrow> r)"

primrec open_all :: "(string \<Rightarrow> byte list option) \<Rightarrow> string list \<Rightarrow> string list \<Rightarrow> nat list \<Rightarrow> pcap_file list outcome" where
  "open_all fs names sources [] = Ok []"
| "open_all fs names sources (i # is) =
     on_ok (\<lambda>f. on_ok (\<lambda>rest. Ok (f # rest)) (open_all fs names sources is))
       (relabel (fileLabel names sources i) (pcap_open fs (sources ! i)))"

record ref =
  rf_ts :: u64
  rf_file :: nat
  rf_pkt :: nat

definition merge_refs :: "pcap_file list \<Rightarrow> ref list" where
  "merge_refs files =
     concat (map (\<lambda>fi. map (\<lambda>pi. \<lparr>rf_ts = pk_tsNanos (mPackets (files ! fi) ! pi), rf_file = fi, rf_pkt = pi\<rparr>)
       [0..<length (mPackets (files ! fi))]) [0..<length files])"

definition ref_packet :: "pcap_file list \<Rightarrow> ref \<Rightarrow> pcap_packet" where
  "ref_packet files r = mPackets (files ! rf_file r) ! rf_pkt r"

definition global_header :: "byte list" where
  "global_header = w32 kMagicNs @ w16 2 @ w16 4 @ w32 0 @ w32 0 @ w32 262144 @ w32 (ucast kLinkEthernet)"

text \<open>One packet record; reading the captured bytes may leave the source file's buffer.\<close>

definition merged_record :: "pcap_file list \<Rightarrow> ref \<Rightarrow> byte list option" where
  "merged_record files r =
     (let p = ref_packet files r
      in map_option (\<lambda>bs. w32 (ucast (pk_tsNanos p div 1000000000)) @ w32 (ucast (pk_tsNanos p mod 1000000000)) @
           w32 (pk_caplen p) @ w32 (max (pk_origlen p) (pk_caplen p)) @ bs)
         (packetData (mData (files ! rf_file r)) p))"

text \<open>What the file system does with a file to be written.\<close>

datatype disk = CannotOpen | WriteFails | Writes

record merge_result =
  mg_file :: "byte list"
  mg_srcMap :: "byte list option"
  mg_firstTsNanos :: u64
  mg_lastTsNanos :: u64
  mg_packets :: nat
  mg_sources :: nat

definition written :: "disk \<Rightarrow> string \<Rightarrow> string \<Rightarrow> string \<Rightarrow> 'a outcome \<Rightarrow> 'a outcome" where
  "written dk cannot failed path r =
     (case dk of CannotOpen \<Rightarrow> Err (cat [cannot, path])
      | WriteFails \<Rightarrow> Err (cat [failed, path]) | Writes \<Rightarrow> r)"

text \<open>The sorted references written to the merged file and, when asked for, the source map.\<close>

definition merge_write ::
    "(string \<Rightarrow> disk) \<Rightarrow> string \<Rightarrow> string \<Rightarrow> nat \<Rightarrow> pcap_file list \<Rightarrow> merge_result outcome" where
  "merge_write disk outPath srcMapPath nsources files =
     (let refs = sort_key rf_ts (merge_refs files)
      in case those (map (merged_record files) refs) of
           None \<Rightarrow> if disk outPath = CannotOpen then Err (cat [''cannot write merged capture: '', outPath]) else UB
         | Some recs \<Rightarrow>
             written (disk outPath) ''cannot write merged capture: '' ''failed writing merged capture: '' outPath
               (let res = \<lparr>mg_file = global_header @ concat recs,
                   mg_srcMap = (if srcMapPath = [] then None
                      else Some (concat (map (\<lambda>r. w16 (of_nat (rf_file r))) refs))),
                   mg_firstTsNanos = rf_ts (hd refs), mg_lastTsNanos = rf_ts (last refs),
                   mg_packets = length refs, mg_sources = nsources\<rparr>
                in if srcMapPath = [] then Ok res
                   else written (disk srcMapPath) ''cannot write source map: '' ''failed writing source map: ''
                     srcMapPath (Ok res)))"

definition mergePcaps ::
    "(string \<Rightarrow> byte list option) \<Rightarrow> (string \<Rightarrow> disk) \<Rightarrow> string list \<Rightarrow> string list \<Rightarrow> string \<Rightarrow> string \<Rightarrow>
     merge_result outcome" where
  "mergePcaps fs disk sources names outPath srcMapPath =
     (if sources = [] then Err ''no source captures to combine''
      else on_ok (merge_write disk outPath srcMapPath (length sources))
        (open_all fs names sources [0..<length sources]))"

section \<open>Writing and reading back\<close>

lemma length_w [simp]: "length (w32 v) = 4" "length (w16 v') = 2"
  by (simp_all add: w32_def w16_def le_bytes_def)

lemma native_w32: "native 4 (pre @ w32 v @ rest) (length pre) = v"
  by (simp add: native_def w32_def le_bytes_def)

lemma read_w32: "length pre = n \<Longrightarrow> c_u32 (pre @ w32 v @ rest) False n = Some (v, n + 4)"
  using native_w32 [of pre v rest] by (auto simp: c_u32_def)

lemma read_w16: "length pre = n \<Longrightarrow> c_u16 (pre @ w16 v @ rest) False n = Some (v, n + 2)"
  by (auto simp: c_u16_def native_def w16_def le_bytes_def)

lemma record_header_written:
  "record_header (pre @ w32 a @ w32 b @ w32 c @ w32 l @ rest) False (length pre) =
     Some (a, b, c, l, length pre + 16)"
  using read_w32 [of pre "length pre" a] read_w32 [of "pre @ w32 a" "length pre + 4" b]
    read_w32 [of "pre @ w32 a @ w32 b" "8 + length pre" c]
    read_w32 [of "pre @ w32 a @ w32 b @ w32 c" "12 + length pre" l]
  by (simp add: record_header_def)

text \<open>A record to be written: time, original length and bytes.\<close>

type_synonym frame_rec = "u64 \<times> u32 \<times> byte list"

definition encode_record :: "frame_rec \<Rightarrow> byte list" where
  "encode_record = (\<lambda>(ts, ol, bs). w32 (ucast (ts div 1000000000)) @ w32 (ucast (ts mod 1000000000)) @
     w32 (of_nat (length bs)) @ w32 ol @ bs)"

definition writable :: "frame_rec \<Rightarrow> bool" where
  "writable = (\<lambda>(ts, ol, bs). ts div 1000000000 < 2 ^ 32 \<and> length bs < 2 ^ 32)"

primrec placed :: "nat \<Rightarrow> frame_rec list \<Rightarrow> pcap_packet list" where
  "placed pos [] = []"
| "placed pos (r # rs) = \<lparr>pk_tsNanos = fst r, pk_caplen = of_nat (length (snd (snd r))),
     pk_origlen = fst (snd r), pk_offset = pos + 16\<rparr> # placed (pos + 16 + length (snd (snd r))) rs"

lemma time_split:
  fixes ts :: u64
  assumes "ts div 1000000000 < 2 ^ 32"
  shows "ucast (ucast (ts div 1000000000) :: u32) * 1000000000 + ucast (ucast (ts mod 1000000000) :: u32) = ts"
proof -
  have "ts mod 1000000000 < 1000000000" by (rule word_mod_less_divisor) simp
  then have "ts mod 1000000000 < 2 ^ 32" by (rule less_trans) simp
  have low: "ucast (ucast w :: u32) = w" if "w < 2 ^ 32" for w :: u64
    using that by (simp add: unsigned_ucast_eq word_unat_eq_iff word_less_nat_alt unsigned_take_bit_eq
      take_bit_nat_eq_self)
  show ?thesis
    using low [OF assms] low [OF \<open>ts mod 1000000000 < 2 ^ 32\<close>] by (simp add: word_mod_div_equality)
qed

lemma classic_written:
  assumes "list_all writable rs"
  shows "classic_records (pre @ concat (map encode_record rs)) False True kLinkEthernet (length pre) acc =
     Ok (acc @ placed (length pre) rs)"
  using assms
proof (induction rs arbitrary: pre acc)
  case Nil
  then show ?case by (simp add: classic_records.simps [of pre])
next
  case (Cons r rs)
  obtain ts ol bs where r: "r = (ts, ol, bs)" by (metis prod.collapse)
  let ?h = "w32 (ucast (ts div 1000000000)) @ w32 (ucast (ts mod 1000000000)) @
      w32 (of_nat (length bs)) @ w32 ol"
  let ?d = "pre @ concat (map encode_record (r # rs))"
  have d: "?d = pre @ w32 (ucast (ts div 1000000000)) @ w32 (ucast (ts mod 1000000000)) @
      w32 (of_nat (length bs)) @ w32 ol @ (bs @ concat (map encode_record rs))"
    and d': "?d = (pre @ ?h @ bs) @ concat (map encode_record rs)"
    by (simp_all add: r encode_record_def)
  have ok: "ts div 1000000000 < 2 ^ 32" "length bs < 2 ^ 32" "list_all writable rs"
    using Cons.prems by (simp_all add: r writable_def)
  have len: "unat (of_nat (length bs) :: u32) = length bs"
    using ok(2) by (simp add: unat_of_nat take_bit_nat_eq_self)
  have h: "record_header ?d False (length pre) = Some (ucast (ts div 1000000000), ucast (ts mod 1000000000),
      of_nat (length bs), ol, length pre + 16)"
    unfolding d by (rule record_header_written)
  have fits: "length pre + 16 + length bs \<le> length ?d" unfolding d by simp
  let ?p = "\<lparr>pk_tsNanos = ts, pk_caplen = of_nat (length bs), pk_origlen = ol, pk_offset = length pre + 16\<rparr>"
  have "classic_records ?d False True kLinkEthernet (length pre) acc =
      classic_records ?d False True kLinkEthernet (length (pre @ ?h @ bs)) (acc @ [?p])"
    using fits h len time_split [OF ok(1)]
    by (simp only: classic_records.simps [of ?d _ _ _ "length pre"])
      (simp add: on_link_def kLinkEthernet_def kLinkEthernetMPacket_def add.assoc)
  also have "\<dots> = Ok ((acc @ [?p]) @ placed (length (pre @ ?h @ bs)) rs)"
    unfolding d' by (rule Cons.IH [OF ok(3)])
  finally show ?case by (simp add: r add.assoc)
qed

lemma header_written: "classic_header (global_header @ rest) False = Some (ucast kLinkEthernet, 24)"
  using read_w16 [of "w32 kMagicNs" 4 2] read_w16 [of "w32 kMagicNs @ w16 2" 6 4]
    read_w32 [of "w32 kMagicNs @ w16 2 @ w16 4" 8 0] read_w32 [of "w32 kMagicNs @ w16 2 @ w16 4 @ w32 0" 12 0]
    read_w32 [of "w32 kMagicNs @ w16 2 @ w16 4 @ w32 0 @ w32 0" 16 262144]
    read_w32 [of "w32 kMagicNs @ w16 2 @ w16 4 @ w32 0 @ w32 0 @ w32 262144" 20 "ucast kLinkEthernet"]
  by (simp add: classic_header_def global_header_def)

lemma magic_written: "native 4 (global_header @ rest) 0 = kMagicNs"
  using native_w32 [of "[]" kMagicNs] by (simp add: global_header_def)

lemma length_global_header [simp]: "length global_header = 24"
  by (simp add: global_header_def)

lemma classic_readback:
  assumes "list_all writable rs" and "rs \<noteq> []"
  shows "pcap_open (\<lambda>_. Some (global_header @ concat (map encode_record rs))) path =
     Ok \<lparr>mData = global_header @ concat (map encode_record rs), mPackets = placed 24 rs\<rparr>"
proof -
  have "placed 24 rs \<noteq> []" using assms(2) by (cases rs) simp_all
  moreover have "ucast (ucast kLinkEthernet :: u32) = kLinkEthernet" by (simp add: kLinkEthernet_def)
  ultimately show ?thesis
    using classic_written [OF assms(1), of global_header "[]"]
    by (simp add: pcap_open_def parseClassic_def magic_written header_written usableLinkType_def Let_def
        kMagicNs_def kMagicUs_def kMagicUsSwap_def kMagicNsSwap_def kMagicNg_def)
qed

text \<open>What the file holds: the time, original length and bytes of each packet.\<close>

definition contents :: "pcap_file \<Rightarrow> (u64 \<times> u32 \<times> byte list option) list" where
  "contents f = map (\<lambda>p. (pk_tsNanos p, pk_origlen p, packetData (mData f) p)) (mPackets f)"

lemma placed_contents:
  assumes "list_all writable rs"
  shows "map (\<lambda>p. (pk_tsNanos p, pk_origlen p, packetData (pre @ concat (map encode_record rs)) p))
     (placed (length pre) rs) = map (\<lambda>(ts, ol, bs). (ts, ol, Some bs)) rs"
  using assms
proof (induction rs arbitrary: pre)
  case (Cons r rs)
  obtain ts ol bs where r: "r = (ts, ol, bs)" by (metis prod.collapse)
  let ?h = "w32 (ucast (ts div 1000000000)) @ w32 (ucast (ts mod 1000000000)) @
      w32 (of_nat (length bs)) @ w32 ol"
  have d: "pre @ concat (map encode_record (r # rs)) = (pre @ ?h @ bs) @ concat (map encode_record rs)"
    by (simp add: r encode_record_def)
  have "length bs < 2 ^ 32" "list_all writable rs" using Cons.prems by (simp_all add: r writable_def)
  then have len: "unat (of_nat (length bs) :: u32) = length bs"
    by (simp add: unat_of_nat take_bit_nat_eq_self)
  from Cons.IH [OF \<open>list_all writable rs\<close>, of "pre @ ?h @ bs"] show ?case
    unfolding d by (simp add: r packetData_def in_file_def len add.assoc)
qed simp

section \<open>The merge\<close>

lemma open_all_Ok:
  "open_all fs names sources is = Ok files \<Longrightarrow>
   list_all2 (\<lambda>i f. pcap_open fs (sources ! i) = Ok f) is files"
proof (induction "is" arbitrary: files)
  case (Cons i "is")
  then obtain f rest where "relabel (fileLabel names sources i) (pcap_open fs (sources ! i)) = Ok f"
    and "open_all fs names sources is = Ok rest" "files = f # rest"
    by (auto simp: on_ok_eq_Ok)
  with Cons.IH show ?case by (auto simp: relabel_def split: outcome.splits)
qed simp

text \<open>The record written for a packet.\<close>

definition frame_of :: "pcap_file list \<Rightarrow> ref \<Rightarrow> frame_rec" where
  "frame_of files r = (let p = ref_packet files r
     in (pk_tsNanos p, max (pk_origlen p) (pk_caplen p),
         take (unat (pk_caplen p)) (drop (pk_offset p) (mData (files ! rf_file r)))))"

lemma merged_record_frame:
  "merged_record files r = Some bs \<Longrightarrow> bs = encode_record (frame_of files r) \<and>
     in_file (mData (files ! rf_file r)) (ref_packet files r)"
  by (auto simp: merged_record_def frame_of_def encode_record_def packetData_def in_file_def Let_def
      min_absorb2 split: if_splits)

lemma those_map_Some: "those (map f xs) = Some ys \<Longrightarrow> list_all2 (\<lambda>x y. f x = Some y) xs ys"
  by (induction xs arbitrary: ys) (auto split: option.splits)

lemma merged_frames:
  assumes "those (map (merged_record files) refs) = Some recs"
  shows "concat recs = concat (map encode_record (map (frame_of files) refs))"
    and "r \<in> set refs \<Longrightarrow> in_file (mData (files ! rf_file r)) (ref_packet files r)"
proof -
  have "list_all2 (\<lambda>r bs. merged_record files r = Some bs) refs recs" using those_map_Some [OF assms] .
  then have *: "recs = map encode_record (map (frame_of files) refs) \<and>
      (\<forall>r \<in> set refs. in_file (mData (files ! rf_file r)) (ref_packet files r))"
    by (induction rule: list_all2_induct) (auto dest: merged_record_frame)
  then show "concat recs = concat (map encode_record (map (frame_of files) refs))" by simp
  show "r \<in> set refs \<Longrightarrow> in_file (mData (files ! rf_file r)) (ref_packet files r)" using * by blast
qed

lemma refs_ts: "r \<in> set (merge_refs files) \<Longrightarrow> rf_ts r = pk_tsNanos (ref_packet files r)"
  by (auto simp: merge_refs_def ref_packet_def)

text \<open>The merged timeline: every packet of every source, in time order, ties in source order.\<close>

definition timeline :: "pcap_file list \<Rightarrow> frame_rec list" where
  "timeline files = sort_key fst (map (frame_of files) (merge_refs files))"

lemma sort_key_map: "sort_key k (map g xs) = map g (sort_key (\<lambda>x. k (g x)) xs)"
proof -
  have ins: "insort_key k (g x) (map g ys) = map g (insort_key (\<lambda>x. k (g x)) x ys)" for x ys
    by (induction ys) simp_all
  show ?thesis by (induction xs) (simp_all add: ins)
qed

lemma sort_key_cong_on: "(\<And>x. x \<in> set xs \<Longrightarrow> f x = g x) \<Longrightarrow> sort_key f xs = sort_key g xs"
proof (induction xs)
  case (Cons x xs)
  have ins: "(\<And>y. y \<in> set (x # ys) \<Longrightarrow> f y = g y) \<Longrightarrow> insort_key f x ys = insort_key g x ys" for ys
    by (induction ys) auto
  from Cons have "sort_key f xs = sort_key g xs" by simp
  with ins [of "sort_key g xs"] Cons.prems show ?case by simp
qed simp

lemma timeline_refs: "timeline files = map (frame_of files) (sort_key rf_ts (merge_refs files))"
  unfolding timeline_def sort_key_map
  by (rule arg_cong [where f = "map (frame_of files)"], rule sort_key_cong_on)
    (simp add: refs_ts frame_of_def Let_def)

lemma merge_write_Ok:
  assumes "merge_write disk outPath srcMapPath n files = Ok res"
  shows "mg_file res = global_header @ concat (map encode_record (timeline files))"
    and "mg_packets res = length (timeline files)" and "disk outPath = Writes"
    and "mg_srcMap res = (if srcMapPath = [] then None
           else Some (concat (map (\<lambda>r. w16 (of_nat (rf_file r))) (sort_key rf_ts (merge_refs files)))))"
proof -
  let ?refs = "sort_key rf_ts (merge_refs files)"
  obtain recs where recs: "those (map (merged_record files) ?refs) = Some recs"
    using assms by (auto simp: merge_write_def Let_def split: option.splits if_splits)
  then show "mg_file res = global_header @ concat (map encode_record (timeline files))"
    "mg_packets res = length (timeline files)" "disk outPath = Writes"
    "mg_srcMap res = (if srcMapPath = [] then None
           else Some (concat (map (\<lambda>r. w16 (of_nat (rf_file r))) ?refs)))"
    using assms merged_frames(1) [OF recs]
    by (auto simp: merge_write_def Let_def timeline_refs written_def split: disk.splits if_splits)
qed

lemma merge_Ok:
  assumes "mergePcaps fs disk sources names outPath srcMapPath = Ok res"
  obtains files where "list_all2 (\<lambda>src f. pcap_open fs src = Ok f) sources files"
    and "merge_write disk outPath srcMapPath (length sources) files = Ok res"
proof -
  obtain files where files: "open_all fs names sources [0..<length sources] = Ok files"
    and res: "merge_write disk outPath srcMapPath (length sources) files = Ok res"
    using assms by (auto simp: mergePcaps_def on_ok_eq_Ok split: if_splits)
  have "list_all2 (\<lambda>src f. pcap_open fs src = Ok f) sources files"
    using open_all_Ok [OF files] by (simp add: list_all2_conv_all_nth)
  with res that show ?thesis by blast
qed

section \<open>When the pcapng reader returns\<close>

text \<open>A round that goes on has moved forward, or has moved nothing and will be repeated for ever.\<close>

lemma ng_magic_swap:
  assumes "c_u32 d sw pos = Some (kMagicNg, q)"
  shows "c_u32 d sw' pos = Some (kMagicNg, q)"
proof -
  let ?bs = "take 4 (drop pos d)"
  have len: "length ?bs = 4" and q: "q = pos + 4" "pos + 4 \<le> length d"
    using assms by (auto simp: c_u32_def split: if_splits)
  have magic: "be_bytes 4 kMagicNg = [0x0a, 0x0d, 0x0d, 0x0a]" by code_simp
  have eq: "xs = [0x0a, 0x0d, 0x0d, 0x0a]" if "be_word xs = kMagicNg" "length xs = 4" for xs :: "byte list"
    using be_bytes_word [of xs, where 'a = 32] that magic by simp
  have "?bs = [0x0a, 0x0d, 0x0d, 0x0a]"
    using assms eq [of ?bs] eq [of "rev ?bs"] len
    by (cases sw) (auto simp: c_u32_def swapped_def native_def q rev_swap)
  moreover have "be_word ([0x0a, 0x0d, 0x0d, 0x0a] :: byte list) = kMagicNg" by code_simp
  ultimately show ?thesis using q by (simp add: c_u32_def swapped_def native_def)
qed

lemma ng_push_pos: "ng_push s l st r = Next st' \<Longrightarrow> ng_pos st' = s + unat l"
  by (auto simp: ng_push_def split: outcome.splits)

lemma ng_idb_pos: "ng_idb d s l p st = Next st' \<Longrightarrow> ng_pos st' = s + unat l"
  unfolding ng_idb_def Let_def by (auto split: option.split_asm prod.split_asm)

lemma ng_epb_pos: "ng_epb d s l p st = Next st' \<Longrightarrow> ng_pos st' = s + unat l"
  unfolding ng_epb_def Let_def
  by (auto split: option.split_asm prod.split_asm if_split_asm dest: ng_push_pos)

lemma ng_spb_pos: "ng_spb d s l p st = Next st' \<Longrightarrow> ng_pos st' = s + unat l"
  unfolding ng_spb_def
  by (auto split: option.split_asm prod.split_asm if_split_asm dest: ng_push_pos)

lemma ng_body_pos: "ng_body d s ty l p st = Next st' \<Longrightarrow> ng_pos st' = s + unat l"
  by (auto simp: ng_body_def split: if_splits dest: ng_idb_pos ng_epb_pos ng_spb_pos)

lemma ng_shb_cases:
  assumes "ng_shb d (ng_pos st) (ng_pos st + 4) st = Next st'"
  obtains (forward) "ng_pos st < ng_pos st'"
  | (stuck) sw where "st' = st\<lparr>ng_swap := sw, ifaceNsPerTick := [], ifaceLink := []\<rparr>"
      and "ng_shb d (ng_pos st) (ng_pos st + 4) st' = Next st'"
proof -
  let ?bom = "native 4 d (ng_pos st + 8) :: u32"
  obtain l q where len: "length d \<ge> ng_pos st + 12" and l: "c_u32 d (?bom = 0x4d3c2b1a) (ng_pos st + 4) = Some (l, q)"
    and bom: "?bom = 0x4d3c2b1a \<or> ?bom = 0x1a2b3c4d"
    and st': "st' = st\<lparr>ng_pos := ng_pos st + unat l, ng_swap := (?bom = 0x4d3c2b1a),
                     ifaceNsPerTick := [], ifaceLink := []\<rparr>"
    using assms by (auto simp: ng_shb_def Let_def add.commute split: if_splits option.splits)
  show ?thesis
  proof (cases "unat l = 0")
    case True
    then have st0: "st' = st\<lparr>ng_swap := (?bom = 0x4d3c2b1a), ifaceNsPerTick := [], ifaceLink := []\<rparr>"
      by (simp add: st')
    moreover from len l bom True have "ng_shb d (ng_pos st) (ng_pos st + 4) st' = Next st'"
      unfolding st0 by (auto simp: ng_shb_def Let_def add.commute)
    ultimately show ?thesis by (rule stuck)
  next
    case False
    then show ?thesis by (intro forward) (simp add: st')
  qed
qed

lemma ng_block_cases:
  assumes "ng_block d st = Next st'"
  obtains (forward) "ng_pos st < ng_pos st'" and "ng_pos st + 12 \<le> length d"
  | (stuck) "ng_block d st' = Next st'"
proof -
  have len: "ng_pos st + 12 \<le> length d"
    using assms by (auto simp: ng_block_def Let_def split: if_splits)
  obtain ty q where ty: "c_u32 d (ng_swap st) (ng_pos st) = Some (ty, q)"
    using assms by (auto simp: ng_block_def Let_def split: if_splits option.splits)
  then have q: "q = ng_pos st + 4" by (auto simp: c_u32_def split: if_splits)
  show ?thesis
  proof (cases "ty = kMagicNg")
    case True
    then have shb: "ng_shb d (ng_pos st) (ng_pos st + 4) st = Next st'"
      using assms len ty q by (simp add: ng_block_def Let_def)
    then show ?thesis
    proof (cases rule: ng_shb_cases)
      case forward
      then show ?thesis using len by (rule that(1))
    next
      case (stuck sw)
      have "c_u32 d sw (ng_pos st) = Some (kMagicNg, q)" using ng_magic_swap ty True by blast
      moreover have "ng_swap st' = sw" "ng_pos st' = ng_pos st" by (simp_all add: stuck(1))
      ultimately have "ng_block d st' = Next st'"
        unfolding ng_block_def Let_def using len q stuck(2) by (simp del: stuck(1))
      then show ?thesis by (rule that(2))
    qed
  next
    case False
    then obtain l p where "c_u32 d (ng_swap st) q = Some (l, p)" and l: "\<not> l < 12"
      using assms len ty by (auto simp: ng_block_def Let_def split: option.splits if_splits)
    then have "ng_pos st' = ng_pos st + unat l"
      using assms len ty False
      by (auto simp: ng_block_def Let_def split: if_splits dest: ng_body_pos)
    moreover have "0 < unat l" using l by (auto simp: word_less_nat_alt)
    ultimately show ?thesis using len by (intro that(1)) simp_all
  qed
qed

lemma ng_stuck: "ng_block d st = Next st \<Longrightarrow> ng_loop n d st = Diverges"
  by (induction n) simp_all

text \<open>Enough fuel: if the fuel of \<open>parseNg\<close> runs out, no fuel is enough.\<close>

lemma ng_loop_fuel:
  "ng_loop (Suc m) d st = Diverges \<Longrightarrow> length d - ng_pos st \<le> m \<Longrightarrow> ng_loop n d st = Diverges"
proof (induction m arbitrary: st n)
  case 0
  then have "ng_block d st = Break st" by (simp add: ng_block_def Let_def)
  with 0 show ?case by simp
next
  case (Suc m)
  obtain st' where st': "ng_block d st = Next st'" and rest: "ng_loop (Suc m) d st' = Diverges"
    using Suc.prems(1) by (auto split: ng_round.splits)
  from st' have all: "ng_loop k d st' = Diverges" for k
  proof (cases rule: ng_block_cases)
    case forward
    then have "length d - ng_pos st' \<le> m" using Suc.prems(2) by simp
    then show ?thesis by (rule Suc.IH [OF rest])
  qed (rule ng_stuck)
  show ?case using all st' by (cases n) simp_all
qed

section \<open>Where the packets of a pcapng file are\<close>

text \<open>
  A packet lies in the file, or its length has wrapped below zero: a simple packet block
  shorter than its own header makes one.
\<close>

definition located :: "nat \<Rightarrow> byte list \<Rightarrow> pcap_packet \<Rightarrow> bool" where
  "located slack d p \<longleftrightarrow> in_file d p \<or> 2 ^ 32 - slack \<le> unat (pk_caplen p)"

lemma strip_scan_caplen:
  assumes "strip_scan d p is = Ok q" and "\<forall>i \<in> set is. i < 16" and "16 \<le> unat (pk_caplen p)"
  shows "unat (pk_caplen p) - 16 \<le> unat (pk_caplen q)"
  using assms
proof (induction "is")
  case (Cons i "is")
  have u: "unat (of_nat (i + 1) :: u32) = i + 1"
    using Cons.prems(2) by (subst unat_of_nat) (simp add: take_bit_nat_eq_self)
  then have "unat (pk_caplen p - of_nat (i + 1)) = unat (pk_caplen p) - (i + 1)"
    using Cons.prems(2,3) by (subst unat_sub) (auto simp: word_le_nat_alt simp del: of_nat_add of_nat_Suc)
  with Cons show ?case by (auto simp del: of_nat_add of_nat_Suc split: if_splits)
qed simp

lemma on_link_located: "on_link lt d p = Ok q \<Longrightarrow> located 4 d p \<Longrightarrow> located 20 d q"
proof (cases "in_file d p")
  case True
  then show "on_link lt d p = Ok q \<Longrightarrow> located 20 d q" by (auto simp: located_def dest: on_link_in_file)
next
  case False
  assume link: "on_link lt d p = Ok q" and "located 4 d p"
  with False have "2 ^ 32 - 4 \<le> unat (pk_caplen p)" by (simp add: located_def)
  moreover from this link have "unat (pk_caplen p) - 16 \<le> unat (pk_caplen q)"
    by (auto simp: on_link_def stripMPacketPreamble_def split: if_splits intro!: strip_scan_caplen)
  ultimately have "2 ^ 32 - 20 \<le> unat (pk_caplen q)" by simp
  then show "located 20 d q" by (simp add: located_def)
qed

abbreviation ng_ok :: "byte list \<Rightarrow> ng \<Rightarrow> bool" where
  "ng_ok d st \<equiv> \<forall>p \<in> set (ng_packets st). located 20 d p"

lemma ng_push_ok:
  "ng_push s l st (on_link lt d p) = Next st' \<Longrightarrow> ng_ok d st \<Longrightarrow> located 4 d p \<Longrightarrow> ng_ok d st'"
  by (auto simp: ng_push_def split: outcome.splits dest: on_link_located)

lemma ng_idb_ok: "ng_idb d s l p st = Next st' \<Longrightarrow> ng_ok d st \<Longrightarrow> ng_ok d st'"
  unfolding ng_idb_def Let_def by (auto split: option.split_asm prod.split_asm)

lemma located_fits: "o' + unat c \<le> length d \<Longrightarrow>
    located 4 d \<lparr>pk_tsNanos = t, pk_caplen = c, pk_origlen = ol, pk_offset = o'\<rparr>"
  by (simp add: located_def in_file_def)

lemma ng_epb_ok:
  assumes "ng_epb d s l p st = Next st'" and ok: "ng_ok d st"
  shows "ng_ok d st'"
proof (cases "epb_header d (ng_swap st) p")
  case None
  with assms(1) show ?thesis by (simp add: ng_epb_def)
next
  case (Some h)
  obtain i hi lo c ol q where h: "h = (i, hi, lo, c, ol, q)" by (metis prod.collapse)
  consider "st' = st\<lparr>ng_pos := s + unat l\<rparr>"
    | lt t where "\<not> length d < q + unat c" "ng_push s l st (on_link lt d
        \<lparr>pk_tsNanos = t, pk_caplen = c, pk_origlen = ol, pk_offset = q\<rparr>) = Next st'"
    using assms(1) unfolding ng_epb_def Some h by (auto simp: Let_def split: if_split_asm)
  then show ?thesis
  proof cases
    case 2
    show ?thesis by (rule ng_push_ok [OF 2(2) ok located_fits]) (use 2(1) in simp)
  qed (use ok in simp)
qed

lemma spb_located:
  assumes "12 \<le> l" and "s + unat l \<le> length d"
  shows "located 4 d \<lparr>pk_tsNanos = t, pk_caplen = l - 16, pk_origlen = ol, pk_offset = s + 12\<rparr>"
proof (cases "16 \<le> l")
  case True
  then have "unat (l - 16) = unat l - 16" and "16 \<le> unat l"
    by (simp_all add: unat_sub word_le_nat_alt)
  with assms(2) have "s + 12 + unat (l - 16) \<le> length d" by simp
  then show ?thesis by (simp add: located_def in_file_def)
next
  case False
  then have "12 \<le> unat l" "unat l < 16" using assms(1) by (simp_all add: word_le_nat_alt)
  then have "unat l \<in> {12, 13, 14, 15}" by auto
  then have "l \<in> {12, 13, 14, 15}" by (auto simp: word_unat_eq_iff)
  then show ?thesis by (auto simp: located_def unsigned_minus_1_eq_mask mask_eq_exp_minus_1)
qed

lemma ng_spb_ok:
  assumes "ng_spb d s l (s + 8) st = Next st'" and "12 \<le> l" and "s + unat l \<le> length d" and "ng_ok d st"
  shows "ng_ok d st'"
proof (cases "c_u32 d (ng_swap st) (s + 8)")
  case None
  with assms(1) show ?thesis by (simp add: ng_spb_def)
next
  case (Some a)
  obtain ol p where a: "a = (ol, p)" by force
  have p: "p = s + 12" using Some a by (auto simp: c_u32_def split: if_splits)
  show ?thesis
  proof (cases "ifaceLink st \<noteq> [] \<and> usableLinkType (hd (ifaceLink st))")
    case True
    then show ?thesis using assms(1) Some a p by (auto simp: ng_spb_def intro!: ng_push_ok [OF _ assms(4) spb_located [OF assms(2,3)]])
  next
    case False
    then show ?thesis using assms(1,4) Some a by (auto simp: ng_spb_def)
  qed
qed

lemma ng_shb_ok: "ng_shb d s p st = Next st' \<Longrightarrow> ng_packets st' = ng_packets st"
  "ng_shb d s p st = Break st' \<Longrightarrow> ng_packets st' = ng_packets st"
  by (auto simp: ng_shb_def Let_def split: if_splits option.splits)

lemma ng_no_break [simp]: "ng_push s l st r \<noteq> Break st'" "ng_idb d s l p st \<noteq> Break st'"
  "ng_epb d s l p st \<noteq> Break st'" "ng_spb d s l p st \<noteq> Break st'" "ng_body d s ty l p st \<noteq> Break st'"
  by (auto simp: ng_body_def ng_push_def ng_idb_def ng_epb_def ng_spb_def Let_def
      split: outcome.splits option.splits prod.splits)

lemma ng_block_ok:
  assumes "ng_ok d st"
  shows "ng_block d st = Next st' \<Longrightarrow> ng_ok d st'" and "ng_block d st = Break st' \<Longrightarrow> ng_ok d st'"
proof -
  assume n: "ng_block d st = Next st'"
  obtain ty q where ty: "c_u32 d (ng_swap st) (ng_pos st) = Some (ty, q)" and len: "\<not> length d < ng_pos st + 12"
    using n by (auto simp: ng_block_def Let_def split: if_splits option.splits)
  show "ng_ok d st'"
  proof (cases "ty = kMagicNg")
    case True
    with n ty len assms show ?thesis by (auto simp: ng_block_def Let_def dest: ng_shb_ok)
  next
    case False
    then obtain l p where l: "c_u32 d (ng_swap st) q = Some (l, p)" "\<not> l < 12"
        "ng_pos st + unat l \<le> length d"
      using n len ty by (auto simp: ng_block_def Let_def split: option.splits if_splits)
    have p: "p = ng_pos st + 8" using ty l(1) by (auto simp: c_u32_def split: if_splits)
    have body: "ng_body d (ng_pos st) ty l p st = Next st'"
      using n len ty l False by (simp add: ng_block_def Let_def)
    show ?thesis
    proof (cases "ty = 3")
      case True
      with body have "ng_spb d (ng_pos st) l p st = Next st'" by (simp add: ng_body_def)
      with l p assms ng_spb_ok [of d "ng_pos st" l st st'] show ?thesis by (simp add: not_less)
    next
      case False
      with body assms show ?thesis
        by (auto simp: ng_body_def split: if_split_asm dest: ng_idb_ok ng_epb_ok)
    qed
  qed
next
  assume "ng_block d st = Break st'"
  then have "ng_packets st' = ng_packets st"
    by (auto simp: ng_block_def Let_def split: if_splits option.splits dest: ng_shb_ok)
  with assms show "ng_ok d st'" by simp
qed

lemma ng_loop_ok: "ng_loop n d st = Ok st' \<Longrightarrow> ng_ok d st \<Longrightarrow> ng_ok d st'"
proof (induction n arbitrary: st)
  case (Suc n)
  then show ?case by (auto split: ng_round.splits dest: ng_block_ok)
qed simp

lemma pcap_open_located:
  assumes "pcap_open fs path = Ok f" and "p \<in> set (mPackets f)"
  shows "located 20 (mData f) p"
proof -
  obtain d where d: "fs path = Some d" and ps: "mData f = d" "parseNg d = Ok (mPackets f) \<or> parseClassic d = Ok (mPackets f)"
    using assms(1) by (auto simp: pcap_open_def Let_def on_ok_eq_Ok split: option.splits if_splits)
  from ps(2) show ?thesis
  proof
    assume "parseNg d = Ok (mPackets f)"
    then obtain st where loop: "ng_loop (Suc (length d)) d Ng_init = Ok st" and "ng_packets st = mPackets f"
      unfolding parseNg_def by (auto simp only: on_ok_eq_Ok outcome.inject outcome.distinct split: if_splits)
    have "ng_ok d Ng_init" by (simp add: Ng_init_def)
    then have "ng_ok d st" by (rule ng_loop_ok [OF loop])
    with assms(2) ps(1) \<open>ng_packets st = mPackets f\<close> show ?thesis by simp
  next
    assume "parseClassic d = Ok (mPackets f)"
    with assms(2) ps(1) show ?thesis by (auto simp: located_def dest: parseClassic_in_file)
  qed
qed

section \<open>Two malformed pcapng files\<close>

text \<open>A section header that gives its own length as zero.\<close>

definition zero_length_shb :: "byte list" where
  "zero_length_shb = [0x0a, 0x0d, 0x0d, 0x0a, 0, 0, 0, 0, 0x4d, 0x3c, 0x2b, 0x1a]"

lemma zero_length_shb_stuck:
  obtains st where "ng_block (zero_length_shb @ rest) Ng_init = Next st"
    and "ng_block (zero_length_shb @ rest) st = Next st"
proof -
  let ?d = "zero_length_shb @ rest"
  have "take 4 (drop 0 ?d) = [0x0a, 0x0d, 0x0d, 0x0a]" "take 4 (drop 4 ?d) = [0, 0, 0, 0]"
    "take 4 (drop 8 ?d) = [0x4d, 0x3c, 0x2b, 0x1a]"
    by (simp_all add: zero_length_shb_def numeral_eq_Suc)
  moreover have "be_word (rev [0x0a, 0x0d, 0x0d, 0x0a] :: byte list) = kMagicNg"
    "be_word (rev [0, 0, 0, 0] :: byte list) = (0 :: u32)"
    "be_word (rev [0x4d, 0x3c, 0x2b, 0x1a] :: byte list) = (0x1a2b3c4d :: u32)"
    by code_simp+
  ultimately have r: "c_u32 ?d False 0 = Some (kMagicNg, 4)" "native 4 ?d 8 = (0x1a2b3c4d :: u32)"
    "c_u32 ?d False 4 = Some (0, 8)"
    unfolding c_u32_def native_def by (simp_all add: zero_length_shb_def)
  have "length ?d \<ge> 12" by (simp add: zero_length_shb_def)
  with r have "ng_block ?d Ng_init = Next Ng_init"
    by (simp add: ng_block_def ng_shb_def Ng_init_def Let_def)
  then show ?thesis by (intro that [of Ng_init]) assumption+
qed

section \<open>The merged capture, read back\<close>

lemma pcap_open_nonempty: "pcap_open fs path = Ok f \<Longrightarrow> mPackets f \<noteq> []"
  by (auto simp: pcap_open_def parseClassic_def parseNg_def on_ok_eq_Ok Let_def
      split: option.splits if_splits)

text \<open>The frames of one capture, with the original length the merge writes.\<close>

definition file_frames :: "pcap_file \<Rightarrow> frame_rec list" where
  "file_frames f = map (\<lambda>p. (pk_tsNanos p, max (pk_origlen p) (pk_caplen p),
     take (unat (pk_caplen p)) (drop (pk_offset p) (mData f)))) (mPackets f)"

lemma map_frame_of: "map (frame_of files) (merge_refs files) = concat (map file_frames files)"
proof -
  have one: "map (\<lambda>pi. frame_of files \<lparr>rf_ts = pk_tsNanos (mPackets (files ! fi) ! pi), rf_file = fi, rf_pkt = pi\<rparr>)
      [0..<length (mPackets (files ! fi))] = file_frames (files ! fi)" for fi
    by (rule nth_equalityI) (simp_all add: file_frames_def frame_of_def ref_packet_def Let_def)
  have "map (\<lambda>fi. file_frames (files ! fi)) [0..<length files] = map file_frames files"
    by (rule nth_equalityI) simp_all
  then show ?thesis
    by (simp add: merge_refs_def map_concat comp_def one)
qed

lemma timeline_frames: "timeline files = sort_key fst (concat (map file_frames files))"
  by (simp add: timeline_def map_frame_of)

lemma timeline_nonempty:
  assumes "list_all2 (\<lambda>src f. pcap_open fs src = Ok f) sources files" and "sources \<noteq> []"
  shows "timeline files \<noteq> []"
proof -
  obtain f fs' where files: "files = f # fs'" and "mPackets f \<noteq> []"
    using assms pcap_open_nonempty by (cases files; cases sources) (auto simp: list_all2_Cons2)
  then have "file_frames f \<noteq> []" by (simp add: file_frames_def)
  then have "length (timeline files) \<noteq> 0"
    unfolding timeline_frames length_sort files by simp
  then show ?thesis by auto
qed

lemma merge_sources: "mergePcaps fs disk sources names outPath srcMapPath = Ok res \<Longrightarrow> sources \<noteq> []"
  by (auto simp: mergePcaps_def)

lemma timeline_readback:
  assumes "list_all writable rs" and "rs \<noteq> []"
  obtains f where "pcap_open (\<lambda>_. Some (global_header @ concat (map encode_record rs))) path = Ok f"
    and "contents f = map (\<lambda>(ts, ol, bs). (ts, ol, Some bs)) rs"
proof
  show "pcap_open (\<lambda>_. Some (global_header @ concat (map encode_record rs))) path =
      Ok \<lparr>mData = global_header @ concat (map encode_record rs), mPackets = placed 24 rs\<rparr>"
    by (rule classic_readback [OF assms])
  show "contents \<lparr>mData = global_header @ concat (map encode_record rs), mPackets = placed 24 rs\<rparr> =
      map (\<lambda>(ts, ol, bs). (ts, ol, Some bs)) rs"
    using placed_contents [OF assms(1), of global_header] by (simp add: contents_def)
qed

text \<open>A capture of one frame.\<close>

definition one_frame_capture :: "byte list" where
  "one_frame_capture = global_header @ encode_record (5, 1, [0xAB])"

lemma open_one_frame: "pcap_open (\<lambda>_. Some one_frame_capture) path =
    Ok \<lparr>mData = one_frame_capture, mPackets = [\<lparr>pk_tsNanos = 5, pk_caplen = 1, pk_origlen = 1, pk_offset = 40\<rparr>]\<rparr>"
  using classic_readback [of "[(5, 1, [0xAB])]" path] by (simp add: writable_def one_frame_capture_def)

lemma merge_one_frame: "\<exists>res. mergePcaps (\<lambda>_. Some one_frame_capture) (\<lambda>_. Writes) [''a''] [] ''o'' '''' = Ok res"
proof -
  have "length one_frame_capture = 41" by (simp add: one_frame_capture_def encode_record_def)
  then show ?thesis
    by (simp add: mergePcaps_def open_one_frame relabel_def merge_write_def merge_refs_def merged_record_def
        ref_packet_def written_def packetData_def in_file_def)
qed

end
