(* ===== verification/Mrp_Registrar.thy ===== *)
theory Mrp_Registrar
  imports Names
begin

text \<open>
  \<open>SharedModel\<close> of \<open>backend/src/logic/avb_logic.h\<close>, the truth the protocol modules
  share, and the MRP Registrar of \<open>logic/mrp_registrar.cpp\<close>: one registrar per
  (protocol, attribute, declaring source), moving between \<open>MT\<close>, \<open>IN\<close> and \<open>LV\<close> on
  the observed MRP events, with a leave timer advanced by capture time.  The lemmas show
  the registrar refines the state table of 802.1Q and that the count of leaving
  registrars, which lets a tick return early, is exact.
\<close>

section \<open>The shared model\<close>

record gptp_truth =
  gmKnown :: bool
  gmIdentity :: u64
  syncState :: int

definition GptpDomainTruth :: gptp_truth where
  "GptpDomainTruth = \<lparr>gmKnown = False, gmIdentity = 0, syncState = 0\<rparr>"

record mrp_log_entry =
  l_ts :: double
  l_n :: u32
  l_event :: string
  l_after :: string

record mrp_attr =
  ma_proto :: proto
  ma_kind :: string
  ma_key :: string
  ma_source :: u64
  registrar :: string
  lastEvent :: string
  lastEventTs :: double
  leaveTimerStart :: double
  eventCount :: u32
  ma_log :: "mrp_log_entry list"
  ma_hist :: "hist_entry list"

definition MrpAttr :: mrp_attr where
  "MrpAttr = \<lparr>ma_proto = MSRP, ma_kind = '''', ma_key = '''', ma_source = 0, registrar = '''',
     lastEvent = '''', lastEventTs = -1, leaveTimerStart = -1, eventCount = 0, ma_log = [], ma_hist = []\<rparr>"

type_synonym mrp_key = "nat \<times> string \<times> u64"

record shared =
  entityNames :: "u64 \<rightharpoonup> string"
  gptpDomains :: "(u8, gptp_truth) omap"
  establishedStreams :: "u64 set"
  adpAvailable :: "u64 set"
  msrpTalkerDecl :: "u64 \<rightharpoonup> int"
  mrpAttrs :: "(mrp_key, mrp_attr) omap"
  mrpLvCount :: nat

definition SharedModel :: shared where
  "SharedModel = \<lparr>entityNames = Map.empty, gptpDomains = [], establishedStreams = {},
     adpAvailable = {}, msrpTalkerDecl = Map.empty, mrpAttrs = [], mrpLvCount = 0\<rparr>"

definition nameOf :: "shared \<Rightarrow> u64 \<Rightarrow> string" where
  "nameOf sh entityId = (case entityNames sh entityId of None \<Rightarrow> '''' | Some nm \<Rightarrow> nm)"

text \<open>Domain 0 first, else the single observed domain, else unknown.\<close>

definition syncStateForAnnotation :: "shared \<Rightarrow> int" where
  "syncStateForAnnotation sh = (case om_get (gptpDomains sh) 0 of
     Some t \<Rightarrow> syncState t
   | None \<Rightarrow> (if length (gptpDomains sh) = 1 then syncState (snd (hd (gptpDomains sh))) else 0))"

text \<open>A module reaches the model through a pointer that may be null.\<close>

definition sh_name :: "shared option \<Rightarrow> u64 \<Rightarrow> string" where
  "sh_name sh i = (case sh of None \<Rightarrow> '''' | Some s \<Rightarrow> nameOf s i)"

section \<open>The registrar\<close>

definition kMrpLeaveTimeS :: double where "kMrpLeaveTimeS = 1"
definition kMrpLogCap :: nat where "kMrpLogCap = 500"
definition kMrpHistCap :: nat where "kMrpHistCap = 200"

definition reg_label :: "mrp_attr \<Rightarrow> string" where
  "reg_label a = (if registrar a = [] then ''MT'' else registrar a)"

definition mrpSetRegistrar ::
    "mrp_attr \<Rightarrow> nat \<Rightarrow> string \<Rightarrow> double \<Rightarrow> u32 \<Rightarrow> string \<Rightarrow> mrp_attr \<times> nat" where
  "mrpSetRegistrar a lv to ts n why = (let from = reg_label a
     in if from = to then (a, lv)
        else let lv1 = (if from = ''LV'' \<and> lv \<noteq> 0 then lv - 1 else lv);
                 lv2 = (if to = ''LV'' then lv1 + 1 else lv1)
          in (a\<lparr>registrar := to, ma_hist := push_cap kMrpHistCap (HistEntry ts n from to why) (ma_hist a)\<rparr>, lv2))"

text \<open>The \<open>switch\<close> of \<open>mrpEvent\<close>; \<open>In\<close>, \<open>Mt\<close> and every other value leave the registrar alone.\<close>

definition mrpSwitch :: "int \<Rightarrow> double \<Rightarrow> u32 \<Rightarrow> mrp_attr \<Rightarrow> nat \<Rightarrow> mrp_attr \<times> nat" where
  "mrpSwitch ev ts n a lv =
     (if ev = 0 then
        (case mrpSetRegistrar a lv ''IN'' ts n (cat [''rNew (New)'', emdash, ''new registration'']) of
           (a', l) \<Rightarrow> (a'\<lparr>leaveTimerStart := -1\<rparr>, l))
      else if ev = 1 \<or> ev = 3 then
        (case mrpSetRegistrar a lv ''IN'' ts n
                (cat [''rJoin ('', mrpEventName ev, '')'', emdash, ''registered'']) of
           (a', l) \<Rightarrow> (a'\<lparr>leaveTimerStart := -1\<rparr>, l))
      else if ev = 5 then
        (if registrar a = ''IN'' then
           mrpSetRegistrar (a\<lparr>leaveTimerStart := ts\<rparr>) lv ''LV'' ts n
             (cat [''rLv (Lv)'', emdash, ''leaving, leavetimer started''])
         else (a, lv))
      else (a, lv))"

definition mrpEvent :: "proto \<Rightarrow> string \<Rightarrow> string \<Rightarrow> u64 \<Rightarrow> int \<Rightarrow> double \<Rightarrow> u32 \<Rightarrow> shared \<Rightarrow> shared" where
  "mrpEvent pr knd key source ev ts n sh =
     (let k = (proto_id pr, key, source);
          a0 = om_at MrpAttr (mrpAttrs sh) k;
          a1 = a0\<lparr>ma_proto := pr, ma_kind := knd, ma_key := key, ma_source := source,
                  lastEventTs := ts, eventCount := eventCount a0 + 1, lastEvent := mrpEventName ev,
                  registrar := reg_label a0\<rparr>;
          (a2, lv) = mrpSwitch ev ts n a1 (mrpLvCount sh);
          a3 = a2\<lparr>ma_log := push_cap kMrpLogCap
                    \<lparr>l_ts = ts, l_n = n, l_event = mrpEventName ev, l_after = registrar a2\<rparr> (ma_log a2)\<rparr>
      in sh\<lparr>mrpAttrs := om_set k a3 (mrpAttrs sh), mrpLvCount := lv\<rparr>)"

definition leaveAllBody :: "proto \<Rightarrow> string \<Rightarrow> double \<Rightarrow> u32 \<Rightarrow> mrp_attr \<Rightarrow> nat \<Rightarrow> mrp_attr \<times> nat" where
  "leaveAllBody pr knd ts n a lv =
     (if ma_proto a \<noteq> pr \<or> ma_kind a \<noteq> knd \<or> registrar a \<noteq> ''IN'' then (a, lv)
      else case mrpSetRegistrar (a\<lparr>leaveTimerStart := ts, lastEvent := ''LeaveAll'', lastEventTs := ts,
                                   eventCount := eventCount a + 1\<rparr>) lv ''LV'' ts n
                  (cat [''rLA (LeaveAll)'', emdash, ''leaving, leavetimer started'']) of
        (a', lv') \<Rightarrow> (a'\<lparr>ma_log := push_cap kMrpLogCap
             \<lparr>l_ts = ts, l_n = n, l_event = ''LeaveAll'', l_after = ''LV''\<rparr> (ma_log a')\<rparr>, lv'))"

definition mrpLeaveAll :: "proto \<Rightarrow> string \<Rightarrow> double \<Rightarrow> u32 \<Rightarrow> shared \<Rightarrow> shared" where
  "mrpLeaveAll pr knd ts n sh =
     (case om_iter (\<lambda>k a lv. leaveAllBody pr knd ts n a lv) (mrpAttrs sh) (mrpLvCount sh) of
        (m, lv) \<Rightarrow> sh\<lparr>mrpAttrs := m, mrpLvCount := lv\<rparr>)"

definition tickBody :: "double \<Rightarrow> mrp_attr \<Rightarrow> nat \<Rightarrow> mrp_attr \<times> nat" where
  "tickBody ts a lv =
     (if registrar a = ''LV'' \<and> leaveTimerStart a \<ge> 0 \<and> ts > leaveTimerStart a + kMrpLeaveTimeS
      then (case mrpSetRegistrar a lv ''MT'' ts 0 (cat [''leavetimer expired'', emdash, ''deregistered'']) of
              (a', lv') \<Rightarrow> (a'\<lparr>leaveTimerStart := -1\<rparr>, lv'))
      else (a, lv))"

definition mrpTick :: "double \<Rightarrow> shared \<Rightarrow> shared" where
  "mrpTick ts sh =
     (if mrpLvCount sh = 0 then sh
      else case om_iter (\<lambda>k a lv. tickBody ts a lv) (mrpAttrs sh) (mrpLvCount sh) of
        (m, lv) \<Rightarrow> sh\<lparr>mrpAttrs := m, mrpLvCount := lv\<rparr>)"

lemmas registrar_defs [step_defs] = mrpSetRegistrar_def leaveAllBody_def tickBody_def reg_label_def

section \<open>The registrar as a logged object\<close>

definition regStep :: "double \<Rightarrow> u32 \<Rightarrow> string \<Rightarrow> string \<Rightarrow> mrp_attr \<Rightarrow> mrp_attr" where
  "regStep ts n to why a = fst (mrpSetRegistrar a 0 to ts n why)"

interpretation reg: object_log reg_label ma_hist regStep
  by unfold_locales
    (auto simp: regStep_def mrpSetRegistrar_def Let_def reg_label_def kMrpHistCap_def last_push_cap push_cap_suffix)

section \<open>Invariant\<close>

definition attr_ok :: "mrp_key \<Rightarrow> mrp_attr \<Rightarrow> bool" where
  "attr_ok k a \<longleftrightarrow> k = (proto_id (ma_proto a), ma_key a, ma_source a) \<and>
     registrar a \<in> {''MT'', ''IN'', ''LV''} \<and>
     (registrar a \<noteq> ''LV'' \<longrightarrow> leaveTimerStart a = -1) \<and>
     length (ma_log a) \<le> kMrpLogCap \<and> length (ma_hist a) \<le> kMrpHistCap \<and>
     hist_ok (registrar a) (ma_hist a)"

definition leaving :: "(mrp_key, mrp_attr) omap \<Rightarrow> nat" where
  "leaving m = length (filter (\<lambda>(k, a). registrar a = ''LV'') m)"

definition reg_inv :: "shared \<Rightarrow> bool" where
  "reg_inv sh \<longleftrightarrow> om_ok (mrpAttrs sh) \<and> om_all attr_ok (mrpAttrs sh) \<and>
     mrpLvCount sh = leaving (mrpAttrs sh)"

lemma leaving_Nil [simp]: "leaving [] = 0"
  by (simp add: leaving_def)

lemma leaving_Cons [simp]: "leaving ((k, a) # m) = (if registrar a = ''LV'' then 1 else 0) + leaving m"
  by (simp add: leaving_def)

lemma leaving_set:
  assumes "om_ok m"
  shows "leaving (om_set k a m) + (case om_get m k of Some b \<Rightarrow> if registrar b = ''LV'' then 1 else 0 | None \<Rightarrow> 0)
       = leaving m + (if registrar a = ''LV'' then 1 else 0)"
  using assms
proof (induction k a m rule: om_set.induct)
  case (2 k a k' b m)
  show ?case
  proof (cases "k < k'")
    case True
    then have "om_get m k = None"
      using "2.prems" by (auto simp: om_ok_Cons map_of_eq_None_iff)
    moreover have "k \<noteq> k'" using True by simp
    ultimately show ?thesis using True by simp
  next
    case False
    with 2 show ?thesis by (auto simp: om_ok_Cons split: if_splits)
  qed
qed simp

text \<open>Moving one registrar moves the count by exactly what its label says.\<close>

lemma setRegistrar_count:
  assumes "mrpSetRegistrar a lv to ts n why = (a', lv')"
    and "reg_label a = ''LV'' \<Longrightarrow> 0 < lv" and "to \<noteq> []"
  shows "lv' + (if reg_label a = ''LV'' then 1 else 0) = lv + (if reg_label a' = ''LV'' then 1 else 0)"
    and "reg_label a' = to \<and> registrar a' = (if reg_label a = to then registrar a else to)"
  using assms by (auto simp: mrpSetRegistrar_def reg_label_def Let_def split: if_splits)

lemma setRegistrar_frame:
  assumes "mrpSetRegistrar a lv to ts n why = (a', lv')"
  shows "ma_proto a' = ma_proto a" "ma_kind a' = ma_kind a" "ma_key a' = ma_key a"
    "ma_source a' = ma_source a" "ma_log a' = ma_log a" "leaveTimerStart a' = leaveTimerStart a"
    "length (ma_hist a) \<le> kMrpHistCap \<Longrightarrow> length (ma_hist a') \<le> kMrpHistCap"
  using assms by (auto simp: mrpSetRegistrar_def Let_def push_cap_len split: if_splits)

lemma setRegistrar_hist:
  assumes "mrpSetRegistrar a lv to ts n why = (a', lv')" and "to \<noteq> []"
    and "hist_ok (reg_label a) (ma_hist a)"
  shows "hist_ok (reg_label a') (ma_hist a')"
proof -
  have "a' = regStep ts n to why a"
    using assms(1) by (auto simp: regStep_def mrpSetRegistrar_def Let_def split: if_splits)
  with reg.step_consistent [of a to ts n why] assms(2,3) show ?thesis
    by (simp add: reg.consistent_def)
qed

lemma setRegistrar_ok:
  assumes "mrpSetRegistrar a lv to ts n why = (a', lv')"
    and "registrar a \<in> {''MT'', ''IN'', ''LV''}" and "to \<in> {''MT'', ''IN'', ''LV''}"
    and "hist_ok (registrar a) (ma_hist a)" and "length (ma_hist a) \<le> kMrpHistCap"
  shows "registrar a' = to" "hist_ok to (ma_hist a')" "length (ma_hist a') \<le> kMrpHistCap"
proof -
  have ne: "registrar a \<noteq> []" "to \<noteq> []" using assms(2,3) by auto
  then have lbl: "reg_label a = registrar a" by (simp add: reg_label_def)
  from ne assms(1) show r: "registrar a' = to"
    by (auto simp: mrpSetRegistrar_def Let_def reg_label_def split: if_splits)
  show "hist_ok to (ma_hist a')"
    using setRegistrar_hist [OF assms(1) ne(2)] assms(4) lbl r ne(2) by (simp add: reg_label_def)
  show "length (ma_hist a') \<le> kMrpHistCap"
    by (rule setRegistrar_frame(7) [OF assms(1) assms(5)])
qed

abbreviation LV1 :: "mrp_attr \<Rightarrow> nat" where
  "LV1 a \<equiv> (if registrar a = ''LV'' then 1 else 0)"

lemma setRegistrar_LV:
  assumes "mrpSetRegistrar a lv to ts n why = (a', lv')" and "registrar a = ''LV'' \<Longrightarrow> 0 < lv"
    and "to \<noteq> []"
  shows "lv' + LV1 a = lv + LV1 a'"
  using assms by (auto simp: mrpSetRegistrar_def Let_def reg_label_def split: if_splits)

text \<open>The two loops over all registrars.\<close>

lemma leaveAllBody_ok:
  assumes "leaveAllBody pr knd ts n a lv = (a', lv')" and "attr_ok k a"
  shows "attr_ok k a'" and "(registrar a = ''LV'' \<Longrightarrow> 0 < lv) \<Longrightarrow> lv' + LV1 a = lv + LV1 a'"
proof -
  have *: "attr_ok k a' \<and> ((registrar a = ''LV'' \<longrightarrow> 0 < lv) \<longrightarrow> lv' + LV1 a = lv + LV1 a')"
  proof (cases "ma_proto a \<noteq> pr \<or> ma_kind a \<noteq> knd \<or> registrar a \<noteq> ''IN''")
    case True
    then show ?thesis using assms by (auto simp: leaveAllBody_def)
  next
    case False
    let ?a = "a\<lparr>leaveTimerStart := ts, lastEvent := ''LeaveAll'', lastEventTs := ts,
                eventCount := eventCount a + 1\<rparr>"
    obtain b l where b: "mrpSetRegistrar ?a lv ''LV'' ts n
        (cat [''rLA (LeaveAll)'', emdash, ''leaving, leavetimer started'']) = (b, l)" by force
    with False assms(1) have a': "lv' = l"
      "a' = b\<lparr>ma_log := push_cap kMrpLogCap
             \<lparr>l_ts = ts, l_n = n, l_event = ''LeaveAll'', l_after = ''LV''\<rparr> (ma_log b)\<rparr>"
      by (simp_all add: leaveAllBody_def)
    have "registrar b = ''LV''" "hist_ok ''LV'' (ma_hist b)" "length (ma_hist b) \<le> kMrpHistCap"
      using setRegistrar_ok [OF b] assms(2) False by (auto simp: attr_ok_def)
    moreover have "l + LV1 ?a = lv + LV1 b" using setRegistrar_LV [OF b] False by simp
    ultimately show ?thesis
      using setRegistrar_frame [OF b] assms(2) False a' by (auto simp: attr_ok_def push_cap_len)
  qed
  then show "attr_ok k a'" and "(registrar a = ''LV'' \<Longrightarrow> 0 < lv) \<Longrightarrow> lv' + LV1 a = lv + LV1 a'"
    by blast+
qed

lemma tickBody_ok:
  assumes "tickBody ts a lv = (a', lv')" and "attr_ok k a"
  shows "attr_ok k a'" and "(registrar a = ''LV'' \<Longrightarrow> 0 < lv) \<Longrightarrow> lv' + LV1 a = lv + LV1 a'"
proof -
  have *: "attr_ok k a' \<and> ((registrar a = ''LV'' \<longrightarrow> 0 < lv) \<longrightarrow> lv' + LV1 a = lv + LV1 a')"
  proof (cases "registrar a = ''LV'' \<and> leaveTimerStart a \<ge> 0 \<and> ts > leaveTimerStart a + kMrpLeaveTimeS")
    case False
    then show ?thesis using assms by (auto simp: tickBody_def)
  next
    case True
    obtain b l where b: "mrpSetRegistrar a lv ''MT'' ts 0
        (cat [''leavetimer expired'', emdash, ''deregistered'']) = (b, l)" by force
    with True assms(1) have a': "lv' = l" "a' = b\<lparr>leaveTimerStart := -1\<rparr>"
      by (simp_all add: tickBody_def)
    have "registrar b = ''MT''" "hist_ok ''MT'' (ma_hist b)" "length (ma_hist b) \<le> kMrpHistCap"
      using setRegistrar_ok [OF b] assms(2) by (auto simp: attr_ok_def)
    then show ?thesis
      using setRegistrar_LV [OF b] setRegistrar_frame [OF b] assms(2) a' by (auto simp: attr_ok_def)
  qed
  then show "attr_ok k a'" and "(registrar a = ''LV'' \<Longrightarrow> 0 < lv) \<Longrightarrow> lv' + LV1 a = lv + LV1 a'"
    by blast+
qed

lemma om_iter_leaving:
  assumes "om_all attr_ok m" and "lv = c + leaving m"
    and "\<And>k a lv a' lv'. attr_ok k a \<Longrightarrow> f k a lv = (a', lv') \<Longrightarrow>
          (registrar a = ''LV'' \<Longrightarrow> 0 < lv) \<Longrightarrow> lv' + LV1 a = lv + LV1 a'"
  shows "snd (om_iter f m lv) = c + leaving (fst (om_iter f m lv))"
  using assms
proof (induction f m lv arbitrary: c rule: om_iter.induct)
  case (2 f k a m lv)
  obtain a' lv' where f: "f k a lv = (a', lv')" by force
  obtain m' lv'' where m: "om_iter f m lv' = (m', lv'')" by force
  have "lv' + LV1 a = lv + LV1 a'"
    using "2.prems"(3) [OF _ f] "2.prems"(1,2) by auto
  then have "lv' = (c + LV1 a') + leaving m" using "2.prems"(2) by auto
  then have "lv'' = (c + LV1 a') + leaving m'"
    using "2.IH" [of "(a', lv')" a' lv' "c + LV1 a'"] f m "2.prems"(1,3) by simp
  then show ?case using f m by simp
qed simp

lemma reg_inv_init [simp]: "reg_inv SharedModel"
  by (simp add: reg_inv_def SharedModel_def)

lemma reg_inv_leaveAll [inv_intros]: "reg_inv sh \<Longrightarrow> reg_inv (mrpLeaveAll pr knd ts n sh)"
proof -
  assume inv: "reg_inv sh"
  let ?f = "\<lambda>k a lv. leaveAllBody pr knd ts n a lv"
  obtain m lv where m: "om_iter ?f (mrpAttrs sh) (mrpLvCount sh) = (m, lv)" by force
  have "om_ok m" using inv m om_ok_iter [of "mrpAttrs sh" ?f "mrpLvCount sh"] by (simp add: reg_inv_def)
  moreover have "om_all attr_ok m"
    using om_all_iter [of attr_ok "mrpAttrs sh" attr_ok ?f "mrpLvCount sh"] inv m
    by (metis fst_conv leaveAllBody_ok(1) reg_inv_def surj_pair)
  moreover have "lv = leaving m"
    using om_iter_leaving [of "mrpAttrs sh" "mrpLvCount sh" 0 ?f] inv m
    by (simp add: reg_inv_def leaveAllBody_ok(2))
  ultimately show ?thesis using m by (simp add: reg_inv_def mrpLeaveAll_def)
qed

lemma reg_inv_tick [inv_intros]: "reg_inv sh \<Longrightarrow> reg_inv (mrpTick ts sh)"
proof -
  assume inv: "reg_inv sh"
  let ?f = "\<lambda>k a lv. tickBody ts a lv"
  obtain m lv where m: "om_iter ?f (mrpAttrs sh) (mrpLvCount sh) = (m, lv)" by force
  have "om_ok m" using inv m om_ok_iter [of "mrpAttrs sh" ?f "mrpLvCount sh"] by (simp add: reg_inv_def)
  moreover have "om_all attr_ok m"
    using om_all_iter [of attr_ok "mrpAttrs sh" attr_ok ?f "mrpLvCount sh"] inv m
    by (metis fst_conv tickBody_ok(1) reg_inv_def surj_pair)
  moreover have "lv = leaving m"
    using om_iter_leaving [of "mrpAttrs sh" "mrpLvCount sh" 0 ?f] inv m
    by (simp add: reg_inv_def tickBody_ok(2))
  ultimately show ?thesis using m inv by (simp add: reg_inv_def mrpTick_def)
qed

lemma mrpSwitch_ok:
  assumes sw: "mrpSwitch ev ts n a lv = (a', lv')"
    and ok: "attr_ok k a" and lv: "registrar a = ''LV'' \<Longrightarrow> 0 < lv"
  shows "attr_ok k a' \<and> lv' + LV1 a = lv + LV1 a'"
proof -
  have mem: "registrar a \<in> {''MT'', ''IN'', ''LV''}" "hist_ok (registrar a) (ma_hist a)"
    "length (ma_hist a) \<le> kMrpHistCap" using ok by (auto simp: attr_ok_def)
  have join: "attr_ok k (b\<lparr>leaveTimerStart := -1\<rparr>) \<and> l + LV1 a = lv + LV1 (b\<lparr>leaveTimerStart := -1\<rparr>)"
    if b: "mrpSetRegistrar a lv ''IN'' ts n why = (b, l)" for why b l
    using setRegistrar_ok [OF b mem(1) _ mem(2,3)] setRegistrar_frame [OF b] setRegistrar_LV [OF b lv] ok
    by (auto simp: attr_ok_def)
  have leave: "attr_ok k b \<and> l + LV1 a = lv + LV1 b"
    if b: "mrpSetRegistrar (a\<lparr>leaveTimerStart := ts\<rparr>) lv ''LV'' ts n why = (b, l)" for why b l
    using setRegistrar_ok [OF b] setRegistrar_frame [OF b] setRegistrar_LV [OF b] lv mem ok
    by (auto simp: attr_ok_def)
  show ?thesis
  proof (cases "ev = 0 \<or> ev = 1 \<or> ev = 3")
    case True
    then obtain why b l where "mrpSetRegistrar a lv ''IN'' ts n why = (b, l)"
      and "a' = b\<lparr>leaveTimerStart := -1\<rparr>" "lv' = l"
      using sw by (auto simp: mrpSwitch_def split: prod.splits)
    with join show ?thesis by blast
  next
    case other: False
    show ?thesis
    proof (cases "ev = 5 \<and> registrar a = ''IN''")
      case True
      then obtain why where "mrpSetRegistrar (a\<lparr>leaveTimerStart := ts\<rparr>) lv ''LV'' ts n why = (a', lv')"
        using sw by (auto simp: mrpSwitch_def)
      then show ?thesis by (rule leave)
    next
      case False
      with other have "a' = a" "lv' = lv" using sw by (auto simp: mrpSwitch_def split: if_splits)
      with ok show ?thesis by simp
    qed
  qed
qed

lemma reg_inv_event [inv_intros]:
  assumes inv: "reg_inv sh"
  shows "reg_inv (mrpEvent pr knd key source ev ts n sh)"
proof -
  let ?k = "(proto_id pr, key, source)"
  let ?a0 = "om_at MrpAttr (mrpAttrs sh) ?k"
  let ?a1 = "?a0\<lparr>ma_proto := pr, ma_kind := knd, ma_key := key, ma_source := source,
                  lastEventTs := ts, eventCount := eventCount ?a0 + 1, lastEvent := mrpEventName ev,
                  registrar := reg_label ?a0\<rparr>"
  have ok0: "om_ok (mrpAttrs sh)" "om_all attr_ok (mrpAttrs sh)" using inv by (simp_all add: reg_inv_def)
  have ok1: "attr_ok ?k ?a1"
    using om_all_get [OF ok0(2), of ?k]
    by (cases "om_get (mrpAttrs sh) ?k") (auto simp: om_at_def attr_ok_def MrpAttr_def reg_label_def)
  have old: "(case om_get (mrpAttrs sh) ?k of Some b \<Rightarrow> LV1 b | None \<Rightarrow> 0) = LV1 ?a1"
    using om_all_get [OF ok0(2), of ?k]
    by (cases "om_get (mrpAttrs sh) ?k") (auto simp: om_at_def attr_ok_def MrpAttr_def reg_label_def)
  have le: "(case om_get (mrpAttrs sh) ?k of Some b \<Rightarrow> LV1 b | None \<Rightarrow> 0) \<le> leaving (mrpAttrs sh)"
    using leaving_set [OF ok0(1), of ?k MrpAttr] by (simp add: MrpAttr_def)
  obtain a2 lv where sw: "mrpSwitch ev ts n ?a1 (mrpLvCount sh) = (a2, lv)" by force
  let ?a3 = "a2\<lparr>ma_log := push_cap kMrpLogCap
      \<lparr>l_ts = ts, l_n = n, l_event = mrpEventName ev, l_after = registrar a2\<rparr> (ma_log a2)\<rparr>"
  have pos: "registrar ?a1 = ''LV'' \<Longrightarrow> 0 < mrpLvCount sh"
    using le old inv by (simp add: reg_inv_def split: if_splits)
  have a2: "attr_ok ?k a2" "lv + LV1 ?a1 = mrpLvCount sh + LV1 a2"
    using mrpSwitch_ok [OF sw ok1 pos] by auto
  then have "attr_ok ?k ?a3" by (simp add: attr_ok_def push_cap_len)
  moreover have "lv = leaving (om_set ?k ?a3 (mrpAttrs sh))"
    using leaving_set [OF ok0(1), of ?k ?a3] old a2(2) inv by (simp add: reg_inv_def)
  ultimately show ?thesis
    using ok0 sw by (simp add: mrpEvent_def Let_def reg_inv_def om_all_set)
qed

section \<open>Refinement of the registrar table\<close>

text \<open>The Registrar of IEEE 802.1Q, Table 10-4, as far as it can be observed.\<close>

datatype reg_state = RegMT | RegIN | RegLV

definition reg_table :: "int \<Rightarrow> reg_state \<Rightarrow> reg_state" where
  "reg_table ev s =
     (if ev \<in> {0, 1, 3} then RegIN else if ev = 5 \<and> s = RegIN then RegLV else s)"

definition reg_of :: "string \<Rightarrow> reg_state" where
  "reg_of s = (if s = ''IN'' then RegIN else if s = ''LV'' then RegLV else RegMT)"

definition abs_reg :: "shared \<Rightarrow> mrp_key \<Rightarrow> reg_state" where
  "abs_reg sh k = (case om_get (mrpAttrs sh) k of None \<Rightarrow> RegMT | Some a \<Rightarrow> reg_of (registrar a))"

lemma setRegistrar_to: "mrpSetRegistrar a lv to ts n why = (a', lv') \<Longrightarrow> registrar a \<noteq> [] \<Longrightarrow> registrar a' = to"
  by (auto simp: mrpSetRegistrar_def Let_def reg_label_def split: if_splits)

lemma mrpSwitch_table:
  assumes "mrpSwitch ev ts n a lv = (a', lv')" and "registrar a \<noteq> []"
  shows "reg_of (registrar a') = reg_table ev (reg_of (registrar a))"
  using assms
  by (auto simp: mrpSwitch_def reg_table_def reg_of_def dest!: setRegistrar_to
      split: if_splits prod.splits)

lemma abs_reg_event:
  "abs_reg (mrpEvent pr knd key source ev ts n sh) =
     (abs_reg sh)((proto_id pr, key, source) := reg_table ev (abs_reg sh (proto_id pr, key, source)))"
proof -
  let ?k = "(proto_id pr, key, source)"
  let ?a0 = "om_at MrpAttr (mrpAttrs sh) ?k"
  let ?a1 = "?a0\<lparr>ma_proto := pr, ma_kind := knd, ma_key := key, ma_source := source,
                  lastEventTs := ts, eventCount := eventCount ?a0 + 1, lastEvent := mrpEventName ev,
                  registrar := reg_label ?a0\<rparr>"
  obtain a2 lv where sw: "mrpSwitch ev ts n ?a1 (mrpLvCount sh) = (a2, lv)" by force
  have "reg_of (registrar a2) = reg_table ev (reg_of (reg_label ?a0))"
    using mrpSwitch_table [OF sw] by (simp add: reg_label_def)
  moreover have "reg_of (reg_label ?a0) = abs_reg sh ?k"
    by (auto simp: abs_reg_def om_at_def reg_label_def reg_of_def MrpAttr_def split: option.splits)
  ultimately show ?thesis
    using sw by (auto simp: mrpEvent_def Let_def abs_reg_def om_get_set fun_eq_iff)
qed

lemma om_iter_get:
  assumes "\<And>k v s. fst (f k v s) = g k v"
  shows "map_of (fst (om_iter f m s)) k = map_option (g k) (map_of m k)"
  using assms
proof (induction f m s rule: om_iter.induct)
  case (2 f k' v m s)
  obtain v' s' where f: "f k' v s = (v', s')" by force
  obtain m' s'' where m: "om_iter f m s' = (m', s'')" by force
  have "v' = g k' v" using "2.prems" [of k' v s] f by simp
  then show ?case using "2.IH" [of "(v', s')" v' s'] "2.prems" f m by auto
qed simp

lemma fst_setRegistrar: "fst (mrpSetRegistrar a lv to ts n why) = fst (mrpSetRegistrar a 0 to ts n why)"
  by (simp add: mrpSetRegistrar_def Let_def)

lemma fst_leaveAllBody: "fst (leaveAllBody pr knd ts n a lv) = fst (leaveAllBody pr knd ts n a 0)"
  by (simp add: leaveAllBody_def case_prod_beta fst_setRegistrar [of _ lv])

lemma fst_tickBody: "fst (tickBody ts a lv) = fst (tickBody ts a 0)"
  by (simp add: tickBody_def case_prod_beta fst_setRegistrar [of _ lv])

lemma registrar_leaveAll:
  "om_get (mrpAttrs (mrpLeaveAll pr knd ts n sh)) k =
     map_option (\<lambda>a. fst (leaveAllBody pr knd ts n a 0)) (om_get (mrpAttrs sh) k)"
  using om_iter_get [of "\<lambda>k a lv. leaveAllBody pr knd ts n a lv" "\<lambda>k a. fst (leaveAllBody pr knd ts n a 0)"
      "mrpAttrs sh" "mrpLvCount sh" k] fst_leaveAllBody
  by (auto simp: mrpLeaveAll_def split: prod.splits)

lemma registrar_tick:
  assumes "reg_inv sh"
  shows "om_get (mrpAttrs (mrpTick ts sh)) k =
     map_option (\<lambda>a. fst (tickBody ts a 0)) (om_get (mrpAttrs sh) k)"
proof (cases "mrpLvCount sh = 0")
  case True
  have "registrar a \<noteq> ''LV''" if "om_get (mrpAttrs sh) k = Some a" for a
  proof -
    have "leaving (mrpAttrs sh) = 0" using True assms by (simp add: reg_inv_def)
    then have "\<forall>(k, a) \<in> set (mrpAttrs sh). registrar a \<noteq> ''LV''"
      by (auto simp: leaving_def filter_empty_conv)
    with map_of_SomeD [OF that] show ?thesis by blast
  qed
  then show ?thesis using True by (cases "om_get (mrpAttrs sh) k") (auto simp: mrpTick_def tickBody_def)
next
  case False
  then show ?thesis
    using om_iter_get [of "\<lambda>k a lv. tickBody ts a lv" "\<lambda>k a. fst (tickBody ts a 0)"
        "mrpAttrs sh" "mrpLvCount sh" k] fst_tickBody
    by (auto simp: mrpTick_def split: prod.splits)
qed

section \<open>What the registrar leaves alone\<close>

lemma mrpEvent_frame [simp]:
  "establishedStreams (mrpEvent pr knd key src ev ts n sh) = establishedStreams sh"
  "msrpTalkerDecl (mrpEvent pr knd key src ev ts n sh) = msrpTalkerDecl sh"
  "adpAvailable (mrpEvent pr knd key src ev ts n sh) = adpAvailable sh"
  "gptpDomains (mrpEvent pr knd key src ev ts n sh) = gptpDomains sh"
  "entityNames (mrpEvent pr knd key src ev ts n sh) = entityNames sh"
  unfolding mrpEvent_def Let_def case_prod_beta by simp_all

lemma mrpLeaveAll_frame [simp]:
  "establishedStreams (mrpLeaveAll pr knd ts n sh) = establishedStreams sh"
  "msrpTalkerDecl (mrpLeaveAll pr knd ts n sh) = msrpTalkerDecl sh"
  "adpAvailable (mrpLeaveAll pr knd ts n sh) = adpAvailable sh"
  "gptpDomains (mrpLeaveAll pr knd ts n sh) = gptpDomains sh"
  "entityNames (mrpLeaveAll pr knd ts n sh) = entityNames sh"
  unfolding mrpLeaveAll_def case_prod_beta by simp_all

lemma mrpTick_frame [simp]:
  "establishedStreams (mrpTick ts sh) = establishedStreams sh"
  "msrpTalkerDecl (mrpTick ts sh) = msrpTalkerDecl sh"
  "adpAvailable (mrpTick ts sh) = adpAvailable sh"
  "gptpDomains (mrpTick ts sh) = gptpDomains sh"
  "entityNames (mrpTick ts sh) = entityNames sh"
  unfolding mrpTick_def case_prod_beta by simp_all

section \<open>The interface of a logic module\<close>

text \<open>
  \<open>AvbLogicBase\<close>: what the engine calls on a module attached to the shared model.  The
  contract: \<open>good\<close>, the module's invariant together with what it publishes, is kept by every
  call, and no call writes the part \<open>foreign\<close> of the shared model, which other modules own.
\<close>

locale avb_logic =
  fixes onDecode :: "var_ctx \<Rightarrow> 'm \<times> shared option \<Rightarrow> 'm \<times> shared option"
    and onTimeTick :: "double \<Rightarrow> 'm \<times> shared option \<Rightarrow> 'm \<times> shared option"
    and good :: "'m \<Rightarrow> shared \<Rightarrow> bool"
    and foreign :: "shared \<Rightarrow> 'v"
  assumes decode_foreign: "map_option foreign (snd (onDecode v (m, sh))) = map_option foreign sh"
    and tick_foreign: "map_option foreign (snd (onTimeTick ts (m, sh))) = map_option foreign sh"
    and decode_good: "good m s \<Longrightarrow> onDecode v (m, Some s) = (m', Some s') \<Longrightarrow> good m' s'"
    and tick_good: "good m s \<Longrightarrow> onTimeTick ts (m, Some s) = (m', Some s') \<Longrightarrow> good m' s'"
begin

lemma decode_attached:
  obtains m' s' where "onDecode v (m, Some s) = (m', Some s')" and "foreign s' = foreign s"
  using decode_foreign [of v m "Some s"] by (cases "onDecode v (m, Some s)") auto

lemma tick_attached:
  obtains m' s' where "onTimeTick ts (m, Some s) = (m', Some s')" and "foreign s' = foreign s"
  using tick_foreign [of ts m "Some s"] by (cases "onTimeTick ts (m, Some s)") auto

text \<open>Any sequence of frames and ticks.\<close>

lemma run_good:
  assumes "good m s"
  shows "\<exists>m' s'. fold (\<lambda>x. case x of Inl v \<Rightarrow> onDecode v | Inr ts \<Rightarrow> onTimeTick ts) xs (m, Some s) = (m', Some s') \<and>
    good m' s' \<and> foreign s' = foreign s"
  using assms
proof (induction xs arbitrary: m s)
  case (Cons x xs)
  obtain m' s' where step: "(case x of Inl v \<Rightarrow> onDecode v | Inr ts \<Rightarrow> onTimeTick ts) (m, Some s) = (m', Some s')"
    and g: "good m' s'" and f: "foreign s' = foreign s"
  proof (cases x)
    case (Inl v)
    obtain m' s' where d: "onDecode v (m, Some s) = (m', Some s')" "foreign s' = foreign s"
      by (rule decode_attached)
    with that [of m' s'] Inl decode_good [OF Cons.prems d(1)] show thesis by simp
  next
    case (Inr ts)
    obtain m' s' where d: "onTimeTick ts (m, Some s) = (m', Some s')" "foreign s' = foreign s"
      by (rule tick_attached)
    with that [of m' s'] Inr tick_good [OF Cons.prems d(1)] show thesis by simp
  qed
  show ?case using Cons.IH [OF g] step f by simp
qed simp

end

text \<open>The shared model without what the registrar writes.\<close>

definition except_mrp :: "shared \<Rightarrow> shared" where
  "except_mrp s = s\<lparr>mrpAttrs := [], mrpLvCount := 0\<rparr>"

lemma except_mrp_ops [simp]:
  "except_mrp (mrpEvent pr knd key src ev ts n sh) = except_mrp sh"
  "except_mrp (mrpLeaveAll pr knd ts n sh) = except_mrp sh"
  "except_mrp (mrpTick ts sh) = except_mrp sh"
  by (simp_all add: except_mrp_def mrpEvent_def mrpLeaveAll_def mrpTick_def Let_def split: prod.split)

lemma map_except_mrp [simp]:
  "map_option (except_mrp \<circ> mrpEvent pr knd key src ev ts n) sh = map_option except_mrp sh"
  "map_option (except_mrp \<circ> mrpLeaveAll pr knd ts n) sh = map_option except_mrp sh"
  "map_option (except_mrp \<circ> mrpTick ts) sh = map_option except_mrp sh"
  by (cases sh; simp)+

section \<open>LeaveAll, the leave timer and the early return\<close>

lemma abs_reg_leaveAll:
  "abs_reg (mrpLeaveAll pr knd ts n sh) k =
     (case om_get (mrpAttrs sh) k of None \<Rightarrow> RegMT
      | Some a \<Rightarrow> if ma_proto a = pr \<and> ma_kind a = knd \<and> reg_of (registrar a) = RegIN
                  then RegLV else reg_of (registrar a))"
proof (cases "om_get (mrpAttrs sh) k")
  case None
  then show ?thesis by (simp add: abs_reg_def registrar_leaveAll)
next
  case (Some a)
  have "reg_of (registrar (fst (leaveAllBody pr knd ts n a 0))) =
      (if ma_proto a = pr \<and> ma_kind a = knd \<and> registrar a = ''IN'' then RegLV else reg_of (registrar a))"
    by (auto simp: leaveAllBody_def mrpSetRegistrar_def reg_label_def reg_of_def Let_def)
  then show ?thesis using Some by (auto simp: abs_reg_def registrar_leaveAll reg_of_def)
qed

lemma abs_reg_tick:
  assumes "reg_inv sh"
  shows "abs_reg (mrpTick ts sh) k =
     (case om_get (mrpAttrs sh) k of None \<Rightarrow> RegMT
      | Some a \<Rightarrow> if registrar a = ''LV'' \<and> 0 \<le> leaveTimerStart a \<and> leaveTimerStart a + kMrpLeaveTimeS < ts
                  then RegMT else reg_of (registrar a))"
proof (cases "om_get (mrpAttrs sh) k")
  case None
  then show ?thesis by (simp add: abs_reg_def registrar_tick [OF assms])
next
  case (Some a)
  have "reg_of (registrar (fst (tickBody ts a 0))) =
      (if registrar a = ''LV'' \<and> 0 \<le> leaveTimerStart a \<and> leaveTimerStart a + kMrpLeaveTimeS < ts
       then RegMT else reg_of (registrar a))"
    by (auto simp: tickBody_def mrpSetRegistrar_def reg_label_def reg_of_def Let_def)
  then show ?thesis using Some by (auto simp: abs_reg_def registrar_tick [OF assms])
qed

text \<open>The sweep without the early return.\<close>

definition tick_sweep :: "double \<Rightarrow> shared \<Rightarrow> shared" where
  "tick_sweep ts sh = (case om_iter (\<lambda>k a lv. tickBody ts a lv) (mrpAttrs sh) (mrpLvCount sh) of
     (m, lv) \<Rightarrow> sh\<lparr>mrpAttrs := m, mrpLvCount := lv\<rparr>)"

lemma om_iter_noop: "om_all (\<lambda>k v. \<forall>s. f k v s = (v, s)) m \<Longrightarrow> om_iter f m s = (m, s)"
  by (induction m arbitrary: s) auto

lemma mrpTick_sweep:
  assumes "reg_inv sh"
  shows "mrpTick ts sh = tick_sweep ts sh"
proof (cases "mrpLvCount sh = 0")
  case True
  then have "\<forall>(k, a) \<in> set (mrpAttrs sh). registrar a \<noteq> ''LV''"
    using assms by (auto simp: reg_inv_def leaving_def filter_empty_conv)
  then have "om_iter (\<lambda>k a lv. tickBody ts a lv) (mrpAttrs sh) (mrpLvCount sh) = (mrpAttrs sh, mrpLvCount sh)"
    by (intro om_iter_noop) (auto simp: om_all_def tickBody_def)
  then show ?thesis using True by (simp add: mrpTick_def tick_sweep_def)
next
  case False
  then show ?thesis by (simp add: mrpTick_def tick_sweep_def)
qed

section \<open>Refinement over whole runs\<close>

text \<open>What the rest of the program calls, as a history, and the registrar it leaves behind.\<close>

datatype mrp_call =
    MrpHeard proto string string u64 int double u32
  | MrpLeaveAllHeard proto string double u32
  | MrpTicked double

primrec mrp_do :: "mrp_call \<Rightarrow> shared \<Rightarrow> shared" where
  "mrp_do (MrpHeard pr knd key source ev ts n) = mrpEvent pr knd key source ev ts n"
| "mrp_do (MrpLeaveAllHeard pr knd ts n) = mrpLeaveAll pr knd ts n"
| "mrp_do (MrpTicked ts) = mrpTick ts"

text \<open>
  The reference: one machine per (protocol, attribute, source), which knows the attribute's
  type, its state of Table 10-4 and when its leave timer was started, and reads only the calls
  that concern it.
\<close>

type_synonym reg_machine = "string \<times> reg_state \<times> double"

definition reg_leaves :: "double \<Rightarrow> reg_machine \<Rightarrow> reg_machine" where
  "reg_leaves ts m = (case m of (knd, RegIN, _) \<Rightarrow> (knd, RegLV, ts) | _ \<Rightarrow> m)"

definition reg_hears :: "int \<Rightarrow> double \<Rightarrow> reg_machine \<Rightarrow> reg_machine" where
  "reg_hears ev ts m = (case m of (knd, s, t) \<Rightarrow>
     if ev \<in> {0, 1, 3} then (knd, RegIN, -1) else if ev = 5 then reg_leaves ts m else m)"

definition reg_waits :: "double \<Rightarrow> reg_machine \<Rightarrow> reg_machine" where
  "reg_waits ts m = (case m of
     (knd, RegLV, t) \<Rightarrow> if 0 \<le> t \<and> t + 1 < ts then (knd, RegMT, -1) else m | _ \<Rightarrow> m)"

primrec reg_reads :: "mrp_key \<Rightarrow> mrp_call \<Rightarrow> reg_machine \<Rightarrow> reg_machine" where
  "reg_reads k (MrpHeard pr knd key source ev ts n) m =
     (if (proto_id pr, key, source) = k then reg_hears ev ts (knd, snd m) else m)"
| "reg_reads k (MrpLeaveAllHeard pr knd ts n) m =
     (if proto_id pr = fst k \<and> knd = fst m then reg_leaves ts m else m)"
| "reg_reads k (MrpTicked ts) m = reg_waits ts m"

definition machine_of :: "mrp_attr \<Rightarrow> reg_machine" where
  "machine_of a = (ma_kind a, reg_of (registrar a), leaveTimerStart a)"

definition reg_machine_at :: "shared \<Rightarrow> mrp_key \<Rightarrow> reg_machine" where
  "reg_machine_at sh k = machine_of (om_at MrpAttr (mrpAttrs sh) k)"

lemma switch_machine:
  assumes "registrar a \<in> {''MT'', ''IN'', ''LV''}"
  shows "machine_of (fst (mrpSwitch ev ts n a lv)) = reg_hears ev ts (machine_of a)"
  using assms
  by (auto simp: mrpSwitch_def mrpSetRegistrar_def machine_of_def reg_label_def reg_hears_def
      reg_leaves_def reg_of_def Let_def)

lemma leaveAll_machine:
  "registrar a \<in> {''MT'', ''IN'', ''LV''} \<Longrightarrow> machine_of (fst (leaveAllBody pr knd ts n a lv)) =
     (if ma_proto a = pr \<and> knd = ma_kind a then reg_leaves ts (machine_of a) else machine_of a)"
  by (auto simp: leaveAllBody_def mrpSetRegistrar_def machine_of_def reg_label_def
      reg_leaves_def reg_of_def Let_def)

lemma tick_machine:
  "registrar a \<in> {''MT'', ''IN'', ''LV''} \<Longrightarrow> machine_of (fst (tickBody ts a lv)) = reg_waits ts (machine_of a)"
  by (auto simp: tickBody_def mrpSetRegistrar_def machine_of_def reg_label_def
      reg_waits_def reg_of_def Let_def kMrpLeaveTimeS_def)

lemma machine_fresh [simp]: "machine_of MrpAttr = ('''', RegMT, -1)"
  by (simp add: machine_of_def MrpAttr_def reg_of_def)

lemma attr_machine: "reg_inv sh \<Longrightarrow> om_get (mrpAttrs sh) k = Some a \<Longrightarrow> attr_ok k a"
  by (auto simp: reg_inv_def om_all_def dest: map_of_SomeD)

lemma mrp_do_inv: "reg_inv sh \<Longrightarrow> reg_inv (mrp_do c sh)"
  by (cases c) (simp_all add: inv_intros)

lemma event_machine:
  assumes "reg_inv sh"
  shows "reg_machine_at (mrpEvent pr knd key source ev ts n sh) k =
     reg_reads k (MrpHeard pr knd key source ev ts n) (reg_machine_at sh k)"
proof -
  let ?k = "(proto_id pr, key, source)"
  let ?a0 = "om_at MrpAttr (mrpAttrs sh) ?k"
  let ?a1 = "?a0\<lparr>ma_proto := pr, ma_kind := knd, ma_key := key, ma_source := source,
                  lastEventTs := ts, eventCount := eventCount ?a0 + 1, lastEvent := mrpEventName ev,
                  registrar := reg_label ?a0\<rparr>"
  have "registrar ?a0 \<in> {'''', ''MT'', ''IN'', ''LV''}"
    using attr_machine [OF assms, of ?k] by (auto simp: om_at_def MrpAttr_def attr_ok_def split: option.split)
  then have "registrar ?a1 \<in> {''MT'', ''IN'', ''LV''}" "machine_of ?a1 = (knd, snd (machine_of ?a0))"
    by (auto simp: reg_label_def machine_of_def reg_of_def)
  then have "machine_of (fst (mrpSwitch ev ts n ?a1 (mrpLvCount sh))) = reg_hears ev ts (knd, snd (machine_of ?a0))"
    using switch_machine [of ?a1 ev ts n "mrpLvCount sh"] by simp
  moreover have "machine_of (a\<lparr>ma_log := l\<rparr>) = machine_of a" for a l by (simp add: machine_of_def)
  ultimately show ?thesis
    by (auto simp: mrpEvent_def Let_def case_prod_beta reg_machine_at_def om_at_def om_get_set)
qed

lemma machine_at:
  "reg_machine_at sh k = (case om_get (mrpAttrs sh) k of None \<Rightarrow> machine_of MrpAttr | Some a \<Rightarrow> machine_of a)"
  by (simp add: reg_machine_at_def om_at_def split: option.split)

lemma call_machine:
  assumes "reg_inv sh"
  shows "reg_machine_at (mrp_do c sh) k = reg_reads k c (reg_machine_at sh k)"
proof (cases c)
  case (MrpHeard pr knd key source ev ts n)
  then show ?thesis using event_machine [OF assms] by simp
next
  case (MrpLeaveAllHeard pr knd ts n)
  show ?thesis
  proof (cases "om_get (mrpAttrs sh) k")
    case None
    then show ?thesis by (simp add: MrpLeaveAllHeard machine_at registrar_leaveAll reg_leaves_def)
  next
    case (Some a)
    have ok: "registrar a \<in> {''MT'', ''IN'', ''LV''}" "fst k = proto_id (ma_proto a)"
      using attr_machine [OF assms Some] by (auto simp: attr_ok_def)
    have "fst (machine_of a) = ma_kind a" by (simp add: machine_of_def)
    then show ?thesis
      using leaveAll_machine [OF ok(1), of pr knd ts n 0]
      by (simp add: MrpLeaveAllHeard machine_at registrar_leaveAll Some ok(2) eq_commute)
  qed
next
  case (MrpTicked ts)
  show ?thesis
  proof (cases "om_get (mrpAttrs sh) k")
    case None
    then show ?thesis by (simp add: MrpTicked machine_at registrar_tick [OF assms] reg_waits_def)
  next
    case (Some a)
    have "registrar a \<in> {''MT'', ''IN'', ''LV''}"
      using attr_machine [OF assms Some] by (simp add: attr_ok_def)
    from tick_machine [OF this, of ts 0] show ?thesis
      by (simp add: MrpTicked machine_at registrar_tick [OF assms] Some)
  qed
qed

lemma run_machine:
  "reg_inv sh \<Longrightarrow> reg_machine_at (fold mrp_do cs sh) k = fold (reg_reads k) cs (reg_machine_at sh k) \<and>
     reg_inv (fold mrp_do cs sh)"
  by (induction cs arbitrary: sh) (simp_all add: call_machine mrp_do_inv)

end
