(* ===== verification/Mvrp_Logic.thy ===== *)
theory Mvrp_Logic
  imports Mrp_Registrar
begin

text \<open>
  \<open>backend/src/logic/mvrp_logic.cpp\<close>: VLAN membership per VID as seen on the wire.  A
  VLAN is unknown, \<open>REGISTERED\<close>, \<open>LEAVING\<close> (after a LeaveAll) or \<open>WITHDRAWN\<close>.
  The lemmas characterise every branch of the decoder hook and show that a withdrawn
  VLAN has no members left.
\<close>

section \<open>State\<close>

record vlan =
  vl_members :: "u64 set"
  vl_state :: string
  vl_hist :: "hist_entry list"

definition Vlan :: vlan where
  "Vlan = \<lparr>vl_members = {}, vl_state = '''', vl_hist = []\<rparr>"

record mvrp =
  mVlans :: "(u16, vlan) omap"
  mv_pending :: "transition list"

definition MvrpLogic :: mvrp where
  "MvrpLogic = \<lparr>mVlans = [], mv_pending = []\<rparr>"

section \<open>Operations\<close>

definition vlan_label :: "vlan \<Rightarrow> string" where
  "vlan_label vl = (if vl_state vl = [] then ''UNKNOWN'' else vl_state vl)"

definition vlan_transition ::
    "u16 \<Rightarrow> double \<Rightarrow> u32 \<Rightarrow> string \<Rightarrow> string \<Rightarrow> vlan \<Rightarrow> vlan \<times> transition" where
  "vlan_transition vid ts n to why vl = (let from = vlan_label vl
     in (vl\<lparr>vl_state := to, vl_hist := vl_hist vl @ [HistEntry ts n from to why]\<rparr>,
         \<lparr>t_proto = MVRP, t_object = cat [''vlan '', u_str vid], t_from = from, t_to = to, t_why = why,
          t_summary = cat [''VLAN '', u_str vid, '': '', from, '' -> '', to, emdash, why],
          t_entity = '''', t_stream = ''''\<rparr>))"

text \<open>The body of the LeaveAll loop over all VLANs.\<close>

definition vlan_leaveAll :: "u64 \<Rightarrow> double \<Rightarrow> u32 \<Rightarrow> u16 \<Rightarrow> vlan \<Rightarrow> transition list \<Rightarrow> vlan \<times> transition list" where
  "vlan_leaveAll member ts n vid vl out =
     (if vl_state vl = ''REGISTERED''
      then apsnd (\<lambda>t. out @ [t]) (vlan_transition vid ts n ''LEAVING'' (cat [''LeaveAll from '', macStr member]) vl)
      else (vl, out))"

text \<open>The \<open>switch\<close> on the attribute event for one VLAN.\<close>

definition vlan_event :: "int \<Rightarrow> u64 \<Rightarrow> double \<Rightarrow> u32 \<Rightarrow> u16 \<Rightarrow> vlan \<Rightarrow> vlan \<times> transition list" where
  "vlan_event ev member ts n vid vl =
     (if ev = 0 \<or> ev = 1 \<or> ev = 3 then
        let vl1 = vl\<lparr>vl_members := insert member (vl_members vl)\<rparr>
        in if vl_state vl1 \<noteq> ''REGISTERED''
           then apsnd (\<lambda>t. [t]) (vlan_transition vid ts n ''REGISTERED''
                        (cat [mrpEventName ev, '' from '', macStr member]) vl1)
           else (vl1, [])
      else if ev = 5 then
        let vl1 = vl\<lparr>vl_members := vl_members vl - {member}\<rparr>
        in if vl_members vl1 = {} \<and> vl_state vl1 \<noteq> ''WITHDRAWN''
           then apsnd (\<lambda>t. [t]) (vlan_transition vid ts n ''WITHDRAWN''
                        (cat [''Lv from '', macStr member, '', no members left'']) vl1)
           else (vl1, [])
      else (vl, []))"

definition mvrp_onDecode :: "var_ctx \<Rightarrow> mvrp \<times> shared option \<Rightarrow> mvrp \<times> shared option" where
  "mvrp_onDecode v = (\<lambda>(m, sh).
     let ts = tsOf v; n = numOf v; ev = to_int (ctx_at v ''mrp_event''); member = ctx_at v ''src_mac''
     in if ev = 6 then
          (case om_iter (vlan_leaveAll member ts n) (mVlans m) (mv_pending m) of
             (vls, out) \<Rightarrow> (m\<lparr>mVlans := vls, mv_pending := out\<rparr>,
                            map_option (mrpLeaveAll MVRP ''VID'' ts n) sh))
        else
          let vid = ucast (ctx_at v ''vid'');
              sh' = map_option (mrpEvent MVRP ''VID'' (cat [''VLAN '', u_str vid]) member ev ts n) sh;
              (vl, out) = vlan_event ev member ts n vid (om_at Vlan (mVlans m) vid)
          in (m\<lparr>mVlans := om_set vid vl (mVlans m), mv_pending := mv_pending m @ out\<rparr>, sh'))"

text \<open>The tick of this module drives the leave timers of every registrar, MSRP's too.\<close>

definition mvrp_onTimeTick :: "double \<Rightarrow> mvrp \<times> shared option \<Rightarrow> mvrp \<times> shared option" where
  "mvrp_onTimeTick ts = (\<lambda>(m, sh). (m, map_option (mrpTick ts) sh))"

section \<open>Logged object and invariant\<close>

interpretation vlan: object_log vlan_label vl_hist
    "\<lambda>ts n to why vl. fst (vlan_transition 0 ts n to why vl)"
  by unfold_locales (auto simp: vlan_transition_def Let_def vlan_label_def)

lemma fst_vlan_transition: "fst (vlan_transition vid ts n to why vl) = fst (vlan_transition 0 ts n to why vl)"
  by (simp add: vlan_transition_def Let_def)

definition vlan_ok :: "u16 \<Rightarrow> vlan \<Rightarrow> bool" where
  "vlan_ok vid vl \<longleftrightarrow> finite (vl_members vl) \<and>
     vl_state vl \<in> {'''', ''REGISTERED'', ''LEAVING'', ''WITHDRAWN''} \<and>
     (vl_state vl = ''WITHDRAWN'' \<or> vl_state vl = '''' \<longrightarrow> vl_members vl = {}) \<and>
     hist_ok (vlan_label vl) (vl_hist vl)"

definition mvrp_inv :: "mvrp \<Rightarrow> bool" where
  "mvrp_inv m \<longleftrightarrow> om_ok (mVlans m) \<and> om_all vlan_ok (mVlans m)"

lemma mvrp_inv_init [simp]: "mvrp_inv MvrpLogic"
  by (simp add: mvrp_inv_def MvrpLogic_def)

lemma vlan_ok_init [simp]: "vlan_ok vid Vlan"
  by (simp add: vlan_ok_def Vlan_def)

lemma vlan_transition_hist:
  assumes "hist_ok (vlan_label vl) (vl_hist vl)" and "to \<noteq> []"
  shows "hist_ok (vlan_label (fst (vlan_transition vid ts n to why vl)))
           (vl_hist (fst (vlan_transition vid ts n to why vl)))"
  using vlan.step_consistent [of vl to ts n why] assms
  by (simp add: vlan.consistent_def fst_vlan_transition [of vid])

lemma vlan_transition_sel:
  "vl_state (fst (vlan_transition vid ts n to why vl)) = to"
  "vl_members (fst (vlan_transition vid ts n to why vl)) = vl_members vl"
  by (simp_all add: vlan_transition_def Let_def)

lemma vlan_leaveAll_ok:
  assumes "vlan_ok vid vl"
  shows "vlan_ok vid (fst (vlan_leaveAll member ts n vid vl out))"
proof (cases "vl_state vl = ''REGISTERED''")
  case True
  then show ?thesis
    using assms vlan_transition_hist [of vl "''LEAVING''" vid ts n]
    by (simp add: vlan_leaveAll_def vlan_ok_def vlan_transition_sel)
next
  case False
  then show ?thesis using assms by (simp add: vlan_leaveAll_def)
qed

lemma hist_ok_members [simp]: "vlan_label (vl\<lparr>vl_members := ms\<rparr>) = vlan_label vl"
  by (simp add: vlan_label_def)

lemma vlan_event_ok:
  assumes "vlan_ok vid vl"
  shows "vlan_ok vid (fst (vlan_event ev member ts n vid vl))"
proof -
  have join: "vlan_ok vid (fst (vlan_transition vid ts n ''REGISTERED'' why (vl\<lparr>vl_members := ms\<rparr>)))"
    if "finite ms" for ms why
    using assms that vlan_transition_hist [of "vl\<lparr>vl_members := ms\<rparr>" "''REGISTERED''" vid ts n why]
    by (simp add: vlan_ok_def vlan_transition_sel)
  have leave: "vlan_ok vid (fst (vlan_transition vid ts n ''WITHDRAWN'' why (vl\<lparr>vl_members := ms\<rparr>)))"
    if "ms = {}" for ms why
    using assms that vlan_transition_hist [of "vl\<lparr>vl_members := ms\<rparr>" "''WITHDRAWN''" vid ts n why]
    by (simp add: vlan_ok_def vlan_transition_sel)
  have "finite (insert member (vl_members vl))" using assms by (simp add: vlan_ok_def)
  note j = join [OF this]
  have same: "vlan_ok vid (vl\<lparr>vl_members := ms\<rparr>)"
    if "finite ms" and "vl_state vl = ''REGISTERED'' \<or> ms \<subseteq> vl_members vl" for ms
    using assms that by (elim disjE) (simp_all add: vlan_ok_def, blast)
  consider "ev = 0 \<or> ev = 1 \<or> ev = 3" | "ev = 5" | "ev \<notin> {0, 1, 3, 5}" by blast
  then show ?thesis
  proof cases
    case 1
    have fin: "finite (insert member (vl_members vl))" using assms by (simp add: vlan_ok_def)
    show ?thesis
    proof (cases "vl_state vl = ''REGISTERED''")
      case True
      with same [OF fin] 1 show ?thesis unfolding vlan_event_def Let_def by simp
    next
      case False
      with j 1 show ?thesis unfolding vlan_event_def Let_def by simp
    qed
  next
    case 2
    have s: "vlan_ok vid (vl\<lparr>vl_members := vl_members vl - {member}\<rparr>)"
      using assms by (intro same) (auto simp: vlan_ok_def)
    show ?thesis
    proof (cases "vl_members vl - {member} = {} \<and> vl_state vl \<noteq> ''WITHDRAWN''")
      case True
      then have "vlan_event ev member ts n vid vl = apsnd (\<lambda>t. [t]) (vlan_transition vid ts n ''WITHDRAWN''
          (cat [''Lv from '', macStr member, '', no members left''])
          (vl\<lparr>vl_members := vl_members vl - {member}\<rparr>))"
        using 2 by (simp add: vlan_event_def Let_def)
      then show ?thesis using leave True by (simp only: fst_apsnd)
    next
      case False
      then have "vlan_event ev member ts n vid vl = (vl\<lparr>vl_members := vl_members vl - {member}\<rparr>, [])"
        using 2 by (auto simp: vlan_event_def Let_def)
      with s show ?thesis by simp
    qed
  next
    case 3
    then show ?thesis using assms by (simp add: vlan_event_def)
  qed
qed

lemma mvrp_inv_onDecode [inv_intros]:
  assumes "mvrp_inv m"
  shows "mvrp_inv (fst (mvrp_onDecode v (m, sh)))"
proof (cases "to_int (ctx_at v ''mrp_event'') = 6")
  case True
  let ?it = "om_iter (vlan_leaveAll (ctx_at v ''src_mac'') (tsOf v) (numOf v)) (mVlans m) (mv_pending m)"
  have "om_ok (fst ?it)" using assms by (simp add: mvrp_inv_def)
  moreover have "om_all vlan_ok (fst ?it)"
    using assms by (intro om_all_iter [where P = vlan_ok] vlan_leaveAll_ok) (simp_all add: mvrp_inv_def)
  ultimately show ?thesis
    using True by (cases ?it) (simp add: mvrp_onDecode_def Let_def mvrp_inv_def)
next
  case False
  let ?vid = "ucast (ctx_at v ''vid'') :: u16"
  let ?e = "vlan_event (to_int (ctx_at v ''mrp_event'')) (ctx_at v ''src_mac'') (tsOf v) (numOf v) ?vid
              (om_at Vlan (mVlans m) ?vid)"
  have "vlan_ok ?vid (fst ?e)"
    using assms by (intro vlan_event_ok om_all_at [where P = vlan_ok]) (simp_all add: mvrp_inv_def)
  then show ?thesis
    using False assms by (cases ?e) (simp add: mvrp_onDecode_def Let_def mvrp_inv_def om_all_set)
qed

lemma reg_inv_mvrp [inv_intros]:
  "(\<And>s. sh = Some s \<Longrightarrow> reg_inv s) \<Longrightarrow> snd (mvrp_onDecode v (m, sh)) = Some s' \<Longrightarrow> reg_inv s'"
  by (auto simp: mvrp_onDecode_def Let_def reg_inv_event reg_inv_leaveAll split: if_splits prod.splits)

text \<open>The module keeps the interface's contract; it writes only the registrars.\<close>

definition mvrp_good :: "mvrp \<Rightarrow> shared \<Rightarrow> bool" where
  "mvrp_good m s \<longleftrightarrow> mvrp_inv m \<and> reg_inv s"

lemma mvrp_foreign:
  "map_option except_mrp (snd (mvrp_onDecode v (m, sh))) = map_option except_mrp sh"
  "map_option except_mrp (snd (mvrp_onTimeTick ts (m, sh))) = map_option except_mrp sh"
  by (simp_all add: mvrp_onDecode_def mvrp_onTimeTick_def Let_def option.map_comp split: prod.split)

interpretation mvrp: avb_logic mvrp_onDecode mvrp_onTimeTick mvrp_good except_mrp
proof
  fix v m s m' s' assume "mvrp_good m s" and "mvrp_onDecode v (m, Some s) = (m', Some s')"
  then show "mvrp_good m' s'"
    using mvrp_inv_onDecode [of m v "Some s"] reg_inv_mvrp [of "Some s" v m s']
    by (simp add: mvrp_good_def)
next
  fix ts m s m' s' assume "mvrp_good m s" and "mvrp_onTimeTick ts (m, Some s) = (m', Some s')"
  then show "mvrp_good m' s'" by (auto simp: mvrp_good_def mvrp_onTimeTick_def reg_inv_tick)
qed (rule mvrp_foreign)+

end
