(* ===== verification/Maap_Logic.thy ===== *)
theory Maap_Logic
  imports Mrp_Registrar
begin

text \<open>
  \<open>backend/src/logic/maap_logic.cpp\<close>: address-range acquisition per claimant, from
  \<open>PROBING\<close> to \<open>ACQUIRED\<close>, \<open>DEFENDING\<close> on defence and \<open>LOST\<close> when a claimant
  abandons a contested range and probes another.
\<close>

section \<open>State\<close>

record range =
  rg_start :: u64
  rg_count :: u16
  rg_probes :: u32
  rg_conflicts :: u32
  rg_state :: string
  rg_hist :: "hist_entry list"

definition Range :: range where
  "Range = \<lparr>rg_start = 0, rg_count = 0, rg_probes = 0, rg_conflicts = 0, rg_state = '''', rg_hist = []\<rparr>"

record maap =
  mRanges :: "(u64, range) omap"
  ma_pending :: "transition list"

definition MaapLogic :: maap where
  "MaapLogic = \<lparr>mRanges = [], ma_pending = []\<rparr>"

section \<open>Operations\<close>

definition range_label :: "range \<Rightarrow> string" where
  "range_label r = (if rg_state r = [] then ''UNKNOWN'' else rg_state r)"

definition maap_transition ::
    "u64 \<Rightarrow> double \<Rightarrow> u32 \<Rightarrow> string \<Rightarrow> string \<Rightarrow> range \<Rightarrow> range \<times> transition" where
  "maap_transition claimant ts n to why r = (let from = range_label r
     in (r\<lparr>rg_state := to, rg_hist := rg_hist r @ [HistEntry ts n from to why]\<rparr>,
         \<lparr>t_proto = MAAP, t_object = cat [''maap '', macStr claimant], t_from = from, t_to = to,
          t_why = why,
          t_summary = cat [''MAAP '', macStr claimant, '': '', from, '' -> '', to, emdash, why],
          t_entity = '''', t_stream = macStr (rg_start r)\<rparr>))"

text \<open>A claimant that holds a range and probes a different one has lost the first.\<close>

definition maap_abandon ::
    "u8 \<Rightarrow> u64 \<Rightarrow> u64 \<Rightarrow> u16 \<Rightarrow> double \<Rightarrow> u32 \<Rightarrow> range \<Rightarrow> range \<times> transition list" where
  "maap_abandon msg claimant start cnt ts n r =
     (let isNew = (rg_hist r = [] \<and> rg_state r = []);
          rangeChanged = (\<not> isNew \<and> (rg_start r \<noteq> start \<or> rg_count r \<noteq> cnt))
      in if rangeChanged \<and> msg = 1 \<and> (rg_state r = ''ACQUIRED'' \<or> rg_state r = ''DEFENDING'')
         then apsnd (\<lambda>t. [t]) (maap_transition claimant ts n ''LOST''
                (cat [''abandoned '', macStr (rg_start r), '' '', times_sign, u_str (rg_count r),
                      '', re-probing '', macStr start, '' '', times_sign, u_str cnt]) r)
         else (r, []))"

definition maap_switch ::
    "u8 \<Rightarrow> u64 \<Rightarrow> var_ctx \<Rightarrow> double \<Rightarrow> u32 \<Rightarrow> range \<Rightarrow> range \<times> transition list" where
  "maap_switch msg claimant v ts n r =
     (if msg = 1 then
        let r1 = r\<lparr>rg_probes := rg_probes r + 1\<rparr>
        in if rg_state r1 \<noteq> ''PROBING''
           then apsnd (\<lambda>t. [t]) (maap_transition claimant ts n ''PROBING''
                  (cat [''MAAP_PROBE '', macStr (rg_start r), '' '', times_sign, u_str (rg_count r)]) r1)
           else (r1, [])
      else if msg = 3 then
        (if rg_state r \<noteq> ''ACQUIRED''
         then apsnd (\<lambda>t. [t]) (maap_transition claimant ts n ''ACQUIRED'' ''MAAP_ANNOUNCE'' r)
         else (r, []))
      else if msg = 2 then
        let r1 = r\<lparr>rg_conflicts := rg_conflicts r + 1\<rparr>
        in if rg_state r1 \<noteq> ''DEFENDING''
           then apsnd (\<lambda>t. [t]) (maap_transition claimant ts n ''DEFENDING''
                  (cat [''MAAP_DEFEND against conflicting claim on '',
                        macStr (ctx_at v ''conflict_start_address''), '' '', times_sign,
                        u_str (ctx_at v ''conflict_count'')]) r1)
           else (r1, [])
      else (r, []))"

definition maap_range ::
    "u8 \<Rightarrow> u64 \<Rightarrow> u64 \<Rightarrow> u16 \<Rightarrow> var_ctx \<Rightarrow> double \<Rightarrow> u32 \<Rightarrow> range \<Rightarrow> range \<times> transition list" where
  "maap_range msg claimant start cnt v ts n r =
     (let (r1, out1) = maap_abandon msg claimant start cnt ts n r;
          (r2, out2) = maap_switch msg claimant v ts n (r1\<lparr>rg_start := start, rg_count := cnt\<rparr>)
      in (r2, out1 @ out2))"

definition maap_onDecode :: "var_ctx \<Rightarrow> maap \<Rightarrow> maap" where
  "maap_onDecode v m =
     (let msg = ucast (ctx_at v ''message_type'') :: u8;
          claimant = ctx_at v ''src_mac'';
          start = ctx_at v ''requested_start_address'';
          cnt = ucast (ctx_at v ''requested_count'') :: u16;
          (r, out) = maap_range msg claimant start cnt v (tsOf v) (numOf v) (om_at Range (mRanges m) claimant)
      in m\<lparr>mRanges := om_set claimant r (mRanges m), ma_pending := ma_pending m @ out\<rparr>)"

section \<open>Invariant\<close>

interpretation range: object_log range_label rg_hist
    "\<lambda>ts n to why r. fst (maap_transition 0 ts n to why r)"
  by unfold_locales (auto simp: maap_transition_def Let_def range_label_def)

lemma maap_transition_fst:
  "fst (maap_transition claimant ts n to why r) = fst (maap_transition 0 ts n to why r)"
  by (simp add: maap_transition_def Let_def)

lemma maap_transition_sel:
  "rg_state (fst (maap_transition c ts n to why r)) = to"
  "rg_start (fst (maap_transition c ts n to why r)) = rg_start r"
  "rg_count (fst (maap_transition c ts n to why r)) = rg_count r"
  "rg_hist (fst (maap_transition c ts n to why r)) \<noteq> []"
  by (simp_all add: maap_transition_def Let_def)

definition range_ok :: "range \<Rightarrow> bool" where
  "range_ok r \<longleftrightarrow> rg_state r \<in> {'''', ''PROBING'', ''ACQUIRED'', ''DEFENDING'', ''LOST''} \<and>
     (rg_state r = '''' \<longleftrightarrow> rg_hist r = []) \<and> hist_ok (range_label r) (rg_hist r)"

lemma range_ok_init [simp]: "range_ok Range"
  by (simp add: range_ok_def Range_def)

lemma range_ok_transition:
  assumes "range_ok r" and "to \<in> {''PROBING'', ''ACQUIRED'', ''DEFENDING'', ''LOST''}"
  shows "range_ok (fst (maap_transition c ts n to why r))"
proof -
  have ne: "to \<noteq> []" using assms(2) by auto
  have "hist_ok (range_label (fst (maap_transition c ts n to why r)))
          (rg_hist (fst (maap_transition c ts n to why r)))"
    using range.step_consistent [of r to ts n why] assms(1) ne
    by (simp add: range.consistent_def range_ok_def maap_transition_fst [of c])
  with assms(2) ne show ?thesis by (auto simp: range_ok_def maap_transition_sel)
qed

lemma range_ok_frame [simp]:
  "range_ok (r\<lparr>rg_probes := p\<rparr>) = range_ok r" "range_ok (r\<lparr>rg_conflicts := p\<rparr>) = range_ok r"
  "range_ok (r\<lparr>rg_start := s, rg_count := c\<rparr>) = range_ok r"
  by (simp_all add: range_ok_def range_label_def)

lemma range_ok_abandon: "range_ok r \<Longrightarrow> range_ok (fst (maap_abandon msg c s k ts n r))"
  by (simp add: maap_abandon_def Let_def range_ok_transition)

lemma range_ok_switch: "range_ok r \<Longrightarrow> range_ok (fst (maap_switch msg c v ts n r))"
  by (simp add: maap_switch_def Let_def range_ok_transition)

lemma range_ok_range: "range_ok r \<Longrightarrow> range_ok (fst (maap_range msg c s k v ts n r))"
  by (simp add: maap_range_def Let_def case_prod_beta range_ok_switch range_ok_abandon)

definition maap_inv :: "maap \<Rightarrow> bool" where
  "maap_inv m \<longleftrightarrow> om_ok (mRanges m) \<and> om_all (\<lambda>_. range_ok) (mRanges m)"

lemma maap_inv_init [simp]: "maap_inv MaapLogic"
  by (simp add: maap_inv_def MaapLogic_def)

lemma maap_inv_onDecode [inv_intros]: "maap_inv m \<Longrightarrow> maap_inv (maap_onDecode v m)"
proof -
  assume inv: "maap_inv m"
  have "range_ok (om_at Range (mRanges m) k)" for k
    using inv by (intro om_all_at [where P = "\<lambda>_. range_ok"]) (simp_all add: maap_inv_def)
  then show ?thesis
    using inv by (simp add: maap_onDecode_def Let_def case_prod_beta maap_inv_def om_all_set range_ok_range)
qed

text \<open>The last state a message leads to, whatever the claimant did before.\<close>

lemma maap_switch_state:
  "rg_state (fst (maap_switch msg c v ts n r)) =
     (if msg = 1 then ''PROBING'' else if msg = 3 then ''ACQUIRED''
      else if msg = 2 then ''DEFENDING'' else rg_state r)"
  by (auto simp: maap_switch_def Let_def maap_transition_sel)

text \<open>The module as the engine calls it: it has no timer and leaves the shared model alone.\<close>

interpretation maap: avb_logic "\<lambda>v. apfst (maap_onDecode v)" "\<lambda>_ st. st" "\<lambda>m _. maap_inv m" "\<lambda>s. s"
  by unfold_locales (auto simp: maap_inv_onDecode)

end
