(* ===== verification/Adp_Logic.thy ===== *)
theory Adp_Logic
  imports Mrp_Registrar
begin

text \<open>
  \<open>backend/src/logic/adp_logic.cpp\<close>: the lifecycle of an ATDECC entity, \<open>AVAILABLE\<close>,
  \<open>DEPARTING\<close> or \<open>TIMED_OUT\<close> by the advertised validity time, and the comparison of
  the grandmaster an entity announces with the one observed on the wire.  The module
  keeps \<open>adpAvailable\<close> of the shared model, which the Milan sinks of the ACMP module
  rely on; the lemmas show that the set is exactly the entities in \<open>AVAILABLE\<close>.
\<close>

section \<open>State\<close>

record entity =
  en_entityId :: u64
  en_modelId :: u64
  en_gmId :: u64
  en_availIdx :: u32
  en_talkerSources :: u16
  en_listenerSinks :: u16
  en_gptpDomain :: u8
  en_gmMismatch :: bool
  en_validTime :: double
  en_lastSeen :: double
  en_state :: string
  en_hist :: "hist_entry list"

definition Entity :: entity where
  "Entity = \<lparr>en_entityId = 0, en_modelId = 0, en_gmId = 0, en_availIdx = 0, en_talkerSources = 0,
     en_listenerSinks = 0, en_gptpDomain = 0, en_gmMismatch = False, en_validTime = 0, en_lastSeen = 0,
     en_state = '''', en_hist = []\<rparr>"

record adp =
  mEntities :: "(u64, entity) omap"
  ad_pending :: "transition list"

definition AdpLogic :: adp where
  "AdpLogic = \<lparr>mEntities = [], ad_pending = []\<rparr>"

text \<open>What the handlers of one entity thread: the shared model and the transitions emitted.\<close>

type_synonym out = "shared option \<times> transition list"

section \<open>Operations\<close>

definition entity_label :: "entity \<Rightarrow> string" where
  "entity_label e = (if en_state e = [] then ''UNKNOWN'' else en_state e)"

definition adp_transition ::
    "double \<Rightarrow> u32 \<Rightarrow> string \<Rightarrow> string \<Rightarrow> entity \<Rightarrow> out \<Rightarrow> entity \<times> out" where
  "adp_transition ts n to why e = (\<lambda>(sh, out).
     let from = entity_label e;
         sh' = map_option (\<lambda>s. s\<lparr>adpAvailable := (if to = ''AVAILABLE'' then insert (en_entityId e) (adpAvailable s)
                                   else adpAvailable s - {en_entityId e})\<rparr>) sh;
         nm = sh_name sh' (en_entityId e)
     in (e\<lparr>en_state := to, en_hist := en_hist e @ [HistEntry ts n from to why]\<rparr>,
         (sh', out @ [\<lparr>t_proto = ADP, t_object = cat [''entity '', idStr (en_entityId e)], t_from = from,
            t_to = to, t_why = why,
            t_summary = cat [''Entity '', idStr (en_entityId e),
              (if nm = [] then '''' else cat ['' ('', nm, '')'']), '': '', from, '' -> '', to, emdash, why],
            t_entity = idStr (en_entityId e), t_stream = ''''\<rparr>])))"

definition checkGmAgainstObserved :: "double \<Rightarrow> u32 \<Rightarrow> entity \<Rightarrow> out \<Rightarrow> entity \<times> out" where
  "checkGmAgainstObserved ts n e = (\<lambda>(sh, out).
     case sh of None \<Rightarrow> (e, (sh, out))
     | Some s \<Rightarrow>
       (if en_gmId e = 0 then (e, (sh, out))
        else case om_get (gptpDomains s) (en_gptpDomain e) of
          None \<Rightarrow> (e, (sh, out))
        | Some t \<Rightarrow>
          (if \<not> gmKnown t then (e, (sh, out))
           else let observed = gmIdentity t
             in if en_gmId e \<noteq> observed \<and> \<not> en_gmMismatch e then
                  adp_transition ts n (en_state e)
                    (cat [''announces gPTP grandmaster '', idStr (en_gmId e),
                          '' but the observed grandmaster on domain '', u_str (en_gptpDomain e),
                          '' is '', idStr observed, '' (stale gPTP info?)''])
                    (e\<lparr>en_gmMismatch := True\<rparr>) (sh, out)
                else if en_gmId e = observed \<and> en_gmMismatch e then
                  adp_transition ts n (en_state e)
                    (cat [''gPTP grandmaster now matches the observed grandmaster '', idStr observed])
                    (e\<lparr>en_gmMismatch := False\<rparr>) (sh, out)
                else (e, (sh, out)))))"

text \<open>\<open>ENTITY_AVAILABLE\<close>: the index check, the refreshed fields, the grandmaster check.\<close>

definition adp_available :: "var_ctx \<Rightarrow> double \<Rightarrow> u32 \<Rightarrow> entity \<Rightarrow> out \<Rightarrow> entity \<times> out" where
  "adp_available v ts n e o0 =
     (let idx = ucast (ctx_at v ''available_index'') :: u32;
          (e1, o1) =
            (if en_state e = ''AVAILABLE'' \<and> idx < en_availIdx e then
               adp_transition ts n ''AVAILABLE''
                 (cat [''available_index went backwards ('', u_str (en_availIdx e), '' -> '', u_str idx,
                       ''), device restarted?'']) e o0
             else if en_state e \<noteq> ''AVAILABLE'' then
               adp_transition ts n ''AVAILABLE'' ''ENTITY_AVAILABLE received'' e o0
             else (e, o0));
          e2 = e1\<lparr>en_availIdx := idx, en_validTime := real (unat (ctx_at v ''valid_time'')),
                  en_lastSeen := ts, en_modelId := ctx_at v ''entity_model_id'',
                  en_gmId := ctx_at v ''gptp_grandmaster_id'',
                  en_gptpDomain := ucast (ctx_at v ''gptp_domain_number''),
                  en_talkerSources := ucast (ctx_at v ''talker_stream_sources''),
                  en_listenerSinks := ucast (ctx_at v ''listener_stream_sinks'')\<rparr>
      in checkGmAgainstObserved ts n e2 o1)"

definition adp_entity :: "u8 \<Rightarrow> var_ctx \<Rightarrow> double \<Rightarrow> u32 \<Rightarrow> entity \<Rightarrow> out \<Rightarrow> entity \<times> out" where
  "adp_entity msg v ts n e out =
     (if msg = 0 then adp_available v ts n e out
      else if msg = 1 then
        let e1 = e\<lparr>en_lastSeen := ts\<rparr>
        in if en_state e1 \<noteq> ''DEPARTING''
           then adp_transition ts n ''DEPARTING'' ''ENTITY_DEPARTING received'' e1 out
           else (e1, out)
      else (e, out))"

definition adp_onDecode :: "var_ctx \<Rightarrow> adp \<times> shared option \<Rightarrow> adp \<times> shared option" where
  "adp_onDecode v = (\<lambda>(m, sh).
     let msg = ucast (ctx_at v ''message_type'') :: u8; i = ctx_at v ''entity_id''
     in if msg = 2 then (m, sh)
        else let (e, (sh', out)) = adp_entity msg v (tsOf v) (numOf v)
                    ((om_at Entity (mEntities m) i)\<lparr>en_entityId := i\<rparr>) (sh, ad_pending m)
          in (m\<lparr>mEntities := om_set i e (mEntities m), ad_pending := out\<rparr>, sh'))"

definition adp_expire :: "double \<Rightarrow> u64 \<Rightarrow> entity \<Rightarrow> out \<Rightarrow> entity \<times> out" where
  "adp_expire ts i e out =
     (if en_state e = ''AVAILABLE'' \<and> en_validTime e > 0 \<and> ts > en_lastSeen e + en_validTime e
      then adp_transition ts 0 ''TIMED_OUT''
             (cat [''no re-announce within valid_time ('', int_str \<lfloor>en_validTime e\<rfloor>, '' s)'']) e out
      else (e, out))"

definition adp_onTimeTick :: "double \<Rightarrow> adp \<times> shared option \<Rightarrow> adp \<times> shared option" where
  "adp_onTimeTick ts = (\<lambda>(m, sh).
     case om_iter (adp_expire ts) (mEntities m) (sh, ad_pending m) of
       (es, (sh', out)) \<Rightarrow> (m\<lparr>mEntities := es, ad_pending := out\<rparr>, sh'))"

text \<open>The live readout of \<open>/state\<close>.\<close>

definition gmInSync :: "shared option \<Rightarrow> entity \<Rightarrow> string" where
  "gmInSync sh e = (case sh of None \<Rightarrow> ''UNKNOWN'' | Some s \<Rightarrow>
     if en_gmId e = 0 then ''UNKNOWN''
     else case om_get (gptpDomains s) (en_gptpDomain e) of None \<Rightarrow> ''UNKNOWN''
       | Some t \<Rightarrow> if \<not> gmKnown t then ''UNKNOWN''
                   else if en_gmId e = gmIdentity t then ''MATCH'' else ''MISMATCH'')"

section \<open>Histories\<close>

lemma adp_transition_sel [simp]:
  "en_entityId (fst (adp_transition ts n to why e o0)) = en_entityId e"
  "en_state (fst (adp_transition ts n to why e o0)) = to"
  "en_hist (fst (adp_transition ts n to why e o0)) = en_hist e @ [HistEntry ts n (entity_label e) to why]"
  by (simp_all add: adp_transition_def Let_def case_prod_beta)

interpretation entity: object_log entity_label en_hist
    "\<lambda>ts n to why e. fst (adp_transition ts n to why e (None, []))"
  by unfold_locales (simp add: entity_label_def)

section \<open>Invariant\<close>

definition entity_ok :: "u64 \<Rightarrow> entity \<Rightarrow> bool" where
  "entity_ok i e \<longleftrightarrow> en_entityId e = i \<and>
     en_state e \<in> {'''', ''AVAILABLE'', ''DEPARTING'', ''TIMED_OUT''} \<and>
     hist_ok (entity_label e) (en_hist e)"

abbreviation available :: "entity \<Rightarrow> bool" where
  "available e \<equiv> en_state e = ''AVAILABLE''"

definition avail_view :: "out \<Rightarrow> u64 set" where
  "avail_view o0 = (case fst o0 of None \<Rightarrow> {} | Some s \<Rightarrow> adpAvailable s)"

lemma entity_ok_new [simp]: "entity_ok i (Entity\<lparr>en_entityId := i\<rparr>)"
  by (simp add: entity_ok_def Entity_def entity_label_def)

lemma entity_ok_frame [simp]:
  "entity_ok i (e\<lparr>en_gmMismatch := b\<rparr>) = entity_ok i e"
  "entity_ok i (e\<lparr>en_lastSeen := t\<rparr>) = entity_ok i e"
  "entity_ok i (e\<lparr>en_availIdx := idx, en_validTime := vt, en_lastSeen := t, en_modelId := mi,
      en_gmId := gi, en_gptpDomain := d, en_talkerSources := tsrc, en_listenerSinks := ls\<rparr>) = entity_ok i e"
  by (simp_all add: entity_ok_def entity_label_def)

lemma entity_ok_transition:
  assumes "entity_ok i e" and "to \<in> {''AVAILABLE'', ''DEPARTING'', ''TIMED_OUT''}"
  shows "entity_ok i (fst (adp_transition ts n to why e o0))"
proof -
  have "to \<noteq> []" using assms(2) by auto
  then have "entity_label (fst (adp_transition ts n to why e o0)) = to" by (simp add: entity_label_def)
  moreover have "hist_ok to (en_hist e @ [HistEntry ts n (entity_label e) to why])"
    using hist_ok_push [of "entity_label e" "en_hist e" _ "HistEntry ts n (entity_label e) to why"] assms(1)
    by (simp add: entity_ok_def)
  ultimately show ?thesis using assms by (auto simp: entity_ok_def)
qed

text \<open>A step of the entity \<open>i\<close> moves \<open>i\<close> in and out of the set, and nothing else.\<close>

lemma avail_transition:
  "fst o0 \<noteq> None \<Longrightarrow> avail_view (snd (adp_transition ts n to why e o0)) =
     (if to = ''AVAILABLE'' then insert (en_entityId e) (avail_view o0)
      else avail_view o0 - {en_entityId e})"
  by (auto simp: adp_transition_def Let_def avail_view_def split: prod.splits)

lemma avail_transition_None:
  "fst o0 = None \<Longrightarrow> fst (snd (adp_transition ts n to why e o0)) = None"
  by (auto simp: adp_transition_def Let_def split: prod.splits)

lemma shared_transition [simp]:
  "(fst (snd (adp_transition ts n to why e o0)) = None) = (fst o0 = None)"
  "(\<exists>s. fst (snd (adp_transition ts n to why e o0)) = Some s) = (fst o0 \<noteq> None)"
  by (cases o0; auto simp: adp_transition_def Let_def)+

text \<open>The set tells the truth about \<open>i\<close> and agrees with \<open>A\<close> elsewhere.\<close>

definition tracks :: "u64 \<Rightarrow> u64 set \<Rightarrow> entity \<times> out \<Rightarrow> bool" where
  "tracks i A r \<longleftrightarrow> entity_ok i (fst r) \<and> (fst (snd r) \<noteq> None \<longrightarrow>
     avail_view (snd r) - {i} = A - {i} \<and> (i \<in> avail_view (snd r) \<longleftrightarrow> available (fst r)))"

lemma tracks_transition:
  assumes "entity_ok i e" and "fst o0 \<noteq> None \<longrightarrow> avail_view o0 - {i} = A - {i}"
    and "to \<in> {''AVAILABLE'', ''DEPARTING'', ''TIMED_OUT''}"
  shows "tracks i A (adp_transition ts n to why e o0)"
proof -
  have "en_entityId e = i" using assms(1) by (simp add: entity_ok_def)
  then show ?thesis
    using assms entity_ok_transition [OF assms(1,3), of ts n why o0]
    by (auto simp: tracks_def avail_transition)
qed

lemma tracksD: "tracks i A (e, o0) \<Longrightarrow> entity_ok i e"
  "tracks i A (e, o0) \<Longrightarrow> fst o0 \<noteq> None \<longrightarrow> avail_view o0 - {i} = A - {i}"
  by (simp_all add: tracks_def)

lemma tracks_gm:
  assumes "tracks i A (e, o0)" and "available e"
  shows "tracks i A (checkGmAgainstObserved ts n e o0)"
proof -
  obtain sh out where o0: "o0 = (sh, out)" by force
  have tr: "tracks i A (adp_transition ts n (en_state e) why (e\<lparr>en_gmMismatch := b\<rparr>) (sh, out))" for why b
    using tracksD [OF assms(1)] assms(2) o0 by (intro tracks_transition) simp_all
  show ?thesis
  proof (cases sh)
    case None
    with assms(1) o0 show ?thesis by (simp add: checkGmAgainstObserved_def)
  next
    case (Some s)
    with assms(1) o0 tr show ?thesis
      by (cases "om_get (gptpDomains s) (en_gptpDomain e)") (simp_all add: checkGmAgainstObserved_def Let_def)
  qed
qed

lemma tracks_available:
  assumes "tracks i A (e, o0)"
  shows "tracks i A (adp_available v ts n e o0)"
proof -
  note tr = tracks_transition [OF tracksD [OF assms], of "''AVAILABLE''", simplified]
  have upd: "tracks i A (e1\<lparr>en_availIdx := idx, en_validTime := vt, en_lastSeen := t, en_modelId := mi,
      en_gmId := gi, en_gptpDomain := d, en_talkerSources := tsrc, en_listenerSinks := ls\<rparr>, o1)"
    if "tracks i A (e1, o1)" for e1 o1 idx vt t mi gi d tsrc ls
    using that by (simp add: tracks_def)
  define r where "r = (if available e \<and> (ucast (ctx_at v ''available_index'') :: u32) < en_availIdx e then
       adp_transition ts n ''AVAILABLE'' (cat [''available_index went backwards ('',
         u_str (en_availIdx e), '' -> '', u_str (ucast (ctx_at v ''available_index'') :: u32),
         ''), device restarted?'']) e o0
     else if \<not> available e then adp_transition ts n ''AVAILABLE'' ''ENTITY_AVAILABLE received'' e o0
     else (e, o0))"
  have "tracks i A r" and "available (fst r)" using assms tr by (auto simp: r_def)
  moreover obtain e1 o1 where r1: "r = (e1, o1)" by (metis prod.collapse)
  ultimately show ?thesis
    unfolding adp_available_def Let_def r_def [symmetric] r1
    by (simp add: tracks_gm upd)
qed

lemma tracks_entity:
  "tracks i A (e, o0) \<Longrightarrow> tracks i A (adp_entity msg v ts n e o0)"
proof -
  assume t: "tracks i A (e, o0)"
  have "tracks i A (adp_transition ts n ''DEPARTING'' why (e\<lparr>en_lastSeen := ts\<rparr>) o0)" for why
    using tracksD [OF t] by (intro tracks_transition) simp_all
  moreover have "tracks i A (e\<lparr>en_lastSeen := ts\<rparr>, o0)" using t by (simp add: tracks_def)
  ultimately show ?thesis using t by (simp add: adp_entity_def Let_def tracks_available)
qed

lemma adp_gm_None: "(fst (snd (checkGmAgainstObserved ts n e o0)) = None) = (fst o0 = None)"
proof -
  obtain sh out where o0: "o0 = (sh, out)" by force
  show ?thesis
  proof (cases sh)
    case (Some s)
    then show ?thesis
      by (cases "om_get (gptpDomains s) (en_gptpDomain e)") (simp_all add: o0 checkGmAgainstObserved_def Let_def)
  qed (simp add: o0 checkGmAgainstObserved_def)
qed

lemma adp_available_None: "(fst (snd (adp_available v ts n e o0)) = None) = (fst o0 = None)"
  unfolding adp_available_def Let_def case_prod_beta adp_gm_None by simp

lemma adp_entity_None: "(fst (snd (adp_entity msg v ts n e o0)) = None) = (fst o0 = None)"
  by (simp add: adp_entity_def adp_available_None Let_def)

definition adp_inv :: "adp \<Rightarrow> bool" where
  "adp_inv m \<longleftrightarrow> om_ok (mEntities m) \<and> om_all entity_ok (mEntities m)"

text \<open>The published set is exactly the set of entities in \<open>AVAILABLE\<close>.\<close>

definition adp_published :: "adp \<Rightarrow> shared \<Rightarrow> bool" where
  "adp_published m s \<longleftrightarrow> adpAvailable s = {i. \<exists>e. om_get (mEntities m) i = Some e \<and> available e}"

lemma adp_inv_init [simp]: "adp_inv AdpLogic" "adp_published AdpLogic SharedModel"
  by (simp_all add: adp_inv_def adp_published_def AdpLogic_def SharedModel_def)

lemma adp_onDecode_step:
  assumes "adp_inv m" and "fst o0 = sh" and "i = ctx_at v ''entity_id''"
    and "\<And>s. sh = Some s \<Longrightarrow> adp_published m s"
  shows "tracks i (avail_view o0) ((om_at Entity (mEntities m) i)\<lparr>en_entityId := i\<rparr>, o0)"
proof (cases "om_get (mEntities m) i")
  case None
  with assms show ?thesis
    by (auto simp: tracks_def om_at_def avail_view_def adp_published_def) (simp_all add: Entity_def)
next
  case (Some e)
  then have e: "entity_ok i e" using assms(1) by (auto simp: adp_inv_def dest: om_all_get)
  then have "e\<lparr>en_entityId := i\<rparr> = e" by (simp add: entity_ok_def)
  with Some e assms show ?thesis
    by (auto simp: tracks_def om_at_def avail_view_def adp_published_def)
qed

lemma adp_inv_onDecode [inv_intros]:
  assumes "adp_inv m" and "\<And>s. sh = Some s \<Longrightarrow> adp_published m s"
    and "adp_onDecode v (m, sh) = (m', sh')"
  shows "adp_inv m'" and "\<And>s'. sh' = Some s' \<Longrightarrow> adp_published m' s'"
proof -
  let ?i = "ctx_at v ''entity_id''" and ?msg = "ucast (ctx_at v ''message_type'') :: u8"
  obtain e sh1 out where r: "adp_entity ?msg v (tsOf v) (numOf v)
      ((om_at Entity (mEntities m) ?i)\<lparr>en_entityId := ?i\<rparr>) (sh, ad_pending m) = (e, (sh1, out))"
    by (metis prod.collapse)
  have t: "tracks ?i (avail_view (sh, ad_pending m)) (e, (sh1, out))"
    using tracks_entity [OF adp_onDecode_step [of m "(sh, ad_pending m)" sh ?i v], of ?msg v "tsOf v" "numOf v"]
      assms(1,2) r by simp
  have res: "?msg = 2 \<and> m' = m \<and> sh' = sh \<or>
      m' = m\<lparr>mEntities := om_set ?i e (mEntities m), ad_pending := out\<rparr> \<and> sh' = sh1"
    using assms(3) r by (auto simp: adp_onDecode_def Let_def split: if_splits)
  have inv': "adp_inv (m\<lparr>mEntities := om_set ?i e (mEntities m), ad_pending := out\<rparr>)"
    using assms(1) tracksD(1) [OF t] by (simp add: adp_inv_def om_all_set)
  with res assms(1) show "adp_inv m'" by auto
  fix s' assume s': "sh' = Some s'"
  show "adp_published m' s'"
  proof (cases "sh' = sh \<and> m' = m")
    case True
    with assms(2) s' show ?thesis by simp
  next
    case False
    then have m': "m' = m\<lparr>mEntities := om_set ?i e (mEntities m), ad_pending := out\<rparr>" and sh1: "sh1 = Some s'"
      using res s' by auto
    have "sh \<noteq> None"
      using adp_entity_None [of ?msg v "tsOf v" "numOf v" _ "(sh, ad_pending m)"] r sh1
      by (metis fst_conv option.distinct(1) snd_conv)
    then obtain s where s: "sh = Some s" by auto
    have "adpAvailable s' - {?i} = adpAvailable s - {?i}" and "?i \<in> adpAvailable s' \<longleftrightarrow> available e"
      using t sh1 s by (simp_all add: tracks_def avail_view_def)
    moreover have "adp_published m s" using assms(2) s .
    ultimately show ?thesis
      unfolding adp_published_def m' by (auto simp: om_get_set)
  qed
qed

section \<open>Expiry\<close>

interpretation expiry: published "adp_expire ts" entity_ok available avail_view for ts
proof
  fix k e s j
  assume ok: "entity_ok k e"
  then have id: "en_entityId e = k" by (simp add: entity_ok_def)
  show "entity_ok k (fst (adp_expire ts k e s))"
    using ok by (simp add: adp_expire_def entity_ok_transition)
  have none: "avail_view (snd (adp_transition ts n to why e s)) = {}" if "fst s = None" for n to why
    unfolding avail_view_def avail_transition_None [OF that] by simp
  show "k \<in> avail_view (snd (adp_expire ts k e s)) \<longleftrightarrow> available (fst (adp_expire ts k e s))"
    if "k \<in> avail_view s \<longleftrightarrow> available e"
    using that id none by (cases "fst s = None") (simp_all add: adp_expire_def avail_transition)
  show "j \<in> avail_view (snd (adp_expire ts k e s)) \<longleftrightarrow> j \<in> avail_view s" if "j \<noteq> k"
    using that id none by (cases "fst s = None") (simp_all add: adp_expire_def avail_transition avail_view_def [of s])
qed

lemma adp_inv_onTimeTick [inv_intros]:
  assumes "adp_inv m" and "adp_onTimeTick ts (m, sh) = (m', sh')"
  shows "adp_inv m'" and "\<And>s s'. sh = Some s \<Longrightarrow> adp_published m s \<Longrightarrow> sh' = Some s' \<Longrightarrow> adp_published m' s'"
proof -
  let ?o = "(sh, ad_pending m)"
  let ?r = "om_iter (adp_expire ts) (mEntities m) ?o"
  have m': "mEntities m' = fst ?r" and sh': "sh' = fst (snd ?r)"
    using assms(2) by (auto simp: adp_onTimeTick_def split: prod.splits)
  have ok: "om_ok (mEntities m)" "om_all entity_ok (mEntities m)" using assms(1) by (simp_all add: adp_inv_def)
  show "adp_inv m'"
    using ok by (simp add: adp_inv_def m') (rule om_all_iter, assumption, rule expiry.body_ok)
  fix s s' assume s: "sh = Some s" "adp_published m s" and s': "sh' = Some s'"
  have view: "avail_view ?o = adpAvailable s" "avail_view (snd ?r) = adpAvailable s'"
    using s(1) s' sh' by (simp_all add: avail_view_def)
  have "om_all (\<lambda>k v. k \<in> avail_view ?o \<longleftrightarrow> available v) (mEntities m)"
    using s(2) ok(1) by (auto simp: om_all_def view adp_published_def simp flip: om_get_iff_in)
  from expiry.iter_view [OF ok this, of ts]
  have all: "om_all (\<lambda>k v. k \<in> adpAvailable s' \<longleftrightarrow> available v) (mEntities m')"
    by (simp add: view m')
  have keys: "fst ` set (mEntities m') = fst ` set (mEntities m)"
    using keys_om_iter [of "adp_expire ts" "mEntities m" ?o] by (metis m' list.set_map)
  have out: "j \<notin> adpAvailable s'" if "j \<notin> fst ` set (mEntities m)" for j
  proof -
    have "om_get (mEntities m) j = None" using that by (simp add: map_of_eq_None_iff)
    then show ?thesis using expiry.iter_frame [OF ok(2) that, of ts ?o] s(2)
      by (simp add: view adp_published_def)
  qed
  show "adp_published m' s'"
    unfolding adp_published_def
  proof (intro set_eqI iffI)
    fix j assume j: "j \<in> adpAvailable s'"
    then have "j \<in> fst ` set (mEntities m')" using out keys by blast
    then obtain e where e: "om_get (mEntities m') j = Some e" by (metis map_of_eq_None_iff not_Some_eq)
    with all j show "j \<in> {i. \<exists>e. om_get (mEntities m') i = Some e \<and> available e}"
      by (auto dest: om_all_get)
  next
    fix j assume "j \<in> {i. \<exists>e. om_get (mEntities m') i = Some e \<and> available e}"
    with all show "j \<in> adpAvailable s'" by (auto dest: om_all_get)
  qed
qed

section \<open>The module keeps its contract\<close>

definition except_adp :: "shared \<Rightarrow> shared" where
  "except_adp s = s\<lparr>adpAvailable := {}\<rparr>"

lemma adp_transition_foreign [simp]:
  "map_option except_adp (fst (snd (adp_transition ts n to why e o0))) = map_option except_adp (fst o0)"
  by (cases o0; cases "fst o0") (simp_all add: adp_transition_def Let_def except_adp_def)

lemma checkGm_foreign [simp]:
  "map_option except_adp (fst (snd (checkGmAgainstObserved ts n e o0))) = map_option except_adp (fst o0)"
proof (cases o0)
  case (Pair sh out)
  show ?thesis
    unfolding Pair checkGmAgainstObserved_def Let_def prod.case
    by (cases sh) (simp_all split: option.split del: map_option_eq_Some)
qed

lemma adp_available_foreign [simp]:
  "map_option except_adp (fst (snd (adp_available v ts n e o0))) = map_option except_adp (fst o0)"
  by (simp add: adp_available_def Let_def case_prod_beta)

lemma adp_entity_foreign:
  "map_option except_adp (fst (snd (adp_entity msg v ts n e o0))) = map_option except_adp (fst o0)"
  by (simp add: adp_entity_def Let_def)

lemma adp_expire_foreign:
  "map_option except_adp (fst (snd (adp_expire ts i e o0))) = map_option except_adp (fst o0)"
  by (simp add: adp_expire_def)

lemma adp_foreign:
  "map_option except_adp (snd (adp_onDecode v (m, sh))) = map_option except_adp sh"
  "map_option except_adp (snd (adp_onTimeTick ts (m, sh))) = map_option except_adp sh"
proof -
  let ?r = "adp_entity (ucast (ctx_at v ''message_type'')) v (tsOf v) (numOf v)
    ((om_at Entity (mEntities m) (ctx_at v ''entity_id''))\<lparr>en_entityId := ctx_at v ''entity_id''\<rparr>) (sh, ad_pending m)"
  have "map_option except_adp (fst (snd ?r)) = map_option except_adp sh" by (simp add: adp_entity_foreign)
  then show "map_option except_adp (snd (adp_onDecode v (m, sh))) = map_option except_adp sh"
    by (cases ?r) (auto simp: adp_onDecode_def Let_def)
  let ?t = "om_iter (adp_expire ts) (mEntities m) (sh, ad_pending m)"
  have "map_option except_adp (fst (snd ?t)) = map_option except_adp (fst (sh, ad_pending m))"
    by (rule om_iter_state [where I = "\<lambda>o0. map_option except_adp (fst o0) = map_option except_adp (fst (sh, ad_pending m))"])
      (simp_all add: adp_expire_foreign)
  then show "map_option except_adp (snd (adp_onTimeTick ts (m, sh))) = map_option except_adp sh"
    by (cases ?t) (auto simp: adp_onTimeTick_def)
qed

interpretation adp: avb_logic adp_onDecode adp_onTimeTick "\<lambda>m s. adp_inv m \<and> adp_published m s" except_adp
proof
  fix v m s m' s' assume "adp_inv m \<and> adp_published m s" and "adp_onDecode v (m, Some s) = (m', Some s')"
  then show "adp_inv m' \<and> adp_published m' s'"
    using adp_inv_onDecode [of m "Some s" v m' "Some s'"] by auto
next
  fix ts m s m' s' assume "adp_inv m \<and> adp_published m s" and "adp_onTimeTick ts (m, Some s) = (m', Some s')"
  then show "adp_inv m' \<and> adp_published m' s'"
    using adp_inv_onTimeTick [of m ts "Some s" m' "Some s'"] by auto
qed (rule adp_foreign)+

end
