(* ===== verification/Aecp_Logic.thy ===== *)
theory Aecp_Logic
  imports Mrp_Registrar
begin

text \<open>
  \<open>backend/src/logic/aecp_logic.cpp\<close>: commands in flight, keyed by controller, target
  and sequence id, matched with their responses or timed out after 250 ms, and the
  entity names learned from successful responses.  The lemmas bound the list of recent
  responses, show that a tick leaves no overdue command and counts each one it drops on
  its pair, and that a response clears exactly its own command.
\<close>

section \<open>State\<close>

definition kAemTimeoutS :: double where "kAemTimeoutS = 1 / 4"
definition kCmdReadDescriptor :: u16 where "kCmdReadDescriptor = 0x0004"
definition kCmdSetName :: u16 where "kCmdSetName = 0x0010"
definition kCmdGetName :: u16 where "kCmdGetName = 0x0011"
definition kDescEntity :: u64 where "kDescEntity = 0x0000"

record inflight =
  fl_cmd :: u16
  fl_sentTs :: double
  fl_n :: u32

record last_resp =
  ls_seq :: u16
  ls_cmd :: u16
  ls_status :: u8
  ls_rttMs :: double

record pair =
  pr_commands :: u32
  pr_responses :: u32
  pr_timeouts :: u32
  pr_unsolicited :: u32
  pr_last :: "last_resp list"

definition Pair_init :: pair where
  "Pair_init = \<lparr>pr_commands = 0, pr_responses = 0, pr_timeouts = 0, pr_unsolicited = 0, pr_last = []\<rparr>"

type_synonym cmd_key = "u64 \<times> u64 \<times> u16"
type_synonym pairs = "(u64 \<times> u64, pair) omap"

record aecp =
  mInflight :: "(cmd_key, inflight) omap"
  mPairs :: pairs
  ae_pending :: "transition list"

definition AecpLogic :: aecp where
  "AecpLogic = \<lparr>mInflight = [], mPairs = [], ae_pending = []\<rparr>"

section \<open>Operations\<close>

text \<open>The name a response carries and the entity it names, if any.\<close>

definition learnedName :: "var_ctx \<Rightarrow> u16 \<Rightarrow> u64 \<Rightarrow> (u64 \<times> string) option" where
  "learnedName v cmd target =
     (case (cmd = kCmdReadDescriptor \<and> ctx_at v ''descriptor_type'' = kDescEntity,
            getBytes v ''entity_name'') of
        (True, Some name) \<Rightarrow>
          Some (if ctx_at v ''entity_id'' \<noteq> 0 then ctx_at v ''entity_id'' else target, name)
      | _ \<Rightarrow>
        (case ((cmd = kCmdGetName \<or> cmd = kCmdSetName) \<and> ctx_at v ''descriptor_type'' = kDescEntity \<and>
               ctx_at v ''name_index'' = 0, getBytes v ''name'') of
           (True, Some name) \<Rightarrow> Some (target, name)
         | _ \<Rightarrow> None))"

definition learnName ::
    "var_ctx \<Rightarrow> u16 \<Rightarrow> u64 \<Rightarrow> shared option \<times> transition list \<Rightarrow> shared option \<times> transition list" where
  "learnName v cmd target = (\<lambda>(sh, out). case sh of None \<Rightarrow> (None, out)
     | Some s \<Rightarrow> (case learnedName v cmd target of None \<Rightarrow> (Some s, out)
       | Some (i, name) \<Rightarrow>
         (let current = nameOf s i
          in if current = name \<or> name = []
             then (Some (s\<lparr>entityNames := (entityNames s)(i \<mapsto> current)\<rparr>), out)
             else (Some (s\<lparr>entityNames := (entityNames s)(i \<mapsto> name)\<rparr>),
               out @ [\<lparr>t_proto = AECP, t_object = cat [''entity '', idStr i],
                 t_from = (if current = [] then ''(unnamed)'' else current), t_to = name,
                 t_why = cat [''learned via AEM '', aemCommandName cmd],
                 t_summary = cat [''Entity '', idStr i, '' named '', [CHR 0x22], name, [CHR 0x22, CHR '' '', CHR ''(''],
                   aemCommandName cmd, '')''],
                 t_entity = idStr i, t_stream = ''''\<rparr>]))))"

text \<open>A solicited response: round trip and one more entry of the last ten.\<close>

definition aecp_response ::
    "u64 \<Rightarrow> u64 \<Rightarrow> u16 \<Rightarrow> u16 \<Rightarrow> u8 \<Rightarrow> double \<Rightarrow> pair \<Rightarrow> (cmd_key, inflight) omap \<Rightarrow>
     pair \<times> (cmd_key, inflight) omap" where
  "aecp_response controller target seq cmd status ts p fl =
     (let k = (controller, target, seq); it = om_get fl k;
          l = \<lparr>ls_seq = seq, ls_cmd = cmd, ls_status = status,
               ls_rttMs = (case it of Some f \<Rightarrow> (ts - fl_sentTs f) * 1000 | None \<Rightarrow> -1)\<rparr>
      in (p\<lparr>pr_responses := pr_responses p + 1, pr_last := push_cap 10 l (pr_last p)\<rparr>,
          case it of Some _ \<Rightarrow> om_del k fl | None \<Rightarrow> fl))"

definition aecp_onDecode :: "var_ctx \<Rightarrow> aecp \<times> shared option \<Rightarrow> aecp \<times> shared option" where
  "aecp_onDecode v = (\<lambda>(m, sh).
     let ts = tsOf v; n = numOf v; msg = ucast (ctx_at v ''message_type'') :: u8;
         target = ctx_at v ''target_entity_id''; controller = ctx_at v ''controller_entity_id'';
         seq = ucast (ctx_at v ''sequence_id'') :: u16; cmd = ucast (ctx_at v ''command_type'') :: u16;
         status = ucast (ctx_at v ''status'') :: u8; unsolicited = (ctx_at v ''unsolicited'' \<noteq> 0);
         p = om_at Pair_init (mPairs m) (controller, target)
     in if msg > 1 then (m, sh)
        else if msg = 0 then
          (m\<lparr>mPairs := om_set (controller, target) (p\<lparr>pr_commands := pr_commands p + 1\<rparr>) (mPairs m),
             mInflight := om_set (controller, target, seq)
                            \<lparr>fl_cmd = cmd, fl_sentTs = ts, fl_n = n\<rparr> (mInflight m)\<rparr>, sh)
        else
          let (p', fl') = (if unsolicited then (p\<lparr>pr_unsolicited := pr_unsolicited p + 1\<rparr>, mInflight m)
                           else aecp_response controller target seq cmd status ts p (mInflight m));
              (sh', out') = (if status = 0 then learnName v cmd target (sh, ae_pending m)
                             else (sh, ae_pending m))
          in (m\<lparr>mPairs := om_set (controller, target) p' (mPairs m), mInflight := fl', ae_pending := out'\<rparr>, sh'))"

definition aecp_expire ::
    "double \<Rightarrow> cmd_key \<Rightarrow> inflight \<Rightarrow> pairs \<times> transition list \<Rightarrow>
     inflight option \<times> pairs \<times> transition list" where
  "aecp_expire ts = (\<lambda>(controller, target, seq) f (ps, out).
     if ts > fl_sentTs f + kAemTimeoutS then
       let p = om_at Pair_init ps (controller, target)
       in (None, om_set (controller, target) (p\<lparr>pr_timeouts := pr_timeouts p + 1\<rparr>) ps,
           out @ [\<lparr>t_proto = AECP,
             t_object = cat [''aecp '', idStr controller, '' -> '', idStr target, '' seq '', u_str seq],
             t_from = ''IN_FLIGHT'', t_to = ''TIMED_OUT'',
             t_why = cat [aemCommandName (fl_cmd f), '' unanswered after 250 ms''],
             t_summary = cat [''AEM '', aemCommandName (fl_cmd f), '' seq '', u_str seq, '' to '',
               idStr target, '' timed out (250 ms)''],
             t_entity = idStr target, t_stream = ''''\<rparr>])
     else (Some f, ps, out))"

definition aecp_onTimeTick :: "double \<Rightarrow> aecp \<Rightarrow> aecp" where
  "aecp_onTimeTick ts m =
     (case om_sweep (aecp_expire ts) (mInflight m) (mPairs m, ae_pending m) of
        (fl, (ps, out)) \<Rightarrow> m\<lparr>mInflight := fl, mPairs := ps, ae_pending := out\<rparr>)"

section \<open>Invariant\<close>

text \<open>Maps in order, at most ten recent responses, and a pair for every command in flight.\<close>

definition pairs_ok :: "pairs \<Rightarrow> bool" where
  "pairs_ok ps \<longleftrightarrow> om_ok ps \<and> om_all (\<lambda>_ p. length (pr_last p) \<le> 10) ps"

definition aecp_inv :: "aecp \<Rightarrow> bool" where
  "aecp_inv m \<longleftrightarrow> om_ok (mInflight m) \<and> pairs_ok (mPairs m) \<and>
     om_all (\<lambda>(c, t, q) _. om_get (mPairs m) (c, t) \<noteq> None) (mInflight m)"

lemma aecp_inv_init [simp]: "aecp_inv AecpLogic"
  by (simp add: aecp_inv_def pairs_ok_def AecpLogic_def)

lemma pairs_ok_at: "pairs_ok ps \<Longrightarrow> length (pr_last (om_at Pair_init ps k)) \<le> 10"
  by (auto simp: pairs_ok_def om_at_def Pair_init_def dest: om_all_get split: option.splits)

lemma pairs_ok_set: "pairs_ok ps \<Longrightarrow> length (pr_last p) \<le> 10 \<Longrightarrow> pairs_ok (om_set k p ps)"
  by (simp add: pairs_ok_def om_all_set)

lemma pairs_ok_expire: "pairs_ok (fst s) \<Longrightarrow> pairs_ok (fst (snd (aecp_expire ts k f s)))"
  by (cases s; cases k) (simp add: aecp_expire_def Let_def pairs_ok_set pairs_ok_at)

lemma has_pair_expire:
  "om_get (fst s) q \<noteq> None \<Longrightarrow> om_get (fst (snd (aecp_expire ts k f s))) q \<noteq> None"
  by (cases s; cases k) (simp add: aecp_expire_def Let_def om_get_set)

lemma om_all_del_set:
  assumes "om_all (\<lambda>(c, t, q) _. om_get ps (c, t) \<noteq> None) fl"
  shows "om_all (\<lambda>(c, t, q) _. om_get (om_set k p ps) (c, t) \<noteq> None) fl"
  using assms by (auto simp: om_all_def om_get_set)

section \<open>Time-outs\<close>

definition overdue :: "double \<Rightarrow> inflight \<Rightarrow> bool" where
  "overdue ts f \<longleftrightarrow> ts > fl_sentTs f + kAemTimeoutS"

lemma expire_decides: "fst (aecp_expire ts k f s) = (if overdue ts f then None else Some f)"
  by (cases s; cases k) (simp add: aecp_expire_def overdue_def Let_def)

lemma tick_inflight: "mInflight (aecp_onTimeTick ts m) = filter (\<lambda>(_, f). \<not> overdue ts f) (mInflight m)"
  using om_sweep_filter [of "aecp_expire ts" "\<lambda>_ f. overdue ts f" "mInflight m" "(mPairs m, ae_pending m)",
      OF expire_decides]
  by (simp add: aecp_onTimeTick_def case_prod_beta)

lemma tick_state: "(mPairs (aecp_onTimeTick ts m), ae_pending (aecp_onTimeTick ts m)) =
    fold (\<lambda>(k, f) s. snd (aecp_expire ts k f s)) (mInflight m) (mPairs m, ae_pending m)"
  using om_sweep_state [of "aecp_expire ts" "mInflight m" "(mPairs m, ae_pending m)"]
  by (simp add: aecp_onTimeTick_def case_prod_beta)

text \<open>The time-outs of a tick that belong to a pair.\<close>

definition timed_out :: "double \<Rightarrow> u64 \<times> u64 \<Rightarrow> (cmd_key, inflight) omap \<Rightarrow> nat" where
  "timed_out ts q fl = length (filter (\<lambda>((c, t, _), f). (c, t) = q \<and> overdue ts f) fl)"

lemma fold_expire_timeouts:
  "pr_timeouts (om_at Pair_init (fst (fold (\<lambda>(k, f) s. snd (aecp_expire ts k f s)) fl s)) q) =
   pr_timeouts (om_at Pair_init (fst s) q) + of_nat (timed_out ts q fl)"
proof (induction fl arbitrary: s)
  case Nil
  then show ?case by (simp add: timed_out_def)
next
  case (Cons kf fl)
  obtain c t n f where kf: "kf = ((c, t, n), f)" by (metis prod.collapse)
  obtain ps out where s: "s = (ps, out)" by force
  have "pr_timeouts (om_at Pair_init (fst (snd (aecp_expire ts (c, t, n) f s))) q) =
      pr_timeouts (om_at Pair_init ps q) + (if (c, t) = q \<and> overdue ts f then 1 else 0)"
    by (auto simp: s aecp_expire_def overdue_def Let_def om_at_set)
  with Cons kf s show ?case by (simp add: timed_out_def)
qed

lemma fold_expire_pending:
  "length (snd (fold (\<lambda>(k, f) s. snd (aecp_expire ts k f s)) fl s)) =
   length (snd s) + length (filter (\<lambda>(_, f). overdue ts f) fl)"
proof (induction fl arbitrary: s)
  case (Cons kf fl)
  then show ?case
    by (cases kf; cases s; cases "fst kf") (simp add: aecp_expire_def overdue_def Let_def)
qed simp

lemma fold_expire_pairs:
  assumes "pairs_ok (fst s)"
  shows "pairs_ok (fst (fold (\<lambda>(k, f) s. snd (aecp_expire ts k f s)) fl s)) \<and>
    (\<forall>q. om_get (fst s) q \<noteq> None \<longrightarrow>
       om_get (fst (fold (\<lambda>(k, f) s. snd (aecp_expire ts k f s)) fl s)) q \<noteq> None)"
  using assms
proof (induction fl arbitrary: s)
  case (Cons kf fl)
  obtain k f where kf: "kf = (k, f)" by (metis prod.collapse)
  from Cons.IH [OF pairs_ok_expire [OF Cons.prems, of ts k f]] has_pair_expire [of s _ ts k f]
  show ?case by (simp add: kf)
qed simp

lemma aecp_inv_onTimeTick [inv_intros]:
  assumes "aecp_inv m"
  shows "aecp_inv (aecp_onTimeTick ts m)"
proof -
  have ps: "mPairs (aecp_onTimeTick ts m) =
      fst (fold (\<lambda>(k, f) s. snd (aecp_expire ts k f s)) (mInflight m) (mPairs m, ae_pending m))"
    using tick_state [of ts m] by (metis fst_conv)
  note keep = fold_expire_pairs [of "(mPairs m, ae_pending m)" ts "mInflight m", folded ps, simplified]
  have "om_ok (mInflight (aecp_onTimeTick ts m))"
    using assms by (auto simp: aecp_inv_def tick_inflight split_def)
  then show ?thesis using assms keep by (auto simp: aecp_inv_def tick_inflight om_all_def)
qed

section \<open>Commands and responses\<close>

lemma aecp_inv_onDecode [inv_intros]:
  assumes "aecp_inv m" and "aecp_onDecode v (m, sh) = (m', sh')"
  shows "aecp_inv m'"
proof -
  let ?c = "ctx_at v ''controller_entity_id''" and ?t = "ctx_at v ''target_entity_id''"
  let ?p = "om_at Pair_init (mPairs m) (?c, ?t)"
  have inv: "om_ok (mInflight m)" "pairs_ok (mPairs m)" "length (pr_last ?p) \<le> 10"
    "om_all (\<lambda>(c, t, q) _. om_get (mPairs m) (c, t) \<noteq> None) (mInflight m)"
    using assms(1) by (simp_all add: aecp_inv_def pairs_ok_at)
  have put: "aecp_inv (m\<lparr>mPairs := om_set (?c, ?t) p (mPairs m), mInflight := fl, ae_pending := out\<rparr>)"
    if "length (pr_last p) \<le> 10" and "fl = mInflight m \<or> (\<exists>k. fl = om_del k (mInflight m)) \<or>
        (\<exists>q f. fl = om_set (?c, ?t, q) f (mInflight m))" for p fl out
    using that inv
    by (auto simp: aecp_inv_def pairs_ok_set om_get_set om_all_def in_om_set)
  let ?seq = "ucast (ctx_at v ''sequence_id'') :: u16"
  obtain p1 fl1 where r1: "aecp_response ?c ?t ?seq (ucast (ctx_at v ''command_type''))
      (ucast (ctx_at v ''status'')) (tsOf v) ?p (mInflight m) = (p1, fl1)" by force
  have p1: "length (pr_last p1) \<le> 10"
    using r1 inv(3) by (auto simp: aecp_response_def Let_def push_cap_len)
  have fl1: "fl1 = mInflight m \<or> (\<exists>k. fl1 = om_del k (mInflight m))"
    using r1 by (auto simp: aecp_response_def Let_def split: option.splits)
  let ?msg = "ucast (ctx_at v ''message_type'') :: u8"
  let ?ln = "if (ucast (ctx_at v ''status'') :: u8) = 0
      then learnName v (ucast (ctx_at v ''command_type'')) ?t (sh, ae_pending m) else (sh, ae_pending m)"
  show ?thesis
  proof (cases "?msg > 1")
    case True
    with assms show ?thesis by (simp add: aecp_onDecode_def Let_def)
  next
    case False
    show ?thesis
    proof (cases "?msg = 0")
      case True
      let ?fl = "om_set (?c, ?t, ?seq) \<lparr>fl_cmd = ucast (ctx_at v ''command_type''), fl_sentTs = tsOf v,
          fl_n = numOf v\<rparr> (mInflight m)"
      have "m' = m\<lparr>mPairs := om_set (?c, ?t) (?p\<lparr>pr_commands := pr_commands ?p + 1\<rparr>) (mPairs m),
          mInflight := ?fl, ae_pending := ae_pending m\<rparr>"
        using assms(2) True by (auto simp: aecp_onDecode_def Let_def)
      then show ?thesis by (simp only:) (rule put; use inv(3) in auto)
    next
      case msg0: False
      show ?thesis
      proof (cases "ctx_at v ''unsolicited'' \<noteq> 0")
        case True
        have "m' = m\<lparr>mPairs := om_set (?c, ?t) (?p\<lparr>pr_unsolicited := pr_unsolicited ?p + 1\<rparr>) (mPairs m),
            mInflight := mInflight m, ae_pending := snd ?ln\<rparr>"
          using assms(2) True False msg0 by (auto simp: aecp_onDecode_def Let_def case_prod_beta)
        then show ?thesis by (simp only:) (rule put; use inv(3) in auto)
      next
        case uns: False
        have "m' = m\<lparr>mPairs := om_set (?c, ?t) p1 (mPairs m), mInflight := fl1, ae_pending := snd ?ln\<rparr>"
          using assms(2) uns False msg0 r1 by (auto simp: aecp_onDecode_def Let_def case_prod_beta)
        then show ?thesis by (simp only:) (rule put; use p1 fl1 in auto)
      qed
    qed
  qed
qed

section \<open>The module keeps its contract\<close>

definition except_names :: "shared \<Rightarrow> shared" where
  "except_names s = s\<lparr>entityNames := Map.empty\<rparr>"

lemma learnName_foreign:
  "map_option except_names (fst (learnName v cmd target (sh, out))) = map_option except_names sh"
  by (auto simp: learnName_def except_names_def Let_def split: option.split)

lemma aecp_foreign: "map_option except_names (snd (aecp_onDecode v (m, sh))) = map_option except_names sh"
proof -
  obtain sh' out' where l: "learnName v (ucast (ctx_at v ''command_type'')) (ctx_at v ''target_entity_id'')
      (sh, ae_pending m) = (sh', out')" by force
  have "map_option except_names sh' = map_option except_names sh"
    using learnName_foreign [of v "ucast (ctx_at v ''command_type'')" "ctx_at v ''target_entity_id''" sh "ae_pending m"]
    unfolding l by simp
  then show ?thesis by (simp add: aecp_onDecode_def Let_def l split: prod.split)
qed

interpretation aecp: avb_logic aecp_onDecode "\<lambda>ts. apfst (aecp_onTimeTick ts)" "\<lambda>m _. aecp_inv m" except_names
  by unfold_locales (auto simp: aecp_foreign aecp_inv_onDecode aecp_inv_onTimeTick)

end
