(* ===== verification/Msrp_Logic.thy ===== *)
theory Msrp_Logic
  imports Mrp_Registrar
begin

text \<open>
  \<open>backend/src/logic/msrp_logic.cpp\<close>: stream reservations rebuilt from talker and
  listener declarations, the SR class domains, and the feed of the MRP registrar.  The
  module publishes the established streams (for the gPTP module) and the active talker
  declarations (for the Milan sinks); the lemmas characterise the reservation state as a
  function of the declarations held and show both published views exact.
\<close>

section \<open>State\<close>

record res =
  rs_streamId :: u64
  rs_talkerMac :: u64
  rs_destMac :: u64
  rs_failBridge :: u64
  rs_vlan :: u16
  rs_maxFrameSize :: u16
  rs_maxIntervalFrames :: u16
  rs_accLatency :: u32
  rs_priority :: u8
  rs_rank :: u8
  rs_failCode :: u8
  rs_decl :: int
  rs_talkerSeen :: bool
  rs_listeners :: "(u64, int) omap"
  rs_state :: string
  rs_hist :: "hist_entry list"

definition Res :: res where
  "Res = \<lparr>rs_streamId = 0, rs_talkerMac = 0, rs_destMac = 0, rs_failBridge = 0, rs_vlan = 0,
     rs_maxFrameSize = 0, rs_maxIntervalFrames = 0, rs_accLatency = 0, rs_priority = 0, rs_rank = 0,
     rs_failCode = 0, rs_decl = 0, rs_talkerSeen = False, rs_listeners = [], rs_state = '''', rs_hist = []\<rparr>"

text \<open>\<open>enum Decl\<close>.\<close>

definition DeclNone :: int where "DeclNone = 0"
definition DeclAdvertise :: int where "DeclAdvertise = 1"
definition DeclFailed :: int where "DeclFailed = 2"

lemmas decl_defs [simp] = DeclNone_def DeclAdvertise_def DeclFailed_def

record srdomain =
  sd_classId :: u8
  sd_classPrio :: u8
  sd_vid :: u16
  sd_declarer :: u64

record msrp =
  mRes :: "(u64, res) omap"
  mDomains :: "srdomain list"
  ms_pending :: "transition list"

definition MsrpLogic :: msrp where
  "MsrpLogic = \<lparr>mRes = [], mDomains = [], ms_pending = []\<rparr>"

section \<open>Reservations\<close>

definition res_label :: "res \<Rightarrow> string" where
  "res_label r = (if rs_state r = [] then ''NEW'' else rs_state r)"

definition anyReady :: "(u64, int) omap \<Rightarrow> bool" where
  "anyReady ls \<longleftrightarrow> list_ex (\<lambda>(_, fp). fp = 2 \<or> fp = 3) ls"

definition anyAskFailed :: "(u64, int) omap \<Rightarrow> bool" where
  "anyAskFailed ls \<longleftrightarrow> list_ex (\<lambda>(_, fp). fp = 1 \<or> fp = 3) ls"

text \<open>The state \<open>recompute\<close> derives from what is declared.\<close>

definition res_target :: "res \<Rightarrow> bool \<Rightarrow> string" where
  "res_target r talkerWithdrew =
     (if talkerWithdrew \<or> (rs_talkerSeen r \<and> rs_decl r = DeclNone) then ''WITHDRAWN''
      else if rs_decl r = DeclFailed then ''TALKER_FAILED''
      else if rs_decl r = DeclAdvertise then
        (if anyReady (rs_listeners r) then ''ESTABLISHED''
         else if anyAskFailed (rs_listeners r) then ''LISTENER_FAILED'' else ''PENDING'')
      else ''PENDING'')"

definition seen :: "res \<Rightarrow> res" where
  "seen r = (if rs_decl r \<noteq> DeclNone then r\<lparr>rs_talkerSeen := True\<rparr> else r)"

text \<open>What one reservation's step threads: the shared model and the transitions emitted.\<close>

type_synonym res_out = "shared option \<times> transition list"

definition recompute :: "double \<Rightarrow> u32 \<Rightarrow> string \<Rightarrow> bool \<Rightarrow> res \<Rightarrow> res_out \<Rightarrow> res \<times> res_out" where
  "recompute ts n why talkerWithdrew r0 = (\<lambda>(sh, out).
     let r = seen r0;
         to = res_target r talkerWithdrew;
         from = res_label r;
         h = HistEntry ts n from to why
     in if from = to then (r\<lparr>rs_hist := push_cap 200 h (rs_hist r)\<rparr>, (sh, out))
        else (r\<lparr>rs_state := to, rs_hist := rs_hist r @ [h]\<rparr>,
          (map_option (\<lambda>s. s\<lparr>establishedStreams :=
             (if to = ''ESTABLISHED'' then insert (rs_streamId r) (establishedStreams s)
              else establishedStreams s - {rs_streamId r})\<rparr>) sh,
           out @ [\<lparr>t_proto = MSRP, t_object = cat [''reservation '', idStr (rs_streamId r)],
             t_from = from, t_to = to, t_why = why,
             t_summary = cat [''Reservation '', idStr (rs_streamId r), '': '', from, '' -> '', to, emdash, why],
             t_entity = '''', t_stream = idStr (rs_streamId r)\<rparr>])))"

text \<open>A talker declaration or withdrawal.\<close>

definition talkerDeclare :: "u8 \<Rightarrow> int \<Rightarrow> var_ctx \<Rightarrow> res \<Rightarrow> res \<times> string" where
  "talkerDeclare attr ev v r0 =
     (let src = ctx_at v ''src_mac'';
          r = r0\<lparr>rs_streamId := ctx_at v ''stream_id'', rs_talkerMac := src,
            rs_destMac := ctx_at v ''dest_mac'', rs_vlan := ucast (ctx_at v ''vlan_id''),
            rs_maxFrameSize := ucast (ctx_at v ''max_frame_size''),
            rs_maxIntervalFrames := ucast (ctx_at v ''max_interval_frames''),
            rs_priority := ucast (ctx_at v ''priority''), rs_rank := ucast (ctx_at v ''rank''),
            rs_accLatency := ucast (ctx_at v ''accumulated_latency'')\<rparr>
      in if ev = 5 then (r\<lparr>rs_decl := DeclNone\<rparr>, cat [''Talker Lv from '', macStr src])
         else if attr = 1 then (r\<lparr>rs_decl := DeclAdvertise\<rparr>,
           cat [''TalkerAdvertise '', mrpEventName ev, '' from '', macStr src])
         else (r\<lparr>rs_decl := DeclFailed, rs_failBridge := ctx_at v ''failure_bridge_id'',
                 rs_failCode := ucast (ctx_at v ''failure_code'')\<rparr>,
           cat [''TalkerFailed '', mrpEventName ev, '' ('',
             msrpFailureName (ucast (ctx_at v ''failure_code'')), '')'']))"

definition publishDecl :: "res \<Rightarrow> shared \<Rightarrow> shared" where
  "publishDecl r s = s\<lparr>msrpTalkerDecl :=
     (if rs_decl r = DeclNone then (msrpTalkerDecl s)(rs_streamId r := None)
      else (msrpTalkerDecl s)(rs_streamId r \<mapsto> rs_decl r))\<rparr>"

definition msrp_talker ::
    "u8 \<Rightarrow> int \<Rightarrow> var_ctx \<Rightarrow> res \<Rightarrow> res_out \<Rightarrow> res \<times> res_out" where
  "msrp_talker attr ev v r0 = (\<lambda>(sh, out).
     let (r, why) = talkerDeclare attr ev v r0
     in recompute (tsOf v) (numOf v) why (ev = 5) r (map_option (publishDecl r) sh, out))"

definition msrp_listener :: "int \<Rightarrow> var_ctx \<Rightarrow> res \<Rightarrow> res_out \<Rightarrow> res \<times> res_out" where
  "msrp_listener ev v r0 o0 =
     (let src = ctx_at v ''src_mac''; fp = to_int (ctx_at v ''four_packed_event'');
          r = r0\<lparr>rs_streamId := ctx_at v ''stream_id''\<rparr>;
          (ls, why) =
            (if ev = 5 \<or> fp = 0 then (om_del src (rs_listeners r),
               cat [''Listener '', (if ev = 5 then ''Lv'' else ''Ignore''), '' from '', macStr src])
             else (om_set src fp (rs_listeners r),
               cat [''Listener '', fourPackedName fp, '' '', mrpEventName ev, '' from '', macStr src]))
      in recompute (tsOf v) (numOf v) why False (r\<lparr>rs_listeners := ls\<rparr>) o0)"

definition msrp_domain :: "int \<Rightarrow> var_ctx \<Rightarrow> srdomain list \<Rightarrow> srdomain list" where
  "msrp_domain ev v ds =
     (let d = \<lparr>sd_classId = ucast (ctx_at v ''sr_class_id''),
               sd_classPrio = ucast (ctx_at v ''sr_class_priority''),
               sd_vid = ucast (ctx_at v ''sr_class_vid''), sd_declarer = ctx_at v ''src_mac''\<rparr>
      in if d \<notin> set ds \<and> ev \<noteq> 5 then ds @ [d] else ds)"

section \<open>Dispatch\<close>

definition mrpKind :: "u8 \<Rightarrow> string" where
  "mrpKind attr = (if attr = 1 then ''TALKER_ADVERTISE'' else if attr = 2 then ''TALKER_FAILED''
     else if attr = 3 then ''LISTENER'' else if attr = 4 then ''DOMAIN'' else '''')"

definition mrpKey :: "u8 \<Rightarrow> var_ctx \<Rightarrow> string" where
  "mrpKey attr v =
     (if attr = 1 then cat [''Talker Advertise '', idStr (ctx_at v ''stream_id'')]
      else if attr = 2 then cat [''Talker Failed '', idStr (ctx_at v ''stream_id'')]
      else if attr = 3 then cat [''Listener '', idStr (ctx_at v ''stream_id'')]
      else if attr = 4 then cat [''Domain class '', u_str (ctx_at v ''sr_class_id''), '' prio '',
        u_str (ctx_at v ''sr_class_priority''), '' vid '', u_str (ctx_at v ''sr_class_vid'')]
      else '''')"

text \<open>The registrar sees a Listener declaring Ignore as a leave.\<close>

definition feedRegistrar :: "u8 \<Rightarrow> int \<Rightarrow> var_ctx \<Rightarrow> shared \<Rightarrow> shared" where
  "feedRegistrar attr ev v s =
     (let key = mrpKey attr v;
          regEv = (if attr = 3 \<and> to_int (ctx_at v ''four_packed_event'') = 0 then 5 else ev)
      in if key \<noteq> [] then mrpEvent MSRP (mrpKind attr) key (ctx_at v ''src_mac'') regEv (tsOf v) (numOf v) s
         else s)"

definition msrp_attr :: "u8 \<Rightarrow> int \<Rightarrow> var_ctx \<Rightarrow> msrp \<times> shared option \<Rightarrow> msrp \<times> shared option" where
  "msrp_attr attr ev v = (\<lambda>(m, sh).
     let sid = ctx_at v ''stream_id''; r0 = om_at Res (mRes m) sid
     in if attr = 1 \<or> attr = 2 \<or> attr = 3 then
          let (r, (sh', out)) = (if attr = 3 then msrp_listener ev v r0 (sh, ms_pending m)
                                 else msrp_talker attr ev v r0 (sh, ms_pending m))
          in (m\<lparr>mRes := om_set sid r (mRes m), ms_pending := out\<rparr>, sh')
        else if attr = 4 then (m\<lparr>mDomains := msrp_domain ev v (mDomains m)\<rparr>, sh)
        else (m, sh))"

definition msrp_onDecode :: "var_ctx \<Rightarrow> msrp \<times> shared option \<Rightarrow> msrp \<times> shared option" where
  "msrp_onDecode v = (\<lambda>(m, sh).
     let attr = ucast (ctx_at v ''attribute_type'') :: u8; ev = to_int (ctx_at v ''mrp_event'')
     in if ev = 6 then
          (m, if mrpKind attr \<noteq> [] then map_option (mrpLeaveAll MSRP (mrpKind attr) (tsOf v) (numOf v)) sh else sh)
        else msrp_attr attr ev v (m, map_option (feedRegistrar attr ev v) sh))"

text \<open>\<open>listenerStateName\<close> and the sync annotation of \<open>/state\<close>.\<close>

definition listenerStateName :: "int \<Rightarrow> string" where
  "listenerStateName fp = (if fp = 1 then ''ASKING_FAILED'' else if fp = 2 then ''READY''
     else if fp = 3 then ''READY_FAILED'' else ''?'')"

section \<open>Invariant of a reservation\<close>

text \<open>
  The state is the one derived from the declarations held, except that a withdrawal by a
  talker never seen leaves \<open>WITHDRAWN\<close> until the next declaration.
\<close>

definition res_settled :: "res \<Rightarrow> bool" where
  "res_settled r \<longleftrightarrow> rs_state r = res_target r False \<or>
     rs_state r = ''WITHDRAWN'' \<and> \<not> rs_talkerSeen r"

definition res_ok :: "u64 \<Rightarrow> res \<Rightarrow> bool" where
  "res_ok sid r \<longleftrightarrow> rs_streamId r = sid \<and> rs_decl r \<in> {0, 1, 2} \<and>
     (rs_decl r \<noteq> 0 \<longrightarrow> rs_talkerSeen r) \<and> om_ok (rs_listeners r) \<and>
     om_all (\<lambda>_ fp. fp \<noteq> 0) (rs_listeners r) \<and> hist_ok (rs_state r) (rs_hist r) \<and> res_settled r"

abbreviation established :: "res \<Rightarrow> bool" where
  "established r \<equiv> rs_state r = ''ESTABLISHED''"

lemma res_target_cases: "res_target r w \<in>
    {''WITHDRAWN'', ''TALKER_FAILED'', ''ESTABLISHED'', ''LISTENER_FAILED'', ''PENDING''}"
  by (simp add: res_target_def)

lemma res_target_nonempty [simp]: "res_target r w \<noteq> []"
  using res_target_cases [of r w] by auto

lemma res_target_not_new [simp]: "res_target r w \<noteq> ''NEW''" "''NEW'' \<noteq> res_target r w" "[] \<noteq> res_target r w"
  using res_target_cases [of r w] by auto

lemma res_target_established [simp]:
  "res_target r w = ''ESTABLISHED'' \<longleftrightarrow> \<not> w \<and> rs_decl r = 1 \<and> anyReady (rs_listeners r)"
  by (auto simp: res_target_def)

text \<open>What a reservation must satisfy before \<open>recompute\<close> settles it.\<close>

definition res_ready :: "u64 \<Rightarrow> res \<Rightarrow> bool" where
  "res_ready sid r \<longleftrightarrow> rs_streamId r = sid \<and> rs_decl r \<in> {0, 1, 2} \<and> om_ok (rs_listeners r) \<and>
     om_all (\<lambda>_ fp. fp \<noteq> 0) (rs_listeners r) \<and>
     hist_ok (res_label r) (rs_hist r)"

lemma res_ok_ready: "res_ok sid r \<Longrightarrow> res_ready sid r"
  by (auto simp: res_ok_def res_ready_def res_label_def res_settled_def)

lemma res_ready_new: "res_ready sid (Res\<lparr>rs_streamId := sid\<rparr>)"
  by (simp add: res_ready_def Res_def)

lemma seen_sel [simp]: "rs_streamId (seen r) = rs_streamId r" "rs_decl (seen r) = rs_decl r"
  "rs_listeners (seen r) = rs_listeners r" "rs_hist (seen r) = rs_hist r" "res_label (seen r) = res_label r"
  "rs_state (seen r) = rs_state r"
  by (simp_all add: seen_def res_label_def)

lemma recompute_res:
  "fst (recompute ts n why w r0 o0) =
     (let r = seen r0; to = res_target r w; h = HistEntry ts n (res_label r0) to why
      in r\<lparr>rs_state := (if res_label r0 = to then rs_state r else to),
           rs_hist := (if res_label r0 = to then push_cap 200 h (rs_hist r0) else rs_hist r0 @ [h])\<rparr>)"
  by (simp add: recompute_def Let_def case_prod_beta)

lemma recompute_state: "rs_state (fst (recompute ts n why w r0 o0)) = res_target (seen r0) w"
  by (auto simp: recompute_res Let_def res_label_def split: if_splits)

lemma recompute_sel [simp]:
  "rs_streamId (fst (recompute ts n why w r0 o0)) = rs_streamId r0"
  "rs_decl (fst (recompute ts n why w r0 o0)) = rs_decl r0"
  "rs_listeners (fst (recompute ts n why w r0 o0)) = rs_listeners r0"
  "rs_talkerSeen (fst (recompute ts n why w r0 o0)) = (rs_talkerSeen r0 \<or> rs_decl r0 \<noteq> 0)"
  by (simp_all add: recompute_res Let_def) (simp add: seen_def)

lemma recompute_hist:
  assumes "hist_ok (res_label r0) (rs_hist r0)"
  shows "hist_ok (rs_state (fst (recompute ts n why w r0 o0))) (rs_hist (fst (recompute ts n why w r0 o0)))"
proof -
  let ?h = "HistEntry ts n (res_label r0) (res_target (seen r0) w) why"
  have "suffix (push_cap 200 ?h (rs_hist r0)) (rs_hist r0 @ [?h])" and "push_cap 200 ?h (rs_hist r0) \<noteq> []"
    using push_cap_suffix last_push_cap [of 200 ?h "rs_hist r0"] by simp_all
  then show ?thesis
    using hist_ok_push [OF assms, of _ ?h] unfolding recompute_state
    by (cases "res_label r0 = res_target (seen r0) w") (simp_all add: recompute_res Let_def)
qed

lemma recompute_ok:
  assumes "res_ready sid r0" and "w \<Longrightarrow> rs_decl r0 = 0"
  shows "res_ok sid (fst (recompute ts n why w r0 o0))"
proof -
  have t: "res_target (fst (recompute ts n why w r0 o0)) False = res_target (seen r0) False"
    by (simp add: res_target_def) (simp add: seen_def)
  have "res_settled (fst (recompute ts n why w r0 o0))"
  proof (cases w)
    case False
    then show ?thesis using t by (simp add: res_settled_def recompute_state)
  next
    case True
    with assms(2) show ?thesis
      using t by (cases "rs_talkerSeen r0")
        (simp_all add: res_settled_def recompute_state, simp_all add: res_target_def seen_def)
  qed
  with assms(1) recompute_hist [of r0 ts n why w o0] show ?thesis
    by (auto simp: res_ok_def res_ready_def)
qed

section \<open>The published views\<close>

text \<open>
  The views are right for the reservation \<open>sid\<close> and as in \<open>s0\<close> elsewhere.
\<close>

definition views :: "u64 \<Rightarrow> shared \<Rightarrow> res \<Rightarrow> shared \<Rightarrow> bool" where
  "views sid s0 r s \<longleftrightarrow>
     (\<forall>i. i \<in> establishedStreams s \<longleftrightarrow> (if i = sid then established r else i \<in> establishedStreams s0)) \<and>
     (\<forall>i. msrpTalkerDecl s i = (if i = sid then (if rs_decl r = 0 then None else Some (rs_decl r))
                                else msrpTalkerDecl s0 i))"

lemma recompute_shared:
  "fst (snd (recompute ts n why w r0 (sh, out))) =
     (let to = res_target (seen r0) w in
      if res_label r0 = to then sh
      else map_option (\<lambda>s. s\<lparr>establishedStreams :=
             (if to = ''ESTABLISHED'' then insert (rs_streamId r0) (establishedStreams s)
              else establishedStreams s - {rs_streamId r0})\<rparr>) sh)"
  by (simp add: recompute_def Let_def cong: if_cong)

lemma recompute_views:
  assumes "rs_streamId r0 = sid"
    and "\<forall>i. i \<in> establishedStreams s \<longleftrightarrow> (if i = sid then established r0 else i \<in> establishedStreams s0)"
    and "\<forall>i. msrpTalkerDecl s i = (if i = sid then (if rs_decl r0 = 0 then None else Some (rs_decl r0))
                                else msrpTalkerDecl s0 i)"
    and "fst (snd (recompute ts n why w r0 (Some s, out))) = Some s'"
  shows "views sid s0 (fst (recompute ts n why w r0 (Some s, out))) s'"
proof (cases "res_label r0 = res_target (seen r0) w")
  case True
  then have "s' = s" using assms(4) by (simp add: recompute_shared Let_def)
  moreover have "established r0 \<longleftrightarrow> res_target (seen r0) w = ''ESTABLISHED''"
    using True by (metis res_label_def res_target_not_new(1) res_target_nonempty)
  ultimately show ?thesis using assms(2,3) unfolding views_def recompute_state recompute_sel by simp
next
  case False
  then have s': "s' = s\<lparr>establishedStreams := (if res_target (seen r0) w = ''ESTABLISHED''
      then insert sid (establishedStreams s) else establishedStreams s - {sid})\<rparr>"
    using assms(4) False unfolding recompute_shared Let_def assms(1) by (simp cong: if_cong)
  show ?thesis
    using assms(2,3) unfolding views_def recompute_state recompute_sel s' by simp
qed

definition msrp_inv :: "msrp \<Rightarrow> bool" where
  "msrp_inv m \<longleftrightarrow> om_ok (mRes m) \<and> om_all res_ok (mRes m) \<and> distinct (mDomains m)"

definition msrp_published :: "msrp \<Rightarrow> shared \<Rightarrow> bool" where
  "msrp_published m s \<longleftrightarrow>
     establishedStreams s = {i. \<exists>r. om_get (mRes m) i = Some r \<and> established r} \<and>
     (\<forall>i. msrpTalkerDecl s i =
        (case om_get (mRes m) i of None \<Rightarrow> None
         | Some r \<Rightarrow> if rs_decl r = 0 then None else Some (rs_decl r)))"

lemma msrp_inv_init [simp]: "msrp_inv MsrpLogic" "msrp_published MsrpLogic SharedModel"
  by (simp_all add: msrp_inv_def msrp_published_def MsrpLogic_def SharedModel_def)

lemma views_published:
  assumes "msrp_published m s0" and "views sid s0 r s" and "om_ok (mRes m)"
  shows "msrp_published (m\<lparr>mRes := om_set sid r (mRes m), ms_pending := out\<rparr>) s"
  using assms unfolding msrp_published_def views_def by (auto simp: om_get_set)

text \<open>A declaration leaves a reservation that \<open>recompute\<close> then settles.\<close>

lemma talkerDeclare_ready:
  assumes "res_ready sid r0" and "sid = ctx_at v ''stream_id''"
  shows "res_ready sid (fst (talkerDeclare attr ev v r0))"
  using assms by (cases "rs_state r0 = []") (simp_all add: talkerDeclare_def Let_def res_ready_def res_label_def)

lemma talkerDeclare_sel:
  "rs_streamId (fst (talkerDeclare attr ev v r0)) = ctx_at v ''stream_id''"
  "rs_state (fst (talkerDeclare attr ev v r0)) = rs_state r0"
  "ev = 5 \<Longrightarrow> rs_decl (fst (talkerDeclare attr ev v r0)) = 0"
  by (simp_all add: talkerDeclare_def Let_def)

definition res_at :: "msrp \<Rightarrow> u64 \<Rightarrow> res" where
  "res_at m sid = om_at Res (mRes m) sid"

lemma res_at_ready:
  assumes "msrp_inv m" and "sid = ctx_at v ''stream_id''"
  shows "res_ready sid ((res_at m sid)\<lparr>rs_streamId := sid\<rparr>)"
proof (cases "om_get (mRes m) sid")
  case None
  then show ?thesis by (simp add: res_at_def om_at_def res_ready_new)
next
  case (Some r)
  then have "res_ok sid r" using assms(1) by (auto simp: msrp_inv_def dest: om_all_get)
  moreover from this have "r\<lparr>rs_streamId := sid\<rparr> = r" by (simp add: res_ok_def)
  ultimately show ?thesis using Some by (simp add: res_at_def om_at_def res_ok_ready)
qed

lemma msrp_talker_ok:
  assumes "msrp_inv m" and "sid = ctx_at v ''stream_id''"
  shows "res_ok sid (fst (msrp_talker attr ev v (res_at m sid) o0))"
proof -
  have "talkerDeclare attr ev v (res_at m sid) = talkerDeclare attr ev v ((res_at m sid)\<lparr>rs_streamId := sid\<rparr>)"
    by (simp add: talkerDeclare_def Let_def)
  then show ?thesis
    using talkerDeclare_ready [OF res_at_ready [OF assms] assms(2), of attr ev]
      talkerDeclare_sel(3) [of ev]
    by (auto simp: msrp_talker_def case_prod_beta intro!: recompute_ok)
qed

lemma msrp_listener_ok:
  assumes "msrp_inv m" and "sid = ctx_at v ''stream_id''"
  shows "res_ok sid (fst (msrp_listener ev v (res_at m sid) o0))"
proof -
  let ?r = "(res_at m sid)\<lparr>rs_streamId := sid\<rparr>" and ?src = "ctx_at v ''src_mac''"
  let ?fp = "to_int (ctx_at v ''four_packed_event'')"
  have "res_ready sid (?r\<lparr>rs_listeners := om_del ?src (rs_listeners ?r)\<rparr>)"
    and "?fp \<noteq> 0 \<Longrightarrow> res_ready sid (?r\<lparr>rs_listeners := om_set ?src ?fp (rs_listeners ?r)\<rparr>)"
    using res_at_ready [OF assms]
    by (auto simp: res_ready_def res_label_def intro!: om_all_del om_all_set)
  then show ?thesis
    unfolding msrp_listener_def Let_def case_prod_beta assms(2) [symmetric]
    by (cases "ev = 5 \<or> ?fp = 0") (auto intro!: recompute_ok)
qed

lemma res_at_views:
  assumes "msrp_published m s"
  shows "established (res_at m sid) \<longleftrightarrow> sid \<in> establishedStreams s"
    and "msrpTalkerDecl s sid = (if rs_decl (res_at m sid) = 0 then None else Some (rs_decl (res_at m sid)))"
  using assms by (auto simp: msrp_published_def res_at_def om_at_def Res_def split: option.splits)

lemma msrp_talker_views:
  assumes "msrp_published m s" and "sid = ctx_at v ''stream_id''"
    and "fst (snd (msrp_talker attr ev v (res_at m sid) (Some s, out))) = Some s'"
  shows "views sid s (fst (msrp_talker attr ev v (res_at m sid) (Some s, out))) s'"
proof -
  obtain r why where r: "talkerDeclare attr ev v (res_at m sid) = (r, why)" by force
  have sel: "rs_streamId r = sid" "rs_state r = rs_state (res_at m sid)"
    using talkerDeclare_sel(1,2) [of attr ev v "res_at m sid"] r assms(2) by simp_all
  have v1: "\<forall>i. i \<in> establishedStreams (publishDecl r s) \<longleftrightarrow>
      (if i = sid then established r else i \<in> establishedStreams s)"
    using res_at_views(1) [OF assms(1), of sid] by (simp add: publishDecl_def sel)
  have v2: "\<forall>i. msrpTalkerDecl (publishDecl r s) i =
      (if i = sid then (if rs_decl r = 0 then None else Some (rs_decl r)) else msrpTalkerDecl s i)"
    by (simp add: publishDecl_def sel)
  show ?thesis
    using assms(3) recompute_views [OF sel(1) v1 v2] by (simp add: msrp_talker_def r)
qed

lemma msrp_listener_views:
  assumes "msrp_published m s" and "sid = ctx_at v ''stream_id''"
    and "fst (snd (msrp_listener ev v (res_at m sid) (Some s, out))) = Some s'"
  shows "views sid s (fst (msrp_listener ev v (res_at m sid) (Some s, out))) s'"
proof -
  have "views sid s (fst (recompute ts n why False r (Some s, out))) s'"
    if "fst (snd (recompute ts n why False r (Some s, out))) = Some s'"
      "rs_streamId r = sid" "rs_state r = rs_state (res_at m sid)" "rs_decl r = rs_decl (res_at m sid)"
    for ts n why r
    using res_at_views [OF assms(1), of sid] that by (intro recompute_views) simp_all
  with assms(2,3) show ?thesis by (simp add: msrp_listener_def Let_def case_prod_beta)
qed

text \<open>Modules attached to a model stay attached.\<close>

lemma recompute_None: "(fst (snd (recompute ts n why w r o0)) = None) = (fst o0 = None)"
  by (cases o0) (simp add: recompute_shared Let_def)

lemma msrp_step_None:
  "(fst (snd (msrp_talker attr ev v r o0)) = None) = (fst o0 = None)"
  "(fst (snd (msrp_listener ev v r o0)) = None) = (fst o0 = None)"
  by (cases o0; simp add: msrp_talker_def msrp_listener_def Let_def case_prod_beta recompute_None)+

lemma feed_frame: "msrp_published m (feedRegistrar attr ev v s) = msrp_published m s"
  by (simp add: feedRegistrar_def Let_def msrp_published_def)

lemma leaveAll_frame: "msrp_published m (mrpLeaveAll pr knd ts n s) = msrp_published m s"
  by (simp add: msrp_published_def)

text \<open>The step of the reservation a talker or listener declaration is about.\<close>

definition res_step :: "u8 \<Rightarrow> int \<Rightarrow> var_ctx \<Rightarrow> msrp \<Rightarrow> shared option \<Rightarrow> res \<times> res_out" where
  "res_step attr ev v m sh =
     (if attr = 3 then msrp_listener ev v (res_at m (ctx_at v ''stream_id'')) (sh, ms_pending m)
      else msrp_talker attr ev v (res_at m (ctx_at v ''stream_id'')) (sh, ms_pending m))"

lemma msrp_attr_step:
  "msrp_attr attr ev v (m, sh) =
     (let step = res_step attr ev v m sh in
      if attr = 1 \<or> attr = 2 \<or> attr = 3 then
        (m\<lparr>mRes := om_set (ctx_at v ''stream_id'') (fst step) (mRes m), ms_pending := snd (snd step)\<rparr>,
         fst (snd step))
      else if attr = 4 then (m\<lparr>mDomains := msrp_domain ev v (mDomains m)\<rparr>, sh) else (m, sh))"
  by (simp add: msrp_attr_def res_step_def res_at_def Let_def case_prod_beta)

lemma msrp_attr_ok:
  assumes inv: "msrp_inv m" and res: "msrp_attr attr ev v (m, sh) = (m', sh')"
    and pub: "\<And>s. sh = Some s \<Longrightarrow> msrp_published m s"
  shows "msrp_inv m' \<and> (\<forall>s'. sh' = Some s' \<longrightarrow> msrp_published m' s')"
proof (cases "attr = 1 \<or> attr = 2 \<or> attr = 3")
  case True
  let ?sid = "ctx_at v ''stream_id''"
  define step where "step = res_step attr ev v m sh"
  have m': "m' = m\<lparr>mRes := om_set ?sid (fst step) (mRes m), ms_pending := snd (snd step)\<rparr>"
    and sh': "sh' = fst (snd step)"
    using res True by (simp_all add: msrp_attr_step step_def Let_def)
  have ok: "res_ok ?sid (fst step)"
    using msrp_talker_ok [OF inv refl] msrp_listener_ok [OF inv refl] by (simp add: step_def res_step_def)
  have "msrp_published m' s'" if s': "sh' = Some s'" for s'
  proof -
    have "sh \<noteq> None" using s' sh' msrp_step_None(1) [of attr ev v "res_at m ?sid" "(sh, ms_pending m)"]
        msrp_step_None(2) [of ev v "res_at m ?sid" "(sh, ms_pending m)"]
      by (auto simp: step_def res_step_def split: if_splits)
    then obtain s where s: "sh = Some s" by auto
    have "views ?sid s (fst step) s'"
      using msrp_talker_views [OF pub [OF s] refl] msrp_listener_views [OF pub [OF s] refl] sh' s' s
      by (auto simp: step_def res_step_def split: if_splits)
    with views_published [OF pub [OF s]] inv show ?thesis by (simp add: m' msrp_inv_def)
  qed
  moreover have "msrp_inv m'" using inv ok by (simp add: m' msrp_inv_def om_all_set)
  ultimately show ?thesis by blast
next
  case False
  then have "sh' = sh" and "m' = m \<or> m' = m\<lparr>mDomains := msrp_domain ev v (mDomains m)\<rparr>"
    using res by (auto simp: msrp_attr_step Let_def split: if_splits)
  then show ?thesis using inv pub
    by (auto simp: msrp_inv_def msrp_published_def msrp_domain_def Let_def)
qed

lemma msrp_inv_onDecode [inv_intros]:
  assumes inv: "msrp_inv m" and pub: "\<And>s. sh = Some s \<Longrightarrow> msrp_published m s"
    and res: "msrp_onDecode v (m, sh) = (m', sh')"
  shows "msrp_inv m'" and "\<And>s'. sh' = Some s' \<Longrightarrow> msrp_published m' s'"
proof -
  let ?attr = "ucast (ctx_at v ''attribute_type'') :: u8" and ?ev = "to_int (ctx_at v ''mrp_event'')"
  have pub': "msrp_published m s" if "map_option (feedRegistrar ?attr ?ev v) sh = Some s" for s
    using that pub by (auto simp: feed_frame)
  have step: "msrp_inv m' \<and> (\<forall>s'. sh' = Some s' \<longrightarrow> msrp_published m' s')"
    if "msrp_attr ?attr ?ev v (m, map_option (feedRegistrar ?attr ?ev v) sh) = (m', sh')"
    by (rule msrp_attr_ok [OF inv that pub'])
  have "msrp_inv m' \<and> (\<forall>s'. sh' = Some s' \<longrightarrow> msrp_published m' s')"
  proof (cases "?ev = 6")
    case True
    with res inv pub show ?thesis
      by (auto simp: msrp_onDecode_def Let_def leaveAll_frame split: if_splits)
  next
    case False
    with res step show ?thesis by (simp add: msrp_onDecode_def Let_def)
  qed
  then show "msrp_inv m'" and "\<And>s'. sh' = Some s' \<Longrightarrow> msrp_published m' s'" by blast+
qed

section \<open>The module keeps its contract\<close>

text \<open>Everything but the reservations' views and the registrars.\<close>

definition except_msrp :: "shared \<Rightarrow> shared" where
  "except_msrp s = except_mrp (s\<lparr>establishedStreams := {}, msrpTalkerDecl := Map.empty\<rparr>)"

lemma except_msrp_frame [simp]:
  "except_msrp (s\<lparr>establishedStreams := x\<rparr>) = except_msrp s" "except_msrp (publishDecl r s) = except_msrp s"
  by (simp_all add: except_msrp_def except_mrp_def publishDecl_def)

lemma except_msrp_mrp: "except_mrp s = except_mrp s' \<Longrightarrow> except_msrp s = except_msrp s'"
  unfolding except_msrp_def except_mrp_def by (cases s; cases s') simp

lemma except_msrp_ops [simp]:
  "except_msrp (feedRegistrar attr ev v s) = except_msrp s"
  "except_msrp (mrpLeaveAll pr knd ts n s) = except_msrp s"
  by (rule except_msrp_mrp; simp add: feedRegistrar_def Let_def)+

lemma map_except_msrp [simp]:
  "map_option (except_msrp \<circ> feedRegistrar attr ev v) sh = map_option except_msrp sh"
  "map_option (except_msrp \<circ> mrpLeaveAll pr knd ts n) sh = map_option except_msrp sh"
  "map_option (except_msrp \<circ> publishDecl r) sh = map_option except_msrp sh"
  by (cases sh; simp)+

lemma recompute_foreign [simp]:
  "map_option except_msrp (fst (snd (recompute ts n why w r0 o0))) = map_option except_msrp (fst o0)"
  by (cases o0; cases "fst o0") (simp_all add: recompute_shared Let_def)

lemma msrp_attr_foreign:
  "map_option except_msrp (snd (msrp_attr attr ev v (m, sh))) = map_option except_msrp sh"
  by (simp add: msrp_attr_def msrp_listener_def msrp_talker_def Let_def case_prod_beta option.map_comp)

lemma msrp_foreign: "map_option except_msrp (snd (msrp_onDecode v (m, sh))) = map_option except_msrp sh"
  by (simp add: msrp_onDecode_def Let_def msrp_attr_foreign option.map_comp)

text \<open>The registrars stay well-formed.\<close>

lemma reg_inv_frame: "mrpAttrs s' = mrpAttrs s \<Longrightarrow> mrpLvCount s' = mrpLvCount s \<Longrightarrow> reg_inv s' = reg_inv s"
  by (simp add: reg_inv_def)

lemma reg_inv_publishDecl [simp]: "reg_inv (publishDecl r s) = reg_inv s"
  by (rule reg_inv_frame) (simp_all add: publishDecl_def)

lemma recompute_reg [simp]:
  "pred_option reg_inv (fst (snd (recompute ts n why w r0 o0))) = pred_option reg_inv (fst o0)"
  by (cases o0; cases "fst o0") (simp_all add: recompute_shared Let_def reg_inv_def)

lemma reg_inv_feed: "reg_inv s \<Longrightarrow> reg_inv (feedRegistrar attr ev v s)"
  by (simp add: feedRegistrar_def Let_def reg_inv_event)

lemma pred_option_map: "pred_option P (map_option f x) = pred_option (P \<circ> f) x"
  by (cases x) simp_all

lemma msrp_attr_reg: "pred_option reg_inv (snd (msrp_attr attr ev v (m, sh))) = pred_option reg_inv sh"
  by (simp add: msrp_attr_def msrp_listener_def msrp_talker_def Let_def case_prod_beta pred_option_map comp_def)

lemma msrp_reg:
  assumes "reg_inv s" and "msrp_onDecode v (m, Some s) = (m', Some s')"
  shows "reg_inv s'"
proof -
  have "pred_option reg_inv (snd (msrp_onDecode v (m, Some s)))"
    using assms(1) by (simp add: msrp_onDecode_def Let_def msrp_attr_reg reg_inv_feed reg_inv_leaveAll)
  then show ?thesis by (simp add: assms(2))
qed

definition msrp_good :: "msrp \<Rightarrow> shared \<Rightarrow> bool" where
  "msrp_good m s \<longleftrightarrow> msrp_inv m \<and> msrp_published m s \<and> reg_inv s"

interpretation msrp: avb_logic msrp_onDecode "\<lambda>_ st. st" msrp_good except_msrp
proof
  fix v m s m' s' assume "msrp_good m s" and "msrp_onDecode v (m, Some s) = (m', Some s')"
  then show "msrp_good m' s'"
    using msrp_inv_onDecode [of m "Some s" v m' "Some s'"] msrp_reg [of s v m m' s']
    by (auto simp: msrp_good_def)
qed (auto simp: msrp_foreign)

end
