(* ===== verification/Acmp_Logic.thy ===== *)
theory Acmp_Logic
  imports Mrp_Registrar
begin

text \<open>
  \<open>backend/src/logic/acmp_logic.cpp\<close>: the connection state of each (talker, listener)
  stream pair of IEEE 1722.1, the Milan v1.2 state machine of each listener sink, driven
  by the wire and by what the ADP and MSRP modules publish in the shared model, and the
  record of the stateless Milan talkers.  This theory holds the model; the invariant of
  the sinks and what a tick establishes are in \<open>Acmp_Proofs\<close>.
\<close>

section \<open>Keys\<close>

datatype conn_key = ConnKey (k_talker: u64) (k_talkerUid: u16) (k_listener: u64) (k_listenerUid: u16)

text \<open>\<open>operator<\<close>: lexicographic, as \<open>std::tie\<close> compares.\<close>

fun key_tuple :: "conn_key \<Rightarrow> u64 \<times> u16 \<times> u64 \<times> u16" where
  "key_tuple (ConnKey t tu l lu) = (t, tu, l, lu)"

lemma key_tuple_inject: "key_tuple a = key_tuple b \<Longrightarrow> a = b"
  by (cases a; cases b) simp

instantiation conn_key :: linorder
begin

definition less_eq_conn_key :: "conn_key \<Rightarrow> conn_key \<Rightarrow> bool" where
  "less_eq_conn_key a b \<longleftrightarrow> key_tuple a \<le> key_tuple b"

definition less_conn_key :: "conn_key \<Rightarrow> conn_key \<Rightarrow> bool" where
  "less_conn_key a b \<longleftrightarrow> key_tuple a < key_tuple b"

instance
  by standard (auto simp: less_eq_conn_key_def less_conn_key_def dest: key_tuple_inject)

end

section \<open>State\<close>

record conn =
  cn_key :: conn_key
  cn_controller :: u64
  cn_streamId :: u64
  cn_destMac :: u64
  cn_vlan :: u16
  cn_connCount :: u16
  cn_state :: string
  cn_hist :: "hist_entry list"

definition Conn :: conn where
  "Conn = \<lparr>cn_key = ConnKey 0 0 0 0, cn_controller = 0, cn_streamId = 0, cn_destMac = 0, cn_vlan = 0,
     cn_connCount = 0, cn_state = '''', cn_hist = []\<rparr>"

record acmp_inflight =
  af_sentTs :: double
  af_n :: u32

record sink =
  sk_listener :: u64
  sk_uid :: u16
  sk_state :: string
  boundTalker :: u64
  sk_controller :: u64
  boundTalkerUid :: u16
  sk_streamId :: u64
  sk_destMac :: u64
  sk_vlan :: u16
  probes :: u32
  lastProbeTs :: double
  retryStartTs :: double
  settledNoRsvTs :: double
  talkerAvail :: bool
  retryWarned :: bool
  sk_hist :: "hist_entry list"

definition MilanSink :: sink where
  "MilanSink = \<lparr>sk_listener = 0, sk_uid = 0, sk_state = '''', boundTalker = 0, sk_controller = 0,
     boundTalkerUid = 0, sk_streamId = 0, sk_destMac = 0, sk_vlan = 0, probes = 0, lastProbeTs = -1,
     retryStartTs = -1, settledNoRsvTs = -1, talkerAvail = False, retryWarned = False, sk_hist = []\<rparr>"

record milan_talker =
  tk_talker :: u64
  tk_uid :: u16
  probesReceived :: u32
  probeResponses :: u32
  disconnectTx :: u32
  getTxConnection :: u32
  lastStatus :: u8
  tk_streamId :: u64
  tk_hist :: "hist_entry list"

definition MilanTalker :: milan_talker where
  "MilanTalker = \<lparr>tk_talker = 0, tk_uid = 0, probesReceived = 0, probeResponses = 0, disconnectTx = 0,
     getTxConnection = 0, lastStatus = 0, tk_streamId = 0, tk_hist = []\<rparr>"

type_synonym ep_key = "u64 \<times> u16"
type_synonym acmp_key = "u8 \<times> u16 \<times> conn_key"

record acmp =
  ac_inflight :: "(acmp_key, acmp_inflight) omap"
  mConns :: "(conn_key, conn) omap"
  mSinks :: "(ep_key, sink) omap"
  mTalkers :: "(ep_key, milan_talker) omap"
  ac_pending :: "transition list"

definition AcmpLogic :: acmp where
  "AcmpLogic = \<lparr>ac_inflight = [], mConns = [], mSinks = [], mTalkers = [], ac_pending = []\<rparr>"

definition acmpTimeoutS :: "u8 \<Rightarrow> double" where "acmpTimeoutS cmdMsgType = 2 / 10"
definition kMilanNoRespS :: double where "kMilanNoRespS = 2 / 10"
definition kMilanRetryS :: double where "kMilanRetryS = 4"
definition kMilanNoTkS :: double where "kMilanNoTkS = 10"

text \<open>\<open>(int)x\<close> on a \<open>double\<close> truncates towards zero.\<close>

definition trunc_int :: "double \<Rightarrow> int" where
  "trunc_int x = (if x \<ge> 0 then \<lfloor>x\<rfloor> else \<lceil>x\<rceil>)"

section \<open>Connections\<close>

definition connName :: "conn_key \<Rightarrow> string" where
  "connName k = cat [idStr (k_talker k), ''['', u_str (k_talkerUid k), ''] -> '',
     idStr (k_listener k), ''['', u_str (k_listenerUid k), '']'']"

definition conn_label :: "conn \<Rightarrow> string" where
  "conn_label c = (if cn_state c = [] then ''DISCONNECTED'' else cn_state c)"

definition orName :: "shared option \<Rightarrow> u64 \<Rightarrow> string" where
  "orName sh i = (let nm = sh_name sh i in if nm = [] then idStr i else nm)"

definition conn_transition ::
    "shared option \<Rightarrow> double \<Rightarrow> u32 \<Rightarrow> string \<Rightarrow> string \<Rightarrow> conn \<Rightarrow> conn \<times> transition list" where
  "conn_transition sh ts n to why c =
     (let from = conn_label c; k = cn_key c
      in if from = to then (c, [])
         else (c\<lparr>cn_state := to, cn_hist := cn_hist c @ [HistEntry ts n from to why]\<rparr>,
           [\<lparr>t_proto = ACMP, t_object = cat [''connection '', connName k], t_from = from, t_to = to, t_why = why,
             t_summary = cat [''Connection '', orName sh (k_talker k), ''['', u_str (k_talkerUid k), ''] -> '',
               orName sh (k_listener k), ''['', u_str (k_listenerUid k), '']: '', from, '' -> '', to, emdash, why],
             t_entity = idStr (k_listener k),
             t_stream = (if cn_streamId c \<noteq> 0 then idStr (cn_streamId c) else '''')\<rparr>]))"

text \<open>The stream parameters a successful response carries.\<close>

definition conn_params :: "var_ctx \<Rightarrow> conn \<Rightarrow> conn" where
  "conn_params v c = c\<lparr>cn_streamId := ctx_at v ''stream_id'', cn_destMac := ctx_at v ''stream_dest_mac'',
     cn_vlan := ucast (ctx_at v ''stream_vlan_id'')\<rparr>"

text \<open>The \<open>switch\<close> of \<open>onDecode\<close>.\<close>

definition conn_message ::
    "shared option \<Rightarrow> var_ctx \<Rightarrow> double \<Rightarrow> u32 \<Rightarrow> u8 \<Rightarrow> u8 \<Rightarrow> conn \<Rightarrow> conn \<times> transition list" where
  "conn_message sh v ts n msg status c =
     (if msg = 0 \<or> msg = 6 then
        (if cn_state c \<noteq> ''CONNECTING'' \<and> cn_state c \<noteq> ''CONNECTED'' then
           conn_transition sh ts n ''CONNECTING''
             (cat [acmpMsgName msg, '' from controller '', idStr (cn_controller c)]) c
         else (c, []))
      else if msg = 1 then
        (if status = 0 then
           (if cn_state c \<noteq> ''CONNECTED'' \<and> cn_state c \<noteq> ''CONNECTING'' then
              conn_transition sh ts n ''CONNECTING'' ''CONNECT_TX_RESPONSE (fast connect?)'' (conn_params v c)
            else (conn_params v c, []))
         else conn_transition sh ts n ''FAILED'' (cat [''CONNECT_TX_RESPONSE '', acmpStatusName status]) c)
      else if msg = 7 then
        (if status = 0 then
           conn_transition sh ts n ''CONNECTED'' ''CONNECT_RX_RESPONSE SUCCESS''
             ((conn_params v c)\<lparr>cn_connCount := ucast (ctx_at v ''connection_count'')\<rparr>)
         else conn_transition sh ts n ''FAILED'' (cat [''CONNECT_RX_RESPONSE '', acmpStatusName status]) c)
      else if msg = 2 \<or> msg = 8 then
        (if cn_state c \<noteq> ''DISCONNECTED'' then conn_transition sh ts n ''DISCONNECTING'' (acmpMsgName msg) c
         else (c, []))
      else if msg = 3 \<or> msg = 9 then
        (if status = 0 then
           (if cn_state c \<noteq> ''DISCONNECTED'' then
              conn_transition sh ts n ''DISCONNECTED'' (cat [acmpMsgName msg, '' SUCCESS''])
                (if msg = 9 then c\<lparr>cn_connCount := ucast (ctx_at v ''connection_count'')\<rparr> else c)
            else (c, []))
         else if cn_state c = ''DISCONNECTING'' then
           conn_transition sh ts n ''CONNECTED''
             (cat [acmpMsgName msg, '' '', acmpStatusName status, emdash, ''disconnect rejected'']) c
         else (c, []))
      else (c, []))"

section \<open>Milan sinks\<close>

definition sinkName :: "sink \<Rightarrow> string" where
  "sinkName s = cat [idStr (sk_listener s), '':'', u_str (sk_uid s)]"

definition sink_label :: "sink \<Rightarrow> string" where
  "sink_label s = (if sk_state s = [] then ''UNBOUND'' else sk_state s)"

definition probingStatus :: "string \<Rightarrow> string" where
  "probingStatus st = (if st = [] \<or> st = ''UNBOUND'' then ''PROBING_DISABLED''
     else if st = ''PRB_W_AVAIL'' then ''PROBING_PASSIVE''
     else if st = ''SETTLED_NO_RSV'' \<or> st = ''SETTLED_RSV_OK'' then ''PROBING_COMPLETED''
     else ''PROBING_ACTIVE'')"

text \<open>A sink next to the transitions emitted so far.\<close>

type_synonym sink_out = "sink \<times> transition list"

definition sinkTransition ::
    "shared option \<Rightarrow> double \<Rightarrow> u32 \<Rightarrow> string \<Rightarrow> string \<Rightarrow> sink_out \<Rightarrow> sink_out" where
  "sinkTransition sh ts n to why = (\<lambda>(s, out).
     let from = sink_label s; nm = sh_name sh (sk_listener s)
     in if from = to then (s, out)
        else (s\<lparr>sk_state := to, sk_hist := push_cap 200 (HistEntry ts n from to why) (sk_hist s)\<rparr>,
          out @ [\<lparr>t_proto = ACMP, t_object = cat [''milan sink '', sinkName s], t_from = from, t_to = to,
            t_why = why,
            t_summary = cat [''Milan sink '', sinkName s, (if nm = [] then '''' else cat ['' ('', nm, '')'']),
              '': '', from, '' -> '', to, emdash, why],
            t_entity = idStr (sk_listener s),
            t_stream = (if sk_streamId s \<noteq> 0 then idStr (sk_streamId s) else '''')\<rparr>]))"

definition sinkWarning :: "double \<Rightarrow> u32 \<Rightarrow> string \<Rightarrow> sink_out \<Rightarrow> sink_out" where
  "sinkWarning ts n why = (\<lambda>(s, out).
     let st = sink_label s
     in (s\<lparr>sk_hist := push_cap 200 (HistEntry ts n st st why) (sk_hist s)\<rparr>,
         out @ [\<lparr>t_proto = ACMP, t_object = cat [''milan sink '', sinkName s], t_from = st, t_to = st,
           t_why = why, t_summary = cat [''Milan sink '', sinkName s, '': '', why],
           t_entity = idStr (sk_listener s), t_stream = ''''\<rparr>]))"

definition talkerWarning ::
    "double \<Rightarrow> u32 \<Rightarrow> string \<Rightarrow> milan_talker \<times> transition list \<Rightarrow> milan_talker \<times> transition list" where
  "talkerWarning ts n why = (\<lambda>(t, out).
     (t\<lparr>tk_hist := push_cap 50 (HistEntry ts n ''STATELESS'' ''STATELESS'' why) (tk_hist t)\<rparr>,
      out @ [\<lparr>t_proto = ACMP, t_object = cat [''milan talker '', idStr (tk_talker t), '':'', u_str (tk_uid t)],
        t_from = ''STATELESS'', t_to = ''STATELESS'', t_why = why,
        t_summary = cat [''Milan talker '', idStr (tk_talker t), '':'', u_str (tk_uid t), '': '', why],
        t_entity = idStr (tk_talker t), t_stream = ''''\<rparr>]))"

definition talkerAvailable :: "shared option \<Rightarrow> u64 \<Rightarrow> bool" where
  "talkerAvailable sh talker = (case sh of None \<Rightarrow> False | Some s \<Rightarrow> talker \<in> adpAvailable s)"

definition talkerAttrRegistered :: "shared option \<Rightarrow> u64 \<Rightarrow> bool" where
  "talkerAttrRegistered sh streamId = (case sh of None \<Rightarrow> False | Some s \<Rightarrow> msrpTalkerDecl s streamId \<noteq> None)"

text \<open>References into the maps: the entry, its identity stored, default-constructed when absent.\<close>

definition sink_ref :: "acmp \<Rightarrow> ep_key \<Rightarrow> sink" where
  "sink_ref m k = (om_at MilanSink (mSinks m) k)\<lparr>sk_listener := fst k, sk_uid := snd k\<rparr>"

definition talker_ref :: "acmp \<Rightarrow> ep_key \<Rightarrow> milan_talker" where
  "talker_ref m k = (om_at MilanTalker (mTalkers m) k)\<lparr>tk_talker := fst k, tk_uid := snd k\<rparr>"

definition put_sink :: "ep_key \<Rightarrow> sink_out \<Rightarrow> acmp \<Rightarrow> acmp" where
  "put_sink k so m = m\<lparr>mSinks := om_set k (fst so) (mSinks m), ac_pending := snd so\<rparr>"

definition put_talker :: "ep_key \<Rightarrow> milan_talker \<times> transition list \<Rightarrow> acmp \<Rightarrow> acmp" where
  "put_talker k t m = m\<lparr>mTalkers := om_set k (fst t) (mTalkers m), ac_pending := snd t\<rparr>"

section \<open>Messages\<close>

text \<open>\<open>BIND_RX_COMMAND\<close>.\<close>

definition milan_bind :: "shared option \<Rightarrow> var_ctx \<Rightarrow> double \<Rightarrow> u32 \<Rightarrow> ep_key \<Rightarrow> sink_out \<Rightarrow> sink_out" where
  "milan_bind sh v ts n t = (\<lambda>(s, out).
     let avail = talkerAvailable sh (fst t);
         s1 = s\<lparr>boundTalker := fst t, boundTalkerUid := snd t,
                sk_controller := ctx_at v ''controller_entity_id'', talkerAvail := avail\<rparr>
     in sinkTransition sh ts n (if avail then ''PRB_W_DELAY'' else ''PRB_W_AVAIL'')
          (cat [''RCV_BIND_RX_CMD from controller '', idStr (sk_controller s1), '' (talker '',
                (if avail then ''already discovered'' else ''not yet discovered''), '')'']) (s1, out))"

text \<open>\<open>PROBE_TX_COMMAND\<close>: which transition the sink takes depends on where it was.\<close>

definition milan_probe :: "shared option \<Rightarrow> double \<Rightarrow> u32 \<Rightarrow> ep_key \<Rightarrow> sink_out \<Rightarrow> sink_out" where
  "milan_probe sh ts n t = (\<lambda>(s0, out).
     let s = s0\<lparr>probes := probes s0 + 1\<rparr>; prev = sk_state s;
         (s', out') =
           (if prev = ''PRB_W_RESP'' \<and> ts - lastProbeTs s < kMilanNoRespS + 3 / 10 then
              sinkTransition sh ts n ''PRB_W_RESP2''
                (cat [''second PROBE_TX_COMMAND after TMR_NO_RESP ('',
                      int_str (trunc_int ((ts - lastProbeTs s) * 1000)), '' ms)'']) (s, out)
            else if prev = ''PRB_W_RETRY'' then
              sinkTransition sh ts n ''PRB_W_RESP'' (cat [''TMR_RETRY expired'', emdash, ''probing again''])
                (s\<lparr>retryWarned := False\<rparr>, out)
            else if prev = [] \<or> prev = ''UNBOUND'' then
              sinkTransition sh ts n ''PRB_W_RESP''
                (cat [''PROBE_TX_COMMAND sent to talker '', idStr (fst t), '' without an observed BIND'', emdash,
                      ''saved binding restored from non-volatile memory (Milan '', section_sign, ''5.5.2.4)''])
                (s\<lparr>boundTalker := fst t, boundTalkerUid := snd t\<rparr>, out)
            else
              sinkTransition sh ts n ''PRB_W_RESP''
                (cat [''PROBE_TX_COMMAND sent to talker '', idStr (fst t),
                      (if prev = ''PRB_W_AVAIL'' then '' (EVT_TK_DISCOVERED + TMR_DELAY inferred)''
                       else if prev = ''PRB_W_DELAY'' then '' (TMR_DELAY expired)'' else [])]) (s, out))
     in (s'\<lparr>lastProbeTs := ts\<rparr>, out'))"

text \<open>\<open>PROBE_TX_RESPONSE\<close> at a known sink.\<close>

definition milan_probe_response ::
    "shared option \<Rightarrow> var_ctx \<Rightarrow> double \<Rightarrow> u32 \<Rightarrow> u8 \<Rightarrow> sink_out \<Rightarrow> sink_out" where
  "milan_probe_response sh v ts n status = (\<lambda>(s, out).
     if status = 0 then
       let s1 = s\<lparr>sk_streamId := ctx_at v ''stream_id'', sk_destMac := ctx_at v ''stream_dest_mac'',
                  sk_vlan := ucast (ctx_at v ''stream_vlan_id''), settledNoRsvTs := ts\<rparr>;
           so = sinkTransition sh ts n ''SETTLED_NO_RSV''
                  (cat [''RCV_PROBE_TX_RESP SUCCESS'', emdash, ''stream parameters obtained ('',
                        idStr (sk_streamId s1), '')'']) (s1, out)
       in if talkerAttrRegistered sh (sk_streamId s1) then
            sinkTransition sh ts n ''SETTLED_RSV_OK''
              (cat [''EVT_TK_REGISTERED'', emdash, ''matching talker attribute already registered (MSRP)'']) so
          else so
     else sinkWarning ts n (cat [''PROBE_TX_RESPONSE '', acmpStatusName status]) (s, out))"

definition talker_probe_response :: "var_ctx \<Rightarrow> u8 \<Rightarrow> milan_talker \<Rightarrow> milan_talker" where
  "talker_probe_response v status t =
     (let t1 = t\<lparr>probeResponses := probeResponses t + 1, lastStatus := status\<rparr>
      in if status = 0 then t1\<lparr>tk_streamId := ctx_at v ''stream_id''\<rparr> else t1)"

definition milanOnMessage :: "shared option \<Rightarrow> var_ctx \<Rightarrow> double \<Rightarrow> u32 \<Rightarrow> u8 \<Rightarrow> u8 \<Rightarrow> acmp \<Rightarrow> acmp" where
  "milanOnMessage sh v ts n msg status m =
     (let l = (ctx_at v ''listener_entity_id'', ucast (ctx_at v ''listener_unique_id'') :: u16);
          t = (ctx_at v ''talker_entity_id'', ucast (ctx_at v ''talker_unique_id'') :: u16);
          s = (sink_ref m l, ac_pending m); tk = talker_ref m t
      in if msg = 6 then put_sink l (milan_bind sh v ts n t s) m
         else if msg = 7 then
           (case om_get (mSinks m) l of None \<Rightarrow> m
            | Some s0 \<Rightarrow> if status \<noteq> 0 then
                put_sink l (sinkTransition sh ts n ''UNBOUND''
                  (cat [''BIND_RX_RESPONSE '', acmpStatusName status, emdash, ''binding rejected''])
                  (s0, ac_pending m)) m
              else m)
         else if msg = 8 then
           put_sink l (sinkTransition sh ts n ''UNBOUND''
             (cat [''RCV_UNBIND_RX_CMD from controller '', idStr (ctx_at v ''controller_entity_id'')]) s) m
         else if msg = 0 then
           put_sink l (milan_probe sh ts n t s)
             (put_talker t (tk\<lparr>probesReceived := probesReceived tk + 1\<rparr>, ac_pending m) m)
         else if msg = 1 then
           (let m1 = put_talker t (talker_probe_response v status tk, ac_pending m) m
            in case om_get (mSinks m1) l of None \<Rightarrow> m1
               | Some s0 \<Rightarrow> put_sink l (milan_probe_response sh v ts n status (s0, ac_pending m1)) m1)
         else if msg = 2 then put_talker t (tk\<lparr>disconnectTx := disconnectTx tk + 1\<rparr>, ac_pending m) m
         else if msg = 3 then
           (if status \<noteq> 0 then
              put_talker t (talkerWarning ts n
                (cat [''DISCONNECT_TX_RESPONSE '', acmpStatusName status, emdash,
                      ''Milan talkers always return SUCCESS ('', section_sign, ''5.5.4.2)'']) (tk, ac_pending m)) m
            else m)
         else if msg = 12 then
           put_talker t (talkerWarning ts n
             (cat [''GET_TX_CONNECTION_COMMAND observed'', emdash,
                   ''not implemented by Milan talkers ('', section_sign, ''5.5.4.4)''])
             (tk\<lparr>getTxConnection := getTxConnection tk + 1\<rparr>, ac_pending m)) m
         else m)"

definition acmp_onDecode :: "shared option \<Rightarrow> var_ctx \<Rightarrow> acmp \<Rightarrow> acmp" where
  "acmp_onDecode sh v m0 =
     (let ts = tsOf v; n = numOf v; msg = ucast (ctx_at v ''message_type'') :: u8;
          status = ucast (ctx_at v ''status'') :: u8; seq = ucast (ctx_at v ''sequence_id'') :: u16;
          key = ConnKey (ctx_at v ''talker_entity_id'') (ucast (ctx_at v ''talker_unique_id''))
                  (ctx_at v ''listener_entity_id'') (ucast (ctx_at v ''listener_unique_id''));
          c0 = om_at Conn (mConns m0) key;
          c = c0\<lparr>cn_key := key, cn_state := conn_label c0, cn_controller := ctx_at v ''controller_entity_id''\<rparr>;
          m1 = m0\<lparr>ac_inflight :=
                 (if msg mod 2 = 0 then om_set (msg, seq, key) \<lparr>af_sentTs = ts, af_n = n\<rparr> (ac_inflight m0)
                  else om_del (msg - 1, seq, key) (ac_inflight m0))\<rparr>;
          m2 = milanOnMessage sh v ts n msg status m1;
          (c', ev) = conn_message sh v ts n msg status c
      in m2\<lparr>mConns := om_set key c' (mConns m2), ac_pending := ac_pending m2 @ ev\<rparr>)"

section \<open>Time\<close>

text \<open>The talker came or went, as the ADP module publishes it.  The flag says \<open>continue\<close>.\<close>

definition sink_discovery :: "shared option \<Rightarrow> double \<Rightarrow> sink_out \<Rightarrow> bool \<times> sink_out" where
  "sink_discovery sh ts = (\<lambda>(s, out).
     let avail = talkerAvailable sh (boundTalker s)
     in if talkerAvail s \<and> \<not> avail \<and> sk_state s \<noteq> ''PRB_W_AVAIL'' then
          (True, sinkTransition sh ts 0 ''PRB_W_AVAIL''
             (cat [''EVT_TK_DEPARTED'', emdash, ''bound talker '', idStr (boundTalker s),
                   '' no longer AVAILABLE (ADP)'']) (s\<lparr>talkerAvail := False\<rparr>, out))
        else if \<not> talkerAvail s \<and> avail then
          (False, if sk_state s = ''PRB_W_AVAIL''
             then sinkTransition sh ts 0 ''PRB_W_DELAY''
                    (cat [''EVT_TK_DISCOVERED (ADP)'', emdash, ''waiting the random TMR_DELAY''])
                    (s\<lparr>talkerAvail := True\<rparr>, out)
             else (s\<lparr>talkerAvail := True\<rparr>, out))
        else (False, (s, out)))"

text \<open>The talker attribute was registered or withdrawn, as the MSRP module publishes it.\<close>

definition sink_srp :: "shared option \<Rightarrow> double \<Rightarrow> sink_out \<Rightarrow> sink_out" where
  "sink_srp sh ts = (\<lambda>(s, out).
     if sk_streamId s \<noteq> 0 then
       let reg = talkerAttrRegistered sh (sk_streamId s)
       in if sk_state s = ''SETTLED_NO_RSV'' \<and> reg then
            sinkTransition sh ts 0 ''SETTLED_RSV_OK''
              (cat [''EVT_TK_REGISTERED'', emdash, ''talker attribute registered (MSRP)'']) (s, out)
          else if sk_state s = ''SETTLED_RSV_OK'' \<and> \<not> reg then
            sinkTransition sh ts 0 ''SETTLED_NO_RSV''
              (cat [''EVT_TK_UNREGISTERED'', emdash, ''talker attribute unregistered (MSRP)''])
              (s\<lparr>settledNoRsvTs := ts\<rparr>, out)
          else (s, out)
     else (s, out))"

text \<open>The Milan timers.\<close>

definition sink_timers :: "shared option \<Rightarrow> double \<Rightarrow> sink_out \<Rightarrow> sink_out" where
  "sink_timers sh ts = (\<lambda>(s, out).
     if sk_state s = ''PRB_W_RESP2'' \<and> ts > lastProbeTs s + kMilanNoRespS + 5 / 100 then
       sinkTransition sh ts 0 ''PRB_W_RETRY''
         (cat [''TMR_NO_RESP expired twice'', emdash, ''waiting TMR_RETRY (4 s)''])
         (s\<lparr>retryStartTs := ts\<rparr>, out)
     else if sk_state s = ''PRB_W_RESP'' \<and> ts > lastProbeTs s + kMilanNoRespS + 1 then
       sinkTransition sh ts 0 ''PRB_W_RETRY''
         (cat [''TMR_NO_RESP expired and no second PROBE_TX observed (Milan '', section_sign,
               ''5.5.3 expects a retry)'']) (s\<lparr>retryStartTs := ts\<rparr>, out)
     else if sk_state s = ''PRB_W_RETRY'' \<and> \<not> retryWarned s \<and> ts > retryStartTs s + kMilanRetryS + 1 then
       sinkWarning ts 0
         (cat [''TMR_RETRY (4 s) expired without a new PROBE_TX'', emdash,
               ''listener may have dropped the binding'']) (s\<lparr>retryWarned := True\<rparr>, out)
     else if sk_state s = ''SETTLED_NO_RSV'' \<and> ts > settledNoRsvTs s + kMilanNoTkS then
       sinkTransition sh ts 0 ''PRB_W_DELAY''
         (cat [''TMR_NO_TK (10 s)'', emdash, ''no matching talker attribute registered, re-probing'']) (s, out)
     else (s, out))"

definition sink_tick :: "shared option \<Rightarrow> double \<Rightarrow> ep_key \<Rightarrow> sink \<Rightarrow> transition list \<Rightarrow> sink_out" where
  "sink_tick sh ts k s out =
     (if sk_state s = [] \<or> sk_state s = ''UNBOUND'' then (s, out)
      else let (skip, so) = sink_discovery sh ts (s, out)
           in if skip then so else sink_timers sh ts (sink_srp sh ts so))"

definition milanTick :: "shared option \<Rightarrow> double \<Rightarrow> acmp \<Rightarrow> acmp" where
  "milanTick sh ts m = (case om_iter (sink_tick sh ts) (mSinks m) (ac_pending m) of
     (sinks, out) \<Rightarrow> m\<lparr>mSinks := sinks, ac_pending := out\<rparr>)"

text \<open>What an unanswered command does to its connection.\<close>

definition conn_timeout :: "shared option \<Rightarrow> double \<Rightarrow> u8 \<Rightarrow> conn \<Rightarrow> conn \<times> transition list" where
  "conn_timeout sh ts cmdMsg c =
     (if cmdMsg = 0 \<or> cmdMsg = 6 then
        (if cn_state c = ''CONNECTING''
         then conn_transition sh ts 0 ''FAILED'' (cat [acmpMsgName cmdMsg, '' timed out'']) c else (c, []))
      else if cmdMsg = 2 \<or> cmdMsg = 8 then
        (if cn_state c = ''DISCONNECTING''
         then conn_transition sh ts 0 ''DISCONNECTED''
                (cat [acmpMsgName cmdMsg, '' timed out (assumed disconnected)'']) c else (c, []))
      else (c, []))"

definition acmp_expire ::
    "shared option \<Rightarrow> double \<Rightarrow> acmp_key \<Rightarrow> acmp_inflight \<Rightarrow> (conn_key, conn) omap \<times> transition list \<Rightarrow>
     acmp_inflight option \<times> (conn_key, conn) omap \<times> transition list" where
  "acmp_expire sh ts = (\<lambda>(cmdMsg, seq, key) f (cs, out).
     if ts \<le> af_sentTs f + acmpTimeoutS cmdMsg then (Some f, cs, out)
     else let (c, ev) = conn_timeout sh ts cmdMsg (om_at Conn cs key)
          in (None, om_set key c cs, out @ ev))"

definition acmp_onTimeTick :: "shared option \<Rightarrow> double \<Rightarrow> acmp \<Rightarrow> acmp" where
  "acmp_onTimeTick sh ts m0 =
     (let m = milanTick sh ts m0
      in case om_sweep (acmp_expire sh ts) (ac_inflight m) (mConns m, ac_pending m) of
           (fl, (cs, out)) \<Rightarrow> m\<lparr>ac_inflight := fl, mConns := cs, ac_pending := out\<rparr>)"

text \<open>The readouts of \<open>/state\<close>.\<close>

definition sink_discovered :: "shared option \<Rightarrow> sink \<Rightarrow> string" where
  "sink_discovered sh s = (if sk_state s = [] \<or> sk_state s = ''UNBOUND'' then ''N/A''
     else if talkerAvailable sh (boundTalker s) then ''TK_DISCOVERED'' else ''TK_NOT_DISCOVERED'')"

definition srp_declaration :: "shared option \<Rightarrow> milan_talker \<Rightarrow> string" where
  "srp_declaration sh t = (case sh of None \<Rightarrow> ''NONE''
     | Some s \<Rightarrow> if tk_streamId t = 0 then ''NONE''
       else (case msrpTalkerDecl s (tk_streamId t) of None \<Rightarrow> ''NONE''
             | Some d \<Rightarrow> if d = 1 then ''ADVERTISE'' else ''FAILED''))"

end
