(* ===== verification/Acmp_Proofs.thy ===== *)
theory Acmp_Proofs
  imports Acmp_Logic
begin

text \<open>
  The lemmas of the ACMP model: the connection machine follows a transition table, a
  Milan sink keeps a bounded linked history and never waits for a talker it believes
  available, and a tick brings every bound sink in line with what the ADP and MSRP
  modules published and leaves no timer overdue.
\<close>

section \<open>Connections\<close>

lemma conn_transition_sel [simp]:
  "cn_state (fst (conn_transition sh ts n to why c)) = (if conn_label c = to then cn_state c else to)"
  "cn_key (fst (conn_transition sh ts n to why c)) = cn_key c"
  "cn_hist (fst (conn_transition sh ts n to why c)) =
     (if conn_label c = to then cn_hist c else cn_hist c @ [HistEntry ts n (conn_label c) to why])"
  by (simp_all add: conn_transition_def Let_def)

interpretation conn: object_log conn_label cn_hist
    "\<lambda>ts n to why c. fst (conn_transition None ts n to why c)"
  by unfold_locales (auto simp: conn_transition_def Let_def conn_label_def)

lemma conn_params_sel [simp]: "conn_label (conn_params v c) = conn_label c" "cn_hist (conn_params v c) = cn_hist c"
  "cn_state (conn_params v c) = cn_state c"
  by (simp_all add: conn_params_def conn_label_def)

text \<open>The machine of IEEE 1722.1 as the observer sees it: message, success, state.\<close>

fun conn_next :: "u8 \<Rightarrow> bool \<Rightarrow> string \<Rightarrow> string" where
  "conn_next msg ok st =
     (if msg = 0 \<or> msg = 6 then (if st \<in> {''CONNECTING'', ''CONNECTED''} then st else ''CONNECTING'')
      else if msg = 1 then
        (if \<not> ok then ''FAILED'' else if st \<in> {''CONNECTING'', ''CONNECTED''} then st else ''CONNECTING'')
      else if msg = 7 then (if ok then ''CONNECTED'' else ''FAILED'')
      else if msg = 2 \<or> msg = 8 then (if st = ''DISCONNECTED'' then st else ''DISCONNECTING'')
      else if msg = 3 \<or> msg = 9 then
        (if ok then ''DISCONNECTED'' else if st = ''DISCONNECTING'' then ''CONNECTED'' else st)
      else st)"

declare conn_next.simps [simp del]

definition conn_states :: "string set" where
  "conn_states = {''DISCONNECTED'', ''CONNECTING'', ''CONNECTED'', ''DISCONNECTING'', ''FAILED''}"

lemma conn_label_state: "cn_state c \<noteq> [] \<Longrightarrow> conn_label c = cn_state c"
  by (simp add: conn_label_def)

lemma conn_message_state:
  assumes "cn_state c \<noteq> []"
  shows "cn_state (fst (conn_message sh v ts n msg status c)) = conn_next msg (status = 0) (cn_state c)"
proof -
  note lbl = conn_label_state [OF assms]
  have upd: "conn_label (c\<lparr>cn_connCount := x\<rparr>) = cn_state c"
    "conn_label ((conn_params v c)\<lparr>cn_connCount := x\<rparr>) = cn_state c" for x
    using assms lbl by (simp_all add: conn_label_def)
  show ?thesis
    unfolding conn_message_def conn_next.simps
    by (simp add: lbl upd)
qed

definition conn_ok :: "conn_key \<Rightarrow> conn \<Rightarrow> bool" where
  "conn_ok k c \<longleftrightarrow> cn_key c = k \<and> cn_state c \<in> conn_states \<and> hist_ok (cn_state c) (cn_hist c)"

lemma conn_next_states: "st \<in> conn_states \<Longrightarrow> conn_next msg ok st \<in> conn_states"
  by (auto simp: conn_next.simps conn_states_def)

lemma conn_ok_transition:
  assumes "conn_ok k c" and "to \<in> conn_states"
  shows "conn_ok k (fst (conn_transition sh ts n to why c))"
proof -
  have ne: "cn_state c \<noteq> []" using assms(1) by (auto simp: conn_ok_def conn_states_def)
  then show ?thesis
    using assms hist_ok_push [of "cn_state c" "cn_hist c" _ "HistEntry ts n (cn_state c) to why"]
    by (cases "cn_state c = to") (simp_all add: conn_ok_def conn_label_def)
qed

lemma conn_ok_frame [simp]:
  "conn_ok k (conn_params v c) = conn_ok k c" "conn_ok k (c\<lparr>cn_connCount := x\<rparr>) = conn_ok k c"
  by (simp_all add: conn_ok_def conn_params_def)

lemma conn_ok_message: "conn_ok k c \<Longrightarrow> conn_ok k (fst (conn_message sh v ts n msg status c))"
  by (auto simp: conn_message_def conn_states_def intro!: conn_ok_transition)

lemma conn_ok_timeout: "conn_ok k c \<Longrightarrow> conn_ok k (fst (conn_timeout sh ts msg c))"
  by (auto simp: conn_timeout_def conn_states_def intro!: conn_ok_transition)

section \<open>Sinks\<close>

definition sink_states :: "string set" where
  "sink_states = {''UNBOUND'', ''PRB_W_AVAIL'', ''PRB_W_DELAY'', ''PRB_W_RESP'', ''PRB_W_RESP2'',
     ''PRB_W_RETRY'', ''SETTLED_NO_RSV'', ''SETTLED_RSV_OK''}"

definition sink_log_ok :: "ep_key \<Rightarrow> sink \<Rightarrow> bool" where
  "sink_log_ok k s \<longleftrightarrow> sk_listener s = fst k \<and> sk_uid s = snd k \<and> (sk_state s = [] \<or> sk_state s \<in> sink_states) \<and>
     length (sk_hist s) \<le> 200 \<and> hist_ok (sink_label s) (sk_hist s)"

definition sink_ok :: "ep_key \<Rightarrow> sink \<Rightarrow> bool" where
  "sink_ok k s \<longleftrightarrow> sink_log_ok k s \<and> (sk_state s = ''PRB_W_AVAIL'' \<longrightarrow> \<not> talkerAvail s)"

lemma sinkTransition_fst:
  "fst (sinkTransition sh ts n to why so) = (let s = fst so in
     if sink_label s = to then s
     else s\<lparr>sk_state := to, sk_hist := push_cap 200 (HistEntry ts n (sink_label s) to why) (sk_hist s)\<rparr>)"
  by (simp add: sinkTransition_def Let_def case_prod_beta)

lemma sinkTransition_sel [simp]:
  "to \<noteq> [] \<Longrightarrow> sink_label (fst (sinkTransition sh ts n to why so)) = to"
  "talkerAvail (fst (sinkTransition sh ts n to why so)) = talkerAvail (fst so)"
  "boundTalker (fst (sinkTransition sh ts n to why so)) = boundTalker (fst so)"
  "sk_streamId (fst (sinkTransition sh ts n to why so)) = sk_streamId (fst so)"
  "lastProbeTs (fst (sinkTransition sh ts n to why so)) = lastProbeTs (fst so)"
  "retryStartTs (fst (sinkTransition sh ts n to why so)) = retryStartTs (fst so)"
  "settledNoRsvTs (fst (sinkTransition sh ts n to why so)) = settledNoRsvTs (fst so)"
  "retryWarned (fst (sinkTransition sh ts n to why so)) = retryWarned (fst so)"
  by (auto simp: sinkTransition_fst Let_def sink_label_def)

lemma sinkTransition_state:
  "to \<noteq> [] \<Longrightarrow> to \<noteq> ''UNBOUND'' \<Longrightarrow> sk_state (fst (sinkTransition sh ts n to why so)) = to"
  by (auto simp: sinkTransition_fst Let_def sink_label_def)

interpretation sink: object_log sink_label sk_hist "\<lambda>ts n to why s. fst (sinkTransition None ts n to why (s, []))"
  by unfold_locales (auto simp: sinkTransition_fst Let_def sink_label_def push_cap_suffix last_push_cap)

lemma sink_log_transition:
  assumes "sink_log_ok k (fst so)" and "to \<in> sink_states"
  shows "sink_log_ok k (fst (sinkTransition sh ts n to why so))"
proof -
  let ?s = "fst so"
  have ne: "to \<noteq> []" using assms(2) by (auto simp: sink_states_def)
  have "fst (sinkTransition sh ts n to why so) = fst (sinkTransition None ts n to why (?s, []))"
    by (simp add: sinkTransition_fst Let_def)
  then have "hist_ok (sink_label (fst (sinkTransition sh ts n to why so))) (sk_hist (fst (sinkTransition sh ts n to why so)))"
    using sink.step_consistent [of ?s to ts n why] assms(1) ne by (simp add: sink.consistent_def sink_log_ok_def)
  with assms show ?thesis
    by (auto simp: sink_log_ok_def sinkTransition_fst Let_def push_cap_len)
qed

lemma sink_label_hist [simp]: "sink_label (s\<lparr>sk_hist := h\<rparr>) = sink_label s"
  by (simp add: sink_label_def)

lemma sink_log_warning: "sink_log_ok k (fst so) \<Longrightarrow> sink_log_ok k (fst (sinkWarning ts n why so))"
proof -
  assume ok: "sink_log_ok k (fst so)"
  let ?h = "HistEntry ts n (sink_label (fst so)) (sink_label (fst so)) why"
  have "hist_ok (sink_label (fst so)) (push_cap 200 ?h (sk_hist (fst so)))"
    using ok hist_ok_push [of "sink_label (fst so)" "sk_hist (fst so)" "push_cap 200 ?h (sk_hist (fst so))" ?h]
      push_cap_suffix [of 200 ?h "sk_hist (fst so)"] last_push_cap [of 200 ?h "sk_hist (fst so)"]
    by (simp add: sink_log_ok_def)
  with ok show ?thesis
    by (cases so) (simp add: sinkWarning_def Let_def sink_log_ok_def push_cap_len)
qed

lemma sink_log_frame [simp]:
  "sink_log_ok k (s\<lparr>probes := a\<rparr>) = sink_log_ok k s" "sink_log_ok k (s\<lparr>lastProbeTs := b\<rparr>) = sink_log_ok k s"
  "sink_log_ok k (s\<lparr>retryWarned := c\<rparr>) = sink_log_ok k s" "sink_log_ok k (s\<lparr>talkerAvail := c\<rparr>) = sink_log_ok k s"
  "sink_log_ok k (s\<lparr>retryStartTs := b\<rparr>) = sink_log_ok k s" "sink_log_ok k (s\<lparr>settledNoRsvTs := b\<rparr>) = sink_log_ok k s"
  "sink_log_ok k (s\<lparr>boundTalker := t\<rparr>) = sink_log_ok k s" "sink_log_ok k (s\<lparr>boundTalkerUid := u\<rparr>) = sink_log_ok k s"
  "sink_log_ok k (s\<lparr>sk_controller := t\<rparr>) = sink_log_ok k s" "sink_log_ok k (s\<lparr>sk_streamId := t\<rparr>) = sink_log_ok k s"
  "sink_log_ok k (s\<lparr>sk_destMac := t\<rparr>) = sink_log_ok k s" "sink_log_ok k (s\<lparr>sk_vlan := u\<rparr>) = sink_log_ok k s"
  by (simp_all add: sink_log_ok_def sink_label_def)

lemma sink_state_in [simp]: "''UNBOUND'' \<in> sink_states" "''PRB_W_AVAIL'' \<in> sink_states"
  "''PRB_W_DELAY'' \<in> sink_states" "''PRB_W_RESP'' \<in> sink_states" "''PRB_W_RESP2'' \<in> sink_states"
  "''PRB_W_RETRY'' \<in> sink_states" "''SETTLED_NO_RSV'' \<in> sink_states" "''SETTLED_RSV_OK'' \<in> sink_states"
  by (simp_all add: sink_states_def)

text \<open>A transition to anything but \<open>PRB_W_AVAIL\<close> needs no more than the log.\<close>

lemma sink_ok_transition:
  assumes "sink_log_ok k (fst so)" and "to \<in> sink_states" and "to = ''PRB_W_AVAIL'' \<Longrightarrow> \<not> talkerAvail (fst so)"
  shows "sink_ok k (fst (sinkTransition sh ts n to why so))"
proof -
  have "sk_state (fst (sinkTransition sh ts n to why so)) = ''PRB_W_AVAIL'' \<Longrightarrow> to = ''PRB_W_AVAIL''"
    by (auto simp: sinkTransition_fst Let_def sink_label_def split: if_splits)
  with sink_log_transition [OF assms(1,2), of sh ts n why] assms(3) show ?thesis
    by (auto simp: sink_ok_def)
qed

lemma sink_ok_log: "sink_ok k s \<Longrightarrow> sink_log_ok k s"
  by (simp add: sink_ok_def)

lemma sink_ok_ref:
  assumes "om_all sink_ok (mSinks m)"
  shows "sink_ok k (sink_ref m k)"
proof (cases "om_get (mSinks m) k")
  case None
  then show ?thesis by (simp add: sink_ref_def om_at_def MilanSink_def sink_ok_def sink_log_ok_def)
next
  case (Some s)
  then have "sink_ok k s" using assms by (auto dest: om_all_get)
  moreover from this have "s\<lparr>sk_listener := fst k, sk_uid := snd k\<rparr> = s" by (simp add: sink_ok_def sink_log_ok_def)
  ultimately show ?thesis using Some by (simp add: sink_ref_def om_at_def)
qed

section \<open>Messages keep the sinks\<close>

lemma sink_ok_bind: "sink_log_ok k s \<Longrightarrow> sink_ok k (fst (milan_bind sh v ts n t (s, out)))"
  unfolding milan_bind_def Let_def split_conv
  by (rule sink_ok_transition) (simp_all split: if_splits)

lemma sink_ok_unbound: "sink_log_ok k (fst so) \<Longrightarrow> sink_ok k (fst (sinkTransition sh ts n ''UNBOUND'' why so))"
  by (rule sink_ok_transition) simp_all

lemma sink_ok_lastProbe [simp]: "sink_ok k (s\<lparr>lastProbeTs := t\<rparr>) = sink_ok k s"
  by (simp add: sink_ok_def)

lemma sink_ok_probe: "sink_log_ok k s \<Longrightarrow> sink_ok k (fst (milan_probe sh ts n t (s, out)))"
  unfolding milan_probe_def Let_def split_conv case_prod_beta
  by (auto intro!: sink_ok_transition)

lemma sink_ok_warning: "sink_ok k (fst so) \<Longrightarrow> sink_ok k (fst (sinkWarning ts n why so))"
proof -
  assume ok: "sink_ok k (fst so)"
  have "sk_state (fst (sinkWarning ts n why so)) = sk_state (fst so)"
    and "talkerAvail (fst (sinkWarning ts n why so)) = talkerAvail (fst so)"
    by (cases so; simp add: sinkWarning_def Let_def)+
  with ok sink_log_warning [of k so ts n why] show ?thesis by (simp add: sink_ok_def)
qed

lemma sink_ok_response: "sink_ok k s \<Longrightarrow> sink_ok k (fst (milan_probe_response sh v ts n status (s, out)))"
  unfolding milan_probe_response_def Let_def split_conv
  by (auto intro!: sink_ok_transition sink_ok_warning sink_log_transition dest: sink_ok_log)

lemma om_all_put_sink:
  "om_all sink_ok (mSinks m) \<Longrightarrow> sink_ok k (fst so) \<Longrightarrow> om_all sink_ok (mSinks (put_sink k so m))"
  by (simp add: put_sink_def om_all_set)

lemma mSinks_put_talker [simp]: "mSinks (put_talker k t m) = mSinks m" "mConns (put_talker k t m) = mConns m"
  "ac_inflight (put_talker k t m) = ac_inflight m" "mConns (put_sink k so m) = mConns m"
  "ac_inflight (put_sink k so m) = ac_inflight m" "mTalkers (put_sink k so m) = mTalkers m"
  by (simp_all add: put_talker_def put_sink_def)

lemma om_ok_put [simp]: "om_ok (mSinks m) \<Longrightarrow> om_ok (mSinks (put_sink k so m))"
  by (simp add: put_sink_def)

lemma milanOnMessage_sinks:
  assumes "om_all sink_ok (mSinks m)"
  shows "om_all sink_ok (mSinks (milanOnMessage sh v ts n msg status m))"
proof -
  note ref = sink_ok_log [OF sink_ok_ref [OF assms]]
  have get: "sink_ok k s" if "om_get (mSinks m) k = Some s" for k s
    using assms that by (auto dest: om_all_get)
  show ?thesis
    unfolding milanOnMessage_def Let_def
    using assms ref get sink_ok_log [OF get]
    by (auto intro!: om_all_put_sink sink_ok_bind sink_ok_unbound sink_ok_probe sink_ok_response
        dest: sink_ok_log split: option.splits)
qed

lemma milanOnMessage_om_ok:
  "om_ok (mSinks m) \<Longrightarrow> om_ok (mSinks (milanOnMessage sh v ts n msg status m))"
  unfolding milanOnMessage_def Let_def by (simp split: option.splits)

lemma milanOnMessage_frame [simp]: "mConns (milanOnMessage sh v ts n msg status m) = mConns m"
  "ac_inflight (milanOnMessage sh v ts n msg status m) = ac_inflight m"
  unfolding milanOnMessage_def Let_def by (simp_all split: option.splits)

section \<open>Invariant\<close>

definition acmp_inv :: "acmp \<Rightarrow> bool" where
  "acmp_inv m \<longleftrightarrow> om_ok (ac_inflight m) \<and> om_ok (mConns m) \<and> om_ok (mSinks m) \<and>
     om_all conn_ok (mConns m) \<and> om_all sink_ok (mSinks m) \<and>
     om_all (\<lambda>(_, _, key) _. om_get (mConns m) key \<noteq> None) (ac_inflight m)"

lemma acmp_inv_init [simp]: "acmp_inv AcmpLogic"
  by (simp add: acmp_inv_def AcmpLogic_def)

lemma conn_ok_at:
  assumes "om_all conn_ok cs"
  shows "conn_ok k ((om_at Conn cs k)\<lparr>cn_key := k, cn_state := conn_label (om_at Conn cs k), cn_controller := x\<rparr>)"
proof (cases "om_get cs k")
  case None
  then show ?thesis by (simp add: om_at_def Conn_def conn_ok_def conn_label_def conn_states_def)
next
  case (Some c)
  then have "conn_ok k c" using assms by (auto dest: om_all_get)
  with Some show ?thesis by (auto simp: om_at_def conn_ok_def conn_label_def conn_states_def)
qed

lemma acmp_inv_onDecode [inv_intros]:
  assumes "acmp_inv m"
  shows "acmp_inv (acmp_onDecode sh v m)"
proof -
  let ?key = "ConnKey (ctx_at v ''talker_entity_id'') (ucast (ctx_at v ''talker_unique_id''))
      (ctx_at v ''listener_entity_id'') (ucast (ctx_at v ''listener_unique_id''))"
  let ?msg = "ucast (ctx_at v ''message_type'') :: u8" and ?status = "ucast (ctx_at v ''status'') :: u8"
  let ?seq = "ucast (ctx_at v ''sequence_id'') :: u16"
  let ?fl = "if ?msg mod 2 = 0
      then om_set (?msg, ?seq, ?key) \<lparr>af_sentTs = tsOf v, af_n = numOf v\<rparr> (ac_inflight m)
      else om_del (?msg - 1, ?seq, ?key) (ac_inflight m)"
  define c where "c = (om_at Conn (mConns m) ?key)\<lparr>cn_key := ?key,
      cn_state := conn_label (om_at Conn (mConns m) ?key), cn_controller := ctx_at v ''controller_entity_id''\<rparr>"
  define c' where "c' = fst (conn_message sh v (tsOf v) (numOf v) ?msg ?status c)"
  define m2 where "m2 = milanOnMessage sh v (tsOf v) (numOf v) ?msg ?status (m\<lparr>ac_inflight := ?fl\<rparr>)"
  have inv: "om_ok (ac_inflight m)" "om_ok (mConns m)" "om_ok (mSinks m)" "om_all conn_ok (mConns m)"
    "om_all sink_ok (mSinks m)" "om_all (\<lambda>(_, _, key) _. om_get (mConns m) key \<noteq> None) (ac_inflight m)"
    using assms by (simp_all add: acmp_inv_def)
  have c': "conn_ok ?key c'"
    unfolding c'_def c_def by (rule conn_ok_message, rule conn_ok_at, rule inv)
  have m2: "om_ok (mSinks m2)" "om_all sink_ok (mSinks m2)" "mConns m2 = mConns m" "ac_inflight m2 = ?fl"
    using inv unfolding m2_def by (simp_all add: milanOnMessage_om_ok milanOnMessage_sinks)
  have fl: "om_ok ?fl" using inv by simp
  have keys: "om_all (\<lambda>(_, _, key) _. om_get (om_set ?key c' (mConns m)) key \<noteq> None) ?fl"
    using inv(1,6) by (auto simp: om_all_def om_get_set in_om_set)
  have res: "mSinks (acmp_onDecode sh v m) = mSinks m2" "mConns (acmp_onDecode sh v m) = om_set ?key c' (mConns m)"
    "ac_inflight (acmp_onDecode sh v m) = ?fl"
    unfolding acmp_onDecode_def Let_def case_prod_beta c_def [symmetric] c'_def [symmetric] m2_def [symmetric]
    by (simp_all add: m2)
  show ?thesis
    using m2(1,2) inv c' fl keys unfolding acmp_inv_def res by (simp add: om_all_set)
qed

section \<open>Time\<close>

text \<open>
  What a tick at \<open>ts\<close> establishes for a sink: its view of the talker is the published
  one, a settled sink agrees with the published talker attributes, and no timer is overdue.
\<close>

definition bound :: "sink \<Rightarrow> bool" where
  "bound s \<longleftrightarrow> sk_state s \<noteq> [] \<and> sk_state s \<noteq> ''UNBOUND''"

definition sink_current :: "shared option \<Rightarrow> double \<Rightarrow> sink \<Rightarrow> bool" where
  "sink_current sh ts s \<longleftrightarrow> (bound s \<longrightarrow>
     talkerAvail s = talkerAvailable sh (boundTalker s) \<and>
     (sk_streamId s \<noteq> 0 \<and> sk_state s = ''SETTLED_RSV_OK'' \<longrightarrow> talkerAttrRegistered sh (sk_streamId s)) \<and>
     (sk_streamId s \<noteq> 0 \<and> sk_state s = ''SETTLED_NO_RSV'' \<longrightarrow> \<not> talkerAttrRegistered sh (sk_streamId s)) \<and>
     (sk_state s = ''PRB_W_RESP2'' \<longrightarrow> ts \<le> lastProbeTs s + kMilanNoRespS + 5 / 100) \<and>
     (sk_state s = ''PRB_W_RESP'' \<longrightarrow> ts \<le> lastProbeTs s + kMilanNoRespS + 1) \<and>
     (sk_state s = ''PRB_W_RETRY'' \<longrightarrow> ts \<le> retryStartTs s + kMilanRetryS + 1 \<or> retryWarned s) \<and>
     (sk_state s = ''SETTLED_NO_RSV'' \<longrightarrow> ts \<le> settledNoRsvTs s + kMilanNoTkS))"

lemma sink_ok_avail: "sink_ok k s \<Longrightarrow> sk_state s \<noteq> ''PRB_W_AVAIL'' \<Longrightarrow> sink_ok k (s\<lparr>talkerAvail := b\<rparr>)"
  by (simp add: sink_ok_def)

lemma sink_ok_retryWarned [simp]: "sink_ok k (s\<lparr>retryWarned := b\<rparr>) = sink_ok k s"
  by (simp add: sink_ok_def)

lemma sink_ok_discovery:
  "sink_ok k s \<Longrightarrow> sink_ok k (fst (snd (sink_discovery sh ts (s, out))))"
  unfolding sink_discovery_def Let_def split_conv
  by (auto dest: sink_ok_log intro!: sink_ok_transition sink_ok_avail)

lemma discovery_skip:
  assumes "sink_discovery sh ts (s, out) = (True, so)"
  shows "sk_state (fst so) = ''PRB_W_AVAIL''" "talkerAvail (fst so) = talkerAvailable sh (boundTalker (fst so))"
  using assms unfolding sink_discovery_def Let_def split_conv
  by (auto simp: sinkTransition_state split: if_splits)

lemma discovery_avail:
  assumes "sink_ok k s" and "sink_discovery sh ts (s, out) = (False, so)"
  shows "talkerAvail (fst so) = talkerAvailable sh (boundTalker (fst so))"
    and "bound s \<Longrightarrow> bound (fst so)"
  using assms unfolding sink_discovery_def Let_def split_conv
  by (auto simp: sink_ok_def bound_def sinkTransition_state split: if_splits)

lemma srp_frame [simp]:
  "talkerAvail (fst (sink_srp sh ts so)) = talkerAvail (fst so)"
  "boundTalker (fst (sink_srp sh ts so)) = boundTalker (fst so)"
  "sk_streamId (fst (sink_srp sh ts so)) = sk_streamId (fst so)"
  by (cases so; simp add: sink_srp_def Let_def)+

lemma srp_settled:
  assumes "sk_streamId (fst so) \<noteq> 0"
  shows "sk_state (fst (sink_srp sh ts so)) = ''SETTLED_RSV_OK'' \<Longrightarrow> talkerAttrRegistered sh (sk_streamId (fst so))"
    and "sk_state (fst (sink_srp sh ts so)) = ''SETTLED_NO_RSV'' \<Longrightarrow> \<not> talkerAttrRegistered sh (sk_streamId (fst so))"
  using assms by (cases so; auto simp: sink_srp_def Let_def sinkTransition_state split: if_splits)+

lemma timers_frame [simp]:
  "talkerAvail (fst (sink_timers sh ts so)) = talkerAvail (fst so)"
  "boundTalker (fst (sink_timers sh ts so)) = boundTalker (fst so)"
  "sk_streamId (fst (sink_timers sh ts so)) = sk_streamId (fst so)"
  by (cases so; simp add: sink_timers_def sinkWarning_def Let_def)+

lemma timers_settled:
  "sk_state (fst (sink_timers sh ts so)) \<in> {''SETTLED_RSV_OK'', ''SETTLED_NO_RSV''} \<Longrightarrow>
   sk_state (fst so) = sk_state (fst (sink_timers sh ts so))"
  by (cases so) (auto simp: sink_timers_def sinkWarning_def Let_def sinkTransition_state split: if_splits)

lemma timers_done:
  "s = fst (sink_timers sh ts so) \<Longrightarrow> sk_state s = ''PRB_W_RESP2'' \<Longrightarrow> ts \<le> lastProbeTs s + kMilanNoRespS + 5 / 100"
  "s = fst (sink_timers sh ts so) \<Longrightarrow> sk_state s = ''PRB_W_RESP'' \<Longrightarrow> ts \<le> lastProbeTs s + kMilanNoRespS + 1"
  "s = fst (sink_timers sh ts so) \<Longrightarrow> sk_state s = ''PRB_W_RETRY'' \<Longrightarrow>
     ts \<le> retryStartTs s + kMilanRetryS + 1 \<or> retryWarned s"
  "s = fst (sink_timers sh ts so) \<Longrightarrow> sk_state s = ''SETTLED_NO_RSV'' \<Longrightarrow> ts \<le> settledNoRsvTs s + kMilanNoTkS"
  by (cases so; auto simp: sink_timers_def sinkWarning_def Let_def sinkTransition_state kMilanRetryS_def
      split: if_splits)+

lemma sink_ok_srp: "sink_ok k (fst so) \<Longrightarrow> sink_ok k (fst (sink_srp sh ts so))"
  unfolding sink_srp_def Let_def case_prod_beta
  by (auto dest: sink_ok_log intro!: sink_ok_transition)

lemma sink_ok_timers: "sink_ok k (fst so) \<Longrightarrow> sink_ok k (fst (sink_timers sh ts so))"
  unfolding sink_timers_def case_prod_beta
  by (auto dest: sink_ok_log intro!: sink_ok_transition sink_ok_warning)

lemma sink_tick_ok: "sink_ok k s \<Longrightarrow> sink_ok k (fst (sink_tick sh ts k s out))"
  unfolding sink_tick_def Let_def case_prod_beta
  by (auto intro!: sink_ok_timers sink_ok_srp sink_ok_discovery)

lemma sink_tick_current:
  assumes "sink_ok k s"
  shows "sink_current sh ts (fst (sink_tick sh ts k s out))"
proof (cases "bound s")
  case False
  then show ?thesis by (auto simp: sink_tick_def bound_def sink_current_def)
next
  case True
  obtain skip so where d: "sink_discovery sh ts (s, out) = (skip, so)" by (metis prod.collapse)
  show ?thesis
  proof (cases skip)
    case True
    with discovery_skip [of sh ts s out so] d \<open>bound s\<close> show ?thesis
      by (auto simp: sink_tick_def bound_def sink_current_def)
  next
    case False
    let ?s1 = "sink_srp sh ts so" and ?s2 = "sink_timers sh ts (sink_srp sh ts so)"
    have tick: "fst (sink_tick sh ts k s out) = fst ?s2"
      using True False d by (simp add: sink_tick_def bound_def)
    have "talkerAvail (fst so) = talkerAvailable sh (boundTalker (fst so))"
      using discovery_avail(1) [OF assms] d False by simp
    moreover have "sk_state (fst ?s2) = ''SETTLED_RSV_OK'' \<Longrightarrow> sk_streamId (fst so) \<noteq> 0 \<Longrightarrow>
        talkerAttrRegistered sh (sk_streamId (fst so))"
      using timers_settled [of sh ts ?s1] srp_settled(1) [of so sh ts] by simp
    moreover have "sk_state (fst ?s2) = ''SETTLED_NO_RSV'' \<Longrightarrow> sk_streamId (fst so) \<noteq> 0 \<Longrightarrow>
        \<not> talkerAttrRegistered sh (sk_streamId (fst so))"
      using timers_settled [of sh ts ?s1] srp_settled(2) [of so sh ts] by simp
    ultimately show ?thesis
      using timers_done [OF refl, of sh ts ?s1] unfolding tick sink_current_def by simp
  qed
qed

lemma milanTick_sinks:
  "om_all sink_ok (mSinks m) \<Longrightarrow>
   om_all (\<lambda>k s. sink_ok k s \<and> sink_current sh ts s) (mSinks (milanTick sh ts m))"
  unfolding milanTick_def case_prod_beta
  by (simp, rule om_all_iter, assumption) (simp add: sink_tick_ok sink_tick_current)

lemma milanTick_frame [simp]: "mConns (milanTick sh ts m) = mConns m"
  "ac_inflight (milanTick sh ts m) = ac_inflight m"
  "om_ok (mSinks m) \<Longrightarrow> om_ok (mSinks (milanTick sh ts m))"
  by (simp_all add: milanTick_def case_prod_beta)

section \<open>Unanswered commands\<close>

definition acmp_overdue :: "double \<Rightarrow> acmp_key \<Rightarrow> acmp_inflight \<Rightarrow> bool" where
  "acmp_overdue ts k f \<longleftrightarrow> ts > af_sentTs f + acmpTimeoutS (fst k)"

lemma acmp_expire_decides: "fst (acmp_expire sh ts k f s) = (if acmp_overdue ts k f then None else Some f)"
  by (cases s; cases k) (simp add: acmp_expire_def acmp_overdue_def case_prod_beta not_le)

lemma acmp_tick_inflight:
  "ac_inflight (acmp_onTimeTick sh ts m) = filter (\<lambda>(k, f). \<not> acmp_overdue ts k f) (ac_inflight m)"
  using om_sweep_filter [of "acmp_expire sh ts" "acmp_overdue ts" "ac_inflight m"
      "(mConns (milanTick sh ts m), ac_pending (milanTick sh ts m))", OF acmp_expire_decides]
  by (simp add: acmp_onTimeTick_def Let_def case_prod_beta)

lemma acmp_tick_sinks [simp]: "mSinks (acmp_onTimeTick sh ts m) = mSinks (milanTick sh ts m)"
  by (simp add: acmp_onTimeTick_def Let_def case_prod_beta)

definition expire_conns ::
    "shared option \<Rightarrow> double \<Rightarrow> (acmp_key, acmp_inflight) omap \<Rightarrow> (conn_key, conn) omap \<times> transition list \<Rightarrow>
     (conn_key, conn) omap \<times> transition list" where
  "expire_conns sh ts fl s = fold (\<lambda>(k, f) s. snd (acmp_expire sh ts k f s)) fl s"

lemma acmp_tick_conns:
  "mConns (acmp_onTimeTick sh ts m) =
     fst (expire_conns sh ts (ac_inflight m) (mConns m, ac_pending (milanTick sh ts m)))"
  unfolding expire_conns_def
  using om_sweep_state [of "acmp_expire sh ts" "ac_inflight m" "(mConns m, ac_pending (milanTick sh ts m))"]
  by (simp add: acmp_onTimeTick_def Let_def case_prod_beta)

text \<open>The connections stay well-formed, and none is lost.\<close>

lemma expire_conns_ok:
  assumes "om_ok (fst s)" and "om_all conn_ok (fst s)"
    and "om_all (\<lambda>(_, _, key) _. om_get (fst s) key \<noteq> None) fl"
  shows "om_ok (fst (expire_conns sh ts fl s)) \<and> om_all conn_ok (fst (expire_conns sh ts fl s)) \<and>
    (\<forall>q. om_get (fst s) q \<noteq> None \<longrightarrow> om_get (fst (expire_conns sh ts fl s)) q \<noteq> None)"
  using assms
proof (induction fl arbitrary: s)
  case Nil
  then show ?case by (simp add: expire_conns_def)
next
  case (Cons kf fl)
  obtain cmd sq key f where kf: "kf = ((cmd, sq, key), f)" by (metis prod.collapse)
  obtain cs out where s: "s = (cs, out)" by force
  obtain c where c: "om_get cs key = Some c" using Cons.prems(3) kf s by auto
  define s1 where "s1 = snd (acmp_expire sh ts (cmd, sq, key) f s)"
  have ok: "conn_ok key c" using c Cons.prems(2) s by (auto dest: om_all_get)
  have s1: "fst s1 = cs \<or> fst s1 = om_set key (fst (conn_timeout sh ts cmd c)) cs"
    using c by (simp add: s1_def s acmp_expire_def case_prod_beta om_at_def)
  have keep: "om_ok (fst s1)" "om_all conn_ok (fst s1)" "\<And>q. om_get cs q \<noteq> None \<Longrightarrow> om_get (fst s1) q \<noteq> None"
    using s1 Cons.prems(1,2) s conn_ok_timeout [OF ok] by (auto simp: om_get_set intro!: om_all_set)
  have "om_all (\<lambda>(_, _, key) _. om_get (fst s1) key \<noteq> None) fl"
    using Cons.prems(3) keep(3) by (auto simp: kf s om_all_def)
  from Cons.IH [OF keep(1,2) this] keep(3) show ?case
    by (simp add: expire_conns_def kf s1_def [unfolded s, symmetric] s)
qed

lemma acmp_inv_onTimeTick [inv_intros]:
  assumes "acmp_inv m"
  shows "acmp_inv (acmp_onTimeTick sh ts m)"
proof -
  note inv = assms [unfolded acmp_inv_def]
  have cs: "om_ok (mConns (acmp_onTimeTick sh ts m)) \<and> om_all conn_ok (mConns (acmp_onTimeTick sh ts m)) \<and>
      (\<forall>q. om_get (mConns m) q \<noteq> None \<longrightarrow> om_get (mConns (acmp_onTimeTick sh ts m)) q \<noteq> None)"
    using expire_conns_ok [of "(mConns m, ac_pending (milanTick sh ts m))" "ac_inflight m" sh ts] inv
    by (simp add: acmp_tick_conns)
  have "om_all sink_ok (mSinks (milanTick sh ts m))"
    using milanTick_sinks [of m sh ts] inv by (auto simp: om_all_def)
  with cs inv show ?thesis
    by (auto simp: acmp_inv_def acmp_tick_inflight om_all_def)
qed

text \<open>The module as the engine calls it: it reads the shared model and writes nothing of it.\<close>

interpretation acmp: avb_logic "\<lambda>v (m, sh). (acmp_onDecode sh v m, sh)" "\<lambda>ts (m, sh). (acmp_onTimeTick sh ts m, sh)"
    "\<lambda>m _. acmp_inv m" "\<lambda>s. s"
  by unfold_locales (auto simp: acmp_inv_onDecode acmp_inv_onTimeTick)

end
