(* ===== verification/Gptp_Logic.thy ===== *)
theory Gptp_Logic
  imports Mrp_Registrar
begin

text \<open>
  \<open>backend/src/logic/gptp_logic.cpp\<close>: the passive observer of IEEE 802.1AS.  Per domain
  the grandmaster and sync lifecycle and an observer-side BMCA, per port its inferred
  role, the pdelay exchanges that decide \<open>AS_CAPABLE\<close>, announce aging and the
  gPTP-capable timeout.  The module publishes the observed grandmaster and sync state in
  the shared model.  A handler holds references to a domain and a port of the maps; here
  it names them by key and reads and writes the map entry.
\<close>

section \<open>Constants and intervals\<close>

definition kSyncReceiptTimeoutN :: nat where "kSyncReceiptTimeoutN = 3"
definition kAnnounceReceiptTimeoutN :: nat where "kAnnounceReceiptTimeoutN = 3"
definition kAllowedLostResponses :: u32 where "kAllowedLostResponses = 3"
definition kDefaultSyncIntervalS :: double where "kDefaultSyncIntervalS = 1 / 8"
definition kDefaultAnnounceIntervalS :: double where "kDefaultAnnounceIntervalS = 1"
definition kDefaultPdelayIntervalS :: double where "kDefaultPdelayIntervalS = 1"
definition kPdelayTurnaroundLimitS :: double where "kPdelayTurnaroundLimitS = 1 / 100"
definition kGptpCapableTimeoutN :: nat where "kGptpCapableTimeoutN = 9"
definition kMaxHist :: nat where "kMaxHist = 200"

definition intervalFromLog :: "u64 \<Rightarrow> double \<Rightarrow> double" where
  "intervalFromLog raw dflt =
     (let r = ucast raw :: u8; v = sint r
      in if r = 0x7F \<or> v < -7 \<or> v > 5 then dflt
         else if v \<ge> 0 then 2 ^ nat v else 1 / 2 ^ nat (- v))"

definition fmtGap :: "double \<Rightarrow> string" where
  "fmtGap s = (if s < 1 then cat [fmt_fixed 0 (s * 1000), '' ms''] else cat [fmt_fixed 2 s, '' s''])"

section \<open>State\<close>

record ann_vec =
  av_p1 :: u8
  av_clockClass :: u8
  av_accuracy :: u8
  av_variance :: u16
  av_p2 :: u8
  av_gmId :: u64
  av_stepsRemoved :: u16
  av_srcClock :: u64
  av_srcPort :: u16
  av_lastTs :: double
  av_announceIntervalS :: double

definition AnnVec :: ann_vec where
  "AnnVec = \<lparr>av_p1 = 255, av_clockClass = 255, av_accuracy = 0xFE, av_variance = 0xFFFF, av_p2 = 255,
     av_gmId = 0, av_stepsRemoved = 0, av_srcClock = 0, av_srcPort = 0, av_lastTs = -1,
     av_announceIntervalS = kDefaultAnnounceIntervalS\<rparr>"

type_synonym ann_quality = "u8 \<times> u8 \<times> u8 \<times> u16 \<times> u8"

definition quality :: "ann_vec \<Rightarrow> ann_quality" where
  "quality a = (av_p1 a, av_clockClass a, av_accuracy a, av_variance a, av_p2 a)"

text \<open>The priority vector: \<open>betterThan\<close> compares it lexicographically, smaller is better.\<close>

definition ann_tuple :: "ann_vec \<Rightarrow> u8 \<times> u8 \<times> u8 \<times> u16 \<times> u8 \<times> u64 \<times> u16 \<times> u64 \<times> u16" where
  "ann_tuple a = (av_p1 a, av_clockClass a, av_accuracy a, av_variance a, av_p2 a, av_gmId a,
     av_stepsRemoved a, av_srcClock a, av_srcPort a)"

definition betterThan :: "ann_vec \<Rightarrow> ann_vec \<Rightarrow> bool" where
  "betterThan a b \<longleftrightarrow> ann_tuple a < ann_tuple b"

record gdomain =
  gd_num :: u8
  gmState :: string
  gd_sync :: string
  gd_gmId :: u64
  gd_p1 :: u8
  gd_p2 :: u8
  gd_clockClass :: u8
  gd_clockAccuracy :: u8
  gd_timeSource :: u8
  gd_variance :: u16
  gd_stepsRemoved :: u16
  gmTimeBaseIndicator :: u16
  utcOffset :: int
  lastAnnounce :: double
  gd_announceIntervalS :: double
  lastSync :: double
  syncIntervalS :: double
  lastGapS :: double
  rateOffsetPpm :: double
  syncSender :: u64
  syncCount :: u32
  followUpCount :: u32
  announceCount :: u32
  unmatchedFollowUps :: u32
  haveTimeBase :: bool
  pathTrace :: string
  pendingSyncs :: "(u16, double) omap"
  announcers :: "(u64, ann_vec) omap"
  expectedGm :: u64
  expectedP1 :: u8
  expectedVec :: ann_vec
  syncVec :: ann_vec
  haveExpectedVec :: bool
  haveSyncVec :: bool
  syncSenderGm :: u64
  syncSenderP1 :: u8
  gd_hist :: "hist_entry list"

definition Domain :: gdomain where
  "Domain = \<lparr>gd_num = 0, gmState = '''', gd_sync = '''', gd_gmId = 0, gd_p1 = 0, gd_p2 = 0,
     gd_clockClass = 0, gd_clockAccuracy = 0, gd_timeSource = 0, gd_variance = 0, gd_stepsRemoved = 0,
     gmTimeBaseIndicator = 0, utcOffset = 0, lastAnnounce = -1,
     gd_announceIntervalS = kDefaultAnnounceIntervalS, lastSync = -1, syncIntervalS = kDefaultSyncIntervalS,
     lastGapS = 0, rateOffsetPpm = 0, syncSender = 0, syncCount = 0, followUpCount = 0, announceCount = 0,
     unmatchedFollowUps = 0, haveTimeBase = False, pathTrace = '''', pendingSyncs = [], announcers = [],
     expectedGm = 0, expectedP1 = 0, expectedVec = AnnVec, syncVec = AnnVec, haveExpectedVec = False,
     haveSyncVec = False, syncSenderGm = 0, syncSenderP1 = 255, gd_hist = []\<rparr>"

record port =
  pt_clockId :: u64
  pt_portNum :: u16
  pt_srcMac :: u64
  pt_domain :: u8
  role :: string
  asCapable :: string
  syncSent :: u32
  announceSent :: u32
  signalingSent :: u32
  pdelayInitiated :: u32
  pdelayComplete :: u32
  pdelayLostCount :: u32
  consecutiveLost :: u32
  reqIntervalS :: double
  lastSyncSentTs :: double
  lastTurnaroundUs :: double
  lastObservedGapMs :: double
  mdReqState :: string
  mdRespState :: string
  mdResets :: u32
  mdSyncSendState :: string
  pendingFuSeq :: u16
  announceState :: string
  lastAnnounceTs :: double
  pt_announceIntervalS :: double
  gptpCapable :: string
  lastCapableTs :: double
  capableIntervalS :: double
  reqIntervalsSeen :: bool
  reqLinkDelay :: u8
  reqTimeSync :: u8
  reqAnnounce :: u8
  pt_hist :: "hist_entry list"

definition Port :: port where
  "Port = \<lparr>pt_clockId = 0, pt_portNum = 0, pt_srcMac = 0, pt_domain = 0, role = '''', asCapable = '''',
     syncSent = 0, announceSent = 0, signalingSent = 0, pdelayInitiated = 0, pdelayComplete = 0,
     pdelayLostCount = 0, consecutiveLost = 0, reqIntervalS = kDefaultPdelayIntervalS, lastSyncSentTs = -1,
     lastTurnaroundUs = -1, lastObservedGapMs = -1, mdReqState = '''', mdRespState = '''', mdResets = 0,
     mdSyncSendState = '''', pendingFuSeq = 0, announceState = '''', lastAnnounceTs = -1,
     pt_announceIntervalS = kDefaultAnnounceIntervalS, gptpCapable = '''', lastCapableTs = -1,
     capableIntervalS = 1, reqIntervalsSeen = False, reqLinkDelay = 0, reqTimeSync = 0, reqAnnounce = 0,
     pt_hist = []\<rparr>"

record exchange =
  xc_seq :: u16
  xc_reqTs :: double
  xc_respTs :: double
  responderKey :: u64
  reqReceiptNs :: u64
  haveResp :: bool

definition Exchange :: exchange where
  "Exchange = \<lparr>xc_seq = 0, xc_reqTs = 0, xc_respTs = -1, responderKey = 0, reqReceiptNs = 0, haveResp = False\<rparr>"

record gptp =
  gp_domains :: "(u8, gdomain) omap"
  mPorts :: "(u64, port) omap"
  mExchanges :: "(u64, exchange) omap"
  gp_pending :: "transition list"

definition GptpLogic :: gptp where
  "GptpLogic = \<lparr>gp_domains = [], mPorts = [], mExchanges = [], gp_pending = []\<rparr>"

text \<open>The module and the model it is attached to.\<close>

type_synonym gst = "gptp \<times> shared option"
type_synonym dom_out = "gdomain \<times> shared option \<times> transition list"
type_synonym port_out = "port \<times> transition list"

definition portKey :: "u64 \<Rightarrow> u16 \<Rightarrow> u64" where
  "portKey clockId portNum = push_bit 16 clockId OR ucast portNum"

definition portStr :: "port \<Rightarrow> string" where
  "portStr p = cat [idStr (pt_clockId p), '':'', u_str (pt_portNum p)]"

text \<open>References: a domain by number and a port by key, created when absent.\<close>

definition getDomain :: "u8 \<Rightarrow> gptp \<Rightarrow> gdomain" where
  "getDomain num g = (om_at Domain (gp_domains g) num)\<lparr>gd_num := num\<rparr>"

definition on_dom :: "u8 \<Rightarrow> (dom_out \<Rightarrow> dom_out) \<Rightarrow> gst \<Rightarrow> gst" where
  "on_dom num f = (\<lambda>(g, sh). case f (getDomain num g, sh, gp_pending g) of
     (d, sh', out) \<Rightarrow> (g\<lparr>gp_domains := om_set num d (gp_domains g), gp_pending := out\<rparr>, sh'))"

definition on_port :: "u64 \<Rightarrow> (shared option \<Rightarrow> port_out \<Rightarrow> port_out) \<Rightarrow> gst \<Rightarrow> gst" where
  "on_port k f = (\<lambda>(g, sh). case f sh (om_at Port (mPorts g) k, gp_pending g) of
     (p, out) \<Rightarrow> (g\<lparr>mPorts := om_set k p (mPorts g), gp_pending := out\<rparr>, sh))"

text \<open>An update of a port that emits nothing.\<close>

definition set_port :: "u64 \<Rightarrow> (port \<Rightarrow> port) \<Rightarrow> gst \<Rightarrow> gst" where
  "set_port k f = on_port k (\<lambda>sh (p, out). (f p, out))"

definition getPort :: "u64 \<Rightarrow> u16 \<Rightarrow> gst \<Rightarrow> gst" where
  "getPort clockId portNum = set_port (portKey clockId portNum)
     (\<lambda>p. p\<lparr>pt_clockId := clockId, pt_portNum := portNum\<rparr>)"

section \<open>Transitions\<close>

definition publish :: "gdomain \<Rightarrow> shared option \<Rightarrow> shared option" where
  "publish d = map_option (\<lambda>s.
     let t = om_at GptpDomainTruth (gptpDomains s) (gd_num d);
         t1 = (if gd_gmId d \<noteq> 0 then t\<lparr>gmKnown := True, gmIdentity := gd_gmId d\<rparr> else t);
         t2 = (if gd_sync d = ''HEALTHY'' then t1\<lparr>syncState := 1\<rparr>
               else if gd_sync d = ''LOST'' then t1\<lparr>syncState := 2\<rparr> else t1)
     in s\<lparr>gptpDomains := om_set (gd_num d) t2 (gptpDomains s)\<rparr>)"

definition emitDom :: "double \<Rightarrow> u32 \<Rightarrow> string \<Rightarrow> string \<Rightarrow> string \<Rightarrow> dom_out \<Rightarrow> dom_out" where
  "emitDom ts n from to why = (\<lambda>(d, sh, out).
     (d\<lparr>gd_hist := push_cap kMaxHist (HistEntry ts n from to why) (gd_hist d)\<rparr>, sh,
      out @ [\<lparr>t_proto = GPTP, t_object = cat [''gptp domain '', u_str (gd_num d)], t_from = from, t_to = to,
        t_why = why,
        t_summary = cat [''gPTP domain '', u_str (gd_num d), '': '', from, '' -> '', to, emdash, why],
        t_entity = (if gd_gmId d \<noteq> 0 then idStr (gd_gmId d) else ''''), t_stream = ''''\<rparr>]))"

definition domTransition :: "double \<Rightarrow> u32 \<Rightarrow> string \<Rightarrow> string \<Rightarrow> dom_out \<Rightarrow> dom_out" where
  "domTransition ts n to why = (\<lambda>(d, sh, out).
     let from = (if gmState d = [] then ''NO_GM'' else gmState d)
     in if from = to then (d, sh, out)
        else (case emitDom ts n from to why (d\<lparr>gmState := to\<rparr>, sh, out) of
               (d', sh', out') \<Rightarrow> (d', publish d' sh', out')))"

definition syncTransition :: "double \<Rightarrow> u32 \<Rightarrow> string \<Rightarrow> string \<Rightarrow> dom_out \<Rightarrow> dom_out" where
  "syncTransition ts n to why = (\<lambda>(d, sh, out).
     let from = (if gd_sync d = [] then ''SYNC_UNKNOWN'' else ''SYNC_'' @ gd_sync d)
     in if from = ''SYNC_'' @ to then (d, sh, out)
        else (case emitDom ts n from (''SYNC_'' @ to) why (d\<lparr>gd_sync := to\<rparr>, sh, out) of
               (d', sh', out') \<Rightarrow> (d', publish d' sh', out')))"

text \<open>The port field a \<open>portTransition\<close> moves, a pointer to member in the source.\<close>

datatype port_field = Role | AsCapable | AnnounceState | GptpCapable

fun field_get :: "port_field \<Rightarrow> port \<Rightarrow> string" where
  "field_get Role p = role p"
| "field_get AsCapable p = asCapable p"
| "field_get AnnounceState p = announceState p"
| "field_get GptpCapable p = gptpCapable p"

fun field_set :: "port_field \<Rightarrow> string \<Rightarrow> port \<Rightarrow> port" where
  "field_set Role s p = p\<lparr>role := s\<rparr>"
| "field_set AsCapable s p = p\<lparr>asCapable := s\<rparr>"
| "field_set AnnounceState s p = p\<lparr>announceState := s\<rparr>"
| "field_set GptpCapable s p = p\<lparr>gptpCapable := s\<rparr>"

definition portTransition ::
    "shared option \<Rightarrow> port_field \<Rightarrow> double \<Rightarrow> u32 \<Rightarrow> string \<Rightarrow> string \<Rightarrow> string \<Rightarrow> port_out \<Rightarrow> port_out" where
  "portTransition sh field ts n emptyLabel to why = (\<lambda>(p, out).
     let from = (if field_get field p = [] then emptyLabel else field_get field p);
         nm = sh_name sh (pt_clockId p)
     in if from = to then (p, out)
        else ((field_set field to p)\<lparr>pt_hist := push_cap kMaxHist (HistEntry ts n from to why) (pt_hist p)\<rparr>,
          out @ [\<lparr>t_proto = GPTP, t_object = cat [''gptp port '', portStr p], t_from = from, t_to = to,
            t_why = why,
            t_summary = cat [''gPTP port '', portStr p, (if nm = [] then '''' else cat ['' ('', nm, '')'']),
              '': '', from, '' -> '', to, emdash, why],
            t_entity = idStr (pt_clockId p), t_stream = ''''\<rparr>]))"

definition portWarning :: "double \<Rightarrow> u32 \<Rightarrow> string \<Rightarrow> port_out \<Rightarrow> port_out" where
  "portWarning ts n why = (\<lambda>(p, out).
     let state = (if role p = [] then ''UNKNOWN'' else role p)
     in (p\<lparr>pt_hist := push_cap kMaxHist (HistEntry ts n state state why) (pt_hist p)\<rparr>,
         out @ [\<lparr>t_proto = GPTP, t_object = cat [''gptp port '', portStr p], t_from = state, t_to = state,
           t_why = why, t_summary = cat [''gPTP port '', portStr p, '': '', why],
           t_entity = idStr (pt_clockId p), t_stream = ''''\<rparr>]))"

definition pdelayLost :: "shared option \<Rightarrow> double \<Rightarrow> port_out \<Rightarrow> port_out" where
  "pdelayLost sh ts = (\<lambda>(p0, out0).
     let p = p0\<lparr>pdelayLostCount := pdelayLostCount p0 + 1, consecutiveLost := consecutiveLost p0 + 1,
                mdReqState := ''RESET'', mdResets := mdResets p0 + 1\<rparr>;
         po = portWarning ts 0 (cat [''MDPdelayReq -> RESET (lostResponses '', u_str (consecutiveLost p),
                '' of '', u_str kAllowedLostResponses, '' allowed)'']) (p, out0)
     in if consecutiveLost p \<ge> kAllowedLostResponses then
          portTransition sh AsCapable ts 0 ''UNKNOWN'' ''NOT_AS_CAPABLE''
            (cat [u_str kAllowedLostResponses,
                  '' consecutive Pdelay_Req without Resp/Resp_Follow_Up (allowedLostResponses)'']) po
        else po)"

section \<open>The observer-side BMCA\<close>

definition aged :: "double \<Rightarrow> ann_vec \<Rightarrow> bool" where
  "aged ts a \<longleftrightarrow> ts - av_lastTs a > real kAnnounceReceiptTimeoutN * av_announceIntervalS a + 1 / 2"

text \<open>The loop keeps the first vector no later one is better than.\<close>

definition bestVec :: "(u64, ann_vec) omap \<Rightarrow> ann_vec option" where
  "bestVec as = fold (\<lambda>(_, vec) best. case best of None \<Rightarrow> Some vec
      | Some b \<Rightarrow> if betterThan vec b then Some vec else Some b) as None"

definition evalBmca :: "double \<Rightarrow> gdomain \<Rightarrow> gdomain" where
  "evalBmca ts d0 =
     (let d = d0\<lparr>announcers := filter (\<lambda>(_, a). \<not> aged ts a) (announcers d0)\<rparr>;
          best = bestVec (announcers d);
          syncIt = om_get (announcers d) (syncSender d)
      in d\<lparr>expectedGm := (case best of Some b \<Rightarrow> av_gmId b | None \<Rightarrow> 0),
           expectedP1 := (case best of Some b \<Rightarrow> av_p1 b | None \<Rightarrow> 0),
           haveExpectedVec := (best \<noteq> None),
           expectedVec := (case best of Some b \<Rightarrow> b | None \<Rightarrow> expectedVec d),
           haveSyncVec := (syncIt \<noteq> None),
           syncVec := (case syncIt of Some a \<Rightarrow> a | None \<Rightarrow> syncVec d),
           syncSenderP1 := (case syncIt of Some a \<Rightarrow> av_p1 a | None \<Rightarrow> 255)\<rparr>)"

definition bmcaState :: "gdomain \<Rightarrow> string" where
  "bmcaState d = (if expectedGm d = 0 \<or> syncSenderGm d = 0 then ''UNKNOWN''
     else if expectedGm d = syncSenderGm d then ''CONVERGED''
     else if \<not> haveExpectedVec d \<or> \<not> haveSyncVec d then ''UNKNOWN''
     else if quality (expectedVec d) = quality (syncVec d) then ''TIEBREAK'' else ''PRIORITY_INVERSION'')"

section \<open>Message handlers\<close>

definition setGmAttrs :: "var_ctx \<Rightarrow> gdomain \<Rightarrow> gdomain" where
  "setGmAttrs v d = d\<lparr>gd_gmId := ctx_at v ''gm_identity'', gd_p1 := ucast (ctx_at v ''gm_priority1''),
     gd_p2 := ucast (ctx_at v ''gm_priority2''), gd_clockClass := ucast (ctx_at v ''gm_clock_class''),
     gd_clockAccuracy := ucast (ctx_at v ''gm_clock_accuracy''),
     gd_variance := ucast (ctx_at v ''gm_clock_variance''),
     gd_stepsRemoved := ucast (ctx_at v ''steps_removed''), gd_timeSource := ucast (ctx_at v ''time_source''),
     utcOffset := sint (ucast (ctx_at v ''current_utc_offset'') :: u16)\<rparr>"

text \<open>A loop over all ports that emits.\<close>

definition each_port :: "(u64 \<Rightarrow> port_out \<Rightarrow> port_out) \<Rightarrow> gst \<Rightarrow> gst" where
  "each_port f = (\<lambda>(g, sh). case om_iter (\<lambda>k p out. f k (p, out)) (mPorts g) (gp_pending g) of
     (ps, out) \<Rightarrow> (g\<lparr>mPorts := ps, gp_pending := out\<rparr>, sh))"

text \<open>A port that only initiates pdelay on the domain of the new master is taken for a slave.\<close>

definition becomeSlave ::
    "shared option \<Rightarrow> u64 \<Rightarrow> u8 \<Rightarrow> double \<Rightarrow> u32 \<Rightarrow> string \<Rightarrow> u64 \<Rightarrow> port_out \<Rightarrow> port_out" where
  "becomeSlave sh self dm ts n master k = (\<lambda>(p, out).
     if k = self \<or> pt_domain p \<noteq> dm then (p, out)
     else if syncSent p = 0 \<and> announceSent p = 0 \<and> role p = [] then
       portTransition sh Role ts n ''UNKNOWN'' ''SLAVE''
         (cat [''initiates pdelay but sends no Sync/Announce; '', master,
               '' is the observed master (single tap point'', emdash, ''inferred)'']) (p, out)
     else (p, out))"

definition becomeMaster :: "u64 \<Rightarrow> u8 \<Rightarrow> double \<Rightarrow> u32 \<Rightarrow> string \<Rightarrow> gst \<Rightarrow> gst" where
  "becomeMaster pk dm ts n why st0 =
     (let st = on_port pk (\<lambda>sh. portTransition sh Role ts n ''UNKNOWN'' ''MASTER'' why) st0;
          p = om_at Port (mPorts (fst st)) pk
      in each_port (becomeSlave (snd st) (portKey (pt_clockId p) (pt_portNum p)) dm ts n (portStr p)) st)"

text \<open>\<open>onSync\<close>, step by step: the domain's counters, the demotion of silent masters, the
  sync state, the two-step bookkeeping and the BMCA.\<close>

definition sync_count :: "var_ctx \<Rightarrow> double \<Rightarrow> u64 \<Rightarrow> gdomain \<Rightarrow> gdomain" where
  "sync_count v ts sender d0 =
     (let d = d0\<lparr>lastSync := ts, lastGapS := (if lastSync d0 \<ge> 0 then ts - lastSync d0 else lastGapS d0),
                 syncIntervalS := intervalFromLog (ctx_at v ''log_message_interval'') kDefaultSyncIntervalS,
                 syncCount := syncCount d0 + 1\<rparr>
      in if syncSender d \<noteq> sender then d\<lparr>syncSender := sender, pendingSyncs := []\<rparr> else d)"

definition demote ::
    "shared option \<Rightarrow> u64 \<Rightarrow> u8 \<Rightarrow> double \<Rightarrow> u32 \<Rightarrow> double \<Rightarrow> string \<Rightarrow> u64 \<Rightarrow> port_out \<Rightarrow> port_out" where
  "demote sh sender dm ts n interval by k = (\<lambda>(p, out).
     if k = sender \<or> pt_domain p \<noteq> dm then (p, out)
     else if role p = ''MASTER'' \<and> lastSyncSentTs p \<ge> 0 \<and>
             ts > lastSyncSentTs p + real kSyncReceiptTimeoutN * interval then
       portTransition sh Role ts n ''MASTER'' ''SLAVE''
         (cat [by, '' took over as Sync sender; no Sync from this port for '', fmtGap (ts - lastSyncSentTs p)])
         (p, out)
     else (p, out))"

definition sync_state :: "var_ctx \<Rightarrow> double \<Rightarrow> u32 \<Rightarrow> dom_out \<Rightarrow> dom_out" where
  "sync_state v ts n = (\<lambda>(d, sh, out).
     if gd_sync d = [] then
       syncTransition ts n ''HEALTHY'' (cat [''first Sync observed (seq '', u_str (ctx_at v ''sequence_id''), '', '',
         fmtGap (syncIntervalS d), '' interval)'']) (d, sh, out)
     else if gd_sync d = ''LOST'' then
       syncTransition ts n ''HEALTHY'' (cat [''Sync resumed after '', fmtGap (lastGapS d), '' gap'']) (d, sh, out)
     else (d, sh, out))"

definition sync_pending :: "var_ctx \<Rightarrow> double \<Rightarrow> gdomain \<Rightarrow> gdomain" where
  "sync_pending v ts d =
     (if ctx_at v ''two_step'' \<noteq> 0 then
        let ps = om_set (ucast (ctx_at v ''sequence_id'')) ts (pendingSyncs d)
        in d\<lparr>pendingSyncs := (if length ps > 64 then tl ps else ps)\<rparr>
      else d)"

definition sync_port :: "var_ctx \<Rightarrow> port \<Rightarrow> port" where
  "sync_port v p =
     (if ctx_at v ''two_step'' \<noteq> 0 then
        p\<lparr>mdSyncSendState := ''FOLLOW_UP_PENDING'', pendingFuSeq := ucast (ctx_at v ''sequence_id'')\<rparr>
      else if mdSyncSendState p \<noteq> ''FOLLOW_UP_PENDING'' then p\<lparr>mdSyncSendState := ''IDLE''\<rparr> else p)"

definition sync_bmca :: "double \<Rightarrow> u64 \<Rightarrow> dom_out \<Rightarrow> dom_out" where
  "sync_bmca ts sender = (\<lambda>(d0, sh, out).
     let d = evalBmca ts (d0\<lparr>syncSenderGm :=
               (case om_get (announcers d0) sender of Some a \<Rightarrow> av_gmId a | None \<Rightarrow> 0)\<rparr>)
     in (d, publish d sh, out))"

definition onSync :: "var_ctx \<Rightarrow> double \<Rightarrow> u32 \<Rightarrow> u8 \<Rightarrow> u64 \<Rightarrow> gst \<Rightarrow> gst" where
  "onSync v ts n dm pk st0 =
     (let st1 = on_dom dm (\<lambda>(d, sh, out). (sync_count v ts pk d, sh, out)) st0;
          st2 = set_port pk (\<lambda>p. p\<lparr>syncSent := syncSent p + 1, lastSyncSentTs := ts\<rparr>) st1;
          st3 = becomeMaster pk dm ts n (cat [''sent Sync seq '', u_str (ctx_at v ''sequence_id''),
                  '' on domain '', u_str dm]) st2;
          interval = syncIntervalS (getDomain dm (fst st3));
          by = portStr (om_at Port (mPorts (fst st3)) pk);
          st4 = each_port (demote (snd st3) pk dm ts n interval by) st3;
          st5 = on_dom dm (sync_state v ts n) st4;
          st6 = on_dom dm (\<lambda>(d, sh, out). (sync_pending v ts d, sh, out)) st5;
          st7 = set_port pk (sync_port v) st6
      in on_dom dm (sync_bmca ts pk) st7)"

definition onSignaling :: "var_ctx \<Rightarrow> double \<Rightarrow> u32 \<Rightarrow> shared option \<Rightarrow> port_out \<Rightarrow> port_out" where
  "onSignaling v ts n sh = (\<lambda>(p0, out0).
     let p1 = p0\<lparr>signalingSent := signalingSent p0 + 1\<rparr>;
         (p2, out) =
           (if ctx_at v ''signaling_gptp_capable'' \<noteq> 0 then
              let p = p1\<lparr>lastCapableTs := ts,
                         capableIntervalS := intervalFromLog (ctx_at v ''gptp_capable_interval'') 1\<rparr>
              in if gptpCapable p \<noteq> ''GPTP_CAPABLE'' then
                   portTransition sh GptpCapable ts n ''UNKNOWN'' ''GPTP_CAPABLE''
                     (cat [''Signaling gPTP-capable TLV (interval '', fmtGap (capableIntervalS p), '')'']) (p, out0)
                 else (p, out0)
            else (p1, out0))
     in (if ctx_at v ''signaling_interval_request'' \<noteq> 0 then
           p2\<lparr>reqIntervalsSeen := True, reqLinkDelay := ucast (ctx_at v ''req_link_delay_interval''),
              reqTimeSync := ucast (ctx_at v ''req_time_sync_interval''),
              reqAnnounce := ucast (ctx_at v ''req_announce_interval'')\<rparr>
         else p2, out))"

definition followUp_dom :: "var_ctx \<Rightarrow> double \<Rightarrow> u32 \<Rightarrow> dom_out \<Rightarrow> dom_out" where
  "followUp_dom v ts n = (\<lambda>(d0, sh, out).
     let seq = ucast (ctx_at v ''sequence_id'') :: u16;
         d1 = (if om_get (pendingSyncs d0) seq \<noteq> None then
                 d0\<lparr>followUpCount := followUpCount d0 + 1, pendingSyncs := om_del seq (pendingSyncs d0)\<rparr>
               else d0\<lparr>unmatchedFollowUps := unmatchedFollowUps d0 + 1\<rparr>)
     in if ctx_at v ''has_as_tlv'' \<noteq> 0 then
          let csro = ucast (ctx_at v ''cumulative_scaled_rate_offset'') :: u32;
              d2 = d1\<lparr>rateOffsetPpm := real_of_int (sint csro) / 2199023255552 * 10 ^ 6\<rparr>;
              tbi = ucast (ctx_at v ''gm_time_base_indicator'') :: u16;
              (d3, sh', out') =
                (if haveTimeBase d2 \<and> tbi \<noteq> gmTimeBaseIndicator d2 then
                   emitDom ts n (cat [''TIMEBASE '', u_str (gmTimeBaseIndicator d2)])
                     (cat [''TIMEBASE '', u_str tbi])
                     ''gmTimeBaseIndicator changed (GM time base step)'' (d2, sh, out)
                 else (d2, sh, out))
          in (d3\<lparr>gmTimeBaseIndicator := tbi, haveTimeBase := True\<rparr>, sh', out')
        else (d1, sh, out))"

definition onFollowUp :: "var_ctx \<Rightarrow> double \<Rightarrow> u32 \<Rightarrow> u8 \<Rightarrow> u64 \<Rightarrow> gst \<Rightarrow> gst" where
  "onFollowUp v ts n dm pk st =
     on_dom dm (followUp_dom v ts n)
       (set_port pk (\<lambda>p. if mdSyncSendState p = ''FOLLOW_UP_PENDING'' \<and>
                            pendingFuSeq p = ucast (ctx_at v ''sequence_id'')
                         then p\<lparr>mdSyncSendState := ''IDLE''\<rparr> else p) st)"

text \<open>The grandmaster an Announce carries: first seen, resumed, changed or refreshed.\<close>

definition announce_gm :: "var_ctx \<Rightarrow> double \<Rightarrow> u32 \<Rightarrow> double \<Rightarrow> dom_out \<Rightarrow> dom_out" where
  "announce_gm v ts n sinceLast = (\<lambda>(d, sh, out).
     let gm = ctx_at v ''gm_identity''; p1 = ucast (ctx_at v ''gm_priority1'') :: u8
     in if gmState d = [] then
          domTransition ts n ''GM_PRESENT''
            (cat [''Announce: grandmaster '', idStr gm, '' (priority1 '', u_str p1, '', class '',
                  u_str (ctx_at v ''gm_clock_class''), '', steps '', u_str (ctx_at v ''steps_removed''), '')''])
            (setGmAttrs v d, sh, out)
        else if gmState d = ''GM_TIMED_OUT'' then
          domTransition ts n ''GM_PRESENT'' (cat [''Announce resumed after '', fmtGap sinceLast])
            (setGmAttrs v d, sh, out)
        else if gd_gmId d \<noteq> gm then
          let nm = sh_name sh gm
          in emitDom ts n (cat [''GM '', idStr (gd_gmId d)]) (cat [''GM '', idStr gm])
               (cat [''Announce carries a different grandmasterIdentity (BMCA reselection'',
                 (if p1 \<noteq> gd_p1 d then cat ['': priority1 '', u_str p1, (if p1 < gd_p1 d then '' < '' else '' > ''),
                    u_str (gd_p1 d)] else ''''), '')'',
                 (if nm = [] then '''' else cat [emdash, ''new GM is '', [CHR 0x22], nm, [CHR 0x22]])])
               (setGmAttrs v d, sh, out)
        else (setGmAttrs v d, sh, out))"

definition announce_vec :: "var_ctx \<Rightarrow> double \<Rightarrow> double \<Rightarrow> port \<Rightarrow> ann_vec" where
  "announce_vec v ts interval p =
     \<lparr>av_p1 = ucast (ctx_at v ''gm_priority1''), av_clockClass = ucast (ctx_at v ''gm_clock_class''),
      av_accuracy = ucast (ctx_at v ''gm_clock_accuracy''), av_variance = ucast (ctx_at v ''gm_clock_variance''),
      av_p2 = ucast (ctx_at v ''gm_priority2''), av_gmId = ctx_at v ''gm_identity'',
      av_stepsRemoved = ucast (ctx_at v ''steps_removed''), av_srcClock = pt_clockId p, av_srcPort = pt_portNum p,
      av_lastTs = ts, av_announceIntervalS = interval\<rparr>"

text \<open>A vector with 255 or more steps is unqualified.\<close>

definition announce_bmca :: "var_ctx \<Rightarrow> double \<Rightarrow> double \<Rightarrow> port \<Rightarrow> dom_out \<Rightarrow> dom_out" where
  "announce_bmca v ts interval p = (\<lambda>(d0, sh, out).
     let sender = portKey (pt_clockId p) (pt_portNum p);
         ok = (ucast (ctx_at v ''steps_removed'') :: u16) < 255;
         d1 = (if ok then d0\<lparr>announcers := om_set sender (announce_vec v ts interval p) (announcers d0)\<rparr>
               else (let d = d0\<lparr>announcers := om_del sender (announcers d0)\<rparr>
                     in if sender = syncSender d then d\<lparr>syncSenderGm := 0\<rparr> else d));
         d2 = (if sender = syncSender d1 \<and> ok then d1\<lparr>syncSenderGm := ctx_at v ''gm_identity''\<rparr> else d1);
         d3 = evalBmca ts d2
     in (d3, publish d3 sh, out))"

definition announce_port :: "double \<Rightarrow> u32 \<Rightarrow> shared option \<Rightarrow> port_out \<Rightarrow> port_out" where
  "announce_port ts n sh = (\<lambda>(p0, out).
     let p = p0\<lparr>lastAnnounceTs := ts\<rparr>
     in if announceState p = ''AGED'' then
          portTransition sh AnnounceState ts n ''NONE'' ''RECEIVED'' ''announces resumed'' (p, out)
        else (p\<lparr>announceState := ''RECEIVED''\<rparr>, out))"

definition onAnnounce :: "var_ctx \<Rightarrow> double \<Rightarrow> u32 \<Rightarrow> u8 \<Rightarrow> u64 \<Rightarrow> gst \<Rightarrow> gst" where
  "onAnnounce v ts n dm pk st0 =
     (let d0 = getDomain dm (fst st0);
          sinceLast = (if lastAnnounce d0 \<ge> 0 then ts - lastAnnounce d0 else 0);
          interval = intervalFromLog (ctx_at v ''log_message_interval'') kDefaultAnnounceIntervalS;
          st1 = on_dom dm (\<lambda>(d, sh, out). (d\<lparr>lastAnnounce := ts, gd_announceIntervalS := interval,
                  announceCount := announceCount d + 1\<rparr>, sh, out)) st0;
          st2 = set_port pk (\<lambda>p. p\<lparr>pt_announceIntervalS := interval, announceSent := announceSent p + 1\<rparr>) st1;
          st3 = becomeMaster pk dm ts n (cat [''sent Announce on domain '', u_str dm]) st2;
          st4 = on_dom dm (announce_gm v ts n sinceLast) st3;
          st5 = on_dom dm (\<lambda>(d, sh, out). (case getBytes v ''path_trace'' of
                  Some trace \<Rightarrow> d\<lparr>pathTrace := trace\<rparr> | None \<Rightarrow> d, sh, out)) st4;
          st6 = on_port pk (announce_port ts n) st5
      in on_dom dm (announce_bmca v ts interval (om_at Port (mPorts (fst st6)) pk)) st6)"

section \<open>Pdelay exchanges\<close>

definition onPdelayReq :: "var_ctx \<Rightarrow> double \<Rightarrow> u64 \<Rightarrow> gst \<Rightarrow> gst" where
  "onPdelayReq v ts pk st0 =
     (let st1 = set_port pk (\<lambda>p. p\<lparr>pdelayInitiated := pdelayInitiated p + 1,
                  reqIntervalS := intervalFromLog (ctx_at v ''log_message_interval'') kDefaultPdelayIntervalS\<rparr>) st0;
          st2 = (if om_get (mExchanges (fst st1)) pk \<noteq> None then on_port pk (\<lambda>sh. pdelayLost sh ts) st1 else st1);
          st3 = set_port pk (\<lambda>p. p\<lparr>mdReqState := ''WAITING_FOR_PDELAY_RESP''\<rparr>) st2
      in apfst (\<lambda>g. g\<lparr>mExchanges := om_set pk (Exchange\<lparr>xc_seq := ucast (ctx_at v ''sequence_id''),
                  xc_reqTs := ts\<rparr>) (mExchanges g)\<rparr>) st3)"

text \<open>An update of a port only if it is known.\<close>

definition if_port :: "u64 \<Rightarrow> (port \<Rightarrow> port) \<Rightarrow> gst \<Rightarrow> gst" where
  "if_port k f st = (if om_get (mPorts (fst st)) k \<noteq> None then set_port k f st else st)"

definition reqKeyOf :: "var_ctx \<Rightarrow> u64" where
  "reqKeyOf v = portKey (ctx_at v ''requesting_clock_id'') (ucast (ctx_at v ''requesting_port_number''))"

definition srcKeyOf :: "var_ctx \<Rightarrow> u64" where
  "srcKeyOf v = portKey (ctx_at v ''source_clock_id'') (ucast (ctx_at v ''source_port_number''))"

text \<open>The responder's port: its identity is stored again, then its machine moves.\<close>

definition responder_state :: "var_ctx \<Rightarrow> string \<Rightarrow> gst \<Rightarrow> gst" where
  "responder_state v s st = set_port (srcKeyOf v) (\<lambda>p. p\<lparr>mdRespState := s\<rparr>)
     (getPort (ctx_at v ''source_clock_id'') (ucast (ctx_at v ''source_port_number'')) st)"

definition onPdelayResp :: "var_ctx \<Rightarrow> double \<Rightarrow> gst \<Rightarrow> gst" where
  "onPdelayResp v ts st0 =
     (let st1 = responder_state v ''SENT_PDELAY_RESP_WAITING_FOR_TIMESTAMP'' st0; k = reqKeyOf v
      in case om_get (mExchanges (fst st1)) k of None \<Rightarrow> st1
         | Some x \<Rightarrow>
           if xc_seq x \<noteq> ucast (ctx_at v ''sequence_id'') then st1
           else apfst (\<lambda>g. g\<lparr>mExchanges := om_set k (x\<lparr>xc_respTs := ts, haveResp := True,
                    responderKey := srcKeyOf v,
                    reqReceiptNs := ctx_at v ''req_receipt_seconds'' * 1000000000 + ctx_at v ''req_receipt_ns''\<rparr>)
                    (mExchanges g)\<rparr>)
                  (if_port k (\<lambda>p. p\<lparr>mdReqState := ''WAITING_FOR_PDELAY_RESP_FOLLOW_UP''\<rparr>) st1))"

text \<open>The exchange is complete: counters, the two delays, \<open>AS_CAPABLE\<close>.\<close>

definition turnaroundS :: "var_ctx \<Rightarrow> exchange \<Rightarrow> double" where
  "turnaroundS v x = real_of_int (sint (ctx_at v ''resp_origin_seconds'' * 1000000000 +
     ctx_at v ''resp_origin_ns'' - reqReceiptNs x)) / 10 ^ 9"

definition complete_exchange :: "var_ctx \<Rightarrow> double \<Rightarrow> u32 \<Rightarrow> exchange \<Rightarrow> shared option \<Rightarrow> port_out \<Rightarrow> port_out" where
  "complete_exchange v ts n x sh = (\<lambda>(p, out).
     portTransition sh AsCapable ts n ''UNKNOWN'' ''AS_CAPABLE''
       (cat [''pdelay exchange seq '', u_str (ctx_at v ''sequence_id''),
             '' complete (req -> resp -> resp_follow_up)''])
       (p\<lparr>mdReqState := ''WAITING_FOR_PDELAY_INTERVAL_TIMER'', pdelayComplete := pdelayComplete p + 1,
          consecutiveLost := 0, lastTurnaroundUs := turnaroundS v x * 10 ^ 6,
          lastObservedGapMs := (if xc_respTs x \<ge> 0 then (xc_respTs x - xc_reqTs x) * 1000
                                else lastObservedGapMs p)\<rparr>, out))"

definition onPdelayRespFu :: "var_ctx \<Rightarrow> double \<Rightarrow> u32 \<Rightarrow> gst \<Rightarrow> gst" where
  "onPdelayRespFu v ts n st0 =
     (let st1 = responder_state v ''WAITING_FOR_PDELAY_REQ'' st0; k = reqKeyOf v
      in case om_get (mExchanges (fst st1)) k of None \<Rightarrow> st1
         | Some x \<Rightarrow>
           if \<not> haveResp x \<or> xc_seq x \<noteq> ucast (ctx_at v ''sequence_id'') then st1
           else let st2 = (if om_get (mPorts (fst st1)) k = None then st1
                    else let st = on_port k (complete_exchange v ts n x) st1
                         in if turnaroundS v x > kPdelayTurnaroundLimitS \<and>
                               om_get (mPorts (fst st)) (responderKey x) \<noteq> None then
                              on_port (responderKey x) (\<lambda>sh. portWarning ts n
                                (cat [''pdelay turnaround '', fmt_fixed 1 (turnaroundS v x * 1000),
                                      '' ms exceeds the 10 ms limit (Avnu gPTP)''])) st
                            else st)
                in apfst (\<lambda>g. g\<lparr>mExchanges := om_del k (mExchanges g)\<rparr>) st2)"

section \<open>Dispatch and time\<close>

definition gptp_onDecode :: "var_ctx \<Rightarrow> gst \<Rightarrow> gst" where
  "gptp_onDecode v st0 =
     (let ts = tsOf v; n = numOf v; msg = ucast (ctx_at v ''message_type'') :: u8;
          cmlds = (ctx_at v ''transport_specific'' = 2); dm = ucast (ctx_at v ''domain_number'') :: u8;
          pk = srcKeyOf v;
          st = set_port pk (\<lambda>p. let p1 = p\<lparr>pt_srcMac := ctx_at v ''src_mac''\<rparr>
                                 in if cmlds then p1 else p1\<lparr>pt_domain := dm\<rparr>)
                 (getPort (ctx_at v ''source_clock_id'') (ucast (ctx_at v ''source_port_number'')) st0)
      in if msg = 0 then onSync v ts n dm pk st
         else if msg = 8 then onFollowUp v ts n dm pk st
         else if msg = 2 then onPdelayReq v ts pk st
         else if msg = 3 then onPdelayResp v ts st
         else if msg = 0xA then onPdelayRespFu v ts n st
         else if msg = 0xB then onAnnounce v ts n dm pk st
         else if msg = 0xC then on_port pk (onSignaling v ts n) st
         else st)"

definition established_count :: "shared option \<Rightarrow> nat" where
  "established_count sh = (case sh of None \<Rightarrow> 0 | Some s \<Rightarrow> card (establishedStreams s))"

definition dom_sync_tick :: "double \<Rightarrow> dom_out \<Rightarrow> dom_out" where
  "dom_sync_tick ts = (\<lambda>(d, sh, out).
     if gd_sync d = ''HEALTHY'' \<and> ts > lastSync d + real kSyncReceiptTimeoutN * syncIntervalS d then
       let k = established_count sh
       in syncTransition ts 0 ''LOST''
            (cat [''no Sync for '', fmtGap (ts - lastSync d), '' (> '', nat_str kSyncReceiptTimeoutN, '' '',
              times_sign, '' '', fmtGap (syncIntervalS d), '' syncReceiptTimeout)'',
              (if k \<noteq> 0 then cat [''; '', nat_str k,
                 '' established stream reservation(s) depend on this clock''] else '''')]) (d, sh, out)
     else (d, sh, out))"

definition dom_gm_tick :: "double \<Rightarrow> dom_out \<Rightarrow> dom_out" where
  "dom_gm_tick ts = (\<lambda>(d, sh, out).
     if gmState d = ''GM_PRESENT'' \<and>
        ts > lastAnnounce d + real kAnnounceReceiptTimeoutN * gd_announceIntervalS d then
       domTransition ts 0 ''GM_TIMED_OUT''
         (cat [''no Announce within announceReceiptTimeout ('', nat_str kAnnounceReceiptTimeoutN, '' '',
           times_sign, '' '', fmtGap (gd_announceIntervalS d), '')'']) (d, sh, out)
     else (d, sh, out))"

definition dom_tick :: "double \<Rightarrow> u8 \<Rightarrow> gdomain \<Rightarrow> shared option \<times> transition list \<Rightarrow>
    gdomain \<times> shared option \<times> transition list" where
  "dom_tick ts num d o0 =
     (case dom_sync_tick ts (d, o0) of (d1, o1) \<Rightarrow> dom_gm_tick ts (evalBmca ts d1, o1))"

definition port_tick :: "shared option \<Rightarrow> double \<Rightarrow> port_out \<Rightarrow> port_out" where
  "port_tick sh ts = (\<lambda>(p, out).
     let po = (if announceState p = ''RECEIVED'' \<and> lastAnnounceTs p \<ge> 0 \<and>
                  ts > lastAnnounceTs p + real kAnnounceReceiptTimeoutN * pt_announceIntervalS p + 1 / 2 then
                 portTransition sh AnnounceState ts 0 ''RECEIVED'' ''AGED''
                   (cat [''no Announce within announceReceiptTimeout'', emdash,
                         ''port information AGED (10.2.12)'']) (p, out)
               else (p, out))
     in if gptpCapable (fst po) = ''GPTP_CAPABLE'' \<and>
           ts > lastCapableTs (fst po) + real kGptpCapableTimeoutN * capableIntervalS (fst po) then
          portTransition sh GptpCapable ts 0 ''GPTP_CAPABLE'' ''CAPABLE_TIMED_OUT''
            (cat [''no gPTP-capable TLV within '', nat_str kGptpCapableTimeoutN,
                  '' intervals (gPtpCapableReceiptTimeout, 10.7.3.3)'']) po
        else po)"

definition exchange_tick ::
    "shared option \<Rightarrow> double \<Rightarrow> u64 \<Rightarrow> exchange \<Rightarrow> (u64, port) omap \<times> transition list \<Rightarrow>
     exchange option \<times> (u64, port) omap \<times> transition list" where
  "exchange_tick sh ts k x = (\<lambda>(ps, out).
     let pIt = om_get ps k;
         limit = (case pIt of Some p \<Rightarrow> max (reqIntervalS p) 1 | None \<Rightarrow> 1)
     in if ts > xc_reqTs x + limit then
          (case pIt of
             Some p \<Rightarrow> (case pdelayLost sh ts (p, out) of (p', out') \<Rightarrow> (None, om_set k p' ps, out'))
           | None \<Rightarrow> (None, ps, out))
        else (Some x, ps, out))"

definition gptp_onTimeTick :: "double \<Rightarrow> gst \<Rightarrow> gst" where
  "gptp_onTimeTick ts = (\<lambda>(g0, sh0).
     case om_iter (dom_tick ts) (gp_domains g0) (sh0, gp_pending g0) of
       (ds, (sh, out)) \<Rightarrow>
         (case each_port (\<lambda>_. port_tick sh ts) (g0\<lparr>gp_domains := ds, gp_pending := out\<rparr>, sh) of
            (g1, _) \<Rightarrow>
              (case om_sweep (exchange_tick sh ts) (mExchanges g1) (mPorts g1, gp_pending g1) of
                 (xs, (ps, out1)) \<Rightarrow> (g1\<lparr>mExchanges := xs, mPorts := ps, gp_pending := out1\<rparr>, sh))))"

end
