(* ===== verification/Gptp_Proofs.thy ===== *)
theory Gptp_Proofs
  imports Gptp_Logic
begin

text \<open>
  The lemmas of the gPTP model: announced intervals stay within 1/128 s and 32 s, the
  observer's BMCA selects the minimum of the qualified priority vectors, a port is
  \<open>AS_CAPABLE\<close> only while fewer than three exchanges in a row were lost, and a tick
  leaves no timeout unobserved.
\<close>

section \<open>Intervals\<close>

lemma sint_byte_bounds: "-128 \<le> sint (r :: u8) \<and> sint r < 128"
  using sint_ge [of r] sint_lt [of r] by simp

lemma intervalFromLog_value:
  "intervalFromLog raw dflt = dflt \<or>
   (\<exists>e::int. -7 \<le> e \<and> e \<le> 5 \<and> intervalFromLog raw dflt = 2 powr real_of_int e)"
proof -
  define v where "v = sint (ucast raw :: u8)"
  have e: "(if v \<ge> 0 then 2 ^ nat v else 1 / 2 ^ nat (- v)) = (2::real) powr real_of_int v"
    by (auto simp: powr_realpow [symmetric] powr_minus_divide [symmetric])
  show ?thesis
  proof (cases "(ucast raw :: u8) = 0x7F \<or> v < -7 \<or> v > 5")
    case True
    then show ?thesis by (auto simp: intervalFromLog_def Let_def v_def)
  next
    case False
    then have "intervalFromLog raw dflt = 2 powr real_of_int v"
      using e unfolding intervalFromLog_def Let_def v_def [symmetric] by simp
    with False show ?thesis by (intro disjI2 exI [of _ v]) simp
  qed
qed

lemma intervalFromLog_bounds:
  assumes "1 / 128 \<le> dflt" and "dflt \<le> 32"
  shows "1 / 128 \<le> intervalFromLog raw dflt" "intervalFromLog raw dflt \<le> 32"
proof -
  have "1 / 128 \<le> (2::real) powr real_of_int e \<and> (2::real) powr real_of_int e \<le> 32"
    if "-7 \<le> e" "e \<le> 5" for e :: int
  proof -
    have "(2::real) powr (-7) \<le> 2 powr real_of_int e" using that by (intro powr_mono) auto
    moreover have "(2::real) powr real_of_int e \<le> 2 powr 5" using that by (intro powr_mono) auto
    moreover have "(2::real) powr (-7) = 1 / 128" by (simp add: powr_minus_divide powr_numeral)
    moreover have "(2::real) powr 5 = 32" by (simp add: powr_numeral)
    ultimately show ?thesis by simp
  qed
  with intervalFromLog_value [of raw dflt] assms
  show "1 / 128 \<le> intervalFromLog raw dflt" "intervalFromLog raw dflt \<le> 32" by auto
qed

section \<open>The BMCA\<close>

definition better_step :: "u64 \<times> ann_vec \<Rightarrow> ann_vec option \<Rightarrow> ann_vec option" where
  "better_step kv best = (case best of None \<Rightarrow> Some (snd kv)
     | Some b \<Rightarrow> if betterThan (snd kv) b then Some (snd kv) else Some b)"

lemma bestVec_step: "bestVec as = fold better_step as None"
proof -
  have "(\<lambda>(_, vec) best. case best of None \<Rightarrow> Some vec
      | Some b \<Rightarrow> if betterThan vec b then Some vec else Some b) = better_step"
    by (intro ext) (simp add: better_step_def split_def)
  then show ?thesis by (simp add: bestVec_def)
qed

lemma fold_better:
  "\<exists>w. fold better_step as (Some b) = Some w \<and> (w = b \<or> w \<in> snd ` set as) \<and>
     \<not> betterThan b w \<and> (\<forall>a \<in> snd ` set as. \<not> betterThan a w)"
proof (induction as arbitrary: b)
  case Nil
  then show ?case by (simp add: betterThan_def)
next
  case (Cons kv as)
  define c where "c = (if betterThan (snd kv) b then snd kv else b)"
  obtain w where w: "fold better_step as (Some c) = Some w" "w = c \<or> w \<in> snd ` set as"
    "\<not> betterThan c w" "\<forall>a \<in> snd ` set as. \<not> betterThan a w"
    using Cons by blast
  have "\<not> betterThan b w" "\<not> betterThan (snd kv) w"
    using w(3) by (auto simp: c_def betterThan_def split: if_splits)
  moreover have "w = b \<or> w \<in> snd ` set (kv # as)"
    using w(2) by (auto simp: c_def split: if_splits)
  moreover have "better_step kv (Some b) = Some c" by (simp add: better_step_def c_def)
  ultimately show ?case using w(1,4) by (auto intro!: exI [of _ w])
qed

lemma bestVec_min:
  assumes "bestVec as = Some b"
  shows "b \<in> snd ` set as" and "a \<in> snd ` set as \<Longrightarrow> \<not> betterThan a b"
proof -
  from assms obtain kv as' where as: "as = kv # as'" by (cases as) (auto simp: bestVec_step)
  then have "fold better_step as' (Some (snd kv)) = Some b"
    using assms by (simp add: bestVec_step better_step_def)
  with fold_better [of as' "snd kv"] as show "b \<in> snd ` set as"
    and "a \<in> snd ` set as \<Longrightarrow> \<not> betterThan a b" by auto
qed

lemma bestVec_None: "bestVec as = None \<longleftrightarrow> as = []"
proof (cases as)
  case (Cons kv as')
  then have "bestVec as = fold better_step as' (Some (snd kv))" by (simp add: bestVec_step better_step_def)
  with fold_better [of as' "snd kv"] Cons show ?thesis by auto
qed (simp add: bestVec_step)

lemma evalBmca_sel [simp]:
  "announcers (evalBmca ts d) = filter (\<lambda>(_, a). \<not> aged ts a) (announcers d)"
  "gd_sync (evalBmca ts d) = gd_sync d" "gd_gmId (evalBmca ts d) = gd_gmId d" "gmState (evalBmca ts d) = gmState d"
  "gd_num (evalBmca ts d) = gd_num d" "lastSync (evalBmca ts d) = lastSync d"
  "lastAnnounce (evalBmca ts d) = lastAnnounce d" "gd_announceIntervalS (evalBmca ts d) = gd_announceIntervalS d"
  "syncIntervalS (evalBmca ts d) = syncIntervalS d" "syncSender (evalBmca ts d) = syncSender d"
  "syncSenderGm (evalBmca ts d) = syncSenderGm d"
  by (simp_all add: evalBmca_def Let_def)

lemma evalBmca_expected:
  "haveExpectedVec (evalBmca ts d) = (announcers (evalBmca ts d) \<noteq> [])"
  "haveExpectedVec (evalBmca ts d) \<Longrightarrow> expectedVec (evalBmca ts d) \<in> snd ` set (announcers (evalBmca ts d))"
  "haveExpectedVec (evalBmca ts d) \<Longrightarrow> a \<in> snd ` set (announcers (evalBmca ts d)) \<Longrightarrow>
     \<not> betterThan a (expectedVec (evalBmca ts d))"
  "haveExpectedVec (evalBmca ts d) \<Longrightarrow> expectedGm (evalBmca ts d) = av_gmId (expectedVec (evalBmca ts d))"
proof -
  let ?as = "filter (\<lambda>(_, a). \<not> aged ts a) (announcers d)"
  have h: "haveExpectedVec (evalBmca ts d) = (bestVec ?as \<noteq> None)"
    by (simp add: evalBmca_def Let_def)
  have e: "bestVec ?as = Some b \<Longrightarrow> expectedVec (evalBmca ts d) = b \<and> expectedGm (evalBmca ts d) = av_gmId b" for b
    by (simp add: evalBmca_def Let_def)
  show "haveExpectedVec (evalBmca ts d) = (announcers (evalBmca ts d) \<noteq> [])"
    using h bestVec_None by simp
  assume "haveExpectedVec (evalBmca ts d)"
  then obtain b where b: "bestVec ?as = Some b" using h by auto
  show "expectedVec (evalBmca ts d) \<in> snd ` set (announcers (evalBmca ts d))"
    and "expectedGm (evalBmca ts d) = av_gmId (expectedVec (evalBmca ts d))"
    using bestVec_min(1) [OF b] e [OF b] by simp_all
  show "a \<in> snd ` set (announcers (evalBmca ts d)) \<Longrightarrow> \<not> betterThan a (expectedVec (evalBmca ts d))"
    using bestVec_min(2) [OF b] e [OF b] by simp
qed

section \<open>Keys\<close>

text \<open>Two clocks that differ in the top 16 bits of their identity share a port entry.\<close>

lemma portKey_low: "portKey clockId portNum = portKey (clockId AND mask 48) portNum"
  unfolding portKey_def by (rule bit_word_eqI) (auto simp: bit_simps)

section \<open>Invariant of a port\<close>

text \<open>\<open>AS_CAPABLE\<close> is given up at the third exchange lost in a row.\<close>

definition port_ok :: "port \<Rightarrow> bool" where
  "port_ok p \<longleftrightarrow> asCapable p \<in> {'''', ''AS_CAPABLE'', ''NOT_AS_CAPABLE''} \<and>
     (asCapable p = ''AS_CAPABLE'' \<longrightarrow> consecutiveLost p < kAllowedLostResponses) \<and>
     length (pt_hist p) \<le> kMaxHist"

text \<open>Only three fields matter to it.\<close>

lemma port_ok_frame [simp]:
  "port_ok (p\<lparr>pt_clockId := x0\<rparr>) = port_ok p"
  "port_ok (p\<lparr>pt_portNum := x1\<rparr>) = port_ok p"
  "port_ok (p\<lparr>pt_srcMac := x2\<rparr>) = port_ok p"
  "port_ok (p\<lparr>pt_domain := x3\<rparr>) = port_ok p"
  "port_ok (p\<lparr>role := x4\<rparr>) = port_ok p"
  "port_ok (p\<lparr>syncSent := x5\<rparr>) = port_ok p"
  "port_ok (p\<lparr>announceSent := x6\<rparr>) = port_ok p"
  "port_ok (p\<lparr>signalingSent := x7\<rparr>) = port_ok p"
  "port_ok (p\<lparr>pdelayInitiated := x8\<rparr>) = port_ok p"
  "port_ok (p\<lparr>pdelayComplete := x9\<rparr>) = port_ok p"
  "port_ok (p\<lparr>pdelayLostCount := x10\<rparr>) = port_ok p"
  "port_ok (p\<lparr>reqIntervalS := x11\<rparr>) = port_ok p"
  "port_ok (p\<lparr>lastSyncSentTs := x12\<rparr>) = port_ok p"
  "port_ok (p\<lparr>lastTurnaroundUs := x13\<rparr>) = port_ok p"
  "port_ok (p\<lparr>lastObservedGapMs := x14\<rparr>) = port_ok p"
  "port_ok (p\<lparr>mdReqState := x15\<rparr>) = port_ok p"
  "port_ok (p\<lparr>mdRespState := x16\<rparr>) = port_ok p"
  "port_ok (p\<lparr>mdResets := x17\<rparr>) = port_ok p"
  "port_ok (p\<lparr>mdSyncSendState := x18\<rparr>) = port_ok p"
  "port_ok (p\<lparr>pendingFuSeq := x19\<rparr>) = port_ok p"
  "port_ok (p\<lparr>announceState := x20\<rparr>) = port_ok p"
  "port_ok (p\<lparr>lastAnnounceTs := x21\<rparr>) = port_ok p"
  "port_ok (p\<lparr>pt_announceIntervalS := x22\<rparr>) = port_ok p"
  "port_ok (p\<lparr>gptpCapable := x23\<rparr>) = port_ok p"
  "port_ok (p\<lparr>lastCapableTs := x24\<rparr>) = port_ok p"
  "port_ok (p\<lparr>capableIntervalS := x25\<rparr>) = port_ok p"
  "port_ok (p\<lparr>reqIntervalsSeen := x26\<rparr>) = port_ok p"
  "port_ok (p\<lparr>reqLinkDelay := x27\<rparr>) = port_ok p"
  "port_ok (p\<lparr>reqTimeSync := x28\<rparr>) = port_ok p"
  "port_ok (p\<lparr>reqAnnounce := x29\<rparr>) = port_ok p"
  by (simp_all add: port_ok_def)

lemma portTransition_sel [simp]:
  "consecutiveLost (fst (portTransition sh fld ts n e to why po)) = consecutiveLost (fst po)"
  "fld \<noteq> AsCapable \<Longrightarrow> asCapable (fst (portTransition sh fld ts n e to why po)) = asCapable (fst po)"
  "pt_clockId (fst (portTransition sh fld ts n e to why po)) = pt_clockId (fst po)"
  "pt_portNum (fst (portTransition sh fld ts n e to why po)) = pt_portNum (fst po)"
  "length (pt_hist (fst po)) \<le> kMaxHist \<Longrightarrow> length (pt_hist (fst (portTransition sh fld ts n e to why po))) \<le> kMaxHist"
  by (cases po; cases fld; simp add: portTransition_def Let_def push_cap_len)+

lemma portTransition_field:
  "field_get fld (fst (portTransition sh fld ts n e to why po)) = to \<or>
   field_get fld (fst (portTransition sh fld ts n e to why po)) = '''' \<and> e = to"
  by (cases po; cases fld; simp add: portTransition_def Let_def)

lemma port_ok_transition:
  assumes "port_ok (fst po)"
    and "fld = AsCapable \<Longrightarrow> to = ''NOT_AS_CAPABLE'' \<or>
      to = ''AS_CAPABLE'' \<and> consecutiveLost (fst po) < kAllowedLostResponses"
  shows "port_ok (fst (portTransition sh fld ts n e to why po))"
proof (cases "fld = AsCapable")
  case False
  with assms(1) show ?thesis by (simp add: port_ok_def)
next
  case True
  with assms(2) have "to \<in> {''AS_CAPABLE'', ''NOT_AS_CAPABLE''}" by auto
  moreover have "asCapable (fst (portTransition sh fld ts n e to why po)) \<in> {to, ''''}"
    using portTransition_field [of fld sh ts n e to why po] True by auto
  ultimately show ?thesis using assms True by (auto simp: port_ok_def)
qed

lemma portWarning_sel [simp]:
  "asCapable (fst (portWarning ts n why po)) = asCapable (fst po)"
  "consecutiveLost (fst (portWarning ts n why po)) = consecutiveLost (fst po)"
  "pt_clockId (fst (portWarning ts n why po)) = pt_clockId (fst po)"
  "pt_portNum (fst (portWarning ts n why po)) = pt_portNum (fst po)"
  "length (pt_hist (fst po)) \<le> kMaxHist \<Longrightarrow> length (pt_hist (fst (portWarning ts n why po))) \<le> kMaxHist"
  by (cases po; simp add: portWarning_def Let_def push_cap_len)+

lemma port_ok_warning: "port_ok (fst po) \<Longrightarrow> port_ok (fst (portWarning ts n why po))"
  by (simp add: port_ok_def)

lemma port_ok_lost: "port_ok (fst po) \<Longrightarrow> port_ok (fst (pdelayLost sh ts po))"
proof -
  assume ok: "port_ok (fst po)"
  obtain p0 out where po: "po = (p0, out)" by force
  let ?p = "p0\<lparr>pdelayLostCount := pdelayLostCount p0 + 1, consecutiveLost := consecutiveLost p0 + 1,
      mdReqState := ''RESET'', mdResets := mdResets p0 + 1\<rparr>"
  define w where "w = portWarning ts 0 (cat [''MDPdelayReq -> RESET (lostResponses '', u_str (consecutiveLost ?p),
      '' of '', u_str kAllowedLostResponses, '' allowed)'']) (?p, out)"
  have w: "asCapable (fst w) = asCapable p0" "consecutiveLost (fst w) = consecutiveLost p0 + 1"
    "length (pt_hist (fst w)) \<le> kMaxHist" "asCapable p0 \<in> {'''', ''AS_CAPABLE'', ''NOT_AS_CAPABLE''}"
    using ok by (auto simp: w_def po port_ok_def push_cap_len)
  have lost: "pdelayLost sh ts po = (if consecutiveLost p0 + 1 \<ge> kAllowedLostResponses
      then portTransition sh AsCapable ts 0 ''UNKNOWN'' ''NOT_AS_CAPABLE''
        (cat [u_str kAllowedLostResponses,
          '' consecutive Pdelay_Req without Resp/Resp_Follow_Up (allowedLostResponses)'']) w
      else w)"
    by (simp add: pdelayLost_def po w_def Let_def)
  show ?thesis
  proof (cases "consecutiveLost p0 + 1 \<ge> kAllowedLostResponses")
    case True
    have "asCapable (fst (portTransition sh AsCapable ts 0 ''UNKNOWN'' ''NOT_AS_CAPABLE'' why w)) = ''NOT_AS_CAPABLE''"
      for why using portTransition_field [of AsCapable sh ts 0 "''UNKNOWN''" "''NOT_AS_CAPABLE''" why w] by auto
    with True w show ?thesis by (simp add: lost port_ok_def)
  next
    case False
    with w show ?thesis by (simp add: lost port_ok_def not_le)
  qed
qed

lemma pdelayLost_sel [simp]: "pt_clockId (fst (pdelayLost sh ts po)) = pt_clockId (fst po)"
  "pt_portNum (fst (pdelayLost sh ts po)) = pt_portNum (fst po)"
  by (cases po; simp add: pdelayLost_def Let_def)+

section \<open>Invariant of the module\<close>

definition ports_ok :: "(u64, port) omap \<Rightarrow> bool" where
  "ports_ok ps \<longleftrightarrow> om_ok ps \<and> om_all (\<lambda>_ p. port_ok p) ps"

lemma port_ok_new [simp]: "port_ok Port"
  by (simp add: port_ok_def Port_def)

lemma ports_ok_at: "ports_ok ps \<Longrightarrow> port_ok (om_at Port ps k)"
  by (auto simp: ports_ok_def om_at_def dest: om_all_get split: option.splits)

lemma ports_ok_set: "ports_ok ps \<Longrightarrow> port_ok p \<Longrightarrow> ports_ok (om_set k p ps)"
  by (simp add: ports_ok_def om_all_set)

text \<open>The handlers, seen as steps on the ports alone.\<close>

definition keeps_ports :: "(gst \<Rightarrow> gst) \<Rightarrow> bool" where
  "keeps_ports f \<longleftrightarrow> (\<forall>st. ports_ok (mPorts (fst st)) \<longrightarrow> ports_ok (mPorts (fst (f st))))"

lemma keeps_on_dom [simp]: "ports_ok (mPorts (fst (on_dom num f st))) = ports_ok (mPorts (fst st))"
  by (cases st) (simp add: on_dom_def case_prod_beta)

lemma ports_on_dom [simp]: "mPorts (fst (on_dom num f st)) = mPorts (fst st)"
  by (cases st) (simp add: on_dom_def case_prod_beta)

lemma ports_apfst [simp]: "mPorts (fst (apfst (\<lambda>g. g\<lparr>mExchanges := f g\<rparr>) st)) = mPorts (fst st)"
  by (cases st) simp

lemma on_port_ok:
  assumes "ports_ok (mPorts (fst st))" and "\<And>sh po. port_ok (fst po) \<Longrightarrow> port_ok (fst (f sh po))"
  shows "ports_ok (mPorts (fst (on_port k f st)))"
  using assms by (cases st) (simp add: on_port_def case_prod_beta ports_ok_set ports_ok_at)

lemma set_port_ok:
  assumes "ports_ok (mPorts (fst st))" and "\<And>p. port_ok p \<Longrightarrow> port_ok (f p)"
  shows "ports_ok (mPorts (fst (set_port k f st)))"
  unfolding set_port_def using assms by (intro on_port_ok) (auto split: prod.splits)

lemma each_port_ok:
  assumes "ports_ok (mPorts (fst st))" and "\<And>k po. port_ok (fst po) \<Longrightarrow> port_ok (fst (f k po))"
  shows "ports_ok (mPorts (fst (each_port f st)))"
  using assms by (cases st) (auto simp: each_port_def case_prod_beta ports_ok_def intro!: om_all_iter)

lemma getPort_ok: "ports_ok (mPorts (fst st)) \<Longrightarrow> ports_ok (mPorts (fst (getPort c n st)))"
  unfolding getPort_def by (rule set_port_ok) (auto simp: port_ok_def)

lemma becomeSlave_ok: "port_ok (fst po) \<Longrightarrow> port_ok (fst (becomeSlave sh self dm ts n master k po))"
  by (cases po) (auto simp: becomeSlave_def intro!: port_ok_transition)

lemma demote_ok: "port_ok (fst po) \<Longrightarrow> port_ok (fst (demote sh self dm ts n iv by k po))"
  by (cases po) (auto simp: demote_def intro!: port_ok_transition)

lemma becomeMaster_ok: "ports_ok (mPorts (fst st)) \<Longrightarrow> ports_ok (mPorts (fst (becomeMaster pk dm ts n why st)))"
  unfolding becomeMaster_def Let_def
  by (intro each_port_ok on_port_ok becomeSlave_ok port_ok_transition) auto

lemma onSync_ok: "ports_ok (mPorts (fst st)) \<Longrightarrow> ports_ok (mPorts (fst (onSync v ts n dm pk st)))"
  unfolding onSync_def Let_def keeps_on_dom
  by (intro set_port_ok) (auto simp: port_ok_def sync_port_def intro!: each_port_ok demote_ok becomeMaster_ok set_port_ok)

lemma onSignaling_ok: "port_ok (fst po) \<Longrightarrow> port_ok (fst (onSignaling v ts n sh po))"
proof -
  assume ok: "port_ok (fst po)"
  obtain p out where po: "po = (p, out)" by force
  let ?p = "p\<lparr>signalingSent := signalingSent p + 1\<rparr>"
  let ?q = "?p\<lparr>lastCapableTs := ts, capableIntervalS := intervalFromLog (ctx_at v ''gptp_capable_interval'') 1\<rparr>"
  have base: "port_ok ?p" "port_ok ?q" using ok by (simp_all add: po port_ok_def)
  have upd: "port_ok (r\<lparr>reqIntervalsSeen := a, reqLinkDelay := b, reqTimeSync := c, reqAnnounce := d\<rparr>) = port_ok r"
    for r a b c d by (simp add: port_ok_def)
  have tr: "port_ok (fst (portTransition sh GptpCapable ts n ''UNKNOWN'' ''GPTP_CAPABLE'' why (?q, out)))" for why
    using base by (intro port_ok_transition) simp_all
  show ?thesis
    using base tr unfolding onSignaling_def po split_conv Let_def case_prod_beta by (simp add: upd)
qed

lemma announce_port_ok: "port_ok (fst po) \<Longrightarrow> port_ok (fst (announce_port ts n sh po))"
  by (cases po) (auto simp: announce_port_def Let_def intro!: port_ok_transition)

lemma onAnnounce_ok: "ports_ok (mPorts (fst st)) \<Longrightarrow> ports_ok (mPorts (fst (onAnnounce v ts n dm pk st)))"
  unfolding onAnnounce_def Let_def keeps_on_dom
  by (intro on_port_ok announce_port_ok) (auto intro!: becomeMaster_ok set_port_ok)

lemma onFollowUp_ok: "ports_ok (mPorts (fst st)) \<Longrightarrow> ports_ok (mPorts (fst (onFollowUp v ts n dm pk st)))"
  unfolding onFollowUp_def keeps_on_dom by (intro set_port_ok) (auto simp: port_ok_def)

lemma onPdelayReq_ok: "ports_ok (mPorts (fst st)) \<Longrightarrow> ports_ok (mPorts (fst (onPdelayReq v ts pk st)))"
  unfolding onPdelayReq_def Let_def ports_apfst
  by (intro set_port_ok) (auto intro!: set_port_ok on_port_ok port_ok_lost)

lemma responder_state_ok: "ports_ok (mPorts (fst st)) \<Longrightarrow> ports_ok (mPorts (fst (responder_state v s st)))"
  unfolding responder_state_def by (intro set_port_ok getPort_ok) (auto simp: port_ok_def)

lemma onPdelayResp_ok:
  assumes "ports_ok (mPorts (fst st))"
  shows "ports_ok (mPorts (fst (onPdelayResp v ts st)))"
proof -
  have "ports_ok (mPorts (fst (if_port k (\<lambda>p. p\<lparr>mdReqState := s\<rparr>) (responder_state v s' st))))" for k s s'
    using assms by (auto simp: if_port_def port_ok_def intro!: set_port_ok responder_state_ok)
  then show ?thesis
    using responder_state_ok [OF assms] unfolding onPdelayResp_def Let_def
    by (auto split: option.splits)
qed

lemma complete_exchange_ok: "port_ok (fst po) \<Longrightarrow> port_ok (fst (complete_exchange v ts n x sh po))"
  unfolding complete_exchange_def case_prod_beta
  by (rule port_ok_transition) (simp_all add: port_ok_def kAllowedLostResponses_def)

lemma onPdelayRespFu_ok:
  assumes "ports_ok (mPorts (fst st))"
  shows "ports_ok (mPorts (fst (onPdelayRespFu v ts n st)))"
proof -
  note r = responder_state_ok [OF assms, of v "''WAITING_FOR_PDELAY_REQ''"]
  have c: "ports_ok (mPorts (fst (on_port k (complete_exchange v ts n x) (responder_state v ''WAITING_FOR_PDELAY_REQ'' st))))"
    for k x using r by (intro on_port_ok complete_exchange_ok)
  have "ports_ok (mPorts (fst (on_port k' (\<lambda>sh. portWarning ts n why)
      (on_port k (complete_exchange v ts n x) (responder_state v ''WAITING_FOR_PDELAY_REQ'' st)))))" for k k' x why
    by (intro on_port_ok c port_ok_warning)
  with r c show ?thesis
    unfolding onPdelayRespFu_def Let_def by (simp split: option.splits)
qed

lemma gptp_ports_onDecode [inv_intros]:
  assumes "ports_ok (mPorts (fst st))"
  shows "ports_ok (mPorts (fst (gptp_onDecode v st)))"
proof -
  have "ports_ok (mPorts (fst (set_port (srcKeyOf v) (\<lambda>p. let p1 = p\<lparr>pt_srcMac := ctx_at v ''src_mac''\<rparr>
      in if ctx_at v ''transport_specific'' = 2 then p1 else p1\<lparr>pt_domain := ucast (ctx_at v ''domain_number'')\<rparr>)
      (getPort (ctx_at v ''source_clock_id'') (ucast (ctx_at v ''source_port_number'')) st))))"
    using assms by (intro set_port_ok getPort_ok) (auto simp: port_ok_def Let_def)
  then show ?thesis
    unfolding gptp_onDecode_def Let_def
    by (auto intro!: onSync_ok onFollowUp_ok onPdelayReq_ok onPdelayResp_ok onPdelayRespFu_ok onAnnounce_ok
        on_port_ok onSignaling_ok)
qed

section \<open>Time\<close>

lemma port_tick_ok: "port_ok (fst po) \<Longrightarrow> port_ok (fst (port_tick sh ts po))"
  by (cases po) (auto simp: port_tick_def Let_def intro!: port_ok_transition)

lemma exchange_tick_ports:
  "ports_ok (fst s) \<Longrightarrow> ports_ok (fst (snd (exchange_tick sh ts k x s)))"
proof -
  assume ok: "ports_ok (fst s)"
  obtain ps out where s: "s = (ps, out)" by force
  show ?thesis
  proof (cases "om_get ps k")
    case (Some p)
    then have "port_ok p" using ok s by (auto simp: ports_ok_def dest: om_all_get)
    with ok Some s show ?thesis
      by (simp add: exchange_tick_def Let_def case_prod_beta ports_ok_set port_ok_lost)
  qed (use ok s in \<open>simp add: exchange_tick_def Let_def\<close>)
qed

definition xc_limit :: "port option \<Rightarrow> double" where
  "xc_limit pIt = (case pIt of Some p \<Rightarrow> max (reqIntervalS p) 1 | None \<Rightarrow> 1)"

lemma sweep_exchanges_ports:
  "ports_ok (fst s) \<Longrightarrow> ports_ok (fst (snd (om_sweep (exchange_tick sh ts) m s)))"
proof (induction m arbitrary: s)
  case (Cons kv m)
  obtain k x where kv: "kv = (k, x)" by force
  show ?case using Cons.IH [OF exchange_tick_ports [OF Cons.prems, of sh ts k x]]
    by (simp add: kv Let_def case_prod_beta)
qed simp

lemma gptp_ports_onTimeTick [inv_intros]:
  assumes "ports_ok (mPorts (fst st))"
  shows "ports_ok (mPorts (fst (gptp_onTimeTick ts st)))"
proof -
  obtain g0 sh0 where st: "st = (g0, sh0)" by force
  obtain ds sh out where d: "om_iter (dom_tick ts) (gp_domains g0) (sh0, gp_pending g0) = (ds, (sh, out))"
    by (metis prod.collapse)
  obtain g1 sh1 where g1: "each_port (\<lambda>_. port_tick sh ts) (g0\<lparr>gp_domains := ds, gp_pending := out\<rparr>, sh) = (g1, sh1)"
    by force
  have "ports_ok (mPorts (fst (g1, sh1)))"
    unfolding g1 [symmetric] using assms st by (intro each_port_ok port_tick_ok) simp_all
  then have "ports_ok (fst (snd (om_sweep (exchange_tick sh ts) (mExchanges g1) (mPorts g1, gp_pending g1))))"
    by (intro sweep_exchanges_ports) simp
  then show ?thesis
    by (simp add: st gptp_onTimeTick_def d g1 case_prod_beta)
qed

text \<open>What a tick at \<open>ts\<close> leaves of a domain: no overdue sync, no overdue grandmaster.\<close>

definition dom_current :: "double \<Rightarrow> gdomain \<Rightarrow> bool" where
  "dom_current ts d \<longleftrightarrow>
     (gd_sync d = ''HEALTHY'' \<longrightarrow> ts \<le> lastSync d + 3 * syncIntervalS d) \<and>
     (gmState d = ''GM_PRESENT'' \<longrightarrow> ts \<le> lastAnnounce d + 3 * gd_announceIntervalS d) \<and>
     om_all (\<lambda>_ a. \<not> aged ts a) (announcers d)"

lemma emitDom_fst: "fst (emitDom ts n from to why (d, o0)) =
    d\<lparr>gd_hist := push_cap kMaxHist (HistEntry ts n from to why) (gd_hist d)\<rparr>"
  by (simp add: emitDom_def case_prod_beta)

lemma syncTransition_fst: "fst (syncTransition ts n to why (d, o0)) =
    (if (if gd_sync d = [] then ''SYNC_UNKNOWN'' else ''SYNC_'' @ gd_sync d) = ''SYNC_'' @ to then d
     else d\<lparr>gd_sync := to, gd_hist := push_cap kMaxHist (HistEntry ts n
        (if gd_sync d = [] then ''SYNC_UNKNOWN'' else ''SYNC_'' @ gd_sync d) (''SYNC_'' @ to) why) (gd_hist d)\<rparr>)"
  by (cases o0) (simp add: syncTransition_def Let_def case_prod_beta emitDom_fst)

lemma domTransition_fst: "fst (domTransition ts n to why (d, o0)) =
    (if (if gmState d = [] then ''NO_GM'' else gmState d) = to then d
     else d\<lparr>gmState := to, gd_hist := push_cap kMaxHist (HistEntry ts n
        (if gmState d = [] then ''NO_GM'' else gmState d) to why) (gd_hist d)\<rparr>)"
  by (cases o0) (simp add: domTransition_def Let_def case_prod_beta emitDom_fst)

lemma dom_tick_current: "dom_current ts (fst (dom_tick ts num d o0))"
proof -
  obtain d1 o1 where r: "dom_sync_tick ts (d, o0) = (d1, o1)" by (metis prod.collapse)
  have d1: "gd_sync d1 = ''HEALTHY'' \<Longrightarrow> ts \<le> lastSync d1 + 3 * syncIntervalS d1"
  proof -
    have "d1 = (if gd_sync d = ''HEALTHY'' \<and> ts > lastSync d + 3 * syncIntervalS d
        then fst (dom_sync_tick ts (d, o0)) else d)"
      using r by (cases o0) (auto simp: dom_sync_tick_def Let_def kSyncReceiptTimeoutN_def)
    moreover have "gd_sync (fst (dom_sync_tick ts (d, o0))) = ''LOST''"
      if "gd_sync d = ''HEALTHY'' \<and> ts > lastSync d + 3 * syncIntervalS d"
      using that by (cases o0) (simp add: dom_sync_tick_def Let_def kSyncReceiptTimeoutN_def syncTransition_fst)
    ultimately show "gd_sync d1 = ''HEALTHY'' \<Longrightarrow> ts \<le> lastSync d1 + 3 * syncIntervalS d1"
      by (auto split: if_splits)
  qed
  have sel: "fst (dom_gm_tick ts (evalBmca ts d1, o1)) = (let e = evalBmca ts d1 in
      if gmState e = ''GM_PRESENT'' \<and> ts > lastAnnounce e + 3 * gd_announceIntervalS e
      then fst (domTransition ts 0 ''GM_TIMED_OUT''
         (cat [''no Announce within announceReceiptTimeout ('', nat_str kAnnounceReceiptTimeoutN, '' '',
           times_sign, '' '', fmtGap (gd_announceIntervalS e), '')'']) (e, o1)) else e)"
    by (cases o1) (simp add: dom_gm_tick_def Let_def kAnnounceReceiptTimeoutN_def)
  show ?thesis
    using d1 by (simp add: dom_tick_def r dom_current_def sel Let_def domTransition_fst om_all_def not_less)
qed

lemma gptp_tick_domains:
  "om_all (\<lambda>_ d. dom_current ts d) (gp_domains (fst (gptp_onTimeTick ts st)))"
proof -
  obtain g0 sh0 where st: "st = (g0, sh0)" by force
  have "gp_domains (fst (gptp_onTimeTick ts st)) = fst (om_iter (dom_tick ts) (gp_domains g0) (sh0, gp_pending g0))"
    by (simp add: st gptp_onTimeTick_def case_prod_beta each_port_def)
  then show ?thesis
    using om_all_iter [of "\<lambda>_ _. True" "gp_domains g0" "\<lambda>_ d. dom_current ts d" "dom_tick ts" "(sh0, gp_pending g0)"]
    by (simp add: dom_tick_current) (simp add: om_all_def)
qed

end
