(* ===== verification/Gptp_Publish.thy ===== *)
theory Gptp_Publish
  imports Gptp_Proofs
begin

text \<open>
  What the gPTP module publishes for the others: \<open>gptpDomains\<close>, per domain the observed
  grandmaster and the sync state.  The lemmas show that a frame or a tick writes nothing
  else of the shared model, that the published truth of every domain follows the domain
  after each call, and that the module fits the interface of the engine.
\<close>

section \<open>Only the domain truths are written\<close>

definition except_gptp :: "shared \<Rightarrow> shared" where
  "except_gptp s = s\<lparr>gptpDomains := []\<rparr>"

abbreviation foreign_of :: "shared option \<Rightarrow> shared option" where
  "foreign_of sh \<equiv> map_option except_gptp sh"

lemma publish_foreign [simp]: "foreign_of (publish d sh) = foreign_of sh"
  by (cases sh) (simp_all add: publish_def except_gptp_def Let_def)

lemma dom_step_foreign [simp]:
  "foreign_of (fst (snd (emitDom ts n from to why o0))) = foreign_of (fst (snd o0))"
  "foreign_of (fst (snd (domTransition ts n to why o0))) = foreign_of (fst (snd o0))"
  "foreign_of (fst (snd (syncTransition ts n to why o0))) = foreign_of (fst (snd o0))"
  by (simp_all add: emitDom_def domTransition_def syncTransition_def Let_def case_prod_beta)

lemma on_dom_foreign:
  "(\<And>o0. foreign_of (fst (snd (f o0))) = foreign_of (fst (snd o0))) \<Longrightarrow>
   foreign_of (snd (on_dom num f st)) = foreign_of (snd st)"
  by (simp add: on_dom_def case_prod_beta)

lemma port_step_shared [simp]: "snd (on_port k f st) = snd st" "snd (set_port k f' st) = snd st"
  "snd (each_port f'' st) = snd st" "snd (getPort c p st) = snd st" "snd (apfst g st) = snd st"
  "snd (becomeMaster pk dm ts n why st) = snd st" "snd (if_port k f' st) = snd st"
  "snd (responder_state v s st) = snd st"
  by (simp_all add: on_port_def set_port_def each_port_def getPort_def becomeMaster_def if_port_def
      responder_state_def Let_def case_prod_beta)

lemma handler_foreign:
  "foreign_of (fst (snd (sync_state v ts n o0))) = foreign_of (fst (snd o0))"
  "foreign_of (fst (snd (sync_bmca ts sender o0))) = foreign_of (fst (snd o0))"
  "foreign_of (fst (snd (followUp_dom v ts n o0))) = foreign_of (fst (snd o0))"
  "foreign_of (fst (snd (announce_gm v ts n since o0))) = foreign_of (fst (snd o0))"
  "foreign_of (fst (snd (announce_bmca v ts iv p o0))) = foreign_of (fst (snd o0))"
  by (simp_all add: sync_state_def sync_bmca_def followUp_dom_def announce_gm_def announce_bmca_def
      Let_def case_prod_beta)

lemma onSync_foreign: "foreign_of (snd (onSync v ts n dm pk st)) = foreign_of (snd st)"
  by (simp add: onSync_def Let_def on_dom_foreign handler_foreign case_prod_beta)

lemma onFollowUp_foreign: "foreign_of (snd (onFollowUp v ts n dm pk st)) = foreign_of (snd st)"
  by (simp add: onFollowUp_def on_dom_foreign handler_foreign)

lemma onAnnounce_foreign: "foreign_of (snd (onAnnounce v ts n dm pk st)) = foreign_of (snd st)"
  by (simp add: onAnnounce_def Let_def on_dom_foreign handler_foreign case_prod_beta)

lemma pdelay_shared [simp]: "snd (onPdelayReq v ts pk st) = snd st" "snd (onPdelayResp v ts st) = snd st"
  "snd (onPdelayRespFu v ts n st) = snd st"
  by (simp_all add: onPdelayReq_def onPdelayResp_def onPdelayRespFu_def Let_def split: option.split)

lemma gptp_onDecode_foreign: "foreign_of (snd (gptp_onDecode v st)) = foreign_of (snd st)"
  by (simp add: gptp_onDecode_def Let_def onSync_foreign onFollowUp_foreign onAnnounce_foreign)

lemma dom_tick_foreign [simp]: "foreign_of (fst (snd (dom_tick ts num d o0))) = foreign_of (fst o0)"
  by (cases o0) (simp add: dom_tick_def dom_sync_tick_def dom_gm_tick_def Let_def case_prod_beta)

lemma gptp_tick_foreign: "foreign_of (snd (gptp_onTimeTick ts st)) = foreign_of (snd st)"
proof -
  let ?it = "om_iter (dom_tick ts) (gp_domains (fst st)) (snd st, gp_pending (fst st))"
  have it: "foreign_of (fst (snd ?it)) = foreign_of (fst (snd st, gp_pending (fst st)))"
    by (rule om_iter_state [where I = "\<lambda>o0. foreign_of (fst o0) = foreign_of (fst (snd st, gp_pending (fst st)))"])
      simp_all
  show ?thesis using it by (simp add: gptp_onTimeTick_def case_prod_beta)
qed

section \<open>The published truth follows the domain\<close>

definition truth :: "shared option \<Rightarrow> u8 \<Rightarrow> gptp_truth option" where
  "truth sh k = (case sh of None \<Rightarrow> None | Some s \<Rightarrow> om_get (gptpDomains s) k)"

text \<open>A known grandmaster and a decided sync state are what the others read.\<close>

definition told :: "gdomain \<Rightarrow> gptp_truth option \<Rightarrow> bool" where
  "told d t \<longleftrightarrow>
     (gd_gmId d \<noteq> 0 \<longrightarrow> (\<exists>x. t = Some x \<and> gmKnown x \<and> gmIdentity x = gd_gmId d)) \<and>
     (gd_sync d = ''HEALTHY'' \<longrightarrow> (\<exists>x. t = Some x \<and> syncState x = 1)) \<and>
     (gd_sync d = ''LOST'' \<longrightarrow> (\<exists>x. t = Some x \<and> syncState x = 2))"

lemma told_frame: "gd_gmId d' = gd_gmId d \<Longrightarrow> gd_sync d' = gd_sync d \<Longrightarrow> told d' t = told d t"
  by (simp add: told_def)

lemma told_new [simp]: "told (Domain\<lparr>gd_num := k\<rparr>) t"
  by (simp add: told_def Domain_def)

lemma told_publish: "sh \<noteq> None \<Longrightarrow> told d (truth (publish d sh) (gd_num d))"
  by (cases sh) (simp_all add: told_def truth_def publish_def Let_def om_simps)

lemma truth_publish_other: "k \<noteq> gd_num d \<Longrightarrow> truth (publish d sh) k = truth sh k"
  by (cases sh) (simp_all add: truth_def publish_def Let_def om_simps)

lemma publish_None [simp]: "(publish d sh = None) = (sh = None)" "(\<exists>s. publish d sh = Some s) = (\<exists>s. sh = Some s)"
  by (simp_all add: publish_def)

text \<open>
  A step of one domain: it keeps the number and the truths of the other domains; it
  \<open>tells\<close> when it leaves the domain published, and \<open>retells\<close> when it leaves a published
  domain published.
\<close>

definition local :: "(dom_out \<Rightarrow> dom_out) \<Rightarrow> bool" where
  "local f \<longleftrightarrow> (\<forall>o0. gd_num (fst (f o0)) = gd_num (fst o0) \<and>
     (fst (snd (f o0)) = None) = (fst (snd o0) = None) \<and>
     (\<forall>k. k \<noteq> gd_num (fst o0) \<longrightarrow> truth (fst (snd (f o0))) k = truth (fst (snd o0)) k))"

definition tells :: "(dom_out \<Rightarrow> dom_out) \<Rightarrow> bool" where
  "tells f \<longleftrightarrow> (\<forall>o0. fst (snd o0) \<noteq> None \<longrightarrow> told (fst (f o0)) (truth (fst (snd (f o0))) (gd_num (fst o0))))"

definition retells :: "(dom_out \<Rightarrow> dom_out) \<Rightarrow> bool" where
  "retells f \<longleftrightarrow> (\<forall>o0. fst (snd o0) \<noteq> None \<longrightarrow> told (fst o0) (truth (fst (snd o0)) (gd_num (fst o0))) \<longrightarrow>
     told (fst (f o0)) (truth (fst (snd (f o0))) (gd_num (fst o0))))"

lemma domain_num [simp]: "gd_num (evalBmca ts d) = gd_num d" "gd_num (setGmAttrs v d) = gd_num d"
  "gd_num (sync_count v ts pk d) = gd_num d" "gd_num (sync_pending v ts d) = gd_num d"
  by (simp_all add: setGmAttrs_def sync_count_def sync_pending_def Let_def)

lemma emitDom_sel [simp]: "gd_num (fst (emitDom ts n from to why o0)) = gd_num (fst o0)"
  "gd_gmId (fst (emitDom ts n from to why o0)) = gd_gmId (fst o0)"
  "gd_sync (fst (emitDom ts n from to why o0)) = gd_sync (fst o0)"
  "fst (snd (emitDom ts n from to why o0)) = fst (snd o0)"
  by (simp_all add: emitDom_def case_prod_beta)

lemma transition_local: "local (domTransition ts n to why)" "local (syncTransition ts n to why)"
  by (simp_all add: local_def domTransition_def syncTransition_def Let_def case_prod_beta truth_publish_other)

lemma localD:
  assumes "local f"
  shows "gd_num (fst (f o0)) = gd_num (fst o0)" and "(fst (snd (f o0)) = None) = (fst (snd o0) = None)"
    and "k \<noteq> gd_num (fst o0) \<Longrightarrow> truth (fst (snd (f o0))) k = truth (fst (snd o0)) k"
  using assms unfolding local_def by blast+

lemma told_published [simp]: "sh \<noteq> None \<Longrightarrow> gd_num d = k \<Longrightarrow> told d (truth (publish d sh) k)"
  using told_publish by blast

lemma transition_retells: "retells (domTransition ts n to why)" "retells (syncTransition ts n to why)"
  by (auto simp: retells_def domTransition_def syncTransition_def Let_def case_prod_beta)

lemma tellsD: "tells f \<Longrightarrow> sh \<noteq> None \<Longrightarrow> told (fst (f (d, sh, out))) (truth (fst (snd (f (d, sh, out)))) (gd_num d))"
  unfolding tells_def by (drule spec [of _ "(d, sh, out)"]) simp

lemma retellsD: "retells f \<Longrightarrow> sh \<noteq> None \<Longrightarrow> told d (truth sh (gd_num d)) \<Longrightarrow>
    told (fst (f (d, sh, out))) (truth (fst (snd (f (d, sh, out)))) (gd_num d))"
  unfolding retells_def by (drule spec [of _ "(d, sh, out)"]) simp

lemma pure_local: "(\<And>d. gd_num (g d) = gd_num d) \<Longrightarrow> local (\<lambda>(d, sh, out). (g d, sh, out))"
  by (simp add: local_def)

lemma pure_retells:
  "(\<And>d. gd_gmId (g d) = gd_gmId d) \<Longrightarrow> (\<And>d. gd_sync (g d) = gd_sync d) \<Longrightarrow>
   retells (\<lambda>(d, sh, out). (g d, sh, out))"
  by (simp add: retells_def told_def)

lemma sync_state_ok: "local (sync_state v ts n)" "retells (sync_state v ts n)"
  using transition_local(2) transition_retells(2)
  by (auto simp: local_def retells_def sync_state_def)

lemma sync_bmca_ok: "local (sync_bmca ts sender)" "tells (sync_bmca ts sender)"
  by (simp_all add: local_def tells_def sync_bmca_def Let_def case_prod_beta truth_publish_other)

lemma announce_gm_local: "local (announce_gm v ts n since)"
  using transition_local(1)
  by (auto simp: local_def announce_gm_def Let_def)

lemma announce_bmca_ok: "local (announce_bmca v ts iv p)" "tells (announce_bmca v ts iv p)"
  by (simp_all add: local_def tells_def announce_bmca_def Let_def case_prod_beta truth_publish_other)

lemma followUp_ok: "local (followUp_dom v ts n)" "retells (followUp_dom v ts n)"
  by (auto simp: local_def retells_def followUp_dom_def Let_def case_prod_beta told_def)

text \<open>All domains of the module but some are told.\<close>

definition told_but :: "u8 set \<Rightarrow> gst \<Rightarrow> bool" where
  "told_but X st \<longleftrightarrow> om_ok (gp_domains (fst st)) \<and>
     om_all (\<lambda>k d. gd_num d = k \<and> (k \<notin> X \<longrightarrow> told d (truth (snd st) k))) (gp_domains (fst st))"

lemma told_but_mono: "told_but X st \<Longrightarrow> X \<subseteq> Y \<Longrightarrow> told_but Y st"
  by (auto simp: told_but_def om_all_def)

lemma getDomain_num [simp]: "gd_num (getDomain k g) = k"
  by (simp add: getDomain_def)

lemma getDomain_told:
  assumes "told_but X st" and "k \<notin> X"
  shows "told (getDomain k (fst st)) (truth (snd st) k)"
proof (cases "om_get (gp_domains (fst st)) k")
  case None
  then show ?thesis by (simp add: getDomain_def om_at_def)
next
  case (Some d)
  then have "(k, d) \<in> set (gp_domains (fst st))" by (rule map_of_SomeD)
  then have "told d (truth (snd st) k)" using assms by (auto simp: told_but_def om_all_def)
  then show ?thesis using Some by (simp add: getDomain_def om_at_def told_def)
qed

lemma on_dom_run:
  obtains d sh out where "f (getDomain k (fst st), snd st, gp_pending (fst st)) = (d, sh, out)"
    and "gp_domains (fst (on_dom k f st)) = om_set k d (gp_domains (fst st))" and "snd (on_dom k f st) = sh"
  by (cases "f (getDomain k (fst st), snd st, gp_pending (fst st))") (simp add: on_dom_def case_prod_beta)

lemma told_on_dom:
  assumes f: "local f" and X: "told_but X st"
    and here: "k \<notin> X \<Longrightarrow> told (fst (f (getDomain k (fst st), snd st, gp_pending (fst st))))
                   (truth (fst (snd (f (getDomain k (fst st), snd st, gp_pending (fst st))))) k)"
  shows "told_but X (on_dom k f st)"
proof -
  obtain d sh out where run: "f (getDomain k (fst st), snd st, gp_pending (fst st)) = (d, sh, out)"
    and ds: "gp_domains (fst (on_dom k f st)) = om_set k d (gp_domains (fst st))"
    and sh: "snd (on_dom k f st) = sh" by (rule on_dom_run)
  have num: "gd_num d = k" using localD(1) [OF f, of "(getDomain k (fst st), snd st, gp_pending (fst st))"] run by simp
  have other: "truth sh j = truth (snd st) j" if "j \<noteq> k" for j
    using localD(3) [OF f, of j "(getDomain k (fst st), snd st, gp_pending (fst st))"] run that by simp
  have ok: "om_ok (gp_domains (fst st))" using X by (simp add: told_but_def)
  have old: "gd_num u = j \<and> (j \<notin> X \<longrightarrow> told u (truth (snd st) j))" if "(j, u) \<in> set (gp_domains (fst st))" for j u
    using X that by (auto simp: told_but_def om_all_def)
  have "gd_num u = j \<and> (j \<notin> X \<longrightarrow> told u (truth sh j))" if "(j, u) \<in> set (om_set k d (gp_domains (fst st)))" for j u
  proof (cases "j = k")
    case True
    then show ?thesis using that here run num in_om_set [OF ok] by simp
  next
    case False
    then show ?thesis using that old [of j u] other [of j] in_om_set [OF ok] by simp
  qed
  then show ?thesis using ok unfolding told_but_def ds sh by (auto simp: om_all_def)
qed

lemma told_tells: "local f \<Longrightarrow> tells f \<Longrightarrow> snd st \<noteq> None \<Longrightarrow> told_but {k} st \<Longrightarrow> told_but {} (on_dom k f st)"
proof -
  assume f: "local f" "tells f" and s: "snd st \<noteq> None" and X: "told_but {k} st"
  have "told_but {k} (on_dom k f st)" by (rule told_on_dom [OF f(1) X]) simp
  moreover have "told d (truth (snd (on_dom k f st)) k)"
    if "(k, d) \<in> set (gp_domains (fst (on_dom k f st)))" for d
  proof -
    obtain d' sh out where run: "f (getDomain k (fst st), snd st, gp_pending (fst st)) = (d', sh, out)"
      and ds: "gp_domains (fst (on_dom k f st)) = om_set k d' (gp_domains (fst st))"
      and sh: "snd (on_dom k f st) = sh" by (rule on_dom_run)
    have "d = d'" using that X in_om_set [of "gp_domains (fst st)"] by (auto simp: ds told_but_def)
    then show ?thesis using tellsD [OF f(2) s, of "getDomain k (fst st)" "gp_pending (fst st)"] run sh by simp
  qed
  ultimately show ?thesis by (auto simp: told_but_def om_all_def)
qed

lemma told_retells: "local f \<Longrightarrow> retells f \<Longrightarrow> snd st \<noteq> None \<Longrightarrow> told_but X st \<Longrightarrow> told_but X (on_dom k f st)"
proof (erule told_on_dom, assumption)
  assume f: "retells f" and s: "snd st \<noteq> None" and X: "told_but X st" and k: "k \<notin> X"
  show "told (fst (f (getDomain k (fst st), snd st, gp_pending (fst st))))
      (truth (fst (snd (f (getDomain k (fst st), snd st, gp_pending (fst st))))) k)"
    using retellsD [OF f s, of "getDomain k (fst st)" "gp_pending (fst st)"] getDomain_told [OF X k] by simp
qed

lemma domains_ports [simp]:
  "gp_domains (fst (on_port k f st)) = gp_domains (fst st)" "gp_domains (fst (set_port k f' st)) = gp_domains (fst st)"
  "gp_domains (fst (each_port f'' st)) = gp_domains (fst st)" "gp_domains (fst (getPort c p st)) = gp_domains (fst st)"
  "gp_domains (fst (becomeMaster pk dm ts n why st)) = gp_domains (fst st)"
  "gp_domains (fst (if_port k f' st)) = gp_domains (fst st)"
  "gp_domains (fst (responder_state v s st)) = gp_domains (fst st)"
  by (simp_all add: on_port_def set_port_def each_port_def getPort_def becomeMaster_def if_port_def
      responder_state_def Let_def case_prod_beta)

lemma told_ports:
  "told_but X (on_port k f st) = told_but X st" "told_but X (set_port k f' st) = told_but X st"
  "told_but X (each_port f'' st) = told_but X st" "told_but X (getPort c p st) = told_but X st"
  "told_but X (becomeMaster pk dm ts n why st) = told_but X st"
  by (simp_all add: told_but_def)

lemma attached_on_dom [simp]: "local f \<Longrightarrow> (snd (on_dom k f st) = None) = (snd st = None)"
  using localD(2) [of f "(getDomain k (fst st), snd st, gp_pending (fst st))"]
  by (simp add: on_dom_def case_prod_beta)

section \<open>Every call leaves every domain told\<close>

lemma local_pure_simps:
  "local (\<lambda>(d, y). (sync_count v ts pk d, y))" "local (\<lambda>(d, y). (sync_pending v ts d, y))"
  "local (\<lambda>(d, y). (d\<lparr>lastAnnounce := t, gd_announceIntervalS := iv, announceCount := announceCount d + 1\<rparr>, y))"
  "local (\<lambda>(d, y). (case tr of Some trace \<Rightarrow> d\<lparr>pathTrace := trace\<rparr> | None \<Rightarrow> d, y))"
  by (simp_all add: local_def split: option.split)

lemma told_step: "local f \<Longrightarrow> told_but {k} st \<Longrightarrow> told_but {k} (on_dom k f st)"
  by (rule told_on_dom) simp_all

lemma told_onSync:
  assumes "snd st \<noteq> None" and "told_but {} st"
  shows "told_but {} (onSync v ts n dm pk st)"
proof -
  have "told_but {dm} st" using assms(2) by (rule told_but_mono) simp
  then show ?thesis
    unfolding onSync_def Let_def
    by (intro told_tells sync_bmca_ok) (simp_all add: assms(1) told_ports told_step sync_state_ok local_pure_simps)
qed

lemma told_onFollowUp:
  assumes "snd st \<noteq> None" and "told_but {} st"
  shows "told_but {} (onFollowUp v ts n dm pk st)"
  unfolding onFollowUp_def by (intro told_retells followUp_ok) (simp_all add: assms told_ports)

lemma told_onAnnounce:
  assumes "snd st \<noteq> None" and "told_but {} st"
  shows "told_but {} (onAnnounce v ts n dm pk st)"
proof -
  have "told_but {dm} st" using assms(2) by (rule told_but_mono) simp
  then show ?thesis
    unfolding onAnnounce_def Let_def
    by (intro told_tells announce_bmca_ok)
      (simp_all add: assms(1) told_ports told_step announce_gm_local local_pure_simps)
qed

lemma domains_pdelay [simp]:
  "gp_domains (fst (onPdelayReq v ts pk st)) = gp_domains (fst st)"
  "gp_domains (fst (onPdelayResp v ts st)) = gp_domains (fst st)"
  "gp_domains (fst (onPdelayRespFu v ts n st)) = gp_domains (fst st)"
  by (simp_all add: onPdelayReq_def onPdelayResp_def onPdelayRespFu_def Let_def split: option.split)

lemma told_pdelay:
  "told_but X (onPdelayReq v ts pk st) = told_but X st" "told_but X (onPdelayResp v ts st) = told_but X st"
  "told_but X (onPdelayRespFu v ts n st) = told_but X st"
  by (simp_all add: told_but_def)

lemma told_onDecode:
  assumes "snd st \<noteq> None" and "told_but {} st"
  shows "told_but {} (gptp_onDecode v st)"
  using assms
  by (simp add: gptp_onDecode_def Let_def told_onSync told_onFollowUp told_onAnnounce told_pdelay told_ports)

text \<open>The tick, domain by domain.\<close>

definition tick_told :: "u8 \<Rightarrow> gdomain \<Rightarrow> shared option \<times> transition list \<Rightarrow> bool" where
  "tick_told k d o0 \<longleftrightarrow> fst o0 \<noteq> None \<and> gd_num d = k \<and> told d (truth (fst o0) k)"

lemma dom_tick_parts:
  "local (dom_sync_tick ts)" "retells (dom_sync_tick ts)" "local (dom_gm_tick ts)" "retells (dom_gm_tick ts)"
  using transition_local transition_retells
  by (auto simp: local_def retells_def dom_sync_tick_def dom_gm_tick_def Let_def)

lemma tick_told_step: "tick_told k d o0 \<Longrightarrow> tick_told k (fst (dom_tick ts j d o0)) (snd (dom_tick ts j d o0))"
proof -
  assume t: "tick_told k d o0"
  obtain sh out where o0: "o0 = (sh, out)" by force
  obtain d1 sh1 out1 where r1: "dom_sync_tick ts (d, sh, out) = (d1, sh1, out1)" by (metis prod.collapse)
  have a: "gd_num d1 = k" "sh1 \<noteq> None" "told d1 (truth sh1 k)"
    using t localD(1,2) [OF dom_tick_parts(1), of ts "(d, sh, out)"]
      retellsD [OF dom_tick_parts(2), of sh d ts out] r1 unfolding o0 tick_told_def by simp_all
  have e: "told (evalBmca ts d1) (truth sh1 k)" using a(3) by (simp add: told_def)
  obtain d2 sh2 out2 where r2: "dom_gm_tick ts (evalBmca ts d1, sh1, out1) = (d2, sh2, out2)" by (metis prod.collapse)
  have "gd_num d2 = k" "sh2 \<noteq> None" "told d2 (truth sh2 k)"
    using a e localD(1,2) [OF dom_tick_parts(3), of ts "(evalBmca ts d1, sh1, out1)"]
      retellsD [OF dom_tick_parts(4), of sh1 "evalBmca ts d1" ts out1] r2 by simp_all
  then show ?thesis by (simp add: o0 dom_tick_def r1 r2 tick_told_def)
qed

lemma dom_tick_other:
  "k \<noteq> gd_num d \<Longrightarrow> truth (fst (snd (dom_tick ts j d o0))) k = truth (fst o0) k"
proof -
  assume k: "k \<noteq> gd_num d"
  obtain sh out where o0: "o0 = (sh, out)" by force
  obtain d1 sh1 out1 where r1: "dom_sync_tick ts (d, sh, out) = (d1, sh1, out1)" by (metis prod.collapse)
  obtain d2 sh2 out2 where r2: "dom_gm_tick ts (evalBmca ts d1, sh1, out1) = (d2, sh2, out2)" by (metis prod.collapse)
  have n: "gd_num d1 = gd_num d" "truth sh1 k = truth sh k"
    using k localD(1) [OF dom_tick_parts(1), of ts "(d, sh, out)"]
      localD(3) [OF dom_tick_parts(1), of k "(d, sh, out)" ts] r1 by simp_all
  have "truth sh2 k = truth sh1 k"
    using k n localD(3) [OF dom_tick_parts(3), of k "(evalBmca ts d1, sh1, out1)" ts] r2 by simp
  with n show ?thesis by (simp add: o0 dom_tick_def r1 r2)
qed

lemma told_onTimeTick:
  assumes s: "snd st \<noteq> None" and t: "told_but {} st"
  shows "told_but {} (gptp_onTimeTick ts st)"
proof -
  let ?it = "om_iter (dom_tick ts) (gp_domains (fst st)) (snd st, gp_pending (fst st))"
  have ok: "om_ok (gp_domains (fst st))"
    and all: "om_all (\<lambda>k d. tick_told k d (snd st, gp_pending (fst st))) (gp_domains (fst st))"
    using s t by (auto simp: told_but_def tick_told_def om_all_def)
  have "om_all (\<lambda>k d. tick_told k d (snd ?it)) (fst ?it)"
  proof (rule om_iter_each [where P = tick_told and f = "dom_tick ts", OF _ _ ok all])
    fix k d o0 assume "tick_told k d o0"
    then show "tick_told k (fst (dom_tick ts k d o0)) (snd (dom_tick ts k d o0))" by (rule tick_told_step)
  next
    fix k d k' d' and o0 :: "shared option \<times> transition list"
    assume k: "k' \<noteq> k" and d: "tick_told k d o0" and d': "tick_told k' d' o0"
    have "fst (snd (dom_tick ts k d o0)) \<noteq> None"
      using tick_told_step [OF d, of ts k] by (simp add: tick_told_def)
    moreover have "truth (fst (snd (dom_tick ts k d o0))) k' = truth (fst o0) k'"
      using k d by (intro dom_tick_other) (simp add: tick_told_def)
    ultimately show "tick_told k' d' (snd (dom_tick ts k d o0))"
      using d' by (simp add: tick_told_def)
  qed
  moreover have "om_ok (fst ?it)" using ok by simp
  moreover have "gp_domains (fst (gptp_onTimeTick ts st)) = fst ?it" "snd (gptp_onTimeTick ts st) = fst (snd ?it)"
    by (simp_all add: gptp_onTimeTick_def case_prod_beta)
  ultimately show ?thesis
    unfolding told_but_def by (auto simp: om_all_def tick_told_def)
qed

section \<open>The interface\<close>

definition gptp_good :: "gptp \<Rightarrow> shared \<Rightarrow> bool" where
  "gptp_good g s \<longleftrightarrow> ports_ok (mPorts g) \<and> told_but {} (g, Some s)"

lemma gptp_good_init [simp]: "gptp_good GptpLogic s"
  by (simp add: gptp_good_def GptpLogic_def ports_ok_def told_but_def)

interpretation gptp: avb_logic gptp_onDecode gptp_onTimeTick gptp_good except_gptp
proof
  fix v m s m' s' assume g: "gptp_good m s" and r: "gptp_onDecode v (m, Some s) = (m', Some s')"
  show "gptp_good m' s'"
    using gptp_ports_onDecode [of "(m, Some s)" v] told_onDecode [of "(m, Some s)" v] g r
    by (simp add: gptp_good_def)
next
  fix ts m s m' s' assume g: "gptp_good m s" and r: "gptp_onTimeTick ts (m, Some s) = (m', Some s')"
  show "gptp_good m' s'"
    using gptp_ports_onTimeTick [of "(m, Some s)" ts] told_onTimeTick [of "(m, Some s)" ts] g r
    by (simp add: gptp_good_def)
qed (simp_all add: gptp_onDecode_foreign gptp_tick_foreign)

end
