(* ===== verification/Engine.thy ===== *)
theory Engine
  imports Decode Pcap_Reader Mvrp_Logic Maap_Logic Adp_Logic Aecp_Logic Msrp_Logic Acmp_Proofs Gptp_Publish
begin

text \<open>
  \<open>backend/src/engine/engine.cpp\<close> and \<open>session.h\<close>: one analysis, from the capture file to
  the event log.  The packets are decoded in chunks by worker threads, ordered by capture
  time, and fed one by one to the seven state machines, whose transitions join the packet
  events in the log.  The modules sit behind \<open>AvbLogicBase\<close>; a module is a constructor of
  \<open>logic_module\<close> and the virtual calls are cases on it.  \<open>byService\<close> is an
  \<open>unordered_map\<close>: the order of its ticks is a parameter.
\<close>

section \<open>The modules behind the interface\<close>

datatype logic_module = AdpM adp | MsrpM msrp | MvrpM mvrp | MaapM maap | AcmpM acmp | AecpM aecp | GptpM gptp

fun lm_onDecode :: "var_ctx \<Rightarrow> logic_module \<times> shared option \<Rightarrow> logic_module \<times> shared option" where
  "lm_onDecode v (AdpM m, sh) = apfst AdpM (adp_onDecode v (m, sh))"
| "lm_onDecode v (MsrpM m, sh) = apfst MsrpM (msrp_onDecode v (m, sh))"
| "lm_onDecode v (MvrpM m, sh) = apfst MvrpM (mvrp_onDecode v (m, sh))"
| "lm_onDecode v (MaapM m, sh) = (MaapM (maap_onDecode v m), sh)"
| "lm_onDecode v (AcmpM m, sh) = (AcmpM (acmp_onDecode sh v m), sh)"
| "lm_onDecode v (AecpM m, sh) = apfst AecpM (aecp_onDecode v (m, sh))"
| "lm_onDecode v (GptpM g, sh) = apfst GptpM (gptp_onDecode v (g, sh))"

text \<open>MSRP and MAAP inherit the empty \<open>onTimeTick\<close>.\<close>

fun lm_onTimeTick :: "double \<Rightarrow> logic_module \<times> shared option \<Rightarrow> logic_module \<times> shared option" where
  "lm_onTimeTick ts (AdpM m, sh) = apfst AdpM (adp_onTimeTick ts (m, sh))"
| "lm_onTimeTick ts (MsrpM m, sh) = (MsrpM m, sh)"
| "lm_onTimeTick ts (MvrpM m, sh) = apfst MvrpM (mvrp_onTimeTick ts (m, sh))"
| "lm_onTimeTick ts (MaapM m, sh) = (MaapM m, sh)"
| "lm_onTimeTick ts (AcmpM m, sh) = (AcmpM (acmp_onTimeTick sh ts m), sh)"
| "lm_onTimeTick ts (AecpM m, sh) = (AecpM (aecp_onTimeTick ts m), sh)"
| "lm_onTimeTick ts (GptpM g, sh) = apfst GptpM (gptp_onTimeTick ts (g, sh))"

text \<open>\<open>drain\<close>: the pending transitions move out.\<close>

fun lm_drain :: "logic_module \<Rightarrow> transition list \<times> logic_module" where
  "lm_drain (AdpM m) = (ad_pending m, AdpM (m\<lparr>ad_pending := []\<rparr>))"
| "lm_drain (MsrpM m) = (ms_pending m, MsrpM (m\<lparr>ms_pending := []\<rparr>))"
| "lm_drain (MvrpM m) = (mv_pending m, MvrpM (m\<lparr>mv_pending := []\<rparr>))"
| "lm_drain (MaapM m) = (ma_pending m, MaapM (m\<lparr>ma_pending := []\<rparr>))"
| "lm_drain (AcmpM m) = (ac_pending m, AcmpM (m\<lparr>ac_pending := []\<rparr>))"
| "lm_drain (AecpM m) = (ae_pending m, AecpM (m\<lparr>ae_pending := []\<rparr>))"
| "lm_drain (GptpM g) = (gp_pending g, GptpM (g\<lparr>gp_pending := []\<rparr>))"

text \<open>The seven \<open>REGISTER_LOGIC\<close> lines, one per module file.\<close>

definition avb_modules :: "(string \<times> logic_module) list" where
  "avb_modules = [(''atdecc_adp'', AdpM AdpLogic), (''mrp_msrp'', MsrpM MsrpLogic), (''mrp_mvrp'', MvrpM MvrpLogic),
     (''1722_maap'', MaapM MaapLogic), (''atdecc_acmp'', AcmpM AcmpLogic), (''atdecc_aecp'', AecpM AecpLogic),
     (''8021as_gptp'', GptpM GptpLogic)]"

definition registrations :: "(string \<times> logic_module) list \<Rightarrow> logic_module registry" where
  "registrations ms = fold (\<lambda>(name, m) reg. snd (reg_add name (Some m) reg)) ms []"

section \<open>The analysis state\<close>

record analysis =
  an_shared :: shared
  an_modules :: "(string \<times> logic_module) list"

definition kServices :: "string list" where
  "kServices = [''atdecc_adp'', ''mrp_msrp'', ''mrp_mvrp'', ''1722_maap'', ''atdecc_acmp'', ''atdecc_aecp'', ''8021as_gptp'']"

text \<open>A service without a factory is skipped.\<close>

definition AnalysisState_create :: "logic_module registry \<Rightarrow> analysis" where
  "AnalysisState_create reg = \<lparr>an_shared = SharedModel,
     an_modules = concat (map (\<lambda>svc. case reg_create reg svc of None \<Rightarrow> [] | Some m \<Rightarrow> [(svc, m)]) kServices)\<rparr>"

text \<open>\<open>byService.find\<close> and a store through the pointer found.\<close>

definition module_of :: "string \<Rightarrow> analysis \<Rightarrow> logic_module option" where
  "module_of svc a = map_of (an_modules a) svc"

definition put_module :: "string \<Rightarrow> logic_module \<Rightarrow> (string \<times> logic_module) list \<Rightarrow> (string \<times> logic_module) list" where
  "put_module svc m = map (\<lambda>(s, m'). (s, if s = svc then m else m'))"

text \<open>One call on a module followed by its drain.\<close>

definition call_module ::
    "(logic_module \<times> shared option \<Rightarrow> logic_module \<times> shared option) \<Rightarrow> string \<Rightarrow> analysis \<Rightarrow>
     transition list \<times> analysis" where
  "call_module f svc a =
     (case module_of svc a of None \<Rightarrow> ([], a)
      | Some m \<Rightarrow>
        (case f (m, Some (an_shared a)) of (m', sh) \<Rightarrow>
          (case lm_drain m' of (out, m'') \<Rightarrow>
            (out, a\<lparr>an_shared := (case sh of Some s \<Rightarrow> s | None \<Rightarrow> an_shared a),
                     an_modules := put_module svc m'' (an_modules a)\<rparr>))))"

definition feed :: "var_ctx \<Rightarrow> analysis \<Rightarrow> transition list \<times> analysis" where
  "feed ctx = call_module (lm_onDecode ctx) (service ctx)"

definition tick :: "double \<Rightarrow> string \<Rightarrow> analysis \<Rightarrow> transition list \<times> analysis" where
  "tick ts = call_module (lm_onTimeTick ts)"

section \<open>Who sends what\<close>

record device =
  dv_packets :: u64
  dv_protoMask :: u32
  dv_entityId :: u64
  dv_assocIds :: "u64 set"

definition DeviceInfo :: device where
  "DeviceInfo = \<lparr>dv_packets = 0, dv_protoMask = 0, dv_entityId = 0, dv_assocIds = {}\<rparr>"

text \<open>The entity a frame proves its source to be.\<close>

definition source_entity :: "proto \<Rightarrow> var_ctx \<Rightarrow> u64 \<Rightarrow> u64" where
  "source_entity p ctx old =
     (if p = ADP \<and> ctx_at ctx ''message_type'' \<noteq> 2 then ctx_at ctx ''entity_id''
      else if p = AECP \<and> ctx_at ctx ''message_type'' = 1 then ctx_at ctx ''target_entity_id''
      else old)"

text \<open>The role IEEE 1722.1 gives the sender of an ACMP message.\<close>

definition acmp_sender :: "var_ctx \<Rightarrow> u64" where
  "acmp_sender ctx = (let t = ctx_at ctx ''message_type''
     in if t \<in> {0, 2, 7, 9, 11} then ctx_at ctx ''listener_entity_id''
        else if t \<in> {1, 3, 5, 13} then ctx_at ctx ''talker_entity_id''
        else if t \<in> {4, 6, 8, 10, 12} then ctx_at ctx ''controller_entity_id'' else 0)"

definition insert_id :: "u64 \<Rightarrow> u64 set \<Rightarrow> u64 set" where
  "insert_id i s = (if i \<noteq> 0 then insert i s else s)"

definition associate :: "proto \<Rightarrow> var_ctx \<Rightarrow> device \<Rightarrow> device" where
  "associate p ctx dev =
     (let e = source_entity p ctx (dv_entityId dev);
          a1 = insert_id e (dv_assocIds dev);
          a2 = (if p = AECP \<and> ctx_at ctx ''message_type'' = 0
                then insert_id (ctx_at ctx ''controller_entity_id'') a1 else a1);
          a3 = (if p = ACMP then insert_id (acmp_sender ctx) a2 else a2)
      in dev\<lparr>dv_entityId := e, dv_assocIds := a3\<rparr>)"

definition account :: "decoded \<Rightarrow> (u64, device) omap \<Rightarrow> (u64, device) omap" where
  "account d devs =
     (if dp_srcMac d = 0 then devs
      else let dev = om_at DeviceInfo devs (dp_srcMac d);
               dev1 = dev\<lparr>dv_packets := dv_packets dev + 1,
                          dv_protoMask := dv_protoMask dev OR push_bit (proto_id (dp_proto d)) 1\<rparr>
           in om_set (dp_srcMac d) (fold (associate (dp_proto d)) (dp_logicCtxs d) dev1) devs)"

section \<open>The state pass\<close>

record pass =
  ps_analysis :: analysis
  ps_eventIndex :: u32
  ps_batch :: "event list"
  ps_events :: "event list"
  ps_devices :: "(u64, device) omap"
  ps_decodeErrors :: u64
  ps_protoCounts :: "proto \<Rightarrow> u64"

text \<open>\<open>e.i = eventIndex++\<close> and \<open>batch.push_back\<close>.\<close>

definition push_event :: "event \<Rightarrow> pass \<Rightarrow> pass" where
  "push_event e p = p\<lparr>ps_batch := ps_batch p @ [e\<lparr>ev_i := ps_eventIndex p\<rparr>],
                      ps_eventIndex := ps_eventIndex p + 1\<rparr>"

definition flush :: "pass \<Rightarrow> pass" where
  "flush p = p\<lparr>ps_events := ps_events p @ ps_batch p, ps_batch := []\<rparr>"

definition error_event :: "decoded \<Rightarrow> event" where
  "error_event d = Event\<lparr>ev_n := dp_num d, ev_ts := dp_ts d, ev_kind := ErrorEv, ev_proto := dp_proto d,
     ev_type := ''DECODE_ERROR'', ev_src := dp_src d, ev_dst := dp_dst d, ev_summary := dp_error d\<rparr>"

definition packet_event :: "decoded \<Rightarrow> event" where
  "packet_event d = Event\<lparr>ev_n := dp_num d, ev_ts := dp_ts d, ev_kind := Packet, ev_proto := dp_proto d,
     ev_type := dp_type d, ev_src := dp_src d, ev_dst := dp_dst d, ev_summary := dp_summary d,
     ev_entity := dp_entity d, ev_stream := dp_stream d, ev_fields := dp_eventFields d\<rparr>"

definition tick_event :: "decoded \<Rightarrow> transition \<Rightarrow> event" where
  "tick_event d tr = Event\<lparr>ev_n := 0, ev_ts := dp_ts d, ev_kind := TransitionEv, ev_proto := t_proto tr,
     ev_type := ''STATE'', ev_summary := t_summary tr, ev_entity := t_entity tr, ev_stream := t_stream tr,
     ev_fields := [(''object'', t_object tr), (''from'', t_from tr), (''to'', t_to tr), (''why'', t_why tr)]\<rparr>"

definition transition_event :: "decoded \<Rightarrow> transition \<Rightarrow> event" where
  "transition_event d tr = (tick_event d tr)\<lparr>ev_n := dp_num d, ev_src := dp_src d, ev_dst := dp_dst d\<rparr>"

definition on_analysis :: "(analysis \<Rightarrow> transition list \<times> analysis) \<Rightarrow> (transition \<Rightarrow> event) \<Rightarrow> pass \<Rightarrow> pass" where
  "on_analysis f ev p = (case f (ps_analysis p) of
     (trs, a) \<Rightarrow> fold (\<lambda>tr. push_event (ev tr)) trs (p\<lparr>ps_analysis := a\<rparr>))"

text \<open>\<open>(uint64_t)(d.ts * 1e9)\<close>\<close>

definition stamp :: "decoded \<Rightarrow> var_ctx \<Rightarrow> var_ctx" where
  "stamp d ctx = setValue ''pkt_num'' (ucast (dp_num d))
     (setValue ''ts_ns'' (of_nat (nat \<lfloor>dp_ts d * 10 ^ 9\<rfloor>)) ctx)"

definition deliver :: "decoded \<Rightarrow> pass \<Rightarrow> pass" where
  "deliver d = fold (\<lambda>ctx. on_analysis (feed (stamp d ctx)) (transition_event d)) (dp_logicCtxs d)"

definition tick_all :: "string list \<Rightarrow> decoded \<Rightarrow> pass \<Rightarrow> pass" where
  "tick_all order d = fold (\<lambda>svc. on_analysis (tick (dp_ts d) svc) (tick_event d)) order"

definition log_packet :: "decoded \<Rightarrow> pass \<Rightarrow> pass" where
  "log_packet d p =
     (if \<not> dp_ok d then push_event (error_event d) (p\<lparr>ps_decodeErrors := ps_decodeErrors p + 1\<rparr>)
      else deliver d (push_event (packet_event d)
             (p\<lparr>ps_protoCounts := (ps_protoCounts p)(dp_proto d := ps_protoCounts p (dp_proto d) + 1)\<rparr>)))"

definition packet_step :: "string list \<Rightarrow> decoded \<Rightarrow> pass \<Rightarrow> pass" where
  "packet_step order d p =
     (if \<not> dp_interesting d then p
      else let p1 = tick_all order d (log_packet d (p\<lparr>ps_devices := account d (ps_devices p)\<rparr>))
           in if length (ps_batch p1) \<ge> 256 then flush p1 else p1)"

definition state_pass :: "string list \<Rightarrow> decoded list \<Rightarrow> pass \<Rightarrow> pass" where
  "state_pass order ds p = flush (fold (packet_step order) ds p)"

section \<open>The parallel decode\<close>

text \<open>The ranges handed to the workers, for \<open>hardware_concurrency() = hw\<close>.\<close>

definition worker_count :: "nat \<Rightarrow> nat \<Rightarrow> nat" where
  "worker_count hw count = min (max 1 hw) ((count + 511) div 512)"

definition chunks :: "nat \<Rightarrow> nat \<Rightarrow> (nat \<times> nat) list" where
  "chunks hw count =
     (let workers = worker_count hw count; chunk = (count + workers - 1) div workers
      in takeWhile (\<lambda>(b, e). b < e)
           (map (\<lambda>w. (w * chunk, min count (w * chunk + chunk))) [0..<workers]))"

text \<open>One packet; \<open>None\<close> is the undefined behaviour of a span outside the file.\<close>

definition decode_one :: "pcap_file \<Rightarrow> nat \<Rightarrow> decoded option" where
  "decode_one f i =
     (case packetData (mData f) (mPackets f ! i) of
        None \<Rightarrow> None
      | Some bytes \<Rightarrow> decodePacket bytes (DecodedPacket\<lparr>dp_num := of_nat i + 1, dp_ts := relTs f i\<rparr>))"

text \<open>The threads write disjoint slots; \<open>sched\<close> is the order in which the writes happen.\<close>

definition decodeAll :: "pcap_file \<Rightarrow> nat list \<Rightarrow> decoded list option" where
  "decodeAll f sched =
     those (fold (\<lambda>i ds. ds[i := decode_one f i]) sched (replicate (length (mPackets f)) (Some DecodedPacket)))"

text \<open>\<open>std::stable_sort\<close> of the indices by capture time.\<close>

definition capture_order :: "pcap_file \<Rightarrow> nat list" where
  "capture_order f = sort_key (\<lambda>i. pk_tsNanos (mPackets f ! i)) [0..<length (mPackets f)]"

section \<open>Analyze\<close>

datatype status = Running | Done | Failed string

record session =
  se_id :: string
  se_name :: string
  se_pcapId :: string
  se_path :: string
  se_createdAt :: string
  se_pcapFilePath :: string
  se_domain :: string
  se_status :: status
  se_events :: "event list"
  se_pindex :: "pcap_packet list"
  se_firstTsNanos :: u64
  se_lastTsNanos :: u64
  se_devices :: "(u64, device) omap"
  se_logic :: "analysis option"
  se_packets :: nat
  se_decodeErrors :: u64
  se_protoCounts :: "proto \<Rightarrow> u64"
  se_duration :: double

definition index_session :: "pcap_file \<Rightarrow> session \<Rightarrow> session" where
  "index_session f s = s\<lparr>se_pindex := mPackets f, se_firstTsNanos := pk_tsNanos (hd (mPackets f)),
     se_lastTsNanos := pk_tsNanos (last (mPackets f)), se_duration := duration f,
     se_packets := length (mPackets f)\<rparr>"

text \<open>A session as \<open>make_shared<Session>()\<close> leaves it.\<close>

definition Session :: session where
  "Session = \<lparr>se_id = [], se_name = [], se_pcapId = [], se_path = [], se_createdAt = [],
     se_pcapFilePath = [], se_domain = ''default'', se_status = Running, se_events = [], se_pindex = [],
     se_firstTsNanos = 0, se_lastTsNanos = 0, se_devices = [], se_logic = None, se_packets = 0,
     se_decodeErrors = 0, se_protoCounts = (\<lambda>_. 0), se_duration = 0\<rparr>"

text \<open>The pass works on the session's own log, inventory and counters.\<close>

definition pass_init :: "session \<Rightarrow> analysis \<Rightarrow> pass" where
  "pass_init s a = \<lparr>ps_analysis = a, ps_eventIndex = 0, ps_batch = [], ps_events = se_events s,
     ps_devices = se_devices s, ps_decodeErrors = se_decodeErrors s, ps_protoCounts = se_protoCounts s\<rparr>"

definition finish_session :: "pass \<Rightarrow> session \<Rightarrow> session" where
  "finish_session p s = s\<lparr>se_logic := Some (ps_analysis p), se_events := ps_events p,
     se_devices := ps_devices p, se_decodeErrors := ps_decodeErrors p, se_protoCounts := ps_protoCounts p,
     se_status := Done\<rparr>"

definition analyze ::
    "(string \<Rightarrow> byte list option) \<Rightarrow> logic_module registry \<Rightarrow> (pcap_file \<Rightarrow> nat list) \<Rightarrow> string list \<Rightarrow>
     session \<Rightarrow> session outcome" where
  "analyze fs reg sched order s =
     (case pcap_open fs (se_pcapFilePath s) of
        Err e \<Rightarrow> Ok (s\<lparr>se_status := Failed e\<rparr>)
      | UB \<Rightarrow> UB | Diverges \<Rightarrow> Diverges
      | Ok f \<Rightarrow>
        (case decodeAll f (sched f) of
           None \<Rightarrow> UB
         | Some ds \<Rightarrow> Ok (finish_session
             (state_pass order (map (\<lambda>i. ds ! i) (capture_order f)) (pass_init s (AnalysisState_create reg)))
             (index_session f s))))"

section \<open>The engine's sessions\<close>

record engine =
  mSessions :: "(string, session) omap"
  mRunning :: u32

definition engine_add :: "session \<Rightarrow> engine \<Rightarrow> engine" where
  "engine_add s e = e\<lparr>mSessions := om_set (se_id s) s (mSessions e)\<rparr>"

text \<open>\<open>start\<close> registers the session and counts its thread, \<open>finish\<close> is the end of that thread.\<close>

definition engine_start :: "session \<Rightarrow> engine \<Rightarrow> engine" where
  "engine_start s e = (engine_add s e)\<lparr>mRunning := mRunning e + 1\<rparr>"

definition engine_finish :: "engine \<Rightarrow> engine" where
  "engine_finish e = e\<lparr>mRunning := mRunning e - 1\<rparr>"

definition engine_find :: "string \<Rightarrow> engine \<Rightarrow> session option" where
  "engine_find i e = om_get (mSessions e) i"

definition engine_list :: "engine \<Rightarrow> session list" where
  "engine_list e = map snd (mSessions e)"

definition engine_remove :: "string \<Rightarrow> engine \<Rightarrow> bool \<times> engine" where
  "engine_remove i e = (om_get (mSessions e) i \<noteq> None, e\<lparr>mSessions := om_del i (mSessions e)\<rparr>)"

text \<open>\<open>drain\<close> returns once this holds.\<close>

definition engine_drained :: "engine \<Rightarrow> bool" where
  "engine_drained e \<longleftrightarrow> mRunning e = 0"

end
