(* ===== verification/Engine_Proofs.thy ===== *)
theory Engine_Proofs
  imports Engine "HOL-Library.Multiset"
begin

text \<open>
  The engine's correctness: the parallel decode equals the sequential one for every
  schedule of the workers; the event indices n the log; every frame and every tick keeps
  the invariant of each module and of what it publishes, so the whole analysis does; and
  after the last tick no request older than its timeout is in flight.
\<close>

section \<open>The parallel decode\<close>

lemma worker_count_pos: "0 < n \<Longrightarrow> 0 < worker_count hw n"
  by (simp add: worker_count_def div_greater_zero_iff)

lemma takeWhile_chunks:
  assumes "0 < c"
  shows "concat (map (\<lambda>(b, e). [b..<e]) (takeWhile (\<lambda>(b, e). b < e)
           (map (\<lambda>w. (w * c, min n (w * c + c))) [0..<k]))) = [0..<min n (k * c)]"
proof (induction k)
  case (Suc k)
  let ?g = "\<lambda>w. (w * c, min n (w * c + c))"
  show ?case
  proof (cases "k * c < n")
    case True
    have "\<forall>x \<in> set (map ?g [0..<k]). case x of (b, e) \<Rightarrow> b < e"
    proof
      fix x assume "x \<in> set (map ?g [0..<k])"
      then obtain w where w: "w < k" and x: "x = ?g w" by auto
      have "w * c < n" using w True by (meson le_less_trans mult_le_mono1 nat_less_le)
      then show "case x of (b, e) \<Rightarrow> b < e" using assms x by simp
    qed
    then have all: "takeWhile (\<lambda>(b, e). b < e) (map ?g [0..<k]) = map ?g [0..<k]"
      by (simp only: takeWhile_eq_all_conv)
    have "takeWhile (\<lambda>(b, e). b < e) (map ?g [0..<Suc k]) =
        takeWhile (\<lambda>(b, e). b < e) (map ?g [0..<k]) @ [?g k]"
      using True assms unfolding all using all by (subst upt_Suc) (auto simp: takeWhile_append)
    moreover have "[0..<k * c] @ [k * c..<min n (k * c + c)] = [0..<min n (k * c + c)]"
      using upt_add_eq_append [of 0 "k * c" "min n (k * c + c) - k * c"] True by simp
    ultimately show ?thesis using Suc True by (simp del: upt_Suc add: add.commute)
  next
    case False
    then have "takeWhile (\<lambda>(b, e). b < e) (map ?g [0..<Suc k]) = takeWhile (\<lambda>(b, e). b < e) (map ?g [0..<k])"
      by (subst upt_Suc) (auto simp: takeWhile_append takeWhile_eq_all_conv [THEN iffD2])
    then show ?thesis using Suc False by (simp add: min_def)
  qed
qed simp

lemma chunks_partition:
  assumes "0 < n"
  shows "concat (map (\<lambda>(b, e). [b..<e]) (chunks hw n)) = [0..<n]"
proof -
  let ?w = "worker_count hw n"
  let ?c = "(n + ?w - 1) div ?w"
  have w: "0 < ?w" by (rule worker_count_pos [OF assms])
  then have c: "0 < ?c" using assms by (simp add: div_greater_zero_iff)
  have "n \<le> ?w * ?c"
  proof -
    have "n + ?w - 1 < ?w * ?c + ?w"
      using w mult_div_mod_eq [of ?w "n + ?w - 1"] mod_less_divisor [OF w, of "n + ?w - 1"] by linarith
    then show ?thesis using w by linarith
  qed
  then show ?thesis using takeWhile_chunks [OF c, of n ?w] by (simp add: chunks_def Let_def min_def)
qed

lemma fold_updates:
  assumes "\<forall>i \<in> set is. i < length xs"
  shows "length (fold (\<lambda>i ds. ds[i := f i]) is xs) = length xs \<and>
    (\<forall>j < length xs. fold (\<lambda>i ds. ds[i := f i]) is xs ! j = (if j \<in> set is then f j else xs ! j))"
  using assms
proof (induction "is" arbitrary: xs)
  case (Cons i "is")
  then show ?case using Cons.IH [of "xs[i := f i]"] by (auto simp: nth_list_update)
qed simp

lemma decodeAll_schedule:
  assumes "set sched = {0..<length (mPackets f)}"
  shows "decodeAll f sched = those (map (decode_one f) [0..<length (mPackets f)])"
proof -
  let ?n = "length (mPackets f)"
  let ?d = "fold (\<lambda>i ds. ds[i := decode_one f i]) sched (replicate ?n (Some DecodedPacket))"
  have "?d = map (decode_one f) [0..<?n]"
    using fold_updates [of sched "replicate ?n (Some DecodedPacket)" "decode_one f"] assms
    by (intro nth_equalityI) auto
  then show ?thesis by (simp add: decodeAll_def)
qed

lemma schedule_of_chunks:
  assumes "mset sched = mset (concat (map (\<lambda>(b, e). [b..<e]) (chunks hw n)))" and "0 < n"
  shows "set sched = {0..<n}"
  using assms(1) unfolding chunks_partition [OF assms(2)] by (metis mset_eq_setD set_upt)

section \<open>The contract of a module in the analysis\<close>

text \<open>The module's invariant and, for a module that publishes, that the shared model shows its state.\<close>

fun module_ok :: "shared \<Rightarrow> logic_module \<Rightarrow> bool" where
  "module_ok s (AdpM m) = (adp_inv m \<and> adp_published m s)"
| "module_ok s (MsrpM m) = (msrp_inv m \<and> msrp_published m s)"
| "module_ok s (MvrpM m) = mvrp_inv m"
| "module_ok s (MaapM m) = maap_inv m"
| "module_ok s (AcmpM m) = acmp_inv m"
| "module_ok s (AecpM m) = aecp_inv m"
| "module_ok s (GptpM g) = gptp_good g s"

fun lm_kind :: "logic_module \<Rightarrow> nat" where
  "lm_kind (AdpM m) = 0" | "lm_kind (MsrpM m) = 1" | "lm_kind (MvrpM m) = 2" | "lm_kind (MaapM m) = 3"
| "lm_kind (AcmpM m) = 4" | "lm_kind (AecpM m) = 5" | "lm_kind (GptpM m) = 6"

text \<open>The part of the shared model a module's contract speaks of.\<close>

fun same_own :: "logic_module \<Rightarrow> shared \<Rightarrow> shared \<Rightarrow> bool" where
  "same_own (AdpM m) s s' = (adpAvailable s' = adpAvailable s)"
| "same_own (MsrpM m) s s' = (establishedStreams s' = establishedStreams s \<and> msrpTalkerDecl s' = msrpTalkerDecl s)"
| "same_own (GptpM m) s s' = (gptpDomains s' = gptpDomains s)"
| "same_own _ s s' = True"

lemma module_ok_own: "same_own m s s' \<Longrightarrow> module_ok s m \<Longrightarrow> module_ok s' m"
  by (cases m) (auto simp: adp_published_def msrp_published_def gptp_good_def told_but_def truth_def)

text \<open>A step of one module: it keeps its kind, the registrars and its contract, and every other
  module's part of the shared model.\<close>

definition contract :: "(logic_module \<times> shared option \<Rightarrow> logic_module \<times> shared option) \<Rightarrow> bool" where
  "contract f \<longleftrightarrow> (\<forall>m s m' sh. f (m, Some s) = (m', sh) \<longrightarrow> (\<exists>s'. sh = Some s' \<and> lm_kind m' = lm_kind m \<and>
     (reg_inv s \<and> module_ok s m \<longrightarrow> reg_inv s' \<and> module_ok s' m') \<and>
     (\<forall>m2. lm_kind m2 \<noteq> lm_kind m \<longrightarrow> same_own m2 s s')))"

lemma foreign_fields:
  "except_adp s' = except_adp s \<Longrightarrow> lm_kind m2 \<noteq> 0 \<Longrightarrow> same_own m2 s s' \<and> (reg_inv s' = reg_inv s)"
  "except_msrp s' = except_msrp s \<Longrightarrow> lm_kind m2 \<noteq> 1 \<Longrightarrow> same_own m2 s s'"
  "except_mrp s' = except_mrp s \<Longrightarrow> same_own m2 s s'"
  "except_names s' = except_names s \<Longrightarrow> same_own m2 s s' \<and> (reg_inv s' = reg_inv s)"
  "except_gptp s' = except_gptp s \<Longrightarrow> lm_kind m2 \<noteq> 6 \<Longrightarrow> same_own m2 s s' \<and> (reg_inv s' = reg_inv s)"
  by (cases s; cases s'; cases m2; simp add: except_adp_def except_msrp_def except_mrp_def except_names_def
      except_gptp_def reg_inv_def)+

lemma same_own_refl [simp]: "same_own m s s"
  by (cases m) simp_all

definition step_ok :: "shared \<Rightarrow> logic_module \<Rightarrow> shared \<Rightarrow> logic_module \<Rightarrow> bool" where
  "step_ok s m s' m' \<longleftrightarrow> lm_kind m' = lm_kind m \<and>
     (reg_inv s \<and> module_ok s m \<longrightarrow> reg_inv s' \<and> module_ok s' m') \<and>
     (\<forall>m2. lm_kind m2 \<noteq> lm_kind m \<longrightarrow> same_own m2 s s')"

lemma contractI:
  assumes "\<And>m s. \<exists>m' s'. f (m, Some s) = (m', Some s') \<and> step_ok s m s' m'"
  shows "contract f"
  unfolding contract_def
proof (intro allI impI)
  fix m s m' sh assume "f (m, Some s) = (m', sh)"
  with assms [of m s] show "\<exists>s'. sh = Some s' \<and> lm_kind m' = lm_kind m \<and>
     (reg_inv s \<and> module_ok s m \<longrightarrow> reg_inv s' \<and> module_ok s' m') \<and>
     (\<forall>m2. lm_kind m2 \<noteq> lm_kind m \<longrightarrow> same_own m2 s s')" by (auto simp: step_ok_def)
qed

text \<open>One rule per module, from its interpretation of the interface.\<close>

lemma adp_step_ok:
  assumes "except_adp s' = except_adp s" and "adp_inv m \<and> adp_published m s \<Longrightarrow> adp_inv m' \<and> adp_published m' s'"
  shows "step_ok s (AdpM m) s' (AdpM m')"
  using assms foreign_fields(1) [OF assms(1)] foreign_fields(1) [OF assms(1), of "MaapM ma" for ma]
  by (auto simp: step_ok_def)

lemma msrp_step_ok:
  assumes "except_msrp s' = except_msrp s" and "msrp_good m s \<Longrightarrow> msrp_good m' s'"
  shows "step_ok s (MsrpM m) s' (MsrpM m')"
  using assms foreign_fields(2) [OF assms(1)] by (auto simp: step_ok_def msrp_good_def)

lemma mvrp_step_ok:
  assumes "except_mrp s' = except_mrp s" and "mvrp_good m s \<Longrightarrow> mvrp_good m' s'"
  shows "step_ok s (MvrpM m) s' (MvrpM m')"
  using assms foreign_fields(3) [OF assms(1)] by (auto simp: step_ok_def mvrp_good_def)

lemma aecp_step_ok:
  assumes "except_names s' = except_names s" and "aecp_inv m \<Longrightarrow> aecp_inv m'"
  shows "step_ok s (AecpM m) s' (AecpM m')"
  using assms foreign_fields(4) [OF assms(1)] by (auto simp: step_ok_def)

lemma gptp_step_ok:
  assumes "except_gptp s' = except_gptp s" and "gptp_good m s \<Longrightarrow> gptp_good m' s'"
  shows "step_ok s (GptpM m) s' (GptpM m')"
  using assms foreign_fields(5) [OF assms(1)] foreign_fields(5) [OF assms(1), of "MaapM ma" for ma]
  by (auto simp: step_ok_def)

lemmas step_oks = adp_step_ok msrp_step_ok mvrp_step_ok aecp_step_ok gptp_step_ok

lemma decode_contract: "contract (lm_onDecode v)"
proof (rule contractI)
  fix m s
  show "\<exists>m' s'. lm_onDecode v (m, Some s) = (m', Some s') \<and> step_ok s m s' m'"
  proof (cases m)
    case (AdpM a)
    then show ?thesis using adp.decode_attached [of v a s] adp.decode_good [where m = a and s = s and v = v] adp_step_ok
      by (metis apfst_conv lm_onDecode.simps(1))
  next
    case (MsrpM a)
    then show ?thesis using msrp.decode_attached [of v a s] msrp.decode_good [where m = a and s = s and v = v] msrp_step_ok
      by (metis apfst_conv lm_onDecode.simps(2))
  next
    case (MvrpM a)
    then show ?thesis using mvrp.decode_attached [of v a s] mvrp.decode_good [where m = a and s = s and v = v] mvrp_step_ok
      by (metis apfst_conv lm_onDecode.simps(3))
  next
    case (MaapM a)
    then show ?thesis by (auto simp: step_ok_def maap_inv_onDecode)
  next
    case (AcmpM a)
    then show ?thesis by (auto simp: step_ok_def acmp_inv_onDecode)
  next
    case (AecpM a)
    then show ?thesis using aecp.decode_attached [of v a s] aecp.decode_good [where m = a and s = s and v = v] aecp_step_ok
      by (metis apfst_conv lm_onDecode.simps(6))
  next
    case (GptpM a)
    then show ?thesis using gptp.decode_attached [of v a s] gptp.decode_good [where m = a and s = s and v = v] gptp_step_ok
      by (metis apfst_conv lm_onDecode.simps(7))
  qed
qed

lemma tick_contract: "contract (lm_onTimeTick ts)"
proof (rule contractI)
  fix m s
  show "\<exists>m' s'. lm_onTimeTick ts (m, Some s) = (m', Some s') \<and> step_ok s m s' m'"
  proof (cases m)
    case (AdpM a)
    then show ?thesis using adp.tick_attached [of ts a s] adp.tick_good [where m = a and s = s and ts = ts] adp_step_ok
      by (metis apfst_conv lm_onTimeTick.simps(1))
  next
    case (MvrpM a)
    then show ?thesis using mvrp.tick_attached [of ts a s] mvrp.tick_good [where m = a and s = s and ts = ts] mvrp_step_ok
      by (metis apfst_conv lm_onTimeTick.simps(3))
  next
    case (GptpM a)
    then show ?thesis using gptp.tick_attached [of ts a s] gptp.tick_good [where m = a and s = s and ts = ts] gptp_step_ok
      by (metis apfst_conv lm_onTimeTick.simps(7))
  qed (auto simp: step_ok_def acmp_inv_onTimeTick aecp_inv_onTimeTick)
qed

section \<open>The invariant of the analysis\<close>

lemma drain_kind [simp]: "lm_kind (snd (lm_drain m)) = lm_kind m"
  by (cases m) simp_all

lemma drain_ok [simp]: "module_ok s (snd (lm_drain m)) = module_ok s m"
  by (cases m) (simp_all add: adp_inv_def adp_published_def msrp_inv_def msrp_published_def mvrp_inv_def maap_inv_def
      acmp_inv_def aecp_inv_def gptp_good_def told_but_def)

definition shape :: "(string \<times> logic_module) list \<Rightarrow> (string \<times> nat) list" where
  "shape ms = map (\<lambda>(n, m). (n, lm_kind m)) ms"

definition analysis_ok :: "analysis \<Rightarrow> bool" where
  "analysis_ok a \<longleftrightarrow> shape (an_modules a) = shape avb_modules \<and> reg_inv (an_shared a) \<and>
     (\<forall>(n, m) \<in> set (an_modules a). module_ok (an_shared a) m)"

lemma shape_mem: "shape ms = shape avb_modules \<Longrightarrow> (n, m) \<in> set ms \<Longrightarrow> (n, lm_kind m) \<in> set (shape avb_modules)"
proof -
  assume s: "shape ms = shape avb_modules" and m: "(n, m) \<in> set ms"
  have "(n, lm_kind m) \<in> set (shape ms)" using m by (force simp: shape_def)
  then show ?thesis by (simp add: s)
qed

lemma shape_avb: "shape avb_modules = [(''atdecc_adp'', 0), (''mrp_msrp'', 1), (''mrp_mvrp'', 2),
    (''1722_maap'', 3), (''atdecc_acmp'', 4), (''atdecc_aecp'', 5), (''8021as_gptp'', 6)]"
  by (simp add: shape_def avb_modules_def)

lemma shape_inj: "(n, k) \<in> set (shape avb_modules) \<Longrightarrow> (n', k') \<in> set (shape avb_modules) \<Longrightarrow>
    n \<noteq> n' \<Longrightarrow> k \<noteq> k'"
proof -
  assume n: "(n, k) \<in> set (shape avb_modules)" "(n', k') \<in> set (shape avb_modules)" "n \<noteq> n'"
  have "inj_on snd (set (shape avb_modules))"
    using distinct_map [of snd "shape avb_modules"] by (simp add: shape_avb)
  then show ?thesis using n inj_onD [of snd _ "(n, k)" "(n', k')"] by auto
qed

lemma shape_names: "shape ms = shape avb_modules \<Longrightarrow> distinct (map fst ms)"
proof -
  assume "shape ms = shape avb_modules"
  then have "map fst (shape ms) = map fst (shape avb_modules)" by simp
  moreover have "map fst (shape ms) = map fst ms" by (simp add: shape_def comp_def split_beta)
  ultimately show ?thesis by (simp add: shape_avb)
qed

lemma set_put_module:
  assumes "(svc, m0) \<in> set ms"
  shows "(n, m') \<in> set (put_module svc m ms) \<longleftrightarrow> (n = svc \<and> m' = m) \<or> (n \<noteq> svc \<and> (n, m') \<in> set ms)"
  using assms unfolding put_module_def by (cases "n = svc") (auto simp: image_iff Bex_def)

lemma shape_put: "\<lbrakk>shape ms = shape avb_modules; (svc, m0) \<in> set ms; lm_kind m = lm_kind m0\<rbrakk> \<Longrightarrow>
    shape (put_module svc m ms) = shape ms"
proof -
  assume s: "shape ms = shape avb_modules" and m: "(svc, m0) \<in> set ms" and k: "lm_kind m = lm_kind m0"
  have "m' = m0" if "(svc, m') \<in> set ms" for m'
    using eq_key_imp_eq_value [OF shape_names [OF s] that m] .
  then show ?thesis using k by (auto simp: shape_def put_module_def)
qed

lemma call_module_ok:
  assumes a: "analysis_ok a" and f: "contract f"
  shows "analysis_ok (snd (call_module f svc a))"
proof (cases "module_of svc a")
  case None
  then show ?thesis using a by (simp add: call_module_def)
next
  case (Some m)
  let ?ms = "an_modules a" and ?s = "an_shared a"
  have sh: "shape ?ms = shape avb_modules" and ok: "reg_inv ?s" "\<And>n m. (n, m) \<in> set ?ms \<Longrightarrow> module_ok ?s m"
    using a by (auto simp: analysis_ok_def)
  have mem: "(svc, m) \<in> set ?ms" using Some by (auto simp: module_of_def dest: map_of_SomeD)
  obtain m' s' where run: "f (m, Some ?s) = (m', Some s')" and k: "lm_kind m' = lm_kind m"
    and keep: "reg_inv ?s \<and> module_ok ?s m \<longrightarrow> reg_inv s' \<and> module_ok s' m'"
    and other: "\<And>m2. lm_kind m2 \<noteq> lm_kind m \<Longrightarrow> same_own m2 ?s s'"
    using f unfolding contract_def by (metis prod.collapse)
  obtain out m'' where dr: "lm_drain m' = (out, m'')" by force
  have m'': "lm_kind m'' = lm_kind m" "module_ok s' m''"
    using keep ok mem k drain_kind [of m'] drain_ok [of s' m'] dr by auto
  have res: "snd (call_module f svc a) = a\<lparr>an_shared := s', an_modules := put_module svc m'' ?ms\<rparr>"
    using Some run dr by (simp add: call_module_def)
  have "module_ok s' m2" if "(n, m2) \<in> set (put_module svc m'' ?ms)" for n m2
  proof (cases "n = svc")
    case True
    then show ?thesis using that set_put_module [OF mem] m'' by auto
  next
    case False
    then have old: "(n, m2) \<in> set ?ms" using that set_put_module [OF mem] by auto
    have "lm_kind m2 \<noteq> lm_kind m" using shape_inj [OF shape_mem [OF sh old] shape_mem [OF sh mem] False] .
    then show ?thesis using module_ok_own [OF other ok(2) [OF old]] by blast
  qed
  then show ?thesis
    using sh shape_put [OF sh mem m''(1)] keep ok mem by (auto simp: analysis_ok_def res)
qed

section \<open>A fresh analysis\<close>

text \<open>The first registration of a name wins, as with \<open>emplace\<close>.\<close>

lemma registrations_step:
  "name \<noteq> [] \<Longrightarrow> om_get (snd (reg_add name (Some m) reg)) n =
     (case om_get reg n of Some x \<Rightarrow> Some x | None \<Rightarrow> if n = name then Some m else None)"
  by (auto simp: reg_add_def om_get_set split: option.split)

lemma registrations_fold:
  assumes "[] \<notin> fst ` set ms"
  shows "om_get (fold (\<lambda>(name, m) reg. snd (reg_add name (Some m) reg)) ms reg) n =
     (case om_get reg n of Some x \<Rightarrow> Some x | None \<Rightarrow> map_of ms n)"
  using assms
proof (induction ms arbitrary: reg)
  case (Cons x ms)
  obtain name m where x: "x = (name, m)" by force
  with Cons.prems have "name \<noteq> []" and "[] \<notin> fst ` set ms" by auto
  then show ?case using Cons.IH [of "snd (reg_add name (Some m) reg)"]
    by (auto simp: x registrations_step split: option.split)
qed (auto split: option.split)

lemma registrations_get: "[] \<notin> fst ` set ms \<Longrightarrow> om_get (registrations ms) n = map_of ms n"
  by (simp add: registrations_def registrations_fold)

lemma avb_names: "map fst avb_modules = kServices"
  by (simp add: avb_modules_def kServices_def)

lemma create_modules:
  assumes "map_of ms = map_of avb_modules" and "[] \<notin> fst ` set ms"
  shows "AnalysisState_create (registrations ms) = \<lparr>an_shared = SharedModel, an_modules = avb_modules\<rparr>"
  using assms(1) by (simp add: AnalysisState_create_def reg_create_def registrations_get [OF assms(2)] kServices_def avb_modules_def)

lemma create_registered: "AnalysisState_create (registrations avb_modules) = \<lparr>an_shared = SharedModel, an_modules = avb_modules\<rparr>"
  by (rule create_modules) (auto simp: avb_modules_def)

lemma create_any_order:
  assumes "mset ms = mset avb_modules"
  shows "AnalysisState_create (registrations ms) = AnalysisState_create (registrations avb_modules)"
proof -
  have s: "set ms = set avb_modules" using assms by (rule mset_eq_setD)
  have d: "distinct (map fst avb_modules)" by (simp add: avb_names kServices_def)
  then have "distinct (map fst ms)" using assms by (metis mset_eq_imp_distinct_iff mset_map)
  then have "map_of ms = map_of avb_modules" using map_of_inject_set [OF _ d] s by blast
  moreover have "[] \<notin> fst ` set ms" by (simp add: s avb_modules_def)
  ultimately show ?thesis unfolding create_registered by (rule create_modules)
qed

lemma create_ok: "analysis_ok (AnalysisState_create (registrations avb_modules))"
  unfolding create_registered analysis_ok_def by (simp add: avb_modules_def)

section \<open>What a packet does to the pass\<close>

definition log_of :: "pass \<Rightarrow> event list" where
  "log_of p = ps_events p @ ps_batch p"

text \<open>The log without the indices.\<close>

definition entries :: "pass \<Rightarrow> event list" where
  "entries p = map (\<lambda>e. e\<lparr>ev_i := 0\<rparr>) (log_of p)"

definition numbered :: "event list \<Rightarrow> pass \<Rightarrow> bool" where
  "numbered old p \<longleftrightarrow> (\<exists>new. log_of p = old @ new \<and> map ev_i new = map of_nat [0..<length new] \<and>
     ps_eventIndex p = of_nat (length new))"

lemma push_event_sel [simp]:
  "ps_analysis (push_event e p) = ps_analysis p" "ps_devices (push_event e p) = ps_devices p"
  "ps_decodeErrors (push_event e p) = ps_decodeErrors p" "ps_protoCounts (push_event e p) = ps_protoCounts p"
  "entries (push_event e p) = entries p @ [e\<lparr>ev_i := 0\<rparr>]"
  by (simp_all add: push_event_def entries_def log_of_def)

lemma numbered_push [simp]:
  assumes "numbered old p"
  shows "numbered old (push_event e p)"
proof -
  obtain new where "log_of p = old @ new" "map ev_i new = map of_nat [0..<length new]"
    "ps_eventIndex p = of_nat (length new)" using assms by (auto simp: numbered_def)
  then show ?thesis
    unfolding numbered_def
    by (intro exI [of _ "new @ [e\<lparr>ev_i := of_nat (length new)\<rparr>]"]) (simp add: push_event_def log_of_def)
qed

lemma flush_sel [simp]:
  "ps_analysis (flush p) = ps_analysis p" "ps_devices (flush p) = ps_devices p"
  "ps_decodeErrors (flush p) = ps_decodeErrors p" "ps_protoCounts (flush p) = ps_protoCounts p"
  "entries (flush p) = entries p" "numbered old (flush p) = numbered old p" "ps_batch (flush p) = []"
  by (simp_all add: flush_def entries_def log_of_def numbered_def)

lemma flush_if: "entries (if b then flush p else p) = entries p"
  by simp

lemma pass_update_sel [simp]:
  "entries (p\<lparr>ps_analysis := a\<rparr>) = entries p" "entries (p\<lparr>ps_devices := ds\<rparr>) = entries p"
  "entries (p\<lparr>ps_decodeErrors := n\<rparr>) = entries p" "entries (p\<lparr>ps_protoCounts := c\<rparr>) = entries p"
  "numbered old (p\<lparr>ps_analysis := a\<rparr>) = numbered old p" "numbered old (p\<lparr>ps_devices := ds\<rparr>) = numbered old p"
  "numbered old (p\<lparr>ps_decodeErrors := n\<rparr>) = numbered old p" "numbered old (p\<lparr>ps_protoCounts := c\<rparr>) = numbered old p"
  by (simp_all add: entries_def log_of_def numbered_def)

text \<open>A predicate of the analysis kept by every call on a module is kept by every packet.\<close>

lemma fold_push_sel [simp]:
  "ps_analysis (fold (\<lambda>tr. push_event (ev tr)) trs p) = ps_analysis p"
  "ps_devices (fold (\<lambda>tr. push_event (ev tr)) trs p) = ps_devices p"
  "ps_decodeErrors (fold (\<lambda>tr. push_event (ev tr)) trs p) = ps_decodeErrors p"
  "ps_protoCounts (fold (\<lambda>tr. push_event (ev tr)) trs p) = ps_protoCounts p"
  "entries (fold (\<lambda>tr. push_event (ev tr)) trs p) = entries p @ map (\<lambda>tr. (ev tr)\<lparr>ev_i := 0\<rparr>) trs"
  by (induction trs arbitrary: p) simp_all

lemma numbered_fold_push [simp]: "numbered old p \<Longrightarrow> numbered old (fold (\<lambda>tr. push_event (ev tr)) trs p)"
  by (induction trs arbitrary: p) simp_all

lemma on_analysis_sel [simp]:
  "ps_analysis (on_analysis f ev p) = snd (f (ps_analysis p))"
  "ps_devices (on_analysis f ev p) = ps_devices p" "ps_decodeErrors (on_analysis f ev p) = ps_decodeErrors p"
  "ps_protoCounts (on_analysis f ev p) = ps_protoCounts p"
  "entries (on_analysis f ev p) = entries p @ map (\<lambda>tr. (ev tr)\<lparr>ev_i := 0\<rparr>) (fst (f (ps_analysis p)))"
  "numbered old p \<Longrightarrow> numbered old (on_analysis f ev p)"
  by (simp_all add: on_analysis_def case_prod_beta)

lemma fold_on_analysis_sel [simp]:
  "ps_devices (fold (\<lambda>x. on_analysis (f x) ev) xs p) = ps_devices p"
  "ps_decodeErrors (fold (\<lambda>x. on_analysis (f x) ev) xs p) = ps_decodeErrors p"
  "ps_protoCounts (fold (\<lambda>x. on_analysis (f x) ev) xs p) = ps_protoCounts p"
  "ps_analysis (fold (\<lambda>x. on_analysis (f x) ev) xs p) = fold (\<lambda>x a. snd (f x a)) xs (ps_analysis p)"
  "numbered old p \<Longrightarrow> numbered old (fold (\<lambda>x. on_analysis (f x) ev) xs p)"
  by (induction xs arbitrary: p) simp_all

lemma fold_on_analysis_entries:
  obtains trs where "entries (fold (\<lambda>x. on_analysis (f x) ev) xs p) = entries p @ map (\<lambda>tr. (ev tr)\<lparr>ev_i := 0\<rparr>) trs"
proof (induction xs arbitrary: p thesis)
  case Nil
  then show ?case using Nil [of "[]"] by simp
next
  case (Cons x xs)
  obtain trs where "entries (fold (\<lambda>x. on_analysis (f x) ev) xs (on_analysis (f x) ev p)) =
      entries (on_analysis (f x) ev p) @ map (\<lambda>tr. (ev tr)\<lparr>ev_i := 0\<rparr>) trs"
    by (rule Cons.IH)
  then show ?case using Cons.prems [of "fst (f x (ps_analysis p)) @ trs"] by simp
qed

text \<open>The analysis after a packet: its contexts fed when it decoded, then the ticks.\<close>

definition fed :: "decoded \<Rightarrow> analysis \<Rightarrow> analysis" where
  "fed d a = (if dp_ok d then fold (\<lambda>ctx a. snd (feed (stamp d ctx) a)) (dp_logicCtxs d) a else a)"

definition ticked :: "string list \<Rightarrow> double \<Rightarrow> analysis \<Rightarrow> analysis" where
  "ticked order ts = fold (\<lambda>svc a. snd (tick ts svc a)) order"

lemma packet_analysis:
  "ps_analysis (packet_step order d p) =
     (if dp_interesting d then ticked order (dp_ts d) (fed d (ps_analysis p)) else ps_analysis p)"
  by (simp add: packet_step_def Let_def tick_all_def log_packet_def deliver_def fed_def ticked_def)

lemma packet_counters:
  "ps_devices (packet_step order d p) = (if dp_interesting d then account d (ps_devices p) else ps_devices p)"
  "ps_decodeErrors (packet_step order d p) =
     ps_decodeErrors p + (if dp_interesting d \<and> \<not> dp_ok d then 1 else 0)"
  "ps_protoCounts (packet_step order d p) =
     (ps_protoCounts p)(dp_proto d := ps_protoCounts p (dp_proto d) + (if dp_interesting d \<and> dp_ok d then 1 else 0))"
  by (simp_all add: packet_step_def Let_def tick_all_def log_packet_def deliver_def)

lemma packet_numbered: "numbered old p \<Longrightarrow> numbered old (packet_step order d p)"
  by (simp add: packet_step_def Let_def tick_all_def log_packet_def deliver_def)

text \<open>A packet logs itself, then transitions at its time.\<close>

definition own_event :: "decoded \<Rightarrow> event" where
  "own_event d = (if dp_ok d then packet_event d else error_event d)"

definition transition_at :: "double \<Rightarrow> event \<Rightarrow> bool" where
  "transition_at ts e \<longleftrightarrow> ev_kind e = TransitionEv \<and> ev_ts e = ts"

lemma event_shapes [simp]:
  "transition_at (dp_ts d) ((tick_event d tr)\<lparr>ev_i := i\<rparr>)" "transition_at (dp_ts d) ((transition_event d tr)\<lparr>ev_i := i\<rparr>)"
  "ev_kind (own_event d) \<noteq> TransitionEv" "ev_ts (own_event d) = dp_ts d" "(packet_event d)\<lparr>ev_i := 0\<rparr> = packet_event d"
  "(error_event d)\<lparr>ev_i := 0\<rparr> = error_event d"
  by (simp_all add: transition_at_def tick_event_def transition_event_def own_event_def packet_event_def
      error_event_def Event_def)

lemma packet_entries:
  assumes "dp_interesting d"
  obtains trs where "entries (packet_step order d p) = entries p @ own_event d # trs"
    and "list_all (transition_at (dp_ts d)) trs"
proof -
  let ?p = "p\<lparr>ps_devices := account d (ps_devices p)\<rparr>"
  obtain t1 where t1: "entries (log_packet d ?p) = entries p @ own_event d # t1" "list_all (transition_at (dp_ts d)) t1"
  proof (cases "dp_ok d")
    case False
    then show thesis using that [of "[]"] by (simp add: log_packet_def own_event_def)
  next
    case True
    let ?q = "push_event (packet_event d) (?p\<lparr>ps_protoCounts := (ps_protoCounts ?p)(dp_proto d := ps_protoCounts ?p (dp_proto d) + 1)\<rparr>)"
    obtain trs where "entries (deliver d ?q) = entries ?q @ map (\<lambda>tr. (transition_event d tr)\<lparr>ev_i := 0\<rparr>) trs"
      unfolding deliver_def by (rule fold_on_analysis_entries)
    then show thesis using that [of "map (\<lambda>tr. (transition_event d tr)\<lparr>ev_i := 0\<rparr>) trs"] True
      by (simp add: log_packet_def own_event_def list_all_iff)
  qed
  obtain trs where "entries (tick_all order d (log_packet d ?p)) =
      entries (log_packet d ?p) @ map (\<lambda>tr. (tick_event d tr)\<lparr>ev_i := 0\<rparr>) trs"
    unfolding tick_all_def by (rule fold_on_analysis_entries)
  then have "entries (packet_step order d p) =
      entries p @ own_event d # t1 @ map (\<lambda>tr. (tick_event d tr)\<lparr>ev_i := 0\<rparr>) trs"
    using t1(1) assms by (simp add: packet_step_def Let_def flush_if)
  then show thesis by (rule that) (use t1(2) in \<open>auto simp: list_all_iff\<close>)
qed

section \<open>The whole pass\<close>

lemma state_pass_analysis: "ps_analysis (state_pass order ds p) = ps_analysis (fold (packet_step order) ds p)"
  by (simp add: state_pass_def)

lemma analysis_ok_packet: "analysis_ok (ps_analysis p) \<Longrightarrow> analysis_ok (ps_analysis (packet_step order d p))"
proof -
  assume ok: "analysis_ok (ps_analysis p)"
  have fed: "analysis_ok a \<Longrightarrow> analysis_ok (fed d a)" for a
  proof -
    have "analysis_ok a \<Longrightarrow> analysis_ok (fold (\<lambda>ctx a. snd (feed (stamp d ctx) a)) cs a)" for cs
      by (induction cs arbitrary: a) (simp_all add: feed_def call_module_ok decode_contract)
    then show "analysis_ok a \<Longrightarrow> analysis_ok (fed d a)" by (simp add: fed_def)
  qed
  have "analysis_ok a \<Longrightarrow> analysis_ok (ticked order ts a)" for a ts
    unfolding ticked_def
    by (induction order arbitrary: a) (simp_all add: tick_def call_module_ok tick_contract)
  with fed ok show ?thesis by (simp add: packet_analysis)
qed

lemma analysis_ok_pass:
  assumes "analysis_ok (ps_analysis p)"
  shows "analysis_ok (ps_analysis (state_pass order ds p))"
proof -
  have "analysis_ok (ps_analysis (fold (packet_step order) ds p))"
    using assms by (induction ds arbitrary: p) (simp_all add: analysis_ok_packet)
  then show ?thesis by (simp add: state_pass_analysis)
qed

lemma numbered_pass:
  assumes "numbered old p"
  shows "numbered old (state_pass order ds p)" and "ps_batch (state_pass order ds p) = []"
proof -
  have "numbered old (fold (packet_step order) ds p)"
    using assms by (induction ds arbitrary: p) (simp_all add: packet_numbered)
  then show "numbered old (state_pass order ds p)" "ps_batch (state_pass order ds p) = []"
    by (simp_all add: state_pass_def)
qed

lemma pass_init_sel [simp]: "ps_analysis (pass_init s a) = a" "numbered (se_events s) (pass_init s a)"
  "entries (pass_init s a) = map (\<lambda>e. e\<lparr>ev_i := 0\<rparr>) (se_events s)" "ps_devices (pass_init s a) = se_devices s"
  "ps_decodeErrors (pass_init s a) = se_decodeErrors s" "ps_protoCounts (pass_init s a) = se_protoCounts s"
  by (simp_all add: pass_init_def numbered_def entries_def log_of_def)

text \<open>The entries a list of packets adds: per interesting packet its own event and transitions.\<close>

lemma fold_entries:
  obtains tss where "length tss = length (filter dp_interesting ds)"
    and "entries (fold (packet_step order) ds p) =
      entries p @ concat (map (\<lambda>(d, ts). own_event d # ts) (zip (filter dp_interesting ds) tss))"
    and "\<forall>(d, ts) \<in> set (zip (filter dp_interesting ds) tss). list_all (transition_at (dp_ts d)) ts"
proof (induction ds arbitrary: p thesis)
  case Nil
  then show ?case using Nil [of "[]"] by simp
next
  case (Cons d ds)
  obtain tss where tss: "length tss = length (filter dp_interesting ds)"
    "entries (fold (packet_step order) ds (packet_step order d p)) = entries (packet_step order d p) @
       concat (map (\<lambda>(d, ts). own_event d # ts) (zip (filter dp_interesting ds) tss))"
    "\<forall>(d, ts) \<in> set (zip (filter dp_interesting ds) tss). list_all (transition_at (dp_ts d)) ts"
    by (rule Cons.IH)
  show ?case
  proof (cases "dp_interesting d")
    case True
    obtain trs where "entries (packet_step order d p) = entries p @ own_event d # trs"
      "list_all (transition_at (dp_ts d)) trs" by (rule packet_entries [OF True])
    then show ?thesis using tss True Cons.prems [of "trs # tss"] by simp
  next
    case False
    then have "packet_step order d p = p" by (simp add: packet_step_def)
    then show ?thesis using tss False Cons.prems [of tss] by simp
  qed
qed

lemma own_events:
  assumes "length tss = length ds" and "\<forall>(d, ts) \<in> set (zip ds tss). list_all (transition_at (dp_ts d)) ts"
  shows "filter (\<lambda>e. ev_kind e \<noteq> TransitionEv) (concat (map (\<lambda>(d, ts). own_event d # ts) (zip ds tss))) =
    map own_event ds"
  using assms
proof (induction ds tss rule: list_induct2')
  case (4 d ds ts tss)
  have "filter (\<lambda>e. ev_kind e \<noteq> TransitionEv) ts = []"
    using 4 by (auto simp: filter_empty_conv list_all_iff transition_at_def)
  then show ?case using 4 by simp
qed simp_all

lemma event_times:
  assumes "length tss = length ds" and "\<forall>(d, ts) \<in> set (zip ds tss). list_all (transition_at (dp_ts d)) ts"
    and "sorted (map dp_ts ds)"
  shows "sorted (map ev_ts (concat (map (\<lambda>(d, ts). own_event d # ts) (zip ds tss)))) \<and>
    ev_ts ` set (concat (map (\<lambda>(d, ts). own_event d # ts) (zip ds tss))) \<subseteq> dp_ts ` set ds"
  using assms
proof (induction ds tss rule: list_induct2')
  case (4 d ds ts tss)
  let ?rest = "concat (map (\<lambda>(d, ts). own_event d # ts) (zip ds tss))"
  have ts: "\<forall>e \<in> set ts. ev_ts e = dp_ts d" using 4 by (auto simp: list_all_iff transition_at_def)
  have rest: "sorted (map ev_ts ?rest)" "ev_ts ` set ?rest \<subseteq> dp_ts ` set ds" using 4 by simp_all
  have "\<forall>x \<in> dp_ts ` set ds. dp_ts d \<le> x" using 4 by auto
  then have le: "\<forall>e \<in> set ?rest. dp_ts d \<le> ev_ts e" using rest(2) by blast
  have sts: "sorted (map ev_ts ts)" using ts by (induction ts) auto
  have "sorted (map ev_ts (own_event d # ts @ ?rest))"
    using rest(1) sts ts le by (auto simp: sorted_append)
  moreover have "ev_ts ` set (own_event d # ts @ ?rest) \<subseteq> dp_ts ` set (d # ds)"
  proof -
    have "ev_ts ` set ts \<subseteq> {dp_ts d}" using ts by auto
    with rest(2) show ?thesis
      unfolding list.set(2) set_append image_insert image_Un event_shapes(4) by blast
  qed
  ultimately show ?case by simp
qed simp_all

section \<open>The decoded packets in capture order\<close>

lemma those_Some_nth: "those (map g xs) = Some ys \<Longrightarrow> length ys = length xs \<and> (\<forall>i < length xs. g (xs ! i) = Some (ys ! i))"
proof (induction xs arbitrary: ys)
  case (Cons x xs)
  then obtain y zs where g: "g x = Some y" and zs: "those (map g xs) = Some zs" and ys: "ys = y # zs"
    by (auto split: option.splits)
  show ?case using Cons.IH [OF zs] g by (auto simp: ys nth_Cons split: nat.split)
qed simp

lemma those_total: "(\<And>x. x \<in> set xs \<Longrightarrow> g x \<noteq> None) \<Longrightarrow> those (map g xs) \<noteq> None"
  by (induction xs) (auto split: option.split)

lemma decodePacket_total: "decodePacket frame out \<noteq> None"
  by (rule decodePacket_cases [of frame out]) simp_all

lemma decode_one_total: "in_file (mData f) (mPackets f ! i) \<Longrightarrow> decode_one f i \<noteq> None"
  by (simp add: decode_one_def packetData_def decodePacket_total del: not_None_eq)

lemma decodeAll_total:
  assumes "set sched = {0..<length (mPackets f)}" and "list_all (in_file (mData f)) (mPackets f)"
  shows "\<exists>ds. decodeAll f sched = Some ds"
proof -
  have "those (map g xs) \<noteq> None" if "\<forall>x \<in> set xs. g x \<noteq> None" for g :: "nat \<Rightarrow> decoded option" and xs
    using that by (induction xs) (auto split: option.splits)
  moreover have "\<forall>i \<in> set [0..<length (mPackets f)]. decode_one f i \<noteq> None"
    using assms(2) by (auto simp: list_all_length dest: decode_one_total)
  ultimately show ?thesis unfolding decodeAll_schedule [OF assms(1)] by blast
qed

lemma decode_one_stamp:
  assumes "decode_one f i = Some d"
  shows "dp_num d = of_nat i + 1" and "dp_ts d = relTs f i"
  using assms decodePacket_stamp by (auto simp: decode_one_def split: option.splits)

definition first_is_earliest :: "pcap_file \<Rightarrow> bool" where
  "first_is_earliest f \<longleftrightarrow> list_all (\<lambda>p. pk_tsNanos (hd (mPackets f)) \<le> pk_tsNanos p) (mPackets f)"

lemma relTs_mono:
  assumes "first_is_earliest f" and "i < length (mPackets f)" and "j < length (mPackets f)"
    and "pk_tsNanos (mPackets f ! i) \<le> pk_tsNanos (mPackets f ! j)"
  shows "relTs f i \<le> relTs f j"
proof -
  let ?t = "\<lambda>i. pk_tsNanos (mPackets f ! i)" and ?z = "pk_tsNanos (hd (mPackets f))"
  have z: "?z \<le> ?t i" "?z \<le> ?t j" using assms(1,2,3) by (auto simp: first_is_earliest_def list_all_length)
  have "unat (?t i - ?z) \<le> unat (?t j - ?z)"
    using z assms(4) by (simp add: unat_sub word_le_nat_alt)
  then have "real (unat (?t i - ?z)) \<le> real (unat (?t j - ?z))" by (rule of_nat_mono)
  then show ?thesis unfolding relTs_def by (simp only: divide_right_mono if_distrib split: if_split) simp
qed

lemma capture_order_set: "set (capture_order f) = {0..<length (mPackets f)}"
  by (simp add: capture_order_def)

lemma capture_order_times:
  assumes "first_is_earliest f" and "decodeAll f sched = Some ds" and "set sched = {0..<length (mPackets f)}"
  shows "sorted (map dp_ts (map (\<lambda>i. ds ! i) (capture_order f)))"
proof -
  let ?n = "length (mPackets f)"
  have "those (map (decode_one f) [0..<?n]) = Some ds" using assms(2) decodeAll_schedule [OF assms(3)] by simp
  from those_Some_nth [OF this] have ds: "\<And>i. i < ?n \<Longrightarrow> decode_one f i = Some (ds ! i)" by simp
  have ts: "dp_ts (ds ! i) = relTs f i" if "i < ?n" for i using decode_one_stamp(2) [OF ds [OF that]] .
  have "sorted_wrt (\<lambda>i j. pk_tsNanos (mPackets f ! i) \<le> pk_tsNanos (mPackets f ! j)) (capture_order f)"
    using sorted_sort_key [of "\<lambda>i. pk_tsNanos (mPackets f ! i)" "[0..<?n]"]
    by (simp add: capture_order_def sorted_map)
  then have "sorted_wrt (\<lambda>i j. dp_ts (ds ! i) \<le> dp_ts (ds ! j)) (capture_order f)"
    by (rule sorted_wrt_mono_rel [rotated]) (use ts relTs_mono [OF assms(1)] capture_order_set in auto)
  then show ?thesis by (simp add: sorted_map sorted_wrt_map)
qed

section \<open>Nothing overdue after the ticks\<close>

lemma call_other: "svc' \<noteq> svc \<Longrightarrow> module_of svc' (snd (call_module f svc a)) = module_of svc' a"
proof -
  assume n: "svc' \<noteq> svc"
  have "map_of (put_module svc m ms) svc' = map_of ms svc'" for m ms
    using n by (induction ms) (auto simp: put_module_def)
  then show ?thesis by (simp add: call_module_def module_of_def split: option.split prod.split)
qed

lemma call_same: "module_of svc a = Some m \<Longrightarrow>
    module_of svc (snd (call_module f svc a)) = Some (snd (lm_drain (fst (f (m, Some (an_shared a))))))"
proof -
  assume m: "module_of svc a = Some m"
  have "map_of ms svc = Some m0 \<Longrightarrow> map_of (put_module svc m1 ms) svc = Some m1" for m0 m1 ms
    by (induction ms) (auto simp: put_module_def split: if_splits)
  with m show ?thesis by (auto simp: call_module_def module_of_def split: prod.split)
qed

lemma call_none: "module_of svc a = None \<Longrightarrow> snd (call_module f svc a) = a"
  by (simp add: call_module_def)

lemma ticked_module:
  assumes "svc \<in> set order" and "module_of svc (ticked order ts a) = Some m"
  shows "\<exists>m0 sh. m = snd (lm_drain (fst (lm_onTimeTick ts (m0, Some sh))))"
  using assms
proof (induction order arbitrary: m rule: rev_induct)
  case (snoc x order)
  let ?b = "ticked order ts a"
  have last: "ticked (order @ [x]) ts a = snd (call_module (lm_onTimeTick ts) x ?b)"
    by (simp add: ticked_def tick_def)
  show ?case
  proof (cases "x = svc")
    case True
    then show ?thesis
      using snoc.prems(2) call_same [of svc ?b] call_none [of svc ?b] unfolding last
      by (cases "module_of svc ?b") auto
  next
    case False
    then show ?thesis using snoc call_other [of svc x] unfolding last by auto
  qed
qed simp

definition fresh :: "double \<Rightarrow> logic_module \<Rightarrow> bool" where
  "fresh ts m = (case m of
     AdpM a \<Rightarrow> om_all (\<lambda>_ e. en_state e = ''AVAILABLE'' \<and> en_validTime e > 0 \<longrightarrow> ts \<le> en_lastSeen e + en_validTime e) (mEntities a)
   | AecpM a \<Rightarrow> om_all (\<lambda>_ f. \<not> overdue ts f) (mInflight a)
   | AcmpM a \<Rightarrow> om_all (\<lambda>k f. \<not> acmp_overdue ts k f) (ac_inflight a)
   | GptpM g \<Rightarrow> om_all (\<lambda>_ d. dom_current ts d) (gp_domains g)
   | _ \<Rightarrow> True)"

lemma adp_tick_fresh: "om_all (\<lambda>_ e. en_state e = ''AVAILABLE'' \<and> en_validTime e > 0 \<longrightarrow>
    ts \<le> en_lastSeen e + en_validTime e) (mEntities (fst (adp_onTimeTick ts (m, sh))))"
proof -
  have "om_all (\<lambda>_ e. en_state e = ''AVAILABLE'' \<and> en_validTime e > 0 \<longrightarrow> ts \<le> en_lastSeen e + en_validTime e)
      (fst (om_iter (adp_expire ts) (mEntities m) (sh, ad_pending m)))"
    by (rule om_all_iter [where P = "\<lambda>_ _. True"]) (auto simp: adp_expire_def om_all_def)
  then show ?thesis by (simp add: adp_onTimeTick_def case_prod_beta)
qed

lemma tick_fresh: "fresh ts (snd (lm_drain (fst (lm_onTimeTick ts (m, sh)))))"
proof (cases m)
  case (AdpM a)
  then show ?thesis using adp_tick_fresh [of ts a sh]
    by (cases "adp_onTimeTick ts (a, sh)") (simp add: fresh_def)
next
  case (GptpM g)
  then show ?thesis using gptp_tick_domains [of ts "(g, sh)"]
    by (cases "gptp_onTimeTick ts (g, sh)") (simp add: fresh_def)
next
  case (MvrpM m)
  then show ?thesis by (simp add: fresh_def mvrp_onTimeTick_def)
qed (auto simp: fresh_def tick_inflight acmp_tick_inflight om_all_def)

section \<open>Counters and inventory\<close>

definition logged :: "decoded list \<Rightarrow> decoded list" where
  "logged ds = filter dp_interesting ds"

lemma logged_simps [simp]: "logged [] = []" "logged (d # ds) = (if dp_interesting d then d # logged ds else logged ds)"
  by (simp_all add: logged_def)

lemma pass_counters:
  "ps_decodeErrors (state_pass order ds p) =
     ps_decodeErrors p + of_nat (length (filter (\<lambda>d. \<not> dp_ok d) (logged ds)))"
  "ps_protoCounts (state_pass order ds p) q =
     ps_protoCounts p q + of_nat (length (filter (\<lambda>d. dp_ok d \<and> dp_proto d = q) (logged ds)))"
proof -
  have "ps_decodeErrors (fold (packet_step order) ds p) =
      ps_decodeErrors p + of_nat (length (filter (\<lambda>d. \<not> dp_ok d) (logged ds)))"
    by (induction ds arbitrary: p) (simp_all add: packet_counters algebra_simps)
  then show "ps_decodeErrors (state_pass order ds p) =
      ps_decodeErrors p + of_nat (length (filter (\<lambda>d. \<not> dp_ok d) (logged ds)))" by (simp add: state_pass_def)
  have "ps_protoCounts (fold (packet_step order) ds p) q =
      ps_protoCounts p q + of_nat (length (filter (\<lambda>d. dp_ok d \<and> dp_proto d = q) (logged ds)))"
    by (induction ds arbitrary: p) (auto simp: packet_counters algebra_simps)
  then show "ps_protoCounts (state_pass order ds p) q =
      ps_protoCounts p q + of_nat (length (filter (\<lambda>d. dp_ok d \<and> dp_proto d = q) (logged ds)))"
    by (simp add: state_pass_def)
qed

definition from_mac :: "u64 \<Rightarrow> decoded list \<Rightarrow> decoded list" where
  "from_mac mac ds = filter (\<lambda>d. dp_srcMac d = mac) (logged ds)"

lemma associate_sel [simp]: "dv_packets (associate p ctx dev) = dv_packets dev"
  "dv_protoMask (associate p ctx dev) = dv_protoMask dev"
  by (simp_all add: associate_def Let_def)

lemma fold_associate_sel [simp]: "dv_packets (fold (associate p) cs dev) = dv_packets dev"
  "dv_protoMask (fold (associate p) cs dev) = dv_protoMask dev"
  by (induction cs arbitrary: dev) simp_all

text \<open>A known entity is among the associated ones.\<close>

definition device_ok :: "device \<Rightarrow> bool" where
  "device_ok dev \<longleftrightarrow> dv_entityId dev = 0 \<or> dv_entityId dev \<in> dv_assocIds dev"

lemma device_ok_associate: "device_ok (associate p ctx dev)"
  by (auto simp: device_ok_def associate_def insert_id_def Let_def)

lemma device_ok_fold: "device_ok dev \<Longrightarrow> device_ok (fold (associate p) cs dev)"
  by (induction cs arbitrary: dev) (simp_all add: device_ok_associate)

lemma device_ok_account: "om_all (\<lambda>_. device_ok) devs \<Longrightarrow> om_all (\<lambda>_. device_ok) (account d devs)"
proof -
  assume all: "om_all (\<lambda>_. device_ok) devs"
  have "device_ok (om_at DeviceInfo devs k)" for k
    by (rule om_all_at [where P = "\<lambda>_. device_ok", OF all]) (simp add: device_ok_def DeviceInfo_def)
  then show ?thesis unfolding account_def Let_def
    by (auto intro!: om_all_set all device_ok_fold simp: device_ok_def)
qed

lemma account_packets: "mac \<noteq> 0 \<Longrightarrow> dv_packets (om_at DeviceInfo (account d devs) mac) =
    dv_packets (om_at DeviceInfo devs mac) + (if dp_srcMac d = mac then 1 else 0)"
  by (auto simp: account_def Let_def om_at_set)

lemma account_mask: "mac \<noteq> 0 \<Longrightarrow> dv_protoMask (om_at DeviceInfo (account d devs) mac) =
    (if dp_srcMac d = mac then dv_protoMask (om_at DeviceInfo devs mac) OR push_bit (proto_id (dp_proto d)) 1
     else dv_protoMask (om_at DeviceInfo devs mac))"
  by (auto simp: account_def Let_def om_at_set)

lemma proto_id_bit [simp]: "bit ((2 :: u32) ^ proto_id p) (proto_id q) \<longleftrightarrow> p = q"
proof -
  have "proto_id q < 32" by (cases q) (simp_all add: proto_id_def)
  then show ?thesis by (auto simp: bit_exp_iff)
qed

lemma pass_devices:
  assumes "mac \<noteq> 0"
  shows "dv_packets (om_at DeviceInfo (ps_devices (fold (packet_step order) ds p)) mac) =
     dv_packets (om_at DeviceInfo (ps_devices p) mac) + of_nat (length (from_mac mac ds))"
    and "bit (dv_protoMask (om_at DeviceInfo (ps_devices (fold (packet_step order) ds p)) mac)) (proto_id q) \<longleftrightarrow>
     bit (dv_protoMask (om_at DeviceInfo (ps_devices p) mac)) (proto_id q) \<or> q \<in> dp_proto ` set (from_mac mac ds)"
proof (induction ds arbitrary: p)
  case (Cons d ds)
  {
    case 1
    then show ?case using Cons(1) [of "packet_step order d p"] assms
      by (simp add: packet_counters account_packets from_mac_def)
  next
    case 2
    then show ?case using Cons(2) [of "packet_step order d p"] assms
      by (auto simp: packet_counters account_mask from_mac_def bit_or_iff)
  }
qed (simp_all add: from_mac_def)

lemma pass_devices_ok:
  "om_all (\<lambda>_. device_ok) (ps_devices p) \<Longrightarrow> om_all (\<lambda>_. device_ok) (ps_devices (state_pass order ds p))"
proof -
  have "om_all (\<lambda>_. device_ok) (ps_devices p) \<Longrightarrow> om_all (\<lambda>_. device_ok) (ps_devices (fold (packet_step order) ds p))"
    by (induction ds arbitrary: p) (simp_all add: packet_counters device_ok_account)
  then show "om_all (\<lambda>_. device_ok) (ps_devices p) \<Longrightarrow> om_all (\<lambda>_. device_ok) (ps_devices (state_pass order ds p))"
    by (simp add: state_pass_def)
qed

section \<open>The modules of a consistent analysis\<close>

lemma analysis_module:
  assumes "analysis_ok a" and "(svc, k) \<in> set (shape avb_modules)"
  obtains m where "module_of svc a = Some m" and "lm_kind m = k" and "module_ok (an_shared a) m"
proof -
  have sh: "shape (an_modules a) = shape avb_modules" using assms(1) by (simp add: analysis_ok_def)
  with assms(2) have "(svc, k) \<in> set (shape (an_modules a))" by simp
  then obtain m where m: "(svc, m) \<in> set (an_modules a)" "lm_kind m = k" by (auto simp: shape_def)
  then have "module_of svc a = Some m" using shape_names [OF sh] by (simp add: module_of_def)
  with m that assms(1) show thesis by (auto simp: analysis_ok_def)
qed

lemma analysis_adp:
  assumes "analysis_ok a"
  obtains e where "module_of ''atdecc_adp'' a = Some (AdpM e)" "adp_published e (an_shared a)" "adp_inv e"
proof -
  obtain m where "module_of ''atdecc_adp'' a = Some m" "lm_kind m = 0" "module_ok (an_shared a) m"
    by (rule analysis_module [OF assms, of "''atdecc_adp''" 0]) (auto simp: shape_avb)
  then show thesis using that by (cases m) auto
qed

lemma analysis_msrp:
  assumes "analysis_ok a"
  obtains r where "module_of ''mrp_msrp'' a = Some (MsrpM r)" "msrp_published r (an_shared a)" "msrp_inv r"
proof -
  obtain m where "module_of ''mrp_msrp'' a = Some m" "lm_kind m = 1" "module_ok (an_shared a) m"
    by (rule analysis_module [OF assms, of "''mrp_msrp''" 1]) (auto simp: shape_avb)
  then show thesis using that by (cases m) auto
qed

lemma analysis_mvrp:
  assumes "analysis_ok a"
  obtains r where "module_of ''mrp_mvrp'' a = Some (MvrpM r)" "mvrp_inv r"
proof -
  obtain m where "module_of ''mrp_mvrp'' a = Some m" "lm_kind m = 2" "module_ok (an_shared a) m"
    by (rule analysis_module [OF assms, of "''mrp_mvrp''" 2]) (auto simp: shape_avb)
  then show thesis using that by (cases m) auto
qed

lemma analysis_acmp:
  assumes "analysis_ok a"
  obtains r where "module_of ''atdecc_acmp'' a = Some (AcmpM r)" "acmp_inv r"
proof -
  obtain m where "module_of ''atdecc_acmp'' a = Some m" "lm_kind m = 4" "module_ok (an_shared a) m"
    by (rule analysis_module [OF assms, of "''atdecc_acmp''" 4]) (auto simp: shape_avb)
  then show thesis using that by (cases m) auto
qed

lemma analysis_gptp:
  assumes "analysis_ok a"
  obtains r where "module_of ''8021as_gptp'' a = Some (GptpM r)" "gptp_good r (an_shared a)"
proof -
  obtain m where "module_of ''8021as_gptp'' a = Some m" "lm_kind m = 6" "module_ok (an_shared a) m"
    by (rule analysis_module [OF assms, of "''8021as_gptp''" 6]) (auto simp: shape_avb)
  then show thesis using that by (cases m) auto
qed

text \<open>The analysis of a session after some packets.\<close>

definition analysis_after :: "string list \<Rightarrow> decoded list \<Rightarrow> session \<Rightarrow> analysis" where
  "analysis_after order ds s =
     ps_analysis (state_pass order ds (pass_init s (AnalysisState_create (registrations avb_modules))))"

lemma analysis_after_ok: "analysis_ok (analysis_after order ds s)"
  unfolding analysis_after_def by (rule analysis_ok_pass) (simp add: create_ok)

lemma analysis_after_last:
  assumes "dp_interesting d"
  shows "analysis_after order (ds @ [d]) s = ticked order (dp_ts d) (fed d (analysis_after order ds s))"
  using assms by (simp add: analysis_after_def state_pass_analysis packet_analysis)

end
