(* ===== verification/Ratelimit.thy ===== *)
theory Ratelimit
  imports Prelude
begin

text \<open>
  \<open>backend/src/util/ratelimit.h\<close>: the token buckets.  The readings of the steady clock are
  arguments, in seconds: \<open>now\<close>, and \<open>pnow\<close> for the reading the pruning takes itself.  The
  \<open>unordered_map\<close> is an ordered one; no operation depends on the order.  The lemmas bound what a
  key is granted over a span of time, and show when a caller told to wait is served.
\<close>

section \<open>The limiter\<close>

record bucket =
  tokens :: double
  b_last :: double

type_synonym limiter = "(string, bucket) omap"

definition rl_prune :: "double \<Rightarrow> double \<Rightarrow> limiter \<Rightarrow> limiter" where
  "rl_prune burst now m = filter (\<lambda>(k, b). \<not> (now - b_last b > 300 \<or> tokens b \<ge> burst)) m"

text \<open>The bucket a call finds: a fresh one is full, another has refilled since its last call.\<close>

definition refilled :: "double \<Rightarrow> double \<Rightarrow> double \<Rightarrow> bucket option \<Rightarrow> bucket" where
  "refilled rate burst now bo =
     (case bo of
        None \<Rightarrow> \<lparr>tokens = burst, b_last = now\<rparr>
      | Some b \<Rightarrow> \<lparr>tokens = min burst (tokens b + (now - b_last b) * rate), b_last = now\<rparr>)"

text \<open>The answer, the seconds until a token is there, and the bucket left.\<close>

definition take_token :: "double \<Rightarrow> bucket \<Rightarrow> bool \<times> double \<times> bucket" where
  "take_token rate b =
     (if tokens b \<ge> 1 then (True, 0, b\<lparr>tokens := tokens b - 1\<rparr>) else (False, (1 - tokens b) / rate, b))"

definition slowed :: "double \<Rightarrow> double \<Rightarrow> double" where
  "slowed rate penalty = rate / (if penalty < 1 then 1 else penalty)"

definition allow ::
    "string \<Rightarrow> double \<Rightarrow> double \<Rightarrow> double \<Rightarrow> double \<Rightarrow> double \<Rightarrow> limiter \<Rightarrow> bool \<times> double option \<times> limiter" where
  "allow key ratePerSec burst penalty pnow now m =
     (if ratePerSec \<le> 0 \<or> burst \<le> 0 then (True, None, m)
      else let rate = slowed ratePerSec penalty;
               m1 = (if length m > 8192 then rl_prune burst pnow m else m)
           in case take_token rate (refilled rate burst now (om_get m1 key)) of
                (ok, retryAfter, b) \<Rightarrow> (ok, Some retryAfter, om_set key b m1))"

definition enabled :: "double \<Rightarrow> double \<Rightarrow> bool" where
  "enabled rate burst \<longleftrightarrow> 0 < rate \<and> 0 < burst"

lemma slowed_pos: "0 < rate \<Longrightarrow> 0 < slowed rate penalty"
  by (simp add: slowed_def)

lemma slowed_le: "0 < rate \<Longrightarrow> slowed rate penalty \<le> rate"
  by (simp add: slowed_def divide_le_eq)

lemma allow_simple:
  assumes "enabled rate burst" and "length m \<le> 8192"
  shows "allow key rate burst pen pnow now m =
    (case take_token (slowed rate pen) (refilled (slowed rate pen) burst now (om_get m key)) of
       (ok, w, b) \<Rightarrow> (ok, Some w, om_set key b m))"
  using assms by (simp add: allow_def enabled_def Let_def)

lemma refilled_last [simp]: "b_last (refilled rate burst now bo) = now"
  by (simp add: refilled_def split: option.split)

lemma take_token_last [simp]: "b_last (snd (snd (take_token rate b))) = b_last b"
  by (simp add: take_token_def)

lemma take_token_count:
  "take_token rate b = (ok, w, b') \<Longrightarrow> b_last b' = b_last b \<and> (if ok then 1 else 0) + max 0 (tokens b') = max 0 (tokens b)"
  by (cases "tokens b \<ge> 1") (auto simp: take_token_def)

section \<open>The invariant\<close>

definition bucket_ok :: "double \<Rightarrow> bucket \<Rightarrow> bool" where
  "bucket_ok now b \<longleftrightarrow> 0 \<le> tokens b \<and> b_last b \<le> now"

lemma refilled_ok:
  assumes "0 < rate" and "0 < burst" and "\<forall>b. bo = Some b \<longrightarrow> bucket_ok now b"
  shows "bucket_ok now (refilled rate burst now bo)"
  using assms by (auto simp: refilled_def bucket_ok_def split: option.split)

lemma take_token_ok: "bucket_ok now b \<Longrightarrow> bucket_ok now (snd (snd (take_token rate b)))"
  by (simp add: take_token_def bucket_ok_def)

lemma allow_ok:
  assumes "om_all (\<lambda>_. bucket_ok t0) m" and "t0 \<le> now"
  shows "om_all (\<lambda>_. bucket_ok now) (snd (snd (allow key rate burst pen pnow now m)))"
proof (cases "rate \<le> 0 \<or> burst \<le> 0")
  case True
  then show ?thesis using assms by (auto simp: allow_def om_all_def bucket_ok_def)
next
  case False
  let ?m1 = "if length m > 8192 then rl_prune burst pnow m else m"
  have m1: "om_all (\<lambda>_. bucket_ok now) ?m1"
    using assms by (auto simp: om_all_def bucket_ok_def rl_prune_def)
  have "bucket_ok now (refilled (slowed rate pen) burst now (om_get ?m1 key))"
    using False om_all_get [OF m1] by (intro refilled_ok) (auto simp: slowed_pos)
  then show ?thesis
    using False m1 take_token_ok by (simp add: allow_def Let_def case_prod_beta om_all_set)
qed

section \<open>How much a key gets\<close>

text \<open>Calls of any keys, one after the other: each with its key, rate, burst, penalty and time.  The
  answers name the key.\<close>

type_synonym call = "string \<times> double \<times> double \<times> double \<times> double"

fun call_time :: "call \<Rightarrow> double" where
  "call_time (k, rate, burst, pen, now) = now"

fun call_limits :: "string \<Rightarrow> double \<Rightarrow> double \<Rightarrow> call \<Rightarrow> bool" where
  "call_limits key rate burst (k, r, b, pen, now) \<longleftrightarrow> (if k = key then r = rate \<and> b = burst else True)"

fun serve :: "call list \<Rightarrow> limiter \<Rightarrow> (string \<times> bool) list" where
  "serve [] m = []"
| "serve ((k, rate, burst, pen, now) # rest) m =
     (case allow k rate burst pen now now m of (ok, _, m') \<Rightarrow> (k, ok) # serve rest m')"

definition granted :: "string \<Rightarrow> (string \<times> bool) list \<Rightarrow> nat" where
  "granted key answers = length (filter (\<lambda>(k, ok). k = key \<and> ok) answers)"

lemma granted_Nil [simp]: "granted key [] = 0"
  by (simp add: granted_def)

lemma granted_Cons [simp]: "granted key ((k, ok) # xs) = (if k = key \<and> ok then 1 else 0) + granted key xs"
  by (simp add: granted_def)

lemma bucket_set_length: "om_ok m \<Longrightarrow> length (om_set k v m) = (if om_get m k = None then length m + 1 else length m)"
proof (induction k v m rule: om_set.induct)
  case (2 k v k' v' m)
  have "om_get m k = None" if "k < k'"
    using "2.prems" that by (fastforce simp: om_ok_Cons map_of_eq_None_iff)
  with 2 show ?case by (auto simp: om_ok_Cons)
qed simp

text \<open>Without pruning a call touches its own bucket only, and adds at most one.\<close>

lemma allow_frame:
  assumes "length m \<le> 8192" and "om_ok m" and "allow k rate burst pen pnow now m = (ok, w, m')"
  shows "om_ok m' \<and> length m' \<le> length m + 1 \<and> (\<forall>key. key \<noteq> k \<longrightarrow> om_get m' key = om_get m key)"
proof (cases "rate \<le> 0 \<or> burst \<le> 0")
  case True
  then show ?thesis using assms by (auto simp: allow_def)
next
  case False
  then obtain b where "m' = om_set k b m"
    using assms(1,3) by (auto simp: allow_def Let_def case_prod_beta)
  then show ?thesis using assms(2) by (auto simp: bucket_set_length om_get_set)
qed

lemma granted_step:
  fixes n g p t tok :: real
  assumes "n \<le> max 0 p + r2" and "r = r1 + r2" and "0 \<le> r1" and "t \<le> tok + r1" and "g + max 0 p = max 0 t"
  shows "g + n \<le> max 0 tok + r"
  using assms by (auto simp: max_def split: if_splits)

text \<open>From a bucket: what it holds and what refills until the end of the span.\<close>

lemma serve_bound_from:
  assumes "enabled rate burst" and "sorted (map call_time calls)" and "list_all (call_limits key rate burst) calls"
    and "om_get m key = Some b" and "\<forall>c \<in> set calls. b_last b \<le> call_time c \<and> call_time c \<le> until"
    and "b_last b \<le> until" and "length m + length calls \<le> 8192" and "om_ok m"
  shows "real (granted key (serve calls m)) \<le> max 0 (tokens b) + rate * (until - b_last b)"
  using assms(2-8)
proof (induction calls arbitrary: m b)
  case Nil
  then show ?case using assms(1) by (simp add: enabled_def)
next
  case (Cons c calls)
  obtain k r bu pen now where c: "c = (k, r, bu, pen, now)" by (cases c) blast
  obtain ok w m' where al: "allow k r bu pen now now m = (ok, w, m')" by (metis prod_cases3)
  have m: "length m \<le> 8192" using Cons.prems(6) by simp
  have fr: "om_ok m'" "length m' + length calls \<le> 8192" "key \<noteq> k \<longrightarrow> om_get m' key = om_get m key"
    using allow_frame [OF m Cons.prems(7) al] Cons.prems(6) by auto
  have rest: "sorted (map call_time calls)" "list_all (call_limits key rate burst) calls" using Cons.prems(1,2) by simp_all
  have now: "b_last b \<le> now" "now \<le> until" using Cons.prems(4) by (auto simp: c)
  show ?case
  proof (cases "k = key")
    case False
    then show ?thesis
      using Cons.IH [OF rest _ _ Cons.prems(5) fr(2,1), of] fr(3) Cons.prems(3,4) al by (simp add: c)
  next
    case True
    then have lim: "r = rate" "bu = burst" using Cons.prems(2) by (simp_all add: c)
    let ?b = "refilled (slowed rate pen) burst now (Some b)"
    obtain w' b' where tk: "take_token (slowed rate pen) ?b = (ok, w', b')" and m': "m' = om_set key b' m"
      using al Cons.prems(3) unfolding True lim allow_simple [OF assms(1) m] by (auto split: prod.splits)
    have "(now - b_last b) * slowed rate pen \<le> (now - b_last b) * rate"
      using slowed_le [of rate pen] assms(1) now(1) by (intro mult_left_mono) (simp_all add: enabled_def)
    then have t: "tokens ?b \<le> tokens b + rate * (now - b_last b)"
      by (simp add: refilled_def mult.commute)
    have b': "b_last b' = now" "(if ok then 1 else 0) + max 0 (tokens b') = max 0 (tokens ?b)"
      using take_token_count [OF tk] by simp_all
    have ih: "real (granted key (serve calls m')) \<le> max 0 (tokens b') + rate * (until - b_last b')"
    proof (rule Cons.IH [OF rest])
      show "om_get m' key = Some b'" by (simp add: m' om_get_set)
      show "\<forall>c \<in> set calls. b_last b' \<le> call_time c \<and> call_time c \<le> until"
        using Cons.prems(1,4) by (auto simp: b' c)
      show "b_last b' \<le> until" using now by (simp add: b')
    qed (use fr in auto)
    have "real (granted key (serve (c # calls) m)) = (if ok then 1 else 0) + real (granted key (serve calls m'))"
      using al True by (simp add: c)
    moreover have "rate * (until - b_last b) = rate * (now - b_last b) + rate * (until - b_last b')"
      by (simp add: algebra_simps b')
    moreover have "0 \<le> rate * (now - b_last b)" using assms(1) now by (simp add: enabled_def)
    ultimately show ?thesis using granted_step [OF ih _ _ t b'(2)] by metis
  qed
qed

text \<open>Over a span of time a key is granted at most its burst and what refills in that span,
  whatever the table holds at its start and whoever else calls.\<close>

lemma refilled_le: "tokens (refilled rate burst now bo) \<le> burst"
  by (simp add: refilled_def split: option.split)

lemma serve_bound:
  assumes "enabled rate burst" and "sorted (map call_time calls)" and "list_all (call_limits key rate burst) calls"
    and "\<forall>c \<in> set calls. since \<le> call_time c \<and> call_time c \<le> until" and "since \<le> until"
    and "length m + length calls \<le> 8192" and "om_ok m"
  shows "real (granted key (serve calls m)) \<le> burst + rate * (until - since)"
  using assms(2-4,6,7)
proof (induction calls arbitrary: m)
  case Nil
  then show ?case using assms(1,5) by (simp add: enabled_def)
next
  case (Cons c calls)
  obtain k r bu pen now where c: "c = (k, r, bu, pen, now)" by (cases c) blast
  obtain ok w m' where al: "allow k r bu pen now now m = (ok, w, m')" by (metis prod_cases3)
  have m: "length m \<le> 8192" using Cons.prems(4) by simp
  have fr: "om_ok m'" "length m' + length calls \<le> 8192"
    using allow_frame [OF m Cons.prems(5) al] Cons.prems(4) by auto
  have rest: "sorted (map call_time calls)" "list_all (call_limits key rate burst) calls" using Cons.prems(1,2) by simp_all
  show ?case
  proof (cases "k = key")
    case False
    then show ?thesis using Cons.IH [OF rest _ fr(2,1)] Cons.prems(3) al by (simp add: c)
  next
    case True
    then have lim: "r = rate" "bu = burst" using Cons.prems(2) by (simp_all add: c)
    let ?b = "refilled (slowed rate pen) burst now (om_get m key)"
    obtain w' b' where tk: "take_token (slowed rate pen) ?b = (ok, w', b')" and m': "m' = om_set key b' m"
      using al unfolding True lim allow_simple [OF assms(1) m] by (auto split: prod.splits)
    have b': "b_last b' = now" "(if ok then 1 else 0) + max 0 (tokens b') \<le> max 0 burst"
      using take_token_count [OF tk] refilled_le [of "slowed rate pen" burst now "om_get m key"] by auto
    have "real (granted key (serve calls m')) \<le> max 0 (tokens b') + rate * (until - b_last b')"
    proof (rule serve_bound_from [OF assms(1) rest])
      show "om_get m' key = Some b'" by (simp add: m' om_get_set)
    qed (use Cons.prems(1,3) fr in \<open>auto simp: b' c\<close>)
    moreover have "rate * (until - b_last b') \<le> rate * (until - since)"
      using assms(1) Cons.prems(3) by (intro mult_left_mono) (auto simp: b' c enabled_def)
    moreover have "real (granted key (serve (c # calls) m)) = (if ok then 1 else 0) + real (granted key (serve calls m'))"
      using al True by (simp add: c)
    moreover have "max 0 burst = burst" using assms(1) by (simp add: enabled_def)
    ultimately show ?thesis using b'(2) by linarith
  qed
qed

text \<open>Calls of other keys leave a bucket as it is or, by pruning, drop it.\<close>

fun after_calls :: "call list \<Rightarrow> limiter \<Rightarrow> limiter" where
  "after_calls [] m = m"
| "after_calls ((k, rate, burst, pen, now) # rest) m = after_calls rest (snd (snd (allow k rate burst pen now now m)))"

lemma prune_get:
  assumes "om_ok m"
  shows "om_ok (rl_prune burst pnow m)" and "om_get (rl_prune burst pnow m) key \<in> {om_get m key, None}"
proof -
  show "om_ok (rl_prune burst pnow m)" using assms by (simp add: rl_prune_def)
  show "om_get (rl_prune burst pnow m) key \<in> {om_get m key, None}"
  proof (cases "om_get (rl_prune burst pnow m) key")
    case (Some b)
    then have "(key, b) \<in> set m" by (auto simp: rl_prune_def dest!: map_of_SomeD)
    then show ?thesis using Some om_get_iff_in [OF assms, of key b] by simp
  qed simp
qed

lemma allow_others:
  assumes "om_ok m"
  shows "om_ok (snd (snd (allow k rate burst pen pnow now m))) \<and>
    (k \<noteq> key \<longrightarrow> om_get (snd (snd (allow k rate burst pen pnow now m))) key \<in> {om_get m key, None})"
  using prune_get [OF assms] assms by (auto simp: allow_def Let_def case_prod_beta om_get_set)

lemma after_others:
  assumes "om_ok m" and "list_all (\<lambda>(k, _). k \<noteq> key) calls"
  shows "om_ok (after_calls calls m) \<and> om_get (after_calls calls m) key \<in> {om_get m key, None}"
  using assms
proof (induction calls arbitrary: m)
  case (Cons c calls)
  obtain k r b pen now where c: "c = (k, r, b, pen, now)" by (cases c) blast
  show ?case
    using Cons.IH [of "snd (snd (allow k r b pen now now m))"] allow_others [OF Cons.prems(1), of k r b pen now now key] Cons.prems(2)
    by (auto simp: c)
qed simp

text \<open>
  A caller that waits the time it was told is granted its next call, provided a full bucket
  holds a token at all; when it does not, it is never granted one.
\<close>

lemma allow_answer:
  assumes "enabled rate burst"
  shows "allow key rate burst pen pnow now m =
    (case take_token (slowed rate pen) (refilled (slowed rate pen) burst now
        (om_get (if length m > 8192 then rl_prune burst pnow m else m) key)) of
      (ok, w, b) \<Rightarrow> (ok, Some w, om_set key b (if length m > 8192 then rl_prune burst pnow m else m)))"
  using assms by (simp add: allow_def enabled_def Let_def)

lemma slowed_mono: "0 < rate \<Longrightarrow> max 1 pen' \<le> max 1 pen \<Longrightarrow> slowed rate pen \<le> slowed rate pen'"
  using divide_left_mono [of "max 1 pen'" "max 1 pen" rate] by (auto simp: slowed_def max_def split: if_splits)

lemma retry_after_works:
  assumes "enabled rate burst" and "om_ok m"
    and "allow key rate burst pen pnow now m = (False, Some w, m')"
    and "list_all (\<lambda>(k, _). k \<noteq> key) others" and "max 1 pen' \<le> max 1 pen" and "now + w \<le> later"
  shows "fst (allow key rate burst pen' pnow' later (after_calls others m')) \<longleftrightarrow> 1 \<le> burst"
proof -
  let ?m = "if length m > 8192 then rl_prune burst pnow m else m"
  let ?b = "refilled (slowed rate pen) burst now (om_get ?m key)"
  have a: "w = (1 - tokens ?b) / slowed rate pen" "m' = om_set key ?b ?m" "tokens ?b < 1"
    using assms(3) unfolding allow_answer [OF assms(1)] by (auto simp: take_token_def split: if_splits)
  have ok: "om_ok m'" using prune_get(1) [OF assms(2)] assms(2) by (simp add: a(2))
  have b: "om_get m' key = Some ?b" by (simp add: a(2) om_get_set)
  let ?n = "after_calls others m'"
  let ?n' = "if length ?n > 8192 then rl_prune burst pnow' ?n else ?n"
  have n: "om_get ?n' key \<in> {Some ?b, None}"
    using after_others [OF ok assms(4)] prune_get(2) [of ?n burst "pnow'" key] b by auto
  have pos: "0 < slowed rate pen" "slowed rate pen \<le> slowed rate pen'"
    using assms(1,5) by (simp_all add: enabled_def slowed_pos slowed_mono)
  have w: "0 \<le> w" using a(1,3) pos(1) by simp
  have "1 - tokens ?b \<le> (later - now) * slowed rate pen"
    using assms(6) unfolding a(1) by (simp add: pos_divide_le_eq [OF pos(1), symmetric])
  also have "\<dots> \<le> (later - now) * slowed rate pen'"
    using assms(6) w pos(2) by (intro mult_left_mono) simp_all
  finally have "1 \<le> tokens (refilled (slowed rate pen') burst later (om_get ?n' key)) \<longleftrightarrow> 1 \<le> burst"
    using n by (auto simp: refilled_def [of _ _ later])
  then show ?thesis
    unfolding allow_answer [OF assms(1)] by (simp add: take_token_def split: prod.split)
qed

text \<open>
  Pruning uses the burst of the caller, not of the bucket: a bucket of a larger burst that is
  not full is dropped, and its key starts again with a full one.
\<close>

lemma prune_refills:
  assumes "length m > 8192" and "om_get m key = Some b" and "tokens b \<ge> burst" and "other \<noteq> key"
    and "enabled rate burst" and "om_ok m"
  shows "om_get (snd (snd (allow other rate burst pen pnow now m))) key = None"
proof -
  have "om_get (rl_prune burst pnow m) key = None"
  proof (rule ccontr)
    assume "om_get (rl_prune burst pnow m) key \<noteq> None"
    then obtain b' where "(key, b') \<in> set (rl_prune burst pnow m)" by (auto dest: map_of_SomeD)
    then have "(key, b') \<in> set m" "\<not> tokens b' \<ge> burst" by (auto simp: rl_prune_def)
    with om_get_iff_in [OF assms(6), of key b'] assms(2,3) show False by simp
  qed
  then show ?thesis using assms by (simp add: allow_def enabled_def Let_def om_get_set case_prod_beta)
qed

end
