(* ===== verification/Json.thy ===== *)
theory Json
  imports Bytes
begin

text \<open>
  \<open>backend/src/util/json.cpp\<close> and \<open>json.h\<close>: the streaming writer with its automatic commas,
  the escaping of strings, and the recursive-descent parser.  A parser takes the text left
  and gives the error message or the value and the text left.  \<open>parseValue n\<close> is the
  C++ function at depth \<open>65 - n\<close>.  The loops over members and elements carry a fuel, one
  more than the length of the text; \<open>parse_total\<close> shows it is never used up.
\<close>

section \<open>Escaping\<close>

abbreviation quote :: char where "quote \<equiv> CHR 0x22"
abbreviation backslash :: char where "backslash \<equiv> CHR 0x5C"

definition escape_char :: "char \<Rightarrow> string" where
  "escape_char c =
     (if c = quote then [backslash, quote]
      else if c = backslash then [backslash, backslash]
      else if c = CHR 0x08 then backslash # ''b''
      else if c = CHR 0x0C then backslash # ''f''
      else if c = CHR 0x0A then backslash # ''n''
      else if c = CHR 0x0D then backslash # ''r''
      else if c = CHR 0x09 then backslash # ''t''
      else if (of_char c :: nat) < 0x20 then backslash # CHR ''u'' # hex_pad 4 (of_char c)
      else [c])"

definition jsonEscape :: "string \<Rightarrow> string" where
  "jsonEscape s = quote # concat (map escape_char s) @ [quote]"

section \<open>The writer\<close>

text \<open>The back of the vector \<open>mNeedComma\<close> is the head of the list.\<close>

record writer =
  mOut :: string
  mNeedComma :: "bool list"
  mPendingKey :: bool

definition JsonWriter :: writer where
  "JsonWriter = \<lparr>mOut = [], mNeedComma = [], mPendingKey = False\<rparr>"

definition comma :: "writer \<Rightarrow> writer" where
  "comma w =
     (if mPendingKey w then w\<lparr>mPendingKey := False\<rparr>
      else case mNeedComma w of [] \<Rightarrow> w
        | b # bs \<Rightarrow> w\<lparr>mOut := (if b then mOut w @ '','' else mOut w), mNeedComma := True # bs\<rparr>)"

definition append_out :: "string \<Rightarrow> writer \<Rightarrow> writer" where
  "append_out s w = w\<lparr>mOut := mOut w @ s\<rparr>"

definition push :: "writer \<Rightarrow> writer" where
  "push w = w\<lparr>mNeedComma := False # mNeedComma w\<rparr>"

definition pop :: "writer \<Rightarrow> writer" where
  "pop w = w\<lparr>mNeedComma := (case mNeedComma w of _ # _ # bs \<Rightarrow> True # bs | _ \<Rightarrow> [])\<rparr>"

definition beginObj :: "writer \<Rightarrow> writer" where "beginObj w = push (append_out ''{'' (comma w))"
definition endObj :: "writer \<Rightarrow> writer" where "endObj w = pop (append_out ''}'' w)"
definition beginArr :: "writer \<Rightarrow> writer" where "beginArr w = push (append_out ''['' (comma w))"
definition endArr :: "writer \<Rightarrow> writer" where "endArr w = pop (append_out '']'' w)"

definition key :: "string \<Rightarrow> writer \<Rightarrow> writer" where
  "key k w = (append_out '':'' (append_out (jsonEscape k) (comma w)))\<lparr>mPendingKey := True\<rparr>"

definition value_str :: "string \<Rightarrow> writer \<Rightarrow> writer" where
  "value_str v w = append_out (jsonEscape v) (comma w)"

definition value_bool :: "bool \<Rightarrow> writer \<Rightarrow> writer" where
  "value_bool v w = append_out (if v then ''true'' else ''false'') (comma w)"

definition value_int :: "int \<Rightarrow> writer \<Rightarrow> writer" where
  "value_int v w = append_out (int_str v) (comma w)"

definition value_u64 :: "'a::len word \<Rightarrow> writer \<Rightarrow> writer" where
  "value_u64 v w = append_out (u_str v) (comma w)"

definition null_value :: "writer \<Rightarrow> writer" where
  "null_value w = append_out ''null'' (comma w)"

definition raw :: "string \<Rightarrow> writer \<Rightarrow> writer" where
  "raw json w = append_out json (comma w)"

text \<open>
  \<open>%.9g\<close> on a finite value: the decimal exponent after rounding to nine significant
  digits picks fixed or exponent notation, and trailing zeros of the fraction go.
\<close>

definition round_even :: "real \<Rightarrow> nat" where
  "round_even x = (let f = nat \<lfloor>x\<rfloor>; r = x - of_int \<lfloor>x\<rfloor>
     in if r < 1 / 2 \<or> r = 1 / 2 \<and> even f then f else f + 1)"

text \<open>The nine digits as a number, and the exponent of the first.\<close>

definition sig9 :: "real \<Rightarrow> nat \<times> int" where
  "sig9 x = (let e = \<lfloor>log 10 x\<rfloor>; m = round_even (x / 10 powi (e - 8))
     in if m \<ge> 10 ^ 9 then (m div 10, e + 1) else (m, e))"

definition strip_zeros :: "string \<Rightarrow> string" where
  "strip_zeros s = rev (dropWhile (\<lambda>c. c = CHR ''0'') (rev s))"

definition fraction :: "string \<Rightarrow> string" where
  "fraction s = (case strip_zeros s of [] \<Rightarrow> [] | f \<Rightarrow> CHR ''.'' # f)"

definition two_digits :: "nat \<Rightarrow> string" where
  "two_digits n = (if n < 10 then ''0'' @ nat_str n else nat_str n)"

definition g9 :: "real \<Rightarrow> string" where
  "g9 v =
     (if v = 0 then ''0''
      else (case sig9 \<bar>v\<bar> of (m, e) \<Rightarrow>
        let ds = nat_str m; sign = (if v < 0 then ''-'' else '''')
        in sign @
          (if e < -4 \<or> 9 \<le> e then
             take 1 ds @ fraction (drop 1 ds) @ ''e'' @ (if e < 0 then ''-'' else ''+'') @ two_digits (nat \<bar>e\<bar>)
           else if e < 0 then ''0'' @ fraction (replicate (nat (- e) - 1) (CHR ''0'') @ ds)
           else take (nat e + 1) ds @ fraction (drop (nat e + 1) ds))))"

definition value_double :: "double \<Rightarrow> writer \<Rightarrow> writer" where
  "value_double v w = append_out (g9 v) (comma w)"

section \<open>Values\<close>

datatype json = Null | Bool bool | Number double | Str string | Array "json list" | Object "(string \<times> json) list"

fun get :: "string \<Rightarrow> json \<Rightarrow> json option" where
  "get k (Object kvs) = map_of kvs k"
| "get k _ = None"

definition getStr :: "string \<Rightarrow> string \<Rightarrow> json \<Rightarrow> string" where
  "getStr k dflt j = (case get k j of Some (Str s) \<Rightarrow> s | _ \<Rightarrow> dflt)"

definition getNum :: "string \<Rightarrow> double \<Rightarrow> json \<Rightarrow> double" where
  "getNum k dflt j = (case get k j of Some (Number x) \<Rightarrow> x | _ \<Rightarrow> dflt)"

section \<open>The parser\<close>

type_synonym 'a result = "string + 'a \<times> string"

definition is_ws :: "char \<Rightarrow> bool" where
  "is_ws c \<longleftrightarrow> c = CHR 0x20 \<or> c = CHR 0x09 \<or> c = CHR 0x0A \<or> c = CHR 0x0D"

definition ws :: "string \<Rightarrow> string" where
  "ws = dropWhile is_ws"

definition lit :: "string \<Rightarrow> string \<Rightarrow> string option" where
  "lit l s = (if take (length l) s = l then Some (drop (length l) s) else None)"

text \<open>\<open>mP < mEnd && *mP == c\<close>, then \<open>++mP\<close>.\<close>

fun skip_char :: "char \<Rightarrow> string \<Rightarrow> string option" where
  "skip_char c (x # s) = (if x = c then Some s else None)"
| "skip_char c [] = None"

definition hex_nibble :: "char \<Rightarrow> u32 option" where
  "hex_nibble c =
     (let n = of_char c :: nat
      in if 48 \<le> n \<and> n \<le> 57 then Some (of_nat (n - 48))
         else if 97 \<le> n \<and> n \<le> 102 then Some (of_nat (n - 97 + 10))
         else if 65 \<le> n \<and> n \<le> 70 then Some (of_nat (n - 65 + 10))
         else None)"

fun hex_loop :: "nat \<Rightarrow> u32 \<Rightarrow> string \<Rightarrow> (u32 \<times> string) option" where
  "hex_loop 0 out s = Some (out, s)"
| "hex_loop (Suc k) out [] = None"
| "hex_loop (Suc k) out (c # s) =
     (case hex_nibble c of None \<Rightarrow> None | Some d \<Rightarrow> hex_loop k (push_bit 4 out OR d) s)"

definition hex4 :: "string \<Rightarrow> (u32 \<times> string) option" where
  "hex4 s = (if length s < 4 then None else hex_loop 4 0 s)"

definition word_char :: "u32 \<Rightarrow> char" where
  "word_char w = byte_char (ucast w)"

definition appendUtf8 :: "string \<Rightarrow> u32 \<Rightarrow> string" where
  "appendUtf8 out cp =
     (if cp < 0x80 then out @ [word_char cp]
      else if cp < 0x800 then
        out @ [word_char (0xC0 OR drop_bit 6 cp), word_char (0x80 OR (cp AND 0x3F))]
      else if cp < 0x10000 then
        out @ [word_char (0xE0 OR drop_bit 12 cp), word_char (0x80 OR (drop_bit 6 cp AND 0x3F)),
               word_char (0x80 OR (cp AND 0x3F))]
      else
        out @ [word_char (0xF0 OR drop_bit 18 cp), word_char (0x80 OR (drop_bit 12 cp AND 0x3F)),
               word_char (0x80 OR (drop_bit 6 cp AND 0x3F)), word_char (0x80 OR (cp AND 0x3F))])"

text \<open>The body of \<open>case 'u'\<close>: the code point, from one escape or a surrogate pair.\<close>

definition unicode :: "string \<Rightarrow> u32 result" where
  "unicode s =
     (case hex4 s of
        None \<Rightarrow> Inl (cat [''bad '', [backslash], ''u escape''])
      | Some (cp, r) \<Rightarrow>
          if 0xD800 \<le> cp \<and> cp \<le> 0xDBFF then
            (case lit [backslash, CHR ''u''] r of
               None \<Rightarrow> Inr (0xFFFD, r)
             | Some r2 \<Rightarrow>
                 (case hex4 r2 of
                    None \<Rightarrow> Inl ''bad surrogate''
                  | Some (lo, r3) \<Rightarrow>
                      if lo < 0xDC00 \<or> 0xDFFF < lo then Inl ''bad surrogate''
                      else Inr (0x10000 + push_bit 10 (cp - 0xD800) + (lo - 0xDC00), r3)))
          else Inr (cp, r))"

definition simple_escape :: "char \<Rightarrow> char option" where
  "simple_escape e =
     (if e = quote then Some quote
      else if e = backslash then Some backslash
      else if e = CHR ''/'' then Some (CHR ''/'')
      else if e = CHR ''b'' then Some (CHR 0x08)
      else if e = CHR ''f'' then Some (CHR 0x0C)
      else if e = CHR ''n'' then Some (CHR 0x0A)
      else if e = CHR ''r'' then Some (CHR 0x0D)
      else if e = CHR ''t'' then Some (CHR 0x09)
      else None)"

definition escape_seq :: "string \<Rightarrow> string \<Rightarrow> string result" where
  "escape_seq out s =
     (case s of
        [] \<Rightarrow> Inl ''bad escape''
      | e # s' \<Rightarrow>
          (case simple_escape e of
             Some c \<Rightarrow> Inr (out @ [c], s')
           | None \<Rightarrow>
               if e = CHR ''u'' then
                 (case unicode s' of Inl m \<Rightarrow> Inl m | Inr (cp, r) \<Rightarrow> Inr (appendUtf8 out cp, r))
               else Inl ''bad escape''))"

lemma hex_loop_shrinks: "hex_loop k out s = Some (v, r) \<Longrightarrow> length r \<le> length s"
  by (induction k out s rule: hex_loop.induct) (auto split: option.splits)

lemma hex4_shrinks: "hex4 s = Some (v, r) \<Longrightarrow> length r \<le> length s"
  by (auto simp: hex4_def hex_loop_shrinks split: if_splits)

lemma lit_shrinks: "lit l s = Some r \<Longrightarrow> length r \<le> length s"
  by (auto simp: lit_def split: if_splits)

lemma unicode_shrinks: "unicode s = Inr (cp, r) \<Longrightarrow> length r \<le> length s"
  by (auto simp: unicode_def split: option.splits prod.splits if_splits dest!: hex4_shrinks lit_shrinks)

lemma escape_seq_shrinks: "escape_seq out s = Inr (out', r) \<Longrightarrow> length r < length s"
  by (auto simp: escape_seq_def split: list.splits option.splits sum.splits prod.splits if_splits
      dest!: unicode_shrinks)

text \<open>\<open>parseString\<close> after its opening quote.\<close>

function parseString :: "string \<Rightarrow> string \<Rightarrow> string result" where
  "parseString out [] = Inl ''unterminated string''"
| "parseString out (c # s) =
     (if c = quote then Inr (out, s)
      else if c = backslash then
        (case escape_seq out s of Inl m \<Rightarrow> Inl m | Inr (out', r) \<Rightarrow> parseString out' r)
      else parseString (out @ [c]) s)"
  by pat_completeness auto
termination
  by (relation "measure (\<lambda>(out, s). length s)") (auto dest: escape_seq_shrinks)

definition is_digit :: "char \<Rightarrow> bool" where
  "is_digit c \<longleftrightarrow> 48 \<le> (of_char c :: nat) \<and> (of_char c :: nat) \<le> 57"

text \<open>
  \<open>strtod\<close> on a text over the digits, signs, points and \<open>e\<close>: the longest decimal floating
  number at the front, its value and the text after it; \<open>None\<close> where there is none.
\<close>

definition sign_of :: "string \<Rightarrow> real \<times> string" where
  "sign_of s = (case skip_char (CHR ''-'') s of Some r \<Rightarrow> (-1, r) | None \<Rightarrow>
     (case skip_char (CHR ''+'') s of Some r \<Rightarrow> (1, r) | None \<Rightarrow> (1, s)))"

definition exponent :: "string \<Rightarrow> real \<times> string" where
  "exponent s =
     (case s of [] \<Rightarrow> (1, [])
      | c # r \<Rightarrow>
          if c = CHR ''e'' \<or> c = CHR ''E'' then
            (case sign_of r of (sg, r2) \<Rightarrow>
              (let ds = takeWhile is_digit r2; p = 10 ^ dec_val ds
               in if ds = [] then (1, s)
                  else (if sg < 0 then 1 / p else p, dropWhile is_digit r2)))
          else (1, s))"

definition strtod :: "string \<Rightarrow> (real \<times> string) option" where
  "strtod s =
     (case sign_of s of (sg, s1) \<Rightarrow>
       (let ds = takeWhile is_digit s1; s2 = dropWhile is_digit s1;
            (fs, s3) = (case skip_char (CHR ''.'') s2 of
                          Some r \<Rightarrow> (takeWhile is_digit r, dropWhile is_digit r) | None \<Rightarrow> ([], s2))
        in if ds = [] \<and> fs = [] then None
           else (case exponent s3 of (f, s4) \<Rightarrow>
             Some (sg * real (dec_val (ds @ fs)) / 10 ^ length fs * f, s4))))"

definition num_char :: "char \<Rightarrow> bool" where
  "num_char c \<longleftrightarrow> is_digit c \<or> c = CHR ''.'' \<or> c = CHR ''e'' \<or> c = CHR ''E'' \<or> c = CHR ''+'' \<or> c = CHR ''-''"

definition parseNumber :: "string \<Rightarrow> json result" where
  "parseNumber s =
     (let (m, r) = (case skip_char (CHR ''-'') s of Some r \<Rightarrow> (''-'', r) | None \<Rightarrow> ([], s));
          num = m @ takeWhile num_char r; rest = dropWhile num_char r
      in if num = [] then Inl ''bad number''
         else (case strtod num of
                 Some (x, []) \<Rightarrow> Inr (Number x, rest)
               | _ \<Rightarrow> Inl ''bad number''))"

text \<open>The loops over the members of an object and the elements of an array.\<close>

fun members :: "(string \<Rightarrow> json result) \<Rightarrow> nat \<Rightarrow> (string \<times> json) list \<Rightarrow> string \<Rightarrow> json result" where
  "members p 0 acc s = Inl ''out of fuel''"
| "members p (Suc k) acc s =
     (case skip_char quote (ws s) of
        None \<Rightarrow> Inl ''expected key''
      | Some s1 \<Rightarrow>
     (case parseString [] s1 of
        Inl m \<Rightarrow> Inl m
      | Inr (name, s2) \<Rightarrow>
     (case skip_char (CHR '':'') (ws s2) of
        None \<Rightarrow> Inl (cat [''expected '', [CHR 0x27], '':'', [CHR 0x27]])
      | Some s3 \<Rightarrow>
     (case p s3 of
        Inl m \<Rightarrow> Inl m
      | Inr (v, s4) \<Rightarrow>
     (case skip_char (CHR '','') (ws s4) of
        Some s5 \<Rightarrow> members p k (acc @ [(name, v)]) s5
      | None \<Rightarrow>
     (case skip_char (CHR ''}'') (ws s4) of
        Some s5 \<Rightarrow> Inr (Object (acc @ [(name, v)]), s5)
      | None \<Rightarrow> Inl (cat [''expected '', [CHR 0x27], '','', [CHR 0x27], '' or '', [CHR 0x27], ''}'', [CHR 0x27]])))))))"

fun elements :: "(string \<Rightarrow> json result) \<Rightarrow> nat \<Rightarrow> json list \<Rightarrow> string \<Rightarrow> json result" where
  "elements p 0 acc s = Inl ''out of fuel''"
| "elements p (Suc k) acc s =
     (case p s of
        Inl m \<Rightarrow> Inl m
      | Inr (v, s1) \<Rightarrow>
     (case skip_char (CHR '','') (ws s1) of
        Some s2 \<Rightarrow> elements p k (acc @ [v]) s2
      | None \<Rightarrow>
     (case skip_char (CHR '']'') (ws s1) of
        Some s2 \<Rightarrow> Inr (Array (acc @ [v]), s2)
      | None \<Rightarrow> Inl (cat [''expected '', [CHR 0x27], '','', [CHR 0x27], '' or '', [CHR 0x27], '']'', [CHR 0x27]]))))"

definition parseObject :: "(string \<Rightarrow> json result) \<Rightarrow> string \<Rightarrow> json result" where
  "parseObject p s = (case skip_char (CHR ''}'') (ws s) of
     Some r \<Rightarrow> Inr (Object [], r) | None \<Rightarrow> members p (Suc (length s)) [] (ws s))"

definition parseArray :: "(string \<Rightarrow> json result) \<Rightarrow> string \<Rightarrow> json result" where
  "parseArray p s = (case skip_char (CHR '']'') (ws s) of
     Some r \<Rightarrow> Inr (Array [], r) | None \<Rightarrow> elements p (Suc (length s)) [] (ws s))"

definition literal :: "string \<Rightarrow> json \<Rightarrow> string \<Rightarrow> json result" where
  "literal l v s = (case lit l s of Some r \<Rightarrow> Inr (v, r) | None \<Rightarrow> Inl ''bad literal'')"

primrec parseValue :: "nat \<Rightarrow> string \<Rightarrow> json result" where
  "parseValue 0 s = Inl ''nesting too deep''"
| "parseValue (Suc n) s =
     (case ws s of
        [] \<Rightarrow> Inl ''unexpected end''
      | c # r \<Rightarrow>
          if c = CHR ''{'' then parseObject (parseValue n) r
          else if c = CHR ''['' then parseArray (parseValue n) r
          else if c = quote then
            (case parseString [] r of Inl m \<Rightarrow> Inl m | Inr (x, r2) \<Rightarrow> Inr (Str x, r2))
          else if c = CHR ''t'' then literal ''true'' (Bool True) (c # r)
          else if c = CHR ''f'' then literal ''false'' (Bool False) (c # r)
          else if c = CHR ''n'' then literal ''null'' Null (c # r)
          else parseNumber (c # r))"

definition parse :: "string \<Rightarrow> string + json" where
  "parse text =
     (if length text > 1024 * 1024 then Inl ''JSON body too large''
      else (case parseValue 65 text of
              Inl m \<Rightarrow> Inl m
            | Inr (v, r) \<Rightarrow> if ws r = [] then Inr v else Inl ''trailing data''))"

section \<open>The parser reads on and ends\<close>

lemma ws_le: "length (ws s) \<le> length s"
  by (simp add: ws_def length_dropWhile_le)

lemma skip_char_shrinks: "skip_char c s = Some r \<Longrightarrow> length r < length s"
  by (cases s) (auto split: if_splits)

lemma skip_ws_shrinks: "skip_char c (ws s) = Some r \<Longrightarrow> length r < length s"
  using skip_char_shrinks [of c "ws s" r] ws_le [of s] by simp

lemma parseString_shrinks: "parseString out s = Inr (x, r) \<Longrightarrow> length r < length s"
proof (induction out s rule: parseString.induct)
  case (2 out c s)
  consider (q) "c = quote" | (b) "c = backslash" "c \<noteq> quote" | (plain) "c \<noteq> quote" "c \<noteq> backslash" by blast
  then show ?case
  proof cases
    case b
    then obtain o' r' where e: "escape_seq out s = Inr (o', r')" using "2.prems" by (auto split: sum.splits)
    with "2.IH"(1) [OF b(2,1) e] "2.prems" b show ?thesis
      using escape_seq_shrinks [OF e] by simp
  qed (use "2" in auto)
qed simp

lemma parseNumber_shrinks: "parseNumber s = Inr (v, r) \<Longrightarrow> length r < length s"
proof -
  assume a: "parseNumber s = Inr (v, r)"
  have "length (dropWhile num_char s) < length s" if "takeWhile num_char s \<noteq> []"
    using that by (cases s) (auto split: if_splits simp: le_imp_less_Suc length_dropWhile_le)
  with a show ?thesis
    by (auto simp: parseNumber_def Let_def split: option.splits if_splits prod.splits list.splits dest!: skip_char_shrinks)
      (meson le_less_trans length_dropWhile_le)
qed

lemma literal_shrinks: "literal l v s = Inr (x, r) \<Longrightarrow> l \<noteq> [] \<Longrightarrow> length r < length s"
  by (auto simp: literal_def lit_def split: option.splits if_splits) (metis length_greater_0_conv take_eq_Nil2 diff_less)

text \<open>A parser of values that reads something and never runs out of fuel.\<close>

definition proper :: "(string \<Rightarrow> json result) \<Rightarrow> bool" where
  "proper p \<longleftrightarrow> (\<forall>s. p s \<noteq> Inl ''out of fuel'' \<and> (\<forall>v r. p s = Inr (v, r) \<longrightarrow> length r < length s))"

lemma properD: "proper p \<Longrightarrow> p s = Inr (v, r) \<Longrightarrow> length r < length s" "proper p \<Longrightarrow> p s \<noteq> Inl ''out of fuel''"
  by (auto simp: proper_def)

lemma parseString_msg: "parseString out s \<noteq> Inl ''out of fuel''"
proof (induction out s rule: parseString.induct)
  case (2 out c s)
  have e: "escape_seq out s \<noteq> Inl ''out of fuel''"
    by (auto simp: escape_seq_def unicode_def cat_def split: list.splits option.splits sum.splits prod.splits if_splits)
  show ?case
    using "2.IH" e by (auto split: sum.splits)
qed simp

lemma members_proper:
  assumes "proper p" and "length s < k"
  shows "members p k acc s \<noteq> Inl ''out of fuel'' \<and> (\<forall>v r. members p k acc s = Inr (v, r) \<longrightarrow> length r < length s)"
  using assms
proof (induction p k acc s rule: members.induct)
  case (2 p k acc s)
  have step: "length s5 < length s"
    if "skip_char quote (ws s) = Some s1" "parseString [] s1 = Inr (name, s2)"
      "skip_char (CHR '':'') (ws s2) = Some s3" "p s3 = Inr (v, s4)" "skip_char c (ws s4) = Some s5"
    for s1 name s2 s3 v s4 s5 c
    using that(1,3,5) [THEN skip_ws_shrinks] parseString_shrinks [OF that(2)] properD(1) [OF "2.prems"(1) that(4)] by simp
  show ?case
  proof (cases "\<exists>s1 name s2 s3 v s4 s5. skip_char quote (ws s) = Some s1 \<and> parseString [] s1 = Inr (name, s2) \<and>
      skip_char (CHR '':'') (ws s2) = Some s3 \<and> p s3 = Inr (v, s4) \<and> skip_char (CHR '','') (ws s4) = Some s5")
    case True
    then obtain s1 name s2 s3 v s4 s5 where a: "skip_char quote (ws s) = Some s1" "parseString [] s1 = Inr (name, s2)"
      "skip_char (CHR '':'') (ws s2) = Some s3" "p s3 = Inr (v, s4)" "skip_char (CHR '','') (ws s4) = Some s5"
      by blast
    have "members p k (acc @ [(name, v)]) s5 \<noteq> Inl ''out of fuel'' \<and>
        (\<forall>v' r. members p k (acc @ [(name, v)]) s5 = Inr (v', r) \<longrightarrow> length r < length s5)"
      using "2.IH" [OF a(1) a(2) refl a(3) a(4) refl a(5)] step [OF a] "2.prems" by simp
    with a step [OF a] show ?thesis by auto
  next
    case False
    then show ?thesis
      using step parseString_msg properD(2) [OF "2.prems"(1)]
      by (auto split: option.splits sum.splits prod.splits simp: cat_def)
  qed
qed simp

lemma elements_proper:
  assumes "proper p" and "length s < k"
  shows "elements p k acc s \<noteq> Inl ''out of fuel'' \<and> (\<forall>v r. elements p k acc s = Inr (v, r) \<longrightarrow> length r < length s)"
  using assms
proof (induction p k acc s rule: elements.induct)
  case (2 p k acc s)
  have step: "length s2 < length s" if "p s = Inr (v, s1)" "skip_char c (ws s1) = Some s2" for v s1 s2 c
    using skip_ws_shrinks [OF that(2)] properD(1) [OF "2.prems"(1) that(1)] by simp
  show ?case
  proof (cases "\<exists>v s1 s2. p s = Inr (v, s1) \<and> skip_char (CHR '','') (ws s1) = Some s2")
    case True
    then obtain v s1 s2 where a: "p s = Inr (v, s1)" "skip_char (CHR '','') (ws s1) = Some s2" by blast
    have "elements p k (acc @ [v]) s2 \<noteq> Inl ''out of fuel'' \<and>
        (\<forall>v' r. elements p k (acc @ [v]) s2 = Inr (v', r) \<longrightarrow> length r < length s2)"
      using "2.IH" [OF a(1) refl a(2) "2.prems"(1)] step [OF a] "2.prems"(2) by simp
    with a step [OF a] show ?thesis by auto
  next
    case False
    then show ?thesis
      using step properD(2) [OF "2.prems"(1)]
      by (auto split: option.splits sum.splits prod.splits simp: cat_def)
  qed
qed simp

lemma parseObject_proper: "proper p \<Longrightarrow> parseObject p s \<noteq> Inl ''out of fuel'' \<and>
    (\<forall>v r. parseObject p s = Inr (v, r) \<longrightarrow> length r < Suc (length s))"
  using members_proper [of p "ws s" "Suc (length s)" "[]"] ws_le [of s]
  by (auto simp: parseObject_def less_Suc_eq_le split: option.splits dest!: skip_ws_shrinks)

lemma parseArray_proper: "proper p \<Longrightarrow> parseArray p s \<noteq> Inl ''out of fuel'' \<and>
    (\<forall>v r. parseArray p s = Inr (v, r) \<longrightarrow> length r < Suc (length s))"
  using elements_proper [of p "ws s" "Suc (length s)" "[]"] ws_le [of s]
  by (auto simp: parseArray_def less_Suc_eq_le split: option.splits dest!: skip_ws_shrinks)

lemma parseNumber_msg: "parseNumber s \<noteq> Inl ''out of fuel''"
  by (auto simp: parseNumber_def Let_def split: option.splits prod.splits list.splits)

lemma literal_msg: "literal l v s \<noteq> Inl ''out of fuel''"
  by (auto simp: literal_def split: option.splits)

lemma parseValue_proper: "proper (parseValue n)"
proof (induction n)
  case (Suc n)
  have "parseValue (Suc n) s \<noteq> Inl ''out of fuel'' \<and> (\<forall>v r. parseValue (Suc n) s = Inr (v, r) \<longrightarrow> length r < length s)" for s
  proof (cases "ws s")
    case (Cons c r)
    have le: "length r < length s" using ws_le [of s] Cons by simp
    note small = parseObject_proper [OF Suc, of r] parseArray_proper [OF Suc, of r]
      parseNumber_msg [of "c # r"] literal_msg [of _ _ "c # r"] parseString_msg [of "[]" r]
    have "length r' < length s" if "length r' < Suc (length r)" for r' :: string using that le by simp
    with small Cons show ?thesis
      by (auto split: sum.splits dest!: parseNumber_shrinks literal_shrinks parseString_shrinks)
  qed simp
  then show ?case unfolding proper_def by blast
qed (simp add: proper_def)

lemma parse_total: "parse text \<noteq> Inl ''out of fuel''"
  using properD(2) [OF parseValue_proper, of 65 "text"]
  by (auto simp: parse_def split: sum.splits prod.splits if_splits)

section \<open>Strings survive the round trip\<close>

lemma hex_nibble_digit: "d < 16 \<Longrightarrow> hex_nibble (digit_char d) = Some (of_nat d)"
proof -
  assume "d < 16"
  then have "d \<in> {0, 1, 2, 3, 4, 5, 6, 7, 8, 9, 10, 11, 12, 13, 14, 15}"
    by (simp add: numeral_eq_Suc less_Suc_eq)
  then show ?thesis by (auto simp: digit_char_def hex_nibble_def)
qed

lemma hex_loop_digits:
  "list_all (\<lambda>d. d < 16) ds \<Longrightarrow> length ds = k \<Longrightarrow> hex_loop k acc (map digit_char ds @ r) =
     Some (foldl (\<lambda>a d. push_bit 4 a OR of_nat d) acc ds, r)"
  by (induction ds arbitrary: acc k) (auto simp: hex_nibble_digit)

lemma control_digits:
  "list_all (\<lambda>n. hex_pad 4 n = map digit_char [0, 0, n div 16, n mod 16] \<and>
     foldl (\<lambda>a d. push_bit 4 a OR of_nat d) 0 [0, 0, n div 16, n mod 16] = (of_nat n :: u32)) [0..<32]"
  by code_simp

lemma control_escape: "n < 0x20 \<Longrightarrow> unicode (hex_pad 4 n @ r) = Inr (of_nat n, r)"
proof -
  assume n: "n < 0x20"
  let ?ds = "[0, 0, n div 16, n mod 16]"
  have d: "hex_pad 4 n = map digit_char ?ds" "foldl (\<lambda>a d. push_bit 4 a OR of_nat d) 0 ?ds = (of_nat n :: u32)"
    using control_digits n unfolding list_all_iff by (metis atLeastLessThan_iff atLeastLessThan_upt le0 numeral_Bit0)+
  have "list_all (\<lambda>d. d < 16) ?ds" using n by simp
  from hex_loop_digits [OF this, of 4 0 r] have "hex_loop 4 0 (map digit_char ?ds @ r) = Some (of_nat n, r)"
    unfolding d(2) by simp
  then have "hex4 (hex_pad 4 n @ r) = Some (of_nat n, r)"
    unfolding d(1) hex4_def by simp
  moreover have "\<not> (0xD800 :: u32) \<le> of_nat n"
    using n by (simp add: word_le_nat_alt unat_of_nat)
  ultimately show ?thesis by (simp add: unicode_def)
qed

lemma appendUtf8_control: "n < 0x20 \<Longrightarrow> appendUtf8 out (of_nat n) = out @ [char_of n]"
  by (simp add: appendUtf8_def word_char_def byte_char_def word_less_nat_alt unat_of_nat unsigned_ucast_eq take_bit_eq_mod)

lemma parse_escaped_char: "parseString out (escape_char c @ s) = parseString (out @ [c]) s"
proof -
  have u: "parseString out (backslash # CHR ''u'' # hex_pad 4 (of_char c) @ s) = parseString (out @ [c]) s"
    if "(of_char c :: nat) < 0x20"
    using that control_escape [of "of_char c" s] appendUtf8_control [of "of_char c" out]
    by (simp add: escape_seq_def simple_escape_def)
  then show ?thesis
    by (simp add: escape_char_def escape_seq_def simple_escape_def)
qed

lemma parseString_escape: "parseString out (concat (map escape_char s) @ quote # r) = Inr (out @ s, r)"
proof (induction s arbitrary: out)
  case (Cons c s)
  then show ?case using parse_escaped_char [of out c "concat (map escape_char s) @ quote # r"] by simp
qed simp

lemma parseString_jsonEscape: "parseString [] (tl (jsonEscape s) @ r) = Inr (s, r)"
  by (simp add: jsonEscape_def parseString_escape)

section \<open>Documents\<close>

text \<open>
  What a sequence of writer calls builds, as a tree; a number is kept as its text.  \<open>render\<close>
  is its JSON text, \<open>emit_doc\<close> the calls that produce it, and \<open>value_of\<close> the value a reader
  is meant to see.
\<close>

datatype doc = DNull | DBool bool | DNum string | DStr string | DArr "doc list" | DObj "(string \<times> doc) list"

fun commas :: "string list \<Rightarrow> string" where
  "commas [] = []"
| "commas [x] = x"
| "commas (x # y # xs) = x @ '','' @ commas (y # xs)"

fun render :: "doc \<Rightarrow> string" where
  "render DNull = ''null''"
| "render (DBool b) = (if b then ''true'' else ''false'')"
| "render (DNum t) = t"
| "render (DStr s) = jsonEscape s"
| "render (DArr ds) = ''['' @ commas (map render ds) @ '']''"
| "render (DObj kvs) = ''{'' @ commas (map (\<lambda>(k, d). jsonEscape k @ '':'' @ render d) kvs) @ ''}''"

fun emit_doc :: "doc \<Rightarrow> writer \<Rightarrow> writer" where
  "emit_doc DNull = null_value"
| "emit_doc (DBool b) = value_bool b"
| "emit_doc (DNum t) = raw t"
| "emit_doc (DStr s) = value_str s"
| "emit_doc (DArr ds) = (\<lambda>w. endArr (fold emit_doc ds (beginArr w)))"
| "emit_doc (DObj kvs) = (\<lambda>w. endObj (fold (\<lambda>(k, d). emit_doc d \<circ> key k) kvs (beginObj w)))"

fun value_of :: "doc \<Rightarrow> json" where
  "value_of DNull = Null"
| "value_of (DBool b) = Bool b"
| "value_of (DNum t) = Number (fst (the (strtod t)))"
| "value_of (DStr s) = Str s"
| "value_of (DArr ds) = Array (map value_of ds)"
| "value_of (DObj kvs) = Object (map (\<lambda>(k, d). (k, value_of d)) kvs)"

definition num_ok :: "string \<Rightarrow> bool" where
  "num_ok t \<longleftrightarrow> t \<noteq> [] \<and> (is_digit (hd t) \<or> hd t = CHR ''-'') \<and> list_all num_char t \<and> (\<exists>x. strtod t = Some (x, []))"

text \<open>The nesting is at most \<open>n\<close> and every number is one.\<close>

fun good :: "nat \<Rightarrow> doc \<Rightarrow> bool" where
  "good 0 d = False"
| "good (Suc n) (DNum t) = num_ok t"
| "good (Suc n) (DArr ds) = (\<forall>d \<in> set ds. good n d)"
| "good (Suc n) (DObj kvs) = (\<forall>(k, d) \<in> set kvs. good n d)"
| "good (Suc n) d = True"

section \<open>What the writer calls write\<close>

text \<open>After a key the enclosing container already expects a comma.\<close>

definition writer_ok :: "writer \<Rightarrow> bool" where
  "writer_ok w \<longleftrightarrow> (mPendingKey w \<longrightarrow> (case mNeedComma w of [] \<Rightarrow> True | b # _ \<Rightarrow> b))"

text \<open>Inside a container whose text so far ends in \<open>out\<close>, with nothing pending.\<close>

definition inside :: "string \<Rightarrow> bool \<Rightarrow> bool list \<Rightarrow> writer" where
  "inside out b bs = \<lparr>mOut = out, mNeedComma = b # bs, mPendingKey = False\<rparr>"

lemma writer_eqI: "mOut v = mOut w \<Longrightarrow> mNeedComma v = mNeedComma w \<Longrightarrow> mPendingKey v = mPendingKey w \<Longrightarrow> (v :: writer) = w"
  by simp

lemma commas_Cons: "commas (x # xs) = x @ (if xs = [] then [] else '','' @ commas xs)"
  by (cases xs) simp_all

lemma fold_emit:
  assumes "\<And>d w. d \<in> set ds \<Longrightarrow> writer_ok w \<Longrightarrow> emit_doc d w = append_out (render d) (comma w)"
  shows "fold emit_doc ds (inside out b bs) =
    (if ds = [] then inside out b bs
     else inside (out @ (if b then '','' else []) @ commas (map render ds)) True bs)"
  using assms
proof (induction ds arbitrary: out b)
  case (Cons d ds)
  have "emit_doc d (inside out b bs) = inside (out @ (if b then '','' else []) @ render d) True bs"
    using Cons.prems [of d "inside out b bs"]
    by (simp add: writer_ok_def inside_def append_out_def comma_def)
  with Cons.IH Cons.prems show ?case by (simp add: commas_Cons)
qed simp

lemma fold_emit_members:
  assumes "\<And>k d w. (k, d) \<in> set kvs \<Longrightarrow> writer_ok w \<Longrightarrow> emit_doc d w = append_out (render d) (comma w)"
  shows "fold (\<lambda>(k, d). emit_doc d \<circ> key k) kvs (inside out b bs) =
    (if kvs = [] then inside out b bs
     else inside (out @ (if b then '','' else []) @ commas (map (\<lambda>(k, d). jsonEscape k @ '':'' @ render d) kvs)) True bs)"
  using assms
proof (induction kvs arbitrary: out b)
  case (Cons kv kvs)
  obtain k d where kv: "kv = (k, d)" by force
  have "writer_ok (key k (inside out b bs))"
    by (simp add: writer_ok_def inside_def key_def append_out_def comma_def)
  then have "emit_doc d (key k (inside out b bs)) =
      inside (out @ (if b then '','' else []) @ jsonEscape k @ '':'' @ render d) True bs"
    using Cons.prems [of k d] kv by (simp add: inside_def key_def append_out_def comma_def)
  then have "fold (\<lambda>(k, d). emit_doc d \<circ> key k) (kv # kvs) (inside out b bs) =
      fold (\<lambda>(k, d). emit_doc d \<circ> key k) kvs
        (inside (out @ (if b then '','' else []) @ jsonEscape k @ '':'' @ render d) True bs)"
    by (simp add: kv)
  also have "\<dots> = (if kvs = [] then inside (out @ (if b then '','' else []) @ jsonEscape k @ '':'' @ render d) True bs
     else inside ((out @ (if b then '','' else []) @ jsonEscape k @ '':'' @ render d) @ (if True then '','' else []) @
       commas (map (\<lambda>(k, d). jsonEscape k @ '':'' @ render d) kvs)) True bs)"
    by (rule Cons.IH) (use Cons.prems in auto)
  also have "\<dots> = (if kv # kvs = [] then inside out b bs
     else inside (out @ (if b then '','' else []) @
       commas (map (\<lambda>(k, d). jsonEscape k @ '':'' @ render d) (kv # kvs))) True bs)"
    by (simp add: commas_Cons kv)
  finally show ?case .
qed simp

lemma opened:
  "beginObj w = inside (mOut (comma w) @ ''{'') False (mNeedComma (comma w))"
  "beginArr w = inside (mOut (comma w) @ ''['') False (mNeedComma (comma w))"
  by (rule writer_eqI; simp add: inside_def beginObj_def beginArr_def push_def append_out_def comma_def split: list.split)+

lemma closed:
  assumes "writer_ok w"
  shows "endObj (inside (mOut (comma w) @ s) c (mNeedComma (comma w))) = append_out (s @ ''}'') (comma w)"
    "endArr (inside (mOut (comma w) @ s) c (mNeedComma (comma w))) = append_out (s @ '']'') (comma w)"
  using assms
  by (auto intro!: writer_eqI simp: inside_def endObj_def endArr_def pop_def append_out_def comma_def writer_ok_def split: list.splits)

lemma emit_render: "writer_ok w \<Longrightarrow> emit_doc d w = append_out (render d) (comma w)"
proof (induction d arbitrary: w)
  case (DArr ds)
  note all = fold_emit [of ds, OF DArr.IH, simplified]
  show ?case
    using closed(2) [OF DArr.prems, of "''['' @ commas (map render ds)" True] closed(2) [OF DArr.prems, of "''[''" False]
    by (simp add: opened all)
next
  case (DObj kvs)
  have ih: "emit_doc d w = append_out (render d) (comma w)" if "(k, d) \<in> set kvs" "writer_ok w" for k d w
    using DObj.IH [OF that(1), of d] that(2) by (simp add: snds.simps)
  show ?case
    using closed(1) [OF DObj.prems, of "''{'' @ commas (map (\<lambda>(k, d). jsonEscape k @ '':'' @ render d) kvs)" True]
      closed(1) [OF DObj.prems, of "''{''" False]
    using fold_emit_members [of kvs, OF ih] by (simp add: opened)
qed (simp_all add: null_value_def value_bool_def raw_def value_str_def)

section \<open>The parser reads back what the writer wrote\<close>

definition safe :: "string \<Rightarrow> bool" where
  "safe r \<longleftrightarrow> (case r of [] \<Rightarrow> True | c # _ \<Rightarrow> \<not> num_char c)"

lemma safe_simps [simp]: "safe []" "safe (CHR '','' # r)" "safe (CHR ''}'' # r)" "safe (CHR '']'' # r)"
  by (simp_all add: safe_def num_char_def is_digit_def)

lemma ws_skips_nothing: "\<not> is_ws c \<Longrightarrow> ws (c # s) = c # s"
  by (simp add: ws_def)

lemma not_ws [simp]: "\<not> is_ws quote" "\<not> is_ws (CHR '':'')" "\<not> is_ws (CHR '','')" "\<not> is_ws (CHR ''}'')"
  "\<not> is_ws (CHR '']'')" "\<not> is_ws (CHR ''{'')" "\<not> is_ws (CHR ''['')"
  "\<not> is_ws (CHR ''n'')" "\<not> is_ws (CHR ''t'')" "\<not> is_ws (CHR ''f'')" "\<not> is_ws (CHR ''-'')"
  by (simp_all add: is_ws_def)

lemma digit_plain: "is_digit c \<Longrightarrow> \<not> is_ws c" "is_digit c \<Longrightarrow> c \<notin> {quote, CHR ''{'', CHR ''['', CHR ''t'', CHR ''f'', CHR ''n'', CHR '']'', CHR ''}''}"
  by (auto simp: is_digit_def is_ws_def)

lemma takeWhile_safe: "list_all num_char t \<Longrightarrow> safe r \<Longrightarrow> takeWhile num_char (t @ r) = t \<and> dropWhile num_char (t @ r) = r"
  by (induction t) (auto simp: safe_def split: list.splits)

lemma parseNumber_text:
  assumes "num_ok t" and "safe r"
  shows "parseNumber (t @ r) = Inr (Number (fst (the (strtod t))), r)"
proof (cases t)
  case (Cons c s)
  obtain x where x: "strtod t = Some (x, [])" using assms(1) by (auto simp: num_ok_def)
  have all: "list_all num_char (c # s)" using assms(1) Cons by (simp add: num_ok_def)
  show ?thesis
    using takeWhile_safe [of s r] takeWhile_safe [of "c # s" r] all assms(2) x Cons
    by (cases "c = CHR ''-''") (simp_all add: parseNumber_def)
qed (use assms in \<open>simp add: num_ok_def\<close>)

lemma length_commas: "(\<And>x. x \<in> set xs \<Longrightarrow> x \<noteq> []) \<Longrightarrow> length xs \<le> length (commas xs)"
proof (induction xs rule: commas.induct)
  case (3 x y xs)
  have "x \<noteq> []" using "3.prems" by simp
  then show ?case using "3.IH" "3.prems" by (cases x) auto
qed (auto simp: Suc_le_eq)

lemma members_render:
  assumes "\<And>k d r. (k, d) \<in> set kvs \<Longrightarrow> safe r \<Longrightarrow> p (render d @ r) = Inr (value_of d, r)"
    and "kvs \<noteq> []" and "length kvs \<le> n"
  shows "members p n acc (commas (map (\<lambda>(k, d). jsonEscape k @ '':'' @ render d) kvs) @ CHR ''}'' # r) =
    Inr (Object (acc @ map (\<lambda>(k, d). (k, value_of d)) kvs), r)"
  using assms
proof (induction kvs arbitrary: acc n)
  case (Cons kv kvs)
  obtain k d where kv: "kv = (k, d)" by force
  obtain n' where n: "n = Suc n'" using Cons.prems(3) by (cases n) auto
  note d = Cons.prems(1) [of k d, unfolded kv, simplified]
  show ?case
  proof (cases "kvs = []")
    case True
    then show ?thesis
      using d [of "CHR ''}'' # r"] by (simp add: kv n jsonEscape_def parseString_escape ws_skips_nothing)
  next
    case False
    have "members p n' (acc @ [(k, value_of d)]) (commas (map (\<lambda>(k, d). jsonEscape k @ '':'' @ render d) kvs) @ CHR ''}'' # r) =
        Inr (Object ((acc @ [(k, value_of d)]) @ map (\<lambda>(k, d). (k, value_of d)) kvs), r)"
      by (rule Cons.IH) (use Cons.prems n False in auto)
    then show ?thesis
      using d [of "CHR '','' # commas (map (\<lambda>(k, d). jsonEscape k @ '':'' @ render d) kvs) @ CHR ''}'' # r"] False
      by (simp add: kv n jsonEscape_def commas_Cons parseString_escape ws_skips_nothing)
  qed
qed simp

lemma elements_render:
  assumes "\<And>d r. d \<in> set ds \<Longrightarrow> safe r \<Longrightarrow> p (render d @ r) = Inr (value_of d, r)"
    and "ds \<noteq> []" and "length ds \<le> n"
  shows "elements p n acc (commas (map render ds) @ CHR '']'' # r) = Inr (Array (acc @ map value_of ds), r)"
  using assms
proof (induction ds arbitrary: acc n)
  case (Cons d ds)
  obtain n' where n: "n = Suc n'" using Cons.prems(3) by (cases n) auto
  note d = Cons.prems(1) [of d, simplified]
  show ?case
  proof (cases "ds = []")
    case True
    then show ?thesis using d [of "CHR '']'' # r"] by (simp add: n ws_skips_nothing)
  next
    case False
    have "elements p n' (acc @ [value_of d]) (commas (map render ds) @ CHR '']'' # r) =
        Inr (Array ((acc @ [value_of d]) @ map value_of ds), r)"
      by (rule Cons.IH) (use Cons.prems n False in auto)
    then show ?thesis
      using d [of "CHR '','' # commas (map render ds) @ CHR '']'' # r"] False
      by (simp add: n commas_Cons ws_skips_nothing)
  qed
qed simp

declare members.simps [simp del] elements.simps [simp del]

lemma render_first:
  assumes "good n d"
  obtains c s where "render d = c # s" "\<not> is_ws c" "c \<noteq> CHR '']''"
proof (cases d)
  case (DNum t)
  then obtain c s where "t = c # s" "is_digit c \<or> c = CHR ''-''"
    using assms by (cases n; cases t) (auto simp: num_ok_def)
  then show thesis using that [of c s] DNum digit_plain [of c] by auto
next
  case (DBool b)
  then show thesis using that by (cases b) auto
qed (use that in \<open>auto simp: jsonEscape_def\<close>)

lemma render_nonempty: "good n d \<Longrightarrow> render d \<noteq> []"
  by (erule render_first) simp

lemma parse_render: "good n d \<Longrightarrow> safe r \<Longrightarrow> parseValue n (render d @ r) = Inr (value_of d, r)"
proof (induction d arbitrary: n r)
  case DNull
  then show ?case by (cases n) (auto simp: ws_skips_nothing literal_def lit_def)
next
  case (DBool b)
  then show ?case by (cases n) (auto simp: ws_skips_nothing literal_def lit_def)
next
  case (DNum t)
  obtain m where n: "n = Suc m" "num_ok t" using DNum.prems(1) by (cases n) auto
  obtain c s where t: "t = c # s" "is_digit c \<or> c = CHR ''-''"
    using n(2) by (cases t) (auto simp: num_ok_def)
  then have "\<not> is_ws c" "c \<notin> {quote, CHR ''{'', CHR ''['', CHR ''t'', CHR ''f'', CHR ''n''}"
    using digit_plain [of c] by auto
  then show ?case using parseNumber_text [OF n(2) DNum.prems(2)] t(1) by (simp add: n ws_skips_nothing)
next
  case (DStr s)
  then show ?case by (cases n) (auto simp: jsonEscape_def ws_skips_nothing parseString_escape)
next
  case (DArr ds)
  obtain m where n: "n = Suc m" using DArr.prems(1) by (cases n) auto
  have good: "good m d" if "d \<in> set ds" for d using DArr.prems(1) that by (simp add: n)
  show ?case
  proof (cases "ds = []")
    case False
    let ?t = "commas (map render ds) @ CHR '']'' # r"
    have "length (map render ds) \<le> length (commas (map render ds))"
      by (rule length_commas) (auto dest: good render_nonempty)
    then have "elements (parseValue m) (Suc (length ?t)) [] ?t = Inr (Array (map value_of ds), r)"
      using elements_render [of ds "parseValue m" "Suc (length ?t)" "[]" r] DArr.IH good False by auto
    moreover obtain d0 ds0 where ds: "ds = d0 # ds0" using False by (cases ds) auto
    moreover obtain c s where c: "render d0 = c # s" "\<not> is_ws c" "c \<noteq> CHR '']''"
      using render_first [OF good [of d0]] ds by auto
    ultimately show ?thesis by (simp add: n commas_Cons ws_skips_nothing parseArray_def)
  qed (simp add: n ws_skips_nothing parseArray_def)
next
  case (DObj kvs)
  obtain m where n: "n = Suc m" using DObj.prems(1) by (cases n) auto
  have good: "good m d" if "(k, d) \<in> set kvs" for k d using DObj.prems(1) that by (auto simp: n)
  show ?case
  proof (cases "kvs = []")
    case False
    let ?f = "\<lambda>(k, d). jsonEscape k @ '':'' @ render d"
    let ?t = "commas (map ?f kvs) @ CHR ''}'' # r"
    have "length (map ?f kvs) \<le> length (commas (map ?f kvs))"
      by (rule length_commas) auto
    then have m: "members (parseValue m) (Suc (length ?t)) [] ?t = Inr (Object (map (\<lambda>(k, d). (k, value_of d)) kvs), r)"
      using members_render [of kvs "parseValue m" "Suc (length ?t)" "[]" r] DObj.IH good False
      by (auto simp: snds.simps)
    obtain s where s: "?t = quote # s"
      using False by (cases kvs) (auto simp: commas_Cons jsonEscape_def)
    have "parseObject (parseValue m) ?t = Inr (Object (map (\<lambda>(k, d). (k, value_of d)) kvs), r)"
      using m unfolding s by (simp add: ws_skips_nothing parseObject_def)
    then show ?thesis by (simp add: n ws_skips_nothing)
  qed (simp add: n ws_skips_nothing parseObject_def)
qed

lemma writer_parses:
  assumes "good 65 d" and "length (mOut (emit_doc d JsonWriter)) \<le> 1024 * 1024"
  shows "parse (mOut (emit_doc d JsonWriter)) = Inr (value_of d)"
proof -
  have "mOut (emit_doc d JsonWriter) = render d"
    using emit_render [of JsonWriter d] by (simp add: writer_ok_def JsonWriter_def append_out_def comma_def)
  with assms parse_render [of 65 d "[]"] show ?thesis by (simp add: parse_def ws_def)
qed

section \<open>Numbers as text\<close>

lemma is_digit_nat_str: "list_all is_digit (nat_str n)"
  using nat_str_digits by (force simp: list_all_iff is_digit_def)

lemma digit_num_char: "is_digit c \<Longrightarrow> num_char c"
  by (simp add: num_char_def)

lemma digits_num_char: "list_all is_digit ds \<Longrightarrow> list_all num_char ds"
  by (auto simp: list_all_iff digit_num_char)

lemma digits_span:
  assumes "list_all is_digit ds" and "case r of [] \<Rightarrow> True | c # _ \<Rightarrow> \<not> is_digit c"
  shows "takeWhile is_digit (ds @ r) = ds" "dropWhile is_digit (ds @ r) = r"
  using assms by (induction ds) (auto split: list.splits)

lemma digit_not [simp]: "\<not> is_digit (CHR ''.'')" "\<not> is_digit (CHR ''e'')" "\<not> is_digit (CHR ''-'')" "\<not> is_digit (CHR ''+'')"
  by (simp_all add: is_digit_def)

lemma unsigned: "list_all is_digit ds \<Longrightarrow> ds \<noteq> [] \<Longrightarrow> sign_of (ds @ r) = (1, ds @ r)"
  by (cases ds) (auto simp: sign_of_def)

text \<open>An optional fraction and an optional exponent, as \<open>%g\<close> prints them.\<close>

definition frac_text :: "string \<Rightarrow> bool" where
  "frac_text f \<longleftrightarrow> f = [] \<or> (\<exists>ds. f = CHR ''.'' # ds \<and> ds \<noteq> [] \<and> list_all is_digit ds)"

definition exp_text :: "string \<Rightarrow> bool" where
  "exp_text e \<longleftrightarrow> e = [] \<or> (\<exists>s ds. e = CHR ''e'' # s # ds \<and> (s = CHR ''+'' \<or> s = CHR ''-'') \<and> ds \<noteq> [] \<and> list_all is_digit ds)"

lemma digits_all: "list_all is_digit ds \<Longrightarrow> takeWhile is_digit ds = ds" "list_all is_digit ds \<Longrightarrow> dropWhile is_digit ds = []"
  using digits_span [of ds "[]"] by simp_all

lemma exponent_text: "exp_text e \<Longrightarrow> \<exists>x. exponent e = (x, [])"
proof (unfold exp_text_def, elim disjE exE conjE)
  fix s ds assume "e = CHR ''e'' # s # ds" "s = CHR ''+''" "ds \<noteq> []" "list_all is_digit ds"
  then show ?thesis by (simp add: exponent_def sign_of_def Let_def digits_all)
next
  fix s ds assume "e = CHR ''e'' # s # ds" "s = CHR ''-''" "ds \<noteq> []" "list_all is_digit ds"
  then show ?thesis by (simp add: exponent_def sign_of_def Let_def digits_all)
qed (simp add: exponent_def)

lemma exp_head: "exp_text e \<Longrightarrow> case e of [] \<Rightarrow> True | c # _ \<Rightarrow> \<not> is_digit c"
  by (auto simp: exp_text_def split: list.splits)

lemma strtod_text:
  assumes "list_all is_digit ds" and "ds \<noteq> []" and "frac_text f" and "exp_text e"
  shows "\<exists>x. strtod (ds @ f @ e) = Some (x, [])" "\<exists>x. strtod (CHR ''-'' # ds @ f @ e) = Some (x, [])"
proof -
  have fe: "case f @ e of [] \<Rightarrow> True | c # _ \<Rightarrow> \<not> is_digit c"
    using assms(3) exp_head [OF assms(4)] by (auto simp: frac_text_def split: list.splits)
  obtain x where x: "exponent e = (x, [])" using exponent_text [OF assms(4)] by blast
  have f: "(case skip_char (CHR ''.'') (f @ e) of
       Some r \<Rightarrow> (takeWhile is_digit r, dropWhile is_digit r) | None \<Rightarrow> ([], f @ e)) = (tl f, e)"
    using assms(3)
  proof (unfold frac_text_def, elim disjE exE conjE)
    fix ds assume "f = CHR ''.'' # ds" "list_all is_digit ds"
    then show ?thesis using digits_span [of ds e] exp_head [OF assms(4)] by simp
  qed (use assms(4) in \<open>auto simp: exp_text_def\<close>)
  have "sign_of (CHR ''-'' # ds @ f @ e) = (- 1, ds @ f @ e)" by (simp add: sign_of_def)
  then show "\<exists>x. strtod (ds @ f @ e) = Some (x, [])" "\<exists>x. strtod (CHR ''-'' # ds @ f @ e) = Some (x, [])"
    using digits_span [OF assms(1) fe] f x assms(2) unsigned [OF assms(1,2), of "f @ e"]
    by (simp_all add: strtod_def)
qed

lemma num_ok_text:
  assumes "list_all is_digit ds" and "ds \<noteq> []" and "frac_text f" and "exp_text e"
  shows "num_ok ((if b then ''-'' else []) @ ds @ f @ e)"
proof -
  have "is_digit (hd ds)" using assms(1,2) by (cases ds) auto
  moreover have "list_all num_char (ds @ f @ e)"
    using assms digits_num_char by (auto simp: frac_text_def exp_text_def num_char_def)
  ultimately show ?thesis
    using strtod_text [OF assms] assms(2) by (auto simp: num_ok_def num_char_def)
qed

lemma strtod_digits:
  assumes "list_all is_digit ds" and "ds \<noteq> []"
  shows "strtod ds = Some (real (dec_val ds), [])" "strtod (CHR ''-'' # ds) = Some (- real (dec_val ds), [])"
  using unsigned [OF assms, of "[]"] assms(2)
  by (simp_all add: strtod_def Let_def sign_of_def [of "CHR ''-'' # ds"] exponent_def digits_all [OF assms(1)])

lemma num_ok_nat_str: "num_ok (nat_str n)"
  using num_ok_text [OF is_digit_nat_str [of n], of "[]" "[]" False] by (simp add: frac_text_def exp_text_def)

lemma num_ok_u_str: "num_ok (u_str w)"
  by (simp add: u_str_def num_ok_nat_str)

lemma num_ok_int_str: "num_ok (int_str i)"
  using num_ok_text [OF is_digit_nat_str, of _ "[]" "[]" True]
  by (simp add: int_str_def num_ok_nat_str frac_text_def exp_text_def)

lemma int_str_value: "value_of (DNum (int_str i)) = Number (of_int i)"
  using strtod_digits [OF is_digit_nat_str, of "nat (- i)"] strtod_digits [OF is_digit_nat_str, of "nat i"]
  by (simp add: int_str_def)

lemma fraction_text: "list_all is_digit s \<Longrightarrow> frac_text (fraction s)"
proof -
  assume s: "list_all is_digit s"
  have "set (strip_zeros s) \<subseteq> set s" by (auto simp: strip_zeros_def dest: set_dropWhileD)
  then have "list_all is_digit (strip_zeros s)" using s by (auto simp: list_all_iff)
  then show ?thesis by (auto simp: fraction_def frac_text_def split: list.split)
qed

lemma num_ok_g9: "num_ok (g9 v)"
proof (cases "v = 0")
  case True
  then show ?thesis using num_ok_nat_str [of 0] by (simp add: g9_def nat_str.simps [of 0] digit_char_def)
next
  case False
  obtain m e where m: "sig9 \<bar>v\<bar> = (m, e)" by force
  let ?ds = "nat_str m" and ?b = "v < 0"
  have dig: "list_all is_digit ?ds" by (rule is_digit_nat_str)
  have sub: "list_all is_digit (take n ?ds)" "list_all is_digit (drop n ?ds)" for n
    using dig by (auto simp: list_all_iff dest: in_set_takeD in_set_dropD)
  have ex: "exp_text (CHR ''e'' # (if e < 0 then ''-'' else ''+'') @ two_digits n)" for n
    using is_digit_nat_str [of n] by (simp add: exp_text_def two_digits_def) (simp add: is_digit_def)
  have zero: "list_all is_digit ''0''" by (simp add: is_digit_def)
  have zeros: "list_all is_digit (replicate n (CHR ''0'') @ ?ds)" for n
    using dig by (auto simp: list_all_iff is_digit_def)
  have none: "exp_text []" by (simp add: exp_text_def)
  have "num_ok ((if ?b then ''-'' else []) @ take 1 ?ds @ fraction (drop 1 ?ds) @ CHR ''e'' #
      (if e < 0 then ''-'' else ''+'') @ two_digits (nat \<bar>e\<bar>))"
    by (rule num_ok_text [OF sub(1) _ fraction_text [OF sub(2)] ex]) simp
  moreover have "num_ok ((if ?b then ''-'' else []) @ ''0'' @ fraction (replicate (nat (- e) - 1) (CHR ''0'') @ ?ds) @ [])"
    by (rule num_ok_text [OF zero _ fraction_text [OF zeros] none]) simp
  moreover have "num_ok ((if ?b then ''-'' else []) @ take (nat e + 1) ?ds @ fraction (drop (nat e + 1) ?ds) @ [])"
    by (rule num_ok_text [OF sub(1) _ fraction_text [OF sub(2)] none]) simp
  ultimately show ?thesis using False by (simp add: g9_def m Let_def)
qed

end
