(* ===== verification/Snapshot.thy ===== *)
theory Snapshot
  imports Json Engine_Proofs
begin

text \<open>
  The \<open>snapshot\<close> of every module, \<open>SharedModel::snapshotMrp\<close>, \<open>histJson\<close> and
  \<open>Session::stateJson\<close>: the analysis state as one JSON object.  A statement sequence on the
  writer is a list of writer functions; \<open>obj\<close> and \<open>arr\<close> bracket one between the
  \<open>begin\<close> and \<open>end\<close> calls.  The second part shows that whatever the state holds the text is
  JSON, with exactly one member per published table.
\<close>

section \<open>Statements on the writer\<close>

definition run :: "(writer \<Rightarrow> writer) list \<Rightarrow> writer \<Rightarrow> writer" where
  "run fs w = fold (\<lambda>f. f) fs w"

definition obj :: "(writer \<Rightarrow> writer) list \<Rightarrow> writer \<Rightarrow> writer" where
  "obj fs w = endObj (run fs (beginObj w))"

definition arr :: "(writer \<Rightarrow> writer) list \<Rightarrow> writer \<Rightarrow> writer" where
  "arr fs w = endArr (run fs (beginArr w))"

definition kv :: "string \<Rightarrow> (writer \<Rightarrow> writer) \<Rightarrow> writer \<Rightarrow> writer" where
  "kv k f w = f (key k w)"

definition kv_str :: "string \<Rightarrow> string \<Rightarrow> writer \<Rightarrow> writer" where "kv_str k v = kv k (value_str v)"
definition kv_int :: "string \<Rightarrow> int \<Rightarrow> writer \<Rightarrow> writer" where "kv_int k v = kv k (value_int v)"
definition kv_u64 :: "string \<Rightarrow> 'a::len word \<Rightarrow> writer \<Rightarrow> writer" where "kv_u64 k v = kv k (value_u64 v)"
definition kv_double :: "string \<Rightarrow> double \<Rightarrow> writer \<Rightarrow> writer" where "kv_double k v = kv k (value_double v)"

text \<open>\<open>s.empty() ? dflt : s\<close>, and an id or address shown unless zero.\<close>

definition or_else :: "string \<Rightarrow> string \<Rightarrow> string" where
  "or_else s dflt = (if s = [] then dflt else s)"

definition id_or_empty :: "u64 \<Rightarrow> string" where
  "id_or_empty v = (if v = 0 then '''' else idStr v)"

definition mac_or_empty :: "u64 \<Rightarrow> string" where
  "mac_or_empty v = (if v = 0 then '''' else macStr v)"

definition histJson :: "hist_entry list \<Rightarrow> writer \<Rightarrow> writer" where
  "histJson hs = kv ''history'' (arr (map (\<lambda>h. obj [
     kv_double ''ts'' (h_ts h), kv_u64 ''n'' (h_n h),
     kv_str ''from'' (h_from h), kv_str ''to'' (h_to h), kv_str ''why'' (h_why h)]) hs))"

section \<open>The modules\<close>

definition mvrp_snapshot :: "mvrp \<Rightarrow> writer \<Rightarrow> writer" where
  "mvrp_snapshot m = kv ''vlans'' (arr (map (\<lambda>(vid, vl). obj [
     kv_u64 ''vid'' vid,
     kv_str ''state'' (or_else (vl_state vl) ''UNKNOWN''),
     kv ''members'' (arr (map (\<lambda>a. value_str (macStr a)) (sorted_list_of_set (vl_members vl)))),
     histJson (vl_hist vl)]) (mVlans m)))"

definition maap_snapshot :: "maap \<Rightarrow> writer \<Rightarrow> writer" where
  "maap_snapshot m = kv ''maap'' (arr (map (\<lambda>(claimant, r). obj [
     kv_str ''claimant'' (macStr claimant),
     kv_str ''range_start'' (macStr (rg_start r)),
     kv_u64 ''count'' (rg_count r),
     kv_str ''state'' (or_else (rg_state r) ''UNKNOWN''),
     kv_u64 ''conflicts'' (rg_conflicts r),
     histJson (rg_hist r)]) (mRanges m)))"

definition adp_snapshot :: "shared option \<Rightarrow> adp \<Rightarrow> writer \<Rightarrow> writer" where
  "adp_snapshot sh m = kv ''entities'' (arr (map (\<lambda>(i, e). obj [
     kv_str ''entity_id'' (idStr i),
     kv_str ''name'' (sh_name sh i),
     kv_str ''model_id'' (idStr (en_modelId e)),
     kv_str ''state'' (or_else (en_state e) ''UNKNOWN''),
     kv_double ''last_seen'' (en_lastSeen e),
     kv_u64 ''available_index'' (en_availIdx e),
     kv_u64 ''talker_sources'' (en_talkerSources e),
     kv_u64 ''listener_sinks'' (en_listenerSinks e),
     kv_str ''gptp_gm'' (idStr (en_gmId e)),
     kv_u64 ''gptp_domain'' (en_gptpDomain e),
     kv_str ''gm_in_sync'' (gmInSync sh e),
     histJson (en_hist e)]) (mEntities m)))"

definition aecp_snapshot :: "aecp \<Rightarrow> writer \<Rightarrow> writer" where
  "aecp_snapshot m = kv ''aecp'' (arr (map (\<lambda>((controller, target), p). obj [
     kv_str ''controller'' (idStr controller),
     kv_str ''target'' (idStr target),
     kv_u64 ''commands'' (pr_commands p),
     kv_u64 ''responses'' (pr_responses p),
     kv_u64 ''timeouts'' (pr_timeouts p),
     kv_u64 ''unsolicited'' (pr_unsolicited p),
     kv ''last'' (arr (map (\<lambda>l. obj [
       kv_u64 ''sequence_id'' (ls_seq l),
       kv_str ''command'' (aemCommandName (ls_cmd l)),
       kv_str ''status'' (aemStatusName (ls_status l)),
       kv_double ''rtt_ms'' (ls_rttMs l)]) (pr_last p)))]) (mPairs m)))"

definition declarationName :: "int \<Rightarrow> string" where
  "declarationName d = (if d = DeclAdvertise then ''ADVERTISE'' else if d = DeclFailed then ''FAILED'' else '''')"

definition gptp_annotation :: "shared option \<Rightarrow> string" where
  "gptp_annotation sh = (let sync = (case sh of None \<Rightarrow> 0 | Some s \<Rightarrow> syncStateForAnnotation s)
     in if sync = 1 then ''HEALTHY'' else if sync = 2 then ''LOST'' else ''UNKNOWN'')"

definition reservation_json :: "shared option \<Rightarrow> u64 \<times> res \<Rightarrow> writer \<Rightarrow> writer" where
  "reservation_json sh = (\<lambda>(sid, r). obj [
     kv_str ''stream_id'' (idStr sid),
     kv_str ''talker_mac'' (mac_or_empty (rs_talkerMac r)),
     kv_str ''dest_mac'' (mac_or_empty (rs_destMac r)),
     kv_u64 ''vlan'' (rs_vlan r),
     kv_u64 ''max_frame_size'' (rs_maxFrameSize r),
     kv_u64 ''max_interval_frames'' (rs_maxIntervalFrames r),
     kv_u64 ''priority'' (rs_priority r),
     kv_u64 ''rank'' (rs_rank r),
     kv_u64 ''accumulated_latency'' (rs_accLatency r),
     kv_str ''state'' (or_else (rs_state r) ''PENDING''),
     kv_str ''declaration'' (declarationName (rs_decl r)),
     kv_str ''failure_bridge'' (id_or_empty (rs_failBridge r)),
     kv_u64 ''failure_code'' (rs_failCode r),
     kv_str ''gptp_sync'' (gptp_annotation sh),
     kv ''listeners'' (arr (map (\<lambda>(mac, fp). obj [
       kv_str ''mac'' (macStr mac), kv_str ''state'' (listenerStateName fp)]) (rs_listeners r))),
     histJson (rs_hist r)])"

definition msrp_snapshot :: "shared option \<Rightarrow> msrp \<Rightarrow> writer \<Rightarrow> writer" where
  "msrp_snapshot sh m = run [
     kv ''reservations'' (arr (map (reservation_json sh) (mRes m))),
     kv ''domains'' (arr (map (\<lambda>d. obj [
       kv_u64 ''class_id'' (sd_classId d),
       kv_u64 ''priority'' (sd_classPrio d),
       kv_u64 ''vid'' (sd_vid d),
       kv_str ''declarer'' (macStr (sd_declarer d))]) (mDomains m)))]"

definition conn_json :: "conn_key \<times> conn \<Rightarrow> writer \<Rightarrow> writer" where
  "conn_json = (\<lambda>(k, c). obj [
     kv_str ''talker_entity'' (idStr (k_talker k)),
     kv_u64 ''talker_unique_id'' (k_talkerUid k),
     kv_str ''listener_entity'' (idStr (k_listener k)),
     kv_u64 ''listener_unique_id'' (k_listenerUid k),
     kv_str ''controller_entity'' (idStr (cn_controller c)),
     kv_str ''stream_id'' (idStr (cn_streamId c)),
     kv_str ''dest_mac'' (mac_or_empty (cn_destMac c)),
     kv_u64 ''vlan'' (cn_vlan c),
     kv_u64 ''connection_count'' (cn_connCount c),
     kv_str ''state'' (cn_state c),
     histJson (cn_hist c)])"

definition sink_json :: "shared option \<Rightarrow> ep_key \<times> sink \<Rightarrow> writer \<Rightarrow> writer" where
  "sink_json sh = (\<lambda>(k, s). obj [
     kv_str ''listener_entity'' (idStr (sk_listener s)),
     kv_u64 ''listener_unique_id'' (sk_uid s),
     kv_str ''state'' (or_else (sk_state s) ''UNBOUND''),
     kv_str ''probing_status'' (probingStatus (sk_state s)),
     kv_str ''bound_talker'' (id_or_empty (boundTalker s)),
     kv_u64 ''bound_talker_unique_id'' (boundTalkerUid s),
     kv_str ''controller'' (id_or_empty (sk_controller s)),
     kv_str ''stream_id'' (id_or_empty (sk_streamId s)),
     kv_str ''dest_mac'' (mac_or_empty (sk_destMac s)),
     kv_u64 ''vlan'' (sk_vlan s),
     kv_u64 ''probes_sent'' (probes s),
     kv_str ''talker_discovered'' (sink_discovered sh s),
     histJson (sk_hist s)])"

definition talker_json :: "shared option \<Rightarrow> ep_key \<times> milan_talker \<Rightarrow> writer \<Rightarrow> writer" where
  "talker_json sh = (\<lambda>(k, t). obj [
     kv_str ''talker_entity'' (idStr (tk_talker t)),
     kv_u64 ''talker_unique_id'' (tk_uid t),
     kv_u64 ''probes_received'' (probesReceived t),
     kv_u64 ''probe_responses'' (probeResponses t),
     kv_str ''last_status'' (acmpStatusName (lastStatus t)),
     kv_str ''stream_id'' (id_or_empty (tk_streamId t)),
     kv_str ''srp_declaration'' (srp_declaration sh t),
     kv_u64 ''disconnect_tx_seen'' (disconnectTx t),
     kv_u64 ''get_tx_connection_seen'' (getTxConnection t),
     histJson (tk_hist t)])"

definition acmp_snapshot :: "shared option \<Rightarrow> acmp \<Rightarrow> writer \<Rightarrow> writer" where
  "acmp_snapshot sh m = run [
     kv ''connections'' (arr (map conn_json (mConns m))),
     kv ''milan_sinks'' (arr (map (sink_json sh) (mSinks m))),
     kv ''milan_talkers'' (arr (map (talker_json sh) (mTalkers m)))]"

definition domain_json :: "shared option \<Rightarrow> u8 \<times> gdomain \<Rightarrow> writer \<Rightarrow> writer" where
  "domain_json sh = (\<lambda>(num, d). obj [
     kv_u64 ''domain'' num,
     kv_str ''state'' (or_else (gmState d) ''NO_GM''),
     kv_str ''sync'' (or_else (gd_sync d) ''UNKNOWN''),
     kv ''grandmaster'' (obj [
       kv_str ''clock_identity'' (id_or_empty (gd_gmId d)),
       kv_str ''name'' (sh_name sh (gd_gmId d)),
       kv_u64 ''priority1'' (gd_p1 d),
       kv_u64 ''priority2'' (gd_p2 d),
       kv_u64 ''clock_class'' (gd_clockClass d),
       kv_str ''clock_accuracy'' (hexStr (ucast (gd_clockAccuracy d)) 2),
       kv_u64 ''offset_scaled_log_variance'' (gd_variance d),
       kv_u64 ''steps_removed'' (gd_stepsRemoved d),
       kv_str ''time_source'' (gptpTimeSourceName (gd_timeSource d)),
       kv_int ''current_utc_offset'' (utcOffset d)]),
     kv_double ''sync_interval_ms'' (syncIntervalS d * 10 ^ 3),
     kv_double ''announce_interval_ms'' (gd_announceIntervalS d * 10 ^ 3),
     kv_double ''last_sync'' (lastSync d),
     kv_double ''last_announce'' (lastAnnounce d),
     kv_double ''last_sync_gap_ms'' (lastGapS d * 10 ^ 3),
     kv_u64 ''sync_count'' (syncCount d),
     kv_u64 ''follow_up_count'' (followUpCount d),
     kv_u64 ''unmatched_follow_ups'' (unmatchedFollowUps d),
     kv_u64 ''announce_count'' (announceCount d),
     kv_double ''cumulative_rate_offset_ppm'' (rateOffsetPpm d),
     kv_u64 ''gm_time_base_indicator'' (gmTimeBaseIndicator d),
     kv_str ''path_trace'' (pathTrace d),
     kv_str ''expected_gm'' (id_or_empty (expectedGm d)),
     kv_str ''expected_gm_name'' (if expectedGm d = 0 then '''' else sh_name sh (expectedGm d)),
     kv_str ''sync_gm'' (id_or_empty (syncSenderGm d)),
     kv_str ''bmca'' (bmcaState d),
     kv_int ''announcers'' (int (length (announcers d))),
     histJson (gd_hist d)])"

definition port_json :: "shared option \<Rightarrow> u64 \<times> port \<Rightarrow> writer \<Rightarrow> writer" where
  "port_json sh = (\<lambda>(k, p). obj [
     kv_str ''port'' (portStr p),
     kv_str ''clock_identity'' (idStr (pt_clockId p)),
     kv_u64 ''port_number'' (pt_portNum p),
     kv_str ''src_mac'' (mac_or_empty (pt_srcMac p)),
     kv_str ''name'' (sh_name sh (pt_clockId p)),
     kv_u64 ''domain'' (pt_domain p),
     kv_str ''role'' (or_else (role p) ''UNKNOWN''),
     kv_str ''as_capable'' (or_else (asCapable p) ''UNKNOWN''),
     kv_u64 ''sync_sent'' (syncSent p),
     kv_u64 ''announce_sent'' (announceSent p),
     kv_u64 ''signaling_sent'' (signalingSent p),
     kv ''pdelay'' (obj [
       kv_u64 ''initiated'' (pdelayInitiated p),
       kv_u64 ''complete'' (pdelayComplete p),
       kv_u64 ''lost'' (pdelayLostCount p),
       kv_u64 ''consecutive_lost'' (consecutiveLost p),
       kv_double ''req_interval_ms'' (reqIntervalS p * 10 ^ 3),
       kv_double ''last_turnaround_us'' (lastTurnaroundUs p),
       kv_double ''last_observed_gap_ms'' (lastObservedGapMs p)]),
     kv ''md'' (obj [
       kv_str ''clause'' ''11 (full-duplex point-to-point, 802.3 copper/fiber)'',
       kv_str ''pdelay_req_state'' (or_else (mdReqState p) ''NOT_ENABLED''),
       kv_str ''pdelay_resp_state'' (or_else (mdRespState p) ''NOT_ENABLED''),
       kv_str ''sync_send_state'' (or_else (mdSyncSendState p) ''NOT_ENABLED''),
       kv_u64 ''resets'' (mdResets p)]),
     kv_str ''announce_state'' (or_else (announceState p) ''NONE''),
     kv_str ''gptp_capable'' (or_else (gptpCapable p) ''UNKNOWN''),
     (if reqIntervalsSeen p then kv ''requested_intervals'' (obj [
        kv_str ''link_delay'' (gptpLogIntervalStr (reqLinkDelay p)),
        kv_str ''time_sync'' (gptpLogIntervalStr (reqTimeSync p)),
        kv_str ''announce'' (gptpLogIntervalStr (reqAnnounce p))])
      else (\<lambda>w. w)),
     histJson (pt_hist p)])"

definition gptp_snapshot :: "shared option \<Rightarrow> gptp \<Rightarrow> writer \<Rightarrow> writer" where
  "gptp_snapshot sh g = kv ''gptp'' (obj [
     kv ''domains'' (arr (map (domain_json sh) (gp_domains g))),
     kv ''ports'' (arr (map (port_json sh) (mPorts g)))])"

definition snapshotMrp :: "shared \<Rightarrow> writer \<Rightarrow> writer" where
  "snapshotMrp s = kv ''mrp'' (arr (map (\<lambda>(k, a). obj [
     kv_str ''proto'' (protoName (ma_proto a)),
     kv_str ''kind'' (ma_kind a),
     kv_str ''attribute'' (ma_key a),
     kv_str ''source'' (macStr (ma_source a)),
     kv_str ''registrar'' (or_else (registrar a) ''MT''),
     kv_str ''last_event'' (lastEvent a),
     kv_double ''last_event_ts'' (lastEventTs a),
     kv_u64 ''events'' (eventCount a),
     kv ''log'' (arr (map (\<lambda>e. obj [
       kv_double ''ts'' (l_ts e),
       kv_u64 ''n'' (l_n e),
       kv_str ''event'' (l_event e),
       kv_str ''state'' (l_after e)]) (ma_log a))),
     histJson (ma_hist a)]) (mrpAttrs s)))"

fun lm_snapshot :: "shared option \<Rightarrow> logic_module \<Rightarrow> writer \<Rightarrow> writer" where
  "lm_snapshot sh (AdpM m) = adp_snapshot sh m"
| "lm_snapshot sh (MsrpM m) = msrp_snapshot sh m"
| "lm_snapshot sh (MvrpM m) = mvrp_snapshot m"
| "lm_snapshot sh (MaapM m) = maap_snapshot m"
| "lm_snapshot sh (AcmpM m) = acmp_snapshot sh m"
| "lm_snapshot sh (AecpM m) = aecp_snapshot m"
| "lm_snapshot sh (GptpM g) = gptp_snapshot sh g"

definition snapshotJson :: "analysis \<Rightarrow> writer \<Rightarrow> writer" where
  "snapshotJson a = obj (map (\<lambda>(svc, m). lm_snapshot (Some (an_shared a)) m) (an_modules a) @ [snapshotMrp (an_shared a)])"

definition stateJson :: "session \<Rightarrow> string" where
  "stateJson s = (case se_logic s of None \<Rightarrow> ''{}'' | Some a \<Rightarrow> mOut (snapshotJson a JsonWriter))"

section \<open>Every snapshot is a JSON document\<close>

definition writes :: "nat \<Rightarrow> (writer \<Rightarrow> writer) \<Rightarrow> bool" where
  "writes n f \<longleftrightarrow> (\<exists>d. f = emit_doc d \<and> good n d)"

text \<open>A function that writes members with the keys \<open>ks\<close>.\<close>

definition adds :: "nat \<Rightarrow> string list \<Rightarrow> (writer \<Rightarrow> writer) \<Rightarrow> bool" where
  "adds n ks f \<longleftrightarrow> (\<exists>kvs. f = fold (\<lambda>(k, d). emit_doc d \<circ> key k) kvs \<and> map fst kvs = ks \<and> (\<forall>(k, d) \<in> set kvs. good n d))"

abbreviation writes_members :: "nat \<Rightarrow> (writer \<Rightarrow> writer) \<Rightarrow> bool" where
  "writes_members n f \<equiv> \<exists>ks. adds n ks f"

named_theorems json_intros \<open>writer statements that build documents\<close>

lemma writes_scalar [json_intros]:
  "writes (Suc n) (value_str s)" "writes (Suc n) (value_bool b)" "writes (Suc n) (value_int i)"
  "writes (Suc n) (value_u64 w)" "writes (Suc n) (value_double x)" "writes (Suc n) null_value"
proof -
  have num: "writes (Suc n) f" if "\<And>w. f w = raw t w" "num_ok t" for f t
    unfolding writes_def using that by (intro exI [of _ "DNum t"]) auto
  show "writes (Suc n) (value_str s)" unfolding writes_def by (intro exI [of _ "DStr s"]) auto
  show "writes (Suc n) (value_bool b)" unfolding writes_def by (intro exI [of _ "DBool b"]) auto
  show "writes (Suc n) null_value" unfolding writes_def by (intro exI [of _ DNull]) auto
  show "writes (Suc n) (value_int i)" by (rule num [of _ "int_str i"]) (simp_all add: value_int_def raw_def num_ok_int_str)
  show "writes (Suc n) (value_u64 w)" by (rule num [of _ "u_str w"]) (simp_all add: value_u64_def raw_def num_ok_u_str)
  show "writes (Suc n) (value_double x)" by (rule num [of _ "g9 x"]) (simp_all add: value_double_def raw_def num_ok_g9)
qed

lemma adds_kv [json_intros]: "writes n f \<Longrightarrow> adds n [k] (kv k f)"
proof -
  assume "writes n f"
  then obtain d where "f = emit_doc d" "good n d" by (auto simp: writes_def)
  then show ?thesis unfolding adds_def by (intro exI [of _ "[(k, d)]"]) (auto simp: kv_def)
qed

lemma adds_kvs [json_intros]:
  "adds (Suc n) [k] (kv_str k s)" "adds (Suc n) [k] (kv_int k i)" "adds (Suc n) [k] (kv_u64 k w)"
  "adds (Suc n) [k] (kv_double k x)"
  by (simp_all add: kv_str_def kv_int_def kv_u64_def kv_double_def adds_kv writes_scalar)

lemma adds_none: "adds n [] (\<lambda>w. w)"
  by (auto simp: adds_def)

lemma adds_two: "adds n ks f \<Longrightarrow> adds n ls g \<Longrightarrow> adds n (ks @ ls) (\<lambda>w. g (f w))"
proof -
  assume "adds n ks f" "adds n ls g"
  then obtain kf kg where "f = fold (\<lambda>(k, d). emit_doc d \<circ> key k) kf" "map fst kf = ks" "\<forall>(k, d) \<in> set kf. good n d"
    "g = fold (\<lambda>(k, d). emit_doc d \<circ> key k) kg" "map fst kg = ls" "\<forall>(k, d) \<in> set kg. good n d"
    by (auto simp: adds_def)
  then show ?thesis unfolding adds_def by (intro exI [of _ "kf @ kg"]) (auto simp: comp_def)
qed

lemma run_Nil: "run [] = (\<lambda>w. w)"
  by (rule ext) (simp add: run_def)

lemma run_Cons: "run (f # fs) = (\<lambda>w. run fs (f w))"
  by (rule ext) (simp add: run_def)

lemma adds_run: "list_all2 (adds n) kss fs \<Longrightarrow> adds n (concat kss) (run fs)"
  by (induction rule: list_all2_induct) (simp_all add: run_Nil run_Cons adds_none adds_two)

lemma writes_obj [json_intros]:
  assumes "list_all (writes_members n) fs"
  shows "writes (Suc n) (obj fs)"
proof -
  have "writes_members n (run fs)"
    using assms by (induction fs) (auto simp: run_Nil run_Cons intro: adds_none adds_two)
  then obtain kvs where "run fs = fold (\<lambda>(k, d). emit_doc d \<circ> key k) kvs" "\<forall>(k, d) \<in> set kvs. good n d"
    by (auto simp: adds_def)
  then show ?thesis unfolding writes_def by (intro exI [of _ "DObj kvs"]) (auto simp: obj_def)
qed

lemma writes_arr [json_intros]:
  assumes "list_all (writes n) fs"
  shows "writes (Suc n) (arr fs)"
proof -
  have "\<exists>ds. run fs = fold emit_doc ds \<and> (\<forall>d \<in> set ds. good n d)"
    using assms
  proof (induction fs)
    case (Cons f fs)
    then obtain d ds where "f = emit_doc d" "good n d" "run fs = fold emit_doc ds" "\<forall>d \<in> set ds. good n d"
      by (auto simp: writes_def)
    then show ?case by (intro exI [of _ "d # ds"]) (auto simp: run_Cons comp_def)
  qed (auto simp: run_Nil intro!: exI [of _ "[]"])
  then obtain ds where "run fs = fold emit_doc ds" "\<forall>d \<in> set ds. good n d" by blast
  then show ?thesis unfolding writes_def by (intro exI [of _ "DArr ds"]) (auto simp: arr_def)
qed

lemma list_all_map [json_intros]: "(\<And>x. P (f x)) \<Longrightarrow> list_all P (map f xs)"
  by (simp add: list_all_iff)

lemma list_all_step [json_intros]: "P x \<Longrightarrow> list_all P xs \<Longrightarrow> list_all P (x # xs)" "list_all P []"
  by simp_all

lemma writes_pair [json_intros]: "(\<And>a b. writes n (f a b)) \<Longrightarrow> writes n (case p of (a, b) \<Rightarrow> f a b)"
  by (cases p) simp

lemma writes_pair_app [json_intros]: "(\<And>a b. writes n (f a b x)) \<Longrightarrow> writes n ((case p of (a, b) \<Rightarrow> f a b) x)"
  by (cases p) simp

lemma writes_members_if [json_intros]:
  "writes_members n f \<Longrightarrow> writes_members n (if b then f else (\<lambda>w. w))"
  using adds_none by auto

lemma writes_members_kv [json_intros]: "writes n f \<Longrightarrow> writes_members n (kv k f)"
  using adds_kv by blast

lemma writes_members_kvs [json_intros]:
  "writes_members (Suc n) (kv_str k s)" "writes_members (Suc n) (kv_int k i)"
  "writes_members (Suc n) (kv_u64 k w)" "writes_members (Suc n) (kv_double k x)"
  using adds_kvs by blast+

lemma writes_histJson [json_intros]: "writes_members (Suc (Suc (Suc n))) (histJson hs)"
  unfolding histJson_def by (intro json_intros)

lemma adds_mvrp: "adds (Suc (Suc (Suc (Suc (Suc n))))) [''vlans''] (mvrp_snapshot m)"
  unfolding mvrp_snapshot_def by (intro json_intros)

lemma adds_maap: "adds (Suc (Suc (Suc (Suc (Suc n))))) [''maap''] (maap_snapshot m)"
  unfolding maap_snapshot_def by (intro json_intros)

lemma adds_adp: "adds (Suc (Suc (Suc (Suc (Suc n))))) [''entities''] (adp_snapshot sh m)"
  unfolding adp_snapshot_def by (intro json_intros)

lemma adds_aecp: "adds (Suc (Suc (Suc (Suc (Suc n))))) [''aecp''] (aecp_snapshot m)"
  unfolding aecp_snapshot_def by (intro json_intros)

lemma adds_mrp: "adds (Suc (Suc (Suc (Suc (Suc n))))) [''mrp''] (snapshotMrp s)"
  unfolding snapshotMrp_def by (intro json_intros)

lemma writes_reservation [json_intros]: "writes (Suc (Suc (Suc (Suc n)))) (reservation_json sh p)"
  unfolding reservation_json_def by (intro json_intros)

lemma writes_conn [json_intros]: "writes (Suc (Suc (Suc (Suc n)))) (conn_json p)"
  unfolding conn_json_def by (intro json_intros)

lemma writes_sink [json_intros]: "writes (Suc (Suc (Suc (Suc n)))) (sink_json sh p)"
  unfolding sink_json_def by (intro json_intros)

lemma writes_talker [json_intros]: "writes (Suc (Suc (Suc (Suc n)))) (talker_json sh p)"
  unfolding talker_json_def by (intro json_intros)

lemma writes_domain [json_intros]: "writes (Suc (Suc (Suc (Suc n)))) (domain_json sh p)"
  unfolding domain_json_def by (intro json_intros)

lemma writes_port [json_intros]: "writes (Suc (Suc (Suc (Suc n)))) (port_json sh p)"
  unfolding port_json_def by (intro json_intros)

section \<open>The state document\<close>

text \<open>The top-level members, in the order of the modules.\<close>

definition state_keys :: "string list" where
  "state_keys = [''entities'', ''reservations'', ''domains'', ''vlans'', ''maap'', ''connections'',
     ''milan_sinks'', ''milan_talkers'', ''aecp'', ''gptp'', ''mrp'']"

lemma adds_msrp: "adds (Suc (Suc (Suc (Suc (Suc n))))) [''reservations'', ''domains''] (msrp_snapshot sh m)"
proof -
  have "list_all2 (adds (Suc (Suc (Suc (Suc (Suc n)))))) [[''reservations''], [''domains'']]
    [kv ''reservations'' (arr (map (reservation_json sh) (mRes m))),
     kv ''domains'' (arr (map (\<lambda>d. obj [
       kv_u64 ''class_id'' (sd_classId d), kv_u64 ''priority'' (sd_classPrio d),
       kv_u64 ''vid'' (sd_vid d), kv_str ''declarer'' (macStr (sd_declarer d))]) (mDomains m)))]"
    by (simp, intro conjI json_intros)
  from adds_run [OF this] show ?thesis by (simp add: msrp_snapshot_def)
qed

lemma adds_acmp: "adds (Suc (Suc (Suc (Suc (Suc n))))) [''connections'', ''milan_sinks'', ''milan_talkers''] (acmp_snapshot sh m)"
proof -
  have "list_all2 (adds (Suc (Suc (Suc (Suc (Suc n)))))) [[''connections''], [''milan_sinks''], [''milan_talkers'']]
    [kv ''connections'' (arr (map conn_json (mConns m))),
     kv ''milan_sinks'' (arr (map (sink_json sh) (mSinks m))),
     kv ''milan_talkers'' (arr (map (talker_json sh) (mTalkers m)))]"
    by (simp, intro conjI json_intros)
  from adds_run [OF this] show ?thesis by (simp add: acmp_snapshot_def)
qed

lemma adds_gptp: "adds (Suc (Suc (Suc (Suc (Suc (Suc n)))))) [''gptp''] (gptp_snapshot sh g)"
  unfolding gptp_snapshot_def by (intro json_intros)

text \<open>The keys a module publishes, by its kind.\<close>

fun lm_keys :: "logic_module \<Rightarrow> string list" where
  "lm_keys (AdpM m) = [''entities'']"
| "lm_keys (MsrpM m) = [''reservations'', ''domains'']"
| "lm_keys (MvrpM m) = [''vlans'']"
| "lm_keys (MaapM m) = [''maap'']"
| "lm_keys (AcmpM m) = [''connections'', ''milan_sinks'', ''milan_talkers'']"
| "lm_keys (AecpM m) = [''aecp'']"
| "lm_keys (GptpM g) = [''gptp'']"

lemma adds_module: "adds (Suc (Suc (Suc (Suc (Suc (Suc n)))))) (lm_keys m) (lm_snapshot sh m)"
  by (cases m) (simp_all add: adds_adp adds_msrp adds_mvrp adds_maap adds_acmp adds_aecp adds_gptp)

lemma kind_keys: "lm_kind m = lm_kind m' \<Longrightarrow> lm_keys m = lm_keys m'"
  by (cases m; cases m') simp_all

lemma shape_keys: "shape ms = shape ms' \<Longrightarrow> map (lm_keys \<circ> snd) ms = map (lm_keys \<circ> snd) ms'"
proof (induction ms arbitrary: ms')
  case (Cons p ms)
  obtain q qs where q: "ms' = q # qs" "lm_kind (snd p) = lm_kind (snd q)" "shape ms = shape qs"
    using Cons.prems by (cases ms') (simp_all add: shape_def case_prod_beta)
  show ?case using Cons.IH [OF q(3)] kind_keys [OF q(2)] unfolding q(1) by simp
qed (simp add: shape_def)

lemma adds_state: "adds 64 (concat (map (lm_keys \<circ> snd) (an_modules a)) @ [''mrp''])
  (run (map (\<lambda>(svc, m). lm_snapshot (Some (an_shared a)) m) (an_modules a) @ [snapshotMrp (an_shared a)]))"
proof -
  have "list_all2 (adds 64) (map (lm_keys \<circ> snd) ms @ [[''mrp'']])
      (map (\<lambda>(svc, m). lm_snapshot sh m) ms @ [snapshotMrp s])" for ms :: "(string \<times> logic_module) list" and sh s
    using adds_module [where n = 58] adds_mrp [where n = 59] by (induction ms) auto
  from adds_run [OF this] show ?thesis by simp
qed

lemma snapshot_doc:
  assumes "shape (an_modules a) = shape avb_modules"
  shows "\<exists>kvs. map fst kvs = state_keys \<and> (\<forall>(k, d) \<in> set kvs. good 64 d) \<and> snapshotJson a = emit_doc (DObj kvs)"
proof -
  have "map (lm_keys \<circ> snd) (an_modules a) = map (lm_keys \<circ> snd) avb_modules" by (rule shape_keys [OF assms])
  moreover have "concat (map (lm_keys \<circ> snd) avb_modules) @ [''mrp''] = state_keys"
    by (simp add: avb_modules_def state_keys_def)
  ultimately obtain kvs where "run (map (\<lambda>(svc, m). lm_snapshot (Some (an_shared a)) m) (an_modules a) @ [snapshotMrp (an_shared a)]) =
      fold (\<lambda>(k, d). emit_doc d \<circ> key k) kvs" "map fst kvs = state_keys" "\<forall>(k, d) \<in> set kvs. good 64 d"
    using adds_state [of a] unfolding adds_def by auto
  then show ?thesis by (intro exI [of _ kvs]) (auto simp: snapshotJson_def obj_def fun_eq_iff)
qed

lemma stateJson_parses:
  assumes "se_logic s = Some a" and "shape (an_modules a) = shape avb_modules"
    and "length (stateJson s) \<le> 1024 * 1024"
  shows "\<exists>kvs. parse (stateJson s) = Inr (Object kvs) \<and> map fst kvs = state_keys"
proof -
  obtain kvs where kvs: "map fst kvs = state_keys" "\<forall>(k, d) \<in> set kvs. good 64 d" "snapshotJson a = emit_doc (DObj kvs)"
    using snapshot_doc [OF assms(2)] by blast
  have eq: "stateJson s = mOut (emit_doc (DObj kvs) JsonWriter)"
    using kvs(3) assms(1) by (simp add: stateJson_def)
  have deep: "(65 :: nat) = Suc 64" by simp
  have "good 65 (DObj kvs)" using kvs(2) by (simp only: deep good.simps)
  then have "parse (stateJson s) = Inr (value_of (DObj kvs))"
    using writer_parses assms(3) unfolding eq by blast
  moreover have "map fst (map (\<lambda>(k, d). (k, value_of d)) kvs) = state_keys"
    using kvs(1) by (simp add: comp_def case_prod_beta)
  ultimately show ?thesis by simp
qed

end
