(* ===== verification/Flowguard.thy ===== *)
theory Flowguard
  imports Snapshot
begin

text \<open>
  \<open>backend/src/sec/flowguard.cpp\<close>: the rolling window of counters per actor, the alert
  rules, the penalty, the ring of alerts and the flow samples.  A call carries its reading of
  the steady clock (seconds, from zero) and of the wall clock (the formatted time stamp), and
  whether the security log opens.  The second part shows that the window counts exactly the
  actor's requests of the last twelve five-second slots, whatever the other actors do and
  however the actor table is pruned.
\<close>

section \<open>Counters\<close>

record counts =
  c_req :: u32
  e401 :: u32
  e403 :: u32
  e404 :: u32
  e429 :: u32
  bytesIn :: u64

definition Counts :: counts where
  "Counts = \<lparr>c_req = 0, e401 = 0, e403 = 0, e404 = 0, e429 = 0, bytesIn = 0\<rparr>"

definition cadd :: "counts \<Rightarrow> counts \<Rightarrow> counts" where
  "cadd s c = \<lparr>c_req = c_req s + c_req c, e401 = e401 s + e401 c, e403 = e403 s + e403 c,
     e404 = e404 s + e404 c, e429 = e429 s + e429 c, bytesIn = bytesIn s + bytesIn c\<rparr>"

abbreviation kBuckets :: nat where "kBuckets \<equiv> 12"

record actor =
  win :: "counts list"
  winStart :: int
  ewmaRpm :: double
  a_domain :: string
  a_role :: string
  lastSeen :: double
  penaltyUntil :: double
  lastAlert :: double
  lastAlertKind :: string

definition Actor :: actor where
  "Actor = \<lparr>win = replicate kBuckets Counts, winStart = -1, ewmaRpm = -1, a_domain = '''', a_role = '''',
     lastSeen = 0, penaltyUntil = 0, lastAlert = 0, lastAlertKind = ''''\<rparr>"

record alert =
  al_ts :: string
  al_actor :: string
  al_domain :: string
  al_kind :: string
  al_detail :: string
  al_path :: string

record sample =
  sm_ts :: string
  sm_actor :: string
  sm_domain :: string
  sm_method :: string
  sm_path :: string
  sm_status :: int
  sm_suspect :: bool

record guard =
  mActors :: "(string, actor) omap"
  mAlerts :: "alert list"
  mSamples :: "sample list"
  mSampleTick :: u64
  mTotalRecorded :: u64
  mTotalSuspect :: u64
  mLogPath :: string
  log_file :: "string list"

definition FlowGuard :: "string \<Rightarrow> guard" where
  "FlowGuard logPath = \<lparr>mActors = [], mAlerts = [], mSamples = [], mSampleTick = 0, mTotalRecorded = 0,
     mTotalSuspect = 0, mLogPath = logPath, log_file = []\<rparr>"

record request =
  rq_now :: double
  rq_iso :: string
  rq_log_opens :: bool
  rq_actor :: string
  rq_domain :: string
  rq_role :: string
  rq_method :: string
  rq_path :: string
  rq_status :: int
  rq_bytes :: u64

definition bucketOf :: "double \<Rightarrow> int" where
  "bucketOf t = \<lfloor>t\<rfloor> div 5"

definition sum_counts :: "actor \<Rightarrow> counts" where
  "sum_counts a = foldl cadd Counts (win a)"

definition req_rate :: "actor \<Rightarrow> double" where
  "req_rate a = real (unat (c_req (sum_counts a)))"

definition rotate_win :: "int \<Rightarrow> actor \<Rightarrow> actor" where
  "rotate_win bucket a =
     (if winStart a < 0 then a\<lparr>winStart := bucket\<rparr>
      else let shift = bucket - winStart a; rpm = req_rate a in
        if shift \<le> 0 then a
        else if shift \<ge> int kBuckets then
          a\<lparr>ewmaRpm := (if ewmaRpm a < 0 then rpm else 7 / 10 * ewmaRpm a + 3 / 10 * rpm * (2 / 10)),
            win := replicate kBuckets Counts, winStart := bucket\<rparr>
        else
          a\<lparr>ewmaRpm := (if ewmaRpm a < 0 then rpm else 8 / 10 * ewmaRpm a + 2 / 10 * rpm),
            win := drop (nat shift) (win a) @ replicate (nat shift) Counts, winStart := bucket\<rparr>)"

section \<open>Alerts\<close>

definition alert_json :: "alert \<Rightarrow> writer \<Rightarrow> writer" where
  "alert_json al = obj [kv_str ''ts'' (al_ts al), kv_str ''actor'' (al_actor al), kv_str ''domain'' (al_domain al),
     kv_str ''kind'' (al_kind al), kv_str ''detail'' (al_detail al), kv_str ''path'' (al_path al)]"

definition raise_alert :: "request \<Rightarrow> string \<Rightarrow> string \<Rightarrow> actor \<times> guard \<Rightarrow> actor \<times> guard" where
  "raise_alert r kd detail = (\<lambda>(a, g).
     if lastAlertKind a = kd \<and> rq_now r - lastAlert a < 120 then (a, g)
     else let al = \<lparr>al_ts = rq_iso r, al_actor = rq_actor r, al_domain = a_domain a, al_kind = kd,
                    al_detail = detail, al_path = rq_path r\<rparr>
          in (a\<lparr>lastAlert := rq_now r, lastAlertKind := kd, penaltyUntil := rq_now r + 300\<rparr>,
              g\<lparr>mAlerts := push_cap 256 al (mAlerts g),
                log_file := (if mLogPath g \<noteq> [] \<and> rq_log_opens r
                             then log_file g @ [mOut (alert_json al JsonWriter)] else log_file g)\<rparr>))"

fun has_dotdot :: "string \<Rightarrow> bool" where
  "has_dotdot (c # d # s) \<longleftrightarrow> (c = CHR ''.'' \<and> d = CHR ''.'') \<or> has_dotdot (d # s)"
| "has_dotdot _ \<longleftrightarrow> False"

text \<open>The rules in their order: whether one fires, its kind, its detail.\<close>

definition alert_rules :: "request \<Rightarrow> double \<Rightarrow> counts \<Rightarrow> (bool \<times> string \<times> string) list" where
  "alert_rules r ewma s =
     [(has_dotdot (rq_path r), ''path-traversal'', cat [''request path contains a '', [CHR 0x27], ''..'', [CHR 0x27], '' component'']),
      (e401 s \<ge> 8, ''auth-bruteforce'', cat [u_str (e401 s), '' authentication failures in 60 s'']),
      (e403 s + e404 s \<ge> 15, ''probe'',
         cat [u_str (e403 s + e404 s), '' denied/unknown responses in 60 s (endpoint or object scanning)'']),
      (e429 s \<ge> 20, ''limit-hammering'', cat [''keeps sending while rate-limited ('', u_str (e429 s), '' x 429 in 60 s)'']),
      (ewma \<ge> 1 \<and> real (unat (c_req s)) > 8 * ewma \<and> c_req s \<ge> 240, ''rate-anomaly'',
         cat [u_str (c_req s), '' req/min vs baseline '', int_str \<lfloor>ewma\<rfloor>, '' req/min'']),
      (rq_role r \<noteq> ''admin'' \<and> bytesIn s > 512 * 1024 * 1024, ''upload-flood'',
         cat [u_str (bytesIn s div (1024 * 1024)), '' MiB uploaded in 60 s''])]"

definition apply_rule :: "request \<Rightarrow> bool \<times> string \<times> string \<Rightarrow> actor \<times> guard \<Rightarrow> actor \<times> guard" where
  "apply_rule r = (\<lambda>(fires, kd, detail) ag. if fires then raise_alert r kd detail ag else ag)"

section \<open>One request\<close>

text \<open>\<open>win[kBuckets - 1]\<close> counts the request.\<close>

definition hit_counts :: "int \<Rightarrow> u64 \<Rightarrow> counts" where
  "hit_counts status bytes = \<lparr>c_req = 1, e401 = of_bool (status = 401), e403 = of_bool (status = 403),
     e404 = of_bool (status = 404), e429 = of_bool (status = 429), bytesIn = bytes\<rparr>"

definition count_hit :: "int \<Rightarrow> u64 \<Rightarrow> actor \<Rightarrow> actor" where
  "count_hit status bytes a =
     a\<lparr>win := (win a)[kBuckets - 1 := cadd (win a ! (kBuckets - 1)) (hit_counts status bytes)]\<rparr>"

definition prune_actors :: "double \<Rightarrow> guard \<Rightarrow> guard" where
  "prune_actors now g = (if length (mActors g) > 4096
     then g\<lparr>mActors := filter (\<lambda>(k, a). \<not> now - lastSeen a > 600) (mActors g)\<rparr> else g)"

definition see_actor :: "request \<Rightarrow> guard \<Rightarrow> actor" where
  "see_actor r g = count_hit (rq_status r) (rq_bytes r) (rotate_win (bucketOf (rq_now r))
     ((om_at Actor (mActors g) (rq_actor r))\<lparr>a_domain := rq_domain r, a_role := rq_role r, lastSeen := rq_now r\<rparr>))"

definition sample_flow :: "request \<Rightarrow> bool \<Rightarrow> guard \<Rightarrow> guard" where
  "sample_flow r suspect g =
     (let sm = \<lparr>sm_ts = rq_iso r, sm_actor = rq_actor r, sm_domain = rq_domain r, sm_method = rq_method r,
                sm_path = rq_path r, sm_status = rq_status r, sm_suspect = suspect\<rparr>
      in if suspect then g\<lparr>mSamples := push_cap 200 sm (mSamples g)\<rparr>
         else if mSampleTick g mod 16 = 0
           then g\<lparr>mSamples := push_cap 200 sm (mSamples g), mSampleTick := mSampleTick g + 1\<rparr>
           else g\<lparr>mSampleTick := mSampleTick g + 1\<rparr>)"

definition fg_record :: "request \<Rightarrow> guard \<Rightarrow> guard" where
  "fg_record r g0 =
     (let g1 = prune_actors (rq_now r) (g0\<lparr>mTotalRecorded := mTotalRecorded g0 + 1\<rparr>);
          a = see_actor r g1; s = sum_counts a;
          rules = alert_rules r (ewmaRpm a) s;
          (a2, g2) = fold (apply_rule r) rules (a, g1);
          suspect = (list_ex fst rules \<or> penaltyUntil a2 > rq_now r);
          g3 = g2\<lparr>mActors := om_set (rq_actor r) a2 (mActors g2),
                  mTotalSuspect := (if suspect then mTotalSuspect g2 + 1 else mTotalSuspect g2)\<rparr>
      in sample_flow r suspect g3)"

definition penalty :: "double \<Rightarrow> string \<Rightarrow> guard \<Rightarrow> double" where
  "penalty now actor g =
     (case om_get (mActors g) actor of None \<Rightarrow> 1 | Some a \<Rightarrow> if penaltyUntil a > now then 4 else 1)"

definition guard_snapshot :: "double \<Rightarrow> guard \<Rightarrow> writer \<Rightarrow> writer" where
  "guard_snapshot now g = obj [
     kv_u64 ''recorded'' (mTotalRecorded g),
     kv_u64 ''suspect'' (mTotalSuspect g),
     kv ''alerts'' (arr (map alert_json (rev (mAlerts g)))),
     kv ''samples'' (arr (map (\<lambda>s. obj [
       kv_str ''ts'' (sm_ts s), kv_str ''actor'' (sm_actor s), kv_str ''domain'' (sm_domain s),
       kv_str ''method'' (sm_method s), kv_str ''path'' (sm_path s),
       kv_u64 ''status'' (of_int (sm_status s) :: u64),
       kv_str ''verdict'' (if sm_suspect s then ''suspect'' else ''legit'')]) (take 100 (rev (mSamples g))))),
     kv ''actors'' (arr (map (\<lambda>(k, a). obj [
       kv_str ''actor'' k, kv_str ''domain'' (a_domain a), kv_str ''role'' (a_role a),
       kv_u64 ''req_per_min'' (c_req (sum_counts a)),
       kv_double ''baseline_rpm'' (if ewmaRpm a < 0 then 0 else ewmaRpm a),
       kv_double ''penalty'' (if penaltyUntil a > now then 4 else 1),
       kv_double ''idle_s'' (now - lastSeen a)])
       (filter (\<lambda>(k, a). \<not> now - lastSeen a > 300) (mActors g))))]"

section \<open>What the window should hold\<close>

text \<open>The counts of a list of requests, and of those of one five-second slot.\<close>

definition hit_of :: "request \<Rightarrow> counts" where
  "hit_of r = hit_counts (rq_status r) (rq_bytes r)"

definition tally :: "request list \<Rightarrow> counts" where
  "tally rs = foldr (\<lambda>r c. cadd (hit_of r) c) rs Counts"

definition slot :: "int \<Rightarrow> request list \<Rightarrow> request list" where
  "slot j rs = filter (\<lambda>r. bucketOf (rq_now r) = j) rs"

definition win_of :: "request list \<Rightarrow> int \<Rightarrow> counts list" where
  "win_of rs b = map (\<lambda>i. tally (slot (b - 11 + int i) rs)) [0..<kBuckets]"

text \<open>The requests of the last twelve slots up to \<open>b\<close>.\<close>

definition recent :: "int \<Rightarrow> request list \<Rightarrow> request list" where
  "recent b rs = filter (\<lambda>r. b - 12 < bucketOf (rq_now r) \<and> bucketOf (rq_now r) \<le> b) rs"

lemma cadd_assoc: "cadd (cadd x y) z = cadd x (cadd y z)"
  by (simp add: cadd_def add.assoc)

lemma cadd_commute: "cadd x y = cadd y x"
  by (simp add: cadd_def add.commute)

lemma cadd_left_commute: "cadd x (cadd y z) = cadd y (cadd x z)"
  by (metis cadd_assoc cadd_commute)

lemma cadd_zero [simp]: "cadd Counts x = x" "cadd x Counts = x"
  by (simp_all add: cadd_def Counts_def)

lemmas cadd_ac = cadd_assoc cadd_commute cadd_left_commute

lemma tally_simps [simp]: "tally [] = Counts" "tally (r # rs) = cadd (hit_of r) (tally rs)"
  by (simp_all add: tally_def)

lemma tally_append [simp]: "tally (xs @ ys) = cadd (tally xs) (tally ys)"
  by (induction xs) (simp_all add: cadd_assoc)

lemma slot_simps [simp]: "slot j [] = []" "slot j (xs @ ys) = slot j xs @ slot j ys"
  by (simp_all add: slot_def)

lemma tally_split:
  assumes "\<And>r. r \<in> set rs \<Longrightarrow> \<not> (P r \<and> Q r)"
  shows "tally (filter (\<lambda>r. P r \<or> Q r) rs) = cadd (tally (filter P rs)) (tally (filter Q rs))"
  using assms
proof (induction rs)
  case (Cons r rs)
  have "\<not> (P r \<and> Q r)" using Cons.prems by simp
  with Cons show ?case by (auto simp: cadd_ac)
qed simp

lemma foldl_cadd: "foldl cadd s cs = cadd s (foldl cadd Counts cs)"
proof (induction cs arbitrary: s)
  case (Cons c cs)
  show ?case using Cons.IH [of "cadd s c"] Cons.IH [of "cadd Counts c"] by (simp add: cadd_assoc)
qed simp

lemma sum_slots:
  "foldl cadd Counts (map (\<lambda>i. tally (slot (b + int i) rs)) [0..<n]) =
   tally (filter (\<lambda>r. b \<le> bucketOf (rq_now r) \<and> bucketOf (rq_now r) < b + int n) rs)"
proof (induction n)
  case 0
  have "filter (\<lambda>r. b \<le> bucketOf (rq_now r) \<and> bucketOf (rq_now r) < b + int 0) rs = []"
    by (auto simp: filter_empty_conv)
  then show ?case by simp
next
  case (Suc n)
  have eq: "(\<lambda>r. b \<le> bucketOf (rq_now r) \<and> bucketOf (rq_now r) < b + int (Suc n)) =
      (\<lambda>r. (b \<le> bucketOf (rq_now r) \<and> bucketOf (rq_now r) < b + int n) \<or> bucketOf (rq_now r) = b + int n)"
    by (auto simp: fun_eq_iff)
  have "tally (filter (\<lambda>r. b \<le> bucketOf (rq_now r) \<and> bucketOf (rq_now r) < b + int (Suc n)) rs) =
      cadd (tally (filter (\<lambda>r. b \<le> bucketOf (rq_now r) \<and> bucketOf (rq_now r) < b + int n) rs)) (tally (slot (b + int n) rs))"
    unfolding eq slot_def by (rule tally_split) auto
  then show ?case using Suc by simp
qed

lemma sum_win: "win a = win_of rs b \<Longrightarrow> sum_counts a = tally (recent b rs)"
proof -
  assume w: "win a = win_of rs b"
  have "recent b rs = filter (\<lambda>r. b - 11 \<le> bucketOf (rq_now r) \<and> bucketOf (rq_now r) < b - 11 + int kBuckets) rs"
    unfolding recent_def by (rule filter_cong) auto
  then show ?thesis
    unfolding sum_counts_def w win_of_def sum_slots [of "b - 11" rs kBuckets] by simp
qed

lemma length_win_of [simp]: "length (win_of rs b) = kBuckets"
  by (simp add: win_of_def)

lemma bucketOf_mono: "t \<le> u \<Longrightarrow> bucketOf t \<le> bucketOf u"
  by (simp add: bucketOf_def floor_mono zdiv_mono1)

lemma bucketOf_nonneg: "0 \<le> t \<Longrightarrow> 0 \<le> bucketOf t"
  by (simp add: bucketOf_def pos_imp_zdiv_nonneg_iff)

lemma slot_late: "\<forall>r \<in> set rs. bucketOf (rq_now r) < j \<Longrightarrow> slot j rs = []"
  by (auto simp: slot_def filter_empty_conv)

lemma win_of_idle: "\<forall>r \<in> set rs. bucketOf (rq_now r) \<le> b - 12 \<Longrightarrow> win_of rs b = replicate kBuckets Counts"
proof -
  assume a: "\<forall>r \<in> set rs. bucketOf (rq_now r) \<le> b - 12"
  have "slot (b - 11 + int i) rs = []" for i
    by (rule slot_late) (use a in force)
  then have "win_of rs b = map (\<lambda>i. Counts) [0..<kBuckets]" unfolding win_of_def by simp
  then show ?thesis by (simp add: map_replicate_const)
qed

lemma win_of_slide:
  assumes "\<forall>r \<in> set rs. bucketOf (rq_now r) \<le> b" and "0 < k" and "k < kBuckets"
  shows "drop k (win_of rs b) @ replicate k Counts = win_of rs (b + int k)"
proof (rule nth_equalityI)
  fix i assume "i < length (drop k (win_of rs b) @ replicate k Counts)"
  then have i: "i < kBuckets" using assms(3) by simp
  show "(drop k (win_of rs b) @ replicate k Counts) ! i = win_of rs (b + int k) ! i"
  proof (cases "i < kBuckets - k")
    case True
    then show ?thesis using i assms(3) by (simp add: win_of_def nth_append algebra_simps)
  next
    case False
    have "slot (b + int k - 11 + int i) rs = []"
      by (rule slot_late) (use assms(1) False in force)
    with False i assms(3) show ?thesis by (simp add: win_of_def nth_append)
  qed
qed (use assms in simp)

text \<open>Rotation moves the window to the slot of the call.\<close>

lemma rotate_win_of:
  assumes "win a = win_of rs (winStart a)" and "0 \<le> winStart a" and "winStart a \<le> b"
    and "\<forall>r \<in> set rs. bucketOf (rq_now r) \<le> winStart a"
  shows "win (rotate_win b a) = win_of rs b" "winStart (rotate_win b a) = b"
proof -
  consider (same) "b = winStart a" | (slide) "winStart a < b" "b - winStart a < 12" | (idle) "12 \<le> b - winStart a"
    using assms(3) by linarith
  then have "win (rotate_win b a) = win_of rs b \<and> winStart (rotate_win b a) = b"
  proof cases
    case same
    then show ?thesis using assms by (simp add: rotate_win_def)
  next
    case slide
    have "drop (nat (b - winStart a)) (win_of rs (winStart a)) @ replicate (nat (b - winStart a)) Counts =
        win_of rs (winStart a + int (nat (b - winStart a)))"
      by (rule win_of_slide [OF assms(4)]) (use slide in auto)
    then show ?thesis using slide assms(1,2) by (simp add: rotate_win_def Let_def)
  next
    case idle
    have "win_of rs b = replicate kBuckets Counts"
      by (rule win_of_idle) (use assms(4) idle in force)
    then show ?thesis using idle assms(2) by (simp add: rotate_win_def Let_def)
  qed
  then show "win (rotate_win b a) = win_of rs b" "winStart (rotate_win b a) = b" by simp_all
qed

section \<open>The window is exact\<close>

text \<open>The actor's requests so far.\<close>

definition of_actor :: "string \<Rightarrow> request list \<Rightarrow> request list" where
  "of_actor k rs = filter (\<lambda>r. rq_actor r = k) rs"

text \<open>A known actor's window is that of its requests; an unknown one made none in ten minutes.\<close>

definition tracks :: "request list \<Rightarrow> double \<Rightarrow> actor \<Rightarrow> bool" where
  "tracks rs now a \<longleftrightarrow> 0 \<le> lastSeen a \<and> lastSeen a \<le> now \<and> winStart a = bucketOf (lastSeen a) \<and>
     win a = win_of rs (winStart a) \<and> (\<forall>r \<in> set rs. rq_now r \<le> lastSeen a)"

definition exact :: "double \<Rightarrow> request list \<Rightarrow> guard \<Rightarrow> bool" where
  "exact now rs g \<longleftrightarrow> om_ok (mActors g) \<and>
     (\<forall>k. case om_get (mActors g) k of
        Some a \<Rightarrow> tracks (of_actor k rs) now a
      | None \<Rightarrow> (\<forall>r \<in> set (of_actor k rs). rq_now r + 600 < now))"

lemma of_actor_append [simp]: "of_actor k (rs @ [r]) = (if rq_actor r = k then of_actor k rs @ [r] else of_actor k rs)"
  by (simp add: of_actor_def)

lemma exact_later: "exact t rs g \<Longrightarrow> t \<le> now \<Longrightarrow> exact now rs g"
  unfolding exact_def tracks_def by (force split: option.splits)

lemma exact_prune:
  assumes "exact now rs g"
  shows "exact now rs (prune_actors now g)"
proof (cases "length (mActors g) > 4096")
  case True
  let ?m = "filter (\<lambda>(k, a). \<not> now - lastSeen a > 600) (mActors g)"
  have ok: "om_ok (mActors g)" using assms by (simp add: exact_def)
  have get: "om_get ?m k = (case om_get (mActors g) k of None \<Rightarrow> None
      | Some a \<Rightarrow> if now - lastSeen a > 600 then None else Some a)" for k
  proof -
    have iff: "om_get ?m k = Some a \<longleftrightarrow> om_get (mActors g) k = Some a \<and> \<not> now - lastSeen a > 600" for a
      using om_get_iff_in [OF ok, of k a] om_get_iff_in [of ?m k a] ok by auto
    have same: "x = y" if "\<And>a. x = Some a \<longleftrightarrow> y = Some a" for x y :: "actor option"
      using that by (metis not_None_eq)
    show ?thesis by (rule same, unfold iff, cases "om_get (mActors g) k") auto
  qed
  have "case om_get ?m k of Some a \<Rightarrow> tracks (of_actor k rs) now a
      | None \<Rightarrow> (\<forall>r \<in> set (of_actor k rs). rq_now r + 600 < now)" for k
  proof (cases "om_get (mActors g) k")
    case None
    moreover from this have "\<forall>r \<in> set (of_actor k rs). rq_now r + 600 < now"
      using assms by (auto simp: exact_def dest: spec [of _ k])
    ultimately show ?thesis by (simp add: get)
  next
    case (Some a)
    then have t: "tracks (of_actor k rs) now a" using assms by (auto simp: exact_def dest: spec [of _ k])
    then have "rq_now r \<le> lastSeen a" if "r \<in> set (of_actor k rs)" for r using that by (simp add: tracks_def)
    with t Some show ?thesis by (force simp: get)
  qed
  with True ok show ?thesis by (simp add: prune_actors_def exact_def)
qed (use assms in \<open>simp add: prune_actors_def\<close>)

lemma count_hit_win:
  assumes "win a = win_of rs b" and "bucketOf (rq_now r) = b"
  shows "win (count_hit (rq_status r) (rq_bytes r) a) = win_of (rs @ [r]) b"
proof (rule nth_equalityI)
  fix i assume "i < length (win (count_hit (rq_status r) (rq_bytes r) a))"
  then have i: "i < kBuckets" using assms(1) by (simp add: count_hit_def)
  have "slot (b - 11 + int i) [r] = (if i = 11 then [r] else [])"
    using assms(2) by (auto simp: slot_def)
  then show "win (count_hit (rq_status r) (rq_bytes r) a) ! i = win_of (rs @ [r]) b ! i"
    using i assms(1) by (simp add: count_hit_def win_of_def nth_list_update hit_of_def)
qed (simp add: count_hit_def assms(1))

lemma see_actor_tracks:
  assumes "exact (rq_now r) rs g" and "0 \<le> rq_now r"
  shows "tracks (of_actor (rq_actor r) (rs @ [r])) (rq_now r) (see_actor r g)"
proof -
  let ?k = "rq_actor r" and ?b = "bucketOf (rq_now r)"
  let ?a = "(om_at Actor (mActors g) ?k)\<lparr>a_domain := rq_domain r, a_role := rq_role r, lastSeen := rq_now r\<rparr>"
  let ?rs = "of_actor ?k rs"
  have hit: "lastSeen (count_hit x y a) = lastSeen a" "winStart (count_hit x y a) = winStart a"
    "lastSeen (rotate_win b a) = lastSeen a" for x y a b
    by (simp_all add: count_hit_def rotate_win_def Let_def)
  have "win (rotate_win ?b ?a) = win_of ?rs ?b \<and> winStart (rotate_win ?b ?a) = ?b \<and> (\<forall>x \<in> set ?rs. rq_now x \<le> rq_now r)"
  proof (cases "om_get (mActors g) ?k")
    case None
    then have old: "\<forall>x \<in> set ?rs. rq_now x + 600 < rq_now r" using assms(1) by (auto simp: exact_def dest: spec [of _ ?k])
    have "bucketOf (rq_now x) \<le> ?b - 12" if "x \<in> set ?rs" for x
    proof -
      have "rq_now x \<le> rq_now r - 60" using old that by force
      then have "bucketOf (rq_now x) \<le> bucketOf (rq_now r - 60)" by (rule bucketOf_mono)
      moreover have "\<lfloor>rq_now r - 60\<rfloor> = \<lfloor>rq_now r\<rfloor> - 60" by linarith
      then have "bucketOf (rq_now r - 60) = ?b - 12" unfolding bucketOf_def by simp
      ultimately show ?thesis by simp
    qed
    then have "win_of ?rs ?b = replicate kBuckets Counts" by (intro win_of_idle) auto
    moreover have "rotate_win ?b ?a = ?a\<lparr>winStart := ?b\<rparr>"
      using None by (simp add: rotate_win_def om_at_def Actor_def)
    ultimately show ?thesis using None old by (force simp: om_at_def Actor_def)
  next
    case (Some a)
    then have t: "tracks ?rs (rq_now r) a" using assms(1) by (auto simp: exact_def dest: spec [of _ ?k])
    have "winStart ?a = winStart a" "win ?a = win a" using Some by (simp_all add: om_at_def)
    moreover have "winStart a \<le> ?b" "0 \<le> winStart a" using t by (auto simp: tracks_def bucketOf_mono bucketOf_nonneg)
    moreover have "\<forall>x \<in> set ?rs. bucketOf (rq_now x) \<le> winStart a" using t by (auto simp: tracks_def bucketOf_mono)
    ultimately have "win (rotate_win ?b ?a) = win_of ?rs ?b" "winStart (rotate_win ?b ?a) = ?b"
      using t rotate_win_of [of ?a ?rs ?b] by (simp_all add: tracks_def)
    moreover have "\<forall>x \<in> set ?rs. rq_now x \<le> rq_now r" using t by (auto simp: tracks_def)
    ultimately show ?thesis by blast
  qed
  then show ?thesis
    using assms(2) count_hit_win [of "rotate_win ?b ?a" ?rs ?b r]
    by (auto simp: tracks_def see_actor_def hit)
qed

text \<open>Alerts leave the window and the table alone.\<close>

lemma raise_sel:
  "win (fst (raise_alert r kd d ag)) = win (fst ag)" "winStart (fst (raise_alert r kd d ag)) = winStart (fst ag)"
  "lastSeen (fst (raise_alert r kd d ag)) = lastSeen (fst ag)" "mActors (snd (raise_alert r kd d ag)) = mActors (snd ag)"
  by (simp_all add: raise_alert_def case_prod_beta Let_def)

lemma rules_sel:
  "win (fst (fold (apply_rule r) rules ag)) = win (fst ag) \<and> winStart (fst (fold (apply_rule r) rules ag)) = winStart (fst ag) \<and>
   lastSeen (fst (fold (apply_rule r) rules ag)) = lastSeen (fst ag) \<and>
   mActors (snd (fold (apply_rule r) rules ag)) = mActors (snd ag)"
  by (induction rules arbitrary: ag) (simp_all add: apply_rule_def case_prod_beta raise_sel)

lemma sample_sel [simp]: "mActors (sample_flow r b g) = mActors g"
  by (simp add: sample_flow_def Let_def)

text \<open>The actor's entry after a request.\<close>

definition judged :: "request \<Rightarrow> guard \<Rightarrow> actor" where
  "judged r g = (let a = see_actor r g in fst (fold (apply_rule r) (alert_rules r (ewmaRpm a) (sum_counts a)) (a, g)))"

lemma record_actors:
  "mActors (fg_record r g) =
     (let g1 = prune_actors (rq_now r) (g\<lparr>mTotalRecorded := mTotalRecorded g + 1\<rparr>)
      in om_set (rq_actor r) (judged r g1) (mActors g1))"
  using rules_sel by (simp add: fg_record_def judged_def Let_def case_prod_beta)

lemma exact_upd [simp]: "exact t rs (g\<lparr>mTotalRecorded := n\<rparr>) = exact t rs g"
  by (simp add: exact_def)

lemma exact_record:
  assumes "exact t rs g" and "t \<le> rq_now r" and "0 \<le> rq_now r"
  shows "exact (rq_now r) (rs @ [r]) (fg_record r g)"
proof -
  let ?g1 = "prune_actors (rq_now r) (g\<lparr>mTotalRecorded := mTotalRecorded g + 1\<rparr>)"
  have e: "exact (rq_now r) rs ?g1"
    using exact_later [OF assms(1,2)] by (intro exact_prune) simp
  have "tracks (of_actor (rq_actor r) (rs @ [r])) (rq_now r) (judged r ?g1)"
    using see_actor_tracks [OF e assms(3)] rules_sel by (simp add: tracks_def judged_def Let_def)
  note mine = this
  have "case om_get (mActors (fg_record r g)) k of
      Some a \<Rightarrow> tracks (of_actor k (rs @ [r])) (rq_now r) a
    | None \<Rightarrow> (\<forall>x \<in> set (of_actor k (rs @ [r])). rq_now x + 600 < rq_now r)" for k
  proof (cases "k = rq_actor r")
    case True
    with mine show ?thesis by (simp add: record_actors Let_def om_get_set)
  next
    case False
    then have same: "of_actor k (rs @ [r]) = of_actor k rs" by simp
    show ?thesis unfolding same using e False by (simp add: record_actors Let_def om_get_set exact_def)
  qed
  moreover have "om_ok (mActors (fg_record r g))" using e by (simp add: record_actors Let_def exact_def om_ok_set)
  ultimately show ?thesis by (simp add: exact_def)
qed

lemma exact_fold:
  assumes "sorted (map rq_now rs)" and "\<forall>r \<in> set rs. 0 \<le> rq_now r"
  shows "exact (if rs = [] then 0 else rq_now (last rs)) rs (fold fg_record rs (FlowGuard p))"
  using assms
proof (induction rs rule: rev_induct)
  case Nil
  then show ?case by (simp add: exact_def FlowGuard_def of_actor_def)
next
  case (snoc r rs)
  have "(if rs = [] then 0 else rq_now (last rs)) \<le> rq_now r"
    using snoc.prems by (auto simp: sorted_append)
  moreover have "exact (if rs = [] then 0 else rq_now (last rs)) rs (fold fg_record rs (FlowGuard p))"
    using snoc by (simp add: sorted_append)
  ultimately show ?case using exact_record snoc.prems(2) by simp
qed

lemma window_exact:
  assumes "sorted (map rq_now rs)" and "\<forall>r \<in> set rs. 0 \<le> rq_now r"
    and "om_get (mActors (fold fg_record rs (FlowGuard p))) k = Some a"
  shows "sum_counts a = tally (recent (winStart a) (of_actor k rs)) \<and> winStart a = bucketOf (lastSeen a)"
  using exact_fold [OF assms(1,2), of p] assms(3) sum_win
  by (auto simp: exact_def tracks_def dest!: spec [of _ k])

section \<open>Who is penalised\<close>

text \<open>An alert starts five minutes of penalty, and the two are kept together.\<close>

definition pen_ok :: "actor \<Rightarrow> bool" where
  "pen_ok a \<longleftrightarrow> lastAlertKind a = '''' \<or> penaltyUntil a = lastAlert a + 300"

lemma raise_pen:
  assumes "pen_ok (fst ag)" and "kd \<noteq> ''''"
  shows "pen_ok (fst (raise_alert r kd d ag)) \<and> rq_now r < penaltyUntil (fst (raise_alert r kd d ag))"
  using assms by (auto simp: raise_alert_def pen_ok_def case_prod_beta Let_def)

lemma rules_pen:
  assumes "pen_ok (fst ag)" and "\<forall>(b, kd, d) \<in> set rules. kd \<noteq> ''''"
  shows "pen_ok (fst (fold (apply_rule r) rules ag)) \<and>
    (list_ex fst rules \<or> rq_now r < penaltyUntil (fst ag) \<longrightarrow> rq_now r < penaltyUntil (fst (fold (apply_rule r) rules ag)))"
  using assms
proof (induction rules arbitrary: ag)
  case (Cons x rules)
  obtain b kd d where x: "x = (b, kd, d)" by (metis prod_cases3)
  show ?case
    using Cons.IH [of "apply_rule r x ag"] Cons.prems raise_pen [of ag kd r d] by (auto simp: x apply_rule_def)
qed simp

lemma rule_kinds: "\<forall>(b, kd, d) \<in> set (alert_rules r e s). kd \<noteq> ''''"
  by (simp add: alert_rules_def)

lemma see_actor_pen: "om_all (\<lambda>_. pen_ok) (mActors g) \<Longrightarrow> pen_ok (see_actor r g)"
proof -
  assume a: "om_all (\<lambda>_. pen_ok) (mActors g)"
  have "pen_ok Actor" by (simp add: pen_ok_def Actor_def)
  then have "pen_ok (om_at Actor (mActors g) (rq_actor r))" using om_all_at [OF a] by blast
  then show ?thesis by (simp add: see_actor_def count_hit_def rotate_win_def pen_ok_def Let_def)
qed

lemma pruned_pen: "om_all (\<lambda>_. pen_ok) (mActors g) \<Longrightarrow> om_all (\<lambda>_. pen_ok) (mActors (prune_actors now g))"
  by (auto simp: prune_actors_def om_all_def)

lemma pen_fold: "om_all (\<lambda>_. pen_ok) (mActors (fold fg_record rs (FlowGuard p)))"
proof (induction rs rule: rev_induct)
  case (snoc r rs)
  let ?g = "fold fg_record rs (FlowGuard p)"
  let ?g1 = "prune_actors (rq_now r) (?g\<lparr>mTotalRecorded := mTotalRecorded ?g + 1\<rparr>)"
  have g1: "om_all (\<lambda>_. pen_ok) (mActors ?g1)" using snoc by (intro pruned_pen) simp
  then have "pen_ok (judged r ?g1)"
    using rules_pen [OF _ rule_kinds] see_actor_pen by (simp add: judged_def Let_def)
  with g1 show ?case by (simp add: record_actors Let_def om_all_set)
qed (simp add: FlowGuard_def)

text \<open>Eight failed logins in the window leave the actor penalised.\<close>

lemma tally_401: "e401 (tally rs) = of_nat (length (filter (\<lambda>r. rq_status r = 401) rs))"
  by (induction rs) (auto simp: Counts_def cadd_def hit_of_def hit_counts_def)

lemma many_401_penalised:
  assumes "sorted (map rq_now (rs @ [r]))" and "\<forall>x \<in> set (rs @ [r]). 0 \<le> rq_now x"
    and "n = length (filter (\<lambda>x. rq_status x = 401) (recent (bucketOf (rq_now r)) (of_actor (rq_actor r) (rs @ [r]))))"
    and "8 \<le> n" and "n < 2 ^ 32"
  shows "penalty (rq_now r) (rq_actor r) (fold fg_record (rs @ [r]) (FlowGuard p)) = 4"
proof -
  let ?g = "fold fg_record rs (FlowGuard p)"
  let ?g1 = "prune_actors (rq_now r) (?g\<lparr>mTotalRecorded := mTotalRecorded ?g + 1\<rparr>)"
  let ?a = "see_actor r ?g1"
  have "exact (rq_now r) rs ?g"
    using exact_later [OF exact_fold [of rs p]] assms(1,2) by (auto simp: sorted_append)
  then have "tracks (of_actor (rq_actor r) (rs @ [r])) (rq_now r) ?a"
    using assms(2) by (intro see_actor_tracks exact_prune) simp_all
  moreover have "lastSeen ?a = rq_now r" by (simp add: see_actor_def count_hit_def rotate_win_def Let_def)
  ultimately have "sum_counts ?a = tally (recent (bucketOf (rq_now r)) (of_actor (rq_actor r) (rs @ [r])))"
    by (intro sum_win) (simp add: tracks_def)
  then have "e401 (sum_counts ?a) = of_nat n" by (simp add: assms(3) tally_401)
  then have "8 \<le> e401 (sum_counts ?a)" using assms(4,5) by (simp add: word_le_nat_alt unat_of_nat)
  then have "list_ex fst (alert_rules r (ewmaRpm ?a) (sum_counts ?a))" by (simp add: alert_rules_def)
  moreover have "pen_ok ?a" using pen_fold [of rs p] by (intro see_actor_pen pruned_pen) simp
  ultimately have "rq_now r < penaltyUntil (judged r ?g1)"
    using rules_pen [OF _ rule_kinds, of "(?a, ?g1)"] by (simp add: judged_def Let_def)
  then show ?thesis by (simp add: penalty_def record_actors Let_def om_get_set)
qed

section \<open>Rings and the snapshot\<close>

lemma rules_alerts: "length (mAlerts (snd ag)) \<le> 256 \<Longrightarrow> length (mAlerts (snd (fold (apply_rule r) rules ag))) \<le> 256"
  by (induction rules arbitrary: ag)
    (simp_all add: apply_rule_def raise_alert_def case_prod_beta Let_def push_cap_len)

lemma rules_samples: "mSamples (snd (fold (apply_rule r) rules ag)) = mSamples (snd ag)"
  by (induction rules arbitrary: ag) (simp_all add: apply_rule_def raise_alert_def case_prod_beta Let_def)

lemma record_rings:
  assumes "length (mAlerts g) \<le> 256" and "length (mSamples g) \<le> 200"
  shows "length (mAlerts (fg_record r g)) \<le> 256 \<and> length (mSamples (fg_record r g)) \<le> 200"
proof -
  have "mAlerts (prune_actors t g') = mAlerts g'" "mSamples (prune_actors t g') = mSamples g'" for t g'
    by (simp_all add: prune_actors_def)
  with assms show ?thesis
    by (simp add: fg_record_def Let_def case_prod_beta sample_flow_def push_cap_len rules_alerts rules_samples)
qed

lemma writes_alert [json_intros]: "writes (Suc (Suc n)) (alert_json al)"
  unfolding alert_json_def by (intro json_intros)

lemma writes_guard: "writes (Suc (Suc (Suc (Suc (Suc n))))) (guard_snapshot now g)"
  unfolding guard_snapshot_def by (intro json_intros)

text \<open>
  The two-minute silence compares with the last alert only: two kinds that take turns are
  both reported at every request.
\<close>

lemma cooldown_alternates:
  assumes "lastAlertKind a \<noteq> k1" and "k1 \<noteq> k2"
  shows "mAlerts (snd (raise_alert r k1 d1 (raise_alert r k2 d2 (raise_alert r k1 d1 (a, g))))) =
    (let al = \<lambda>k d. \<lparr>al_ts = rq_iso r, al_actor = rq_actor r, al_domain = a_domain a, al_kind = k, al_detail = d, al_path = rq_path r\<rparr>
     in push_cap 256 (al k1 d1) (push_cap 256 (al k2 d2) (push_cap 256 (al k1 d1) (mAlerts g))))"
  using assms by (simp add: raise_alert_def Let_def)

end
