(* ===== verification/Fsutil.thy ===== *)
theory Fsutil
  imports Prelude
begin

text \<open>
  \<open>backend/src/util/fsutil.cpp\<close>: replacing a file through a temporary one.  The kernel is a
  script of its answers: whether \<open>open\<close>, \<open>fsync\<close> and \<open>rename\<close> fail (with the text of
  \<open>strerror\<close>), what each \<open>write\<close> returns, and whether the directory can be synced.  A run is the
  list of the system calls that took effect and the result, \<open>None\<close> where the script ends before
  the loop does.  The calls have two meanings: what a reader sees after each, a disk of
  contents; and what a power failure may leave, on a file system that caches contents until
  \<open>fsync\<close> and may lose the last directory operations.
\<close>

type_synonym disk = "string \<rightharpoonup> string"

datatype write_result = Wrote nat | Interrupted | WriteFailed

record io_script =
  io_open :: "string option"
  io_writes :: "write_result list"
  io_fsync :: "string option"
  io_rename :: "string option"
  io_dirsync :: bool

datatype syscall = Creat string | Append string string | Sync string | Rename string string | Unlink string | SyncDir string

section \<open>The calls\<close>

fun write_calls :: "string \<Rightarrow> string \<Rightarrow> nat \<Rightarrow> write_result list \<Rightarrow> syscall list \<times> bool option" where
  "write_calls tmp data off [] = ([], if off < length data then None else Some True)"
| "write_calls tmp data off (w # ws) =
     (if \<not> off < length data then ([], Some True)
      else case w of
        Interrupted \<Rightarrow> write_calls tmp data off ws
      | WriteFailed \<Rightarrow> ([], Some False)
      | Wrote n \<Rightarrow>
          if n = 0 then ([], Some False)
          else case write_calls tmp data (off + n) ws of
            (cs, r) \<Rightarrow> (Append tmp (take n (drop off data)) # cs, r))"

text \<open>The directory of a path: up to its last slash.\<close>

definition dir_of :: "string \<Rightarrow> string" where
  "dir_of path = (if CHR ''/'' \<notin> set path then ''.''
     else let d = rev (tl (dropWhile (\<lambda>c. c \<noteq> CHR ''/'') (rev path))) in if d = [] then ''/'' else d)"

definition replace_calls :: "string \<Rightarrow> string \<Rightarrow> io_script \<Rightarrow> syscall list \<times> string option option" where
  "replace_calls path data io =
     (let tmp = path @ ''.tmp'' in
      case io_open io of
        Some e \<Rightarrow> ([], Some (Some (cat [''cannot write '', tmp, '': '', e])))
      | None \<Rightarrow>
         (case write_calls tmp data 0 (io_writes io) of
            (ws, None) \<Rightarrow> (Creat tmp # ws, None)
          | (ws, Some False) \<Rightarrow> (Creat tmp # ws @ [Unlink tmp], Some (Some (cat [''short write to '', tmp, '' (disk full?)''])))
          | (ws, Some True) \<Rightarrow>
             (case io_fsync io of
                Some e \<Rightarrow> (Creat tmp # ws @ [Unlink tmp], Some (Some (cat [''fsync '', tmp, '': '', e])))
              | None \<Rightarrow>
                 (case io_rename io of
                    Some e \<Rightarrow> (Creat tmp # ws @ [Sync tmp, Unlink tmp], Some (Some (cat [''cannot replace '', path, '': '', e])))
                  | None \<Rightarrow> (Creat tmp # ws @ [Sync tmp, Rename tmp path] @
                      (if io_dirsync io then [SyncDir (dir_of path)] else []), Some None)))))"

section \<open>What a reader sees\<close>

fun visible :: "syscall \<Rightarrow> disk \<Rightarrow> disk" where
  "visible (Creat p) d = d(p \<mapsto> [])"
| "visible (Append p x) d = d(p \<mapsto> (case d p of None \<Rightarrow> [] | Some s \<Rightarrow> s) @ x)"
| "visible (Sync p) d = d"
| "visible (Rename p q) d = d(q := d p, p := None)"
| "visible (Unlink p) d = d(p := None)"
| "visible (SyncDir p) d = d"

text \<open>The disks passed through, from the first to the one left.\<close>

fun passing :: "syscall list \<Rightarrow> disk \<Rightarrow> disk list" where
  "passing [] d = [d]"
| "passing (c # cs) d = d # passing cs (visible c d)"

definition writeFileAtomic :: "string \<Rightarrow> string \<Rightarrow> io_script \<Rightarrow> disk \<Rightarrow> string option option \<times> disk list" where
  "writeFileAtomic path data io d0 = (case replace_calls path data io of (cs, r) \<Rightarrow> (r, passing cs d0))"

section \<open>What a power failure leaves\<close>

text \<open>
  A file system with a cache.  Names lead to files; \<open>fs_past\<close> holds the directory contents a
  failure may fall back to: the one of the last sync and those after each operation since.  A
  file is durable when it was synced after its last write.
\<close>

datatype inode = Old string | Fresh nat

record fs =
  fs_names :: "string \<rightharpoonup> inode"
  fs_past :: "(string \<rightharpoonup> inode) list"
  fs_data :: "inode \<Rightarrow> string"
  fs_durable :: "inode \<Rightarrow> bool"
  fs_next :: nat

definition fs_of :: "disk \<Rightarrow> fs" where
  "fs_of d = (let names = (\<lambda>p. case d p of None \<Rightarrow> None | Some _ \<Rightarrow> Some (Old p)) in
     \<lparr>fs_names = names, fs_past = [names],
      fs_data = (\<lambda>i. case i of Old p \<Rightarrow> (case d p of None \<Rightarrow> [] | Some x \<Rightarrow> x) | Fresh _ \<Rightarrow> []),
      fs_durable = (\<lambda>_. True), fs_next = 0\<rparr>)"

definition set_names :: "(string \<rightharpoonup> inode) \<Rightarrow> fs \<Rightarrow> fs" where
  "set_names names f = f\<lparr>fs_names := names, fs_past := fs_past f @ [names]\<rparr>"

definition set_data :: "inode \<Rightarrow> string \<Rightarrow> fs \<Rightarrow> fs" where
  "set_data i x f = f\<lparr>fs_data := (fs_data f)(i := x), fs_durable := (fs_durable f)(i := False)\<rparr>"

fun fs_call :: "syscall \<Rightarrow> fs \<Rightarrow> fs" where
  "fs_call (Creat p) f = (case fs_names f p of
     Some i \<Rightarrow> set_data i [] f
   | None \<Rightarrow> set_names ((fs_names f)(p \<mapsto> Fresh (fs_next f))) (set_data (Fresh (fs_next f)) [] (f\<lparr>fs_next := fs_next f + 1\<rparr>)))"
| "fs_call (Append p x) f = (case fs_names f p of None \<Rightarrow> f | Some i \<Rightarrow> set_data i (fs_data f i @ x) f)"
| "fs_call (Sync p) f = (case fs_names f p of None \<Rightarrow> f | Some i \<Rightarrow> f\<lparr>fs_durable := (fs_durable f)(i := True)\<rparr>)"
| "fs_call (Rename p q) f = set_names ((fs_names f)(q := fs_names f p, p := None)) f"
| "fs_call (Unlink p) f = set_names ((fs_names f)(p := None)) f"
| "fs_call (SyncDir p) f = f\<lparr>fs_past := [fs_names f]\<rparr>"

definition fs_run :: "syscall list \<Rightarrow> disk \<Rightarrow> fs" where
  "fs_run cs d = fold fs_call cs (fs_of d)"

text \<open>A disk found after the failure: the names of one of the directories, a durable file with its
  contents, any other with whatever.\<close>

definition crash :: "fs \<Rightarrow> disk \<Rightarrow> bool" where
  "crash f D \<longleftrightarrow> (\<exists>names \<in> set (fs_past f). \<forall>p. case names p of
     None \<Rightarrow> D p = None | Some i \<Rightarrow> D p \<noteq> None \<and> (fs_durable f i \<longrightarrow> D p = Some (fs_data f i)))"

section \<open>The file is the old one or the new one\<close>

lemma passing_append: "passing (cs @ es) d = butlast (passing cs d) @ passing es (fold visible cs d)"
  by (induction cs d rule: passing.induct) (simp_all, metis passing.simps list.distinct(1) list.exhaust)

lemma last_passing: "last (passing cs d) = fold visible cs d"
  by (induction cs d rule: passing.induct) (simp_all, metis passing.simps list.distinct(1) list.exhaust)

lemma passing_nonempty [simp]: "passing cs d \<noteq> []"
  by (cases cs) simp_all

definition touches :: "string \<Rightarrow> syscall \<Rightarrow> bool" where
  "touches q c \<longleftrightarrow> (case c of Creat p \<Rightarrow> p = q | Append p _ \<Rightarrow> p = q | Rename p p' \<Rightarrow> p = q \<or> p' = q | Unlink p \<Rightarrow> p = q | _ \<Rightarrow> False)"

lemma visible_frame: "\<not> touches q c \<Longrightarrow> visible c d q = d q"
  by (cases c) (auto simp: touches_def)

lemma passing_frame: "list_all (\<lambda>c. \<not> touches q c) cs \<Longrightarrow> d' \<in> set (passing cs d) \<Longrightarrow> d' q = d q"
  by (induction cs d rule: passing.induct) (auto simp: visible_frame)

lemma fold_visible_frame: "list_all (\<lambda>c. \<not> touches q c) cs \<Longrightarrow> fold visible cs d q = d q"
  by (induction cs arbitrary: d) (auto simp: visible_frame)

text \<open>The loop only appends to the temporary, and a loop that ends well has appended everything.\<close>

lemma write_calls_appends: "list_all (\<lambda>c. \<exists>x. c = Append tmp x) (fst (write_calls tmp data off ws))"
  by (induction tmp data off ws rule: write_calls.induct) (auto split: write_result.split prod.split)

fun appended :: "syscall list \<Rightarrow> string" where
  "appended [] = []"
| "appended (Append p x # cs) = x @ appended cs"
| "appended (c # cs) = appended cs"

lemma write_calls_content:
  "snd (write_calls tmp data off ws) = Some True \<Longrightarrow> appended (fst (write_calls tmp data off ws)) = drop off data"
proof (induction tmp data off ws rule: write_calls.induct)
  case (2 tmp data off w ws)
  have split: "take n (drop off data) @ drop (off + n) data = drop off data" for n
    by (metis add.commute append_take_drop_id drop_drop)
  show ?case
  proof (cases "off < length data")
    case True
    then show ?thesis using 2 split by (cases w) (auto simp: case_prod_beta split: if_splits)
  qed simp
qed (simp split: if_splits)

lemma tmp_other [simp]: "path @ ''.tmp'' \<noteq> path" "path \<noteq> path @ ''.tmp''"
  by simp_all

text \<open>Every run is refused at once, stuck in the loop, given up with the temporary removed, or done.\<close>

lemma replace_cases:
  obtains (no_open) e where "replace_calls path data io = ([], Some (Some e))"
  | (stuck) es where "replace_calls path data io = (Creat (path @ ''.tmp'') # es, None)"
      "list_all (\<lambda>c. \<exists>x. c = Append (path @ ''.tmp'') x) es"
  | (failed) es e where "replace_calls path data io = (Creat (path @ ''.tmp'') # es @ [Unlink (path @ ''.tmp'')], Some (Some e))"
      "list_all (\<lambda>c. \<exists>x. c = Append (path @ ''.tmp'') x) es"
  | (no_rename) es e where "replace_calls path data io =
        (Creat (path @ ''.tmp'') # es @ [Sync (path @ ''.tmp''), Unlink (path @ ''.tmp'')], Some (Some e))"
      "list_all (\<lambda>c. \<exists>x. c = Append (path @ ''.tmp'') x) es"
  | (replaced) es where "replace_calls path data io = (Creat (path @ ''.tmp'') # es @ [Sync (path @ ''.tmp''), Rename (path @ ''.tmp'') path] @
        (if io_dirsync io then [SyncDir (dir_of path)] else []), Some None)"
      "list_all (\<lambda>c. \<exists>x. c = Append (path @ ''.tmp'') x) es" "appended es = data"
proof (cases "io_open io")
  case None
  let ?tmp = "path @ ''.tmp''"
  obtain es r where w: "write_calls ?tmp data 0 (io_writes io) = (es, r)" by force
  have es: "list_all (\<lambda>c. \<exists>x. c = Append ?tmp x) es" using write_calls_appends [of ?tmp data 0 "io_writes io"] w by simp
  have all: "appended es = data" if "r = Some True" using write_calls_content [of ?tmp data 0 "io_writes io"] w that by simp
  consider (none) "r = None" | (false) "r = Some False" | (fsync) e where "r = Some True" "io_fsync io = Some e"
    | (rename) e where "r = Some True" "io_fsync io = None" "io_rename io = Some e"
    | (ok) "r = Some True" "io_fsync io = None" "io_rename io = None"
    by (cases r; cases "io_fsync io"; cases "io_rename io") auto
  then show thesis
  proof cases
    case none
    show thesis by (rule stuck [OF _ es]) (simp add: replace_calls_def Let_def None w none)
  next
    case false
    show thesis by (rule failed [OF _ es]) (simp add: replace_calls_def Let_def None w false)
  next
    case fsync
    show thesis by (rule failed [OF _ es]) (simp add: replace_calls_def Let_def None w fsync)
  next
    case rename
    show thesis by (rule no_rename [OF _ es]) (simp add: replace_calls_def Let_def None w rename)
  next
    case ok
    show thesis by (rule replaced [OF _ es all [OF ok(1)]]) (simp add: replace_calls_def Let_def None w ok)
  qed
next
  case (Some e)
  show thesis by (rule no_open) (simp add: replace_calls_def Some)
qed

lemma appends_frame: "list_all (\<lambda>c. \<exists>x. c = Append tmp x) es \<Longrightarrow> q \<noteq> tmp \<Longrightarrow> list_all (\<lambda>c. \<not> touches q c) es"
  by (auto simp: list_all_iff touches_def)

lemma appends_visible: "list_all (\<lambda>c. \<exists>x. c = Append tmp x) es \<Longrightarrow> d tmp = Some y \<Longrightarrow> fold visible es d tmp = Some (y @ appended es)"
  by (induction es arbitrary: d y) auto

lemma write_atomic_cases:
  obtains (no_open) e where "writeFileAtomic path data io d0 = (Some (Some e), [d0])"
  | (stuck) ds where "writeFileAtomic path data io d0 = (None, ds)" "ds \<noteq> []" "\<forall>x \<in> set ds. x path = d0 path"
  | (failed) e ds where "writeFileAtomic path data io d0 = (Some (Some e), ds)" "ds \<noteq> []" "\<forall>x \<in> set ds. x path = d0 path"
  | (replaced) ds where "writeFileAtomic path data io d0 = (Some None, ds)" "ds \<noteq> []"
      "\<forall>x \<in> set ds. x path = d0 path \<or> x path = Some data" "last ds path = Some data"
proof -
  let ?tmp = "path @ ''.tmp''"
  have tail: "\<not> touches path (Creat ?tmp)" "\<not> touches path (Unlink ?tmp)" "\<not> touches path (Sync ?tmp)"
    by (simp_all add: touches_def)
  show thesis
  proof (cases rule: replace_cases [of path data io])
    case (no_open e)
    then show thesis by (intro that(1)) (simp add: writeFileAtomic_def)
  next
    case (stuck es)
    then show thesis
      using passing_frame [of path "Creat ?tmp # es"] appends_frame [OF stuck(2), of path] tail
      by (intro that(2) [of "passing (Creat ?tmp # es) d0"]) (simp_all add: writeFileAtomic_def del: passing.simps)
  next
    case (failed es e)
    then show thesis
      using passing_frame [of path "Creat ?tmp # es @ [Unlink ?tmp]"] appends_frame [OF failed(2), of path] tail
      by (intro that(3) [of e "passing (Creat ?tmp # es @ [Unlink ?tmp]) d0"]) (simp_all add: writeFileAtomic_def del: passing.simps)
  next
    case (no_rename es e)
    then show thesis
      using passing_frame [of path "Creat ?tmp # es @ [Sync ?tmp, Unlink ?tmp]"] appends_frame [OF no_rename(2), of path] tail
      by (intro that(3) [of e "passing (Creat ?tmp # es @ [Sync ?tmp, Unlink ?tmp]) d0"]) (simp_all add: writeFileAtomic_def del: passing.simps)
  next
    case (replaced es)
    let ?pre = "Creat ?tmp # es @ [Sync ?tmp]" and ?sync = "if io_dirsync io then [SyncDir (dir_of path)] else []"
    let ?d1 = "fold visible ?pre d0"
    have pre: "\<forall>x \<in> set (passing ?pre d0). x path = d0 path"
      using passing_frame [of path ?pre] appends_frame [OF replaced(2), of path] tail by (simp del: passing.simps)
    have "?d1 ?tmp = Some data" using appends_visible [OF replaced(2), of "d0(?tmp \<mapsto> [])" "[]"] replaced(3) by simp
    moreover have "?d1 path = d0 path"
      by (rule fold_visible_frame) (use appends_frame [OF replaced(2), of path] tail in simp)
    ultimately have fin: "\<forall>x \<in> set (passing (Rename ?tmp path # ?sync) ?d1). x path = d0 path \<or> x path = Some data"
      "last (passing (Rename ?tmp path # ?sync) ?d1) path = Some data" by simp_all
    have eq: "passing (Creat ?tmp # es @ [Sync ?tmp, Rename ?tmp path] @ ?sync) d0 =
        butlast (passing ?pre d0) @ passing (Rename ?tmp path # ?sync) ?d1"
      using passing_append [of ?pre "Rename ?tmp path # ?sync" d0] by (simp only: append_assoc append_Cons append_Nil)
    show thesis
    proof (rule that(4))
      show "writeFileAtomic path data io d0 = (Some None, passing (Creat ?tmp # es @ [Sync ?tmp, Rename ?tmp path] @ ?sync) d0)"
        unfolding writeFileAtomic_def replaced(1) by simp
      show "\<forall>x \<in> set (passing (Creat ?tmp # es @ [Sync ?tmp, Rename ?tmp path] @ ?sync) d0). x path = d0 path \<or> x path = Some data"
        unfolding eq set_append using pre fin(1) by (blast dest: in_set_butlastD)
      show "last (passing (Creat ?tmp # es @ [Sync ?tmp, Rename ?tmp path] @ ?sync) d0) path = Some data"
        unfolding eq using fin(2) by (simp del: passing.simps)
    qed (rule passing_nonempty)
  qed
qed

text \<open>Whenever it is read, the file has its old contents or the new ones.\<close>

lemma write_atomic_seen:
  "d \<in> set (snd (writeFileAtomic path data io d0)) \<Longrightarrow> d path = d0 path \<or> d path = Some data"
  by (rule write_atomic_cases [of path data io d0]) auto

text \<open>The disk left, and what the answer says of it.\<close>

definition disk_after :: "string \<Rightarrow> string \<Rightarrow> io_script \<Rightarrow> disk \<Rightarrow> disk" where
  "disk_after path data io d0 = last (snd (writeFileAtomic path data io d0))"

lemma write_atomic_answer:
  "fst (writeFileAtomic path data io d0) = Some None \<Longrightarrow> disk_after path data io d0 path = Some data"
  "fst (writeFileAtomic path data io d0) = Some (Some e) \<Longrightarrow> disk_after path data io d0 path = d0 path"
  by (rule write_atomic_cases [of path data io d0]; simp add: disk_after_def)+

text \<open>No other file but the temporary changes.\<close>

lemma disk_after_frame:
  assumes "q \<noteq> path" and "q \<noteq> path @ ''.tmp''"
  shows "disk_after path data io d q = d q"
proof -
  have "list_all (\<lambda>c. \<not> touches q c) (fst (replace_calls path data io))"
    using assms appends_frame [of "path @ ''.tmp''" _ q]
    by (cases rule: replace_cases [of path data io]) (auto simp: touches_def)
  then show ?thesis
    by (simp add: disk_after_def writeFileAtomic_def case_prod_beta last_passing fold_visible_frame)
qed

section \<open>Crash safety\<close>

text \<open>The name and the durable contents of \<open>path\<close> are those before the save.\<close>

definition still :: "string \<Rightarrow> disk \<Rightarrow> fs \<Rightarrow> bool" where
  "still path d0 f \<longleftrightarrow> (\<forall>names \<in> set (fs_past f). names path = fs_names (fs_of d0) path) \<and>
     fs_names f path = fs_names (fs_of d0) path \<and> fs_durable f (Old path) \<and> fs_data f (Old path) = fs_data (fs_of d0) (Old path)"

lemma still_crash: "still path d0 f \<Longrightarrow> crash f D \<Longrightarrow> D path = d0 path"
proof -
  assume s: "still path d0 f" and "crash f D"
  then obtain names where n: "names \<in> set (fs_past f)"
    "\<forall>p. case names p of None \<Rightarrow> D p = None | Some i \<Rightarrow> D p \<noteq> None \<and> (fs_durable f i \<longrightarrow> D p = Some (fs_data f i))"
    by (auto simp: crash_def)
  have "names path = fs_names (fs_of d0) path" using s n(1) by (simp add: still_def)
  then show "D path = d0 path"
    using spec [OF n(2), of path] s by (cases "d0 path") (simp_all add: still_def fs_of_def Let_def)
qed

definition tmp_holds :: "string \<Rightarrow> string \<Rightarrow> inode \<Rightarrow> string \<Rightarrow> fs \<Rightarrow> bool" where
  "tmp_holds path tmp i x f \<longleftrightarrow> fs_names f tmp = Some i \<and> i \<noteq> Old path \<and> fs_data f i = x"

lemma still_start: "still path d0 (fs_run [] d0)"
  by (simp add: still_def fs_run_def fs_of_def Let_def)

lemma fs_run_snoc: "fs_run (cs @ es) d = fold fs_call es (fs_run cs d)"
  by (simp add: fs_run_def)

lemma creat_tmp_holds:
  assumes "tmp \<noteq> path"
  shows "still path d0 (fs_run [Creat tmp] d0) \<and> (\<exists>i. tmp_holds path tmp i [] (fs_run [Creat tmp] d0))"
  using assms by (cases "d0 tmp") (auto simp: still_def tmp_holds_def fs_run_def fs_of_def Let_def set_data_def set_names_def)

lemma append_tmp_holds:
  assumes "still path d0 f" and "tmp_holds path tmp i y f"
  shows "still path d0 (fs_call (Append tmp x) f)" "tmp_holds path tmp i (y @ x) (fs_call (Append tmp x) f)"
  using assms by (auto simp: still_def tmp_holds_def set_data_def)

lemma appends_tmp_holds:
  assumes "list_all (\<lambda>c. \<exists>x. c = Append tmp x) es" and "still path d0 f" and "tmp_holds path tmp i y f"
  shows "still path d0 (fold fs_call es f) \<and> tmp_holds path tmp i (y @ appended es) (fold fs_call es f)"
  using assms
proof (induction es arbitrary: f y)
  case (Cons c es)
  then obtain x where c: "c = Append tmp x" by auto
  show ?case
    using Cons.IH [OF _ append_tmp_holds [OF Cons.prems(2,3), of x]] Cons.prems(1) by (simp add: c)
qed simp

lemma sync_tmp_holds:
  assumes "still path d0 f" and "tmp_holds path tmp i y f"
  shows "still path d0 (fs_call (Sync tmp) f)" "tmp_holds path tmp i y (fs_call (Sync tmp) f)" "fs_durable (fs_call (Sync tmp) f) i"
  using assms by (auto simp: still_def tmp_holds_def)

lemma unlink_still: "still path d0 f \<Longrightarrow> tmp \<noteq> path \<Longrightarrow> still path d0 (fs_call (Unlink tmp) f)"
  by (auto simp: still_def set_names_def)

lemma set_names_fields: "fs_past (set_names names f) = fs_past f @ [names]" "fs_durable (set_names names f) = fs_durable f"
    "fs_data (set_names names f) = fs_data f"
  by (simp_all add: set_names_def)

text \<open>After the rename the directory leads to the old file or to the staged, durable one.\<close>

lemma rename_crash:
  assumes "still path d0 f" and "tmp_holds path tmp i y f" and "fs_durable f i" and "tmp \<noteq> path"
  shows "crash (fs_call (Rename tmp path) f) D \<Longrightarrow> D path = d0 path \<or> D path = Some y"
    and "crash (fs_call (SyncDir dir) (fs_call (Rename tmp path) f)) D \<Longrightarrow> D path = Some y"
proof -
  have new: "fs_names (fs_call (Rename tmp path) f) path = Some i" "fs_durable (fs_call (Rename tmp path) f) i"
      "fs_data (fs_call (Rename tmp path) f) i = y"
    using assms by (simp_all add: tmp_holds_def set_names_def)
  then show "D path = Some y" if "crash (fs_call (SyncDir dir) (fs_call (Rename tmp path) f)) D"
    using that unfolding crash_def by (auto simp del: fs_call.simps(4) dest!: spec [of _ path])
  show "D path = d0 path \<or> D path = Some y" if c: "crash (fs_call (Rename tmp path) f) D"
  proof -
    have "\<exists>names \<in> set (fs_past f @ [(fs_names f)(path := fs_names f tmp, tmp := None)]).
      \<forall>p. case names p of None \<Rightarrow> D p = None | Some i \<Rightarrow> D p \<noteq> None \<and> (fs_durable f i \<longrightarrow> D p = Some (fs_data f i))"
      using c by (simp only: crash_def fs_call.simps set_names_fields)
    then obtain names where n: "names \<in> set (fs_past f) \<or> names = (fs_names f)(path := fs_names f tmp, tmp := None)"
      "\<forall>p. case names p of None \<Rightarrow> D p = None | Some i \<Rightarrow> D p \<noteq> None \<and> (fs_durable f i \<longrightarrow> D p = Some (fs_data f i))"
      unfolding set_append Un_iff list.set insert_iff empty_iff Bex_def by blast
    from n(1) show "D path = d0 path \<or> D path = Some y"
    proof
      assume "names \<in> set (fs_past f)"
      with n(2) have "crash f D" by (auto simp: crash_def)
      then show ?thesis using still_crash [OF assms(1)] by blast
    next
      assume "names = (fs_names f)(path := fs_names f tmp, tmp := None)"
      then have "names path = Some i" using assms(2,4) by (simp add: tmp_holds_def)
      then show ?thesis using n(2) assms(2,3) by (auto simp: tmp_holds_def dest!: spec [of _ path])
    qed
  qed
qed

text \<open>A failure after any of the calls leaves the old contents or the new; after the last of them what
  the answer says, the new ones provided that the directory could be synced.\<close>

lemma replace_crash:
  assumes "prefix cs (fst (replace_calls path data io))" and "crash (fs_run cs d0) D"
  shows "D path = d0 path \<or> D path = Some data"
    and "cs = fst (replace_calls path data io) \<Longrightarrow> snd (replace_calls path data io) \<noteq> Some None \<Longrightarrow> D path = d0 path"
    and "cs = fst (replace_calls path data io) \<Longrightarrow> snd (replace_calls path data io) = Some None \<Longrightarrow> io_dirsync io \<Longrightarrow> D path = Some data"
proof -
  let ?tmp = "path @ ''.tmp''"
  have ne: "?tmp \<noteq> path" by simp
  define loop where "loop es = fold fs_call es (fs_run [Creat ?tmp] d0)" for es
  have run: "fs_run (Creat ?tmp # es @ xs) d0 = fold fs_call xs (loop es)" for es xs
    by (simp add: fs_run_def loop_def)
  have looping: "still path d0 (loop es) \<and> (\<exists>i. tmp_holds path ?tmp i (appended es) (loop es))"
    if "list_all (\<lambda>c. \<exists>x. c = Append ?tmp x) es" for es
    using creat_tmp_holds [OF ne, of d0] appends_tmp_holds [OF that, of path d0 "fs_run [Creat ?tmp] d0"] unfolding loop_def by force
  have early: "still path d0 (fs_run xs d0)" if es: "list_all (\<lambda>c. \<exists>x. c = Append ?tmp x) es" and p: "prefix xs (Creat ?tmp # es)" for xs es
  proof (cases xs)
    case Nil then show ?thesis using still_start by simp
  next
    case (Cons c ys)
    then have "c = Creat ?tmp" and "prefix ys es" using p by simp_all
    moreover from this(2) es have "list_all (\<lambda>c. \<exists>x. c = Append ?tmp x) ys" by (auto simp: prefix_def)
    ultimately show ?thesis using run [of ys "[]"] looping [of ys] Cons by simp
  qed
  have unlinked: "still path d0 (fs_run (Creat ?tmp # es @ [Unlink ?tmp]) d0)"
      "still path d0 (fs_run (Creat ?tmp # es @ [Sync ?tmp]) d0)" "still path d0 (fs_run (Creat ?tmp # es @ [Sync ?tmp, Unlink ?tmp]) d0)"
    if es: "list_all (\<lambda>c. \<exists>x. c = Append ?tmp x) es" for es
    using looping [OF es] sync_tmp_holds(1) unlink_still [OF _ ne] unfolding run by (simp_all, blast+)
  have all: "(D path = d0 path \<or> D path = Some data) \<and>
      (cs = fst (replace_calls path data io) \<longrightarrow> (snd (replace_calls path data io) \<noteq> Some None \<longrightarrow> D path = d0 path) \<and>
        (snd (replace_calls path data io) = Some None \<longrightarrow> io_dirsync io \<longrightarrow> D path = Some data))"
  proof (cases rule: replace_cases [of path data io])
    case (no_open e)
    then show ?thesis using assms still_crash [OF still_start] by auto
  next
    case (stuck es)
    then show ?thesis using assms still_crash [OF early [OF stuck(2)]] by auto
  next
    case (failed es e)
    then have "prefix cs ((Creat ?tmp # es) @ [Unlink ?tmp])" using assms(1) by simp
    then have "still path d0 (fs_run cs d0)"
      unfolding prefix_append using early [OF failed(2)] unlinked(1) [OF failed(2)] by (auto simp: prefix_Cons)
    then show ?thesis using still_crash assms(2) failed(1) by auto
  next
    case (no_rename es e)
    then have "prefix cs ((Creat ?tmp # es) @ [Sync ?tmp, Unlink ?tmp])" using assms(1) by simp
    then have "still path d0 (fs_run cs d0)"
      unfolding prefix_append using early [OF no_rename(2)] unlinked(2,3) [OF no_rename(2)] by (auto simp: prefix_Cons)
    then show ?thesis using still_crash assms(2) no_rename(1) by auto
  next
    case (replaced es)
    let ?sync = "if io_dirsync io then [SyncDir (dir_of path)] else []"
    have "prefix cs ((Creat ?tmp # es) @ [Sync ?tmp, Rename ?tmp path] @ ?sync)" using assms(1) replaced(1) by simp
    then consider (loop) "prefix cs (Creat ?tmp # es)" | (sync) "cs = Creat ?tmp # es @ [Sync ?tmp]"
      | (rename) "cs = Creat ?tmp # es @ [Sync ?tmp, Rename ?tmp path]"
      | (dirsync) "cs = Creat ?tmp # es @ [Sync ?tmp, Rename ?tmp path, SyncDir (dir_of path)]"
      unfolding prefix_append by (cases "io_dirsync io") (auto simp: prefix_Cons)
    then show ?thesis
    proof cases
      case loop
      have "length cs \<le> length (Creat ?tmp # es)" using loop by (rule prefix_length_le)
      then have "cs \<noteq> fst (replace_calls path data io)" using replaced(1) by auto
      then show ?thesis using still_crash [OF early [OF replaced(2) loop]] assms(2) by auto
    next
      case sync
      then show ?thesis using still_crash [OF unlinked(2) [OF replaced(2)]] assms(2) replaced(1) by auto
    next
      case rename
      obtain i where "still path d0 (loop es)" "tmp_holds path ?tmp i data (loop es)" using looping [OF replaced(2)] replaced(3) by auto
      from rename_crash(1) [OF sync_tmp_holds [OF this] ne, of D] show ?thesis
        using assms(2) replaced(1) unfolding rename run by simp
    next
      case dirsync
      obtain i where "still path d0 (loop es)" "tmp_holds path ?tmp i data (loop es)" using looping [OF replaced(2)] replaced(3) by auto
      from rename_crash(2) [OF sync_tmp_holds [OF this] ne, of "dir_of path" D] show ?thesis
        using assms(2) replaced(1) unfolding dirsync run by simp
    qed
  qed
  from all show "D path = d0 path \<or> D path = Some data" ..
  from all show "cs = fst (replace_calls path data io) \<Longrightarrow> snd (replace_calls path data io) \<noteq> Some None \<Longrightarrow> D path = d0 path"
    and "cs = fst (replace_calls path data io) \<Longrightarrow> snd (replace_calls path data io) = Some None \<Longrightarrow> io_dirsync io \<Longrightarrow> D path = Some data"
    by blast+
qed

text \<open>A kernel that takes every write whole and fails nothing gets the file replaced.\<close>

definition healthy :: "io_script" where
  "healthy = \<lparr>io_open = None, io_writes = [Wrote (2 ^ 40)], io_fsync = None, io_rename = None, io_dirsync = True\<rparr>"

lemma write_atomic_success:
  assumes "io_open io = None" and "io_fsync io = None" and "io_rename io = None"
    and "io_writes io = replicate k Interrupted @ Wrote n # ws" and "length data \<le> n" and "data \<noteq> []"
  shows "fst (writeFileAtomic path data io d0) = Some None"
proof -
  have n: "n \<noteq> 0" using assms(5,6) by (cases n) simp_all
  have one: "snd (write_calls tmp data 0 (Wrote n # ws)) = Some True" for tmp
    using assms(5,6) n by (cases ws) (simp_all add: case_prod_beta)
  have "snd (write_calls tmp data 0 (replicate m Interrupted @ Wrote n # ws)) = Some True" for tmp m
    by (induction m) (use one assms(6) in \<open>simp_all del: write_calls.simps add: write_calls.simps(2) [of _ _ _ Interrupted]\<close>)
  then obtain es where "write_calls (path @ ''.tmp'') data 0 (io_writes io) = (es, Some True)"
    by (metis assms(4) prod.collapse)
  then show ?thesis using assms(1-3) by (simp add: writeFileAtomic_def replace_calls_def Let_def)
qed

end
