(* ===== verification/Netaddr.thy ===== *)
theory Netaddr
  imports Bytes
begin

text \<open>
  \<open>backend/src/util/netaddr.cpp\<close>: addresses, CIDR ranges, and the client address a request
  behind a reverse proxy is attributed to.  The conversions \<open>inet_pton\<close> and \<open>inet_ntop\<close> of
  the operating system are the record \<open>inet\<close>, a parameter; what is relied on of them is
  \<open>inet_ok\<close>: they give and take four or sixteen bytes, and a printed address reads back.
\<close>

section \<open>Searching strings\<close>

definition find_char :: "char \<Rightarrow> string \<Rightarrow> nat option" where
  "find_char c s = (if c \<in> set s then Some (length (takeWhile (\<lambda>x. x \<noteq> c) s)) else None)"

definition rfind_char :: "char \<Rightarrow> string \<Rightarrow> nat option" where
  "rfind_char c s = (if c \<in> set s then Some (length s - 1 - length (takeWhile (\<lambda>x. x \<noteq> c) (rev s))) else None)"

text \<open>\<open>c_str()\<close> as the C library reads it.\<close>

definition c_str :: "string \<Rightarrow> string" where
  "c_str = takeWhile (\<lambda>c. c \<noteq> CHR 0x00)"

definition trim_with :: "(char \<Rightarrow> bool) \<Rightarrow> string \<Rightarrow> string" where
  "trim_with p s = rev (dropWhile p (rev (dropWhile p s)))"

definition trim :: "string \<Rightarrow> string" where
  "trim = trim_with (\<lambda>c. c = CHR 0x20 \<or> c = CHR 0x09)"

section \<open>Addresses\<close>

record ip_addr =
  v6 :: bool
  ip_bytes :: "byte list"

record inet =
  pton4 :: "string \<Rightarrow> byte list option"
  pton6 :: "string \<Rightarrow> byte list option"
  ntop4 :: "byte list \<Rightarrow> string"
  ntop6 :: "byte list \<Rightarrow> string"

definition v4_addr :: "byte list \<Rightarrow> ip_addr" where
  "v4_addr b = \<lparr>v6 = False, ip_bytes = take 4 b @ replicate 12 0\<rparr>"

definition v4mapped :: "byte list \<Rightarrow> bool" where
  "v4mapped b \<longleftrightarrow> take 10 b = replicate 10 0 \<and> b ! 10 = 0xff \<and> b ! 11 = 0xff"

definition parseIp :: "inet \<Rightarrow> string \<Rightarrow> ip_addr option" where
  "parseIp os s =
     (if s = [] \<or> length s > 45 then None
      else case pton4 os (c_str s) of
        Some a4 \<Rightarrow> Some (v4_addr a4)
      | None \<Rightarrow>
         (case pton6 os (c_str s) of
            None \<Rightarrow> None
          | Some a6 \<Rightarrow>
              if v4mapped a6 then Some (v4_addr (drop 12 a6))
              else Some \<lparr>v6 = True, ip_bytes = take 16 a6\<rparr>))"

definition ipToString :: "inet \<Rightarrow> ip_addr \<Rightarrow> string" where
  "ipToString os ip = (if v6 ip then ntop6 os (ip_bytes ip) else ntop4 os (take 4 (ip_bytes ip)))"

definition isLoopback :: "ip_addr \<Rightarrow> bool" where
  "isLoopback ip =
     (if \<not> v6 ip then ip_bytes ip ! 0 = 127
      else list_all (\<lambda>i. ip_bytes ip ! i = 0) [0..<15] \<and> ip_bytes ip ! 15 = 1)"

section \<open>Ranges\<close>

record ip_net =
  net_addr :: ip_addr
  net_bits :: int

definition prefix_mask :: "int \<Rightarrow> byte" where
  "prefix_mask bits = (if bits \<ge> 8 then 0xff else push_bit (nat (8 - bits)) 0xff)"

fun contains_loop :: "int \<Rightarrow> byte list \<Rightarrow> byte list \<Rightarrow> bool" where
  "contains_loop bits (x # xs) (y # ys) =
     (if bits \<le> 0 then True
      else if x AND prefix_mask bits \<noteq> y AND prefix_mask bits then False
      else contains_loop (bits - 8) xs ys)"
| "contains_loop bits _ _ = True"

definition net_contains :: "ip_net \<Rightarrow> ip_addr \<Rightarrow> bool" where
  "net_contains net ip =
     (if v6 ip \<noteq> v6 (net_addr net) then False
      else let n = (if v6 (net_addr net) then 16 else 4)
           in contains_loop (net_bits net) (take n (ip_bytes ip)) (take n (ip_bytes (net_addr net))))"

definition parseCidr :: "inet \<Rightarrow> string \<Rightarrow> ip_net option" where
  "parseCidr os s =
     (let slash = find_char (CHR ''/'') s;
          host = (case slash of None \<Rightarrow> s | Some i \<Rightarrow> take i s)
      in case parseIp os host of
           None \<Rightarrow> None
         | Some a \<Rightarrow>
             (let maxBits = (if v6 a then 128 else 32) in
              case slash of
                None \<Rightarrow> Some \<lparr>net_addr = a, net_bits = maxBits\<rparr>
              | Some i \<Rightarrow>
                  (let p = drop (i + 1) s in
                   if p = [] \<or> length p > 3 then None
                   else if list_ex (\<lambda>c. (of_char c :: nat) < 48 \<or> 57 < (of_char c :: nat)) p then None
                   else if int (dec_val p) < 0 \<or> maxBits < int (dec_val p) then None
                   else Some \<lparr>net_addr = a, net_bits = int (dec_val p)\<rparr>)))"

definition is_sep :: "char \<Rightarrow> bool" where
  "is_sep c \<longleftrightarrow> c = CHR '','' \<or> c = CHR 0x20 \<or> c = CHR 0x09 \<or> c = CHR 0x0A"

function parseCidrList :: "inet \<Rightarrow> string \<Rightarrow> ip_net list \<Rightarrow> string + ip_net list" where
  "parseCidrList os s out =
     (if s = [] then Inr out
      else let t = dropWhile is_sep s; item = takeWhile (\<lambda>c. \<not> is_sep c) t; rest = dropWhile (\<lambda>c. \<not> is_sep c) t
      in if item = [] then parseCidrList os t out
         else case parseCidr os item of
                None \<Rightarrow> Inl (cat [''bad address or CIDR range '', [CHR 0x22], item, [CHR 0x22]])
              | Some net \<Rightarrow> parseCidrList os rest (out @ [net]))"
  by pat_completeness auto
termination
proof (relation "measure (\<lambda>(os, s, out). length s)")
  fix os :: inet and s t item rest :: string and out :: "ip_net list" and net
  assume s: "s \<noteq> []" and t: "t = dropWhile is_sep s" and item: "item = takeWhile (\<lambda>c. \<not> is_sep c) t"
    and rest: "rest = dropWhile (\<lambda>c. \<not> is_sep c) t"
  have le: "length t \<le> length s" unfolding t by (rule length_dropWhile_le)
  { assume "item = []"
    then have "t = []" using item hd_dropWhile [of is_sep s] unfolding t
      by (cases "dropWhile is_sep s") (auto split: if_splits)
    with s show "((os, t, out), (os, s, out)) \<in> measure (\<lambda>(os, s, out). length s)" by simp }
  { assume "item \<noteq> []"
    then have "length rest < length t"
      using item rest by (cases t) (auto split: if_splits simp: le_imp_less_Suc length_dropWhile_le)
    with le show "((os, rest, out @ [net]), (os, s, out)) \<in> measure (\<lambda>(os, s, out). length s)" by simp }
qed simp

declare parseCidrList.simps [simp del]

section \<open>Where a request comes from\<close>

definition hostOfPeer :: "string \<Rightarrow> string" where
  "hostOfPeer peer =
     (if peer \<noteq> [] \<and> hd peer = CHR ''['' then
        (case find_char (CHR '']'') peer of None \<Rightarrow> drop 1 peer | Some close \<Rightarrow> take (close - 1) (drop 1 peer))
      else case rfind_char (CHR '':'') peer of
             None \<Rightarrow> peer
           | Some colon \<Rightarrow> if find_char (CHR '':'') peer = Some colon then take colon peer else peer)"

definition resolveClientIp :: "inet \<Rightarrow> string \<Rightarrow> string \<Rightarrow> string \<Rightarrow> ip_net list \<Rightarrow> string" where
  "resolveClientIp os peer xRealIp xForwardedFor trustedProxies =
     (let host = hostOfPeer peer in
      case parseIp os host of
        None \<Rightarrow> host
      | Some peerIp \<Rightarrow>
          (let trusted = isLoopback peerIp \<or> list_ex (\<lambda>net. net_contains net peerIp) trustedProxies in
           if \<not> trusted then ipToString os peerIp
           else case parseIp os (trim xRealIp) of
                  Some fwd \<Rightarrow> ipToString os fwd
                | None \<Rightarrow>
                    (let last = trim (case rfind_char (CHR '','') xForwardedFor of
                                        None \<Rightarrow> xForwardedFor | Some c \<Rightarrow> drop (c + 1) xForwardedFor)
                     in case (if xForwardedFor = [] then None else parseIp os last) of
                          Some fwd \<Rightarrow> ipToString os fwd
                        | None \<Rightarrow> ipToString os peerIp)))"

section \<open>Prefixes\<close>

text \<open>The bits of an address, most significant first.\<close>

definition byte_bits :: "byte \<Rightarrow> bool list" where
  "byte_bits b = map (\<lambda>i. bit b (7 - i)) [0..<8]"

definition bits_of :: "byte list \<Rightarrow> bool list" where
  "bits_of bs = concat (map byte_bits bs)"

lemma length_byte_bits [simp]: "length (byte_bits b) = 8"
  by (simp add: byte_bits_def)

lemma byte_bits_inject [simp]: "byte_bits x = byte_bits y \<longleftrightarrow> x = y"
proof
  assume "byte_bits x = byte_bits y"
  then have at: "bit x (7 - i) = bit y (7 - i)" if "i < 8" for i using that by (simp add: byte_bits_def)
  have "bit x i = bit y i" if "i < 8" for i using at [of "7 - i"] that by simp
  then show "x = y" by (intro bit_word_eqI) simp
qed simp

lemma bit_ff: "j < 8 \<Longrightarrow> bit (0xff :: byte) j"
proof -
  assume "j < 8"
  then have "j \<in> {0, 1, 2, 3, 4, 5, 6, 7}" by auto
  then show ?thesis by auto
qed

lemma bit_prefix_mask: "0 < k \<Longrightarrow> k \<le> 8 \<Longrightarrow> i < 8 \<Longrightarrow> bit (prefix_mask (int k)) i = (8 - k \<le> i)"
proof -
  assume k: "0 < k" "k \<le> 8" "i < 8"
  note ff = bit_ff
  have n: "nat (8 - int k) = 8 - k" by simp
  show ?thesis
    using k ff by (auto simp: prefix_mask_def bit_push_bit_iff n)
qed

lemma masked_eq: "0 < k \<Longrightarrow> k \<le> 8 \<Longrightarrow>
    x AND prefix_mask (int k) = y AND prefix_mask (int k) \<longleftrightarrow> take k (byte_bits x) = take k (byte_bits y)"
proof -
  assume k: "0 < k" "k \<le> 8"
  have "x AND prefix_mask (int k) = y AND prefix_mask (int k) \<longleftrightarrow>
      (\<forall>i < 8. 8 - k \<le> i \<longrightarrow> bit x i = bit y i)"
    using k by (auto simp: bit_eq_iff bit_and_iff bit_prefix_mask)
  also have "\<dots> \<longleftrightarrow> (\<forall>i < k. bit x (7 - i) = bit y (7 - i))"
  proof safe
    fix i assume "\<forall>i < 8. 8 - k \<le> i \<longrightarrow> bit x i = bit y i" "i < k"
    then show "bit x (7 - i)" if "bit y (7 - i)" using that k by simp
  next
    fix i assume "\<forall>i < 8. 8 - k \<le> i \<longrightarrow> bit x i = bit y i" "i < k"
    then show "bit y (7 - i)" if "bit x (7 - i)" using that k by simp
  next
    fix i :: nat assume a: "\<forall>i < k. bit x (7 - i) = bit y (7 - i)" "i < 8" "8 - k \<le> i"
    have "bit x i = bit y i" using a(1) [rule_format, of "7 - i"] a(2,3) by simp
    then show "bit x i \<Longrightarrow> bit y i" "bit y i \<Longrightarrow> bit x i" by simp_all
  qed
  also have "\<dots> \<longleftrightarrow> take k (byte_bits x) = take k (byte_bits y)"
    using k by (simp add: byte_bits_def take_map list_eq_iff_nth_eq)
  finally show ?thesis .
qed

lemma mask_full: "bits \<ge> 8 \<Longrightarrow> x AND prefix_mask bits = x"
proof -
  assume b: "bits \<ge> 8"
  have "(0xff :: byte) = - 1" by simp
  then have "prefix_mask bits = - 1" using b by (simp only: prefix_mask_def if_True)
  then show ?thesis by simp
qed

text \<open>The masked comparison is the comparison of the leading bits.\<close>

lemma contains_loop_bits:
  "length xs = length ys \<Longrightarrow> contains_loop (int n) xs ys \<longleftrightarrow> take n (bits_of xs) = take n (bits_of ys)"
proof (induction xs ys arbitrary: n rule: list_induct2)
  case (Cons x xs y ys)
  consider "n = 0" | (part) "0 < n" "n \<le> 8" | (full) "8 < n" by linarith
  then show ?case
  proof cases
    case part
    have "contains_loop (int n - 8) xs ys" using part by (cases xs; cases ys) simp_all
    then have "contains_loop (int n) (x # xs) (y # ys) \<longleftrightarrow> x AND prefix_mask (int n) = y AND prefix_mask (int n)"
      using part(1) by simp
    also have "\<dots> \<longleftrightarrow> take n (bits_of (x # xs)) = take n (bits_of (y # ys))"
      unfolding masked_eq [OF part] using part by (simp add: bits_of_def)
    finally show ?thesis .
  next
    case full
    then obtain m where n: "n = m + 8" by (metis add.commute less_imp_add_positive)
    show ?thesis using Cons.IH [of m] mask_full [of "int m + 8"] by (simp add: n bits_of_def)
  qed simp
qed (simp add: bits_of_def)

section \<open>Parsed addresses and ranges\<close>

definition inet_ok :: "inet \<Rightarrow> bool" where
  "inet_ok os \<longleftrightarrow>
     (\<forall>s b. pton4 os s = Some b \<longrightarrow> length b = 4) \<and> (\<forall>s b. pton6 os s = Some b \<longrightarrow> length b = 16) \<and>
     (\<forall>b. length b = 4 \<longrightarrow> pton4 os (ntop4 os b) = Some b \<and> ntop4 os b \<noteq> [] \<and> length (ntop4 os b) \<le> 45 \<and> CHR 0x00 \<notin> set (ntop4 os b)) \<and>
     (\<forall>b. length b = 16 \<longrightarrow> pton4 os (ntop6 os b) = None \<and> pton6 os (ntop6 os b) = Some b \<and> ntop6 os b \<noteq> [] \<and>
        length (ntop6 os b) \<le> 45 \<and> CHR 0x00 \<notin> set (ntop6 os b))"

definition valid_ip :: "ip_addr \<Rightarrow> bool" where
  "valid_ip ip \<longleftrightarrow> length (ip_bytes ip) = 16 \<and>
     (if v6 ip then \<not> v4mapped (ip_bytes ip) else drop 4 (ip_bytes ip) = replicate 12 0)"

lemma valid_v4: "length b = 4 \<Longrightarrow> valid_ip (v4_addr b)"
  by (simp add: valid_ip_def v4_addr_def)

lemma parseIp_valid: "inet_ok os \<Longrightarrow> parseIp os s = Some ip \<Longrightarrow> valid_ip ip"
  by (auto simp: parseIp_def inet_ok_def valid_v4 split: if_splits option.splits)
    (auto simp: valid_ip_def)

lemma c_str_id: "CHR 0x00 \<notin> set s \<Longrightarrow> c_str s = s"
  unfolding c_str_def by (rule takeWhile_eq_all_conv [THEN iffD2]) auto

lemma ip_roundtrip: "inet_ok os \<Longrightarrow> valid_ip ip \<Longrightarrow> parseIp os (ipToString os ip) = Some ip"
proof -
  assume os: "inet_ok os" and ip: "valid_ip ip"
  show ?thesis
  proof (cases "v6 ip")
    case True
    then have "length (ip_bytes ip) = 16" "\<not> v4mapped (ip_bytes ip)" using ip by (simp_all add: valid_ip_def)
    moreover from os this(1) have "pton4 os (ntop6 os (ip_bytes ip)) = None" "pton6 os (ntop6 os (ip_bytes ip)) = Some (ip_bytes ip)"
      "ntop6 os (ip_bytes ip) \<noteq> []" "length (ntop6 os (ip_bytes ip)) \<le> 45" "c_str (ntop6 os (ip_bytes ip)) = ntop6 os (ip_bytes ip)"
      by (simp_all add: inet_ok_def c_str_id)
    ultimately show ?thesis using True by (simp add: parseIp_def ipToString_def)
  next
    case False
    let ?b = "take 4 (ip_bytes ip)"
    have b: "length ?b = 4" and z: "ip_bytes ip = ?b @ replicate 12 0"
      using ip False append_take_drop_id [of 4 "ip_bytes ip"] by (auto simp: valid_ip_def)
    from os b have "pton4 os (ntop4 os ?b) = Some ?b" "ntop4 os ?b \<noteq> []" "length (ntop4 os ?b) \<le> 45"
      "c_str (ntop4 os ?b) = ntop4 os ?b"
      by (simp_all add: inet_ok_def c_str_id)
    moreover have "v4_addr ?b = ip" using False z b by (simp add: v4_addr_def)
    ultimately show ?thesis using False by (simp add: parseIp_def ipToString_def)
  qed
qed

lemma parseCidr_valid:
  assumes "inet_ok os" and "parseCidr os s = Some net"
  shows "valid_ip (net_addr net) \<and> 0 \<le> net_bits net \<and> net_bits net \<le> (if v6 (net_addr net) then 128 else 32)"
  using assms(2) parseIp_valid [OF assms(1)]
  by (auto simp: parseCidr_def Let_def split: option.splits if_splits)

lemma bits_of_take: "bits_of (take n bs) = take (8 * n) (bits_of bs)"
proof (induction bs arbitrary: n)
  case (Cons b bs)
  then show ?case by (cases n) (simp_all add: bits_of_def)
qed (simp add: bits_of_def)

lemma net_contains_bits:
  assumes "valid_ip ip" and "valid_ip (net_addr net)" and "0 \<le> net_bits net"
    and "net_bits net \<le> (if v6 (net_addr net) then 128 else 32)"
  shows "net_contains net ip \<longleftrightarrow> v6 ip = v6 (net_addr net) \<and>
    take (nat (net_bits net)) (bits_of (ip_bytes ip)) = take (nat (net_bits net)) (bits_of (ip_bytes (net_addr net)))"
proof -
  let ?n = "if v6 (net_addr net) then 16 else (4::nat)" and ?p = "nat (net_bits net)"
  have len: "length (ip_bytes ip) = 16" "length (ip_bytes (net_addr net)) = 16"
    using assms(1,2) by (simp_all add: valid_ip_def)
  have p: "?p \<le> 8 * ?n" using assms(3,4) by (simp add: nat_le_iff split: if_splits)
  have "contains_loop (int ?p) (take ?n (ip_bytes ip)) (take ?n (ip_bytes (net_addr net))) \<longleftrightarrow>
      take ?p (bits_of (ip_bytes ip)) = take ?p (bits_of (ip_bytes (net_addr net)))"
    using contains_loop_bits [of "take ?n (ip_bytes ip)" "take ?n (ip_bytes (net_addr net))" ?p] len p
    by (simp add: bits_of_take min_absorb1)
  then show ?thesis using assms(3) by (auto simp: net_contains_def Let_def)
qed

section \<open>Proxy headers\<close>

lemma resolve_untrusted:
  assumes "parseIp os (hostOfPeer peer) = Some ip" and "\<not> isLoopback ip"
    and "\<not> list_ex (\<lambda>net. net_contains net ip) trusted"
  shows "resolveClientIp os peer realIp forwarded trusted = ipToString os ip"
  using assms by (simp add: resolveClientIp_def)

lemma resolve_shape:
  "(parseIp os (hostOfPeer peer) = None \<and> resolveClientIp os peer realIp forwarded trusted = hostOfPeer peer) \<or>
   (\<exists>s ip. parseIp os s = Some ip \<and> resolveClientIp os peer realIp forwarded trusted = ipToString os ip)"
  unfolding resolveClientIp_def Let_def by (auto split: option.split if_split)

lemma rfind_last: "c \<notin> set h \<Longrightarrow> rfind_char c (a @ c # h) = Some (length a)"
proof -
  assume "c \<notin> set h"
  then have "takeWhile (\<lambda>x. x \<noteq> c) (rev h @ c # rev a) = rev h"
    by (subst takeWhile_append2) auto
  then show ?thesis by (simp add: rfind_char_def)
qed

lemma resolve_last_hop:
  assumes "CHR '','' \<notin> set hop"
  shows "resolveClientIp os peer realIp (a @ CHR '','' # hop) trusted = resolveClientIp os peer realIp hop trusted"
proof -
  have none: "rfind_char (CHR '','') hop = None" using assms by (simp add: rfind_char_def)
  have nil: "parseIp os (trim []) = None" by (simp add: trim_def trim_with_def parseIp_def)
  have last: "drop (length a + 1) (a @ CHR '','' # hop) = hop"
    by simp
  have some: "a @ CHR '','' # hop \<noteq> []" by simp
  show ?thesis
    unfolding resolveClientIp_def rfind_last [OF assms] none Let_def if_not_P [OF some] option.case last
    by (cases "hop = []") (simp_all only: nil if_True if_False refl simp_thms option.case)
qed

text \<open>The peer strings the server formats: \<open>a.b.c.d:port\<close> and \<open>[v6]:port\<close>.\<close>

lemma resolve_single_hop:
  assumes "CHR '','' \<notin> set hop"
  shows "resolveClientIp os peer realIp hop trusted =
    (case parseIp os (hostOfPeer peer) of
       None \<Rightarrow> hostOfPeer peer
     | Some ip \<Rightarrow>
         if \<not> (isLoopback ip \<or> list_ex (\<lambda>net. net_contains net ip) trusted) then ipToString os ip
         else ipToString os (case parseIp os (trim realIp) of
                Some x \<Rightarrow> x
              | None \<Rightarrow> (case parseIp os (trim hop) of Some x \<Rightarrow> x | None \<Rightarrow> ip)))"
proof -
  have none: "rfind_char (CHR '','') hop = None" using assms by (simp add: rfind_char_def)
  have nil: "parseIp os (trim []) = None" by (simp add: trim_def trim_with_def parseIp_def)
  show ?thesis
    unfolding resolveClientIp_def Let_def none option.case
    using nil by (auto split: option.split)
qed

lemma hostOfPeer_v4: "CHR '':'' \<notin> set host \<Longrightarrow> CHR '':'' \<notin> set port \<Longrightarrow> host \<noteq> [] \<Longrightarrow> hd host \<noteq> CHR ''['' \<Longrightarrow>
    hostOfPeer (host @ CHR '':'' # port) = host"
proof -
  assume a: "CHR '':'' \<notin> set host" "CHR '':'' \<notin> set port" "host \<noteq> []" "hd host \<noteq> CHR ''[''"
  have "takeWhile (\<lambda>x. x \<noteq> CHR '':'') (host @ CHR '':'' # port) = host"
    using a(1) by (subst takeWhile_append2) auto
  then show ?thesis using rfind_last [OF a(2), of host] a by (simp add: hostOfPeer_def find_char_def)
qed

lemma hostOfPeer_v6: "CHR '']'' \<notin> set host \<Longrightarrow> hostOfPeer (CHR ''['' # host @ CHR '']'' # rest) = host"
proof -
  assume a: "CHR '']'' \<notin> set host"
  have "takeWhile (\<lambda>x. x \<noteq> CHR '']'') (host @ CHR '']'' # rest) = host"
    using a by (subst takeWhile_append2) auto
  then show ?thesis by (simp add: hostOfPeer_def find_char_def)
qed

text \<open>A conversion for examples: two letters a byte.\<close>

definition letters :: "byte list \<Rightarrow> string" where
  "letters bs = concat (map (\<lambda>b. [char_of (65 + unat b div 16), char_of (65 + unat b mod 16)]) bs)"

fun unletters :: "string \<Rightarrow> byte list" where
  "unletters (a # b # s) = of_nat (16 * (of_char a - 65) + (of_char b - 65)) # unletters s"
| "unletters _ = []"

definition letter_inet :: inet where
  "letter_inet = \<lparr>pton4 = (\<lambda>s. if length s = 8 then Some (unletters s) else None),
     pton6 = (\<lambda>s. if length s = 32 then Some (unletters s) else None), ntop4 = letters, ntop6 = letters\<rparr>"

lemma length_letters: "length (letters bs) = 2 * length bs"
  by (induction bs) (simp_all add: letters_def)

lemma unletters_length: "length (unletters s) = length s div 2"
  by (induction s rule: unletters.induct) simp_all

lemma unletters_letters: "unletters (letters bs) = bs"
proof (induction bs)
  case (Cons b bs)
  have "unat b < 256" using unsigned_less [of b, where ?'a = nat] by simp
  then have "unat b div 16 < 16" by simp
  then have "(of_char (char_of (65 + unat b div 16)) :: nat) = 65 + unat b div 16"
    "(of_char (char_of (65 + unat b mod 16)) :: nat) = 65 + unat b mod 16"
    by (simp_all add: less_imp_le)
  then show ?case using Cons by (simp add: letters_def)
qed (simp add: letters_def)

lemma letters_no_nul: "CHR 0x00 \<notin> set (letters bs)"
proof -
  have nz: "CHR 0x00 \<noteq> char_of (65 + k)" if "k < 16" for k :: nat
  proof
    assume "CHR 0x00 = char_of (65 + k)"
    then have "(of_char (CHR 0x00) :: nat) = (65 + k) mod 256" by (simp add: of_char_of)
    with that show False by simp
  qed
  have "unat b div 16 < 16" for b :: byte using unsigned_less [of b, where ?'a = nat] by (simp add: less_mult_imp_div_less)
  then show ?thesis using nz by (auto simp: letters_def)
qed

lemma letter_inet_ok: "inet_ok letter_inet"
  using letters_no_nul by (auto simp: inet_ok_def letter_inet_def unletters_length length_letters unletters_letters simp flip: length_greater_0_conv)

end
