(* ===== verification/Auth.thy ===== *)
theory Auth
  imports Snapshot Fsutil Netaddr
begin

text \<open>
  \<open>backend/src/auth/auth.cpp\<close>: accounts, roles, tenant domains and bearer tokens.  The
  password hashing and the random bytes of libsodium are arguments: what \<open>crypto_pwhash_str\<close>
  made of the password (\<open>None\<close> on failure), the predicate \<open>crypto_pwhash_str_verify\<close>
  decides, and the 32 bytes drawn.  An operation gives its answer (\<open>None\<close> where the kernel
  script of the save runs out, otherwise \<open>Some None\<close> for true and \<open>Some (Some err)\<close> for
  false), the accounts and the disk.
\<close>

section \<open>Accounts\<close>

record user =
  u_hash :: string
  u_role :: string
  u_domain :: string

record auth =
  users_path :: string
  mUsers :: "(string, user) omap"
  mTokens :: "string \<rightharpoonup> string"

record user_info =
  ui_username :: string
  ui_role :: string
  ui_domain :: string

type_synonym answer = "string option option"

definition valid_char :: "char \<Rightarrow> bool" where
  "valid_char c \<longleftrightarrow> (let n = of_char c :: nat in (97 \<le> n \<and> n \<le> 122) \<or> (65 \<le> n \<and> n \<le> 90) \<or> (48 \<le> n \<and> n \<le> 57)
     \<or> c = CHR ''_'' \<or> c = CHR ''.'' \<or> c = CHR ''-'')"

definition validUsername :: "string \<Rightarrow> bool" where
  "validUsername u \<longleftrightarrow> \<not> (length u < 3 \<or> length u > 32) \<and> list_all valid_char u"

section \<open>The users file\<close>

text \<open>\<open>.arr\<close> of a value, empty unless it is an array.\<close>

definition arr_of :: "json \<Rightarrow> json list" where
  "arr_of j = (case j of Array vs \<Rightarrow> vs | _ \<Rightarrow> [])"

definition load_user :: "json \<Rightarrow> (string, user) omap \<Rightarrow> (string, user) omap" where
  "load_user u m =
     (let name = getStr ''username'' '''' u; h = getStr ''hash'' '''' u; role = getStr ''role'' ''user'' u;
          tenant = getStr ''domain'' ''default'' u
      in if name \<noteq> [] \<and> h \<noteq> []
         then om_set name \<lparr>u_hash = h, u_role = (if role \<noteq> ''admin'' then ''user'' else role),
                u_domain = or_else tenant ''default''\<rparr> m
         else m)"

definition auth_init :: "bool \<Rightarrow> string \<Rightarrow> disk \<Rightarrow> string + auth" where
  "auth_init sodium_ok usersFile d =
     (if \<not> sodium_ok then Inl ''libsodium initialization failed''
      else case d usersFile of
        None \<Rightarrow> Inr \<lparr>users_path = usersFile, mUsers = [], mTokens = (\<lambda>_. None)\<rparr>
      | Some s \<Rightarrow>
          (case parse s of
             Inl perr \<Rightarrow> Inl (cat [''cannot parse '', usersFile, '': '', perr])
           | Inr Null \<Rightarrow> Inl (cat [''cannot parse '', usersFile, '': ''])
           | Inr j \<Rightarrow> Inr \<lparr>users_path = usersFile,
               mUsers = (case get ''users'' j of None \<Rightarrow> [] | Some us \<Rightarrow> fold load_user (arr_of us) []),
               mTokens = (\<lambda>_. None)\<rparr>))"

definition users_json :: "auth \<Rightarrow> string" where
  "users_json a = mOut (obj [kv ''users'' (arr (map (\<lambda>(name, u). obj [
     kv_str ''username'' name, kv_str ''hash'' (u_hash u), kv_str ''role'' (u_role u),
     kv_str ''domain'' (or_else (u_domain u) ''default'')]) (mUsers a)))] JsonWriter)"

definition save :: "io_script \<Rightarrow> auth \<times> disk \<Rightarrow> answer \<times> auth \<times> disk" where
  "save io = (\<lambda>(a, d). (fst (writeFileAtomic (users_path a) (users_json a) io d), a,
     disk_after (users_path a) (users_json a) io d))"

definition refuse :: "string \<Rightarrow> auth \<times> disk \<Rightarrow> answer \<times> auth \<times> disk" where
  "refuse err s = (Some (Some err), s)"

section \<open>Operations\<close>

definition registerUser ::
    "io_script \<Rightarrow> string option \<Rightarrow> string \<Rightarrow> string \<Rightarrow> string \<Rightarrow> string \<Rightarrow> auth \<times> disk \<Rightarrow> answer \<times> auth \<times> disk" where
  "registerUser io hashed username password rl tenant = (\<lambda>(a, d).
     if \<not> validUsername username then refuse ''username must be 3-32 chars of [a-zA-Z0-9_.-]'' (a, d)
     else if length password < 8 then refuse ''password must be at least 8 characters'' (a, d)
     else if om_get (mUsers a) username \<noteq> None then refuse ''username already exists'' (a, d)
     else case hashed of
       None \<Rightarrow> refuse ''hashing failed (out of memory?)'' (a, d)
     | Some h \<Rightarrow> save io (a\<lparr>mUsers := om_set username
           \<lparr>u_hash = c_str h, u_role = (if rl = ''admin'' then ''admin'' else ''user''),
             u_domain = or_else tenant ''default''\<rparr> (mUsers a)\<rparr>, d))"

definition roleOf :: "string \<Rightarrow> auth \<Rightarrow> string" where
  "roleOf username a = (case om_get (mUsers a) username of None \<Rightarrow> '''' | Some u \<Rightarrow> u_role u)"

definition domainOf :: "string \<Rightarrow> auth \<Rightarrow> string" where
  "domainOf username a = (case om_get (mUsers a) username of None \<Rightarrow> '''' | Some u \<Rightarrow> or_else (u_domain u) ''default'')"

definition infoOf :: "string \<Rightarrow> auth \<Rightarrow> user_info" where
  "infoOf username a = (case om_get (mUsers a) username of
     None \<Rightarrow> \<lparr>ui_username = '''', ui_role = '''', ui_domain = ''''\<rparr>
   | Some u \<Rightarrow> \<lparr>ui_username = username, ui_role = u_role u, ui_domain = or_else (u_domain u) ''default''\<rparr>)"

definition setDomain :: "io_script \<Rightarrow> string \<Rightarrow> string \<Rightarrow> auth \<times> disk \<Rightarrow> answer \<times> auth \<times> disk" where
  "setDomain io username tenant = (\<lambda>(a, d).
     case om_get (mUsers a) username of
       None \<Rightarrow> refuse ''no such user'' (a, d)
     | Some u \<Rightarrow> save io (a\<lparr>mUsers := om_set username (u\<lparr>u_domain := or_else tenant ''default''\<rparr>) (mUsers a)\<rparr>, d))"

definition list_users :: "auth \<Rightarrow> user_info list" where
  "list_users a = map (\<lambda>(name, u). \<lparr>ui_username = name, ui_role = u_role u,
     ui_domain = or_else (u_domain u) ''default''\<rparr>) (mUsers a)"

definition is_admin :: "user \<Rightarrow> bool" where
  "is_admin u \<longleftrightarrow> u_role u = ''admin''"

definition hasAdmin :: "auth \<Rightarrow> bool" where
  "hasAdmin a \<longleftrightarrow> list_ex (\<lambda>(n, u). is_admin u) (mUsers a)"

definition deleteUser :: "io_script \<Rightarrow> string \<Rightarrow> auth \<times> disk \<Rightarrow> answer \<times> auth \<times> disk" where
  "deleteUser io username = (\<lambda>(a, d).
     case om_get (mUsers a) username of
       None \<Rightarrow> refuse ''no such user'' (a, d)
     | Some u \<Rightarrow>
         if is_admin u \<and> length (filter (\<lambda>(n, u). is_admin u) (mUsers a)) \<le> 1
         then refuse ''cannot delete the last admin'' (a, d)
         else save io (a\<lparr>mUsers := om_del username (mUsers a),
           mTokens := (\<lambda>t. if mTokens a t = Some username then None else mTokens a t)\<rparr>, d))"

definition ensureAdmin ::
    "io_script \<Rightarrow> string option \<Rightarrow> string \<Rightarrow> string \<Rightarrow> auth \<times> disk \<Rightarrow> answer \<times> auth \<times> disk" where
  "ensureAdmin io hashed username password = (\<lambda>(a, d).
     case om_get (mUsers a) username of
       Some u \<Rightarrow> if is_admin u then (Some None, a, d)
                else save io (a\<lparr>mUsers := om_set username (u\<lparr>u_role := ''admin''\<rparr>) (mUsers a)\<rparr>, d)
     | None \<Rightarrow> registerUser io hashed username password ''admin'' ''default'' (a, d))"

definition login :: "(string \<Rightarrow> string \<Rightarrow> bool) \<Rightarrow> byte list \<Rightarrow> string \<Rightarrow> string \<Rightarrow> auth \<Rightarrow> string option \<times> auth" where
  "login verify rnd username password a =
     (case om_get (mUsers a) username of
        None \<Rightarrow> (None, a)
      | Some u \<Rightarrow>
          if \<not> verify (u_hash u) password then (None, a)
          else (Some (hexDump rnd), a\<lparr>mTokens := (mTokens a)(hexDump rnd \<mapsto> username)\<rparr>))"

definition check_token :: "string \<Rightarrow> auth \<Rightarrow> string" where
  "check_token token a = (if token = [] then '''' else case mTokens a token of None \<Rightarrow> '''' | Some n \<Rightarrow> n)"

definition logout :: "string \<Rightarrow> auth \<Rightarrow> auth" where
  "logout token a = a\<lparr>mTokens := (mTokens a)(token := None)\<rparr>"

section \<open>The invariant\<close>

definition user_ok :: "string \<Rightarrow> user \<Rightarrow> bool" where
  "user_ok name u \<longleftrightarrow> name \<noteq> [] \<and> u_hash u \<noteq> [] \<and> u_role u \<in> {''admin'', ''user''} \<and> u_domain u \<noteq> []"

definition auth_inv :: "auth \<Rightarrow> bool" where
  "auth_inv a \<longleftrightarrow> om_ok (mUsers a) \<and> om_all user_ok (mUsers a) \<and>
     (\<forall>t n. mTokens a t = Some n \<longrightarrow> om_get (mUsers a) n \<noteq> None)"

lemma save_auth [simp]: "fst (snd (save io (a, d))) = a"
  by (simp add: save_def)

lemma refuse_simps [simp]: "fst (snd (refuse e s)) = fst s" "fst (refuse e s) = Some (Some e)" "snd (refuse e s) = s"
  by (simp_all add: refuse_def)

lemma or_else_nonempty [simp]: "b \<noteq> [] \<Longrightarrow> or_else s b \<noteq> []"
  by (simp add: or_else_def)

lemma load_user_ok: "om_ok m \<and> om_all user_ok m \<Longrightarrow> om_ok (load_user u m) \<and> om_all user_ok (load_user u m)"
  by (simp add: load_user_def Let_def om_all_set user_ok_def)

lemma load_users_ok: "om_ok m \<and> om_all user_ok m \<Longrightarrow> om_ok (fold load_user us m) \<and> om_all user_ok (fold load_user us m)"
  by (induction us arbitrary: m) (simp_all add: load_user_ok)

lemma init_inv: "auth_init ok p d = Inr a \<Longrightarrow> auth_inv a"
proof -
  have "om_ok (fold load_user us []) \<and> om_all user_ok (fold load_user us [])" for us
    by (rule load_users_ok) simp
  moreover assume "auth_init ok p d = Inr a"
  ultimately show ?thesis
    by (auto simp: auth_init_def auth_inv_def split: if_splits option.splits sum.splits json.splits)
qed

text \<open>Setting a user with a good record keeps the invariant.\<close>

lemma set_user_inv:
  assumes "auth_inv a" and "user_ok n u"
  shows "auth_inv (a\<lparr>mUsers := om_set n u (mUsers a)\<rparr>)"
  using assms by (auto simp: auth_inv_def om_all_set om_get_set)

lemma valid_nonempty: "validUsername u \<Longrightarrow> u \<noteq> []"
  by (auto simp: validUsername_def)

lemma register_inv:
  assumes "auth_inv a" and "\<forall>h. hashed = Some h \<longrightarrow> c_str h \<noteq> []"
  shows "auth_inv (fst (snd (registerUser io hashed n pw rl tenant (a, d))))"
  using assms by (auto simp: registerUser_def user_ok_def valid_nonempty intro: set_user_inv split: option.split)

lemma get_user_ok: "auth_inv a \<Longrightarrow> om_get (mUsers a) n = Some u \<Longrightarrow> user_ok n u"
  by (auto simp: auth_inv_def dest: om_all_get)

lemma setDomain_inv: "auth_inv a \<Longrightarrow> auth_inv (fst (snd (setDomain io n tenant (a, d))))"
  by (auto simp: setDomain_def split: option.split dest!: get_user_ok intro!: set_user_inv simp: user_ok_def)

lemma ensureAdmin_inv:
  assumes "auth_inv a" and "\<forall>h. hashed = Some h \<longrightarrow> c_str h \<noteq> []"
  shows "auth_inv (fst (snd (ensureAdmin io hashed n pw (a, d))))"
  using assms register_inv [OF assms]
  by (auto simp: ensureAdmin_def split: option.split dest!: get_user_ok intro!: set_user_inv simp: user_ok_def)

lemma deleteUser_inv: "auth_inv a \<Longrightarrow> auth_inv (fst (snd (deleteUser io n (a, d))))"
  by (auto simp: deleteUser_def auth_inv_def om_all_del om_get_del split: option.split)

lemma login_inv: "auth_inv a \<Longrightarrow> auth_inv (snd (login verify rnd n pw a))"
  by (auto simp: login_def auth_inv_def split: option.split)

lemma logout_inv: "auth_inv a \<Longrightarrow> auth_inv (logout t a)"
  by (auto simp: logout_def auth_inv_def split: if_splits)

section \<open>The last administrator stays\<close>

lemma hasAdmin_filter: "hasAdmin a \<longleftrightarrow> filter (\<lambda>(n, u). is_admin u) (mUsers a) \<noteq> []"
  by (auto simp: hasAdmin_def list_ex_iff filter_empty_conv)

lemma other_admin:
  assumes "om_ok m" and "1 < length (filter P m)"
  shows "\<exists>x \<in> set m. P x \<and> fst x \<noteq> k"
proof (rule ccontr)
  assume "\<not> ?thesis"
  then have k: "fst x = k" if "x \<in> set (filter P m)" for x using that by auto
  have "distinct (map fst (filter P m))" using assms(1) by (simp add: om_ok_def distinct_map_filter)
  moreover obtain x y xs where f: "filter P m = x # y # xs" using assms(2)
    by (cases "filter P m" rule: remdups_adj.cases) auto
  ultimately have "fst x \<noteq> fst y" by simp
  with k [of x] k [of y] f show False by simp
qed

lemma hasAdmin_delete:
  assumes "auth_inv a" and "hasAdmin a"
  shows "hasAdmin (fst (snd (deleteUser io n (a, d))))"
proof (cases "om_get (mUsers a) n")
  case (Some u)
  show ?thesis
  proof (cases "is_admin u \<and> length (filter (\<lambda>(n, u). is_admin u) (mUsers a)) \<le> 1")
    case False
    have ok: "om_ok (mUsers a)" using assms(1) by (simp add: auth_inv_def)
    have "\<exists>x \<in> set (mUsers a). (\<lambda>(n, u). is_admin u) x \<and> fst x \<noteq> n"
    proof (cases "is_admin u")
      case True
      with False show ?thesis by (intro other_admin [OF ok]) simp
    next
      case user: False
      obtain m v where v: "(m, v) \<in> set (mUsers a)" "is_admin v" using assms(2) by (auto simp: hasAdmin_def list_ex_iff)
      then have "m \<noteq> n" using user Some om_get_iff_in [OF ok, of m v] by auto
      with v show ?thesis by force
    qed
    then show ?thesis using False Some by (force simp: deleteUser_def hasAdmin_def list_ex_iff)
  qed (use assms(2) Some in \<open>simp add: deleteUser_def\<close>)
qed (use assms(2) in \<open>simp add: deleteUser_def\<close>)

section \<open>Tokens\<close>

lemma login_check:
  assumes "login verify rnd n pw a = (Some t, a')" and "rnd \<noteq> []"
  shows "check_token t a' = n \<and> (\<exists>u. om_get (mUsers a) n = Some u \<and> verify (u_hash u) pw)"
proof -
  have "hexDump rnd \<noteq> []" using assms(2) by (cases rnd) (simp_all add: hexDump_def)
  with assms(1) show ?thesis by (auto simp: login_def check_token_def split: option.splits if_splits)
qed

lemma logout_check: "check_token t (logout t a) = ''''"
  by (simp add: check_token_def logout_def)

text \<open>Who a token belongs to is an existing account.\<close>

lemma check_known: "auth_inv a \<Longrightarrow> check_token t a \<noteq> '''' \<Longrightarrow> om_get (mUsers a) (check_token t a) \<noteq> None"
  by (auto simp: check_token_def auth_inv_def split: option.splits if_splits)

lemma deleted_no_token:
  assumes "auth_inv a" and "om_get (mUsers (fst (snd (deleteUser io n (a, d))))) n = None"
  shows "check_token t (fst (snd (deleteUser io n (a, d)))) \<noteq> n \<or> n = ''''"
  using check_known [OF deleteUser_inv [OF assms(1), of io n d], of t] assms(2) by metis

section \<open>The users file reads back\<close>

definition user_doc :: "string \<times> user \<Rightarrow> doc" where
  "user_doc = (\<lambda>(name, u). DObj [(''username'', DStr name), (''hash'', DStr (u_hash u)), (''role'', DStr (u_role u)),
     (''domain'', DStr (or_else (u_domain u) ''default''))])"

definition users_doc :: "auth \<Rightarrow> doc" where
  "users_doc a = DObj [(''users'', DArr (map user_doc (mUsers a)))]"

lemma run_fold: "run fs = fold (\<lambda>f. f) fs"
  by (rule ext) (simp add: run_def)

lemma run_docs: "run (map (\<lambda>x. emit_doc (f x)) xs) = fold emit_doc (map f xs)"
  by (induction xs) (simp_all add: run_Nil run_Cons id_def comp_def)

lemma user_doc_writes: "obj [kv_str ''username'' n, kv_str ''hash'' (u_hash u), kv_str ''role'' (u_role u),
    kv_str ''domain'' (or_else (u_domain u) ''default'')] = emit_doc (user_doc (n, u))"
  by (rule ext) (simp add: user_doc_def obj_def run_def kv_str_def kv_def)

lemma users_json_doc: "users_json a = mOut (emit_doc (users_doc a) JsonWriter)"
proof -
  have "(\<lambda>(name, u). obj [kv_str ''username'' name, kv_str ''hash'' (u_hash u), kv_str ''role'' (u_role u),
      kv_str ''domain'' (or_else (u_domain u) ''default'')]) = (\<lambda>p. emit_doc (user_doc p))"
    by (simp add: user_doc_writes case_prod_beta fun_eq_iff)
  then have "users_json a = mOut (obj [kv ''users'' (arr (map (\<lambda>p. emit_doc (user_doc p)) (mUsers a)))] JsonWriter)"
    unfolding users_json_def by simp
  then show ?thesis
    by (simp add: users_doc_def obj_def arr_def kv_def run_docs run_Cons run_Nil)
qed

lemma om_set_snoc: "om_ok (m @ [(k, v)]) \<Longrightarrow> om_set k v m = m @ [(k, v)]"
  by (induction k v m rule: om_set.induct) (auto simp: om_ok_Cons)

lemma om_ok_butlast: "om_ok (m @ [x]) \<Longrightarrow> om_ok m"
  by (auto simp: om_ok_def sorted_append)

lemma reload_users:
  assumes "om_ok m" and "om_all user_ok m"
  shows "fold load_user (map (value_of \<circ> user_doc) m) [] = m"
  using assms
proof (induction m rule: rev_induct)
  case (snoc x m)
  obtain n u where x: "x = (n, u)" by force
  have u: "user_ok n u" using snoc.prems(2) by (simp add: om_all_def x)
  have "load_user (value_of (user_doc (n, u))) m = om_set n u m"
    using u by (cases u) (auto simp: load_user_def user_doc_def getStr_def user_ok_def or_else_def)
  with snoc om_set_snoc [of m n u] om_ok_butlast [OF snoc.prems(1)] show ?case
    by (simp add: x om_all_def)
qed simp

lemma auth_persists:
  assumes "auth_inv a" and "length (users_json a) \<le> 1024 * 1024" and "d p = Some (users_json a)"
  shows "auth_init True p d = Inr \<lparr>users_path = p, mUsers = mUsers a, mTokens = (\<lambda>_. None)\<rparr>"
proof -
  have "good (Suc (Suc (Suc (Suc n)))) (users_doc a)" for n
    by (auto simp: users_doc_def user_doc_def)
  from this [of 61] have "good 65 (users_doc a)" by simp
  then have "parse (users_json a) = Inr (value_of (users_doc a))"
    using writer_parses assms(2) unfolding users_json_doc by blast
  moreover have "fold load_user (map (value_of \<circ> user_doc) (mUsers a)) [] = mUsers a"
    using assms(1) by (intro reload_users) (simp_all add: auth_inv_def)
  ultimately show ?thesis
    using assms(3) by (simp add: auth_init_def users_doc_def arr_of_def comp_def)
qed

text \<open>A users file past the parser's megabyte is written but not read again.\<close>

lemma auth_oversize:
  assumes "1024 * 1024 < length (users_json a)" and "d p = Some (users_json a)"
  shows "auth_init True p d = Inl (cat [''cannot parse '', p, '': '', ''JSON body too large''])"
  using assms by (simp add: auth_init_def parse_def)

text \<open>A registration whose save fails answers false and keeps the account.\<close>

lemma failed_save_keeps_user:
  assumes "validUsername n" and "8 \<le> length pw" and "om_get (mUsers a) n = None" and "io_open io = Some e"
  shows "\<exists>m. registerUser io (Some h) n pw rl tenant (a, d) = (Some (Some m), a\<lparr>mUsers := om_set n
      \<lparr>u_hash = c_str h, u_role = (if rl = ''admin'' then ''admin'' else ''user''),
       u_domain = or_else tenant ''default''\<rparr> (mUsers a)\<rparr>, d)"
  using assms by (simp add: registerUser_def save_def writeFileAtomic_def replace_calls_def Let_def disk_after_def)

end
