(* ===== verification/Store.thy ===== *)
theory Store
  imports Auth
begin

text \<open>
  \<open>backend/src/store/store.cpp\<close>: the library of captures, the sessions, the tenant domains and
  the device names, in memory and on disk.  What the operating system answers is the record
  \<open>env\<close>: the errors of \<open>create_directories\<close> and \<open>copy_file\<close>, how a file opened for writing
  behaves, how many of the last bytes written to a stream do not reach its file because the
  flush in the destructor fails (which nobody looks at), the paths it fails to remove (the
  errors of \<open>remove\<close> and \<open>remove_all\<close> are ignored), the kernel scripts of the two index files,
  and the formatted time.  A disk maps paths to contents; directories are the prefixes of paths.
\<close>

section \<open>Metadata\<close>

record pcap_meta =
  pm_id :: string
  pm_name :: string
  pm_uploadedAt :: string
  pm_size :: u64
  pm_folder :: string
  pm_domain :: string

record session_meta =
  ss_id :: string
  ss_name :: string
  ss_pcapId :: string
  ss_path :: string
  ss_createdAt :: string
  ss_pcapIds :: "string list"
  ss_pcapAliases :: "string list"
  ss_resolvedPath :: string
  ss_domain :: string

record session_source =
  src_pcapId :: string
  src_name :: string
  src_alias :: string

record domain_meta =
  dm_id :: string
  dm_name :: string
  dm_owner :: string
  dm_createdAt :: string

record store =
  mDataDir :: string
  mNextPcap :: u64
  mNextSession :: u64
  mPcaps :: "pcap_meta list"
  st_sessions :: "session_meta list"
  mDeviceNames :: "(string, (string, string) omap) omap"
  mPcapFolders :: "(string \<times> string) list"
  st_domains :: "domain_meta list"
  mPcapRoot :: string

record env =
  env_mkdir :: "string \<Rightarrow> bool"
  env_mkdirs :: "string \<Rightarrow> string option"
  env_copy :: "string \<Rightarrow> string \<Rightarrow> string option"
  env_stream :: "string \<Rightarrow> Pcap_Reader.disk"
  env_lost :: "string \<Rightarrow> nat"
  env_stuck :: "string \<Rightarrow> bool"
  env_meta :: io_script
  env_devices :: io_script
  env_now :: string

type_synonym files = Fsutil.disk

definition validFolderName :: "string \<Rightarrow> bool" where
  "validFolderName name \<longleftrightarrow> \<not> (name = [] \<or> length name > 64 \<or> hd name = CHR ''.'') \<and>
     list_all (\<lambda>c. \<not> (c = CHR ''/'' \<or> c = backslash \<or> (of_char c :: nat) < 0x20)) name"

definition domain_char :: "char \<Rightarrow> bool" where
  "domain_char c \<longleftrightarrow> (let n = of_char c :: nat in (97 \<le> n \<and> n \<le> 122) \<or> (48 \<le> n \<and> n \<le> 57) \<or> c = CHR ''-'')"

definition validDomainId :: "string \<Rightarrow> bool" where
  "validDomainId i \<longleftrightarrow> \<not> (length i < 1 \<or> length i > 32) \<and>
     \<not> ((of_char (hd i) :: nat) < 97 \<or> (of_char (hd i) :: nat) > 122) \<and> list_all domain_char i \<and>
     i \<noteq> ''default'' \<and> i \<noteq> ''domains'' \<and> i \<noteq> ''pcaps'' \<and> i \<noteq> ''sessions''"

section \<open>Paths\<close>

definition pcapRoot :: "store \<Rightarrow> string" where
  "pcapRoot s = (if mPcapRoot s = [] then mDataDir s @ ''/pcaps'' else mPcapRoot s)"

definition pcapRelPath :: "pcap_meta \<Rightarrow> string" where
  "pcapRelPath p = (if pm_domain p = ''default'' then '''' else ''domains/'' @ pm_domain p @ ''/'') @ pm_id p @ ''.pcap''"

definition pcap_path :: "store \<Rightarrow> pcap_meta \<Rightarrow> string" where
  "pcap_path s p = pcapRoot s @ ''/'' @ pcapRelPath p"

definition find_pcap :: "string \<Rightarrow> store \<Rightarrow> pcap_meta option" where
  "find_pcap i s = find (\<lambda>p. pm_id p = i) (mPcaps s)"

definition pcapPath :: "string \<Rightarrow> store \<Rightarrow> string" where
  "pcapPath i s = (case find_pcap i s of Some p \<Rightarrow> pcap_path s p | None \<Rightarrow> pcapRoot s @ ''/'' @ i @ ''.pcap'')"

definition sessionDir :: "store \<Rightarrow> string \<Rightarrow> string" where
  "sessionDir s i = mDataDir s @ ''/sessions/'' @ i"

definition sessionPcapPath :: "store \<Rightarrow> string \<Rightarrow> string" where
  "sessionPcapPath s i = sessionDir s i @ ''/capture.pcap''"

definition sessionSrcMapPath :: "store \<Rightarrow> string \<Rightarrow> string" where
  "sessionSrcMapPath s i = sessionDir s i @ ''/capture.src''"

definition sessionNotesPath :: "store \<Rightarrow> string \<Rightarrow> string" where
  "sessionNotesPath s i = sessionDir s i @ ''/notes.md''"

section \<open>The disk\<close>

definition remove_file :: "env \<Rightarrow> string \<Rightarrow> files \<Rightarrow> files" where
  "remove_file e p d = (if env_stuck e p then d else d(p := None))"

definition remove_tree :: "env \<Rightarrow> string \<Rightarrow> files \<Rightarrow> files" where
  "remove_tree e dir d = (\<lambda>p. if (p = dir \<or> take (length dir + 1) p = dir @ ''/'') \<and> \<not> env_stuck e p then None else d p)"

definition copy_file :: "env \<Rightarrow> string \<Rightarrow> string \<Rightarrow> files \<Rightarrow> string + files" where
  "copy_file e src dst d =
     (case env_copy e src dst of
        Some msg \<Rightarrow> Inl msg
      | None \<Rightarrow> (case d src of None \<Rightarrow> Inl ''No such file or directory'' | Some x \<Rightarrow> Inr (d(dst \<mapsto> x))))"

text \<open>What reaches a file through a stream that is only flushed by its destructor.\<close>

definition reached :: "env \<Rightarrow> string \<Rightarrow> string \<Rightarrow> string" where
  "reached e p x = take (length x - env_lost e p) x"

text \<open>A stream opened with \<open>trunc\<close> and written: what is left of the file.\<close>

definition stream_out :: "env \<Rightarrow> string \<Rightarrow> string \<Rightarrow> files \<Rightarrow> files" where
  "stream_out e p x d = (if env_stream e p = CannotOpen then d else d(p \<mapsto> reached e p x))"

section \<open>The index files\<close>

definition tenant_json :: "domain_meta \<Rightarrow> writer \<Rightarrow> writer" where
  "tenant_json m = obj [kv_str ''id'' (dm_id m), kv_str ''name'' (dm_name m), kv_str ''owner'' (dm_owner m),
     kv_str ''created_at'' (dm_createdAt m)]"

definition folder_json :: "string \<times> string \<Rightarrow> writer \<Rightarrow> writer" where
  "folder_json f = obj [kv_str ''domain'' (fst f), kv_str ''name'' (snd f)]"

definition pcap_json :: "pcap_meta \<Rightarrow> writer \<Rightarrow> writer" where
  "pcap_json p = obj ([kv_str ''id'' (pm_id p), kv_str ''name'' (pm_name p), kv_str ''uploaded_at'' (pm_uploadedAt p),
     kv_u64 ''size'' (pm_size p)] @
     (if pm_folder p \<noteq> [] then [kv_str ''folder'' (pm_folder p)] else []) @
     (if pm_domain p \<noteq> ''default'' then [kv_str ''domain'' (pm_domain p)] else []))"

definition session_json :: "session_meta \<Rightarrow> writer \<Rightarrow> writer" where
  "session_json m = obj ([kv_str ''id'' (ss_id m), kv_str ''name'' (ss_name m), kv_str ''pcap_id'' (ss_pcapId m),
     kv_str ''path'' (ss_path m), kv_str ''created_at'' (ss_createdAt m)] @
     (if ss_domain m \<noteq> ''default'' then [kv_str ''domain'' (ss_domain m)] else []) @
     (if ss_pcapIds m \<noteq> [] then [kv ''pcap_ids'' (arr (map value_str (ss_pcapIds m))),
        kv ''pcap_aliases'' (arr (map value_str (ss_pcapAliases m)))] else []))"

definition meta_json :: "store \<Rightarrow> string" where
  "meta_json s = mOut (obj ([kv_u64 ''next_pcap'' (mNextPcap s), kv_u64 ''next_session'' (mNextSession s)] @
     (if mPcapRoot s \<noteq> [] then [kv_str ''pcap_root'' (mPcapRoot s)] else []) @
     (if st_domains s \<noteq> [] then [kv ''domains'' (arr (map tenant_json (st_domains s)))] else []) @
     (if mPcapFolders s \<noteq> [] then [kv ''pcap_folders'' (arr (map folder_json (mPcapFolders s)))] else []) @
     [kv ''pcaps'' (arr (map pcap_json (mPcaps s))), kv ''sessions'' (arr (map session_json (st_sessions s)))]) JsonWriter)"

definition meta_path :: "store \<Rightarrow> string" where
  "meta_path s = mDataDir s @ ''/meta.json''"

definition store_save :: "env \<Rightarrow> store \<Rightarrow> files \<Rightarrow> answer \<times> files" where
  "store_save e s d = (fst (writeFileAtomic (meta_path s) (meta_json s) (env_meta e) d),
     disk_after (meta_path s) (meta_json s) (env_meta e) d)"

definition names_json :: "store \<Rightarrow> string" where
  "names_json s = mOut (obj (map (\<lambda>(tenant, names). kv tenant (obj (map (\<lambda>(mac, name). kv_str mac name) names)))
     (mDeviceNames s)) JsonWriter)"

definition devices_path :: "store \<Rightarrow> string" where
  "devices_path s = mDataDir s @ ''/devices.json''"

definition saveDeviceNames :: "env \<Rightarrow> store \<Rightarrow> files \<Rightarrow> answer \<times> files" where
  "saveDeviceNames e s d = (fst (writeFileAtomic (devices_path s) (names_json s) (env_devices e) d),
     disk_after (devices_path s) (names_json s) (env_devices e) d)"

section \<open>Loading\<close>

text \<open>The nearest number with 53 significant bits, ties to the even one.\<close>

definition dbl :: "real \<Rightarrow> real" where
  "dbl x = (if x = 0 then 0 else let u = 2 powi (\<lfloor>log 2 \<bar>x\<bar>\<rfloor> - 52) in of_int (round_half_even (x / u)) * u)"

text \<open>A number of a document cast to \<open>uint64_t\<close>: it was read into a \<open>double\<close>, and the cast drops the
  fraction; past the range, where C++ says nothing, it wraps.\<close>

definition num_u64 :: "double \<Rightarrow> u64" where
  "num_u64 x = word_of_int (let y = dbl x in if y < 0 then \<lceil>y\<rceil> else \<lfloor>y\<rfloor>)"

definition obj_of :: "json \<Rightarrow> (string \<times> json) list" where
  "obj_of j = (case j of Object kvs \<Rightarrow> kvs | _ \<Rightarrow> [])"

definition str_of :: "json \<Rightarrow> string" where
  "str_of j = (case j of Str s \<Rightarrow> s | _ \<Rightarrow> [])"

definition member_arr :: "string \<Rightarrow> json \<Rightarrow> json list" where
  "member_arr k j = (case get k j of None \<Rightarrow> [] | Some v \<Rightarrow> arr_of v)"

definition domain_of :: "json \<Rightarrow> string" where
  "domain_of j = or_else (getStr ''domain'' ''default'' j) ''default''"

definition set_name :: "string \<Rightarrow> string \<Rightarrow> string \<Rightarrow> (string, (string, string) omap) omap \<Rightarrow> (string, (string, string) omap) omap" where
  "set_name tenant mac name m = om_set tenant (om_set mac name (om_at [] m tenant)) m"

text \<open>One member of \<open>devices.json\<close>: a flat name, or a domain's object of names.\<close>

definition load_names :: "string \<times> json \<Rightarrow> (string, (string, string) omap) omap \<Rightarrow> (string, (string, string) omap) omap" where
  "load_names = (\<lambda>(k, v) m. case v of
     Str s \<Rightarrow> if s \<noteq> [] then set_name ''default'' k s m else m
   | Object kvs \<Rightarrow> fold (\<lambda>(mac, j) m. case j of Str s \<Rightarrow> if s \<noteq> [] then set_name k mac s m else m | _ \<Rightarrow> m) kvs m
   | _ \<Rightarrow> m)"

definition load_domain :: "json \<Rightarrow> domain_meta list" where
  "load_domain j = (let i = getStr ''id'' '''' j in if i = [] then [] else
     [\<lparr>dm_id = i, dm_name = getStr ''name'' '''' j, dm_owner = getStr ''owner'' '''' j,
       dm_createdAt = getStr ''created_at'' '''' j\<rparr>])"

definition load_folder :: "json \<Rightarrow> (string \<times> string) list" where
  "load_folder j = (case j of
     Str s \<Rightarrow> if s = [] then [] else [(''default'', s)]
   | _ \<Rightarrow> (let name = getStr ''name'' '''' j in if name = [] then [] else [(domain_of j, name)]))"

definition load_pcap :: "json \<Rightarrow> pcap_meta" where
  "load_pcap j = \<lparr>pm_id = getStr ''id'' '''' j, pm_name = getStr ''name'' '''' j, pm_uploadedAt = getStr ''uploaded_at'' '''' j,
     pm_size = num_u64 (getNum ''size'' 0 j), pm_folder = getStr ''folder'' '''' j, pm_domain = domain_of j\<rparr>"

text \<open>\<open>resize\<close> with empty strings.\<close>

definition resize_strs :: "nat \<Rightarrow> string list \<Rightarrow> string list" where
  "resize_strs n xs = take n xs @ replicate (n - length xs) []"

definition load_session :: "json \<Rightarrow> session_meta" where
  "load_session j =
     (let ids = map str_of (member_arr ''pcap_ids'' j)
      in \<lparr>ss_id = getStr ''id'' '''' j, ss_name = getStr ''name'' '''' j, ss_pcapId = getStr ''pcap_id'' '''' j,
          ss_path = getStr ''path'' '''' j, ss_createdAt = getStr ''created_at'' '''' j, ss_pcapIds = ids,
          ss_pcapAliases = resize_strs (length ids) (map str_of (member_arr ''pcap_aliases'' j)),
          ss_resolvedPath = [], ss_domain = domain_of j\<rparr>)"

definition load_meta :: "env \<Rightarrow> json \<Rightarrow> store \<Rightarrow> store" where
  "load_meta e j s =
     (let rt = getStr ''pcap_root'' '''' j
      in s\<lparr>mNextPcap := num_u64 (getNum ''next_pcap'' 1 j), mNextSession := num_u64 (getNum ''next_session'' 1 j),
           mPcapRoot := (if rt \<noteq> [] \<and> env_mkdirs e rt \<noteq> None then [] else rt),
           st_domains := concat (map load_domain (member_arr ''domains'' j)),
           mPcapFolders := sort (concat (map load_folder (member_arr ''pcap_folders'' j))),
           mPcaps := map load_pcap (member_arr ''pcaps'' j),
           st_sessions := map load_session (member_arr ''sessions'' j)\<rparr>)"

definition Store :: "string \<Rightarrow> store" where
  "Store dataDir = \<lparr>mDataDir = dataDir, mNextPcap = 1, mNextSession = 1, mPcaps = [], st_sessions = [],
     mDeviceNames = [], mPcapFolders = [], st_domains = [], mPcapRoot = []\<rparr>"

definition store_init :: "env \<Rightarrow> string \<Rightarrow> files \<Rightarrow> string + store" where
  "store_init e dataDir d =
     (if \<not> env_mkdir e dataDir then Inl (cat [''cannot create data directory '', dataDir])
      else if \<not> env_mkdir e (dataDir @ ''/pcaps'') then Inl (cat [''cannot create '', dataDir, ''/pcaps''])
      else if \<not> env_mkdir e (dataDir @ ''/sessions'') then Inl (cat [''cannot create '', dataDir, ''/sessions''])
      else let s1 = (Store dataDir)\<lparr>mDeviceNames :=
             (case d (dataDir @ ''/devices.json'') of
                None \<Rightarrow> []
              | Some x \<Rightarrow> (case parse x of Inl _ \<Rightarrow> [] | Inr j \<Rightarrow> fold load_names (obj_of j) []))\<rparr>
           in case d (dataDir @ ''/meta.json'') of
                None \<Rightarrow> Inr s1
              | Some x \<Rightarrow>
                  (case parse x of
                     Inl perr \<Rightarrow> Inl (cat [''cannot parse meta.json: '', perr])
                   | Inr Null \<Rightarrow> Inl (cat [''cannot parse meta.json: '', ''''])
                   | Inr j \<Rightarrow> Inr (load_meta e j s1)))"

section \<open>Domains\<close>

definition domains :: "store \<Rightarrow> domain_meta list" where
  "domains s = \<lparr>dm_id = ''default'', dm_name = ''Default'', dm_owner = '''', dm_createdAt = ''''\<rparr> # st_domains s"

definition hasDomain :: "string \<Rightarrow> store \<Rightarrow> bool" where
  "hasDomain i s \<longleftrightarrow> i = ''default'' \<or> list_ex (\<lambda>m. dm_id m = i) (st_domains s)"

definition domainOwner :: "string \<Rightarrow> store \<Rightarrow> string" where
  "domainOwner i s = (case find (\<lambda>m. dm_id m = i) (st_domains s) of None \<Rightarrow> '''' | Some m \<Rightarrow> dm_owner m)"

type_synonym stored = "answer \<times> store \<times> files"

definition st_refuse :: "string \<Rightarrow> store \<Rightarrow> files \<Rightarrow> stored" where
  "st_refuse err s d = (Some (Some err), s, d)"

text \<open>Save the new state; where the save answers false, go back to the state given.\<close>

definition st_commit :: "env \<Rightarrow> store \<Rightarrow> store \<Rightarrow> files \<Rightarrow> stored" where
  "st_commit e s undo d = (case store_save e s d of
     (Some (Some err), d') \<Rightarrow> (Some (Some err), undo, d') | (r, d') \<Rightarrow> (r, s, d'))"

definition addDomain :: "env \<Rightarrow> string \<Rightarrow> string \<Rightarrow> string \<Rightarrow> store \<times> files \<Rightarrow> stored" where
  "addDomain e i name owner = (\<lambda>(s, d).
     if \<not> validDomainId i then st_refuse ''domain id must match [a-z][a-z0-9-]{0,31} and not be reserved'' s d
     else if list_ex (\<lambda>m. dm_id m = i) (st_domains s) then st_refuse ''domain already exists'' s d
     else case env_mkdirs e (pcapRoot s @ ''/domains/'' @ i) of
       Some msg \<Rightarrow> st_refuse (cat [''cannot create domain storage: '', msg]) s d
     | None \<Rightarrow> st_commit e (s\<lparr>st_domains := st_domains s @ [\<lparr>dm_id = i, dm_name = or_else name i, dm_owner = owner,
         dm_createdAt = env_now e\<rparr>]\<rparr>) s d)"

definition remove_first :: "('a \<Rightarrow> bool) \<Rightarrow> 'a list \<Rightarrow> 'a list" where
  "remove_first p xs = takeWhile (\<lambda>x. \<not> p x) xs @ tl (dropWhile (\<lambda>x. \<not> p x) xs)"

text \<open>The state and the disk of \<open>removeDomain\<close> before the saves.\<close>

definition without_domain :: "string \<Rightarrow> store \<Rightarrow> store" where
  "without_domain i s = s\<lparr>mPcaps := filter (\<lambda>p. pm_domain p \<noteq> i) (mPcaps s),
     st_sessions := filter (\<lambda>x. ss_domain x \<noteq> i) (st_sessions s),
     mPcapFolders := filter (\<lambda>f. fst f \<noteq> i) (mPcapFolders s),
     mDeviceNames := om_del i (mDeviceNames s),
     st_domains := remove_first (\<lambda>m. dm_id m = i) (st_domains s)\<rparr>"

definition wipe_domain :: "env \<Rightarrow> string \<Rightarrow> store \<Rightarrow> files \<Rightarrow> files" where
  "wipe_domain e i s d =
     (let d1 = fold (\<lambda>p. remove_file e (pcap_path s p)) (filter (\<lambda>p. pm_domain p = i) (mPcaps s)) d;
          d2 = fold (\<lambda>x. remove_tree e (mDataDir s @ ''/sessions/'' @ ss_id x)) (filter (\<lambda>x. ss_domain x = i) (st_sessions s)) d1
      in remove_tree e (pcapRoot s @ ''/domains/'' @ i) d2)"

definition removeDomain :: "env \<Rightarrow> string \<Rightarrow> bool \<Rightarrow> store \<times> files \<Rightarrow> string list \<times> stored" where
  "removeDomain e i force = (\<lambda>(s, d).
     if i = ''default'' then ([], st_refuse ''the built-in domain cannot be deleted'' s d)
     else if \<not> list_ex (\<lambda>m. dm_id m = i) (st_domains s) then ([], st_refuse ''no such domain'' s d)
     else let nP = length (filter (\<lambda>p. pm_domain p = i) (mPcaps s));
              nS = length (filter (\<lambda>x. ss_domain x = i) (st_sessions s))
          in if \<not> force \<and> (nP \<noteq> 0 \<or> nS \<noteq> 0)
             then ([], st_refuse (cat [''domain still holds '', nat_str nP, '' pcap(s) and '', nat_str nS, '' session(s)'', emdash,
                    ''delete them first or force'']) s d)
             else let s' = without_domain i s;
                      (r1, d1) = saveDeviceNames e s' (wipe_domain e i s d);
                      (r2, d2) = store_save e s' d1
                  in (map ss_id (filter (\<lambda>x. ss_domain x = i) (st_sessions s)),
                      (if r1 = None then None else r2, s', d2)))"

section \<open>The library\<close>

definition add_folder :: "string \<Rightarrow> string \<Rightarrow> store \<Rightarrow> store" where
  "add_folder tenant folder s = (if folder \<noteq> [] \<and> (tenant, folder) \<notin> set (mPcapFolders s)
     then s\<lparr>mPcapFolders := sort (mPcapFolders s @ [(tenant, folder)])\<rparr> else s)"

definition bad_folder :: string where
  "bad_folder = cat [''folder name must be 1-64 chars without '', [CHR 0x27], ''/'', [CHR 0x27]]"

definition new_pcap :: "env \<Rightarrow> string \<Rightarrow> string \<Rightarrow> string \<Rightarrow> string \<Rightarrow> store \<Rightarrow> pcap_meta" where
  "new_pcap e name bytes folder tenant s =
     \<lparr>pm_id = ''p'' @ u_str (mNextPcap s), pm_name = name, pm_uploadedAt = env_now e, pm_size = of_nat (length bytes),
       pm_folder = folder, pm_domain = or_else tenant ''default''\<rparr>"

definition list_pcap :: "pcap_meta \<Rightarrow> store \<Rightarrow> store" where
  "list_pcap m s = add_folder (pm_domain m) (pm_folder m) (s\<lparr>mNextPcap := mNextPcap s + 1, mPcaps := mPcaps s @ [m]\<rparr>)"

text \<open>\<open>addPcap\<close>: the id, or the error.  The stream is looked at after the \<open>write\<close>, before its
  destructor flushes and closes it: a write that passes may still lose its last bytes.\<close>

definition addPcap :: "env \<Rightarrow> string \<Rightarrow> string \<Rightarrow> string \<Rightarrow> string \<Rightarrow> store \<times> files \<Rightarrow> (string + string) option \<times> store \<times> files" where
  "addPcap e name bytes folder tenant = (\<lambda>(s, d).
     if folder \<noteq> [] \<and> \<not> validFolderName folder then (Some (Inl bad_folder), s, d)
     else let m = new_pcap e name bytes folder tenant s; path = pcap_path s m in
       case env_stream e path of
         CannotOpen \<Rightarrow> (Some (Inl (cat [''cannot write '', path])), s, d)
       | WriteFails \<Rightarrow> (Some (Inl (cat [''short write to '', path, '' (disk full?)''])), s, d(path \<mapsto> reached e path bytes))
       | Writes \<Rightarrow>
           (case store_save e (list_pcap m s) (d(path \<mapsto> reached e path bytes)) of
              (None, d1) \<Rightarrow> (None, list_pcap m s, d1)
            | (Some None, d1) \<Rightarrow> (Some (Inr (pm_id m)), list_pcap m s, d1)
            | (Some (Some err), d1) \<Rightarrow> (Some (Inl err), (list_pcap m s)\<lparr>mPcaps := mPcaps s\<rparr>, remove_file e path d1)))"

definition removePcap :: "env \<Rightarrow> string \<Rightarrow> store \<times> files \<Rightarrow> stored" where
  "removePcap e i = (\<lambda>(s, d).
     case find_pcap i s of
       None \<Rightarrow> st_refuse (cat [''no such pcap '', i]) s d
     | Some p \<Rightarrow>
         (let s1 = s\<lparr>mPcaps := remove_first (\<lambda>p. pm_id p = i) (mPcaps s)\<rparr>
          in case store_save e s1 d of
               (Some None, d1) \<Rightarrow> (Some None, s1, remove_file e (pcap_path s p) d1)
             | (r, d1) \<Rightarrow> (r, s1, d1)))"

definition pcapFolders :: "string \<Rightarrow> store \<Rightarrow> string list" where
  "pcapFolders tenant s = sort (fold (\<lambda>p out. if pm_domain p = tenant \<and> pm_folder p \<noteq> [] \<and> pm_folder p \<notin> set out
       then out @ [pm_folder p] else out) (mPcaps s)
     (map snd (filter (\<lambda>f. fst f = tenant) (mPcapFolders s))))"

definition addPcapFolder :: "env \<Rightarrow> string \<Rightarrow> string \<Rightarrow> store \<times> files \<Rightarrow> stored" where
  "addPcapFolder e tenant name = (\<lambda>(s, d).
     if \<not> validFolderName name then st_refuse bad_folder s d
     else if (tenant, name) \<in> set (mPcapFolders s) then (Some None, s, d)
     else let s1 = s\<lparr>mPcapFolders := sort (mPcapFolders s @ [(tenant, name)])\<rparr>
          in case store_save e s1 d of (r, d1) \<Rightarrow> (r, s1, d1))"

definition removePcapFolder :: "env \<Rightarrow> string \<Rightarrow> string \<Rightarrow> store \<times> files \<Rightarrow> stored" where
  "removePcapFolder e tenant name = (\<lambda>(s, d).
     if list_ex (\<lambda>p. pm_domain p = tenant \<and> pm_folder p = name) (mPcaps s)
     then st_refuse (cat [''folder still contains captures'', emdash, ''move them out first'']) s d
     else let s1 = s\<lparr>mPcapFolders := filter (\<lambda>f. f \<noteq> (tenant, name)) (mPcapFolders s)\<rparr>
          in case store_save e s1 d of (r, d1) \<Rightarrow> (r, s1, d1))"

definition update_first :: "('a \<Rightarrow> bool) \<Rightarrow> ('a \<Rightarrow> 'a) \<Rightarrow> 'a list \<Rightarrow> 'a list" where
  "update_first p f xs = (case dropWhile (\<lambda>x. \<not> p x) xs of [] \<Rightarrow> xs | y # ys \<Rightarrow> takeWhile (\<lambda>x. \<not> p x) xs @ f y # ys)"

definition setPcapFolder :: "env \<Rightarrow> string \<Rightarrow> string \<Rightarrow> store \<times> files \<Rightarrow> stored" where
  "setPcapFolder e i folder = (\<lambda>(s, d).
     if folder \<noteq> [] \<and> \<not> validFolderName folder then st_refuse bad_folder s d
     else case find_pcap i s of
       None \<Rightarrow> st_refuse (cat [''no such pcap '', i]) s d
     | Some p \<Rightarrow>
         (let s1 = add_folder (pm_domain p) folder
                (s\<lparr>mPcaps := update_first (\<lambda>p. pm_id p = i) (\<lambda>p. p\<lparr>pm_folder := folder\<rparr>) (mPcaps s)\<rparr>)
          in case store_save e s1 d of (r, d1) \<Rightarrow> (r, s1, d1)))"

section \<open>Moving the library\<close>

text \<open>On the reversed path: drop the trailing slashes, but not the last character.\<close>

fun pop_slashes :: "string \<Rightarrow> string" where
  "pop_slashes (c # c' # r) = (if c = CHR ''/'' then pop_slashes (c' # r) else c # c' # r)"
| "pop_slashes r = r"

definition next_root :: "store \<Rightarrow> string \<Rightarrow> string" where
  "next_root s path = or_else (rev (pop_slashes (rev path))) (mDataDir s @ ''/pcaps'')"

fun copy_all :: "env \<Rightarrow> string \<Rightarrow> string \<Rightarrow> pcap_meta list \<Rightarrow> string list \<Rightarrow> files \<Rightarrow> (string + string list) \<times> files" where
  "copy_all e cur nxt [] copied d = (Inr copied, d)"
| "copy_all e cur nxt (p # ps) copied d =
     (let rel = pcapRelPath p; src = cur @ ''/'' @ rel; dst = nxt @ ''/'' @ rel
      in case copy_file e src dst d of
           Inl msg \<Rightarrow> (Inl (cat [''cannot move '', pm_id p, ''.pcap to '', nxt, '': '', msg]), fold (remove_file e) copied d)
         | Inr d1 \<Rightarrow> copy_all e cur nxt ps (copied @ [dst]) d1)"

definition with_root :: "string \<Rightarrow> store \<Rightarrow> store" where
  "with_root r s = s\<lparr>mPcapRoot := (if r = mDataDir s @ ''/pcaps'' then [] else r)\<rparr>"

definition setPcapRoot :: "env \<Rightarrow> string \<Rightarrow> store \<times> files \<Rightarrow> stored" where
  "setPcapRoot e path = (\<lambda>(s, d).
     let nxt = next_root s path; cur = pcapRoot s; probe = nxt @ ''/.avb-write-test'' in
     if hd nxt \<noteq> CHR ''/'' then st_refuse ''pcap root must be an absolute path'' s d
     else if nxt = cur then (Some None, s, d)
     else case env_mkdirs e nxt of
       Some msg \<Rightarrow> st_refuse (cat [''cannot create '', nxt, '': '', msg,
         '' (is the path writable by the service? see ReadWritePaths in the systemd unit)'']) s d
     | None \<Rightarrow>
        (if env_stream e probe = CannotOpen
         then st_refuse (cat [nxt, '' is not writable by the service (see ReadWritePaths in the systemd unit)'']) s d
         else case copy_all e cur nxt (mPcaps s) [] (remove_file e probe (d(probe \<mapsto> []))) of
           (Inl err, d1) \<Rightarrow> st_refuse err s d1
         | (Inr copied, d1) \<Rightarrow>
            (case store_save e (with_root nxt s) d1 of
               (None, d2) \<Rightarrow> (None, with_root nxt s, d2)
             | (Some (Some err), d2) \<Rightarrow> st_refuse err s (fold (remove_file e) copied d2)
             | (Some None, d2) \<Rightarrow>
                 (Some None, with_root nxt s, fold (\<lambda>p. remove_file e (cur @ ''/'' @ pcapRelPath p)) (mPcaps s) d2))))"

section \<open>Reading the library\<close>

definition pcaps_of :: "string \<Rightarrow> store \<Rightarrow> pcap_meta list" where
  "pcaps_of tenant s = filter (\<lambda>p. pm_domain p = tenant) (mPcaps s)"

definition hasPcap :: "string \<Rightarrow> store \<Rightarrow> bool" where
  "hasPcap i s \<longleftrightarrow> list_ex (\<lambda>p. pm_id p = i) (mPcaps s)"

definition pcapDomain :: "string \<Rightarrow> store \<Rightarrow> string" where
  "pcapDomain i s = (case find_pcap i s of None \<Rightarrow> [] | Some p \<Rightarrow> pm_domain p)"

definition pcapName :: "string \<Rightarrow> store \<Rightarrow> string" where
  "pcapName i s = (case find_pcap i s of None \<Rightarrow> [] | Some p \<Rightarrow> pm_name p)"

section \<open>Sessions\<close>

definition find_session :: "string \<Rightarrow> store \<Rightarrow> session_meta option" where
  "find_session i s = find (\<lambda>m. ss_id m = i) (st_sessions s)"

definition session_source_at :: "store \<Rightarrow> session_meta \<Rightarrow> nat \<Rightarrow> session_source" where
  "session_source_at s m k =
     (let i = ss_pcapIds m ! k; name = pcapName i s
      in \<lparr>src_pcapId = i, src_name = name,
          src_alias = (if k < length (ss_pcapAliases m) \<and> ss_pcapAliases m ! k \<noteq> [] then ss_pcapAliases m ! k
             else or_else name i)\<rparr>)"

definition sessionSources :: "string \<Rightarrow> store \<Rightarrow> session_source list" where
  "sessionSources i s = (case find_session i s of None \<Rightarrow> []
     | Some m \<Rightarrow> map (session_source_at s m) [0..<length (ss_pcapIds m)])"

definition set_alias :: "nat \<Rightarrow> string \<Rightarrow> session_meta \<Rightarrow> session_meta" where
  "set_alias k alias m = m\<lparr>ss_pcapAliases :=
     (if length (ss_pcapAliases m) < length (ss_pcapIds m)
      then resize_strs (length (ss_pcapIds m)) (ss_pcapAliases m) else ss_pcapAliases m)[k := alias]\<rparr>"

definition setSessionAlias :: "env \<Rightarrow> string \<Rightarrow> nat \<Rightarrow> string \<Rightarrow> store \<times> files \<Rightarrow> stored" where
  "setSessionAlias e i k alias = (\<lambda>(s, d).
     case find_session i s of
       None \<Rightarrow> st_refuse (cat [''no such session '', i]) s d
     | Some m \<Rightarrow>
        (if \<not> k < length (ss_pcapIds m) then st_refuse ''source index out of range'' s d
         else let s1 = s\<lparr>st_sessions := update_first (\<lambda>m. ss_id m = i) (set_alias k alias) (st_sessions s)\<rparr>
              in case store_save e s1 d of (r, d1) \<Rightarrow> (r, s1, d1)))"

definition name_of_pcap :: "store \<Rightarrow> string \<Rightarrow> string" where
  "name_of_pcap s i = (case find_pcap i s of None \<Rightarrow> i | Some p \<Rightarrow> pm_name p)"

text \<open>The metadata as stored, with the paths and names of its sources.\<close>

definition session_start :: "env \<Rightarrow> session_meta \<Rightarrow> store \<Rightarrow> session_meta \<times> string list \<times> string list" where
  "session_start e m0 s =
     (let m = m0\<lparr>ss_id := ''s'' @ u_str (mNextSession s), ss_createdAt := env_now e, ss_domain := or_else (ss_domain m0) ''default''\<rparr> in
      if ss_pcapIds m \<noteq> [] then
        let names = map (name_of_pcap s) (ss_pcapIds m)
        in (m\<lparr>ss_pcapId := or_else (ss_pcapId m) (hd (ss_pcapIds m)), ss_pcapAliases := names\<rparr>,
            map (\<lambda>i. pcapPath i s) (ss_pcapIds m), names)
      else if ss_pcapId m \<noteq> [] then (m, [pcapPath (ss_pcapId m) s], [name_of_pcap s (ss_pcapId m)])
      else (m, [or_else (ss_resolvedPath m) (ss_path m)], [ss_name m]))"

definition bytes_of :: "string \<Rightarrow> byte list" where
  "bytes_of x = map (\<lambda>c. of_nat (of_char c)) x"

definition notes_text :: "session_meta \<Rightarrow> string list \<Rightarrow> string" where
  "notes_text m names = cat ([''# Investigation: '', ss_name m, [CHR 0x0A, CHR 0x0A], ''- Created: '', ss_createdAt m, [CHR 0x0A]] @
     (if length names > 1
      then [''- Combined captures ('', nat_str (length names), '', merged by capture time):'', [CHR 0x0A]] @
        concat (map (\<lambda>nm. [''  - '', [CHR 0x60], nm, [CHR 0x60, CHR 0x0A]]) names)
      else [''- Capture: '', [CHR 0x60], ss_name m, [CHR 0x60]] @
        (if ss_pcapId m = [] then ['' (from server path '', [CHR 0x60], ss_path m, [CHR 0x60], '')'']
         else ['' (upload '', ss_pcapId m, '')'']) @ [[CHR 0x0A]]) @
     [[CHR 0x0A], ''## Context'', [CHR 0x0A, CHR 0x0A], ''_What is being investigated, and why?_'', [CHR 0x0A, CHR 0x0A],
      ''## Findings'', [CHR 0x0A, CHR 0x0A], ''- '', [CHR 0x0A, CHR 0x0A], ''## Open questions'', [CHR 0x0A, CHR 0x0A],
      ''- '', [CHR 0x0A]])"

text \<open>The capture of the session: a copy, or the merge of the sources with its source map.\<close>

definition session_capture :: "env \<Rightarrow> store \<Rightarrow> string \<Rightarrow> string list \<Rightarrow> string list \<Rightarrow> files \<Rightarrow> (string + files) outcome" where
  "session_capture e s i paths names d =
     (if length paths = 1 then
        Ok (case copy_file e (hd paths) (sessionPcapPath s i) d of
              Inl msg \<Rightarrow> Inl (cat [''cannot copy capture into session folder: '', msg]) | Inr d1 \<Rightarrow> Inr d1)
      else case mergePcaps (\<lambda>p. map_option bytes_of (d p)) (env_stream e) paths names (sessionPcapPath s i)
               (sessionSrcMapPath s i) of
        Ok r \<Rightarrow> Ok (Inr (d(sessionPcapPath s i \<mapsto> map byte_char (mg_file r),
                  sessionSrcMapPath s i := map_option (map byte_char) (mg_srcMap r))))
      | Err msg \<Rightarrow> Ok (Inl msg) | UB \<Rightarrow> UB | Diverges \<Rightarrow> Diverges)"

text \<open>\<open>addSession\<close>: the id or the error; what the save answers is dropped.  A copy or a merge that fails
  counts as leaving no file of its own.\<close>

definition addSession :: "env \<Rightarrow> session_meta \<Rightarrow> store \<times> files \<Rightarrow> ((string + string) \<times> store \<times> files) outcome" where
  "addSession e m0 = (\<lambda>(s, d).
     case session_start e m0 s of (m, paths, names) \<Rightarrow>
       (case env_mkdirs e (sessionDir s (ss_id m)) of
          Some msg \<Rightarrow> Ok (Inl (cat [''cannot create session folder: '', msg]), s, d)
        | None \<Rightarrow> on_ok (\<lambda>r. case r of
              Inl msg \<Rightarrow> Ok (Inl msg, s, remove_tree e (sessionDir s (ss_id m)) d)
            | Inr d1 \<Rightarrow>
               (let s1 = s\<lparr>mNextSession := mNextSession s + 1, st_sessions := st_sessions s @ [m]\<rparr>
                in Ok (Inr (ss_id m), s1,
                     snd (store_save e s1 (stream_out e (sessionNotesPath s (ss_id m)) (notes_text m names) d1)))))
            (session_capture e s (ss_id m) paths names d)))"

definition removeSession :: "env \<Rightarrow> string \<Rightarrow> store \<times> files \<Rightarrow> store \<times> files" where
  "removeSession e i = (\<lambda>(s, d).
     let s1 = s\<lparr>st_sessions := filter (\<lambda>m. ss_id m \<noteq> i) (st_sessions s)\<rparr>
     in (s1, snd (store_save e s1 (remove_tree e (sessionDir s i) d))))"

definition readNotes :: "string \<Rightarrow> store \<times> files \<Rightarrow> string" where
  "readNotes i = (\<lambda>(s, d). case d (sessionNotesPath s i) of None \<Rightarrow> [] | Some x \<Rightarrow> x)"

definition writeNotes :: "io_script \<Rightarrow> string \<Rightarrow> string \<Rightarrow> store \<times> files \<Rightarrow> stored" where
  "writeNotes io i markdown = (\<lambda>(s, d).
     (fst (writeFileAtomic (sessionNotesPath s i) markdown io d), s, disk_after (sessionNotesPath s i) markdown io d))"

definition sessionDomain :: "string \<Rightarrow> store \<Rightarrow> string" where
  "sessionDomain i s = (case find_session i s of None \<Rightarrow> [] | Some m \<Rightarrow> ss_domain m)"

section \<open>Device names\<close>

definition deviceNames :: "string \<Rightarrow> store \<Rightarrow> (string, string) omap" where
  "deviceNames tenant s = om_at [] (mDeviceNames s) tenant"

definition erase_name :: "string \<Rightarrow> string \<Rightarrow> (string, (string, string) omap) omap \<Rightarrow> (string, (string, string) omap) omap" where
  "erase_name tenant mac m = (case om_get m tenant of
     None \<Rightarrow> m | Some names \<Rightarrow> (let names' = om_del mac names in if names' = [] then om_del tenant m else om_set tenant names' m))"

definition setDeviceName :: "env \<Rightarrow> string \<Rightarrow> string \<Rightarrow> string \<Rightarrow> store \<times> files \<Rightarrow> stored" where
  "setDeviceName e tenant mac name = (\<lambda>(s, d).
     let s1 = s\<lparr>mDeviceNames := (if name = [] then erase_name tenant mac (mDeviceNames s)
                                 else set_name tenant mac name (mDeviceNames s))\<rparr>
     in case saveDeviceNames e s1 d of (r, d1) \<Rightarrow> (r, s1, d1))"

end
