(* ===== verification/Store_Proofs.thy ===== *)
theory Store_Proofs
  imports Store
begin

text \<open>
  The invariant of the library and its preservation by every operation, as a step relation;
  where the files of the tenants lie, what the removal of one and the move of the library
  leave alone, and the round trip of the two index files.
\<close>

section \<open>The invariant\<close>

definition id_ok :: "char \<Rightarrow> nat \<Rightarrow> string \<Rightarrow> bool" where
  "id_ok c n i \<longleftrightarrow> i \<noteq> [] \<and> hd i = c \<and> tl i \<noteq> [] \<and> list_all is_digit (tl i) \<and> dec_val (tl i) < n"

definition slug :: "string \<Rightarrow> bool" where
  "slug i \<longleftrightarrow> i = ''default'' \<or> validDomainId i"

text \<open>
  The invariants are over a property \<open>P\<close> of the domains that captures, sessions and folders are in
  and a property \<open>Q\<close> of sessions: the operations check neither, they keep what their callers give.
\<close>

definition pcaps_inv_on :: "(string \<Rightarrow> bool) \<Rightarrow> store \<Rightarrow> bool" where
  "pcaps_inv_on P s \<longleftrightarrow> list_all (\<lambda>p. id_ok (CHR ''p'') (unat (mNextPcap s)) (pm_id p) \<and> P (pm_domain p)) (mPcaps s) \<and>
     distinct (map pm_id (mPcaps s))"

definition sessions_inv_on :: "(string \<Rightarrow> bool) \<Rightarrow> (session_meta \<Rightarrow> bool) \<Rightarrow> store \<Rightarrow> bool" where
  "sessions_inv_on P Q s \<longleftrightarrow> list_all (\<lambda>m. id_ok (CHR ''s'') (unat (mNextSession s)) (ss_id m) \<and> P (ss_domain m) \<and> Q m) (st_sessions s) \<and>
     distinct (map ss_id (st_sessions s))"

definition domains_inv :: "store \<Rightarrow> bool" where
  "domains_inv s \<longleftrightarrow> list_all (\<lambda>m. validDomainId (dm_id m)) (st_domains s) \<and> distinct (map dm_id (st_domains s))"

definition folders_inv_on :: "(string \<Rightarrow> bool) \<Rightarrow> store \<Rightarrow> bool" where
  "folders_inv_on P s \<longleftrightarrow> sorted (mPcapFolders s) \<and> distinct (mPcapFolders s) \<and>
     list_all (\<lambda>(t, f). P t \<and> f \<noteq> []) (mPcapFolders s)"

definition names_inv :: "store \<Rightarrow> bool" where
  "names_inv s \<longleftrightarrow> om_ok (mDeviceNames s) \<and>
     om_all (\<lambda>t names. names \<noteq> [] \<and> om_ok names \<and> om_all (\<lambda>mac n. n \<noteq> []) names) (mDeviceNames s)"

definition root_inv :: "store \<Rightarrow> bool" where
  "root_inv s \<longleftrightarrow> mPcapRoot s \<noteq> mDataDir s @ ''/pcaps''"

definition store_inv_on :: "(string \<Rightarrow> bool) \<Rightarrow> (session_meta \<Rightarrow> bool) \<Rightarrow> store \<Rightarrow> bool" where
  "store_inv_on P Q s \<longleftrightarrow> pcaps_inv_on P s \<and> sessions_inv_on P Q s \<and> domains_inv s \<and> folders_inv_on P s \<and> names_inv s \<and> root_inv s"

lemmas store_inv_on_defs = store_inv_on_def pcaps_inv_on_def sessions_inv_on_def domains_inv_def folders_inv_on_def names_inv_def
  root_inv_def

text \<open>The server keeps every domain a slug and one alias for each source.\<close>

definition aligned :: "session_meta \<Rightarrow> bool" where
  "aligned m \<longleftrightarrow> length (ss_pcapAliases m) = length (ss_pcapIds m)"

abbreviation pcaps_inv :: "store \<Rightarrow> bool" where
  "pcaps_inv \<equiv> pcaps_inv_on slug"

abbreviation sessions_inv :: "store \<Rightarrow> bool" where
  "sessions_inv \<equiv> sessions_inv_on slug aligned"

abbreviation folders_inv :: "store \<Rightarrow> bool" where
  "folders_inv \<equiv> folders_inv_on slug"

abbreviation store_inv :: "store \<Rightarrow> bool" where
  "store_inv \<equiv> store_inv_on slug aligned"

lemmas store_inv_def = store_inv_on_def [of slug aligned]
lemmas pcaps_inv_def = pcaps_inv_on_def [of slug]
lemmas sessions_inv_def = sessions_inv_on_def [of slug aligned]
lemmas store_inv_defs = store_inv_on_defs aligned_def

text \<open>What holds of any library, whoever calls.\<close>

abbreviation library_inv :: "store \<Rightarrow> bool" where
  "library_inv \<equiv> store_inv_on (\<lambda>_. True) (\<lambda>_. True)"

lemma inv_Store: "store_inv_on P Q (Store dir)"
  by (simp add: store_inv_on_defs Store_def)

lemma id_ok_fresh: "id_ok c n (c # nat_str k) \<longleftrightarrow> k < n"
  by (simp add: id_ok_def is_digit_nat_str dec_val_nat_str)

lemma id_ok_mono: "id_ok c n i \<Longrightarrow> n \<le> m \<Longrightarrow> id_ok c m i"
  by (auto simp: id_ok_def)

lemma id_ok_new: "id_ok c n i \<Longrightarrow> i \<noteq> c # nat_str n"
  by (auto simp: id_ok_fresh)

lemma unat_plus_one: "w + 1 \<noteq> 0 \<Longrightarrow> unat (w + 1) = Suc (unat w)" for w :: "'a::len word"
  using unatSuc [of w] by (simp add: add.commute)

lemma hasDomain_slug: "domains_inv s \<Longrightarrow> hasDomain i s \<Longrightarrow> slug i"
  by (auto simp: domains_inv_def hasDomain_def slug_def list_all_iff list_ex_iff)

lemma slug_default [simp]: "slug ''default''"
  by (simp add: slug_def)

lemma slug_nonempty: "slug t \<Longrightarrow> t \<noteq> []"
  by (auto simp: slug_def validDomainId_def)

lemma slug_or_default: "t = [] \<or> slug t \<Longrightarrow> slug (or_else t ''default'')"
  by (auto simp: or_else_def)

section \<open>Every operation keeps the invariant\<close>

lemma st_commit_inv: "store_inv_on P Q s \<Longrightarrow> store_inv_on P Q undo \<Longrightarrow> store_inv_on P Q (fst (snd (st_commit e s undo d)))"
  by (auto simp: st_commit_def split: prod.split option.split)

lemma st_refuse_state [simp]: "fst (snd (st_refuse err s d)) = s"
  by (simp add: st_refuse_def)

lemma remove_first_Cons: "remove_first p (x # xs) = (if p x then xs else x # remove_first p xs)"
  by (simp add: remove_first_def)

lemma remove_first_Nil [simp]: "remove_first p [] = []"
  by (simp add: remove_first_def)

lemma remove_first_subset: "set (remove_first p xs) \<subseteq> set xs"
  by (induction xs) (auto simp: remove_first_Cons)

lemma distinct_remove_first: "distinct (map f xs) \<Longrightarrow> distinct (map f (remove_first p xs))"
proof (induction xs)
  case (Cons x xs)
  have "f ` set (remove_first p xs) \<subseteq> f ` set xs" using remove_first_subset by (rule image_mono)
  with Cons show ?case by (auto simp: remove_first_Cons)
qed simp

lemma list_all_remove_first: "list_all P xs \<Longrightarrow> list_all P (remove_first p xs)"
  using remove_first_subset [of p xs] by (auto simp: list_all_iff)

lemma update_first_Cons: "update_first p f (x # xs) = (if p x then f x # xs else x # update_first p f xs)"
  by (auto simp: update_first_def takeWhile_eq_all_conv dest: set_dropWhileD split: list.split)
    (metis dropWhile_eq_Nil_conv list.distinct(1))

lemma update_first_Nil [simp]: "update_first p f [] = []"
  by (simp add: update_first_def)

lemma map_update_first: "(\<And>x. g (f x) = g x) \<Longrightarrow> map g (update_first p f xs) = map g xs"
  by (induction xs) (simp_all add: update_first_Cons)

lemma list_all_update_first: "list_all P xs \<Longrightarrow> (\<And>x. P x \<Longrightarrow> P (f x)) \<Longrightarrow> list_all P (update_first p f xs)"
  by (induction xs) (simp_all add: update_first_Cons)

lemma addDomain_inv: "store_inv_on P Q s \<Longrightarrow> store_inv_on P Q (fst (snd (addDomain e i n w (s, d))))"
proof -
  assume s: "store_inv_on P Q s"
  have "store_inv_on P Q (s\<lparr>st_domains := st_domains s @ [m]\<rparr>)"
    if "validDomainId (dm_id m)" "\<forall>x \<in> set (st_domains s). dm_id x \<noteq> dm_id m" for m
    using s that by (auto simp: store_inv_on_defs)
  with s show ?thesis
    by (auto simp: addDomain_def list_ex_iff intro!: st_commit_inv split: option.split)
qed

lemma without_domain_inv: "store_inv_on P Q s \<Longrightarrow> store_inv_on P Q (without_domain i s)"
  by (auto simp: without_domain_def store_inv_on_defs list_all_iff distinct_map_filter distinct_remove_first om_all_del
      sorted_filter [of id, simplified] dest: subsetD [OF remove_first_subset])

lemma removeDomain_inv: "store_inv_on P Q s \<Longrightarrow> store_inv_on P Q (fst (snd (snd (removeDomain e i force (s, d)))))"
  by (simp add: removeDomain_def Let_def case_prod_beta without_domain_inv)

lemma add_folder_inv: "store_inv_on P Q s \<Longrightarrow> P t \<Longrightarrow> store_inv_on P Q (add_folder t f s)"
  by (auto simp: add_folder_def store_inv_on_defs list_all_iff)

lemma add_folder_root [simp]: "mPcapRoot (add_folder t f s) = mPcapRoot s" "mDataDir (add_folder t f s) = mDataDir s"
    "mPcaps (add_folder t f s) = mPcaps s" "mNextPcap (add_folder t f s) = mNextPcap s"
  by (simp_all add: add_folder_def)

text \<open>The state of \<open>addPcap\<close> with the new capture listed, and after the rollback.\<close>

lemma new_pcap_inv:
  assumes inv: "store_inv_on P Q s" and nxt: "mNextPcap s + 1 \<noteq> 0" and p: "pm_id p = ''p'' @ u_str (mNextPcap s)" "P (pm_domain p)"
  shows "store_inv_on P Q (s\<lparr>mNextPcap := mNextPcap s + 1, mPcaps := mPcaps s @ [p]\<rparr>)"
    and "store_inv_on P Q (s\<lparr>mNextPcap := mNextPcap s + 1\<rparr>)"
proof -
  have n: "unat (mNextPcap s + 1) = Suc (unat (mNextPcap s))" using nxt by (rule unat_plus_one)
  have "id_ok (CHR ''p'') (Suc (unat (mNextPcap s))) (pm_id p)" by (simp add: p u_str_def id_ok_fresh)
  moreover have "id_ok (CHR ''p'') (Suc (unat (mNextPcap s))) (pm_id q) \<and> pm_id q \<noteq> pm_id p" if "q \<in> set (mPcaps s)" for q
  proof -
    have ok: "id_ok (CHR ''p'') (unat (mNextPcap s)) (pm_id q)" using inv that by (auto simp: store_inv_on_defs list_all_iff)
    show ?thesis using id_ok_mono [OF ok] id_ok_new [OF ok] by (simp add: p u_str_def)
  qed
  ultimately show "store_inv_on P Q (s\<lparr>mNextPcap := mNextPcap s + 1, mPcaps := mPcaps s @ [p]\<rparr>)"
    "store_inv_on P Q (s\<lparr>mNextPcap := mNextPcap s + 1\<rparr>)"
    using inv p(2) by (simp_all add: store_inv_on_defs n list_all_iff) force+
qed

lemma add_folder_pcaps: "(add_folder t f s)\<lparr>mPcaps := ps\<rparr> = add_folder t f (s\<lparr>mPcaps := ps\<rparr>)"
  by (simp add: add_folder_def)

lemma addPcap_inv_on:
  assumes inv: "store_inv_on P Q s" and nxt: "mNextPcap s + 1 \<noteq> 0" and t: "P (or_else t ''default'')"
  shows "store_inv_on P Q (fst (snd (addPcap e n x f t (s, d))))"
proof -
  define m where "m = new_pcap e n x f t s"
  have m: "pm_id m = ''p'' @ u_str (mNextPcap s)" "P (pm_domain m)"
    using t by (simp_all add: m_def new_pcap_def)
  have "store_inv_on P Q (list_pcap m s)" "store_inv_on P Q ((list_pcap m s)\<lparr>mPcaps := mPcaps s\<rparr>)"
    using new_pcap_inv [OF inv nxt m] m(2) by (simp_all add: list_pcap_def add_folder_pcaps add_folder_inv)
  then show ?thesis
    using inv unfolding addPcap_def prod.case Let_def m_def [symmetric]
    by (auto split: disk.split prod.split option.split)
qed

lemma addPcap_inv:
  "store_inv s \<Longrightarrow> mNextPcap s + 1 \<noteq> 0 \<Longrightarrow> t = [] \<or> slug t \<Longrightarrow> store_inv (fst (snd (addPcap e n x f t (s, d))))"
  by (intro addPcap_inv_on slug_or_default)

lemma removePcap_inv: "store_inv_on P Q s \<Longrightarrow> store_inv_on P Q (fst (snd (removePcap e i (s, d))))"
  by (auto simp: removePcap_def Let_def store_inv_on_defs distinct_remove_first list_all_remove_first split: option.split prod.split)

lemma addPcapFolder_inv: "store_inv_on P Q s \<Longrightarrow> P t \<Longrightarrow> store_inv_on P Q (fst (snd (addPcapFolder e t n (s, d))))"
  by (auto simp: addPcapFolder_def Let_def store_inv_on_defs validFolderName_def list_all_iff split: prod.split)

lemma removePcapFolder_inv: "store_inv_on P Q s \<Longrightarrow> store_inv_on P Q (fst (snd (removePcapFolder e t n (s, d))))"
  by (auto simp: removePcapFolder_def Let_def store_inv_on_defs list_all_iff sorted_filter [of id, simplified] split: prod.split)

lemma setPcapFolder_inv:
  assumes "store_inv_on P Q s"
  shows "store_inv_on P Q (fst (snd (setPcapFolder e i f (s, d))))"
proof (cases "find_pcap i s")
  case (Some p)
  then have p: "p \<in> set (mPcaps s)" by (auto simp: find_pcap_def find_Some_iff in_set_conv_nth)
  then have slug: "P (pm_domain p)" using assms by (auto simp: store_inv_on_defs list_all_iff)
  define s1 where "s1 = s\<lparr>mPcaps := update_first (\<lambda>p. pm_id p = i) (\<lambda>p. p\<lparr>pm_folder := f\<rparr>) (mPcaps s)\<rparr>"
  have "store_inv_on P Q s1"
    using assms by (simp add: s1_def store_inv_on_defs map_update_first list_all_update_first)
  from add_folder_inv [OF this slug, of f] show ?thesis
    using assms Some by (simp only: setPcapFolder_def prod.case option.case Let_def s1_def [symmetric] case_prod_beta
        if_distrib [of fst] if_distrib [of snd] st_refuse_state fst_conv snd_conv if_cancel split: if_split) simp
qed (use assms in \<open>simp add: setPcapFolder_def\<close>)

lemma setPcapRoot_inv: "store_inv_on P Q s \<Longrightarrow> store_inv_on P Q (fst (snd (setPcapRoot e path (s, d))))"
proof -
  assume "store_inv_on P Q s"
  then have "store_inv_on P Q (with_root r s)" for r
    by (auto simp: store_inv_on_defs with_root_def)
  with \<open>store_inv_on P Q s\<close> show ?thesis
    unfolding setPcapRoot_def prod.case Let_def by (auto split: option.split prod.split sum.split)
qed

lemma set_alias_fields [simp]: "ss_id (set_alias k a m) = ss_id m" "ss_domain (set_alias k a m) = ss_domain m"
  by (simp_all add: set_alias_def)

lemma setSessionAlias_inv_on:
  assumes "store_inv_on P Q s" and "\<And>m. Q m \<Longrightarrow> Q (set_alias k a m)"
  shows "store_inv_on P Q (fst (snd (setSessionAlias e i k a (s, d))))"
proof -
  have "store_inv_on P Q (s\<lparr>st_sessions := update_first (\<lambda>m. ss_id m = i) (set_alias k a) (st_sessions s)\<rparr>)"
    using assms by (simp add: store_inv_on_defs map_update_first) (intro list_all_update_first, auto)
  then show ?thesis
    using assms by (auto simp: setSessionAlias_def Let_def split: option.split prod.split)
qed

lemma setSessionAlias_inv: "store_inv s \<Longrightarrow> store_inv (fst (snd (setSessionAlias e i k a (s, d))))"
  by (rule setSessionAlias_inv_on) (simp_all add: aligned_def set_alias_def)

lemma session_start_meta:
  assumes "session_start e m0 s = (m, paths, names)"
    and "ss_pcapIds m0 = [] \<Longrightarrow> ss_pcapAliases m0 = []" and "ss_domain m0 = [] \<or> slug (ss_domain m0)"
  shows "ss_id m = ''s'' @ u_str (mNextSession s) \<and> slug (ss_domain m) \<and> aligned m"
  using assms by (auto simp: session_start_def Let_def slug_or_default aligned_def split: if_splits)

lemma new_session_inv:
  assumes inv: "store_inv_on P Q s" and nxt: "mNextSession s + 1 \<noteq> 0"
    and m: "ss_id m = ''s'' @ u_str (mNextSession s)" "P (ss_domain m)" "Q m"
  shows "store_inv_on P Q (s\<lparr>mNextSession := mNextSession s + 1, st_sessions := st_sessions s @ [m]\<rparr>)"
proof -
  have n: "unat (mNextSession s + 1) = Suc (unat (mNextSession s))" using nxt by (rule unat_plus_one)
  have "id_ok (CHR ''s'') (Suc (unat (mNextSession s))) (ss_id m)" by (simp add: m u_str_def id_ok_fresh)
  moreover have "id_ok (CHR ''s'') (Suc (unat (mNextSession s))) (ss_id q) \<and> ss_id q \<noteq> ss_id m" if "q \<in> set (st_sessions s)" for q
  proof -
    have ok: "id_ok (CHR ''s'') (unat (mNextSession s)) (ss_id q)" using inv that by (auto simp: store_inv_on_defs list_all_iff)
    show ?thesis using id_ok_mono [OF ok] id_ok_new [OF ok] by (simp add: m u_str_def)
  qed
  ultimately show ?thesis
    using inv m(2,3) by (simp_all add: store_inv_on_defs n list_all_iff) force+
qed

lemma session_start_id: "session_start e m0 s = (m, paths, names) \<Longrightarrow> ss_id m = ''s'' @ u_str (mNextSession s)"
  by (auto simp: session_start_def Let_def split: if_splits)

lemma addSession_inv_on:
  assumes inv: "store_inv_on P Q s" and nxt: "mNextSession s + 1 \<noteq> 0"
    and m0: "\<And>m paths names. session_start e m0 s = (m, paths, names) \<Longrightarrow> P (ss_domain m) \<and> Q m"
    and run: "addSession e m0 (s, d) = Ok (r, s', d')"
  shows "store_inv_on P Q s'"
proof -
  obtain m paths names where start: "session_start e m0 s = (m, paths, names)" by (metis prod_cases3)
  show ?thesis
    using run inv new_session_inv [OF inv nxt session_start_id [OF start]] m0 [OF start]
    by (auto simp: addSession_def start on_ok_eq_Ok Let_def split: option.splits) (auto split: sum.splits)
qed

lemma addSession_inv:
  assumes "store_inv s" and "mNextSession s + 1 \<noteq> 0"
    and "ss_pcapIds m0 = [] \<Longrightarrow> ss_pcapAliases m0 = []" and "ss_domain m0 = [] \<or> slug (ss_domain m0)"
    and "addSession e m0 (s, d) = Ok (r, s', d')"
  shows "store_inv s'"
  using addSession_inv_on [OF assms(1,2) _ assms(5)] session_start_meta assms(3,4) by blast

lemma removeSession_inv: "store_inv_on P Q s \<Longrightarrow> store_inv_on P Q (fst (removeSession e i (s, d)))"
  by (auto simp: removeSession_def Let_def store_inv_on_defs list_all_iff distinct_map_filter)

lemma om_set_nonempty [simp]: "om_set k v m \<noteq> []"
  by (induction k v m rule: om_set.induct) auto

lemma names_inv_at: "names_inv s \<Longrightarrow> om_ok (om_at [] (mDeviceNames s) t) \<and> om_all (\<lambda>mac n. n \<noteq> []) (om_at [] (mDeviceNames s) t)"
  by (auto simp: names_inv_def om_at_def dest: om_all_get split: option.split)

lemma setDeviceName_inv:
  assumes "store_inv_on P Q s"
  shows "store_inv_on P Q (fst (snd (setDeviceName e t mac n (s, d))))"
proof -
  have at: "om_ok (om_at [] (mDeviceNames s) t)" "om_all (\<lambda>mac n. n \<noteq> []) (om_at [] (mDeviceNames s) t)"
    using names_inv_at assms by (auto simp: store_inv_on_def)
  have "names_inv (s\<lparr>mDeviceNames := set_name t mac n (mDeviceNames s)\<rparr>)" if "n \<noteq> []"
    using assms that at by (auto simp: store_inv_on_def names_inv_def set_name_def om_all_set)
  moreover have "names_inv (s\<lparr>mDeviceNames := erase_name t mac (mDeviceNames s)\<rparr>)"
    using assms at by (auto simp: store_inv_on_def names_inv_def erase_name_def om_at_def Let_def om_all_set om_all_del split: option.splits)
  ultimately have "store_inv_on P Q (s\<lparr>mDeviceNames := (if n = [] then erase_name t mac (mDeviceNames s) else set_name t mac n (mDeviceNames s))\<rparr>)"
    using assms by (auto simp: store_inv_on_defs)
  then show ?thesis by (cases "n = []") (simp_all add: setDeviceName_def Let_def split: prod.split)
qed

section \<open>The operations as a step relation\<close>

text \<open>One call of an operation with any arguments, whatever the operating system answers.\<close>

inductive store_step :: "store \<times> files \<Rightarrow> store \<times> files \<Rightarrow> bool" where
  add_domain: "addDomain e i n w sd = (r, sd') \<Longrightarrow> store_step sd sd'"
| remove_domain: "removeDomain e i force sd = (gone, r, sd') \<Longrightarrow> store_step sd sd'"
| add_pcap: "addPcap e n x f t sd = (a, sd') \<Longrightarrow> store_step sd sd'"
| remove_pcap: "removePcap e i sd = (r, sd') \<Longrightarrow> store_step sd sd'"
| add_pcap_folder: "addPcapFolder e t n sd = (r, sd') \<Longrightarrow> store_step sd sd'"
| remove_pcap_folder: "removePcapFolder e t n sd = (r, sd') \<Longrightarrow> store_step sd sd'"
| set_pcap_folder: "setPcapFolder e i f sd = (r, sd') \<Longrightarrow> store_step sd sd'"
| set_pcap_root: "setPcapRoot e path sd = (r, sd') \<Longrightarrow> store_step sd sd'"
| set_session_alias: "setSessionAlias e i k a sd = (r, sd') \<Longrightarrow> store_step sd sd'"
| add_session: "addSession e m sd = Ok (b, sd') \<Longrightarrow> store_step sd sd'"
| remove_session: "removeSession e i sd = sd' \<Longrightarrow> store_step sd sd'"
| write_notes: "writeNotes io i x sd = (r, sd') \<Longrightarrow> store_step sd sd'"
| set_device_name: "setDeviceName e t mac n sd = (r, sd') \<Longrightarrow> store_step sd sd'"

lemmas op_invs = addDomain_inv removeDomain_inv addPcap_inv removePcap_inv addPcapFolder_inv removePcapFolder_inv
  setPcapFolder_inv setPcapRoot_inv setSessionAlias_inv removeSession_inv setDeviceName_inv

lemma addPcap_library: "library_inv s \<Longrightarrow> mNextPcap s + 1 \<noteq> 0 \<Longrightarrow> library_inv (fst (snd (addPcap e n x f t (s, d))))"
  by (rule addPcap_inv_on) simp_all

lemma addPcapFolder_library: "library_inv s \<Longrightarrow> library_inv (fst (snd (addPcapFolder e t n (s, d))))"
  by (rule addPcapFolder_inv) simp_all

lemma setSessionAlias_library: "library_inv s \<Longrightarrow> library_inv (fst (snd (setSessionAlias e i k a (s, d))))"
  by (rule setSessionAlias_inv_on) simp_all

lemma addSession_library:
  "library_inv s \<Longrightarrow> mNextSession s + 1 \<noteq> 0 \<Longrightarrow> addSession e m0 (s, d) = Ok (r, s', d') \<Longrightarrow> library_inv s'"
  by (erule addSession_inv_on) simp_all

lemma step_library:
  "store_step sd sd' \<Longrightarrow> library_inv (fst sd) \<Longrightarrow> mNextPcap (fst sd) + 1 \<noteq> 0 \<Longrightarrow> mNextSession (fst sd) + 1 \<noteq> 0 \<Longrightarrow> library_inv (fst sd')"
proof (induction rule: store_step.induct)
  case (add_domain e i n w sd r sd')
  then show ?case using addDomain_inv [of _ _ "fst sd" e i n w "snd sd"] by simp
next
  case (remove_domain e i force sd gone r sd')
  then show ?case using removeDomain_inv [of _ _ "fst sd" e i force "snd sd"] by simp
next
  case (add_pcap e n x f t sd a sd')
  then show ?case using addPcap_library [of "fst sd" e n x f t "snd sd"] by simp
next
  case (remove_pcap e i sd r sd')
  then show ?case using removePcap_inv [of _ _ "fst sd" e i "snd sd"] by simp
next
  case (add_pcap_folder e t n sd r sd')
  then show ?case using addPcapFolder_library [of "fst sd" e t n "snd sd"] by simp
next
  case (remove_pcap_folder e t n sd r sd')
  then show ?case using removePcapFolder_inv [of _ _ "fst sd" e t n "snd sd"] by simp
next
  case (set_pcap_folder e i f sd r sd')
  then show ?case using setPcapFolder_inv [of _ _ "fst sd" e i f "snd sd"] by simp
next
  case (set_pcap_root e path sd r sd')
  then show ?case using setPcapRoot_inv [of _ _ "fst sd" e path "snd sd"] by simp
next
  case (set_session_alias e i k a sd r sd')
  then show ?case using setSessionAlias_library [of "fst sd" e i k a "snd sd"] by simp
next
  case (add_session e m sd b sd')
  then show ?case using addSession_library [of "fst sd" e m "snd sd" b "fst sd'" "snd sd'"] by simp
next
  case (remove_session e i sd sd')
  then show ?case using removeSession_inv [of _ _ "fst sd" e i "snd sd"] by simp
next
  case (write_notes io i x sd r sd')
  then show ?case by (auto simp: writeNotes_def case_prod_beta)
next
  case (set_device_name e t mac n sd r sd')
  then show ?case using setDeviceName_inv [of _ _ "fst sd" e t mac n "snd sd"] by simp
qed

text \<open>A call gives out at most one id of each kind, so after few calls the counters have not wrapped.\<close>

definition counts_to :: "nat \<Rightarrow> store \<Rightarrow> bool" where
  "counts_to k s \<longleftrightarrow> unat (mNextPcap s) \<le> k \<and> unat (mNextSession s) \<le> k"

definition counters :: "store \<Rightarrow> store \<Rightarrow> bool" where
  "counters s s' \<longleftrightarrow> mNextPcap s' \<in> {mNextPcap s, mNextPcap s + 1} \<and> mNextSession s' \<in> {mNextSession s, mNextSession s + 1}"

lemma add_folder_counts [simp]: "mNextSession (add_folder t f s) = mNextSession s"
  by (simp add: add_folder_def)

lemma counters_same [simp]: "counters s s"
  by (simp add: counters_def)

lemma removeDomain_counts: "counters s (fst (snd (snd (removeDomain e i force (s, d)))))"
  by (simp add: removeDomain_def Let_def case_prod_beta counters_def without_domain_def)

lemma addPcap_counts: "counters s (fst (snd (addPcap e n x f t (s, d))))"
  by (auto simp: addPcap_def Let_def counters_def list_pcap_def split: disk.split prod.split option.split)

lemma setPcapFolder_counts: "counters s (fst (snd (setPcapFolder e i f (s, d))))"
  by (auto simp: setPcapFolder_def Let_def counters_def split: prod.split option.split)

lemma setPcapRoot_counts: "counters s (fst (snd (setPcapRoot e path (s, d))))"
  by (auto simp: setPcapRoot_def Let_def counters_def with_root_def split: prod.split option.split sum.split)

lemma addSession_counts: "addSession e m0 (s, d) = Ok (r, s', d') \<Longrightarrow> counters s s'"
  by (auto simp: addSession_def on_ok_eq_Ok Let_def counters_def split: prod.splits option.splits) (auto split: sum.splits)

lemma other_counts:
  "counters s (fst (snd (addDomain e i n w (s, d))))" "counters s (fst (snd (removePcap e i (s, d))))"
  "counters s (fst (snd (addPcapFolder e t n (s, d))))" "counters s (fst (snd (removePcapFolder e t n (s, d))))"
  "counters s (fst (snd (setSessionAlias e i k a (s, d))))" "counters s (fst (removeSession e i (s, d)))"
  "counters s (fst (snd (writeNotes io i x (s, d))))" "counters s (fst (snd (setDeviceName e t mac n (s, d))))"
  by (auto simp: addDomain_def st_commit_def removePcap_def addPcapFolder_def removePcapFolder_def setSessionAlias_def
      removeSession_def writeNotes_def setDeviceName_def Let_def counters_def split: prod.split option.split)

lemma step_counters: "store_step sd sd' \<Longrightarrow> counters (fst sd) (fst sd')"
proof (induction rule: store_step.induct)
  case (add_session e m sd b sd')
  then show ?case using addSession_counts [of e m "fst sd" "snd sd" b "fst sd'" "snd sd'"] by simp
next
  case (remove_session e i sd sd')
  then show ?case using other_counts(6) [of "fst sd" e i "snd sd"] by simp
qed (metis removeDomain_counts addPcap_counts setPcapFolder_counts setPcapRoot_counts other_counts prod.collapse fst_conv snd_conv)+

lemma unat_next: "unat (w + 1) \<le> Suc (unat w)" for w :: "'a::len word"
  by (cases "w + 1 = 0") (simp_all add: unat_plus_one)

lemma counts_next: "counters s s' \<Longrightarrow> counts_to k s \<Longrightarrow> counts_to (Suc k) s'"
  using unat_next [of "mNextPcap s"] unat_next [of "mNextSession s"] by (auto simp: counters_def counts_to_def)

lemma counts_no_wrap:
  assumes "counts_to k s" and "k < 2 ^ 64 - 1"
  shows "mNextPcap s + 1 \<noteq> 0" "mNextSession s + 1 \<noteq> 0"
proof -
  have "w + 1 \<noteq> 0" if "unat w < 2 ^ 64 - 1" for w :: u64
  proof
    assume "w + 1 = 0"
    then have "w = - 1" by (simp add: eq_neg_iff_add_eq_0)
    then have "unat w = 2 ^ 64 - 1" by (simp add: unsigned_minus_1_eq_mask mask_eq_exp_minus_1)
    with that show False by simp
  qed
  then show "mNextPcap s + 1 \<noteq> 0" "mNextSession s + 1 \<noteq> 0" using assms by (auto simp: counts_to_def)
qed

lemma steps_library:
  "(store_step ^^ n) (Store dir, d) sd \<Longrightarrow> n < 2 ^ 64 - 1 \<Longrightarrow> library_inv (fst sd) \<and> counts_to (Suc n) (fst sd)"
proof (induction n arbitrary: sd)
  case 0
  then show ?case using inv_Store by (auto simp: counts_to_def Store_def)
next
  case (Suc n)
  then obtain x where x: "(store_step ^^ n) (Store dir, d) x" "store_step x sd" by auto
  have IH: "library_inv (fst x)" "counts_to (Suc n) (fst x)" using Suc.IH [OF x(1)] Suc.prems(2) by simp_all
  show ?case
    using step_library [OF x(2) IH(1) counts_no_wrap [OF IH(2) Suc.prems(2)]] counts_next [OF step_counters [OF x(2)] IH(2)] by simp
qed

section \<open>Where the files lie\<close>

lemma last_slash:
  assumes "x @ CHR ''/'' # y = x' @ CHR ''/'' # y'" and "CHR ''/'' \<notin> set y" and "CHR ''/'' \<notin> set y'"
  shows "x = x' \<and> y = y'"
  using assms by (auto simp: append_eq_append_conv2 append_eq_Cons_conv Cons_eq_append_conv)

lemma digits_no_slash: "list_all is_digit ds \<Longrightarrow> CHR ''/'' \<notin> set ds"
  by (auto simp: list_all_iff is_digit_def)

lemma id_no_slash: "id_ok c n i \<Longrightarrow> c \<noteq> CHR ''/'' \<Longrightarrow> CHR ''/'' \<notin> set i"
  by (cases i) (auto simp: id_ok_def digits_no_slash)

lemma slug_no_slash: "slug t \<Longrightarrow> CHR ''/'' \<notin> set t"
  by (auto simp: slug_def validDomainId_def list_all_iff domain_char_def)

text \<open>A capture's path is a directory, a slash and the id with its suffix.\<close>

definition pcap_dir :: "pcap_meta \<Rightarrow> string" where
  "pcap_dir p = (if pm_domain p = ''default'' then '''' else ''/domains/'' @ pm_domain p)"

lemma rel_path_dir: "r @ CHR ''/'' # pcapRelPath p = (r @ pcap_dir p) @ CHR ''/'' # (pm_id p @ ''.pcap'')"
  by (simp add: pcapRelPath_def pcap_dir_def)

lemma pcap_leaf_no_slash: "id_ok (CHR ''p'') n (pm_id p) \<Longrightarrow> CHR ''/'' \<notin> set (pm_id p @ ''.pcap'')"
  by (auto dest: id_no_slash)

lemma rel_path_eq:
  assumes "r @ CHR ''/'' # pcapRelPath p = r' @ CHR ''/'' # pcapRelPath q"
    and "id_ok (CHR ''p'') n (pm_id p)" and "id_ok (CHR ''p'') n (pm_id q)"
  shows "r @ pcap_dir p = r' @ pcap_dir q \<and> pm_id p = pm_id q"
  using last_slash [OF assms(1) [unfolded rel_path_dir] assms(2,3) [THEN pcap_leaf_no_slash]] by simp

lemma pcap_ids_distinct:
  "pcaps_inv s \<Longrightarrow> p \<in> set (mPcaps s) \<Longrightarrow> q \<in> set (mPcaps s) \<Longrightarrow> pm_id p = pm_id q \<Longrightarrow> p = q"
  by (auto simp: pcaps_inv_def distinct_map dest: inj_onD)

lemma pcap_id_ok: "pcaps_inv s \<Longrightarrow> p \<in> set (mPcaps s) \<Longrightarrow> id_ok (CHR ''p'') (unat (mNextPcap s)) (pm_id p)"
  by (simp add: pcaps_inv_def list_all_iff)

text \<open>Under any two roots, different captures have different paths.\<close>

lemma rel_path_inj:
  assumes "pcaps_inv s" and "p \<in> set (mPcaps s)" and "q \<in> set (mPcaps s)"
    and "r @ CHR ''/'' # pcapRelPath p = r' @ CHR ''/'' # pcapRelPath q"
  shows "p = q \<and> r = r'"
proof -
  have eq: "r @ pcap_dir p = r' @ pcap_dir q" "pm_id p = pm_id q"
    using rel_path_eq [OF assms(4)] pcap_id_ok [OF assms(1)] assms(2,3) by blast+
  then have "p = q" using pcap_ids_distinct assms by blast
  with eq show ?thesis by simp
qed

lemma pcap_path_slash: "pcap_path s p = pcapRoot s @ CHR ''/'' # pcapRelPath p"
  by (simp add: pcap_path_def)

lemma ends_pcap: "pcap_path s p \<noteq> x @ ''.json''" "pcap_path s p \<noteq> x @ ''.tmp''"
  by (simp_all add: pcap_path_def pcapRelPath_def flip: append_assoc)

text \<open>What a tenant owns on the disk: the files of its captures and the folders of its sessions.\<close>

definition owned :: "store \<Rightarrow> string \<Rightarrow> string \<Rightarrow> bool" where
  "owned s t path \<longleftrightarrow> list_ex (\<lambda>p. pm_domain p = t \<and> path = pcap_path s p) (mPcaps s) \<or>
     list_ex (\<lambda>m. ss_domain m = t \<and> prefix (sessionDir s (ss_id m) @ ''/'') path) (st_sessions s)"

text \<open>The library and the session folders lie apart, as they do by default.\<close>

definition apart :: "store \<Rightarrow> bool" where
  "apart s \<longleftrightarrow> \<not> prefix (mDataDir s @ ''/sessions/'') (pcapRoot s @ ''/'') \<and>
     \<not> prefix (pcapRoot s @ ''/'') (mDataDir s @ ''/sessions/'')"

lemma apart_default: "mPcapRoot s = [] \<Longrightarrow> apart s"
  by (simp add: apart_def pcapRoot_def)

lemma apart_disjoint: "apart s \<Longrightarrow> prefix (mDataDir s @ ''/sessions/'') p \<Longrightarrow> prefix (pcapRoot s @ ''/'') p \<Longrightarrow> False"
  by (auto simp: apart_def dest: prefix_same_cases)

lemma remove_tree_frame: "\<not> prefix (dir @ ''/'') p \<Longrightarrow> p \<noteq> dir \<Longrightarrow> remove_tree e dir d p = d p"
  unfolding remove_tree_def by (metis take_is_prefix)

lemma remove_tree_gone: "prefix (dir @ ''/'') p \<Longrightarrow> \<not> env_stuck e p \<Longrightarrow> remove_tree e dir d p = None"
  by (auto simp: remove_tree_def prefix_def)

lemma remove_tree_None: "d p = None \<Longrightarrow> remove_tree e dir d p = None"
  by (simp add: remove_tree_def)

lemma remove_files_at: "fold (\<lambda>x. remove_file e (f x)) xs d p = (if p \<in> f ` set xs \<and> \<not> env_stuck e p then None else d p)"
  by (induction xs arbitrary: d) (auto simp: remove_file_def)

lemma remove_trees_frame:
  "(\<And>x. x \<in> set xs \<Longrightarrow> \<not> prefix (f x @ ''/'') p \<and> p \<noteq> f x) \<Longrightarrow> fold (\<lambda>x. remove_tree e (f x)) xs d p = d p"
  by (induction xs arbitrary: d) (auto simp: remove_tree_frame)

lemma remove_trees_gone:
  "\<not> env_stuck e p \<Longrightarrow> d p = None \<or> list_ex (\<lambda>x. prefix (f x @ ''/'') p) xs \<Longrightarrow> fold (\<lambda>x. remove_tree e (f x)) xs d p = None"
proof (induction xs arbitrary: d)
  case (Cons x xs)
  have "remove_tree e (f x) d p = None \<or> list_ex (\<lambda>x. prefix (f x @ ''/'') p) xs"
    using Cons.prems by (auto simp: remove_tree_gone remove_tree_None)
  from Cons.IH [of "remove_tree e (f x) d", OF Cons.prems(1) this] show ?case by simp
qed simp

text \<open>Different folders of slash-free names are disjoint.\<close>

lemma folder_disjoint:
  assumes "prefix (r @ x @ ''/'') p" and "prefix (r @ y @ ''/'') p" and "CHR ''/'' \<notin> set x" and "CHR ''/'' \<notin> set y"
  shows "x = y"
proof -
  obtain u v where "x @ CHR ''/'' # u = y @ CHR ''/'' # v" using assms(1,2) by (auto simp: prefix_def)
  with assms(3,4) show ?thesis by (auto simp: append_eq_append_conv2 append_eq_Cons_conv Cons_eq_append_conv)
qed

lemma session_id_slash: "sessions_inv s \<Longrightarrow> m \<in> set (st_sessions s) \<Longrightarrow> CHR ''/'' \<notin> set (ss_id m)"
  by (auto simp: sessions_inv_def list_all_iff dest!: bspec id_no_slash)

lemma session_ids_distinct:
  "sessions_inv s \<Longrightarrow> m \<in> set (st_sessions s) \<Longrightarrow> q \<in> set (st_sessions s) \<Longrightarrow> ss_id m = ss_id q \<Longrightarrow> m = q"
  by (auto simp: sessions_inv_def distinct_map dest: inj_onD)

lemma under_sessions: "prefix (sessionDir s i @ ''/'') p \<Longrightarrow> prefix (mDataDir s @ ''/sessions/'') p"
  by (auto simp: sessionDir_def prefix_def)

lemma pcap_under_root: "prefix (pcapRoot s @ ''/'') (pcap_path s p)"
  by (simp add: pcap_path_def)

text \<open>A capture lies in the folder of its domain, and in no other one's.\<close>

lemma pcap_in_domain:
  assumes "pcaps_inv s" and "p \<in> set (mPcaps s)" and "slug i" and "i \<noteq> ''default''"
  shows "prefix (pcapRoot s @ ''/domains/'' @ i @ ''/'') (pcap_path s p) \<longleftrightarrow> pm_domain p = i"
proof -
  have id: "hd (pm_id p) = CHR ''p''" "pm_id p \<noteq> []" using pcap_id_ok [OF assms(1,2)] by (simp_all add: id_ok_def)
  have t: "slug (pm_domain p)" using assms(1,2) by (simp add: pcaps_inv_def list_all_iff)
  show ?thesis
  proof (cases "pm_domain p = ''default''")
    case True
    then show ?thesis using id assms(4) by (cases "pm_id p") (auto simp: pcap_path_def pcapRelPath_def)
  next
    case False
    then have path: "pcap_path s p = (pcapRoot s @ ''/domains/'') @ pm_domain p @ ''/'' @ pm_id p @ ''.pcap''"
      by (simp add: pcap_path_def pcapRelPath_def)
    have "prefix ((pcapRoot s @ ''/domains/'') @ pm_domain p @ ''/'') (pcap_path s p)" unfolding path by simp
    then show ?thesis
      using folder_disjoint [of "pcapRoot s @ ''/domains/''" i "pcap_path s p" "pm_domain p"] slug_no_slash t assms(3) by auto
  qed
qed

section \<open>Removing a tenant\<close>

lemma owned_not_index:
  assumes "owned s t q"
  shows "q \<noteq> meta_path s" "q \<noteq> meta_path s @ ''.tmp''" "q \<noteq> devices_path s" "q \<noteq> devices_path s @ ''.tmp''"
proof -
  have pcap: "q \<noteq> meta_path s \<and> q \<noteq> meta_path s @ ''.tmp'' \<and> q \<noteq> devices_path s \<and> q \<noteq> devices_path s @ ''.tmp''"
    if "q = pcap_path s p" for p
    using ends_pcap [of s p "mDataDir s @ ''/meta''"] ends_pcap [of s p "mDataDir s @ ''/devices''"]
      ends_pcap(2) [of s p "mDataDir s @ ''/meta.json''"] ends_pcap(2) [of s p "mDataDir s @ ''/devices.json''"] that
    by (simp add: meta_path_def devices_path_def)
  have "q \<noteq> meta_path s \<and> q \<noteq> meta_path s @ ''.tmp'' \<and> q \<noteq> devices_path s \<and> q \<noteq> devices_path s @ ''.tmp''"
    if "prefix (mDataDir s @ ''/sessions/'') q"
    using that by (auto simp: meta_path_def devices_path_def prefix_def)
  with pcap under_sessions assms show "q \<noteq> meta_path s" "q \<noteq> meta_path s @ ''.tmp''" "q \<noteq> devices_path s" "q \<noteq> devices_path s @ ''.tmp''"
    unfolding owned_def list_ex_iff by blast+
qed

lemma save_frame: "q \<noteq> meta_path s \<Longrightarrow> q \<noteq> meta_path s @ ''.tmp'' \<Longrightarrow> snd (store_save e s d) q = d q"
  by (simp add: store_save_def disk_after_frame)

lemma saveDeviceNames_frame: "q \<noteq> devices_path s \<Longrightarrow> q \<noteq> devices_path s @ ''.tmp'' \<Longrightarrow> snd (saveDeviceNames e s d) q = d q"
  by (simp add: saveDeviceNames_def disk_after_frame)

text \<open>What \<open>wipe_domain\<close> leaves alone.\<close>

definition spared :: "string \<Rightarrow> store \<Rightarrow> string \<Rightarrow> bool" where
  "spared i s q \<longleftrightarrow> q \<notin> pcap_path s ` set (filter (\<lambda>p. pm_domain p = i) (mPcaps s)) \<and>
     (\<forall>x \<in> set (filter (\<lambda>x. ss_domain x = i) (st_sessions s)). \<not> prefix (mDataDir s @ ''/sessions/'' @ ss_id x @ ''/'') q \<and>
        q \<noteq> mDataDir s @ ''/sessions/'' @ ss_id x) \<and>
     \<not> prefix (pcapRoot s @ ''/domains/'' @ i @ ''/'') q \<and> q \<noteq> pcapRoot s @ ''/domains/'' @ i"

lemma wipe_spared:
  assumes "spared i s q"
  shows "wipe_domain e i s d q = d q"
proof -
  note spared = assms [unfolded spared_def]
  have tree: "remove_tree e (pcapRoot s @ ''/domains/'' @ i) y q = y q" for y
    using spared by (intro remove_tree_frame) (unfold append_assoc, blast+)
  have trees: "fold (\<lambda>x. remove_tree e (mDataDir s @ ''/sessions/'' @ ss_id x)) (filter (\<lambda>x. ss_domain x = i) (st_sessions s)) y q = y q" for y
    using spared by (intro remove_trees_frame) (unfold append_assoc, blast)
  have "fold (\<lambda>p. remove_file e (pcap_path s p)) (filter (\<lambda>p. pm_domain p = i) (mPcaps s)) d q = d q"
    using spared by (auto simp: remove_files_at)
  then show ?thesis unfolding wipe_domain_def Let_def tree trees .
qed

lemma pcap_not_domain_dir:
  assumes "pcaps_inv s" and "p \<in> set (mPcaps s)" and "slug i"
  shows "pcap_path s p \<noteq> pcapRoot s @ ''/domains/'' @ i"
proof
  assume "pcap_path s p = pcapRoot s @ ''/domains/'' @ i"
  then have "(pcapRoot s @ pcap_dir p) @ CHR ''/'' # pm_id p @ ''.pcap'' = (pcapRoot s @ ''/domains'') @ CHR ''/'' # i"
    by (simp add: pcap_path_slash rel_path_dir)
  from last_slash [OF this pcap_leaf_no_slash [OF pcap_id_ok [OF assms(1,2)]] slug_no_slash [OF assms(3)]]
  have "i = pm_id p @ ''.pcap''" by simp
  then have "CHR ''.'' \<in> set i" by simp
  then show False using assms(3) by (auto simp: slug_def validDomainId_def list_all_iff domain_char_def)
qed

lemma pcap_spared:
  assumes inv: "pcaps_inv s" and apart: "apart s" and i: "slug i" "i \<noteq> ''default''"
    and p: "p \<in> set (mPcaps s)" "pm_domain p \<noteq> i"
  shows "spared i s (pcap_path s p)"
proof -
  have no_session: "\<not> prefix (mDataDir s @ ''/sessions/'' @ u) (pcap_path s p)" for u
    using apart_disjoint [OF apart _ pcap_under_root [of s p]] by (metis append_assoc append_prefixD)
  have "pcap_path s p \<noteq> pcap_path s p'" if "p' \<in> set (mPcaps s)" "pm_domain p' = i" for p'
    using rel_path_inj [OF inv p(1) that(1), of "pcapRoot s" "pcapRoot s"] that(2) p(2)
    unfolding pcap_path_slash by blast
  moreover have "\<not> prefix (pcapRoot s @ ''/domains/'' @ i @ ''/'') (pcap_path s p)"
    using pcap_in_domain [OF inv p(1) i] p by simp
  moreover have "\<not> prefix (mDataDir s @ ''/sessions/'' @ ss_id x @ ''/'') (pcap_path s p) \<and>
      pcap_path s p \<noteq> mDataDir s @ ''/sessions/'' @ ss_id x" for x
    using no_session [of "ss_id x @ ''/''"] no_session [of "ss_id x"] by (metis prefix_order.refl)
  ultimately show ?thesis
    using pcap_not_domain_dir [OF inv p(1) i(1)] unfolding spared_def by (intro conjI ballI) auto
qed

lemma session_spared:
  assumes inv: "sessions_inv s" and apart: "apart s"
    and m: "m \<in> set (st_sessions s)" "ss_domain m \<noteq> i" "prefix (sessionDir s (ss_id m) @ ''/'') q"
  shows "spared i s q"
proof -
  have under: "prefix (mDataDir s @ ''/sessions/'') q" using under_sessions m(3) by blast
  have no_root: "\<not> prefix (pcapRoot s @ CHR ''/'' # u) q" for u
    using apart_disjoint [OF apart under] by (metis append.assoc append_Cons append_Nil append_prefixD)
  have dir: "prefix ((mDataDir s @ ''/sessions/'') @ ss_id m @ ''/'') q" using m(3) by (simp add: sessionDir_def)
  have "\<not> prefix ((mDataDir s @ ''/sessions/'') @ ss_id x @ ''/'') q \<and> q \<noteq> (mDataDir s @ ''/sessions/'') @ ss_id x"
    if x: "x \<in> set (st_sessions s)" "ss_domain x = i" for x
  proof
    have "ss_id x \<noteq> ss_id m" using session_ids_distinct [OF inv x(1) m(1)] x(2) m(2) by blast
    then show "\<not> prefix ((mDataDir s @ ''/sessions/'') @ ss_id x @ ''/'') q"
      using folder_disjoint [OF _ dir] session_id_slash [OF inv] x(1) m(1) by blast
    show "q \<noteq> (mDataDir s @ ''/sessions/'') @ ss_id x"
      using dir session_id_slash [OF inv x(1)] by (auto simp: prefix_def) (metis in_set_conv_decomp)
  qed
  moreover have "q \<noteq> pcap_path s p" for p using no_root [of "pcapRelPath p"] by (auto simp: pcap_path_slash)
  moreover have "\<not> prefix (pcapRoot s @ ''/domains/'' @ i @ ''/'') q \<and> q \<noteq> pcapRoot s @ ''/domains/'' @ i"
    using no_root [of "''domains/'' @ i @ ''/''"] no_root [of "''domains/'' @ i"] by auto
  ultimately show ?thesis unfolding spared_def append_assoc by (intro conjI ballI) auto
qed

lemma wipe_frame:
  assumes "store_inv s" and "apart s" and "slug i" and "i \<noteq> ''default''" and "owned s t q" and "t \<noteq> i"
  shows "wipe_domain e i s d q = d q"
  using assms pcap_spared [of s i] session_spared [of s _ i q]
  by (intro wipe_spared) (auto simp: owned_def list_ex_iff store_inv_def)

lemma wipe_gone:
  assumes "owned s i q" and "\<not> env_stuck e q"
  shows "wipe_domain e i s d q = None"
proof -
  let ?d1 = "fold (\<lambda>p. remove_file e (pcap_path s p)) (filter (\<lambda>p. pm_domain p = i) (mPcaps s)) d"
  have "?d1 q = None \<or> list_ex (\<lambda>x. prefix ((mDataDir s @ ''/sessions/'' @ ss_id x) @ ''/'') q) (filter (\<lambda>x. ss_domain x = i) (st_sessions s))"
    using assms by (auto simp: remove_files_at owned_def list_ex_iff sessionDir_def)
  from remove_trees_gone [of e q ?d1, OF assms(2) this] show ?thesis
    unfolding wipe_domain_def Let_def by (rule remove_tree_None)
qed

text \<open>The two cases of \<open>removeDomain\<close>: refused, nothing changed; or wiped and saved.\<close>

definition removal_refused :: "string \<Rightarrow> bool \<Rightarrow> store \<Rightarrow> bool" where
  "removal_refused i force s \<longleftrightarrow> i = ''default'' \<or> \<not> list_ex (\<lambda>m. dm_id m = i) (st_domains s) \<or>
     \<not> force \<and> \<not> (list_all (\<lambda>p. pm_domain p \<noteq> i) (mPcaps s) \<and> list_all (\<lambda>m. ss_domain m \<noteq> i) (st_sessions s))"

lemma no_filter: "filter P xs = [] \<longleftrightarrow> list_all (\<lambda>x. \<not> P x) xs"
  by (induction xs) auto

lemma removeDomain_refused:
  assumes "removal_refused i force s"
  shows "\<exists>err. removeDomain e i force (s, d) = ([], Some (Some err), s, d)"
  using assms unfolding removal_refused_def by (auto simp: removeDomain_def st_refuse_def Let_def no_filter)

lemma removeDomain_done:
  assumes "\<not> removal_refused i force s" and "removeDomain e i force (s, d) = (gone, r, s', d')"
  shows "s' = without_domain i s" "gone = map ss_id (filter (\<lambda>x. ss_domain x = i) (st_sessions s))"
    "d' = snd (store_save e s' (snd (saveDeviceNames e s' (wipe_domain e i s d))))"
proof -
  have "\<not> (\<not> force \<and> (length (filter (\<lambda>p. pm_domain p = i) (mPcaps s)) \<noteq> 0 \<or> length (filter (\<lambda>x. ss_domain x = i) (st_sessions s)) \<noteq> 0))"
    using assms(1) unfolding removal_refused_def length_0_conv no_filter by blast
  then show "s' = without_domain i s" "gone = map ss_id (filter (\<lambda>x. ss_domain x = i) (st_sessions s))"
    "d' = snd (store_save e s' (snd (saveDeviceNames e s' (wipe_domain e i s d))))"
    using assms unfolding removal_refused_def by (auto simp: removeDomain_def Let_def split: prod.splits)
qed

lemma without_paths [simp]:
  "meta_path (without_domain i s) = meta_path s" "devices_path (without_domain i s) = devices_path s"
  by (simp_all add: meta_path_def devices_path_def without_domain_def)

lemma removed_disk:
  assumes "\<not> removal_refused i force s" and "removeDomain e i force (s, d) = (gone, r, s', d')" and "owned s t q"
  shows "d' q = wipe_domain e i s d q"
  using removeDomain_done [OF assms(1,2)] owned_not_index [OF assms(3)]
  by (simp add: save_frame saveDeviceNames_frame)

lemma folders_fold:
  "t \<noteq> i \<Longrightarrow> fold (\<lambda>p out. if pm_domain p = t \<and> pm_folder p \<noteq> [] \<and> pm_folder p \<notin> set out then out @ [pm_folder p] else out)
      (filter (\<lambda>p. pm_domain p \<noteq> i) ps) acc =
    fold (\<lambda>p out. if pm_domain p = t \<and> pm_folder p \<noteq> [] \<and> pm_folder p \<notin> set out then out @ [pm_folder p] else out) ps acc"
  by (induction ps arbitrary: acc) auto

lemma without_domain_others:
  assumes "t \<noteq> i"
  shows "pcaps_of t (without_domain i s) = pcaps_of t s"
    "filter (\<lambda>m. ss_domain m = t) (st_sessions (without_domain i s)) = filter (\<lambda>m. ss_domain m = t) (st_sessions s)"
    "deviceNames t (without_domain i s) = deviceNames t s" "pcapFolders t (without_domain i s) = pcapFolders t s"
proof -
  have eq: "(x \<noteq> i \<and> x = t) = (x = t)" for x using assms by blast
  show "pcaps_of t (without_domain i s) = pcaps_of t s"
    "filter (\<lambda>m. ss_domain m = t) (st_sessions (without_domain i s)) = filter (\<lambda>m. ss_domain m = t) (st_sessions s)"
    by (simp_all add: pcaps_of_def without_domain_def eq)
  show "deviceNames t (without_domain i s) = deviceNames t s"
    using assms by (simp add: deviceNames_def without_domain_def om_at_def om_get_del)
  show "pcapFolders t (without_domain i s) = pcapFolders t s"
    using assms by (simp add: pcapFolders_def without_domain_def folders_fold eq)
qed

lemma domain_slug: "domains_inv s \<Longrightarrow> \<not> removal_refused i force s \<Longrightarrow> slug i \<and> i \<noteq> ''default''"
  by (auto simp: removal_refused_def domains_inv_def list_all_iff list_ex_iff slug_def)

lemma removal_isolated:
  assumes inv: "store_inv s" "apart s" and run: "removeDomain e i force (s, d) = (gone, r, s', d')" and t: "t \<noteq> i"
  shows "pcaps_of t s' = pcaps_of t s \<and> filter (\<lambda>m. ss_domain m = t) (st_sessions s') = filter (\<lambda>m. ss_domain m = t) (st_sessions s) \<and>
    deviceNames t s' = deviceNames t s \<and> pcapFolders t s' = pcapFolders t s \<and> (owned s t q \<longrightarrow> d' q = d q)"
proof (cases "removal_refused i force s")
  case True
  then show ?thesis using removeDomain_refused [OF True, of e d] run by auto
next
  case False
  have i: "slug i" "i \<noteq> ''default''" using domain_slug [OF _ False] inv(1) by (simp_all add: store_inv_def)
  show ?thesis
    using removeDomain_done(1) [OF False run] without_domain_others [OF t, of s]
      removed_disk [OF False run] wipe_frame [OF inv i _ t] by metis
qed

lemma removal_complete:
  assumes "\<not> removal_refused i force s" and "removeDomain e i force (s, d) = (gone, r, s', d')" and "distinct (map dm_id (st_domains s))"
  shows "pcaps_of i s' = [] \<and> list_all (\<lambda>m. ss_domain m \<noteq> i) (st_sessions s') \<and> deviceNames i s' = [] \<and> pcapFolders i s' = [] \<and>
    \<not> hasDomain i s' \<and> set gone = ss_id ` {m \<in> set (st_sessions s). ss_domain m = i} \<and> (owned s i q \<longrightarrow> d' q = None \<or> env_stuck e q)"
proof -
  note fin = removeDomain_done [OF assms(1,2)]
  have fold: "fold (\<lambda>p out. if pm_domain p = i \<and> pm_folder p \<noteq> [] \<and> pm_folder p \<notin> set out then out @ [pm_folder p] else out)
      (filter (\<lambda>p. pm_domain p \<noteq> i) ps) [] = []" for ps
    by (induction ps) auto
  have "\<not> list_ex (\<lambda>m. dm_id m = i) (remove_first (\<lambda>m. dm_id m = i) ms)" if "distinct (map dm_id ms)" for ms
    using that by (induction ms) (auto simp: remove_first_Cons list_ex_iff, metis imageI)
  from this [OF assms(3)] have "\<not> hasDomain i s'"
    using assms(1) by (simp add: fin(1) hasDomain_def without_domain_def removal_refused_def)
  then show ?thesis
    using removed_disk [OF assms(1,2)] wipe_gone [of s i q e d]
    by (auto simp: fin(1,2) pcaps_of_def without_domain_def list_all_iff deviceNames_def om_at_def om_get_del pcapFolders_def fold)
qed

section \<open>Moving the library\<close>

abbreviation lib_file :: "string \<Rightarrow> pcap_meta \<Rightarrow> string" where
  "lib_file r p \<equiv> r @ CHR ''/'' # pcapRelPath p"

lemma lib_file_eq: "r @ ''/'' @ pcapRelPath p = lib_file r p"
  by simp

lemma copy_file_Inr: "copy_file e a b d = Inr d1 \<Longrightarrow> d a \<noteq> None \<and> d1 = d(b := d a)"
  by (auto simp: copy_file_def split: option.splits)

lemma copy_all_frame:
  "copy_all e cur nxt ps copied d = (r, d1) \<Longrightarrow> q \<notin> set copied \<Longrightarrow> q \<notin> lib_file nxt ` set ps \<Longrightarrow> d1 q = d q"
proof (induction e cur nxt ps copied d rule: copy_all.induct)
  case (2 e cur nxt p ps copied d)
  have files: "fold (remove_file e) copied d q = d q"
    using 2(3) remove_files_at [of e "\<lambda>x. x" copied d q] by simp
  show ?case
  proof (cases "copy_file e (lib_file cur p) (lib_file nxt p) d")
    case (Inl msg)
    then show ?thesis using 2(2) files by (auto simp: Let_def)
  next
    case (Inr d2)
    then have "d1 q = d2 q" using "2.IH" [OF refl refl refl, of d2] 2(2-4) by (auto simp: Let_def)
    then show ?thesis using copy_file_Inr [OF Inr] 2(4) by auto
  qed
qed simp

lemma copy_all_keeps:
  "copy_all e cur nxt ps copied d = (Inr c, d1) \<Longrightarrow> q \<notin> lib_file nxt ` set ps \<Longrightarrow> d1 q = d q"
proof (induction e cur nxt ps copied d rule: copy_all.induct)
  case (2 e cur nxt p ps copied d)
  obtain d2 where cp: "copy_file e (lib_file cur p) (lib_file nxt p) d = Inr d2"
    using 2(2) by (auto simp: Let_def split: sum.splits)
  have "d1 q = d2 q" using "2.IH" [OF refl refl refl, of d2] cp 2(2,3) by (auto simp: Let_def)
  then show ?case using copy_file_Inr [OF cp] 2(3) by auto
qed simp

lemma copy_all_done:
  assumes "copy_all e cur nxt ps copied d = (Inr c, d1)"
    and "\<And>p q. p \<in> set ps \<Longrightarrow> q \<in> set ps \<Longrightarrow> lib_file cur p \<noteq> lib_file nxt q"
    and "distinct (map (lib_file nxt) ps)" and "set copied \<inter> lib_file nxt ` set ps = {}"
  shows "c = copied @ map (lib_file nxt) ps \<and> (\<forall>p \<in> set ps. d (lib_file cur p) \<noteq> None \<and> d1 (lib_file nxt p) = d (lib_file cur p))"
  using assms
proof (induction e cur nxt ps copied d rule: copy_all.induct)
  case (2 e cur nxt p ps copied d)
  obtain d2 where cp: "copy_file e (lib_file cur p) (lib_file nxt p) d = Inr d2"
    using 2(2) by (auto simp: Let_def split: sum.splits)
  have rec: "copy_all e cur nxt ps (copied @ [lib_file nxt p]) d2 = (Inr c, d1)" using 2(2) cp by (simp add: Let_def)
  have IH: "c = (copied @ [lib_file nxt p]) @ map (lib_file nxt) ps \<and>
      (\<forall>q \<in> set ps. d2 (lib_file cur q) \<noteq> None \<and> d1 (lib_file nxt q) = d2 (lib_file cur q))"
    using "2.IH" [OF refl refl refl, of d2] cp rec 2(3-5) by auto
  have d2: "d (lib_file cur p) \<noteq> None" "d2 = d(lib_file nxt p := d (lib_file cur p))" using copy_file_Inr [OF cp] by auto
  have "d2 (lib_file cur q) = d (lib_file cur q)" if "q \<in> set ps" for q using 2(3) [of q p] that by (simp add: d2(2))
  moreover have "d1 (lib_file nxt p) = d (lib_file cur p)"
    using copy_all_keeps [OF rec, of "lib_file nxt p"] 2(4) by (simp add: d2(2))
  ultimately show ?case using IH d2(1) by simp
qed simp

lemma not_lib_file: "lib_file r p \<noteq> x @ ''.json''" "lib_file r p \<noteq> x @ ''.tmp''" "lib_file r p \<noteq> x @ ''/.avb-write-test''"
  by (simp_all add: pcapRelPath_def flip: append_assoc append_Cons)

lemma with_root_root: "pcapRoot (with_root r s) = r" if "r \<noteq> []"
  using that by (simp add: with_root_def pcapRoot_def)

lemma next_root_nonempty [simp]: "next_root s path \<noteq> []"
  by (simp add: next_root_def or_else_def)

lemma meta_path_root [simp]: "meta_path (with_root r s) = meta_path s" "mPcaps (with_root r s) = mPcaps s"
    "mDataDir (with_root r s) = mDataDir s"
  by (simp_all add: meta_path_def with_root_def)

text \<open>The disk after the probe of the new place.\<close>

definition probed :: "env \<Rightarrow> store \<Rightarrow> string \<Rightarrow> files \<Rightarrow> files" where
  "probed e s path d = (let probe = next_root s path @ ''/.avb-write-test'' in remove_file e probe (d(probe \<mapsto> [])))"

lemma probed_frame [simp]: "probed e s path d (lib_file x p) = d (lib_file x p)"
  using not_lib_file(3) [of x p "next_root s path"] by (simp add: probed_def Let_def remove_file_def)

text \<open>The cases of a move: refused or rolled back, nothing to do, and moved (or stopped in the save).\<close>

lemma setPcapRoot_cases:
  assumes "setPcapRoot e path (s, d) = (r, s', d')"
  obtains (refused) err where "r = Some (Some err)" "s' = s" "d' = d"
  | (same) "r = Some None" "s' = s" "d' = d" "next_root s path = pcapRoot s"
  | (not_copied) err where "r = Some (Some err)" "s' = s" "next_root s path \<noteq> pcapRoot s"
      "copy_all e (pcapRoot s) (next_root s path) (mPcaps s) [] (probed e s path d) = (Inl err, d')"
  | (copied) copied d1 where "next_root s path \<noteq> pcapRoot s"
      "copy_all e (pcapRoot s) (next_root s path) (mPcaps s) [] (probed e s path d) = (Inr copied, d1)"
      "(case store_save e (with_root (next_root s path) s) d1 of
               (None, d2) \<Rightarrow> (None, with_root (next_root s path) s, d2)
             | (Some (Some err), d2) \<Rightarrow> st_refuse err s (fold (remove_file e) copied d2)
             | (Some None, d2) \<Rightarrow> (Some None, with_root (next_root s path) s,
                 fold (\<lambda>p. remove_file e (pcapRoot s @ ''/'' @ pcapRelPath p)) (mPcaps s) d2)) = (r, s', d')"
  using assms unfolding setPcapRoot_def Let_def prod.case probed_def [unfolded Let_def, symmetric]
  by (cases "hd (next_root s path) \<noteq> CHR ''/''"; cases "next_root s path = pcapRoot s"; cases "env_mkdirs e (next_root s path)";
      cases "env_stream e (next_root s path @ ''/.avb-write-test'') = CannotOpen";
      cases "copy_all e (pcapRoot s) (next_root s path) (mPcaps s) [] (probed e s path d)";
      cases "fst (copy_all e (pcapRoot s) (next_root s path) (mPcaps s) [] (probed e s path d))")
    (auto simp: st_refuse_def)

lemma moved_apart:
  assumes "pcaps_inv s" and "p \<in> set (mPcaps s)" and "q \<in> set (mPcaps s)" and "nxt \<noteq> cur"
  shows "lib_file cur p \<noteq> lib_file nxt q"
proof
  assume "lib_file cur p = lib_file nxt q"
  from rel_path_inj [OF assms(1-3) this] assms(4) show False by simp
qed

text \<open>A capture is found, with its contents, where the state left says it is.\<close>

lemma move_keeps_captures:
  assumes inv: "pcaps_inv s" and run: "setPcapRoot e path (s, d) = (r, s', d')" and p: "p \<in> set (mPcaps s)"
  shows "mPcaps s' = mPcaps s \<and> d' (pcap_path s' p) = d (pcap_path s p)"
  using run
proof (cases rule: setPcapRoot_cases)
  case not_copied
  have ne: "lib_file (pcapRoot s) p \<notin> lib_file (next_root s path) ` set (mPcaps s)"
    using moved_apart [OF inv p _ not_copied(3)] by auto
  have "d' (lib_file (pcapRoot s) p) = d (lib_file (pcapRoot s) p)"
    using copy_all_frame [OF not_copied(4) _ ne] by simp
  then show ?thesis by (simp add: not_copied(2) pcap_path_slash)
next
  case (copied copied d1)
  let ?cur = "pcapRoot s" and ?nxt = "next_root s path"
  have ne: "lib_file ?cur x \<noteq> lib_file ?nxt y" if "x \<in> set (mPcaps s)" "y \<in> set (mPcaps s)" for x y
    using moved_apart [OF inv that copied(1)] .
  have "distinct (map (lib_file ?nxt) (mPcaps s))"
    using inv rel_path_inj [OF inv, of _ _ ?nxt ?nxt] by (auto simp: distinct_map pcaps_inv_def intro!: inj_onI)
  from copy_all_done [OF copied(2) ne this]
  have c: "copied = map (lib_file ?nxt) (mPcaps s)" "d1 (lib_file ?nxt p) = d (lib_file ?cur p)"
    using p by auto
  have d1: "d1 (lib_file ?cur p) = d (lib_file ?cur p)"
    using copy_all_keeps [OF copied(2), of "lib_file ?cur p"] ne [OF p] by auto
  have sv: "snd (store_save e (with_root ?nxt s) d1) (lib_file x p) = d1 (lib_file x p)" for x
    using save_frame [of "lib_file x p" "with_root ?nxt s" e d1] not_lib_file [of x p "mDataDir s @ ''/meta''"]
      not_lib_file(2) [of x p "mDataDir s @ ''/meta.json''"] by (simp add: meta_path_def)
  obtain a d2 where a: "store_save e (with_root ?nxt s) d1 = (a, d2)" by force
  have undone: "fold (remove_file e) copied d2 (lib_file ?cur p) = d2 (lib_file ?cur p)"
    using remove_files_at [of e "\<lambda>x. x" copied d2 "lib_file ?cur p"] ne [OF p] by (auto simp: c(1))
  have gone: "fold (\<lambda>q. remove_file e (lib_file ?cur q)) (mPcaps s) d2 (lib_file ?nxt p) = d2 (lib_file ?nxt p)"
    using ne p by (auto simp: remove_files_at) metis
  show ?thesis
    using copied(3) a sv [of ?cur] sv [of ?nxt] c(2) d1 undone gone
    by (cases a; cases "the a") (auto simp: st_refuse_def pcap_path_slash with_root_root)
qed auto

lemma setPcapRoot_lists: "setPcapRoot e path (s, d) = (r, s', d') \<Longrightarrow> mPcaps s' = mPcaps s"
  by (erule setPcapRoot_cases) (auto simp: st_refuse_def split: prod.splits option.splits)

section \<open>Uploading\<close>

lemma list_pcap_simps [simp]: "mPcaps (list_pcap m s) = mPcaps s @ [m]" "pcap_path (list_pcap m s) p = pcap_path s p"
    "meta_path (list_pcap m s) = meta_path s"
  by (simp_all add: list_pcap_def pcap_path_def pcapRoot_def meta_path_def)

lemma new_path_fresh:
  assumes "pcaps_inv s" and "p \<in> set (mPcaps s)"
  shows "pcap_path s p \<noteq> pcap_path s (new_pcap e n x f t s)" and "pm_id p \<noteq> pm_id (new_pcap e n x f t s)"
proof -
  let ?m = "new_pcap e n x f t s"
  have id: "id_ok (CHR ''p'') (unat (mNextPcap s)) (pm_id p)" using pcap_id_ok assms .
  then show ne: "pm_id p \<noteq> pm_id ?m" using id_ok_new by (auto simp: new_pcap_def u_str_def)
  have "id_ok (CHR ''p'') (Suc (unat (mNextPcap s))) (pm_id p)" "id_ok (CHR ''p'') (Suc (unat (mNextPcap s))) (pm_id ?m)"
    using id_ok_mono [OF id] by (simp_all add: new_pcap_def u_str_def id_ok_fresh)
  from rel_path_eq [OF _ this, of "pcapRoot s" "pcapRoot s"] ne show "pcap_path s p \<noteq> pcap_path s ?m"
    unfolding pcap_path_slash by blast
qed

lemma pcap_path_saved: "snd (store_save e s d) (pcap_path s' p) = d (pcap_path s' p)"
proof (rule save_frame)
  show "pcap_path s' p \<noteq> meta_path s" "pcap_path s' p \<noteq> meta_path s @ ''.tmp''"
    using ends_pcap [of s' p "mDataDir s @ ''/meta''"] ends_pcap(2) [of s' p "mDataDir s @ ''/meta.json''"]
    by (simp_all add: meta_path_def)
qed

text \<open>An upload is listed under a fresh id with what reached its file, or not at all, and touches no other capture.\<close>

lemma upload_effect:
  assumes inv: "pcaps_inv s" and run: "addPcap e n x f t (s, d) = (a, s', d')"
  shows "(\<exists>err. a = Some (Inl err) \<and> mPcaps s' = mPcaps s) \<or>
      (\<exists>m. m = new_pcap e n x f t s \<and> a \<in> {None, Some (Inr (pm_id m))} \<and> \<not> hasPcap (pm_id m) s \<and>
         mPcaps s' = mPcaps s @ [m] \<and> d' (pcap_path s' m) = Some (reached e (pcap_path s m) x))"
    and "p \<in> set (mPcaps s) \<Longrightarrow> d' (pcap_path s p) = d (pcap_path s p)"
proof -
  define m where "m = new_pcap e n x f t s"
  let ?y = "reached e (pcap_path s m) x"
  have fresh: "pcap_path s q \<noteq> pcap_path s m" "pm_id q \<noteq> pm_id m" if "q \<in> set (mPcaps s)" for q
    using new_path_fresh [OF inv that] unfolding m_def by blast+
  have run: "(if f \<noteq> [] \<and> \<not> validFolderName f then (Some (Inl bad_folder), s, d)
     else let path = pcap_path s m in
       case env_stream e path of
         CannotOpen \<Rightarrow> (Some (Inl (cat [''cannot write '', path])), s, d)
       | WriteFails \<Rightarrow> (Some (Inl (cat [''short write to '', path, '' (disk full?)''])), s, d(path \<mapsto> reached e path x))
       | Writes \<Rightarrow>
           (case store_save e (list_pcap m s) (d(path \<mapsto> reached e path x)) of
              (None, d1) \<Rightarrow> (None, list_pcap m s, d1)
            | (Some None, d1) \<Rightarrow> (Some (Inr (pm_id m)), list_pcap m s, d1)
            | (Some (Some err), d1) \<Rightarrow> (Some (Inl err), (list_pcap m s)\<lparr>mPcaps := mPcaps s\<rparr>, remove_file e path d1))) = (a, s', d')"
    using run unfolding addPcap_def prod.case Let_def m_def .
  obtain b d1 where sv: "store_save e (list_pcap m s) (d(pcap_path s m \<mapsto> ?y)) = (b, d1)" by force
  have d1: "d1 (pcap_path s q) = (d(pcap_path s m \<mapsto> ?y)) (pcap_path s q)" for q
    using pcap_path_saved [of e "list_pcap m s" "d(pcap_path s m \<mapsto> ?y)" s q] sv by simp
  have new: "\<not> hasPcap (pm_id m) s" using fresh(2) by (auto simp: hasPcap_def list_ex_iff)
  show "(\<exists>err. a = Some (Inl err) \<and> mPcaps s' = mPcaps s) \<or>
      (\<exists>m. m = new_pcap e n x f t s \<and> a \<in> {None, Some (Inr (pm_id m))} \<and> \<not> hasPcap (pm_id m) s \<and>
         mPcaps s' = mPcaps s @ [m] \<and> d' (pcap_path s' m) = Some (reached e (pcap_path s m) x))"
    using run sv d1 [of m] new unfolding m_def [symmetric]
    by (auto simp: Let_def split: if_splits disk.splits option.splits)
  show "d' (pcap_path s p) = d (pcap_path s p)" if "p \<in> set (mPcaps s)"
    using run sv d1 [of p] fresh(1) [OF that]
    by (auto simp: Let_def remove_file_def split: if_splits disk.splits option.splits)
qed

lemma reached_whole: "env_lost e p = 0 \<Longrightarrow> reached e p x = x" "prefix (reached e p x) x"
  by (simp_all add: reached_def take_is_prefix)

section \<open>The index reads back\<close>

definition tenant_doc :: "domain_meta \<Rightarrow> doc" where
  "tenant_doc m = DObj [(''id'', DStr (dm_id m)), (''name'', DStr (dm_name m)), (''owner'', DStr (dm_owner m)),
     (''created_at'', DStr (dm_createdAt m))]"

definition folder_doc :: "string \<times> string \<Rightarrow> doc" where
  "folder_doc f = DObj [(''domain'', DStr (fst f)), (''name'', DStr (snd f))]"

definition pcap_doc :: "pcap_meta \<Rightarrow> doc" where
  "pcap_doc p = DObj ([(''id'', DStr (pm_id p)), (''name'', DStr (pm_name p)), (''uploaded_at'', DStr (pm_uploadedAt p)),
     (''size'', DNum (u_str (pm_size p)))] @
     (if pm_folder p \<noteq> [] then [(''folder'', DStr (pm_folder p))] else []) @
     (if pm_domain p \<noteq> ''default'' then [(''domain'', DStr (pm_domain p))] else []))"

definition session_doc :: "session_meta \<Rightarrow> doc" where
  "session_doc m = DObj ([(''id'', DStr (ss_id m)), (''name'', DStr (ss_name m)), (''pcap_id'', DStr (ss_pcapId m)),
     (''path'', DStr (ss_path m)), (''created_at'', DStr (ss_createdAt m))] @
     (if ss_domain m \<noteq> ''default'' then [(''domain'', DStr (ss_domain m))] else []) @
     (if ss_pcapIds m \<noteq> [] then [(''pcap_ids'', DArr (map DStr (ss_pcapIds m))),
        (''pcap_aliases'', DArr (map DStr (ss_pcapAliases m)))] else []))"

definition meta_doc :: "store \<Rightarrow> doc" where
  "meta_doc s = DObj ([(''next_pcap'', DNum (u_str (mNextPcap s))), (''next_session'', DNum (u_str (mNextSession s)))] @
     (if mPcapRoot s \<noteq> [] then [(''pcap_root'', DStr (mPcapRoot s))] else []) @
     (if st_domains s \<noteq> [] then [(''domains'', DArr (map tenant_doc (st_domains s)))] else []) @
     (if mPcapFolders s \<noteq> [] then [(''pcap_folders'', DArr (map folder_doc (mPcapFolders s)))] else []) @
     [(''pcaps'', DArr (map pcap_doc (mPcaps s))), (''sessions'', DArr (map session_doc (st_sessions s)))])"

lemma kv_docs: "kv_str k v = kv k (emit_doc (DStr v))" "kv_u64 k w = kv k (emit_doc (DNum (u_str w)))"
  by (rule ext, simp add: kv_str_def kv_u64_def kv_def value_u64_def raw_def)+

lemma obj_doc: "obj (map (\<lambda>(k, x). kv k (emit_doc x)) kvs) = emit_doc (DObj kvs)"
proof -
  have "run (map (\<lambda>(k, x). kv k (emit_doc x)) kvs) = fold (\<lambda>(k, x). emit_doc x \<circ> key k) kvs"
    by (induction kvs) (auto simp: run_Nil run_Cons kv_def)
  then show ?thesis by (simp add: obj_def fun_eq_iff)
qed

lemma arr_doc: "arr (map (\<lambda>x. emit_doc (f x)) xs) = emit_doc (DArr (map f xs))"
  by (rule ext) (simp add: arr_def run_docs)

text \<open>The members written, as the calls of the code.\<close>

abbreviation member_calls :: "(string \<times> doc) list \<Rightarrow> (writer \<Rightarrow> writer) list" where
  "member_calls \<equiv> map (\<lambda>(k, x). kv k (emit_doc x))"

lemma tenant_json_doc: "tenant_json m = emit_doc (tenant_doc m)"
  unfolding tenant_json_def tenant_doc_def obj_doc [symmetric] kv_docs by simp

lemma folder_json_doc: "folder_json m = emit_doc (folder_doc m)"
  unfolding folder_json_def folder_doc_def obj_doc [symmetric] kv_docs by simp

lemma pcap_json_doc: "pcap_json m = emit_doc (pcap_doc m)"
  unfolding pcap_json_def pcap_doc_def obj_doc [symmetric] kv_docs by simp

lemma value_strs: "map value_str xs = map (\<lambda>x. emit_doc (DStr x)) xs"
  by simp

lemma session_json_doc: "session_json m = emit_doc (session_doc m)"
  unfolding session_json_def session_doc_def obj_doc [symmetric] kv_docs value_strs arr_doc by simp

lemma meta_json_doc: "meta_json s = mOut (emit_doc (meta_doc s) JsonWriter)"
proof -
  have docs: "tenant_json = (\<lambda>x. emit_doc (tenant_doc x))" "folder_json = (\<lambda>x. emit_doc (folder_doc x))"
    "pcap_json = (\<lambda>x. emit_doc (pcap_doc x))" "session_json = (\<lambda>x. emit_doc (session_doc x))"
    by (simp_all add: fun_eq_iff tenant_json_doc folder_json_doc pcap_json_doc session_json_doc)
  show ?thesis
    unfolding meta_json_def meta_doc_def docs obj_doc [symmetric] kv_docs arr_doc by simp
qed

lemma good_meta: "good 65 (meta_doc s)"
proof -
  have "good (Suc (Suc (Suc (Suc (Suc (Suc n)))))) (meta_doc s)" for n
    by (auto simp: meta_doc_def tenant_doc_def folder_doc_def pcap_doc_def session_doc_def num_ok_u_str)
  from this [of 59] show ?thesis by simp
qed

text \<open>Each entry reads back.\<close>

definition reread :: "u64 \<Rightarrow> u64" where
  "reread w = num_u64 (real (unat w))"

lemma number_back: "num_u64 (fst (the (strtod (u_str w)))) = reread w" for w :: u64
proof -
  have "value_of (DNum (int_str (int (unat w)))) = Number (of_int (int (unat w)))" by (rule int_str_value)
  then show ?thesis by (simp add: int_str_def u_str_def reread_def)
qed

lemma round_half_even_int: "round_half_even (of_int i) = i"
  by (simp add: round_half_even_def)

lemma dbl_exact:
  assumes "n < 2 ^ 53"
  shows "dbl (real n) = real n"
proof (cases "n = 0")
  case False
  define k where "k = \<lfloor>log 2 (real n)\<rfloor>"
  have "real n < 2 ^ 53" using of_nat_less_iff [of n "2 ^ 53", where 'a = real] assms unfolding of_nat_power of_nat_numeral by (rule iffD2)
  then have "real n < 2 powr 53" by (subst powr_numeral) simp_all
  then have "log 2 (real n) < 53" using False by (intro iffD2 [OF log_less_iff]) simp_all
  then have "k \<le> 52" unfolding k_def by linarith
  define m where "m = nat (52 - k)"
  have u: "(2 :: real) powi (k - 52) = 1 / 2 ^ m"
  proof -
    have "k - 52 = - int m" using \<open>k \<le> 52\<close> by (simp add: m_def)
    then show ?thesis by (simp only: power_int_minus power_int_of_nat inverse_eq_divide)
  qed
  have "real n / (1 / 2 ^ m) = of_int (int (n * 2 ^ m))" by simp
  then have "round_half_even (real n / (1 / 2 ^ m)) = int (n * 2 ^ m)" using round_half_even_int by metis
  then show ?thesis using False u by (simp add: dbl_def k_def Let_def)
qed (simp add: dbl_def)

lemma reread_exact: "unat w < 2 ^ 53 \<Longrightarrow> reread w = w"
proof -
  assume "unat w < 2 ^ 53"
  then have d: "dbl (real (unat w)) = real (unat w)" by (rule dbl_exact)
  have "\<not> real (unat w) < 0" "\<lfloor>real (unat w)\<rfloor> = int (unat w)" by linarith+
  then show "reread w = w" unfolding reread_def num_u64_def d Let_def by simp
qed

lemma load_tenant: "validDomainId (dm_id m) \<Longrightarrow> load_domain (value_of (tenant_doc m)) = [m]"
  by (cases m) (auto simp: load_domain_def tenant_doc_def getStr_def validDomainId_def)

lemma load_folder_back: "slug t \<Longrightarrow> f \<noteq> [] \<Longrightarrow> load_folder (value_of (folder_doc (t, f))) = [(t, f)]"
  using slug_nonempty [of t] by (auto simp: load_folder_def folder_doc_def getStr_def domain_of_def or_else_def)

lemma load_pcap_back: "slug (pm_domain p) \<Longrightarrow> load_pcap (value_of (pcap_doc p)) = p\<lparr>pm_size := reread (pm_size p)\<rparr>"
  using slug_nonempty [of "pm_domain p"] number_back [of "pm_size p"]
  by (cases p) (auto simp: load_pcap_def pcap_doc_def getStr_def getNum_def domain_of_def or_else_def)

lemma strs_back: "map str_of (arr_of (value_of (DArr (map DStr xs)))) = xs"
  by (simp add: arr_of_def str_of_def comp_def)

lemma load_session_back:
  "slug (ss_domain m) \<Longrightarrow> length (ss_pcapAliases m) = length (ss_pcapIds m) \<Longrightarrow>
    load_session (value_of (session_doc m)) = m\<lparr>ss_resolvedPath := []\<rparr>"
  using slug_nonempty [of "ss_domain m"]
  by (cases m) (auto simp: load_session_def session_doc_def getStr_def member_arr_def domain_of_def or_else_def arr_of_def
      str_of_def resize_strs_def comp_def)

lemma concat_singletons: "(\<And>x. x \<in> set xs \<Longrightarrow> f x = [g x]) \<Longrightarrow> concat (map f xs) = map g xs"
  by (induction xs) auto

definition restored :: "store \<Rightarrow> store" where
  "restored s = s\<lparr>mNextPcap := reread (mNextPcap s), mNextSession := reread (mNextSession s),
     mPcaps := map (\<lambda>p. p\<lparr>pm_size := reread (pm_size p)\<rparr>) (mPcaps s),
     st_sessions := map (\<lambda>m. m\<lparr>ss_resolvedPath := []\<rparr>) (st_sessions s)\<rparr>"

text \<open>Below \<open>2\<^sup>5\<^sup>3\<close> nothing is lost in the \<open>double\<close>s.\<close>

definition small_numbers :: "store \<Rightarrow> bool" where
  "small_numbers s \<longleftrightarrow> unat (mNextPcap s) < 2 ^ 53 \<and> unat (mNextSession s) < 2 ^ 53 \<and>
     list_all (\<lambda>p. unat (pm_size p) < 2 ^ 53) (mPcaps s)"

lemma restored_small:
  assumes "small_numbers s"
  shows "restored s = s\<lparr>st_sessions := map (\<lambda>m. m\<lparr>ss_resolvedPath := []\<rparr>) (st_sessions s)\<rparr>"
proof -
  have "map (\<lambda>p. p\<lparr>pm_size := reread (pm_size p)\<rparr>) (mPcaps s) = mPcaps s"
    using assms by (intro map_idI) (auto simp: small_numbers_def list_all_iff reread_exact)
  then show ?thesis using assms by (simp add: restored_def small_numbers_def reread_exact)
qed

lemma member_meta:
  "member_arr ''pcaps'' (value_of (meta_doc s)) = map (value_of \<circ> pcap_doc) (mPcaps s)"
  "member_arr ''sessions'' (value_of (meta_doc s)) = map (value_of \<circ> session_doc) (st_sessions s)"
  "member_arr ''domains'' (value_of (meta_doc s)) = map (value_of \<circ> tenant_doc) (st_domains s)"
  "member_arr ''pcap_folders'' (value_of (meta_doc s)) = map (value_of \<circ> folder_doc) (mPcapFolders s)"
  "getStr ''pcap_root'' '''' (value_of (meta_doc s)) = mPcapRoot s"
  "num_u64 (getNum ''next_pcap'' 1 (value_of (meta_doc s))) = reread (mNextPcap s)"
  "num_u64 (getNum ''next_session'' 1 (value_of (meta_doc s))) = reread (mNextSession s)"
  using number_back [of "mNextPcap s"] number_back [of "mNextSession s"]
  by (auto simp: member_arr_def meta_doc_def arr_of_def getStr_def getNum_def comp_def)

lemma load_meta_back:
  assumes inv: "store_inv s" and root: "mPcapRoot s = [] \<or> env_mkdirs e (mPcapRoot s) = None"
    and s0: "mDataDir s0 = mDataDir s" "mDeviceNames s0 = mDeviceNames s"
  shows "load_meta e (value_of (meta_doc s)) s0 = restored s"
proof -
  have pcaps: "map load_pcap (map (value_of \<circ> pcap_doc) (mPcaps s)) = mPcaps (restored s)"
    using inv by (auto simp: store_inv_defs list_all_iff load_pcap_back restored_def)
  have sessions: "map load_session (map (value_of \<circ> session_doc) (st_sessions s)) = st_sessions (restored s)"
    using inv by (auto simp: store_inv_defs list_all_iff load_session_back restored_def)
  have tenants: "concat (map load_domain (map (value_of \<circ> tenant_doc) (st_domains s))) = st_domains s"
    using inv by (subst map_map, subst concat_singletons [where g = "\<lambda>x. x"])
      (auto simp: store_inv_defs list_all_iff load_tenant)
  have "concat (map load_folder (map (value_of \<circ> folder_doc) (mPcapFolders s))) = mPcapFolders s"
    using inv by (subst map_map, subst concat_singletons [where g = "\<lambda>x. x"])
      (auto simp: store_inv_defs list_all_iff load_folder_back)
  then have folders: "sort (concat (map load_folder (map (value_of \<circ> folder_doc) (mPcapFolders s)))) = mPcapFolders s"
    using inv by (simp add: store_inv_defs sorted_sort_id)
  show ?thesis
    unfolding load_meta_def Let_def member_meta pcaps sessions tenants folders
    using root s0 by (cases s; cases s0) (auto simp: restored_def)
qed

text \<open>The device names: one object of names per domain.\<close>

definition names_doc :: "store \<Rightarrow> doc" where
  "names_doc s = DObj (map (\<lambda>(t, names). (t, DObj (map (\<lambda>(mac, n). (mac, DStr n)) names))) (mDeviceNames s))"

lemma names_json_doc: "names_json s = mOut (emit_doc (names_doc s) JsonWriter)"
proof -
  have inner: "map (\<lambda>(mac, name). kv_str mac name) names = member_calls (map (\<lambda>(mac, n). (mac, DStr n)) names)" for names
    by (auto simp: kv_docs)
  have outer: "map (\<lambda>(t, names). kv t (emit_doc (DObj (map (\<lambda>(mac, n). (mac, DStr n)) names)))) m =
      member_calls (map (\<lambda>(t, names). (t, DObj (map (\<lambda>(mac, n). (mac, DStr n)) names))) m)" for m
    by auto
  show ?thesis
    by (simp only: names_json_def names_doc_def inner obj_doc outer)
qed

lemma good_names: "good 65 (names_doc s)"
proof -
  have "good (Suc (Suc (Suc n))) (names_doc s)" for n
    by (auto simp: names_doc_def)
  from this [of 62] show ?thesis by simp
qed

lemma om_set_last: "om_ok (m @ [(k, x)]) \<Longrightarrow> om_set k v (m @ [(k, x)]) = m @ [(k, v)]"
  by (induction k v m rule: om_set.induct) (auto simp: om_ok_Cons)

lemma map_of_last: "om_ok (m @ [(k, x)]) \<Longrightarrow> map_of (m @ [(k, x)]) k = Some x" "om_ok (m @ [(k, x)]) \<Longrightarrow> map_of m k = None"
  by (auto simp: om_ok_def map_of_eq_None_iff map_add_Some_iff sorted_append)

lemma om_ok_value: "om_ok (m @ [(k, x)]) \<Longrightarrow> om_ok (m @ [(k, y)])"
  by (simp add: om_ok_def)

lemma reload_tenant:
  assumes "om_ok (m @ [(t, ns)])" and "om_ok ns" and "om_all (\<lambda>mac n. n \<noteq> []) ns"
  shows "load_names (t, Object (map (\<lambda>(mac, n). (mac, Str n)) ns)) m = (if ns = [] then m else m @ [(t, ns)])"
  using assms
proof (induction ns rule: rev_induct)
  case (snoc x ns)
  obtain mac n where x: "x = (mac, n)" by force
  have ok: "om_ok ns" "om_all (\<lambda>mac n. n \<noteq> []) ns" "n \<noteq> []"
    using snoc.prems(2,3) om_ok_butlast by (auto simp: x om_all_def)
  have IH: "load_names (t, Object (map (\<lambda>(mac, n). (mac, Str n)) ns)) m = (if ns = [] then m else m @ [(t, ns)])"
    using snoc.IH om_ok_value [OF snoc.prems(1)] ok by blast
  have t: "om_ok (m @ [(t, y)])" for y :: "(string \<times> string) list" using om_ok_value [OF snoc.prems(1)] .
  have "set_name t mac n (if ns = [] then m else m @ [(t, ns)]) = m @ [(t, ns @ [(mac, n)])]"
    using om_set_snoc [OF t] om_set_last [OF t] map_of_last [OF t] om_set_snoc snoc.prems(2)
    by (auto simp: set_name_def om_at_def x)
  then show ?case using IH ok(3) by (simp add: load_names_def x)
qed (simp add: load_names_def)

lemma reload_names:
  assumes "om_ok m" and "om_all (\<lambda>t names. names \<noteq> [] \<and> om_ok names \<and> om_all (\<lambda>mac n. n \<noteq> []) names) m"
  shows "fold load_names (map (\<lambda>(t, names). (t, Object (map (\<lambda>(mac, n). (mac, Str n)) names))) m) [] = m"
  using assms
proof (induction m rule: rev_induct)
  case (snoc x m)
  obtain t ns where x: "x = (t, ns)" by force
  have ns: "ns \<noteq> []" "om_ok ns" "om_all (\<lambda>mac n. n \<noteq> []) ns" using snoc.prems(2) by (auto simp: x om_all_def)
  have "fold load_names (map (\<lambda>(t, names). (t, Object (map (\<lambda>(mac, n). (mac, Str n)) names))) m) [] = m"
    using snoc om_ok_butlast [OF snoc.prems(1)] by (auto simp: om_all_def)
  then show ?case using reload_tenant [OF snoc.prems(1) [unfolded x] ns(2,3)] ns(1) by (simp add: x)
qed simp

lemma names_value: "obj_of (value_of (names_doc s)) =
    map (\<lambda>(t, names). (t, Object (map (\<lambda>(mac, n). (mac, Str n)) names))) (mDeviceNames s)"
  by (auto simp: obj_of_def names_doc_def comp_def case_prod_beta)

definition all_dirs :: "env \<Rightarrow> string \<Rightarrow> bool" where
  "all_dirs e dir \<longleftrightarrow> env_mkdir e dir \<and> env_mkdir e (dir @ ''/pcaps'') \<and> env_mkdir e (dir @ ''/sessions'')"

text \<open>A restart over the two index files.  The parser takes a mebibyte: past it the index makes
  the start fail, and the names are dropped without a word.\<close>

definition restarted :: "store \<Rightarrow> string + store" where
  "restarted s =
     (if length (meta_json s) \<le> 1024 * 1024
      then Inr (if length (names_json s) \<le> 1024 * 1024 then restored s else (restored s)\<lparr>mDeviceNames := []\<rparr>)
      else Inl (cat [''cannot parse meta.json: '', ''JSON body too large'']))"

lemma store_restarts:
  assumes inv: "store_inv s" and dirs: "all_dirs e (mDataDir s)" and root: "mPcapRoot s = [] \<or> env_mkdirs e (mPcapRoot s) = None"
    and disk: "d (meta_path s) = Some (meta_json s)" "d (devices_path s) = Some (names_json s)"
  shows "store_init e (mDataDir s) d = restarted s"
proof -
  have names: "(case parse (names_json s) of Inl _ \<Rightarrow> [] | Inr j \<Rightarrow> fold load_names (obj_of j) []) =
      (if length (names_json s) \<le> 1024 * 1024 then mDeviceNames s else [])" (is "?names = _")
  proof (cases "length (names_json s) \<le> 1024 * 1024")
    case True
    then have "parse (names_json s) = Inr (value_of (names_doc s))"
      using writer_parses good_names unfolding names_json_doc by blast
    moreover have "fold load_names (obj_of (value_of (names_doc s))) [] = mDeviceNames s"
      unfolding names_value using inv by (intro reload_names) (simp_all add: store_inv_defs)
    ultimately show ?thesis using True by simp
  qed (simp add: parse_def)
  define s1 where "s1 = (Store (mDataDir s))\<lparr>mDeviceNames := ?names\<rparr>"
  have init: "store_init e (mDataDir s) d = (case parse (meta_json s) of
      Inl perr \<Rightarrow> Inl (cat [''cannot parse meta.json: '', perr])
    | Inr Null \<Rightarrow> Inl (cat [''cannot parse meta.json: '', '''']) | Inr j \<Rightarrow> Inr (load_meta e j s1))"
    using dirs unfolding store_init_def s1_def Let_def disk [unfolded meta_path_def devices_path_def] option.case
    by (simp add: all_dirs_def)
  show ?thesis
  proof (cases "length (meta_json s) \<le> 1024 * 1024")
    case True
    then have p: "parse (meta_json s) = Inr (value_of (meta_doc s))"
      using writer_parses good_meta unfolding meta_json_doc by blast
    obtain kvs where v: "value_of (meta_doc s) = Object kvs" by (simp add: meta_doc_def)
    let ?s = "s\<lparr>mDeviceNames := ?names\<rparr>"
    have "store_inv ?s" using inv names by (auto simp: store_inv_defs)
    moreover have "value_of (meta_doc ?s) = value_of (meta_doc s)" by (simp add: meta_doc_def)
    ultimately have "load_meta e (value_of (meta_doc s)) s1 = restored ?s"
      using load_meta_back [of ?s e s1] root by (simp add: s1_def Store_def)
    then show ?thesis using init p v True names by (simp add: restarted_def restored_def)
  qed (simp add: init parse_def restarted_def)
qed

section \<open>An example library\<close>

definition calm_env :: env where
  "calm_env = \<lparr>env_mkdir = (\<lambda>_. True), env_mkdirs = (\<lambda>_. None), env_copy = (\<lambda>_ _. None), env_stream = (\<lambda>_. Writes),
     env_lost = (\<lambda>_. 0), env_stuck = (\<lambda>_. False),
     env_meta = healthy, env_devices = healthy, env_now = ''2026-01-01T00:00:00Z''\<rparr>"

definition two_tenants :: store where
  "two_tenants = (Store ''/data'')\<lparr>mNextPcap := 3, st_domains := [\<lparr>dm_id = ''lab'', dm_name = ''Lab'', dm_owner = ''ann'', dm_createdAt = ''''\<rparr>],
     mPcaps := [\<lparr>pm_id = ''p1'', pm_name = ''a'', pm_uploadedAt = '''', pm_size = 1, pm_folder = '''', pm_domain = ''default''\<rparr>,
       \<lparr>pm_id = ''p2'', pm_name = ''b'', pm_uploadedAt = '''', pm_size = 1, pm_folder = '''', pm_domain = ''lab''\<rparr>]\<rparr>"

lemma two_tenants_inv: "store_inv two_tenants" "apart two_tenants"
  by (simp_all add: two_tenants_def Store_def store_inv_defs apart_def pcapRoot_def id_ok_def is_digit_def dec_val_def slug_def
      validDomainId_def domain_char_def)

lemma two_tenants_files: "pcap_path two_tenants (mPcaps two_tenants ! 0) = ''/data/pcaps/p1.pcap''"
    "pcap_path two_tenants (mPcaps two_tenants ! 1) = ''/data/pcaps/domains/lab/p2.pcap''"
  by (simp_all add: two_tenants_def Store_def pcap_path_def pcapRoot_def pcapRelPath_def)

lemma fresh_store [simp]: "mDataDir (Store dir) = dir" "mPcapRoot (Store dir) = []" "meta_path (Store dir) = dir @ ''/meta.json''"
    "devices_path (Store dir) = dir @ ''/devices.json''" "all_dirs calm_env dir"
  by (simp_all add: Store_def meta_path_def devices_path_def all_dirs_def calm_env_def)

end
