(* ===== verification/Thread_Pool.thy ===== *)
theory Thread_Pool
  imports Prelude
begin

text \<open>
  \<open>backend/src/engine/thread_pool.h\<close>: the demand-grown pool, as a step relation over the
  critical sections of \<open>post\<close>, \<open>stop\<close> and \<open>worker\<close>.  A thread is before its lock, waiting on
  the condition variable, between taking a task and counting itself active, running a task, or
  gone.  The two logs \<open>accepted\<close> and \<open>taken\<close> are ghosts: the tasks queued and started so far.
\<close>

section \<open>The pool\<close>

datatype 'a thread = Ready | Waiting | Taken 'a | Active 'a | Exited

record 'a pool =
  mQueue :: "'a list"
  mThreads :: "'a thread list"
  mMax :: u32
  mIdle :: u32
  mActive :: u32
  mStopping :: bool
  accepted :: "'a list"
  taken :: "'a list"

definition ThreadPool :: "u32 \<Rightarrow> 'a pool" where
  "ThreadPool maxThreads = \<lparr>mQueue = [], mThreads = [], mMax = (if maxThreads \<noteq> 0 then maxThreads else 1), mIdle = 0,
     mActive = 0, mStopping = False, accepted = [], taken = []\<rparr>"

definition post :: "'a \<Rightarrow> 'a pool \<Rightarrow> 'a pool" where
  "post x p =
     (if mStopping p then p
      else p\<lparr>mQueue := mQueue p @ [x], accepted := accepted p @ [x],
             mThreads := (if mIdle p = 0 \<and> length (mThreads p) < unat (mMax p) then mThreads p @ [Ready] else mThreads p)\<rparr>)"

definition stop_pool :: "'a pool \<Rightarrow> 'a pool" where
  "stop_pool p = p\<lparr>mStopping := True\<rparr>"

text \<open>Taking the head of the queue; \<open>idle\<close> is the counter after the wait.\<close>

definition take_task :: "nat \<Rightarrow> u32 \<Rightarrow> 'a pool \<Rightarrow> 'a pool" where
  "take_task i idle p = p\<lparr>mIdle := idle, mQueue := tl (mQueue p), taken := taken p @ [hd (mQueue p)],
     mThreads := (mThreads p)[i := Taken (hd (mQueue p))]\<rparr>"

definition set_thread :: "nat \<Rightarrow> 'a thread \<Rightarrow> u32 \<Rightarrow> u32 \<Rightarrow> 'a pool \<Rightarrow> 'a pool" where
  "set_thread i t idle active p = p\<lparr>mThreads := (mThreads p)[i := t], mIdle := idle, mActive := active\<rparr>"

inductive pool_step :: "'a pool \<Rightarrow> 'a pool \<Rightarrow> bool" where
  posting: "pool_step p (post x p)"
| stopping: "pool_step p (stop_pool p)"
| wait: "i < length (mThreads p) \<Longrightarrow> mThreads p ! i = Ready \<Longrightarrow> \<not> mStopping p \<Longrightarrow> mQueue p = [] \<Longrightarrow>
    pool_step p (set_thread i Waiting (mIdle p + 1) (mActive p) p)"
| take_now: "i < length (mThreads p) \<Longrightarrow> mThreads p ! i = Ready \<Longrightarrow> mQueue p \<noteq> [] \<Longrightarrow>
    pool_step p (take_task i (mIdle p + 1 - 1) p)"
| leave_now: "i < length (mThreads p) \<Longrightarrow> mThreads p ! i = Ready \<Longrightarrow> mStopping p \<Longrightarrow> mQueue p = [] \<Longrightarrow>
    pool_step p (set_thread i Exited (mIdle p + 1 - 1) (mActive p) p)"
| wake: "i < length (mThreads p) \<Longrightarrow> mThreads p ! i = Waiting \<Longrightarrow> mQueue p \<noteq> [] \<Longrightarrow>
    pool_step p (take_task i (mIdle p - 1) p)"
| wake_leave: "i < length (mThreads p) \<Longrightarrow> mThreads p ! i = Waiting \<Longrightarrow> mStopping p \<Longrightarrow> mQueue p = [] \<Longrightarrow>
    pool_step p (set_thread i Exited (mIdle p - 1) (mActive p) p)"
| run: "i < length (mThreads p) \<Longrightarrow> mThreads p ! i = Taken x \<Longrightarrow>
    pool_step p (set_thread i (Active x) (mIdle p) (mActive p + 1) p)"
| finish: "i < length (mThreads p) \<Longrightarrow> mThreads p ! i = Active x \<Longrightarrow>
    pool_step p (set_thread i Ready (mIdle p) (mActive p - 1) p)"
| joined: "mStopping p \<Longrightarrow> list_all (\<lambda>t. t = Exited) (mThreads p) \<Longrightarrow> pool_step p (p\<lparr>mThreads := []\<rparr>)"

inductive_cases pool_stepE [elim]: "pool_step p q"

section \<open>The invariant\<close>

definition waiting_count :: "'a pool \<Rightarrow> nat" where
  "waiting_count p = length (filter (\<lambda>t. t = Waiting) (mThreads p))"

definition is_active :: "'a thread \<Rightarrow> bool" where
  "is_active t \<longleftrightarrow> (case t of Active _ \<Rightarrow> True | _ \<Rightarrow> False)"

definition active_count :: "'a pool \<Rightarrow> nat" where
  "active_count p = length (filter is_active (mThreads p))"

definition pool_inv :: "'a pool \<Rightarrow> bool" where
  "pool_inv p \<longleftrightarrow> 0 < mMax p \<and> length (mThreads p) \<le> unat (mMax p) \<and> unat (mIdle p) = waiting_count p \<and>
     unat (mActive p) = active_count p \<and> accepted p = taken p @ mQueue p \<and>
     (mQueue p \<noteq> [] \<longrightarrow> list_ex (\<lambda>t. t \<noteq> Exited) (mThreads p)) \<and>
     (\<not> mStopping p \<longrightarrow> list_all (\<lambda>t. t \<noteq> Exited) (mThreads p))"

lemma filter_update:
  "i < length xs \<Longrightarrow> length (filter P (xs[i := y])) + (if P (xs ! i) then 1 else 0) = length (filter P xs) + (if P y then 1 else 0)"
proof (induction xs arbitrary: i)
  case (Cons x xs)
  then show ?case by (cases i) fastforce+
qed simp

lemma filter_update_cases:
  assumes "i < length xs"
  shows "P (xs ! i) = P y \<Longrightarrow> length (filter P (xs[i := y])) = length (filter P xs)"
    and "P (xs ! i) \<Longrightarrow> \<not> P y \<Longrightarrow> Suc (length (filter P (xs[i := y]))) = length (filter P xs)"
    and "\<not> P (xs ! i) \<Longrightarrow> P y \<Longrightarrow> length (filter P (xs[i := y])) = Suc (length (filter P xs))"
  using filter_update [OF assms, of P y] by (auto split: if_splits)

lemma unat_inc: "unat w + 1 < 2 ^ 32 \<Longrightarrow> unat (w + 1) = Suc (unat w)" for w :: u32
  by (simp add: unat_word_ariths)

lemma unat_dec: "unat w = Suc n \<Longrightarrow> unat (w - 1) = n" for w :: u32
  using unat_minus_one [of w] by (cases "w = 0") auto

lemma counts_bound: "waiting_count p \<le> length (mThreads p)" "active_count p \<le> length (mThreads p)"
  by (simp_all add: waiting_count_def active_count_def)

lemma inc_idle:
  assumes "pool_inv p" and "i < length (mThreads p)" and "mThreads p ! i \<noteq> Waiting"
  shows "unat (mIdle p + 1) = Suc (waiting_count p)"
proof -
  have "Suc (waiting_count p) = length (filter (\<lambda>t. t = Waiting) ((mThreads p)[i := Waiting]))"
    using filter_update_cases(3) [OF assms(2), of "\<lambda>t. t = Waiting" Waiting] assms(3) by (simp add: waiting_count_def)
  also have "\<dots> \<le> length (mThreads p)" by (metis length_filter_le length_list_update)
  finally have "Suc (waiting_count p) \<le> unat (mMax p)" using assms(1) by (simp add: pool_inv_def)
  moreover have "unat (mMax p) < 2 ^ 32" using unsigned_less [of "mMax p"] by simp
  ultimately show ?thesis using assms(1) by (simp add: pool_inv_def unat_inc)
qed

lemma inc_active:
  assumes "pool_inv p" and "i < length (mThreads p)" and "mThreads p ! i = Taken x"
  shows "unat (mActive p + 1) = Suc (active_count p)"
proof -
  have "Suc (active_count p) = length (filter is_active ((mThreads p)[i := Active x]))"
    using filter_update_cases(3) [OF assms(2), of is_active "Active x"] assms(3) by (simp add: active_count_def is_active_def)
  also have "\<dots> \<le> length (mThreads p)" by (metis length_filter_le length_list_update)
  finally have "Suc (active_count p) \<le> unat (mMax p)" using assms(1) by (simp add: pool_inv_def)
  moreover have "unat (mMax p) < 2 ^ 32" using unsigned_less [of "mMax p"] by simp
  ultimately show ?thesis using assms(1) by (simp add: pool_inv_def unat_inc)
qed

lemma live_update: "i < length ts \<Longrightarrow> t \<noteq> Exited \<Longrightarrow> list_ex (\<lambda>t. t \<noteq> Exited) (ts[i := t])"
  by (auto simp: list_ex_iff set_update_memI intro: bexI [of _ t])

lemma all_update: "list_all P ts \<Longrightarrow> P t \<Longrightarrow> list_all P (ts[i := t])"
  using set_update_subset_insert [of ts i t] by (auto simp: list_all_iff)

lemma some_left: "ts \<noteq> [] \<Longrightarrow> list_all (\<lambda>t. t \<noteq> Exited) ts \<Longrightarrow> list_ex (\<lambda>t. t \<noteq> Exited) ts"
  by (cases ts) auto

lemma post_inv: "pool_inv p \<Longrightarrow> pool_inv (post x p)"
proof (cases "mStopping p")
  case False
  assume inv: "pool_inv p"
  have alive: "list_all (\<lambda>t. t \<noteq> Exited) (mThreads p)" using inv False by (simp add: pool_inv_def)
  have "mThreads p \<noteq> [] \<or> mIdle p = 0 \<and> length (mThreads p) < unat (mMax p)"
    using inv by (auto simp: pool_inv_def waiting_count_def word_greater_zero_iff unat_gt_0 unat_eq_zero)
  then have "list_ex (\<lambda>t. t \<noteq> Exited) (mThreads (post x p))"
    using False some_left [OF _ alive] by (cases "mThreads p = []") (auto simp: post_def)
  then show ?thesis
    using inv False by (auto simp: pool_inv_def post_def waiting_count_def active_count_def is_active_def)
qed (simp add: post_def)

lemma take_inv:
  assumes inv: "pool_inv p" and i: "i < length (mThreads p)" and t: "\<not> is_active (mThreads p ! i)" and q: "mQueue p \<noteq> []"
    and idle: "unat idle + (if mThreads p ! i = Waiting then 1 else 0) = waiting_count p"
  shows "pool_inv (take_task i idle p)"
proof -
  have "waiting_count (take_task i idle p) = unat idle"
    using idle filter_update [OF i, of "\<lambda>t. t = Waiting" "Taken (hd (mQueue p))"]
    by (auto simp: waiting_count_def take_task_def split: if_splits)
  moreover have "active_count (take_task i idle p) = active_count p"
    using t filter_update_cases(1) [OF i, of is_active "Taken (hd (mQueue p))"]
    by (simp add: active_count_def take_task_def is_active_def)
  moreover have "accepted p = taken p @ hd (mQueue p) # tl (mQueue p)" using inv q by (simp add: pool_inv_def)
  ultimately show ?thesis
    using inv i live_update [OF i, of "Taken (hd (mQueue p))"]
    by (auto simp: pool_inv_def take_task_def intro!: all_update)
qed

lemma set_inv:
  assumes inv: "pool_inv p" and i: "i < length (mThreads p)"
    and idle: "unat idle + (if mThreads p ! i = Waiting then 1 else 0) = waiting_count p + (if t = Waiting then 1 else 0)"
    and active: "unat active + (if is_active (mThreads p ! i) then 1 else 0) = active_count p + (if is_active t then 1 else 0)"
    and exit: "t = Exited \<Longrightarrow> mStopping p \<and> mQueue p = []"
  shows "pool_inv (set_thread i t idle active p)"
proof -
  have "waiting_count (set_thread i t idle active p) = unat idle"
    using idle filter_update [OF i, of "\<lambda>t. t = Waiting" t] by (auto simp: waiting_count_def set_thread_def split: if_splits)
  moreover have "active_count (set_thread i t idle active p) = unat active"
    using active filter_update [OF i, of is_active t] by (auto simp: active_count_def set_thread_def split: if_splits)
  ultimately show ?thesis
    using inv i live_update [OF i, of t] exit by (auto simp: pool_inv_def set_thread_def intro!: all_update)
qed

lemma dec_idle: "pool_inv p \<Longrightarrow> i < length (mThreads p) \<Longrightarrow> mThreads p ! i = Waiting \<Longrightarrow> Suc (unat (mIdle p - 1)) = waiting_count p"
  using filter_update_cases(2) [of i "mThreads p" "\<lambda>t. t = Waiting" Ready] unat_dec [of "mIdle p"]
  by (simp add: pool_inv_def waiting_count_def) metis

lemma dec_active: "pool_inv p \<Longrightarrow> i < length (mThreads p) \<Longrightarrow> mThreads p ! i = Active x \<Longrightarrow> Suc (unat (mActive p - 1)) = active_count p"
  using filter_update_cases(2) [of i "mThreads p" is_active Ready] unat_dec [of "mActive p"]
  by (simp add: pool_inv_def active_count_def is_active_def) metis

lemma pool_step_inv: "pool_step p q \<Longrightarrow> pool_inv p \<Longrightarrow> pool_inv q"
proof (induction rule: pool_step.induct)
  case (posting p x)
  then show ?case by (rule post_inv)
next
  case (stopping p)
  then show ?case by (simp add: pool_inv_def stop_pool_def waiting_count_def active_count_def)
next
  case (wait i p)
  then show ?case using inc_idle [of p i] by (intro set_inv) (auto simp: is_active_def pool_inv_def)
next
  case (take_now i p)
  then show ?case by (intro take_inv) (auto simp: is_active_def pool_inv_def)
next
  case (leave_now i p)
  then show ?case by (intro set_inv) (auto simp: is_active_def pool_inv_def)
next
  case (wake i p)
  then show ?case using dec_idle [of p i] by (intro take_inv) (auto simp: is_active_def)
next
  case (wake_leave i p)
  then show ?case using dec_idle [of p i] by (intro set_inv) (auto simp: is_active_def pool_inv_def)
next
  case (run i p x)
  then show ?case using inc_active [of p i x] by (intro set_inv) (auto simp: is_active_def pool_inv_def)
next
  case (finish i p x)
  then show ?case using dec_active [of p i x] by (intro set_inv) (auto simp: is_active_def pool_inv_def)
next
  case (joined p)
  then have "mQueue p = []" by (auto simp: pool_inv_def list_all_iff list_ex_iff)
  moreover have "filter (\<lambda>t. t = Waiting) (mThreads p) = []" "filter is_active (mThreads p) = []"
    using joined by (auto simp: list_all_iff filter_empty_conv is_active_def)
  ultimately show ?case
    using joined by (simp add: pool_inv_def waiting_count_def active_count_def)
qed

lemma pool_steps_inv: "pool_step\<^sup>*\<^sup>* p q \<Longrightarrow> pool_inv p \<Longrightarrow> pool_inv q"
  by (induction rule: rtranclp_induct) (auto dest: pool_step_inv)

lemma new_pool_inv: "pool_inv (ThreadPool n)"
  by (simp add: pool_inv_def ThreadPool_def waiting_count_def active_count_def word_gt_0)

section \<open>Tasks are started in order, and all of them\<close>

text \<open>While a task is queued some thread has yet to come back for it; a thread that is not
  running one can take it at once.\<close>

lemma queued_taken:
  assumes "mQueue p \<noteq> []" and "i < length (mThreads p)" and "mThreads p ! i \<in> {Ready, Waiting}"
  shows "\<exists>q. pool_step p q \<and> mQueue q = tl (mQueue p) \<and> taken q = taken p @ [hd (mQueue p)]"
proof (cases "mThreads p ! i = Ready")
  case True
  then show ?thesis using pool_step.take_now [OF assms(2) _ assms(1)] by (auto simp: take_task_def)
next
  case False
  then show ?thesis using pool_step.wake [OF assms(2) _ assms(1)] assms(3) by (auto simp: take_task_def)
qed

text \<open>The stop waits for the threads; once they are gone every accepted task has been started.\<close>

lemma drained: "pool_inv p \<Longrightarrow> list_all (\<lambda>t. t = Exited) (mThreads p) \<Longrightarrow> taken p = accepted p"
  by (auto simp: pool_inv_def list_all_iff list_ex_iff)

text \<open>A second task posted before the one idle thread wakes is queued behind the first, with
  threads to spare: \<open>post\<close> asks whether a thread is idle, not whether it is spoken for.\<close>

definition starved :: "nat pool" where
  "starved = \<lparr>mQueue = [2], mThreads = [Active 1], mMax = 64, mIdle = 0, mActive = 1, mStopping = False,
     accepted = [0, 1, 2], taken = [0, 1]\<rparr>"

lemma starvation_reachable: "pool_step\<^sup>*\<^sup>* (ThreadPool 64) starved"
proof -
  define p1 where "p1 = post 0 (ThreadPool 64 :: nat pool)"
  define p2 where "p2 = take_task 0 (mIdle p1 + 1 - 1) p1"
  define p3 where "p3 = set_thread 0 (Active 0) (mIdle p2) (mActive p2 + 1) p2"
  define p4 where "p4 = set_thread 0 Ready (mIdle p3) (mActive p3 - 1) p3"
  define p5 where "p5 = set_thread 0 Waiting (mIdle p4 + 1) (mActive p4) p4"
  define p6 where "p6 = post 2 (post 1 p5)"
  define p7 where "p7 = take_task 0 (mIdle p6 - 1) p6"
  define p8 where "p8 = set_thread 0 (Active 1) (mIdle p7) (mActive p7 + 1) p7"
  note defs = p8_def p7_def p6_def p5_def p4_def p3_def p2_def p1_def ThreadPool_def post_def take_task_def set_thread_def
  have "pool_step (ThreadPool 64) p1" unfolding p1_def by (rule pool_step.posting)
  moreover have "pool_step p1 p2" unfolding p2_def by (rule pool_step.take_now) (simp_all add: defs)
  moreover have "pool_step p2 p3" unfolding p3_def by (rule pool_step.run) (simp_all add: defs)
  moreover have "pool_step p3 p4" unfolding p4_def by (rule pool_step.finish [where x = 0]) (simp_all add: defs)
  moreover have "pool_step p4 p5" unfolding p5_def by (rule pool_step.wait) (simp_all add: defs)
  moreover have "pool_step p5 (post 1 p5)" "pool_step (post 1 p5) p6" unfolding p6_def by (rule pool_step.posting)+
  moreover have "pool_step p6 p7" unfolding p7_def by (rule pool_step.wake) (simp_all add: defs)
  moreover have "pool_step p7 p8" unfolding p8_def by (rule pool_step.run) (simp_all add: defs)
  moreover have "p8 = starved" by (simp add: defs starved_def)
  ultimately show ?thesis by (meson converse_rtranclp_into_rtranclp rtranclp.rtrancl_refl)
qed

lemma pool_reachable:
  fixes p :: "'a pool"
  assumes "pool_step\<^sup>*\<^sup>* (ThreadPool n) p"
  shows "length (mThreads p) \<le> max 1 (unat n) \<and> unat (mIdle p) = waiting_count p \<and> unat (mActive p) = active_count p \<and>
    accepted p = taken p @ mQueue p"
proof -
  have "mMax p = mMax (ThreadPool n :: 'a pool)" using assms
  proof (induction rule: rtranclp_induct)
    case (step p q)
    then show ?case by (auto simp: post_def stop_pool_def take_task_def set_thread_def elim!: pool_stepE)
  qed simp
  then have "unat (mMax p) = max 1 (unat n)"
    using unat_eq_zero [of n] by (cases "n = 0") (auto simp: ThreadPool_def max_def)
  then show ?thesis using pool_steps_inv [OF assms new_pool_inv] by (simp add: pool_inv_def)
qed

end
