(* ===== verification/Http.thy ===== *)
theory Http
  imports Snapshot Netaddr
begin

text \<open>
  \<open>backend/src/net/http.cpp\<close>: reading requests off a connection, answering them, and the
  registry of connected clients.  A socket is the list of the segments its peer sent before it
  closed or fell silent; a \<open>recv\<close> of at most \<open>n\<close> bytes takes them from the first segment.  What
  the connection sends is the list of the texts of its responses.  The lemmas frame what a
  request takes off the connection and show for which heads the segments matter.
\<close>

section \<open>Requests and responses\<close>

record http_request =
  hr_method :: string
  hr_path :: string
  hr_query :: "(string, string) omap"
  hr_headers :: "(string, string) omap"
  hr_body :: string
  hr_clientAddr :: string

record http_response =
  rp_status :: int
  rp_contentType :: string
  rp_body :: string
  rp_extraHeaders :: "(string \<times> string) list"

definition HttpResponse :: http_response where
  "HttpResponse = \<lparr>rp_status = 200, rp_contentType = ''application/json'', rp_body = [], rp_extraHeaders = []\<rparr>"

definition header :: "string \<Rightarrow> http_request \<Rightarrow> string" where
  "header name r = om_at [] (hr_headers r) name"

definition queryParam :: "string \<Rightarrow> http_request \<Rightarrow> string" where
  "queryParam name r = om_at [] (hr_query r) name"

definition kMaxHeaderBytes :: nat where "kMaxHeaderBytes = 64 * 1024"

definition reason :: "int \<Rightarrow> string" where
  "reason st =
     (if st = 101 then ''Switching Protocols'' else if st = 200 then ''OK'' else if st = 201 then ''Created''
      else if st = 204 then ''No Content'' else if st = 400 then ''Bad Request'' else if st = 401 then ''Unauthorized''
      else if st = 403 then ''Forbidden'' else if st = 404 then ''Not Found'' else if st = 405 then ''Method Not Allowed''
      else if st = 409 then ''Conflict'' else if st = 413 then ''Payload Too Large''
      else if st = 501 then ''Not Implemented'' else ''Internal Server Error'')"

section \<open>Text\<close>

definition lower_ascii :: "char \<Rightarrow> char" where
  "lower_ascii c = (let n = of_char c :: nat in if 65 \<le> n \<and> n \<le> 90 then char_of (n + 32) else c)"

definition toLower :: "string \<Rightarrow> string" where
  "toLower s = map lower_ascii s"

definition hex_digit :: "char \<Rightarrow> nat option" where
  "hex_digit c = (let n = of_char c :: nat in
     if 48 \<le> n \<and> n \<le> 57 then Some (n - 48) else if 97 \<le> n \<and> n \<le> 102 then Some (n - 87)
     else if 65 \<le> n \<and> n \<le> 70 then Some (n - 55) else None)"

definition plus_char :: "char \<Rightarrow> char" where
  "plus_char c = (if c = CHR ''+'' then CHR '' '' else c)"

fun urlDecode :: "string \<Rightarrow> string" where
  "urlDecode (c # h # l # s) =
     (if c = CHR ''%'' \<and> hex_digit h \<noteq> None \<and> hex_digit l \<noteq> None
      then char_of (the (hex_digit h) * 16 + the (hex_digit l)) # urlDecode s
      else plus_char c # urlDecode (h # l # s))"
| "urlDecode (c # s) = plus_char c # urlDecode s"
| "urlDecode [] = []"

definition crlf :: string where "crlf = [CHR 0x0D, CHR 0x0A]"

text \<open>The text before and after the first occurrence of a pattern.\<close>

fun cut :: "string \<Rightarrow> string \<Rightarrow> (string \<times> string) option" where
  "cut pat [] = (if pat = [] then Some ([], []) else None)"
| "cut pat (c # s) = (if prefix pat (c # s) then Some ([], drop (length pat) (c # s)) else map_option (apfst (Cons c)) (cut pat s))"

lemma cut_Some: "cut pat s = Some (a, b) \<Longrightarrow> s = a @ pat @ b"
  by (induction pat s arbitrary: a b rule: cut.induct) (auto simp: prefix_def split: if_splits)

fun split_on :: "char \<Rightarrow> string \<Rightarrow> string list" where
  "split_on c [] = [[]]"
| "split_on c (x # s) = (if x = c then [] # split_on c s else (x # hd (split_on c s)) # tl (split_on c s))"

text \<open>\<open>strtoull\<close> in base ten: the value and the rest of the C string.\<close>

definition is_space :: "char \<Rightarrow> bool" where
  "is_space c \<longleftrightarrow> c \<in> {CHR '' '', CHR 0x09, CHR 0x0A, CHR 0x0B, CHR 0x0C, CHR 0x0D}"

definition strtoull :: "string \<Rightarrow> u64 \<times> string" where
  "strtoull s0 =
     (let s = c_str s0; t = dropWhile is_space s;
          (neg, u) = (case t of c # r \<Rightarrow> if c = CHR ''-'' then (True, r) else if c = CHR ''+'' then (False, r) else (False, t)
             | [] \<Rightarrow> (False, t));
          ds = takeWhile is_digit u
      in if ds = [] then (0, s)
         else if dec_val ds \<ge> 2 ^ 64 then (- 1, dropWhile is_digit u)
         else (if neg then - of_nat (dec_val ds) else of_nat (dec_val ds), dropWhile is_digit u))"

section \<open>Reading a request\<close>

fun recv :: "nat \<Rightarrow> string list \<Rightarrow> (string \<times> string list) option" where
  "recv n [] = None"
| "recv n (seg # segs) =
     (if seg = [] then None else if length seg \<le> n then Some (seg, segs) else Some (take n seg, drop n seg # segs))"

definition left_in :: "string list \<Rightarrow> nat" where
  "left_in segs = length (concat segs)"

lemma recv_concat: "recv n segs = Some (x, segs') \<Longrightarrow> concat segs = x @ concat segs' \<and> (0 < n \<longrightarrow> x \<noteq> []) \<and> length x \<le> n"
  by (cases segs) (auto split: if_splits simp flip: append_assoc)

lemma recv_less: "recv n segs = Some (x, segs') \<Longrightarrow> 0 < n \<Longrightarrow> left_in segs' < left_in segs"
  using recv_concat [of n segs x segs'] by (auto simp: left_in_def)

text \<open>Errors are HTTP statuses; 0 is a connection closed or timed out.\<close>

function read_head :: "string \<Rightarrow> string list \<Rightarrow> (int + string \<times> string) \<times> string list" where
  "read_head buffered segs =
     (case cut (crlf @ crlf) buffered of
        Some (h, rest) \<Rightarrow> (Inr (h, rest), segs)
      | None \<Rightarrow>
          if length buffered > kMaxHeaderBytes then (Inl 431, segs)
          else (case recv (16 * 1024) segs of
                  None \<Rightarrow> (Inl 0, segs)
                | Some (x, segs') \<Rightarrow> read_head (buffered @ x) segs'))"
  by auto
termination by (relation "measure (left_in \<circ> snd)") (auto dest: recv_less)

declare read_head.simps [simp del]

definition parse_query :: "string \<Rightarrow> (string, string) omap" where
  "parse_query qs = fold (\<lambda>kv m. if kv = [] then m
     else case cut ''='' kv of
       None \<Rightarrow> om_set (urlDecode kv) [] m
     | Some (k, v) \<Rightarrow> om_set (urlDecode k) (urlDecode v) m) (split_on (CHR ''&'') qs) []"

function header_lines :: "string \<Rightarrow> string list" where
  "header_lines s = (if s = [] then [] else case cut crlf s of None \<Rightarrow> [s] | Some (l, r) \<Rightarrow> l # header_lines r)"
  by auto
termination by (relation "measure length") (auto dest!: cut_Some simp: crlf_def)

declare header_lines.simps [simp del]

definition add_header :: "string \<Rightarrow> (string, string) omap \<Rightarrow> (string, string) omap" where
  "add_header l m = (case cut '':'' l of
     None \<Rightarrow> m
   | Some (name, v) \<Rightarrow> om_set (toLower name) (dropWhile (\<lambda>c. c = CHR '' '' \<or> c = CHR 0x09) v) m)"

definition parse_headers :: "string \<Rightarrow> (string, string) omap" where
  "parse_headers s = fold add_header (header_lines s) []"

text \<open>The request line and the headers; without a line end the headers start at the second byte.\<close>

definition parse_head :: "string \<Rightarrow> string \<Rightarrow> http_request option" where
  "parse_head addr h =
     (let (line, hs) = (case cut crlf h of None \<Rightarrow> (h, drop 1 h) | Some (l, r) \<Rightarrow> (l, r))
      in case cut '' '' line of
           None \<Rightarrow> None
         | Some (m, r) \<Rightarrow>
             if CHR '' '' \<notin> set r then None
             else let target = rev (tl (dropWhile (\<lambda>c. c \<noteq> CHR '' '') (rev r)));
                      (path, query) = (case cut ''?'' target of None \<Rightarrow> (target, []) | Some (p, q) \<Rightarrow> (p, parse_query q))
                  in Some \<lparr>hr_method = m, hr_path = urlDecode path, hr_query = query, hr_headers = parse_headers hs,
                       hr_body = [], hr_clientAddr = addr\<rparr>)"

text \<open>The length of the body, or the status of the refusal.\<close>

definition body_length :: "nat \<Rightarrow> http_request \<Rightarrow> int + nat" where
  "body_length maxBody r =
     (if header ''transfer-encoding'' r \<noteq> [] then Inl 501
      else let cl = header ''content-length'' r in
        if cl = [] then Inr 0
        else case strtoull cl of (v, rest) \<Rightarrow>
          if rest \<noteq> [] then Inl 400 else if unat v > maxBody then Inl 413 else Inr (unat v))"

function read_body :: "nat \<Rightarrow> string \<Rightarrow> string list \<Rightarrow> string option \<times> string list" where
  "read_body n rest segs =
     (if length rest < n
      then case recv (min (64 * 1024) (n - length rest)) segs of
             None \<Rightarrow> (None, segs)
           | Some (x, segs') \<Rightarrow> read_body n (rest @ x) segs'
      else (Some rest, segs))"
  by auto
termination by (relation "measure (\<lambda>(n, rest, segs). left_in segs)") (auto dest: recv_less)

declare read_body.simps [simp del]

definition readRequest ::
    "nat \<Rightarrow> string \<Rightarrow> string \<Rightarrow> string list \<Rightarrow> (int + http_request \<times> string) \<times> string list" where
  "readRequest maxBody addr buffered segs =
     (case read_head buffered segs of
        (Inl err, segs1) \<Rightarrow> (Inl err, segs1)
      | (Inr (h, rest), segs1) \<Rightarrow>
          (case parse_head addr h of
             None \<Rightarrow> (Inl 400, segs1)
           | Some r \<Rightarrow>
               (case body_length maxBody r of
                  Inl err \<Rightarrow> (Inl err, segs1)
                | Inr n \<Rightarrow>
                    (case read_body n rest segs1 of
                       (None, segs2) \<Rightarrow> (Inl 0, segs2)
                     | (Some all, segs2) \<Rightarrow> (Inr (r\<lparr>hr_body := take n all\<rparr>, drop n all), segs2)))))"

section \<open>Answering\<close>

definition writeResponse :: "http_response \<Rightarrow> bool \<Rightarrow> string" where
  "writeResponse r close = cat ([''HTTP/1.1 '', int_str (rp_status r), '' '', reason (rp_status r), crlf,
     ''Content-Type: '', rp_contentType r, crlf, ''Content-Length: '', nat_str (length (rp_body r)), crlf,
     (if close then ''Connection: close'' else ''Connection: keep-alive''), crlf] @
     concat (map (\<lambda>(k, v). [k, '': '', v, crlf]) (rp_extraHeaders r)) @ [crlf, rp_body r])"

record client_info =
  ci_addr :: string
  ci_kind :: string
  ci_user :: string
  ci_fd :: int
  ci_busy :: bool
  ci_messages :: u64
  ci_bytesSent :: u64

definition ClientInfo :: "string \<Rightarrow> string \<Rightarrow> int \<Rightarrow> client_info" where
  "ClientInfo addr kind fd = \<lparr>ci_addr = addr, ci_kind = kind, ci_user = [], ci_fd = fd, ci_busy = False, ci_messages = 0,
     ci_bytesSent = 0\<rparr>"

text \<open>\<open>drain\<close> shuts down the sockets of the clients that are not busy.\<close>

definition drain :: "client_info list \<Rightarrow> int list" where
  "drain cs = map ci_fd (filter (\<lambda>c. \<not> ci_fd c < 0 \<and> \<not> ci_busy c) cs)"

datatype ending = Closed | Upgraded http_request "string list"

definition malformed :: "int \<Rightarrow> http_response" where
  "malformed err = HttpResponse\<lparr>rp_status := (if err = 431 then 400 else err),
     rp_body := cat [[CHR 0x7B, CHR 0x22], ''error'', [CHR 0x22, CHR '':'', CHR 0x22], ''malformed request'', [CHR 0x22, CHR 0x7D]]\<rparr>"

definition internal_error :: http_response where
  "internal_error = HttpResponse\<lparr>rp_status := 500,
     rp_body := cat [[CHR 0x7B, CHR 0x22], ''error'', [CHR 0x22, CHR '':'', CHR 0x22], ''internal error'', [CHR 0x22, CHR 0x7D]]\<rparr>"

text \<open>The client counts the bytes of a response whether or not they could be sent.\<close>

definition count_sent :: "string \<Rightarrow> client_info \<Rightarrow> client_info" where
  "count_sent out c = c\<lparr>ci_bytesSent := ci_bytesSent c + of_nat (length out)\<rparr>"

lemma one_line: "cut crlf s = None \<Longrightarrow> s \<noteq> [] \<Longrightarrow> header_lines s = [s]"
  by (subst header_lines.simps) simp

section \<open>Framing\<close>

lemma read_head_frame:
  "read_head buffered segs = (Inr (h, rest), segs1) \<Longrightarrow> buffered @ concat segs = h @ crlf @ crlf @ rest @ concat segs1"
proof (induction buffered segs rule: read_head.induct)
  case (1 buffered segs)
  show ?case
  proof (cases "cut (crlf @ crlf) buffered")
    case None
    obtain x segs' where r: "recv (16 * 1024) segs = Some (x, segs')" and long: "\<not> length buffered > kMaxHeaderBytes"
      using "1.prems" None by (subst (asm) read_head.simps) (auto split: if_splits option.splits)
    have "read_head (buffered @ x) segs' = (Inr (h, rest), segs1)"
      using "1.prems" None r long by (subst (asm) read_head.simps) simp
    from "1.IH" [OF None long r refl this] show ?thesis using recv_concat [OF r] by simp
  next
    case (Some hr)
    then show ?thesis using "1.prems" cut_Some [of "crlf @ crlf" buffered h rest]
      by (subst (asm) read_head.simps) auto
  qed
qed

lemma read_body_frame:
  "read_body n rest segs = (Some all, segs2) \<Longrightarrow> rest @ concat segs = all @ concat segs2 \<and> n \<le> length all \<and> (length rest \<le> n \<longrightarrow> length all = n)"
proof (induction n rest segs rule: read_body.induct)
  case (1 n rest segs)
  show ?case
  proof (cases "length rest < n")
    case True
    obtain x segs' where r: "recv (min (64 * 1024) (n - length rest)) segs = Some (x, segs')"
      using "1.prems" True by (subst (asm) read_body.simps) (auto split: option.splits)
    have "read_body n (rest @ x) segs' = (Some all, segs2)"
      using "1.prems" True r by (subst (asm) read_body.simps) simp
    from "1.IH" [OF True r refl this] show ?thesis using recv_concat [OF r] True by auto
  next
    case False
    then show ?thesis using "1.prems" by (subst (asm) read_body.simps) auto
  qed
qed

text \<open>A request read takes its head, the empty line and its body off the connection, and leaves
  the rest in order.\<close>

lemma readRequest_frame:
  assumes "readRequest maxBody addr buffered segs = (Inr (r, buffered'), segs')"
  shows "\<exists>h. buffered @ concat segs = h @ crlf @ crlf @ hr_body r @ buffered' @ concat segs' \<and>
    parse_head addr h = Some (r\<lparr>hr_body := []\<rparr>) \<and> body_length maxBody r = Inr (length (hr_body r)) \<and> length (hr_body r) \<le> maxBody"
proof -
  obtain h rest segs1 where h: "read_head buffered segs = (Inr (h, rest), segs1)"
    using assms by (auto simp: readRequest_def split: prod.splits sum.splits)
  obtain r0 where r0: "parse_head addr h = Some r0"
    using assms h by (auto simp: readRequest_def split: option.splits)
  obtain n where n: "body_length maxBody r0 = Inr n"
    using assms h r0 by (auto simp: readRequest_def split: sum.splits)
  obtain all segs2 where b: "read_body n rest segs1 = (Some all, segs2)"
    using assms h r0 n by (auto simp: readRequest_def split: prod.splits option.splits)
  have res: "r = r0\<lparr>hr_body := take n all\<rparr>" "buffered' = drop n all" "segs' = segs2"
    using assms h r0 n b by (simp_all add: readRequest_def)
  have body: "rest @ concat segs1 = all @ concat segs2" "n \<le> length all" using read_body_frame [OF b] by simp_all
  have "hr_body r0 = []" using r0 by (auto simp: parse_head_def Let_def split: option.splits prod.splits if_splits)
  then have "r\<lparr>hr_body := []\<rparr> = r0" by (simp add: res(1))
  moreover have "body_length maxBody r = Inr n" using n by (simp add: body_length_def header_def res(1) split: if_splits)
  moreover have "n \<le> maxBody" using n by (auto simp: body_length_def Let_def split: if_splits prod.splits)
  moreover have "all = take n all @ drop n all" by simp
  ultimately show ?thesis
    using read_head_frame [OF h] body r0 by (auto simp: res)
qed

lemma readRequest_less:
  assumes "readRequest maxBody addr buffered segs = (Inr (r, buffered'), segs')"
  shows "length buffered' + left_in segs' < length buffered + left_in segs"
proof -
  obtain h where "buffered @ concat segs = h @ crlf @ crlf @ hr_body r @ buffered' @ concat segs'"
    using readRequest_frame [OF assms] by blast
  then have "length (buffered @ concat segs) = length (h @ crlf @ crlf @ hr_body r @ buffered' @ concat segs')" by simp
  then show ?thesis by (simp add: left_in_def crlf_def)
qed

section \<open>Serving a connection\<close>

text \<open>The handler works on a state of its own and answers a response, or throws (\<open>None\<close>); the
  stop flag is read before every request.  The texts sent, how the connection ends, the client
  entry left, and the state.\<close>

function serve_conn ::
    "nat \<Rightarrow> ('w \<Rightarrow> bool) \<Rightarrow> (http_request \<Rightarrow> 'w \<Rightarrow> http_response option \<times> 'w) \<Rightarrow> string \<Rightarrow> string \<Rightarrow> string list \<Rightarrow>
     client_info \<Rightarrow> 'w \<Rightarrow> string list \<times> ending \<times> client_info \<times> 'w" where
  "serve_conn maxBody stopped handler addr buffered segs c w =
     (if stopped w then ([], Closed, c, w)
      else case readRequest maxBody addr buffered segs of
        (Inl err, segs') \<Rightarrow>
          (let out = writeResponse (malformed err) True
           in if err = 0 then ([], Closed, c, w) else ([out], Closed, count_sent out c, w))
      | (Inr (r, buffered'), segs') \<Rightarrow>
          (let c1 = c\<lparr>ci_messages := ci_messages c + 1, ci_busy := True\<rparr> in
           if toLower (header ''upgrade'' r) = ''websocket'' then ([], Upgraded r segs', c1, w)
           else let close = (toLower (header ''connection'' r) = ''close''); (rp, w') = handler r w;
                    out = writeResponse (case rp of Some p \<Rightarrow> p | None \<Rightarrow> internal_error) close;
                    c2 = (count_sent out c1)\<lparr>ci_busy := False\<rparr>
                in if close then ([out], Closed, c2, w')
                   else (let (outs, e, c3, w'') = serve_conn maxBody stopped handler addr buffered' segs' c2 w'
                         in (out # outs, e, c3, w''))))"
  by auto
termination by (relation "measure (\<lambda>(m, st, hd, addr, buffered, segs, c, w). length buffered + left_in segs)")
  (auto, metis readRequest_less)

declare serve_conn.simps [simp del]

section \<open>Segmentation does not matter\<close>

lemma cut_append: "cut pat s = Some (a, b) \<Longrightarrow> cut pat (s @ x) = Some (a, b @ x)"
proof (induction pat s arbitrary: a rule: cut.induct)
  case (1 pat)
  then show ?case by (cases x) (auto split: if_splits)
next
  case (2 pat c s)
  show ?case
  proof (cases "prefix pat (c # s)")
    case True
    then have "prefix pat (c # s @ x)" using prefix_prefix [of pat "c # s" x] by simp
    moreover have "drop (length pat) (c # s @ x) = drop (length pat) (c # s) @ x"
      using True prefix_length_le [of pat "c # s"] by (metis append_Cons drop_append diff_is_0_eq drop0)
    ultimately show ?thesis using True "2.prems" by auto
  next
    case False
    then obtain a' where a: "cut pat s = Some (a', b)" "a = c # a'" using "2.prems" by auto
    have "prefix pat (c # s @ x) \<Longrightarrow> length pat > length (c # s)"
    proof (rule ccontr)
      assume "prefix pat (c # s @ x)" "\<not> length pat > length (c # s)"
      then have "prefix pat (c # s)" using prefix_length_prefix [of pat "(c # s) @ x" "c # s"] by simp
      with False show False by simp
    qed
    moreover have "length pat \<le> length s" using cut_Some [OF a(1)] by simp
    ultimately show ?thesis using 2(1) [OF False a(1)] a(2) by auto
  qed
qed

text \<open>A terminator not found yet ends beyond what has been read.\<close>

lemma cut_later:
  assumes "cut pat s = None" and "cut pat (s @ x) = Some (h, rest)"
  shows "length s < length h + length pat"
proof (rule ccontr)
  assume "\<not> length s < length h + length pat"
  then have "length (h @ pat) \<le> length s" by simp
  moreover have "s @ x = (h @ pat) @ rest" using cut_Some [OF assms(2)] by simp
  ultimately have "s = (h @ pat) @ drop (length (h @ pat)) s" by (metis append_eq_append_conv_if append_take_drop_id)
  then obtain y where s: "s = h @ pat @ y" by (metis append_assoc)
  have "cut pat (h @ pat @ y) \<noteq> None"
  proof (induction h)
    case Nil
    show ?case
    proof (cases "pat @ y")
      case (Cons a l)
      have "prefix pat (a # l)" unfolding Cons [symmetric] by simp
      then show ?thesis by (simp add: Cons)
    qed simp
  next
    case (Cons c h)
    then show ?case by auto
  qed
  with s assms(1) show False by simp
qed

lemma recv_some:
  "segs \<noteq> [] \<Longrightarrow> list_all (\<lambda>s. s \<noteq> []) segs \<Longrightarrow> \<exists>x segs'. recv n segs = Some (x, segs') \<and> list_all (\<lambda>s. s \<noteq> []) segs'"
  by (cases segs) auto

lemma cut_none: "cut pat (s @ x) = None \<Longrightarrow> cut pat s = None"
  using cut_append by (cases "cut pat s") fastforce+

text \<open>
  The buffer never holds more than a head and one receive.  The size of the head is tested only
  before a receive, so one up to the limit is always read, one beyond the buffer never.
\<close>

definition kBuffered :: nat where "kBuffered = kMaxHeaderBytes + 16 * 1024"

lemma read_head_whole:
  assumes "cut (crlf @ crlf) (buffered @ concat segs) = Some (h, rest)" and "list_all (\<lambda>s. s \<noteq> []) segs"
    and "length buffered \<le> kBuffered"
  shows "(\<exists>r segs'. read_head buffered segs = (Inr (h, r), segs') \<and> r @ concat segs' = rest \<and> list_all (\<lambda>s. s \<noteq> []) segs' \<and>
      length h + 4 + length r \<le> kBuffered) \<or>
    fst (read_head buffered segs) = Inl 431 \<and> kMaxHeaderBytes < length h + 3"
  using assms
proof (induction buffered segs rule: read_head.induct)
  case (1 buffered segs)
  show ?case
  proof (cases "cut (crlf @ crlf) buffered")
    case None
    show ?thesis
    proof (cases "length buffered > kMaxHeaderBytes")
      case True
      have "length buffered < length h + 4" using cut_later [OF None "1.prems"(1)] by (simp add: crlf_def)
      then show ?thesis using None True by (subst (2) read_head.simps) simp
    next
      case False
      have "segs \<noteq> []" using None "1.prems"(1) by auto
      then obtain x segs' where r: "recv (16 * 1024) segs = Some (x, segs')" and ne: "list_all (\<lambda>s. s \<noteq> []) segs'"
        using recv_some "1.prems"(2) by blast
      have c: "cut (crlf @ crlf) ((buffered @ x) @ concat segs') = Some (h, rest)" and l: "length (buffered @ x) \<le> kBuffered"
        using "1.prems"(1) recv_concat [OF r] False by (simp_all add: kBuffered_def)
      have "read_head buffered segs = read_head (buffered @ x) segs'" using None False r by (subst read_head.simps) simp
      then show ?thesis using "1.IH" [OF None False r refl c ne l] by simp
    qed
  next
    case (Some hr)
    then obtain r where r: "cut (crlf @ crlf) buffered = Some (h, r)" "rest = r @ concat segs"
      using cut_append [of "crlf @ crlf" buffered "fst hr" "snd hr" "concat segs"] "1.prems"(1) by (cases hr) auto
    then have "read_head buffered segs = (Inr (h, r), segs)" by (subst read_head.simps) simp
    then show ?thesis using "1.prems"(2,3) cut_Some [OF r(1)] r(2) by (simp add: crlf_def)
  qed
qed

lemma read_head_none:
  assumes "cut (crlf @ crlf) (buffered @ concat segs) = None" and "list_all (\<lambda>s. s \<noteq> []) segs"
  shows "fst (read_head buffered segs) = Inl (if length (buffered @ concat segs) > kMaxHeaderBytes then 431 else 0)"
  using assms
proof (induction buffered segs rule: read_head.induct)
  case (1 buffered segs)
  note none = cut_none [OF "1.prems"(1)]
  show ?case
  proof (cases "segs = [] \<or> length buffered > kMaxHeaderBytes")
    case True
    then show ?thesis using none by (subst read_head.simps) auto
  next
    case False
    then obtain x segs' where r: "recv (16 * 1024) segs = Some (x, segs')" and ne: "list_all (\<lambda>s. s \<noteq> []) segs'"
      using recv_some "1.prems"(2) by blast
    have "read_head buffered segs = read_head (buffered @ x) segs'" using none False r by (subst read_head.simps) simp
    moreover have "cut (crlf @ crlf) ((buffered @ x) @ concat segs') = None" using "1.prems"(1) recv_concat [OF r] by simp
    ultimately show ?thesis using "1.IH" [OF none _ r refl _ ne] False recv_concat [OF r] by simp
  qed
qed

lemma read_body_whole:
  assumes "list_all (\<lambda>s. s \<noteq> []) segs"
  shows "if n \<le> length (rest @ concat segs) then \<exists>all segs'. read_body n rest segs = (Some all, segs') \<and> (length rest < n \<longrightarrow> length all = n) \<and>
      (n \<le> length rest \<longrightarrow> all = rest)
    else fst (read_body n rest segs) = None"
  using assms
proof (induction n rest segs rule: read_body.induct)
  case (1 n rest segs)
  show ?case
  proof (cases "length rest < n \<and> segs \<noteq> []")
    case True
    then obtain x segs' where r: "recv (min (64 * 1024) (n - length rest)) segs = Some (x, segs')" and ne: "list_all (\<lambda>s. s \<noteq> []) segs'"
      using recv_some "1.prems" by blast
    have b: "read_body n rest segs = read_body n (rest @ x) segs'" using True r by (subst read_body.simps) simp
    show ?thesis
      using "1.IH" [OF conjunct1 [OF True] r refl ne] recv_concat [OF r] True unfolding b by (auto split: if_splits)
  next
    case False
    then show ?thesis by (subst (1 2) read_body.simps) auto
  qed
qed

text \<open>
  The answers the reader can give to a byte stream, each with what it leaves of it: one, unless
  the head ends between the limit and the end of the buffer, where it depends on the segments
  whether it is read or refused.
\<close>

type_synonym read_answer = "int + http_request \<times> string"

definition answer_to_head :: "nat \<Rightarrow> string \<Rightarrow> string \<Rightarrow> string \<Rightarrow> read_answer" where
  "answer_to_head maxBody addr h rest =
     (case parse_head addr h of
        None \<Rightarrow> Inl 400
      | Some r \<Rightarrow> (case body_length maxBody r of
          Inl e \<Rightarrow> Inl e
        | Inr n \<Rightarrow> if length rest < n then Inl 0 else Inr (r\<lparr>hr_body := take n rest\<rparr>, drop n rest)))"

definition stream_answers :: "nat \<Rightarrow> string \<Rightarrow> string \<Rightarrow> read_answer set" where
  "stream_answers maxBody addr s =
     (case cut (crlf @ crlf) s of
        None \<Rightarrow> {Inl (if length s > kMaxHeaderBytes then 431 else 0)}
      | Some (h, rest) \<Rightarrow>
          if length h + 3 \<le> kMaxHeaderBytes then {answer_to_head maxBody addr h rest}
          else if kBuffered < length h + 4 then {Inl 431}
          else {answer_to_head maxBody addr h rest, Inl 431})"

definition answer_of :: "(int + http_request \<times> string) \<times> string list \<Rightarrow> read_answer" where
  "answer_of x = (case x of (Inl e, _) \<Rightarrow> Inl e | (Inr (r, buffered), segs) \<Rightarrow> Inr (r, buffered @ concat segs))"

lemma readRequest_head:
  assumes "read_head buffered segs = (Inr (h, x), segs1)" and "list_all (\<lambda>s. s \<noteq> []) segs1"
  shows "answer_of (readRequest maxBody addr buffered segs) = answer_to_head maxBody addr h (x @ concat segs1)"
proof (cases "parse_head addr h")
  case (Some r)
  show ?thesis
  proof (cases "body_length maxBody r")
    case (Inr n)
    show ?thesis
    proof (cases "n \<le> length (x @ concat segs1)")
      case True
      then obtain all segs2 where b: "read_body n x segs1 = (Some all, segs2)"
        using read_body_whole [OF assms(2), of n x] by auto
      have all: "all @ concat segs2 = x @ concat segs1" "n \<le> length all" using read_body_frame [OF b] by simp_all
      then have "take n (x @ concat segs1) = take n all" "drop n (x @ concat segs1) = drop n all @ concat segs2"
        by (simp_all flip: all(1))
      then show ?thesis
        using assms(1) Some Inr b True by (simp add: readRequest_def answer_of_def answer_to_head_def)
    next
      case False
      then obtain segs2 where "read_body n x segs1 = (None, segs2)"
        using read_body_whole [OF assms(2), of n x] by (cases "read_body n x segs1") auto
      then show ?thesis
        using assms(1) Some Inr False by (simp add: readRequest_def answer_of_def answer_to_head_def)
    qed
  qed (simp add: assms(1) Some readRequest_def answer_of_def answer_to_head_def)
qed (simp add: assms(1) readRequest_def answer_of_def answer_to_head_def)

lemma readRequest_answers:
  assumes "list_all (\<lambda>s. s \<noteq> []) segs" and "length buffered \<le> kBuffered"
  shows "answer_of (readRequest maxBody addr buffered segs) \<in> stream_answers maxBody addr (buffered @ concat segs)"
proof (cases "cut (crlf @ crlf) (buffered @ concat segs)")
  case None
  obtain segs' where "read_head buffered segs = (Inl (if length (buffered @ concat segs) > kMaxHeaderBytes then 431 else 0), segs')"
    using read_head_none [OF None assms(1)] by (cases "read_head buffered segs") auto
  then show ?thesis using None by (simp add: readRequest_def answer_of_def stream_answers_def)
next
  case (Some hr)
  obtain h rest where hr: "hr = (h, rest)" by force
  from read_head_whole [OF Some [unfolded hr] assms]
  consider r segs' where "read_head buffered segs = (Inr (h, r), segs')" "r @ concat segs' = rest" "list_all (\<lambda>s. s \<noteq> []) segs'"
      "length h + 4 + length r \<le> kBuffered"
    | segs' where "read_head buffered segs = (Inl 431, segs')" "kMaxHeaderBytes < length h + 3"
    by (metis prod.collapse)
  then show ?thesis
  proof cases
    case 1
    then show ?thesis using Some readRequest_head [OF 1(1,3), of maxBody addr] by (simp add: stream_answers_def hr)
  next
    case 2
    then show ?thesis using Some by (simp add: readRequest_def answer_of_def stream_answers_def hr)
  qed
qed

lemma read_head_cut:
  "read_head buffered segs = (Inr (h, x), segs1) \<Longrightarrow> \<exists>rest. cut (crlf @ crlf) (buffered @ concat segs) = Some (h, rest)"
proof (induction buffered segs rule: read_head.induct)
  case (1 buffered segs)
  show ?case
  proof (cases "cut (crlf @ crlf) buffered")
    case None
    obtain y segs' where r: "recv (16 * 1024) segs = Some (y, segs')" and long: "\<not> length buffered > kMaxHeaderBytes"
      using "1.prems" None by (subst (asm) read_head.simps) (auto split: if_splits option.splits)
    have "read_head (buffered @ y) segs' = (Inr (h, x), segs1)"
      using "1.prems" None r long by (subst (asm) read_head.simps) simp
    from "1.IH" [OF None long r refl this] show ?thesis using recv_concat [OF r] by simp
  next
    case (Some hr)
    then have "cut (crlf @ crlf) buffered = Some (h, x)" using "1.prems" by (subst (asm) read_head.simps) auto
    from cut_append [OF this] show ?thesis by blast
  qed
qed

text \<open>What it leaves in the buffer is within the bound it needs for the next request.\<close>

lemma readRequest_buffer:
  assumes "readRequest maxBody addr buffered segs = (Inr (r, buffered'), segs')" and "list_all (\<lambda>s. s \<noteq> []) segs"
    and "length buffered \<le> kBuffered"
  shows "length buffered' \<le> kBuffered"
proof -
  obtain h x segs1 where h: "read_head buffered segs = (Inr (h, x), segs1)"
    using assms(1) by (auto simp: readRequest_def split: prod.splits sum.splits)
  obtain n all where n: "read_body n x segs1 = (Some all, segs')" "buffered' = drop n all"
    using assms(1) h by (auto simp: readRequest_def split: prod.splits sum.splits option.splits)
  obtain rest where "cut (crlf @ crlf) (buffered @ concat segs) = Some (h, rest)"
    using read_head_cut [OF h] by blast
  from read_head_whole [OF this assms(2,3)] h have x: "length x \<le> kBuffered" and ne: "list_all (\<lambda>s. s \<noteq> []) segs1" by auto
  have "length x < n \<Longrightarrow> length all = n" "n \<le> length x \<Longrightarrow> all = x"
    using read_body_whole [OF ne, of n x] n(1) by (auto split: if_splits)
  then show ?thesis using x n(2) by (cases "length x < n") auto
qed

text \<open>In the window both answers are given: to the stream in one piece, and to the same cut just
  after the limit.\<close>

lemma head_limit_depends:
  assumes "cut (crlf @ crlf) s = Some (h, rest)" and "kMaxHeaderBytes < length h + 3" and "length s \<le> kBuffered"
  shows "answer_of (readRequest maxBody addr s []) = answer_to_head maxBody addr h rest"
    and "fst (readRequest maxBody addr (take (kMaxHeaderBytes + 1) s) [drop (kMaxHeaderBytes + 1) s]) = Inl 431"
proof -
  have "read_head s [] = (Inr (h, rest), [])" using assms(1) by (subst read_head.simps) simp
  from readRequest_head [OF this] show "answer_of (readRequest maxBody addr s []) = answer_to_head maxBody addr h rest" by simp
  let ?b = "take (kMaxHeaderBytes + 1) s"
  have len: "length h + 4 \<le> length s" using cut_Some [OF assms(1)] by (simp add: crlf_def)
  have "cut (crlf @ crlf) ?b = None"
  proof (cases "cut (crlf @ crlf) ?b")
    case (Some p)
    obtain h' r' where p: "p = (h', r')" by force
    have "h' = h" using cut_append [OF Some [unfolded p], of "drop (kMaxHeaderBytes + 1) s"] assms(1) by simp
    then have "length h + 4 \<le> length ?b" using cut_Some [OF Some [unfolded p]] by (simp add: crlf_def)
    then show ?thesis using assms(2) by simp
  qed simp
  moreover have "length ?b > kMaxHeaderBytes" using len assms(2) by simp
  ultimately have "read_head ?b [drop (kMaxHeaderBytes + 1) s] = (Inl 431, [drop (kMaxHeaderBytes + 1) s])"
    by (subst read_head.simps) simp
  then show "fst (readRequest maxBody addr ?b [drop (kMaxHeaderBytes + 1) s]) = Inl 431"
    by (simp add: readRequest_def)
qed

end
