(* ===== verification/Crypto.thy ===== *)
theory Crypto
  imports Bytes
begin

text \<open>
  \<open>backend/src/util/crypto_util.cpp\<close>: SHA-1, base64 and the accept key of the WebSocket
  handshake.  Byte strings are byte lists; \<open>str_bytes\<close> reads a string as its bytes.
\<close>

section \<open>SHA-1\<close>

definition rol :: "u32 \<Rightarrow> nat \<Rightarrow> u32" where
  "rol v n = push_bit n v OR drop_bit (32 - n) v"

text \<open>The padded message: a one bit, zeros to 56 modulo 64, the bit length in eight bytes.\<close>

definition sha1_pad :: "byte list \<Rightarrow> byte list" where
  "sha1_pad xs = xs @ [0x80] @ replicate ((119 - length xs mod 64) mod 64) 0 @
     map (\<lambda>i. ucast (drop_bit (i * 8) (of_nat (length xs) * 8 :: u64))) [7, 6, 5, 4, 3, 2, 1, 0]"

definition be32 :: "byte list \<Rightarrow> u32" where
  "be32 b = push_bit 24 (ucast (b ! 0)) OR push_bit 16 (ucast (b ! 1)) OR push_bit 8 (ucast (b ! 2)) OR ucast (b ! 3)"

fun words :: "byte list \<Rightarrow> u32 list" where
  "words (a # b # c # d # r) = be32 [a, b, c, d] # words r"
| "words _ = []"

text \<open>The 80 words of a block, the newest first.\<close>

primrec schedule :: "nat \<Rightarrow> u32 list \<Rightarrow> u32 list" where
  "schedule 0 w = w"
| "schedule (Suc n) w = schedule n (rol (w ! 2 XOR w ! 7 XOR w ! 13 XOR w ! 15) 1 # w)"

definition round_fk :: "nat \<Rightarrow> u32 \<Rightarrow> u32 \<Rightarrow> u32 \<Rightarrow> u32 \<times> u32" where
  "round_fk i b c d =
     (if i < 20 then ((b AND c) OR (NOT b AND d), 0x5A827999)
      else if i < 40 then (b XOR c XOR d, 0x6ED9EBA1)
      else if i < 60 then ((b AND c) OR (b AND d) OR (c AND d), 0x8F1BBCDC)
      else (b XOR c XOR d, 0xCA62C1D6))"

type_synonym sha_state = "u32 \<times> u32 \<times> u32 \<times> u32 \<times> u32"

definition sha1_round :: "nat \<times> u32 \<Rightarrow> sha_state \<Rightarrow> sha_state" where
  "sha1_round = (\<lambda>(i, w) (a, b, c, d, e). case round_fk i b c d of
     (f, k) \<Rightarrow> (rol a 5 + f + e + k + w, a, rol b 30, c, d))"

definition sha1_block :: "byte list \<Rightarrow> sha_state \<Rightarrow> sha_state" where
  "sha1_block blk = (\<lambda>(h0, h1, h2, h3, h4).
     case fold sha1_round (zip [0..<80] (rev (schedule 64 (rev (words blk))))) (h0, h1, h2, h3, h4) of
       (a, b, c, d, e) \<Rightarrow> (h0 + a, h1 + b, h2 + c, h3 + d, h4 + e))"

function blocks :: "byte list \<Rightarrow> byte list list" where
  "blocks xs = (if xs = [] then [] else take 64 xs # blocks (drop 64 xs))"
  by auto
termination by (relation "measure length") auto

declare blocks.simps [simp del]

definition digest_bytes :: "u32 \<Rightarrow> byte list" where
  "digest_bytes h = [ucast (drop_bit 24 h), ucast (drop_bit 16 h), ucast (drop_bit 8 h), ucast h]"

definition sha1 :: "byte list \<Rightarrow> byte list" where
  "sha1 xs = (case fold sha1_block (blocks (sha1_pad xs)) (0x67452301, 0xEFCDAB89, 0x98BADCFE, 0x10325476, 0xC3D2E1F0) of
     (h0, h1, h2, h3, h4) \<Rightarrow> digest_bytes h0 @ digest_bytes h1 @ digest_bytes h2 @ digest_bytes h3 @ digest_bytes h4)"

section \<open>Base64\<close>

definition b64_table :: string where
  "b64_table = ''ABCDEFGHIJKLMNOPQRSTUVWXYZabcdefghijklmnopqrstuvwxyz0123456789+/''"

definition b64_char :: "u32 \<Rightarrow> nat \<Rightarrow> char" where
  "b64_char v n = b64_table ! unat (drop_bit n v AND 63)"

fun base64 :: "byte list \<Rightarrow> string" where
  "base64 (a # b # c # r) =
     (let v = push_bit 16 (ucast a) OR push_bit 8 (ucast b) OR ucast c
      in b64_char v 18 # b64_char v 12 # b64_char v 6 # b64_char v 0 # base64 r)"
| "base64 [a] = (let v = push_bit 16 (ucast a) in [b64_char v 18, b64_char v 12] @ ''=='')"
| "base64 [a, b] = (let v = push_bit 16 (ucast a) OR push_bit 8 (ucast b) in [b64_char v 18, b64_char v 12, b64_char v 6] @ ''='')"
| "base64 [] = []"

definition str_bytes :: "string \<Rightarrow> byte list" where
  "str_bytes s = map (\<lambda>c. of_nat (of_char c)) s"

definition wsAcceptKey :: "string \<Rightarrow> string" where
  "wsAcceptKey clientKey = base64 (sha1 (str_bytes (clientKey @ ''258EAFA5-E914-47DA-95CA-C5AB0DC85B11'')))"

section \<open>Lengths\<close>

lemma length_digest_bytes [simp]: "length (digest_bytes h) = 4"
  by (simp add: digest_bytes_def)

lemma length_sha1: "length (sha1 xs) = 20"
  by (simp add: sha1_def split: prod.split)

lemma pad_blocks: "64 dvd length (sha1_pad xs)"
proof -
  define m q where "m = length xs mod 64" and "q = length xs div 64"
  have "m < 64" "length xs = 64 * q + m" by (simp_all add: m_def q_def)
  moreover have "(119 - m) mod 64 = (if m \<le> 55 then 55 - m else 119 - m)"
    using \<open>m < 64\<close> by (auto simp: le_mod_geq)
  ultimately have "length (sha1_pad xs) = 64 * (if m \<le> 55 then q + 1 else q + 2)"
    by (auto simp: sha1_pad_def m_def [symmetric])
  then show ?thesis by simp
qed

lemma length_base64: "length (base64 xs) = (length xs + 2) div 3 * 4"
proof -
  have step: "(5 + n) div 3 = Suc (Suc (Suc n) div 3)" for n :: nat by presburger
  show ?thesis by (induction xs rule: base64.induct) (simp_all add: Let_def step)
qed

end
