(* ===== verification/Decompress.thy ===== *)
theory Decompress
  imports Crypto
begin

text \<open>
  \<open>backend/src/util/decompress.cpp\<close>: recognising compressed captures and inflating them with
  the system's tools.  What a tool does is an argument: for its argument vector and standard
  input, the bytes it wrote, that it is not installed, or that it failed.  The disk maps paths
  to contents; the partial output of a failed run is removed.
\<close>

datatype run_result = RunOutput string | NotInstalled | RunFailed | SpawnFailed string | CannotCreate

type_synonym tools = "string list \<Rightarrow> string option \<Rightarrow> run_result"

definition magics :: "(string \<times> string) list" where
  "magics = [([CHR 0x1F, CHR 0x8B], ''gzip''), ([CHR 0x1F, CHR 0x9D], ''gzip''),
     ([CHR 0xFD, CHR ''7'', CHR ''z'', CHR ''X'', CHR ''Z'', CHR 0x00], ''xz''),
     ([CHR 0x28, CHR 0xB5, CHR 0x2F, CHR 0xFD], ''zstd''), (''BZh'', ''bzip2''),
     ([CHR 0x04, CHR 0x22, CHR 0x4D, CHR 0x18], ''lz4''), (''LZIP'', ''lzip''),
     ([CHR ''P'', CHR ''K'', CHR 0x03, CHR 0x04], ''unzip'')]"

definition compressionTool :: "string \<Rightarrow> string" where
  "compressionTool h = (case find (\<lambda>(m, t). take (length m) h = m) magics of None \<Rightarrow> '''' | Some (m, t) \<Rightarrow> t)"

definition compressionToolForFile :: "string \<Rightarrow> (string \<rightharpoonup> string) \<Rightarrow> string" where
  "compressionToolForFile path d = (case d path of None \<Rightarrow> '''' | Some x \<Rightarrow> if x = [] then '''' else compressionTool (take 8 x))"

definition ends_with :: "string \<Rightarrow> string \<Rightarrow> bool" where
  "ends_with suf s \<longleftrightarrow> length suf \<le> length s \<and> drop (length s - length suf) s = suf"

definition stripCompressionSuffix :: "string \<Rightarrow> string" where
  "stripCompressionSuffix name =
     (case find (\<lambda>ext. length ext < length name \<and> ends_with ext name)
         [''.gz'', ''.xz'', ''.zst'', ''.bz2'', ''.lz4'', ''.lz'', ''.Z'', ''.zstd'', ''.bzip2'', ''.zip''] of
        None \<Rightarrow> name | Some ext \<Rightarrow> take (length name - length ext) name)"

text \<open>Standard input from a file, \<open>None\<close> for \<open>/dev/null\<close>; standard output to \<open>outPath\<close>.\<close>

definition runRedirect ::
    "tools \<Rightarrow> string list \<Rightarrow> string \<Rightarrow> string \<Rightarrow> (string \<rightharpoonup> string) \<Rightarrow> (string + unit) \<times> (string \<rightharpoonup> string)" where
  "runRedirect run argv inPath outPath d =
     (if inPath \<noteq> [] \<and> d inPath = None then (Inl (cat [''cannot open '', inPath]), d)
      else case run argv (if inPath = [] then None else d inPath) of
        RunOutput x \<Rightarrow> (Inr (), d(outPath \<mapsto> x))
      | SpawnFailed err \<Rightarrow> (Inl err, d(outPath \<mapsto> []))
      | CannotCreate \<Rightarrow> (Inl (cat [''cannot create '', outPath]), d)
      | NotInstalled \<Rightarrow> (Inl (cat [hd argv, '' is not installed on the backend host'']), d(outPath := None))
      | RunFailed \<Rightarrow> (Inl (cat [hd argv, '' exited with an error'']), d(outPath := None)))"

definition lower_char :: "char \<Rightarrow> char" where
  "lower_char c = (let n = of_char c :: nat in if 65 \<le> n \<and> n \<le> 90 then char_of (n + 32) else c)"

definition endsWithCi :: "string \<Rightarrow> string \<Rightarrow> bool" where
  "endsWithCi s suf \<longleftrightarrow> length suf \<le> length s \<and> map lower_char (drop (length s - length suf) s) = suf"

fun split_lines :: "string \<Rightarrow> string \<Rightarrow> string list" where
  "split_lines acc [] = (if acc = [] then [] else [rev acc])"
| "split_lines acc (c # s) = (if c = CHR 0x0A then rev acc # split_lines [] s else split_lines (c # acc) s)"

definition zip_entries :: "string \<Rightarrow> string list" where
  "zip_entries listing = filter (\<lambda>l. l \<noteq> [] \<and> last l \<noteq> CHR ''/'')
     (map (\<lambda>l. if l \<noteq> [] \<and> last l = CHR 0x0D then butlast l else l) (split_lines [] listing))"

definition last_part :: "string \<Rightarrow> string" where
  "last_part path = rev (takeWhile (\<lambda>c. c \<noteq> CHR ''/'') (rev path))"

definition is_cruft :: "string \<Rightarrow> bool" where
  "is_cruft e \<longleftrightarrow> prefix ''__MACOSX/'' e \<or> prefix ''._'' (last_part e) \<or> last_part e = ''.DS_Store''"

definition pick_entry :: "string list \<Rightarrow> string" where
  "pick_entry es =
     (case find (\<lambda>e. \<not> is_cruft e \<and> (endsWithCi e ''.pcap'' \<or> endsWithCi e ''.pcapng'' \<or> endsWithCi e ''.cap'')) es of
        Some e \<Rightarrow> e
      | None \<Rightarrow> (case find (\<lambda>e. \<not> is_cruft e) es of Some e \<Rightarrow> e | None \<Rightarrow> hd es))"

definition not_installed :: "string \<Rightarrow> bool" where
  "not_installed err \<longleftrightarrow> sublist ''not installed'' err"

definition decompressZip ::
    "tools \<Rightarrow> string \<Rightarrow> string \<Rightarrow> (string \<rightharpoonup> string) \<Rightarrow> (string + unit) \<times> (string \<rightharpoonup> string)" where
  "decompressZip run src dst d =
     (let listing = dst @ ''.zilist'' in
      case runRedirect run [''unzip'', ''-Z1'', src] [] listing d of
        (Inl err, d1) \<Rightarrow>
          (Inl (if not_installed err then err else ''cannot read zip archive (corrupt, encrypted, or not a zip?)''), d1(listing := None))
      | (Inr _, d1) \<Rightarrow>
          (let es = zip_entries (case d1 listing of None \<Rightarrow> [] | Some x \<Rightarrow> x); d2 = d1(listing := None)
           in if es = [] then (Inl ''zip archive contains no files'', d2)
              else case runRedirect run [''unzip'', ''-p'', src, pick_entry es] [] dst d2 of
                (Inl err, d3) \<Rightarrow> (Inl (if not_installed err then err
                   else cat [''failed to extract '', [CHR 0x22], pick_entry es, [CHR 0x22], '' from the zip archive'']), d3)
              | (Inr u, d3) \<Rightarrow> (Inr u, d3)))"

definition decompressFile ::
    "tools \<Rightarrow> string \<Rightarrow> string \<Rightarrow> string \<Rightarrow> (string \<rightharpoonup> string) \<Rightarrow> (string + unit) \<times> (string \<rightharpoonup> string)" where
  "decompressFile run tool src dst d =
     (if tool = ''unzip'' then decompressZip run src dst d
      else case runRedirect run [tool, ''-dc''] src dst d of
        (Inl err, d1) \<Rightarrow> (Inl (if not_installed err then err
           else cat [tool, '' failed to decompress the capture (corrupt file?)'']), d1)
      | (Inr u, d1) \<Rightarrow> (Inr u, d1))"

section \<open>What they touch\<close>

lemma runRedirect_frame: "q \<noteq> dst \<Longrightarrow> snd (runRedirect run argv src dst d) q = d q"
  by (simp add: runRedirect_def split: run_result.split)

lemma decompressZip_frame:
  assumes "q \<noteq> dst" and "q \<noteq> dst @ ''.zilist''"
  shows "snd (decompressZip run src dst d) q = d q"
proof -
  obtain r1 d1 where r1: "runRedirect run [''unzip'', ''-Z1'', src] [] (dst @ ''.zilist'') d = (r1, d1)" by force
  define es where "es = zip_entries (case d1 (dst @ ''.zilist'') of None \<Rightarrow> [] | Some x \<Rightarrow> x)"
  obtain r3 d3 where r3: "runRedirect run [''unzip'', ''-p'', src, pick_entry es] [] dst (d1(dst @ ''.zilist'' := None)) = (r3, d3)"
    by force
  have "d1 q = d q" "d3 q = (d1(dst @ ''.zilist'' := None)) q"
    using runRedirect_frame [OF assms(2), of run "[''unzip'', ''-Z1'', src]" "[]" d] r1
      runRedirect_frame [OF assms(1), of run "[''unzip'', ''-p'', src, pick_entry es]" "[]" "d1(dst @ ''.zilist'' := None)"] r3
    by simp_all
  then have "d1 q = d q" "d3 q = d q" using assms(2) unfolding fun_upd_apply by simp_all
  then show ?thesis
    unfolding decompressZip_def Let_def r1 prod.case es_def [symmetric] r3 using assms(2)
    by (cases r1; cases r3) (simp_all only: sum.case prod.case snd_conv fun_upd_other if_distrib [of snd] if_cancel if_distribR)
qed

lemma decompress_frame:
  assumes "q \<noteq> dst" and "q \<noteq> dst @ ''.zilist''"
  shows "snd (decompressFile run tool src dst d) q = d q"
  using decompressZip_frame [OF assms] runRedirect_frame [OF assms(1), of run "[tool, ''-dc'']" src d]
  by (auto simp: decompressFile_def split: prod.split sum.split)

text \<open>An entry is picked from the listing, and never macOS cruft while anything else is there.\<close>

lemma pick_entry_in: "es \<noteq> [] \<Longrightarrow> pick_entry es \<in> set es"
  by (auto simp: pick_entry_def find_Some_iff split: option.split intro: nth_mem)

lemma pick_entry_no_cruft: "list_ex (\<lambda>e. \<not> is_cruft e) es \<Longrightarrow> \<not> is_cruft (pick_entry es)"
  by (auto simp: pick_entry_def find_Some_iff find_None_iff list_ex_iff split: option.split)

lemma stripped_shorter: "length (stripCompressionSuffix name) \<le> length name \<and> (name \<noteq> [] \<longrightarrow> stripCompressionSuffix name \<noteq> [])"
  by (auto simp: stripCompressionSuffix_def find_Some_iff split: option.split)

text \<open>A plain capture is not taken for a compressed one.\<close>

lemma capture_is_plain: "compressionTool ([CHR 0xD4, CHR 0xC3, CHR 0xB2, CHR 0xA1] @ r) = ''''"
    "compressionTool ([CHR 0x4D, CHR 0x3C, CHR 0xB2, CHR 0xA1] @ r) = ''''"
    "compressionTool ([CHR 0x0A, CHR 0x0D, CHR 0x0D, CHR 0x0A] @ r) = ''''"
  by (simp_all add: compressionTool_def magics_def)

end
