(* ===== verification/Api.thy ===== *)
theory Api
  imports Store Ratelimit Flowguard Http Decompress Thread_Pool
begin

text \<open>
  \<open>backend/src/api/api.cpp\<close>, first part: the server's state, the answers of the outside world to
  one request, and the handlers of accounts and of the capture library.  A handler takes the
  state to a response and a state; \<open>None\<close> is a request that never gets an answer (a kernel
  script that ends, or a capture the reader loops on).
\<close>

section \<open>The state\<close>

record caller =
  c_user :: string
  c_role :: string
  c_domain :: string

definition cadmin :: "caller \<Rightarrow> bool" where
  "cadmin c \<longleftrightarrow> c_role c = ''admin''"

definition nobody :: caller where
  "nobody = \<lparr>c_user = [], c_role = [], c_domain = []\<rparr>"

record presence =
  pr_user :: string
  pr_view :: string
  pr_domain :: string
  pr_seen :: double

record traffic =
  tr_slots :: "u32 list"
  tr_lastSec :: int
  tr_total :: u64

record cpu_state =
  mCpuProcJiffies :: u64
  mCpuTotalJiffies :: u64
  mCpuIdleJiffies :: u64
  mCpuAt :: "double option"
  mCpuProcPct :: double
  mCpuSysPct :: double

record api =
  mAuth :: auth
  mStore :: store
  ap_disk :: files
  mEngine :: engine
  mLimiter :: limiter
  mGuard :: guard
  mPresence :: "(string, presence) omap"
  mTraffic :: "(string, traffic) omap"
  mCpu :: cpu_state
  mUploadSeq :: u64
  ap_clients :: "client_info list"

record config =
  mRateRps :: double
  mRateBurst :: double
  mLoginRps :: double
  mLoginBurst :: double
  mRegistrationDisabled :: bool
  mTrustedProxies :: "ip_net list"
  mFrontendDir :: string
  mStart :: double

text \<open>\<open>ask\<close>: what the world outside answers during one request.  Where a handler reads the
  clock, saves a file or asks the store several times, the answers are numbered; the texts of
  \<open>/proc\<close> are empty when they cannot be opened, and \<open>as_pool\<close> is the pool that serves the request.\<close>

record proc_reading =
  pc_self_stat :: string
  pc_stat :: string
  pc_status :: string
  pc_meminfo :: string
  pc_hz :: int
  pc_cores :: int
  pc_utime :: "int \<times> int"
  pc_stime :: "int \<times> int"

record file_times =
  ft_size :: u64
  ft_modified :: int
  ft_accessed :: int
  ft_created :: "int option"

record ask =
  as_clock :: "nat \<Rightarrow> double"
  as_inet :: inet
  as_users_io :: "nat \<Rightarrow> io_script"
  as_env :: "nat \<Rightarrow> env"
  as_notes_io :: io_script
  as_hash :: "string \<Rightarrow> string option"
  as_verify :: "string \<Rightarrow> string \<Rightarrow> bool"
  as_random :: "byte list"
  as_iso :: string
  as_gmt :: "int \<Rightarrow> string"
  as_log_opens :: bool
  as_regular :: "string \<Rightarrow> bool"
  as_is_dir :: "string \<Rightarrow> bool"
  as_stat :: "string \<Rightarrow> file_times option"
  as_tools :: tools
  as_rename :: bool
  as_proc :: proc_reading
  as_pool :: "string pool"
  as_analysisMs :: "string \<Rightarrow> u64"
  as_since :: "client_info \<Rightarrow> double"

type_synonym reply = "(http_response \<times> api) option"

section \<open>Answers\<close>

definition json_of :: "(writer \<Rightarrow> writer) \<Rightarrow> string" where
  "json_of f = mOut (f JsonWriter)"

definition kv_bool :: "string \<Rightarrow> bool \<Rightarrow> writer \<Rightarrow> writer" where
  "kv_bool k b = kv k (value_bool b)"

definition jsonError :: "int \<Rightarrow> string \<Rightarrow> http_response" where
  "jsonError st msg = HttpResponse\<lparr>rp_status := st, rp_body := json_of (obj [kv_str ''error'' msg])\<rparr>"

definition json_ok :: "(writer \<Rightarrow> writer) \<Rightarrow> http_response" where
  "json_ok f = HttpResponse\<lparr>rp_body := json_of f\<rparr>"

definition created :: "http_response \<Rightarrow> http_response" where
  "created r = r\<lparr>rp_status := 201\<rparr>"

definition just_ok :: http_response where
  "just_ok = HttpResponse\<lparr>rp_body := cat [[CHR 0x7B, CHR 0x22], ''ok'', [CHR 0x22], '':true'', [CHR 0x7D]]\<rparr>"

definition reject :: "int \<Rightarrow> string \<Rightarrow> api \<Rightarrow> reply" where
  "reject st msg a = Some (jsonError st msg, a)"

definition accept :: "http_response \<Rightarrow> api \<Rightarrow> reply" where
  "accept r a = Some (r, a)"

text \<open>Continue with the answer of an operation on the accounts or the library.\<close>

definition on_auth ::
    "(auth \<times> files \<Rightarrow> answer \<times> auth \<times> files) \<Rightarrow> (api \<Rightarrow> reply) \<Rightarrow> (string \<Rightarrow> api \<Rightarrow> reply) \<Rightarrow> api \<Rightarrow> reply" where
  "on_auth f ok bad a = (case f (mAuth a, ap_disk a) of (r, au, d) \<Rightarrow>
     (let a1 = a\<lparr>mAuth := au, ap_disk := d\<rparr>
      in case r of None \<Rightarrow> None | Some None \<Rightarrow> ok a1 | Some (Some err) \<Rightarrow> bad err a1))"

definition on_store ::
    "(store \<times> files \<Rightarrow> stored) \<Rightarrow> (api \<Rightarrow> reply) \<Rightarrow> (string \<Rightarrow> api \<Rightarrow> reply) \<Rightarrow> api \<Rightarrow> reply" where
  "on_store f ok bad a = (case f (mStore a, ap_disk a) of (r, s, d) \<Rightarrow>
     (let a1 = a\<lparr>mStore := s, ap_disk := d\<rparr>
      in case r of None \<Rightarrow> None | Some None \<Rightarrow> ok a1 | Some (Some err) \<Rightarrow> bad err a1))"

definition body_of :: "http_request \<Rightarrow> json" where
  "body_of q = (case parse (hr_body q) of Inl _ \<Rightarrow> Null | Inr j \<Rightarrow> j)"

definition bearerToken :: "http_request \<Rightarrow> string" where
  "bearerToken q = (let h = header ''authorization'' q in if prefix ''Bearer '' h then drop 7 h else [])"

definition tooMany :: "double \<Rightarrow> http_response" where
  "tooMany retryAfter = (let ra = \<lfloor>retryAfter\<rfloor> + 1 in
     (jsonError 429 (cat [''rate limit exceeded'', emdash, ''retry in '', int_str ra, '' s'']))
       \<lparr>rp_extraHeaders := [(''Retry-After'', int_str ra)]\<rparr>)"

definition clientIp :: "ask \<Rightarrow> config \<Rightarrow> http_request \<Rightarrow> string" where
  "clientIp k cf q = resolveClientIp (as_inet k) (hr_clientAddr q) (header ''x-real-ip'' q) (header ''x-forwarded-for'' q)
     (mTrustedProxies cf)"

section \<open>Accounts\<close>

definition handleRegister :: "ask \<Rightarrow> config \<Rightarrow> http_request \<Rightarrow> api \<Rightarrow> reply" where
  "handleRegister k cf q a =
     (let body = body_of q; username = getStr ''username'' [] body; password = getStr ''password'' [] body;
          bootstrap = (\<not> hasAdmin (mAuth a)); role = (if bootstrap then ''admin'' else ''user'') in
      if mRegistrationDisabled cf \<and> \<not> bootstrap
      then reject 403 (cat [''open registration is disabled on this deployment'', emdash,
             ''ask an administrator or your domain owner for an account'']) a
      else on_auth (registerUser (as_users_io k 0) (as_hash k password) username password role ''default'')
             (accept (created (json_ok (obj [kv_bool ''ok'' True, kv_str ''role'' role]))))
             (\<lambda>err. reject (if err = ''username already exists'' then 409 else 400) err) a)"

definition handleLogin :: "ask \<Rightarrow> http_request \<Rightarrow> api \<Rightarrow> reply" where
  "handleLogin k q a =
     (let body = body_of q; username = getStr ''username'' [] body
      in case login (as_verify k) (as_random k) username (getStr ''password'' [] body) (mAuth a) of
           (None, au) \<Rightarrow> reject 401 ''bad username or password'' (a\<lparr>mAuth := au\<rparr>)
         | (Some token, au) \<Rightarrow>
             accept (json_ok (obj [kv_str ''token'' token, kv_str ''username'' username])) (a\<lparr>mAuth := au\<rparr>))"

definition handleMe :: "caller \<Rightarrow> api \<Rightarrow> reply" where
  "handleMe c a = accept (json_ok (obj [kv_str ''username'' (c_user c), kv_str ''role'' (c_role c), kv_str ''domain'' (c_domain c),
     kv_bool ''domain_owner'' (domainOwner (c_domain c) (mStore a) = c_user c)])) a"

section \<open>The capture library\<close>

definition handlePcapsGet :: "caller \<Rightarrow> api \<Rightarrow> reply" where
  "handlePcapsGet c a = accept (json_ok (obj [
     kv ''pcaps'' (arr (map (\<lambda>p. obj [kv_str ''id'' (pm_id p), kv_str ''name'' (pm_name p), kv_u64 ''size'' (pm_size p),
        kv_str ''uploaded_at'' (pm_uploadedAt p), kv_str ''folder'' (pm_folder p)]) (pcaps_of (c_domain c) (mStore a)))),
     kv ''folders'' (arr (map value_str (pcapFolders (c_domain c) (mStore a))))])) a"

definition set_disk :: "files \<Rightarrow> api \<Rightarrow> api" where
  "set_disk d a = a\<lparr>ap_disk := d\<rparr>"

text \<open>The upload on the disk as a plain capture: its bytes and name, or the refusal.\<close>

definition stage_upload ::
    "ask \<Rightarrow> string \<Rightarrow> string \<Rightarrow> string \<Rightarrow> files \<Rightarrow> ((int \<times> string) + string \<times> string) \<times> files" where
  "stage_upload k tmp name bytes d =
     (let tool = compressionTool bytes in
      if tool = [] then (Inr (bytes, name), d)
      else let plain = tmp @ ''.plain'' in
        case decompressFile (as_tools k) tool tmp plain d of
          (Inl derr, d1) \<Rightarrow> (Inl (400, derr), remove_file (as_env k 0) tmp d1)
        | (Inr _, d1) \<Rightarrow>
            (let x = (case d1 plain of None \<Rightarrow> [] | Some x \<Rightarrow> x); d2 = remove_file (as_env k 0) tmp d1 in
             if as_rename k then (Inr (x, stripCompressionSuffix name), d2(tmp := d2 plain, plain := None))
             else (Inl (500, ''cannot stage decompressed capture''), remove_file (as_env k 0) plain d2)))"

definition upload_path :: "store \<Rightarrow> u64 \<Rightarrow> string" where
  "upload_path s n = mDataDir s @ ''/.upload-'' @ u_str n @ ''.tmp''"

definition add_upload :: "ask \<Rightarrow> string \<Rightarrow> string \<Rightarrow> string \<Rightarrow> caller \<Rightarrow> api \<Rightarrow> reply" where
  "add_upload k name bytes folder c a =
     (case addPcap (as_env k 1) name bytes folder (c_domain c) (mStore a, ap_disk a) of
        (None, _) \<Rightarrow> None
      | (Some (Inl err), s, d) \<Rightarrow>
          reject (if prefix ''folder name'' err then 400 else 500) err (a\<lparr>mStore := s, ap_disk := d\<rparr>)
      | (Some (Inr i), s, d) \<Rightarrow>
          accept (created (json_ok (obj [kv_str ''id'' i, kv_str ''name'' name, kv_u64 ''size'' (of_nat (length bytes) :: u64),
            kv_str ''folder'' folder]))) (a\<lparr>mStore := s, ap_disk := d\<rparr>))"

definition handlePcapsPost :: "ask \<Rightarrow> http_request \<Rightarrow> caller \<Rightarrow> api \<Rightarrow> reply" where
  "handlePcapsPost k q c a =
     (if hr_body q = [] then reject 400 ''empty upload'' a
      else let name = or_else (queryParam ''name'' q) ''capture.pcap''; folder = queryParam ''folder'' q;
               tmp = upload_path (mStore a) (mUploadSeq a); a1 = a\<lparr>mUploadSeq := mUploadSeq a + 1\<rparr> in
        if env_stream (as_env k 0) tmp = CannotOpen then reject 500 ''cannot write temp file'' a1
        else case stage_upload k tmp name (hr_body q) (stream_out (as_env k 0) tmp (hr_body q) (ap_disk a)) of
          (Inl (st, err), d) \<Rightarrow> reject st err (set_disk d a1)
        | (Inr (bytes, name'), d) \<Rightarrow>
            (let a2 = set_disk (remove_file (as_env k 0) tmp d) a1 in
             case pcap_open (\<lambda>p. map_option bytes_of (d p)) tmp of
               Ok _ \<Rightarrow> add_upload k name' bytes folder c a2
             | Err perr \<Rightarrow> reject 400 (cat [''not a valid capture: '', perr]) a2
             | UB \<Rightarrow> None | Diverges \<Rightarrow> None))"

definition no_such_pcap :: "string \<Rightarrow> api \<Rightarrow> reply" where
  "no_such_pcap i = reject 404 (cat [''no such pcap '', i])"

definition handlePcapDelete :: "ask \<Rightarrow> string \<Rightarrow> caller \<Rightarrow> api \<Rightarrow> reply" where
  "handlePcapDelete k i c a =
     (if pcapDomain i (mStore a) \<noteq> c_domain c then no_such_pcap i a
      else if \<not> cadmin c \<and> domainOwner (c_domain c) (mStore a) \<noteq> c_user c
      then reject 403 ''admin role or domain ownership required to delete pcaps'' a
      else on_store (removePcap (as_env k 0) i) (accept just_ok)
             (\<lambda>err. reject (if prefix ''no such'' err then 404 else 500) err) a)"

definition handlePcapMove :: "ask \<Rightarrow> http_request \<Rightarrow> string \<Rightarrow> caller \<Rightarrow> api \<Rightarrow> reply" where
  "handlePcapMove k q i c a =
     (if pcapDomain i (mStore a) \<noteq> c_domain c then no_such_pcap i a
      else case get ''folder'' (body_of q) of
        Some (Str f) \<Rightarrow> on_store (setPcapFolder (as_env k 0) i f) (accept just_ok)
             (\<lambda>err. reject (if prefix ''no such'' err then 404 else 400) err) a
      | _ \<Rightarrow> reject 400 (cat [''body must be '', [CHR 0x7B, CHR 0x22], ''folder'', [CHR 0x22], '': '', [CHR 0x22], ''...'',
               [CHR 0x22, CHR 0x7D], '' ('', [CHR 0x22, CHR 0x22], '' = root)'']) a)"

definition handleFolderPost :: "ask \<Rightarrow> http_request \<Rightarrow> caller \<Rightarrow> api \<Rightarrow> reply" where
  "handleFolderPost k q c =
     on_store (addPcapFolder (as_env k 0) (c_domain c) (getStr ''name'' [] (body_of q))) (accept (created just_ok)) (reject 400)"

definition handleFolderDelete :: "ask \<Rightarrow> string \<Rightarrow> caller \<Rightarrow> api \<Rightarrow> reply" where
  "handleFolderDelete k name c = on_store (removePcapFolder (as_env k 0) (c_domain c) name) (accept just_ok) (reject 400)"

definition lower_mac :: "char \<Rightarrow> char" where
  "lower_mac c = (let n = of_char c :: nat in if 65 \<le> n \<and> n \<le> 70 then char_of (n + 32) else c)"

definition handleDeviceNamePut :: "ask \<Rightarrow> http_request \<Rightarrow> caller \<Rightarrow> api \<Rightarrow> reply" where
  "handleDeviceNamePut k q c a =
     (let body = body_of q; mac = getStr ''mac'' [] body in
      case (if length mac \<noteq> 17 then None else get ''name'' body) of
        Some (Str name) \<Rightarrow>
          if length name > 64 then reject 400 ''name too long (max 64)'' a
          else on_store (setDeviceName (as_env k 0) (c_domain c) (map lower_mac mac) name) (accept just_ok) (reject 500) a
      | _ \<Rightarrow> reject 400 (cat [''body must be '', [CHR 0x7B, CHR 0x22], ''mac'', [CHR 0x22], '': '', [CHR 0x22],
               ''aa:bb:cc:dd:ee:ff'', [CHR 0x22], '', '', [CHR 0x22], ''name'', [CHR 0x22], '': '', [CHR 0x22], ''...'',
               [CHR 0x22, CHR 0x7D]]) a)"

end
