(* ===== verification/Api_Sessions.thy ===== *)
theory Api_Sessions
  imports Api
begin

text \<open>
  \<open>backend/src/api/api.cpp\<close>, second part: the handlers of sessions, their events, packets, notes,
  sources and information; and \<open>Event::toJson\<close> of \<open>model/event.h\<close>.  Every handler looks its
  session up with \<open>findScoped\<close>.
\<close>

section \<open>Looking up\<close>

definition splitSessionPath :: "string \<Rightarrow> (string \<times> string) option" where
  "splitSessionPath path =
     (if \<not> prefix ''/api/sessions/'' path then None
      else let rest = drop 14 path;
               (i, tail) = (case cut ''/'' rest of None \<Rightarrow> (rest, []) | Some (i, t) \<Rightarrow> (i, t))
           in if i = [] then None else Some (i, tail))"

definition findScoped :: "string \<Rightarrow> caller \<Rightarrow> api \<Rightarrow> session option" where
  "findScoped i c a = (case engine_find i (mEngine a) of
     None \<Rightarrow> None | Some s \<Rightarrow> if se_domain s \<noteq> c_domain c then None else Some s)"

definition no_such_session :: "string \<Rightarrow> api \<Rightarrow> reply" where
  "no_such_session i = reject 404 (cat [''no such session '', i])"

definition scoped :: "string \<Rightarrow> caller \<Rightarrow> (session \<Rightarrow> api \<Rightarrow> reply) \<Rightarrow> api \<Rightarrow> reply" where
  "scoped i c f a = (case findScoped i c a of None \<Rightarrow> no_such_session i a | Some s \<Rightarrow> f s a)"

section \<open>The list, and starting an analysis\<close>

definition statusName :: "status \<Rightarrow> string" where
  "statusName st = (case st of Running \<Rightarrow> ''running'' | Done \<Rightarrow> ''done'' | Failed _ \<Rightarrow> ''error'')"

definition errorMsg :: "status \<Rightarrow> string" where
  "errorMsg st = (case st of Failed e \<Rightarrow> e | _ \<Rightarrow> [])"

definition sessionSummary :: "session \<Rightarrow> (writer \<Rightarrow> writer) list" where
  "sessionSummary s =
     [kv_str ''id'' (se_id s), kv_str ''name'' (se_name s), kv_str ''pcap_id'' (se_pcapId s),
      kv_str ''status'' (statusName (se_status s)), kv_str ''error'' (errorMsg (se_status s)),
      kv_u64 ''packets'' (of_nat (se_packets s) :: u64), kv_u64 ''events'' (of_nat (length (se_events s)) :: u64),
      kv_u64 ''decode_errors'' (se_decodeErrors s), kv_double ''duration'' (se_duration s),
      kv_str ''start_ts_ns'' (u_str (se_firstTsNanos s)), kv_str ''created_at'' (se_createdAt s)]"

definition handleSessionsGet :: "caller \<Rightarrow> api \<Rightarrow> reply" where
  "handleSessionsGet c a = accept (json_ok (obj [kv ''sessions'' (arr (map (\<lambda>s. obj (sessionSummary s))
     (filter (\<lambda>s. se_domain s = c_domain c) (engine_list (mEngine a)))))])) a"

definition baseName :: "string \<Rightarrow> string" where
  "baseName path = last_part path"

definition SessionMeta :: session_meta where
  "SessionMeta = \<lparr>ss_id = [], ss_name = [], ss_pcapId = [], ss_path = [], ss_createdAt = [], ss_pcapIds = [],
     ss_pcapAliases = [], ss_resolvedPath = [], ss_domain = ''default''\<rparr>"

text \<open>What the request asks for: the metadata and whether captures are combined, or the refusal.\<close>

definition session_source_of :: "ask \<Rightarrow> json \<Rightarrow> caller \<Rightarrow> store \<Rightarrow> (int \<times> string) + session_meta \<times> bool" where
  "session_source_of k body c s =
     (let pcapId = getStr ''pcap_id'' [] body; path = getStr ''path'' [] body;
          ids = filter (\<lambda>i. i \<noteq> []) (map str_of (member_arr ''pcap_ids'' body));
          m = SessionMeta\<lparr>ss_domain := c_domain c\<rparr>;
          foreign = (\<lambda>i. pcapDomain i s \<noteq> c_domain c) in
      if ids \<noteq> [] then
        (case find foreign ids of
           Some i \<Rightarrow> Inl (404, cat [''unknown pcap_id '', i])
         | None \<Rightarrow> Inr (m\<lparr>ss_pcapIds := ids, ss_pcapId := hd ids, ss_name := cat ([pcapName (hd ids) s] @
             (if length ids > 1 then ['' + '', nat_str (length ids - 1), '' more''] else []))\<rparr>, length ids > 1))
      else if pcapId \<noteq> [] then
        (if foreign pcapId then Inl (404, cat [''unknown pcap_id '', pcapId])
         else Inr (m\<lparr>ss_pcapId := pcapId, ss_name := pcapName pcapId s\<rparr>, False))
      else if path \<noteq> [] then
        (if \<not> cadmin c then Inl (403, cat [''opening captures by server path requires the admin role'', emdash,
             ''upload the file instead''])
         else if \<not> as_regular k path then Inl (404, cat [''no such file on backend: '', path])
         else Inr (m\<lparr>ss_path := path, ss_name := baseName path\<rparr>, False))
      else Inl (400, ''body must contain pcap_id, pcap_ids, or path''))"

definition staging_path :: "store \<Rightarrow> u64 \<Rightarrow> string" where
  "staging_path s n = mDataDir s @ ''/.open-'' @ u_str n @ ''.tmp''"

text \<open>A compressed server path is inflated to a staging file first.\<close>

definition stage_path :: "ask \<Rightarrow> session_meta \<Rightarrow> api \<Rightarrow> (string + session_meta \<times> string) \<times> api" where
  "stage_path k m a =
     (let tool = (if ss_path m = [] then [] else compressionToolForFile (ss_path m) (ap_disk a)) in
      if tool = [] then (Inr (m, []), a)
      else let staged = staging_path (mStore a) (mUploadSeq a); a1 = a\<lparr>mUploadSeq := mUploadSeq a + 1\<rparr> in
        case decompressFile (as_tools k) tool (ss_path m) staged (ap_disk a) of
          (Inl derr, d) \<Rightarrow> (Inl derr, set_disk d a1)
        | (Inr _, d) \<Rightarrow> (Inr (m\<lparr>ss_resolvedPath := staged, ss_name := stripCompressionSuffix (ss_name m)\<rparr>, staged),
            set_disk d a1))"

definition new_session :: "ask \<Rightarrow> session_meta \<Rightarrow> string \<Rightarrow> store \<Rightarrow> session" where
  "new_session k m i s = Session\<lparr>se_id := i, se_name := ss_name m, se_pcapId := ss_pcapId m, se_path := ss_path m,
     se_createdAt := env_now (as_env k 1), se_domain := ss_domain m, se_pcapFilePath := sessionPcapPath s i\<rparr>"

definition handleSessionsPost :: "ask \<Rightarrow> http_request \<Rightarrow> caller \<Rightarrow> api \<Rightarrow> reply" where
  "handleSessionsPost k q c a =
     (case session_source_of k (body_of q) c (mStore a) of
        Inl (st, err) \<Rightarrow> reject st err a
      | Inr (m, combine) \<Rightarrow>
          (case stage_path k m a of
             (Inl derr, a1) \<Rightarrow> reject 400 derr a1
           | (Inr (m1, staged), a1) \<Rightarrow>
               (case addSession (as_env k 0) m1 (mStore a1, ap_disk a1) of
                  Ok (r, s, d) \<Rightarrow>
                    (let a2 = a1\<lparr>mStore := s, ap_disk := (if staged = [] then d else remove_file (as_env k 0) staged d)\<rparr> in
                     case r of
                       Inl err \<Rightarrow> reject (if combine then 400 else 500) err a2
                     | Inr i \<Rightarrow> accept (created (json_ok (obj [kv_str ''id'' i, kv_str ''status'' ''running''])))
                         (a2\<lparr>mEngine := engine_start (new_session k m1 i s) (mEngine a2)\<rparr>))
                | _ \<Rightarrow> None)))"

definition protos :: "proto list" where
  "protos = [ETH, MSRP, MVRP, MAAP, ADP, AECP, ACMP, GPTP]"

definition handleSessionGet :: "string \<Rightarrow> caller \<Rightarrow> api \<Rightarrow> reply" where
  "handleSessionGet i c = scoped i c (\<lambda>s. accept (json_ok (obj (sessionSummary s @
     [kv ''protocols'' (obj (map (\<lambda>p. kv_u64 (protoName p) (se_protoCounts s p)) (tl protos)))]))))"

definition handleSessionDelete :: "ask \<Rightarrow> string \<Rightarrow> caller \<Rightarrow> api \<Rightarrow> reply" where
  "handleSessionDelete k i c = scoped i c (\<lambda>_ a.
     case engine_remove i (mEngine a) of
       (False, e) \<Rightarrow> no_such_session i (a\<lparr>mEngine := e\<rparr>)
     | (True, e) \<Rightarrow>
         (case removeSession (as_env k 0) i (mStore a, ap_disk a) of (s, d) \<Rightarrow>
            accept just_ok (a\<lparr>mEngine := e, mStore := s, ap_disk := d\<rparr>)))"

section \<open>Events\<close>

definition event_json :: "event \<Rightarrow> writer \<Rightarrow> writer" where
  "event_json e = obj [kv_u64 ''i'' (ucast (ev_i e) :: u64), kv_u64 ''n'' (ucast (ev_n e) :: u64), kv_double ''ts'' (ev_ts e),
     kv_str ''kind'' (kindName (ev_kind e)), kv_str ''proto'' (protoName (ev_proto e)), kv_str ''type'' (ev_type e),
     kv_str ''src'' (ev_src e), kv_str ''dst'' (ev_dst e), kv_str ''summary'' (ev_summary e), kv_str ''entity'' (ev_entity e),
     kv_str ''stream'' (ev_stream e),
     kv ''fields'' (obj (map (\<lambda>(k, v). if isNumeric v then kv k (raw v) else kv_str k v) (ev_fields e)))]"

definition kind_id :: "kind \<Rightarrow> nat" where
  "kind_id x = (case x of Packet \<Rightarrow> 0 | TransitionEv \<Rightarrow> 1 | ErrorEv \<Rightarrow> 2)"

definition compact_events :: "session \<Rightarrow> writer \<Rightarrow> writer" where
  "compact_events s = obj [kv ''protos'' (arr (map (\<lambda>p. value_str (protoName p)) protos)),
     kv ''kinds'' (arr [value_str ''packet'', value_str ''transition'', value_str ''error'']),
     kv ''events'' (arr (map (\<lambda>e. arr [value_u64 (ucast (ev_i e) :: u64), value_u64 (ucast (ev_n e) :: u64), value_double (ev_ts e),
        value_u64 (of_nat (proto_id (ev_proto e)) :: u64), value_u64 (of_nat (kind_id (ev_kind e)) :: u64), value_str (ev_type e)])
        (se_events s)))]"

text \<open>A comma-separated filter: no filter passes everything, unknown names nothing.\<close>

definition parseList :: "(string \<Rightarrow> nat option) \<Rightarrow> string \<Rightarrow> u32" where
  "parseList bit_of csv =
     (if csv = [] then - 1
      else fold (\<lambda>item m. case bit_of item of None \<Rightarrow> m | Some b \<Rightarrow> m OR push_bit b 1) (split_on (CHR '','') csv) 0)"

definition proto_bit :: "string \<Rightarrow> nat option" where
  "proto_bit n = map_option proto_id (find (\<lambda>p. n = protoName p) protos)"

definition kind_bit :: "string \<Rightarrow> nat option" where
  "kind_bit n = (if n = ''packet'' then Some 0 else if n = ''transition'' then Some 1 else if n = ''error'' then Some 2 else None)"

definition event_matches :: "u32 \<Rightarrow> u32 \<Rightarrow> event \<Rightarrow> bool" where
  "event_matches pm km e \<longleftrightarrow> pm AND push_bit (proto_id (ev_proto e)) 1 \<noteq> 0 \<and> km AND push_bit (kind_id (ev_kind e)) 1 \<noteq> 0"

text \<open>The loop over the log: how many matched, and the page of them.\<close>

fun page_loop :: "(event \<Rightarrow> bool) \<Rightarrow> u64 \<Rightarrow> u64 \<Rightarrow> event list \<Rightarrow> nat \<Rightarrow> nat \<Rightarrow> nat \<times> event list" where
  "page_loop f offset limit [] matched taken_n = (matched, [])"
| "page_loop f offset limit (e # es) matched taken_n =
     (if \<not> f e then page_loop f offset limit es matched taken_n
      else if unat offset \<le> matched \<and> taken_n < unat limit
      then (case page_loop f offset limit es (matched + 1) (taken_n + 1) of (m, out) \<Rightarrow> (m, e # out))
      else page_loop f offset limit es (matched + 1) taken_n)"

definition num_param :: "string \<Rightarrow> u64 \<Rightarrow> http_request \<Rightarrow> u64" where
  "num_param name dflt q = (let v = queryParam name q in if v = [] then dflt else fst (strtoull v))"

definition handleEvents :: "http_request \<Rightarrow> string \<Rightarrow> caller \<Rightarrow> api \<Rightarrow> reply" where
  "handleEvents q i c = scoped i c (\<lambda>s.
     if queryParam ''compact'' q = ''1'' then accept (json_ok (compact_events s))
     else let f = event_matches (parseList proto_bit (queryParam ''proto'' q)) (parseList kind_bit (queryParam ''kind'' q));
              offset = num_param ''offset'' 0 q; limit = min (num_param ''limit'' 1000 q) 10000;
              (matched, page) = page_loop f offset limit (se_events s) 0 0
          in accept (json_ok (obj [kv_u64 ''total'' (of_nat (length (se_events s)) :: u64), kv_u64 ''matched'' (of_nat matched :: u64),
               kv_u64 ''offset'' offset, kv ''events'' (raw (json_of (arr (map event_json page))))])))"

section \<open>Packets and sources\<close>

definition packet_bytes :: "string \<Rightarrow> pcap_packet \<Rightarrow> string option" where
  "packet_bytes x p = (let b = take (unat (pk_caplen p)) (drop (pk_offset p) x)
     in if length b < unat (pk_caplen p) then None else Some b)"

text \<open>The source of packet \<open>n\<close> in a combined capture: two bytes per packet in the sidecar.\<close>

definition source_index :: "string \<Rightarrow> nat \<Rightarrow> files \<Rightarrow> nat option" where
  "source_index i n d = (case d i of None \<Rightarrow> None
     | Some x \<Rightarrow> (case drop ((n - 1) * 2) x of a # b # _ \<Rightarrow> Some (of_char a + 256 * of_char b) | _ \<Rightarrow> None))"

definition source_fields :: "string \<Rightarrow> nat \<Rightarrow> api \<Rightarrow> (writer \<Rightarrow> writer) list" where
  "source_fields i n a =
     (case source_index (sessionSrcMapPath (mStore a) i) n (ap_disk a) of
        None \<Rightarrow> []
      | Some j \<Rightarrow> (let srcs = sessionSources i (mStore a) in
          if j < length srcs then [kv_u64 ''source_index'' (of_nat j :: u64), kv_str ''source_alias'' (src_alias (srcs ! j)),
            kv_str ''source_name'' (src_name (srcs ! j))] else []))"

definition layer_json :: "layer \<Rightarrow> writer \<Rightarrow> writer" where
  "layer_json l = obj [kv_str ''service'' (ly_service l),
     kv ''fields'' (arr (map (\<lambda>(n, v). obj [kv_str ''name'' n, kv_str ''value'' v]) (ly_fields l)))]"

definition packet_reply :: "string \<Rightarrow> nat \<Rightarrow> session \<Rightarrow> string \<Rightarrow> pcap_packet \<Rightarrow> api \<Rightarrow> reply" where
  "packet_reply i n s x p a =
     (case packet_bytes x p of
        None \<Rightarrow> reject 500 ''capture file truncated'' a
      | Some b \<Rightarrow>
          (case inspectPacket (bytes_of b) of
             None \<Rightarrow> None
           | Some ls \<Rightarrow> accept (json_ok (obj ([kv_u64 ''n'' (of_nat n :: u64),
                kv_double ''ts'' (real (unat (pk_tsNanos p - se_firstTsNanos s)) / 10 ^ 9),
                kv_u64 ''len'' (ucast (pk_origlen p) :: u64), kv_u64 ''caplen'' (ucast (pk_caplen p) :: u64)] @ source_fields i n a @
                [kv ''layers'' (arr (map layer_json ls)), kv_str ''hex'' (hexDump (bytes_of b))]))) a))"

definition handlePacket :: "string \<Rightarrow> string \<Rightarrow> caller \<Rightarrow> api \<Rightarrow> reply" where
  "handlePacket i nStr c = scoped i c (\<lambda>s a.
     case strtoull nStr of (v, rest) \<Rightarrow>
       (let n = unat v in
        if rest \<noteq> [] \<or> n = 0 \<or> n > length (se_pindex s) then reject 404 (cat [''no such packet '', nStr]) a
        else case ap_disk a (se_pcapFilePath s) of
          None \<Rightarrow> reject 500 ''capture file unavailable'' a
        | Some x \<Rightarrow> packet_reply i n s x (se_pindex s ! (n - 1)) a))"

definition handleSrcMap :: "string \<Rightarrow> caller \<Rightarrow> api \<Rightarrow> reply" where
  "handleSrcMap i c = scoped i c (\<lambda>_ a.
     case ap_disk a (sessionSrcMapPath (mStore a) i) of
       None \<Rightarrow> reject 404 ''session has no source map (single capture)'' a
     | Some x \<Rightarrow> accept (HttpResponse\<lparr>rp_contentType := ''application/octet-stream'', rp_body := x\<rparr>) a)"

definition handleSourceAlias :: "ask \<Rightarrow> http_request \<Rightarrow> string \<Rightarrow> string \<Rightarrow> caller \<Rightarrow> api \<Rightarrow> reply" where
  "handleSourceAlias k q i idxStr c = scoped i c (\<lambda>_ a.
     case strtoull idxStr of (idx, rest) \<Rightarrow>
       (if rest \<noteq> [] then reject 400 (cat [''bad source index '', idxStr]) a
        else let alias = getStr ''alias'' [] (body_of q)
             in on_store (setSessionAlias (as_env k 0) i (unat idx) alias)
                  (accept (json_ok (obj [kv_u64 ''index'' idx, kv_str ''alias'' alias])))
                  (\<lambda>err. reject (if sublist ''out of range'' err then 400 else 500) err) a))"

section \<open>Notes\<close>

definition notesRev :: "string \<Rightarrow> string" where
  "notesRev markdown = hexDump (take 8 (sha1 (str_bytes markdown)))"

definition handleNotesGet :: "string \<Rightarrow> caller \<Rightarrow> api \<Rightarrow> reply" where
  "handleNotesGet i c = scoped i c (\<lambda>_ a.
     let md = readNotes i (mStore a, ap_disk a) in accept (json_ok (obj [kv_str ''markdown'' md, kv_str ''rev'' (notesRev md)])) a)"

definition conflict :: "string \<Rightarrow> http_response" where
  "conflict current = HttpResponse\<lparr>rp_status := 409, rp_body := json_of (obj [
     kv_str ''error'' (cat [''conflict'', emdash, ''the notes were modified by someone else'']),
     kv_str ''rev'' (notesRev current), kv_str ''markdown'' current])\<rparr>"

definition handleNotesPut :: "ask \<Rightarrow> http_request \<Rightarrow> string \<Rightarrow> caller \<Rightarrow> api \<Rightarrow> reply" where
  "handleNotesPut k q i c = scoped i c (\<lambda>_ a.
     let body = body_of q in
     case get ''markdown'' body of
       Some (Str md) \<Rightarrow>
         (let baseRev = getStr ''rev'' [] body; current = readNotes i (mStore a, ap_disk a) in
          if baseRev \<noteq> [] \<and> baseRev \<noteq> notesRev current then accept (conflict current) a
          else on_store (writeNotes (as_notes_io k) i md)
                 (accept (json_ok (obj [kv_bool ''ok'' True, kv_str ''rev'' (notesRev md)]))) (reject 500) a)
     | _ \<Rightarrow> reject 400 (cat [''body must be '', [CHR 0x7B, CHR 0x22], ''markdown'', [CHR 0x22], '': '', [CHR 0x22], ''...'',
              [CHR 0x22, CHR 0x7D]]) a)"

section \<open>State and information\<close>

definition handleState :: "string \<Rightarrow> caller \<Rightarrow> api \<Rightarrow> reply" where
  "handleState i c = scoped i c (\<lambda>s. accept (HttpResponse\<lparr>rp_body := stateJson s\<rparr>))"

definition isoFromSec :: "ask \<Rightarrow> int \<Rightarrow> string" where
  "isoFromSec k t = (if t \<le> 0 then [] else as_gmt k t)"

definition file_info :: "ask \<Rightarrow> string \<Rightarrow> writer \<Rightarrow> writer" where
  "file_info k path = obj (kv_str ''path'' path # (case as_stat k path of
     Some f \<Rightarrow> [kv_u64 ''size'' (ft_size f), kv_str ''modified'' (isoFromSec k (ft_modified f)),
        kv_str ''accessed'' (isoFromSec k (ft_accessed f)),
        kv_str ''created'' (case ft_created f of None \<Rightarrow> [] | Some t \<Rightarrow> isoFromSec k t)]
   | None \<Rightarrow> [kv_u64 ''size'' (0 :: u64), kv_str ''modified'' [], kv_str ''accessed'' [], kv_str ''created'' []]))"

definition source_json :: "nat \<times> session_source \<Rightarrow> writer \<Rightarrow> writer" where
  "source_json = (\<lambda>(n, r). obj [kv_u64 ''index'' (of_nat n :: u64), kv_str ''pcap_id'' (src_pcapId r), kv_str ''name'' (src_name r),
     kv_str ''alias'' (src_alias r)])"

definition device_json :: "session \<Rightarrow> (string, string) omap \<Rightarrow> u64 \<times> device \<Rightarrow> writer \<Rightarrow> writer" where
  "device_json s names = (\<lambda>(mac, v). obj [kv_str ''mac'' (macStr mac), kv_u64 ''packets'' (dv_packets v),
     kv ''protocols'' (arr (map (\<lambda>p. value_str (protoName p))
        (filter (\<lambda>p. dv_protoMask v AND push_bit (proto_id p) 1 \<noteq> 0) (tl protos)))),
     kv_str ''entity_id'' (id_or_empty (dv_entityId v)),
     kv ''assoc_entity_ids'' (arr (map (\<lambda>i. value_str (idStr i)) (filter (\<lambda>i. i \<noteq> dv_entityId v) (sorted_list_of_set (dv_assocIds v))))),
     kv_str ''entity_name'' (case se_logic s of None \<Rightarrow> [] | Some l \<Rightarrow> if dv_entityId v = 0 then [] else nameOf (an_shared l) (dv_entityId v)),
     kv_str ''name'' (om_at [] names (macStr mac))])"

definition handleInfo :: "ask \<Rightarrow> string \<Rightarrow> caller \<Rightarrow> api \<Rightarrow> reply" where
  "handleInfo k i c = scoped i c (\<lambda>s a. accept (json_ok (obj [
     kv ''file'' (file_info k (se_pcapFilePath s)),
     kv ''capture'' (obj [kv_str ''start_ts_ns'' (u_str (se_firstTsNanos s)), kv_str ''end_ts_ns'' (u_str (se_lastTsNanos s)),
        kv_str ''start_iso'' (isoFromSec k (uint (se_firstTsNanos s div 1000000000))),
        kv_str ''end_iso'' (isoFromSec k (uint (se_lastTsNanos s div 1000000000))),
        kv_double ''duration'' (se_duration s), kv_u64 ''packets'' (of_nat (se_packets s) :: u64)]),
     kv ''session'' (obj [kv_str ''id'' (se_id s), kv_str ''name'' (se_name s), kv_str ''created_at'' (se_createdAt s)]),
     kv ''sources'' (arr (map source_json (enumerate 0 (sessionSources i (mStore a))))),
     kv ''devices'' (arr (map (device_json s (deviceNames (c_domain c) (mStore a))) (se_devices s)))])) a)"

end
