(* ===== verification/Api_Admin.thy ===== *)
theory Api_Admin
  imports Api_Sessions
begin

text \<open>
  \<open>backend/src/api/api.cpp\<close>, third part: presence, the administrator's endpoints, the domain
  owner's endpoints, the traffic counters, the monitor and the metrics.
\<close>

section \<open>Presence\<close>

definition fresh_presence :: "double \<Rightarrow> (string, presence) omap \<Rightarrow> (string, presence) omap" where
  "fresh_presence now m = filter (\<lambda>(t, p). \<not> now - pr_seen p > 60) m"

definition handlePresencePut :: "ask \<Rightarrow> http_request \<Rightarrow> caller \<Rightarrow> string \<Rightarrow> api \<Rightarrow> reply" where
  "handlePresencePut k q c token a =
     (let view = take 128 (getStr ''view'' [] (body_of q)); now = as_clock k 3;
          pr = \<lparr>pr_user = c_user c, pr_view = view, pr_domain = c_domain c, pr_seen = now\<rparr>
      in accept just_ok (a\<lparr>mPresence := fresh_presence now (om_set token pr (mPresence a))\<rparr>))"

definition presence_json :: "double \<Rightarrow> bool \<Rightarrow> presence \<Rightarrow> writer \<Rightarrow> writer" where
  "presence_json now everyone p = obj ([kv_str ''username'' (pr_user p), kv_str ''view'' (pr_view p),
     kv_double ''idle_s'' (now - pr_seen p)] @ (if everyone then [kv_str ''domain'' (pr_domain p)] else []))"

text \<open>Presence is scoped by domain; administrators see everyone.\<close>

definition handlePresenceGet :: "ask \<Rightarrow> caller \<Rightarrow> api \<Rightarrow> reply" where
  "handlePresenceGet k c a = (let now = as_clock k 3 in accept (json_ok (obj [
     kv ''users'' (arr (map (\<lambda>(t, p). presence_json now (cadmin c) p)
       (filter (\<lambda>(t, p). cadmin c \<or> pr_domain p = c_domain c) (fresh_presence now (mPresence a)))))])) a)"

section \<open>Users\<close>

text \<open>Per user the view and idle time of the tab seen last.\<close>

definition see_online :: "double \<Rightarrow> string \<times> presence \<Rightarrow> (string, string \<times> double) omap \<Rightarrow> (string, string \<times> double) omap" where
  "see_online now = (\<lambda>(t, p) m. let idle = now - pr_seen p in
     if idle > 60 then m
     else case om_get m (pr_user p) of
       Some (v, i) \<Rightarrow> if idle < i then om_set (pr_user p) (pr_view p, idle) m else m
     | None \<Rightarrow> om_set (pr_user p) (pr_view p, idle) m)"

definition admin_users_get :: "ask \<Rightarrow> api \<Rightarrow> reply" where
  "admin_users_get k a = (let online = fold (see_online (as_clock k 3)) (mPresence a) [] in
     accept (json_ok (obj [kv ''users'' (arr (map (\<lambda>u. obj [
       kv_str ''username'' (ui_username u), kv_str ''role'' (ui_role u), kv_str ''domain'' (ui_domain u),
       kv_bool ''online'' (om_get online (ui_username u) \<noteq> None),
       kv_str ''view'' (case om_get online (ui_username u) of Some (v, i) \<Rightarrow> v | None \<Rightarrow> [])]) (list_users (mAuth a))))])) a)"

definition created_ok :: "api \<Rightarrow> reply" where
  "created_ok = accept (created just_ok)"

definition account_error :: "string \<Rightarrow> api \<Rightarrow> reply" where
  "account_error err = reject (if err = ''username already exists'' then 409 else 400) err"

definition admin_users_post :: "ask \<Rightarrow> http_request \<Rightarrow> api \<Rightarrow> reply" where
  "admin_users_post k q a =
     (let body = body_of q; tenant = or_else (getStr ''domain'' ''default'' body) ''default''; pw = getStr ''password'' [] body in
      if \<not> hasDomain tenant (mStore a) then reject 400 (cat [''no such domain '', tenant]) a
      else on_auth (registerUser (as_users_io k 0) (as_hash k pw) (getStr ''username'' [] body) pw
             (getStr ''role'' ''user'' body) tenant) created_ok account_error a)"

definition remove_account :: "ask \<Rightarrow> string \<Rightarrow> api \<Rightarrow> reply" where
  "remove_account k name = on_auth (deleteUser (as_users_io k 0) name) (accept just_ok)
     (\<lambda>err. reject (if err = ''no such user'' then 404 else 400) err)"

definition admin_user_delete :: "ask \<Rightarrow> string \<Rightarrow> caller \<Rightarrow> api \<Rightarrow> reply" where
  "admin_user_delete k name c a =
     (if name = c_user c then reject 400 ''cannot delete your own account'' a else remove_account k name a)"

section \<open>Domains\<close>

text \<open>What a domain holds: accounts, sessions, captures and their bytes.\<close>

definition users_in :: "string \<Rightarrow> api \<Rightarrow> nat" where
  "users_in i a = length (filter (\<lambda>u. ui_domain u = i) (list_users (mAuth a)))"

definition sessions_in :: "string \<Rightarrow> api \<Rightarrow> nat" where
  "sessions_in i a = length (filter (\<lambda>x. ss_domain x = i) (st_sessions (mStore a)))"

definition bytes_in :: "string \<Rightarrow> api \<Rightarrow> u64" where
  "bytes_in i a = sum_list (map pm_size (pcaps_of i (mStore a)))"

definition kv_nat :: "string \<Rightarrow> nat \<Rightarrow> writer \<Rightarrow> writer" where
  "kv_nat k n = kv_u64 k (of_nat n :: u64)"

definition admin_domains_get :: "api \<Rightarrow> reply" where
  "admin_domains_get a = accept (json_ok (obj [kv ''domains'' (arr (map (\<lambda>d. obj [
     kv_str ''id'' (dm_id d), kv_str ''name'' (dm_name d), kv_str ''owner'' (dm_owner d), kv_str ''created_at'' (dm_createdAt d),
     kv_nat ''users'' (users_in (dm_id d) a), kv_nat ''sessions'' (sessions_in (dm_id d) a),
     kv_nat ''pcaps'' (length (pcaps_of (dm_id d) (mStore a))), kv_u64 ''pcap_bytes'' (bytes_in (dm_id d) a)])
     (domains (mStore a))))])) a"

text \<open>The owner of a new domain: an account made inside it, or moved into it.\<close>

definition settle_owner :: "ask \<Rightarrow> bool \<Rightarrow> string \<Rightarrow> string \<Rightarrow> string \<Rightarrow> api \<Rightarrow> reply" where
  "settle_owner k existed i owner pw =
     (let ok = accept (created (json_ok (obj [kv_bool ''ok'' True, kv_str ''id'' i, kv_str ''owner'' owner]))) in
      if existed then on_auth (setDomain (as_users_io k 0) owner i) ok (reject 500)
      else on_auth (registerUser (as_users_io k 0) (as_hash k pw) owner pw ''user'' i) ok
        (\<lambda>err a. case removeDomain (as_env k 1) i False (mStore a, ap_disk a) of
           (_, r, s, d) \<Rightarrow> (if r = None then None
              else reject 400 (cat [''cannot create owner: '', err]) (a\<lparr>mStore := s, ap_disk := d\<rparr>))))"

definition admin_domains_post :: "ask \<Rightarrow> http_request \<Rightarrow> api \<Rightarrow> reply" where
  "admin_domains_post k q a =
     (let body = body_of q; i = getStr ''id'' [] body; owner = getStr ''owner'' [] body; pw = getStr ''owner_password'' [] body;
          existed = (roleOf owner (mAuth a) \<noteq> []) in
      if owner = [] then reject 400 (cat [''body must contain id, owner (username) and, for '',
             ''a new owner account, owner_password'']) a
      else if \<not> existed \<and> pw = [] then reject 400 (cat [''owner '', owner, '' does not exist'', emdash,
             ''provide owner_password to create the account'']) a
      else on_store (addDomain (as_env k 0) i (getStr ''name'' [] body) owner) (settle_owner k existed i owner pw)
             (\<lambda>err. reject (if err = ''domain already exists'' then 409 else 400) err) a)"

text \<open>After a removal its sessions leave the engine and its users fall back into \<open>default\<close>; the
  answers of the saves are not looked at.\<close>

definition drop_sessions :: "string list \<Rightarrow> engine \<Rightarrow> engine" where
  "drop_sessions = fold (\<lambda>i e. snd (engine_remove i e))"

fun fall_back :: "(nat \<Rightarrow> io_script) \<Rightarrow> string list \<Rightarrow> auth \<times> files \<Rightarrow> (auth \<times> files) option" where
  "fall_back io [] s = Some s"
| "fall_back io (n # ns) s =
     (case setDomain (io 0) n ''default'' s of (r, s1) \<Rightarrow> if r = None then None else fall_back (\<lambda>i. io (i + 1)) ns s1)"

definition admin_domain_delete :: "ask \<Rightarrow> string \<Rightarrow> bool \<Rightarrow> api \<Rightarrow> reply" where
  "admin_domain_delete k i force a =
     (case removeDomain (as_env k 0) i force (mStore a, ap_disk a) of
        (gone, r, s, d) \<Rightarrow>
          (let a1 = a\<lparr>mStore := s, ap_disk := d\<rparr> in
           case r of
             None \<Rightarrow> None
           | Some (Some err) \<Rightarrow> reject (if err = ''no such domain'' then 404 else 400) err a1
           | Some None \<Rightarrow>
               (case fall_back (as_users_io k) (map ui_username (filter (\<lambda>u. ui_domain u = i) (list_users (mAuth a1))))
                       (mAuth a1, ap_disk a1) of
                  None \<Rightarrow> None
                | Some (au, d2) \<Rightarrow> accept just_ok (a1\<lparr>mEngine := drop_sessions gone (mEngine a1), mAuth := au, ap_disk := d2\<rparr>))))"

section \<open>Storage\<close>

definition admin_storage_get :: "api \<Rightarrow> reply" where
  "admin_storage_get a = accept (json_ok (obj [kv_str ''pcap_root'' (pcapRoot (mStore a)),
     kv_str ''default_root'' (mDataDir (mStore a) @ ''/pcaps''), kv_nat ''pcap_count'' (length (mPcaps (mStore a)))])) a"

definition admin_storage_put :: "ask \<Rightarrow> http_request \<Rightarrow> api \<Rightarrow> reply" where
  "admin_storage_put k q a =
     (case get ''pcap_root'' (body_of q) of
        Some (Str dir) \<Rightarrow> on_store (setPcapRoot (as_env k 0) dir)
          (\<lambda>a1. accept (json_ok (obj [kv_bool ''ok'' True, kv_str ''pcap_root'' (pcapRoot (mStore a1))])) a1) (reject 400) a
      | _ \<Rightarrow> reject 400 (cat [''body must be '', [CHR 0x7B, CHR 0x22], ''pcap_root'', [CHR 0x22], '': '', [CHR 0x22], ''/abs/path'',
               [CHR 0x22, CHR 0x7D], '' ('', [CHR 0x22, CHR 0x22], '' resets to the default)'']) a)"

section \<open>Traffic\<close>

definition DomainTraffic :: traffic where
  "DomainTraffic = \<lparr>tr_slots = replicate 60 0, tr_lastSec = 0, tr_total = 0\<rparr>"

definition slot_of :: "int \<Rightarrow> nat" where
  "slot_of s = nat (s mod 60)"

text \<open>Slots skipped since the last hit are cleared.\<close>

definition turn_slots :: "int \<Rightarrow> traffic \<Rightarrow> traffic" where
  "turn_slots nowSec t =
     (if tr_lastSec t = nowSec then t
      else t\<lparr>tr_slots := (if tr_lastSec t = 0 \<or> nowSec - tr_lastSec t \<ge> 60 then replicate 60 0
               else fold (\<lambda>s xs. xs[slot_of s := 0]) [tr_lastSec t + 1 .. nowSec] (tr_slots t)), tr_lastSec := nowSec\<rparr>)"

definition hit_slot :: "int \<Rightarrow> traffic \<Rightarrow> traffic" where
  "hit_slot nowSec t0 = (let t = turn_slots nowSec t0 in
     t\<lparr>tr_slots := (tr_slots t)[slot_of nowSec := tr_slots t ! slot_of nowSec + 1], tr_total := tr_total t + 1\<rparr>)"

definition trafficHit :: "int \<Rightarrow> string \<Rightarrow> api \<Rightarrow> api" where
  "trafficHit nowSec i a = a\<lparr>mTraffic := om_set i (hit_slot nowSec (om_at DomainTraffic (mTraffic a) i)) (mTraffic a)\<rparr>"

definition trafficPerMin :: "traffic \<Rightarrow> int \<Rightarrow> double" where
  "trafficPerMin t nowSec =
     (if tr_lastSec t = 0 \<or> nowSec - tr_lastSec t \<ge> 60 then 0
      else sum_list (map (\<lambda>s. real (unat (tr_slots t ! slot_of s)))
             (filter (\<lambda>s. s > tr_lastSec t - 60 \<and> s \<le> tr_lastSec t) [nowSec - 59 .. nowSec])))"

section \<open>The monitor\<close>

definition first_line :: "string \<Rightarrow> string" where
  "first_line t = takeWhile (\<lambda>c. c \<noteq> CHR 0x0A) t"

text \<open>The blank-separated words a stream yields.\<close>

function stream_words :: "string \<Rightarrow> string list" where
  "stream_words t = (let s = dropWhile is_space t in
     if s = [] then [] else takeWhile (\<lambda>c. \<not> is_space c) s # stream_words (dropWhile (\<lambda>c. \<not> is_space c) s))"
  by auto
termination
proof (relation "measure length")
  fix t :: string and s
  assume s: "s = dropWhile is_space t" and ne: "s \<noteq> []"
  have "\<not> is_space (hd s)" using hd_dropWhile ne s by fast
  then have "length (dropWhile (\<lambda>c. \<not> is_space c) s) < length s" using ne by (cases s) (auto intro: le_imp_less_Suc length_dropWhile_le)
  also have "\<dots> \<le> length t" by (simp add: s length_dropWhile_le)
  finally show "(dropWhile (\<lambda>c. \<not> is_space c) s, t) \<in> measure length" by simp
qed simp

declare stream_words.simps [simp del]

text \<open>Fields 14 and 15 of \<open>/proc/self/stat\<close>, counted behind the closing parenthesis.\<close>

definition process_jiffies :: "string \<Rightarrow> u64" where
  "process_jiffies t =
     (let l = first_line t in
      if CHR '')'' \<notin> set l then 0
      else let ws3 = stream_words (drop 1 (rev (takeWhile (\<lambda>c. c \<noteq> CHR '')'') (rev l))))
           in sum_list (map (\<lambda>v. fst (strtoull v)) (drop 11 (take 13 ws3))))"

text \<open>The first numbers of the \<open>cpu\<close> line: their sum, and the fourth.\<close>

definition cpu_columns :: "string \<Rightarrow> u64 list" where
  "cpu_columns t = map (\<lambda>v. fst (strtoull v))
     (takeWhile (\<lambda>v. is_digit (hd v)) (take 8 (drop 1 (stream_words t))))"

definition line_value :: "string \<Rightarrow> string \<Rightarrow> u64" where
  "line_value label t = fold (\<lambda>l v. if prefix label l then fst (strtoull (drop (length label) l)) else v) (split_lines [] t) 0"

definition u64_real :: "u64 \<Rightarrow> double" where
  "u64_real x = real (unat x)"

definition sample_cpu :: "double \<Rightarrow> proc_reading \<Rightarrow> cpu_state \<Rightarrow> cpu_state" where
  "sample_cpu now pc s =
     (let dt = now - (case mCpuAt s of None \<Rightarrow> 0 | Some t \<Rightarrow> t) in
      if \<not> (mCpuAt s = None \<or> dt > 0.2) then s
      else let jiffies = process_jiffies (pc_self_stat pc); cols = cpu_columns (pc_stat pc); total = sum_list cols;
               idle = (if length cols > 3 then cols ! 3 else 0); hz = (if pc_hz pc < 1 then 100 else pc_hz pc);
               s1 = (if mCpuAt s \<noteq> None \<and> dt > 0
                     then let dtot = total - mCpuTotalJiffies s; didl = idle - mCpuIdleJiffies s
                          in s\<lparr>mCpuProcPct := 100 * (u64_real (jiffies - mCpuProcJiffies s) / of_int hz) / dt,
                               mCpuSysPct := (if dtot \<noteq> 0 then 100 * u64_real (dtot - didl) / u64_real dtot else 0)\<rparr>
                     else s)
           in s1\<lparr>mCpuProcJiffies := jiffies, mCpuTotalJiffies := total, mCpuIdleJiffies := idle, mCpuAt := Some now\<rparr>)"

definition monitor_domain :: "ask \<Rightarrow> api \<Rightarrow> domain_meta \<Rightarrow> writer \<Rightarrow> writer" where
  "monitor_domain k a d = (let i = dm_id d in obj [
     kv_str ''id'' i, kv_str ''name'' (dm_name d), kv_str ''owner'' (dm_owner d), kv_nat ''users'' (users_in i a),
     kv_nat ''online'' (length (filter (\<lambda>(t, p). as_clock k 4 - pr_seen p \<le> 60 \<and> pr_domain p = i) (mPresence a))),
     kv_nat ''sessions'' (sessions_in i a),
     kv_nat ''running'' (length (filter (\<lambda>s. se_domain s = i \<and> se_status s = Running) (engine_list (mEngine a)))),
     kv_nat ''pcaps'' (length (pcaps_of i (mStore a))), kv_u64 ''pcap_bytes'' (bytes_in i a),
     kv_double ''req_per_min'' (case om_get (mTraffic a) i of None \<Rightarrow> 0 | Some t \<Rightarrow> trafficPerMin t \<lfloor>as_clock k 5\<rfloor>),
     kv_nat ''ws_clients'' (length (filter (\<lambda>c. ci_kind c = ''ws'' \<and> domainOf (ci_user c) (mAuth a) = i) (ap_clients a)))])"

definition handleAdminMonitor :: "ask \<Rightarrow> config \<Rightarrow> api \<Rightarrow> reply" where
  "handleAdminMonitor k cf a =
     (let pc = as_proc k; s = sample_cpu (as_clock k 3) pc (mCpu a); a1 = a\<lparr>mCpu := s\<rparr>
      in accept (json_ok (obj [
        kv ''cpu'' (obj [kv_double ''process_pct'' (mCpuProcPct s), kv_double ''system_pct'' (mCpuSysPct s),
          kv_u64 ''cores'' (of_int (max 1 (pc_cores pc)) :: u64)]),
        kv ''mem'' (obj [kv_u64 ''rss_kb'' (line_value ''VmRSS:'' (pc_status pc)),
          kv_u64 ''total_kb'' (line_value ''MemTotal:'' (pc_meminfo pc)),
          kv_u64 ''available_kb'' (line_value ''MemAvailable:'' (pc_meminfo pc))]),
        kv_double ''uptime_s'' (as_clock k 6 - mStart cf),
        kv ''domains'' (arr (map (monitor_domain k a1) (domains (mStore a))))])) a1)"

section \<open>Metrics\<close>

definition metrics_session :: "ask \<Rightarrow> session \<Rightarrow> writer \<Rightarrow> writer" where
  "metrics_session k s = (let ms = as_analysisMs k (se_id s) in obj [
     kv_str ''id'' (se_id s), kv_nat ''packets'' (se_packets s), kv_nat ''events'' (length (se_events s)),
     kv_u64 ''decode_errors'' (se_decodeErrors s), kv_u64 ''analysis_ms'' ms,
     kv_double ''pps'' (if ms \<noteq> 0 then real (se_packets s) * 1000 / u64_real ms else 0)])"

definition metrics_client :: "ask \<Rightarrow> client_info \<Rightarrow> writer \<Rightarrow> writer" where
  "metrics_client k c = obj [kv_str ''addr'' (ci_addr c), kv_str ''user'' (ci_user c), kv_str ''kind'' (ci_kind c),
     kv_u64 ''messages'' (ci_messages c), kv_u64 ''bytes_sent'' (ci_bytesSent c),
     kv_double ''connected_s'' (as_clock k 5 - as_since k c)]"

definition rusage_time :: "int \<times> int \<Rightarrow> double" where
  "rusage_time = (\<lambda>(sec, usec). of_int sec + of_int usec / 10 ^ 6)"

definition handleMetrics :: "ask \<Rightarrow> config \<Rightarrow> caller \<Rightarrow> api \<Rightarrow> reply" where
  "handleMetrics k cf c a = (let pc = as_proc k; p = as_pool k in accept (json_ok (obj [
     kv ''process'' (obj [kv_double ''cpu_user_s'' (rusage_time (pc_utime pc)), kv_double ''cpu_sys_s'' (rusage_time (pc_stime pc)),
       kv_u64 ''rss_kb'' (line_value ''VmRSS:'' (pc_status pc)), kv_double ''uptime_s'' (as_clock k 4 - mStart cf),
       kv_u64 ''threads'' (line_value ''Threads:'' (pc_status pc))]),
     kv ''pool'' (obj [kv_nat ''threads'' (length (mThreads p)), kv_u64 ''max_threads'' (mMax p),
       kv_nat ''queued'' (length (mQueue p)), kv_u64 ''active'' (mActive p)]),
     kv ''sessions'' (arr (map (metrics_session k)
       (filter (\<lambda>s. \<not> (se_domain s \<noteq> c_domain c \<and> \<not> cadmin c)) (engine_list (mEngine a))))),
     kv ''clients'' (arr (map (metrics_client k) (if cadmin c then ap_clients a else [])))])) a)"

section \<open>The two groups of endpoints\<close>

text \<open>What follows a prefix of the path.\<close>

definition after :: "string \<Rightarrow> string \<Rightarrow> string option" where
  "after pre p = (if prefix pre p then Some (drop (length pre) p) else None)"

definition no_endpoint :: "string \<Rightarrow> http_request \<Rightarrow> api \<Rightarrow> reply" where
  "no_endpoint what q = reject 404 (cat [what, hr_method q, '' '', hr_path q])"

definition handleAdmin :: "ask \<Rightarrow> config \<Rightarrow> http_request \<Rightarrow> caller \<Rightarrow> api \<Rightarrow> reply" where
  "handleAdmin k cf q c a =
     (let p = hr_path q; m = hr_method q in
      if \<not> cadmin c then reject 403 ''admin role required'' a
      else if p = ''/api/admin/users'' \<and> m = ''GET'' then admin_users_get k a
      else if p = ''/api/admin/users'' \<and> m = ''POST'' then admin_users_post k q a
      else if p = ''/api/admin/domains'' \<and> m = ''GET'' then admin_domains_get a
      else if p = ''/api/admin/domains'' \<and> m = ''POST'' then admin_domains_post k q a
      else case (if m = ''DELETE'' then after ''/api/admin/domains/'' p else None) of
        Some i \<Rightarrow> admin_domain_delete k i (queryParam ''force'' q = ''1'') a
      | None \<Rightarrow>
      if p = ''/api/admin/monitor'' \<and> m = ''GET'' then handleAdminMonitor k cf a
      else if p = ''/api/admin/security'' \<and> m = ''GET'' then accept (json_ok (guard_snapshot (as_clock k 3) (mGuard a))) a
      else if p = ''/api/admin/storage'' \<and> m = ''GET'' then admin_storage_get a
      else if p = ''/api/admin/storage'' \<and> m = ''PUT'' then admin_storage_put k q a
      else case (if m = ''DELETE'' then after ''/api/admin/users/'' p else None) of
        Some name \<Rightarrow> admin_user_delete k name c a
      | None \<Rightarrow> no_endpoint ''no such admin endpoint: '' q a)"

text \<open>The owner of the caller's domain, or an administrator in it.\<close>

definition is_owner :: "caller \<Rightarrow> api \<Rightarrow> bool" where
  "is_owner c a \<longleftrightarrow> domainOwner (c_domain c) (mStore a) = c_user c \<or> cadmin c"

definition domain_get :: "caller \<Rightarrow> api \<Rightarrow> reply" where
  "domain_get c a =
     (let name = (case find (\<lambda>d. dm_id d = c_domain c) (domains (mStore a)) of Some d \<Rightarrow> dm_name d | None \<Rightarrow> c_domain c);
          owner = domainOwner (c_domain c) (mStore a)
      in accept (json_ok (obj ([kv_str ''id'' (c_domain c), kv_str ''name'' name, kv_str ''owner'' owner,
           kv_bool ''is_owner'' (is_owner c a)] @
         (if is_owner c a then [kv ''users'' (arr (map (\<lambda>u. obj [kv_str ''username'' (ui_username u), kv_str ''role'' (ui_role u),
            kv_bool ''owner'' (ui_username u = owner)]) (filter (\<lambda>u. ui_domain u = c_domain c) (list_users (mAuth a)))))] else [])))) a)"

text \<open>Owners only ever mint regular users, always inside their domain.\<close>

definition domain_user_post :: "ask \<Rightarrow> http_request \<Rightarrow> caller \<Rightarrow> api \<Rightarrow> reply" where
  "domain_user_post k q c = (let body = body_of q; pw = getStr ''password'' [] body in
     on_auth (registerUser (as_users_io k 0) (as_hash k pw) (getStr ''username'' [] body) pw ''user'' (c_domain c))
       created_ok account_error)"

definition domain_user_delete :: "ask \<Rightarrow> string \<Rightarrow> caller \<Rightarrow> api \<Rightarrow> reply" where
  "domain_user_delete k name c a =
     (let victim = infoOf name (mAuth a) in
      if ui_username victim = [] \<or> ui_domain victim \<noteq> c_domain c then reject 404 ''no such user in your domain'' a
      else if name = c_user c then reject 400 ''cannot delete your own account'' a
      else if ui_role victim = ''admin'' \<or> name = domainOwner (c_domain c) (mStore a)
      then reject 403 ''cannot delete admins or the domain owner'' a
      else remove_account k name a)"

definition handleDomainApi :: "ask \<Rightarrow> http_request \<Rightarrow> caller \<Rightarrow> api \<Rightarrow> reply" where
  "handleDomainApi k q c a =
     (let p = hr_path q; m = hr_method q in
      if p = ''/api/domain'' \<and> m = ''GET'' then domain_get c a
      else if \<not> is_owner c a then reject 403 ''domain ownership (or admin role) required'' a
      else if p = ''/api/domain/users'' \<and> m = ''POST'' then domain_user_post k q c a
      else case (if m = ''DELETE'' then after ''/api/domain/users/'' p else None) of
        Some name \<Rightarrow> domain_user_delete k name c a
      | None \<Rightarrow> no_endpoint ''no such endpoint: '' q a)"

end
