(* ===== verification/Api_Routes.thy ===== *)
theory Api_Routes
  imports Api_Admin
begin

text \<open>
  \<open>backend/src/api/api.cpp\<close>, last part: who calls, the limits, the routes, the guard behind every
  request, and the files of the frontend.
\<close>

section \<open>Limits\<close>

text \<open>One question to the limiter: \<open>None\<close> when the call may go on, otherwise the wait.  The
  readings of the clock are the one for pruning and the one for refilling.\<close>

definition ask_limiter :: "ask \<Rightarrow> nat \<Rightarrow> string \<Rightarrow> double \<Rightarrow> double \<Rightarrow> double \<Rightarrow> api \<Rightarrow> double option \<times> api" where
  "ask_limiter k n bkey rps burst pen a =
     (case allow bkey rps burst pen (as_clock k (n + 7)) (as_clock k n) (mLimiter a) of
        (ok, w, l) \<Rightarrow> (if ok then None else Some (case w of None \<Rightarrow> 0 | Some x \<Rightarrow> x), a\<lparr>mLimiter := l\<rparr>))"

definition expensive :: "http_request \<Rightarrow> bool" where
  "expensive q \<longleftrightarrow> (hr_path q = ''/api/pcaps'' \<or> hr_path q = ''/api/sessions'') \<and> hr_method q = ''POST''"

text \<open>Administrators are exempt; others take from their bucket, expensive calls from a second one.\<close>

definition limit_caller :: "ask \<Rightarrow> config \<Rightarrow> http_request \<Rightarrow> string \<Rightarrow> caller \<Rightarrow> api \<Rightarrow> double option \<times> api" where
  "limit_caller k cf q actor c a =
     (if cadmin c then (None, a)
      else let pen = penalty (as_clock k 0) actor (mGuard a) in
        case ask_limiter k 1 actor (mRateRps cf) (mRateBurst cf) pen a of
          (Some w, a1) \<Rightarrow> (Some w, a1)
        | (None, a1) \<Rightarrow> if expensive q then ask_limiter k 2 (''op:'' @ c_user c) 0.2 8 pen a1 else (None, a1))"

section \<open>Routes\<close>

definition caller_of :: "string \<Rightarrow> auth \<Rightarrow> caller" where
  "caller_of user au = (let info = infoOf user au in
     \<lparr>c_user = user, c_role = ui_role info, c_domain = or_else (ui_domain info) ''default''\<rparr>)"

definition handleLogout :: "string \<Rightarrow> api \<Rightarrow> reply" where
  "handleLogout token a = accept just_ok (a\<lparr>mAuth := logout token (mAuth a)\<rparr>)"

text \<open>The endpoints below one session.\<close>

definition route_session :: "ask \<Rightarrow> http_request \<Rightarrow> string \<Rightarrow> string \<Rightarrow> caller \<Rightarrow> api \<Rightarrow> reply" where
  "route_session k q i tail c =
     (let m = hr_method q in
      if tail = [] \<and> m = ''GET'' then handleSessionGet i c
      else if tail = [] \<and> m = ''DELETE'' then handleSessionDelete k i c
      else if tail = ''events'' \<and> m = ''GET'' then handleEvents q i c
      else if tail = ''state'' \<and> m = ''GET'' then handleState i c
      else if tail = ''notes'' \<and> m = ''GET'' then handleNotesGet i c
      else if tail = ''notes'' \<and> m = ''PUT'' then handleNotesPut k q i c
      else if tail = ''info'' \<and> m = ''GET'' then handleInfo k i c
      else case (if m = ''GET'' then after ''packets/'' tail else None) of
        Some n \<Rightarrow> handlePacket i n c
      | None \<Rightarrow>
      if tail = ''srcmap'' \<and> m = ''GET'' then handleSrcMap i c
      else case (if m = ''PUT'' then after ''sources/'' tail else None) of
        Some n \<Rightarrow> handleSourceAlias k q i n c
      | None \<Rightarrow> no_endpoint ''no such endpoint: '' q)"

text \<open>The captures: the whole library, its folders, one capture.\<close>

definition one_pcap :: "string \<Rightarrow> string option" where
  "one_pcap p = (case after ''/api/pcaps/'' p of None \<Rightarrow> None | Some i \<Rightarrow> if CHR ''/'' \<notin> set i \<and> i \<noteq> [] then Some i else None)"

definition route_pcaps :: "ask \<Rightarrow> http_request \<Rightarrow> caller \<Rightarrow> (api \<Rightarrow> reply) \<Rightarrow> api \<Rightarrow> reply" where
  "route_pcaps k q c other =
     (let p = hr_path q; m = hr_method q in
      if p = ''/api/pcaps'' \<and> m = ''GET'' then handlePcapsGet c
      else if p = ''/api/pcaps'' \<and> m = ''POST'' then handlePcapsPost k q c
      else if p = ''/api/pcaps/folders'' \<and> m = ''POST'' then handleFolderPost k q c
      else case (if m = ''DELETE'' then after ''/api/pcaps/folders/'' p else None) of
        Some name \<Rightarrow> handleFolderDelete k name c
      | None \<Rightarrow>
      case one_pcap p of
        Some i \<Rightarrow> if m = ''DELETE'' then handlePcapDelete k i c else if m = ''PUT'' then handlePcapMove k q i c else other
      | None \<Rightarrow> other)"

definition route_caller :: "ask \<Rightarrow> config \<Rightarrow> http_request \<Rightarrow> string \<Rightarrow> caller \<Rightarrow> api \<Rightarrow> reply" where
  "route_caller k cf q token c =
     (let p = hr_path q; m = hr_method q in
      if p = ''/api/logout'' \<and> m = ''POST'' then handleLogout token
      else if p = ''/api/me'' \<and> m = ''GET'' then handleMe c
      else if p = ''/api/presence'' \<and> m = ''PUT'' then handlePresencePut k q c token
      else if p = ''/api/presence'' \<and> m = ''GET'' then handlePresenceGet k c
      else if prefix ''/api/admin/'' p then handleAdmin k cf q c
      else if p = ''/api/domain'' \<or> prefix ''/api/domain/'' p then handleDomainApi k q c
      else route_pcaps k q c
        (if p = ''/api/sessions'' \<and> m = ''GET'' then handleSessionsGet c
         else if p = ''/api/sessions'' \<and> m = ''POST'' then handleSessionsPost k q c
         else if p = ''/api/metrics'' \<and> m = ''GET'' then handleMetrics k cf c
         else if p = ''/api/devices'' \<and> m = ''PUT'' then handleDeviceNamePut k q c
         else case splitSessionPath p of
           Some (i, tail) \<Rightarrow> route_session k q i tail c
         | None \<Rightarrow> no_endpoint ''no such endpoint: '' q))"

definition set_client_user :: "nat option \<Rightarrow> string \<Rightarrow> api \<Rightarrow> api" where
  "set_client_user client user a = (case client of None \<Rightarrow> a
     | Some n \<Rightarrow> a\<lparr>ap_clients := (ap_clients a)[n := (ap_clients a ! n)\<lparr>ci_user := user\<rparr>]\<rparr>)"

definition needs_admin :: "api \<Rightarrow> reply" where
  "needs_admin a = accept (json_ok (obj [kv_bool ''needs_admin'' (\<not> hasAdmin (mAuth a))])) a"

text \<open>Login and registration share a bucket per address, tightened while the address is flagged.\<close>

definition route_anonymous :: "ask \<Rightarrow> config \<Rightarrow> http_request \<Rightarrow> string \<Rightarrow> api \<Rightarrow> reply" where
  "route_anonymous k cf q ip a =
     (case ask_limiter k 1 (''ip:'' @ ip) (mLoginRps cf) (mLoginBurst cf) (penalty (as_clock k 0) (''ip:'' @ ip) (mGuard a)) a of
        (Some w, a1) \<Rightarrow> accept (tooMany w) a1
      | (None, a1) \<Rightarrow> if hr_path q = ''/api/register'' then handleRegister k cf q a1 else handleLogin k q a1)"

text \<open>The answer and the state, with the actor and the caller the guard is told about.\<close>

definition routeApi :: "ask \<Rightarrow> config \<Rightarrow> http_request \<Rightarrow> nat option \<Rightarrow> string \<Rightarrow> api \<Rightarrow> reply \<times> string \<times> caller" where
  "routeApi k cf q client ip a =
     (let p = hr_path q; m = hr_method q; token = bearerToken q; user = check_token token (mAuth a) in
      if p = ''/api/bootstrap'' \<and> m = ''GET'' then (needs_admin a, ''ip:'' @ ip, nobody)
      else if (p = ''/api/register'' \<or> p = ''/api/login'') \<and> m = ''POST'' then (route_anonymous k cf q ip a, ''ip:'' @ ip, nobody)
      else if user = [] then (reject 401 ''missing or invalid token'' a, ''ip:'' @ ip, nobody)
      else let c = caller_of user (mAuth a); actor = ''u:'' @ user; a1 = set_client_user client user a in
        ((case limit_caller k cf q actor c a1 of
            (Some w, a2) \<Rightarrow> accept (tooMany w) a2
          | (None, a2) \<Rightarrow> route_caller k cf q token c a2), actor, c))"

definition guard_request :: "ask \<Rightarrow> http_request \<Rightarrow> string \<Rightarrow> caller \<Rightarrow> int \<Rightarrow> request" where
  "guard_request k q actor c st = \<lparr>rq_now = as_clock k 11, rq_iso = as_iso k, rq_log_opens = as_log_opens k, rq_actor = actor,
     rq_domain = c_domain c, rq_role = c_role c, rq_method = hr_method q, rq_path = hr_path q, rq_status = st,
     rq_bytes = of_nat (length (hr_body q))\<rparr>"

text \<open>Every API request, rejected ones too, counts for its domain and goes through the guard.\<close>

definition handleApi :: "ask \<Rightarrow> config \<Rightarrow> http_request \<Rightarrow> nat option \<Rightarrow> api \<Rightarrow> reply" where
  "handleApi k cf q client a =
     (case routeApi k cf q client (clientIp k cf q) a of
        (None, _) \<Rightarrow> None
      | (Some (rp, a1), actor, c) \<Rightarrow>
          (let a2 = trafficHit \<lfloor>as_clock k 10\<rfloor> (or_else (c_domain c) ''(unauthenticated)'') a1
           in Some (rp, a2\<lparr>mGuard := fg_record (guard_request k q actor c (rp_status rp)) (mGuard a2)\<rparr>)))"

section \<open>The frontend\<close>

text \<open>A stream opens a file, and a directory, which reads as empty.\<close>

definition open_file :: "ask \<Rightarrow> string \<Rightarrow> files \<Rightarrow> string option" where
  "open_file k path d = (case d path of Some x \<Rightarrow> Some x | None \<Rightarrow> if as_is_dir k path then Some [] else None)"

definition static_type :: "string \<Rightarrow> string" where
  "static_type full =
     (if ends_with ''.html'' full then ''text/html; charset=utf-8''
      else if ends_with ''.js'' full then ''text/javascript; charset=utf-8''
      else if ends_with ''.css'' full then ''text/css; charset=utf-8''
      else if ends_with ''.svg'' full then ''image/svg+xml''
      else if ends_with ''.png'' full then ''image/png''
      else if ends_with ''.ico'' full then ''image/x-icon''
      else if ends_with ''.json'' full then ''application/json''
      else ''application/octet-stream'')"

text \<open>The file a path names, and the one served: a path without a dot falls back to the page.\<close>

definition static_rel :: "string \<Rightarrow> string" where
  "static_rel p = (if p = ''/'' then ''/index.html'' else p)"

definition static_file :: "ask \<Rightarrow> config \<Rightarrow> string \<Rightarrow> files \<Rightarrow> (string \<times> string) option" where
  "static_file k cf rel d =
     (case open_file k (mFrontendDir cf @ rel) d of
        Some x \<Rightarrow> Some (mFrontendDir cf @ rel, x)
      | None \<Rightarrow>
          if CHR ''.'' \<notin> set rel then map_option (Pair (mFrontendDir cf @ ''/index.html'')) (open_file k (mFrontendDir cf @ ''/index.html'') d)
          else None)"

definition handleStatic :: "ask \<Rightarrow> config \<Rightarrow> http_request \<Rightarrow> api \<Rightarrow> reply" where
  "handleStatic k cf q a =
     (if hr_method q \<noteq> ''GET'' \<and> hr_method q \<noteq> ''HEAD'' then reject 405 ''method not allowed'' a
      else if has_dotdot (static_rel (hr_path q)) then reject 403 ''forbidden'' a
      else case static_file k cf (static_rel (hr_path q)) (ap_disk a) of
        None \<Rightarrow> accept (HttpResponse\<lparr>rp_status := 404, rp_contentType := ''text/plain'', rp_body := ''not found''\<rparr>) a
      | Some (full, x) \<Rightarrow> accept (HttpResponse\<lparr>rp_contentType := static_type full, rp_body := x,
          rp_extraHeaders := [(''Cache-Control'', ''no-cache'')]\<rparr>) a)"

definition handle :: "ask \<Rightarrow> config \<Rightarrow> http_request \<Rightarrow> nat option \<Rightarrow> api \<Rightarrow> reply" where
  "handle k cf q client a =
     (if prefix ''/api/'' (hr_path q) \<or> hr_path q = ''/api'' then handleApi k cf q client a else handleStatic k cf q a)"

end
