(* ===== verification/Tenancy.thy ===== *)
theory Tenancy
  imports Store_Proofs Api_Routes
begin

text \<open>
  What belongs to one tenant domain in the library, the accounts and the engine, and that each
  operation done for one domain leaves what belongs to every other domain as it was.
\<close>

section \<open>Filters of maps\<close>

lemma filter_om_set_skip:
  assumes "\<not> P (k, v)" and "\<And>v'. om_get m k = Some v' \<Longrightarrow> \<not> P (k, v')"
  shows "filter P (om_set k v m) = filter P m"
  using assms by (induction k v m rule: om_set.induct) (auto split: if_splits)

lemma filter_om_del_skip:
  assumes "\<And>v. (k, v) \<in> set m \<Longrightarrow> \<not> P (k, v)"
  shows "filter P (om_del k m) = filter P m"
  using assms by (induction m) (auto simp: om_del_def)

lemma filter_sort_skip: "sorted xs \<Longrightarrow> \<not> P x \<Longrightarrow> filter P (sort (xs @ [x])) = filter P xs" for xs :: "'a::linorder list"
  using filter_sort [of P "\<lambda>x. x" "xs @ [x]"] sorted_filter [of "\<lambda>x. x" xs P] by (simp add: sorted_sort_id)

lemma filter_remove_first_skip: "(\<And>x. x \<in> set xs \<Longrightarrow> p x \<Longrightarrow> \<not> P x) \<Longrightarrow> filter P (remove_first p xs) = filter P xs"
  by (induction xs) (simp_all add: remove_first_Cons)

lemma filter_update_first_skip:
  assumes "\<And>x. x \<in> set xs \<Longrightarrow> p x \<Longrightarrow> \<not> P x \<and> \<not> P (f x)"
  shows "filter P (update_first p f xs) = filter P xs"
  using assms by (induction xs) (simp_all add: update_first_Cons)

section \<open>The library\<close>

definition store_view :: "string \<Rightarrow> store \<Rightarrow>
    pcap_meta list \<times> session_meta list \<times> (string, string) omap \<times> (string \<times> string) list \<times> string" where
  "store_view t s = (pcaps_of t s, filter (\<lambda>m. ss_domain m = t) (st_sessions s), deviceNames t s,
     filter (\<lambda>f. fst f = t) (mPcapFolders s), domainOwner t s)"

text \<open>For domain \<open>i\<close> only.\<close>

definition s_within :: "string \<Rightarrow> store \<Rightarrow> store \<Rightarrow> bool" where
  "s_within i s s' \<longleftrightarrow> (\<forall>t. t \<noteq> i \<longrightarrow> store_view t s' = store_view t s)"

lemma s_within_refl [simp, intro]: "s_within i s s"
  by (simp add: s_within_def)

lemma within_add_folder: "sorted (mPcapFolders s) \<Longrightarrow> s_within i s (add_folder i f s)"
  by (auto simp: s_within_def store_view_def add_folder_def pcaps_of_def deviceNames_def domainOwner_def filter_sort_skip)

lemma s_within_trans: "s_within i s s1 \<Longrightarrow> s_within i s1 s2 \<Longrightarrow> s_within i s s2"
  by (simp add: s_within_def)

lemma within_mPcaps:
  assumes "\<And>t. t \<noteq> i \<Longrightarrow> filter (\<lambda>p. pm_domain p = t) ps = filter (\<lambda>p. pm_domain p = t) (mPcaps s)"
  shows "s_within i s (s\<lparr>mPcaps := ps\<rparr>)" "s_within i s (s\<lparr>mNextPcap := n, mPcaps := ps\<rparr>)" "s_within i s (s\<lparr>mNextPcap := n\<rparr>)"
  using assms by (simp_all add: s_within_def store_view_def pcaps_of_def deviceNames_def domainOwner_def)

lemma addPcap_within:
  assumes "sorted (mPcapFolders s)"
  shows "s_within (or_else t ''default'') s (fst (snd (addPcap e n x f t (s, d))))"
proof -
  define m where "m = new_pcap e n x f t s"
  have m: "pm_domain m = or_else t ''default''" by (simp add: m_def new_pcap_def)
  have "s_within (pm_domain m) s (list_pcap m s)"
    unfolding list_pcap_def
    by (rule s_within_trans [OF within_mPcaps(2) within_add_folder]) (use assms in auto)
  moreover have "s_within (pm_domain m) s ((list_pcap m s)\<lparr>mPcaps := mPcaps s\<rparr>)"
    unfolding list_pcap_def add_folder_pcaps
    by (rule s_within_trans [OF _ within_add_folder]) (use assms in \<open>simp_all add: s_within_def store_view_def pcaps_of_def deviceNames_def domainOwner_def\<close>)
  ultimately show ?thesis
    unfolding addPcap_def prod.case Let_def m_def [symmetric] m [symmetric]
    by (auto split: disk.split prod.split option.split)
qed

lemma find_pcap_Some: "find_pcap i s = Some p \<Longrightarrow> p \<in> set (mPcaps s) \<and> pm_id p = i"
  by (auto simp: find_pcap_def find_Some_iff in_set_conv_nth)

lemma same_pcap: "pcaps_inv s \<Longrightarrow> find_pcap i s = Some p \<Longrightarrow> q \<in> set (mPcaps s) \<Longrightarrow> pm_id q = i \<Longrightarrow> q = p"
  using pcap_ids_distinct [of s q p] find_pcap_Some [of i s p] by auto

lemma removePcap_within:
  assumes "pcaps_inv s"
  shows "s_within (pcapDomain i s) s (fst (snd (removePcap e i (s, d))))"
proof (cases "find_pcap i s")
  case (Some p)
  have "s_within (pm_domain p) s (s\<lparr>mPcaps := remove_first (\<lambda>p. pm_id p = i) (mPcaps s)\<rparr>)"
    using same_pcap [OF assms Some] by (intro within_mPcaps filter_remove_first_skip) auto
  then show ?thesis
    using Some by (auto simp: removePcap_def pcapDomain_def Let_def split: prod.split option.split)
qed (simp add: removePcap_def)

lemma setPcapFolder_within:
  assumes "pcaps_inv s" and "sorted (mPcapFolders s)"
  shows "s_within (pcapDomain i s) s (fst (snd (setPcapFolder e i f (s, d))))"
proof (cases "find_pcap i s")
  case (Some p)
  define s1 where "s1 = s\<lparr>mPcaps := update_first (\<lambda>p. pm_id p = i) (\<lambda>p. p\<lparr>pm_folder := f\<rparr>) (mPcaps s)\<rparr>"
  have "s_within (pm_domain p) s s1"
    unfolding s1_def using same_pcap [OF assms(1) Some] by (intro within_mPcaps filter_update_first_skip) auto
  moreover have "s_within (pm_domain p) s1 (add_folder (pm_domain p) f s1)"
    using assms(2) by (intro within_add_folder) (simp add: s1_def)
  ultimately have "s_within (pm_domain p) s (add_folder (pm_domain p) f s1)" by (rule s_within_trans)
  then show ?thesis
    using Some by (simp only: setPcapFolder_def pcapDomain_def prod.case option.case Let_def s1_def [symmetric] case_prod_beta
        if_distrib [of fst] if_distrib [of snd] st_refuse_state fst_conv snd_conv split: if_split) simp
qed (simp add: setPcapFolder_def)

lemma addPcapFolder_within: "sorted (mPcapFolders s) \<Longrightarrow> s_within t s (fst (snd (addPcapFolder e t n (s, d))))"
  by (auto simp: addPcapFolder_def Let_def s_within_def store_view_def pcaps_of_def deviceNames_def domainOwner_def filter_sort_skip
      split: prod.split)

lemma removePcapFolder_within: "s_within t s (fst (snd (removePcapFolder e t n (s, d))))"
  by (auto simp: removePcapFolder_def Let_def s_within_def store_view_def pcaps_of_def deviceNames_def domainOwner_def
      split: prod.split intro!: filter_cong)

lemma setDeviceName_within: "s_within t s (fst (snd (setDeviceName e t mac n (s, d))))"
  by (auto simp: setDeviceName_def Let_def s_within_def store_view_def pcaps_of_def deviceNames_def domainOwner_def om_simps
      set_name_def erase_name_def om_at_def split: prod.split option.split)

section \<open>Sessions\<close>

definition pairs :: "store \<Rightarrow> (string \<times> string) set" where
  "pairs s = (\<lambda>m. (ss_id m, ss_domain m)) ` set (st_sessions s)"

lemma find_session_Some: "find_session i s = Some m \<Longrightarrow> m \<in> set (st_sessions s) \<and> ss_id m = i"
  by (auto simp: find_session_def find_Some_iff in_set_conv_nth)

lemma within_sessions:
  assumes "\<And>t. t \<noteq> i \<Longrightarrow> filter (\<lambda>m. ss_domain m = t) ms = filter (\<lambda>m. ss_domain m = t) (st_sessions s)"
  shows "s_within i s (s\<lparr>st_sessions := ms\<rparr>)" "s_within i s (s\<lparr>mNextSession := n, st_sessions := ms\<rparr>)"
  using assms by (simp_all add: s_within_def store_view_def pcaps_of_def deviceNames_def domainOwner_def)

lemma setSessionAlias_within:
  assumes "\<And>t'. (i, t') \<in> pairs s \<Longrightarrow> t' = t"
  shows "s_within t s (fst (snd (setSessionAlias e i k a (s, d))))"
proof -
  have "s_within t s (s\<lparr>st_sessions := update_first (\<lambda>m. ss_id m = i) (set_alias k a) (st_sessions s)\<rparr>)"
    using assms by (intro within_sessions filter_update_first_skip) (auto simp: pairs_def set_alias_def)
  then show ?thesis by (auto simp: setSessionAlias_def Let_def split: option.split prod.split)
qed

lemma removeSession_within:
  assumes "\<And>t'. (i, t') \<in> pairs s \<Longrightarrow> t' = t"
  shows "s_within t s (fst (removeSession e i (s, d)))"
proof -
  have "s_within t s (s\<lparr>st_sessions := filter (\<lambda>m. ss_id m \<noteq> i) (st_sessions s)\<rparr>)"
    using assms by (intro within_sessions) (auto simp: pairs_def intro!: filter_cong)
  then show ?thesis by (simp add: removeSession_def Let_def)
qed

text \<open>What \<open>addSession\<close> leaves behind: the old library, or the library with one more session.\<close>

lemma addSession_cases:
  assumes run: "addSession e m0 (s, d) = Ok (r, s', d')"
  obtains "s' = s" "\<exists>msg. r = Inl msg"
    | m where "s' = s\<lparr>mNextSession := mNextSession s + 1, st_sessions := st_sessions s @ [m]\<rparr>"
        "ss_id m = ''s'' @ u_str (mNextSession s)" "ss_domain m = or_else (ss_domain m0) ''default''" "r = Inr (ss_id m)"
proof -
  obtain m paths names where start: "session_start e m0 s = (m, paths, names)" by (metis prod_cases3)
  have m: "ss_id m = ''s'' @ u_str (mNextSession s)" "ss_domain m = or_else (ss_domain m0) ''default''"
    using start by (auto simp: session_start_def Let_def split: if_splits)
  show ?thesis
    using run that(1) that(2) [OF _ m]
    by (auto simp: addSession_def start on_ok_eq_Ok Let_def split: option.splits) (auto split: sum.splits)
qed

lemma addSession_within:
  assumes "addSession e m0 (s, d) = Ok (r, s', d')"
  shows "s_within (or_else (ss_domain m0) ''default'') s s'"
  using assms by (cases rule: addSession_cases) (auto intro!: within_sessions)

text \<open>The other operations keep the ids of the sessions and their domains.\<close>

definition keeps_sessions :: "store \<Rightarrow> store \<Rightarrow> bool" where
  "keeps_sessions s s' \<longleftrightarrow> pairs s' \<subseteq> pairs s \<and> mNextSession s' = mNextSession s"

lemma keeps_sessions_refl [simp]: "keeps_sessions s s"
  by (simp add: keeps_sessions_def)

lemma add_folder_sessions [simp]: "st_sessions (add_folder t f s) = st_sessions s" "mNextSession (add_folder t f s) = mNextSession s"
  by (simp_all add: add_folder_def)

lemma pairs_update_first: "(\<And>m. ss_id (f m) = ss_id m \<and> ss_domain (f m) = ss_domain m) \<Longrightarrow>
    (\<lambda>m. (ss_id m, ss_domain m)) ` set (update_first p f ms) = (\<lambda>m. (ss_id m, ss_domain m)) ` set ms"
  using arg_cong [OF map_update_first [of "\<lambda>m. (ss_id m, ss_domain m)" f p ms], of set] by simp

lemma keeps_library:
  "keeps_sessions s (fst (snd (addPcap e n x f t (s, d))))"
  "keeps_sessions s (fst (snd (removePcap e i (s, d))))"
  "keeps_sessions s (fst (snd (setPcapFolder e i f (s, d))))"
  "keeps_sessions s (fst (snd (addPcapFolder e t n (s, d))))"
  "keeps_sessions s (fst (snd (removePcapFolder e t n (s, d))))"
  "keeps_sessions s (fst (snd (setDeviceName e t mac n (s, d))))"
  unfolding addPcap_def removePcap_def setPcapFolder_def addPcapFolder_def removePcapFolder_def setDeviceName_def prod.case Let_def
  by (auto simp: keeps_sessions_def pairs_def list_pcap_def st_refuse_def split: option.split prod.split disk.split)

lemma keeps_alias: "keeps_sessions s (fst (snd (setSessionAlias e i k a (s, d))))"
  by (auto simp: setSessionAlias_def Let_def keeps_sessions_def pairs_def set_alias_def pairs_update_first [unfolded pairs_def]
      split: option.split prod.split)

lemma keeps_domains:
  "keeps_sessions s (fst (snd (addDomain e i n w (s, d))))"
  "keeps_sessions s (fst (snd (snd (removeDomain e i force (s, d)))))"
  "keeps_sessions s (fst (snd (setPcapRoot e path (s, d))))"
  unfolding addDomain_def removeDomain_def setPcapRoot_def prod.case Let_def
  by (auto simp: keeps_sessions_def pairs_def st_refuse_def st_commit_def without_domain_def with_root_def
      split: option.split prod.split sum.split)

lemma keeps_remove: "keeps_sessions s (fst (removeSession e i (s, d)))"
  by (auto simp: removeSession_def Let_def keeps_sessions_def pairs_def)

end
