(* ===== verification/Api_Proofs.thy ===== *)
theory Api_Proofs
  imports Tenancy
begin

text \<open>
  The invariant of the server's state and what requests may change: a caller who is not an
  administrator changes only what belongs to the domain of the account, and no administrator
  account.  One lemma per handler; the routes put them together.  Registration and login, which
  are open to everybody, have their own lemmas.
\<close>

section \<open>Accounts\<close>

definition accounts :: "string \<Rightarrow> auth \<Rightarrow> (string \<times> user) list" where
  "accounts t au = filter (\<lambda>(n, u). u_domain u = t) (mUsers au)"

definition tokens_of :: "string \<Rightarrow> auth \<Rightarrow> string \<rightharpoonup> string" where
  "tokens_of t au = (\<lambda>k. case mTokens au k of None \<Rightarrow> None | Some n \<Rightarrow> if domainOf n au = t then Some n else None)"

definition admins :: "auth \<Rightarrow> (string \<times> user) list" where
  "admins au = filter (\<lambda>(n, u). is_admin u) (mUsers au)"

definition auth_within :: "string \<Rightarrow> auth \<Rightarrow> auth \<Rightarrow> bool" where
  "auth_within i au au' \<longleftrightarrow> (\<forall>t. t \<noteq> i \<longrightarrow> accounts t au' = accounts t au \<and> tokens_of t au' = tokens_of t au) \<and>
     admins au' = admins au"

definition users_ok :: "auth \<Rightarrow> bool" where
  "users_ok au \<longleftrightarrow> auth_inv au \<and> om_all (\<lambda>n u. slug (u_domain u)) (mUsers au)"

lemma auth_within_refl [simp, intro]: "auth_within i au au"
  by (simp add: auth_within_def)

lemma domainOf_user: "users_ok au \<Longrightarrow> om_get (mUsers au) n = Some u \<Longrightarrow> domainOf n au = u_domain u"
  by (auto simp: users_ok_def domainOf_def or_else_def dest!: om_all_get slug_nonempty)

lemma users_ok_slug: "users_ok au \<Longrightarrow> om_get (mUsers au) n = Some u \<Longrightarrow> slug (u_domain u)"
  by (auto simp: users_ok_def dest: om_all_get)

lemma register_ok:
  assumes "users_ok au" and "\<forall>h. hashed = Some h \<longrightarrow> c_str h \<noteq> []" and "slug tenant"
  shows "users_ok (fst (snd (registerUser io hashed n pw rl tenant (au, d))))"
proof -
  have "slug (or_else tenant ''default'')" using assms(3) by (simp add: slug_or_default)
  moreover have "auth_inv (fst (snd (registerUser io hashed n pw rl tenant (au, d))))"
    using assms by (intro register_inv) (simp_all add: users_ok_def)
  ultimately show ?thesis
    using assms(1) by (auto simp: users_ok_def registerUser_def om_all_set split: option.split)
qed

lemma register_others:
  assumes "users_ok au" and "slug tenant"
  shows "t \<noteq> tenant \<Longrightarrow> accounts t (fst (snd (registerUser io hashed n pw rl tenant (au, d)))) = accounts t au"
    and "t \<noteq> tenant \<Longrightarrow> tokens_of t (fst (snd (registerUser io hashed n pw rl tenant (au, d)))) = tokens_of t au"
    and "rl \<noteq> ''admin'' \<Longrightarrow> admins (fst (snd (registerUser io hashed n pw rl tenant (au, d)))) = admins au"
proof -
  have t: "or_else tenant ''default'' = tenant" using slug_nonempty [OF assms(2)] by (simp add: or_else_def)
  have tok: "om_get (mUsers au) n = None \<Longrightarrow> mTokens au k \<noteq> Some n" for k
    using assms(1) unfolding users_ok_def auth_inv_def by force
  show "t \<noteq> tenant \<Longrightarrow> accounts t (fst (snd (registerUser io hashed n pw rl tenant (au, d)))) = accounts t au"
    "t \<noteq> tenant \<Longrightarrow> tokens_of t (fst (snd (registerUser io hashed n pw rl tenant (au, d)))) = tokens_of t au"
    "rl \<noteq> ''admin'' \<Longrightarrow> admins (fst (snd (registerUser io hashed n pw rl tenant (au, d)))) = admins au"
    using tok
    by (auto simp: registerUser_def accounts_def admins_def is_admin_def t tokens_of_def domainOf_def om_simps
        fun_eq_iff intro!: filter_om_set_skip split: option.split)
qed

lemma register_within:
  assumes "users_ok au" and "slug tenant" and "rl \<noteq> ''admin''"
  shows "auth_within tenant au (fst (snd (registerUser io hashed n pw rl tenant (au, d))))"
  using register_others [OF assms(1,2)] assms(3) by (simp add: auth_within_def)

lemma delete_ok: "users_ok au \<Longrightarrow> users_ok (fst (snd (deleteUser io n (au, d))))"
  using deleteUser_inv [of au io n d] by (auto simp: users_ok_def deleteUser_def om_all_del split: option.split)

lemma delete_within:
  assumes "users_ok au" and "om_get (mUsers au) n = Some u" and "\<not> is_admin u"
  shows "auth_within (u_domain u) au (fst (snd (deleteUser io n (au, d))))"
proof -
  have ok: "om_ok (mUsers au)" using assms(1) by (simp add: users_ok_def auth_inv_def)
  have u: "(n, v) \<in> set (mUsers au) \<Longrightarrow> v = u" for v using om_get_iff_in [OF ok, of n v] assms(2) by auto
  have "domainOf n au = u_domain u" by (rule domainOf_user [OF assms(1,2)])
  then show ?thesis
    using assms(2,3) u
    by (auto simp: deleteUser_def auth_within_def accounts_def admins_def tokens_of_def domainOf_def om_simps fun_eq_iff
        intro!: filter_om_del_skip split: option.split)
qed

lemma logout_ok: "users_ok au \<Longrightarrow> users_ok (logout k au)"
  using logout_inv [of au k] by (simp add: users_ok_def logout_def)

lemma logout_within: "k \<noteq> [] \<Longrightarrow> auth_within (domainOf (check_token k au) au) au (logout k au)"
  by (auto simp: auth_within_def logout_def accounts_def admins_def tokens_of_def domainOf_def check_token_def fun_eq_iff
      split: option.split if_splits)

lemma login_ok: "users_ok au \<Longrightarrow> users_ok (snd (login v rnd n pw au))"
  using login_inv [of au v rnd n pw] by (auto simp: users_ok_def login_def split: option.split)

lemma setDomain_ok: "users_ok au \<Longrightarrow> slug i \<Longrightarrow> users_ok (fst (snd (setDomain io n i (au, d))))"
  using setDomain_inv [of au io n i d]
  by (auto simp: users_ok_def setDomain_def om_all_set slug_or_default split: option.split)

section \<open>The state\<close>

definition linked :: "store \<Rightarrow> engine \<Rightarrow> bool" where
  "linked s e \<longleftrightarrow> (\<forall>i x. engine_find i e = Some x \<longrightarrow> id_ok (CHR ''s'') (unat (mNextSession s)) i \<and>
     (\<forall>t. (i, t) \<in> pairs s \<longrightarrow> t = se_domain x))"

definition api_inv :: "api \<Rightarrow> bool" where
  "api_inv a \<longleftrightarrow> store_inv (mStore a) \<and> users_ok (mAuth a) \<and> om_ok (mSessions (mEngine a)) \<and> linked (mStore a) (mEngine a)"

text \<open>What belongs to domain \<open>t\<close>: its part of the library, its accounts and logins, its sessions.\<close>

definition tenant_view :: "string \<Rightarrow> api \<Rightarrow> (pcap_meta list \<times> session_meta list \<times> (string, string) omap \<times>
    (string \<times> string) list \<times> string) \<times> (string \<times> user) list \<times> (string \<rightharpoonup> string) \<times> (string \<times> session) list" where
  "tenant_view t a = (store_view t (mStore a), accounts t (mAuth a), tokens_of t (mAuth a),
     filter (\<lambda>(i, x). se_domain x = t) (mSessions (mEngine a)))"

definition confined :: "string \<Rightarrow> api \<Rightarrow> api \<Rightarrow> bool" where
  "confined i a a' \<longleftrightarrow> api_inv a' \<and> (\<forall>t. t \<noteq> i \<longrightarrow> tenant_view t a' = tenant_view t a) \<and> admins (mAuth a') = admins (mAuth a)"

definition core :: "api \<Rightarrow> auth \<times> store \<times> engine" where
  "core a = (mAuth a, mStore a, mEngine a)"

definition leads :: "(api \<Rightarrow> bool) \<Rightarrow> reply \<Rightarrow> bool" where
  "leads P r \<longleftrightarrow> (case r of None \<Rightarrow> True | Some (rp, a) \<Rightarrow> P a)"

lemma leads_simps [simp]: "leads P None" "leads P (reject st msg a) \<longleftrightarrow> P a" "leads P (accept rp a) \<longleftrightarrow> P a"
  by (simp_all add: leads_def reject_def accept_def)

lemma leads_mono: "leads P r \<Longrightarrow> (\<And>a. P a \<Longrightarrow> Q a) \<Longrightarrow> leads Q r"
  by (auto simp: leads_def split: option.splits)

lemma confined_core: "core a1 = core a \<Longrightarrow> confined i a1 a' \<longleftrightarrow> confined i a a'" "core a1 = core a \<Longrightarrow> confined i a' a1 \<longleftrightarrow> confined i a' a"
  "core a1 = core a \<Longrightarrow> api_inv a1 \<longleftrightarrow> api_inv a"
  by (simp_all add: core_def confined_def api_inv_def tenant_view_def)

lemma confined_refl [simp]: "confined i a a \<longleftrightarrow> api_inv a"
  by (simp add: confined_def)

lemma confined_same: "api_inv a \<Longrightarrow> core a' = core a \<Longrightarrow> confined i a a'"
  using confined_core(2) [of a' a i a] by simp

text \<open>Changes of one part.\<close>

lemma linked_keeps: "linked s e \<Longrightarrow> keeps_sessions s s' \<Longrightarrow> linked s' e"
  by (auto simp: linked_def keeps_sessions_def)

lemma confined_store:
  assumes "api_inv a" and "store_inv s" and "s_within i (mStore a) s" and "keeps_sessions (mStore a) s"
  shows "confined i a (a\<lparr>mStore := s, ap_disk := d\<rparr>)"
  using assms linked_keeps by (auto simp: confined_def api_inv_def tenant_view_def s_within_def)

lemma confined_auth:
  assumes "api_inv a" and "users_ok au" and "auth_within i (mAuth a) au"
  shows "confined i a (a\<lparr>mAuth := au, ap_disk := d\<rparr>)" "confined i a (a\<lparr>mAuth := au\<rparr>)"
  using assms by (auto simp: confined_def api_inv_def tenant_view_def auth_within_def)

lemma leads_on_store_then:
  assumes "\<And>d. leads P (ok (a\<lparr>mStore := fst (snd (f (mStore a, ap_disk a))), ap_disk := d\<rparr>))"
    and "\<And>e d. leads P (bad e (a\<lparr>mStore := fst (snd (f (mStore a, ap_disk a))), ap_disk := d\<rparr>))"
  shows "leads P (on_store f ok bad a)"
  using assms by (auto simp: on_store_def Let_def split: prod.split option.split)

lemma leads_on_store:
  assumes "\<And>d. P (a\<lparr>mStore := fst (snd (f (mStore a, ap_disk a))), ap_disk := d\<rparr>)"
  shows "leads P (on_store f (accept rp) (\<lambda>e. reject (st e) (msg e)) a)"
  using assms by (intro leads_on_store_then) simp_all

lemma leads_on_auth_then:
  assumes "\<And>d. leads P (ok (a\<lparr>mAuth := fst (snd (f (mAuth a, ap_disk a))), ap_disk := d\<rparr>))"
    and "\<And>e d. leads P (bad e (a\<lparr>mAuth := fst (snd (f (mAuth a, ap_disk a))), ap_disk := d\<rparr>))"
  shows "leads P (on_auth f ok bad a)"
  using assms by (auto simp: on_auth_def Let_def split: prod.split option.split)

lemma leads_on_auth:
  assumes "\<And>d. P (a\<lparr>mAuth := fst (snd (f (mAuth a, ap_disk a))), ap_disk := d\<rparr>)"
  shows "leads P (on_auth f (accept rp) (\<lambda>e. reject (st e) (msg e)) a)"
  using assms by (intro leads_on_auth_then) simp_all

section \<open>Handlers that change nothing\<close>

abbreviation idle :: "api \<Rightarrow> reply \<Rightarrow> bool" where
  "idle a \<equiv> leads (\<lambda>a'. core a' = core a)"

lemma leads_no_endpoint [simp]: "leads P (no_endpoint what q a) \<longleftrightarrow> P a"
  by (simp add: no_endpoint_def)

lemma leads_scoped:
  assumes "P a" and "\<And>s. findScoped i c a = Some s \<Longrightarrow> leads P (f s a)"
  shows "leads P (scoped i c f a)"
  using assms by (simp add: scoped_def no_such_session_def split: option.split)

lemma idle_library: "idle a (handleMe c a)" "idle a (handlePcapsGet c a)" "idle a (handleSessionsGet c a)"
    "idle a (handleMetrics k cf c a)" "idle a (domain_get c a)" "idle a (needs_admin a)"
  unfolding handleMe_def handlePcapsGet_def handleSessionsGet_def handleMetrics_def domain_get_def needs_admin_def Let_def
  by (simp_all only: leads_simps)

lemma idle_presence: "idle a (handlePresencePut k q c token a)" "idle a (handlePresenceGet k c a)"
  unfolding handlePresencePut_def handlePresenceGet_def Let_def by (simp_all add: core_def)

lemma idle_session: "idle a (handleSessionGet i c a)" "idle a (handleState i c a)" "idle a (handleNotesGet i c a)"
    "idle a (handleInfo k i c a)"
  unfolding handleSessionGet_def handleState_def handleNotesGet_def handleInfo_def Let_def
  by (rule leads_scoped; simp only: leads_simps)+

lemma idle_events: "idle a (handleEvents q i c a)"
  unfolding handleEvents_def Let_def
  by (rule leads_scoped) (simp_all only: leads_simps prod.case_eq_if simp_thms split: if_split)

lemma idle_packet: "idle a (handlePacket i n c a)"
proof -
  have "idle a (packet_reply i m s x p a)" for m s x p
    unfolding packet_reply_def by (simp only: leads_simps split: option.split) simp
  then show ?thesis
    unfolding handlePacket_def Let_def by (intro leads_scoped) (auto split: prod.split option.split)
qed

lemma idle_srcmap: "idle a (handleSrcMap i c a)"
  unfolding handleSrcMap_def by (rule leads_scoped) (auto split: option.split)

lemmas idle_handlers = idle_library idle_presence idle_session idle_events idle_packet idle_srcmap

lemma idle_good: "idle a r \<Longrightarrow> api_inv a \<Longrightarrow> leads (confined i a) r"
  by (erule leads_mono) (simp add: confined_same)

section \<open>Captures and folders\<close>

lemma inv_parts: "api_inv a \<Longrightarrow> store_inv (mStore a)" "api_inv a \<Longrightarrow> pcaps_inv (mStore a)"
    "api_inv a \<Longrightarrow> sorted (mPcapFolders (mStore a))"
  by (simp_all add: api_inv_def store_inv_def folders_inv_on_def)

definition roomy :: "api \<Rightarrow> bool" where
  "roomy a \<longleftrightarrow> mNextPcap (mStore a) + 1 \<noteq> 0 \<and> mNextSession (mStore a) + 1 \<noteq> 0"

lemma confined_pcapDelete:
  assumes "api_inv a"
  shows "leads (confined (c_domain c) a) (handlePcapDelete k i c a)"
proof -
  have "leads (confined (pcapDomain i (mStore a)) a) (on_store (removePcap (as_env k 0) i) (accept just_ok)
      (\<lambda>err. reject (if prefix ''no such'' err then 404 else 500) err) a)"
    using inv_parts [OF assms] by (intro leads_on_store confined_store assms removePcap_inv removePcap_within keeps_library)
  then show ?thesis
    using assms unfolding handlePcapDelete_def no_such_pcap_def by (cases "pcapDomain i (mStore a) = c_domain c") simp_all
qed

lemma confined_pcapMove:
  assumes "api_inv a"
  shows "leads (confined (c_domain c) a) (handlePcapMove k q i c a)"
proof -
  have "leads (confined (pcapDomain i (mStore a)) a) (on_store (setPcapFolder (as_env k 0) i f) (accept just_ok)
      (\<lambda>err. reject (if prefix ''no such'' err then 404 else 400) err) a)" for f
    using inv_parts [OF assms] by (intro leads_on_store confined_store assms setPcapFolder_inv setPcapFolder_within keeps_library)
  then show ?thesis
    using assms unfolding handlePcapMove_def no_such_pcap_def
    by (cases "pcapDomain i (mStore a) = c_domain c") (simp_all split: option.split json.split)
qed

lemma confined_folders:
  assumes "api_inv a" and "slug (c_domain c)"
  shows "leads (confined (c_domain c) a) (handleFolderPost k q c a)" and "leads (confined (c_domain c) a) (handleFolderDelete k n c a)"
proof -
  note parts = inv_parts [OF assms(1)]
  show "leads (confined (c_domain c) a) (handleFolderPost k q c a)" unfolding handleFolderPost_def
    by (rule leads_on_store, rule confined_store) (simp_all add: assms parts addPcapFolder_inv addPcapFolder_within keeps_library)
  show "leads (confined (c_domain c) a) (handleFolderDelete k n c a)" unfolding handleFolderDelete_def
    by (rule leads_on_store, rule confined_store) (simp_all add: assms parts removePcapFolder_inv removePcapFolder_within keeps_library)
qed

lemma confined_deviceName:
  assumes "api_inv a"
  shows "leads (confined (c_domain c) a) (handleDeviceNamePut k q c a)"
proof -
  have "leads (confined (c_domain c) a) (on_store (setDeviceName (as_env k 0) (c_domain c) mac n) (accept just_ok) (reject 500) a)" for mac n
    using inv_parts [OF assms] by (intro leads_on_store confined_store assms setDeviceName_inv setDeviceName_within keeps_library)
  then show ?thesis
    using assms unfolding handleDeviceNamePut_def Let_def by (auto split: option.split json.split)
qed

text \<open>An upload: staging touches only the disk.\<close>

lemma confined_add_upload:
  assumes "api_inv a" and "roomy a" and "slug (c_domain c)"
  shows "leads (confined (c_domain c) a) (add_upload k name x f c a)"
proof -
  have t: "or_else (c_domain c) ''default'' = c_domain c" using slug_nonempty [OF assms(3)] by (simp add: or_else_def)
  have "confined (c_domain c) a (a\<lparr>mStore := fst (snd (addPcap (as_env k 1) name x f (c_domain c) (mStore a, ap_disk a))), ap_disk := d\<rparr>)" for d
    using inv_parts [OF assms(1)] addPcap_within [of "mStore a" "c_domain c"] assms(2,3)
    by (intro confined_store assms(1) addPcap_inv keeps_library) (simp_all add: t roomy_def)
  then show ?thesis
    unfolding add_upload_def by (auto split: prod.split option.split sum.split)
qed

lemma confined_pcapsPost:
  assumes "api_inv a" and "roomy a" and "slug (c_domain c)"
  shows "leads (confined (c_domain c) a) (handlePcapsPost k q c a)"
proof -
  have same: "core (set_disk d (a\<lparr>mUploadSeq := n\<rparr>)) = core a" for d n by (simp add: core_def set_disk_def)
  have up: "leads (confined (c_domain c) a) (add_upload k name x f c (set_disk d (a\<lparr>mUploadSeq := n\<rparr>)))" for name x f d n
    by (rule leads_mono [OF confined_add_upload]) (use assms confined_core [OF same] in \<open>simp_all add: roomy_def set_disk_def\<close>)
  have inv: "confined (c_domain c) a (set_disk d (a\<lparr>mUploadSeq := n\<rparr>))" "confined (c_domain c) a (a\<lparr>mUploadSeq := n\<rparr>)" for d n
    using assms(1) by (auto intro!: confined_same simp: core_def set_disk_def)
  show ?thesis
    unfolding handlePcapsPost_def Let_def
    by (simp add: inv assms(1) up split: prod.split sum.split outcome.split)
qed

section \<open>Sessions\<close>

lemma linked_domain:
  assumes "api_inv a" and "findScoped i c a = Some x" and "(i, t) \<in> pairs (mStore a)"
  shows "t = c_domain c"
  using assms by (auto simp: api_inv_def linked_def findScoped_def split: option.splits if_splits)

lemma confined_notesPut:
  assumes "api_inv a"
  shows "leads (confined (c_domain c) a) (handleNotesPut k q i c a)"
proof -
  have "leads (confined (c_domain c) a) (on_store (writeNotes io i md) (accept rp) (reject 500) a)" for io md rp
    using assms by (intro leads_on_store) (simp add: writeNotes_def confined_same core_def)
  then show ?thesis
    unfolding handleNotesPut_def using assms
    by (intro leads_scoped) (simp_all add: Let_def split: option.split json.split)
qed

lemma confined_sourceAlias:
  assumes "api_inv a"
  shows "leads (confined (c_domain c) a) (handleSourceAlias k q i idx c a)"
  unfolding handleSourceAlias_def
proof (rule leads_scoped)
  fix x
  assume x: "findScoped i c a = Some x"
  have "leads (confined (c_domain c) a) (on_store (setSessionAlias (as_env k 0) i n al) (accept rp) (\<lambda>err. reject (st err) err) a)" for n al rp st
    using inv_parts [OF assms] linked_domain [OF assms x]
    by (intro leads_on_store confined_store assms setSessionAlias_inv setSessionAlias_within keeps_alias)
  then show "leads (confined (c_domain c) a) (case strtoull idx of (n, rest) \<Rightarrow>
      if rest \<noteq> [] then reject 400 (cat [''bad source index '', idx]) a
      else let alias = getStr ''alias'' [] (body_of q)
           in on_store (setSessionAlias (as_env k 0) i (unat n) alias)
                (accept (json_ok (obj [kv_u64 ''index'' n, kv_str ''alias'' alias])))
                (\<lambda>err. reject (if sublist ''out of range'' err then 400 else 500) err) a)"
    using assms by (simp add: Let_def split: prod.split)
qed (use assms in simp)

lemma engine_remove_view:
  assumes "om_ok (mSessions e)" and "engine_find i e = Some x" and "se_domain x \<noteq> t"
  shows "filter (\<lambda>(j, y). se_domain y = t) (mSessions (snd (engine_remove i e))) = filter (\<lambda>(j, y). se_domain y = t) (mSessions e)"
proof -
  have "y = x" if "(i, y) \<in> set (mSessions e)" for y
    using that assms(2) om_get_iff_in [OF assms(1), of i y] by (simp add: engine_find_def)
  then show ?thesis using assms(3) by (auto simp: engine_remove_def intro!: filter_om_del_skip)
qed

lemma linked_remove: "linked s e \<Longrightarrow> linked s (snd (engine_remove i e))"
  by (auto simp: linked_def engine_remove_def engine_find_def om_simps)

lemma confined_sessionDelete:
  assumes "api_inv a"
  shows "leads (confined (c_domain c) a) (handleSessionDelete k i c a)"
  unfolding handleSessionDelete_def
proof (rule leads_scoped)
  fix x
  assume x: "findScoped i c a = Some x"
  then have e: "engine_find i (mEngine a) = Some x" "se_domain x = c_domain c"
    by (auto simp: findScoped_def split: option.splits if_splits)
  obtain s d where rs: "removeSession (as_env k 0) i (mStore a, ap_disk a) = (s, d)" by fastforce
  have s: "store_inv s" "s_within (c_domain c) (mStore a) s" "keeps_sessions (mStore a) s"
    using removeSession_inv [of slug aligned "mStore a" "as_env k 0" i "ap_disk a"] removeSession_within [of i "mStore a" "c_domain c" "as_env k 0" "ap_disk a"]
      keeps_remove [of "mStore a" "as_env k 0" i "ap_disk a"] linked_domain [OF assms x] inv_parts(1) [OF assms] by (simp_all add: rs)
  have "confined (c_domain c) a (a\<lparr>mEngine := snd (engine_remove i (mEngine a)), mStore := s, ap_disk := d\<rparr>)"
    using assms s engine_remove_view [of "mEngine a" i x] e linked_keeps [OF linked_remove [of "mStore a" "mEngine a" i] s(3)]
    by (auto simp: confined_def api_inv_def tenant_view_def s_within_def engine_remove_def)
  then show "leads (confined (c_domain c) a) (case engine_remove i (mEngine a) of
      (False, e) \<Rightarrow> no_such_session i (a\<lparr>mEngine := e\<rparr>)
    | (True, e) \<Rightarrow> (case removeSession (as_env k 0) i (mStore a, ap_disk a) of
        (s, d) \<Rightarrow> accept just_ok (a\<lparr>mEngine := e, mStore := s, ap_disk := d\<rparr>)))"
    using e(1) by (simp add: rs engine_remove_def engine_find_def)
qed (use assms in simp)

text \<open>A new session: its id is fresh for the library and the engine.\<close>

lemma linked_add:
  assumes "linked s e" and "sessions_inv s" and "mNextSession s + 1 \<noteq> 0" and "ss_id m = ''s'' @ u_str (mNextSession s)"
    and "se_id x = ss_id m" and "se_domain x = ss_domain m"
  shows "linked (s\<lparr>mNextSession := mNextSession s + 1, st_sessions := st_sessions s @ [m]\<rparr>) (engine_start x e)"
    and "engine_find (ss_id m) e = None"
proof -
  have n: "unat (mNextSession s + 1) = Suc (unat (mNextSession s))" using assms(3) by (rule unat_plus_one)
  have new: "id_ok (CHR ''s'') (Suc (unat (mNextSession s))) (ss_id m)" by (simp add: assms(4) u_str_def id_ok_fresh)
  have old: "\<not> id_ok (CHR ''s'') (unat (mNextSession s)) (ss_id m)" by (simp add: assms(4) u_str_def id_ok_fresh)
  show none: "engine_find (ss_id m) e = None" using assms(1) old by (cases "engine_find (ss_id m) e") (auto simp: linked_def)
  let ?s = "s\<lparr>mNextSession := mNextSession s + 1, st_sessions := st_sessions s @ [m]\<rparr>"
  have fresh: "(ss_id m, t) \<notin> pairs s" for t
    using assms(2) old by (auto simp: pairs_def sessions_inv_def list_all_iff)
  have "id_ok (CHR ''s'') (unat (mNextSession ?s)) j \<and> (\<forall>t. (j, t) \<in> pairs ?s \<longrightarrow> t = se_domain y)"
    if y: "engine_find j (engine_start x e) = Some y" for j y
  proof (cases "j = ss_id m")
    case True
    with y have "y = x" by (simp add: engine_start_def engine_add_def engine_find_def om_simps assms(5))
    then show ?thesis using True new fresh by (auto simp: n pairs_def assms(6) image_iff)
  next
    case False
    with y have "engine_find j e = Some y" by (simp add: engine_start_def engine_add_def engine_find_def om_simps assms(5))
    then have "id_ok (CHR ''s'') (unat (mNextSession s)) j" "\<forall>t. (j, t) \<in> pairs s \<longrightarrow> t = se_domain y"
      using assms(1) by (simp_all add: linked_def)
    moreover have "pairs ?s = insert (ss_id m, ss_domain m) (pairs s)" by (simp add: pairs_def)
    ultimately show ?thesis using False id_ok_mono [of "CHR ''s''" "unat (mNextSession s)" j "Suc (unat (mNextSession s))"]
      by (simp add: n)
  qed
  then show "linked ?s (engine_start x e)" by (simp add: linked_def)
qed

lemma confined_new_session:
  assumes inv: "api_inv a" and room: "roomy a" and slug: "slug (c_domain c)"
    and m0: "ss_domain m0 = c_domain c" "ss_pcapAliases m0 = []"
    and run: "addSession e m0 (mStore a, d0) = Ok (Inr i, s, d)"
  shows "confined (c_domain c) a (a\<lparr>mStore := s, ap_disk := d', mEngine := engine_start (new_session k m0 i s) (mEngine a)\<rparr>)"
proof -
  have t: "or_else (c_domain c) ''default'' = c_domain c" using slug_nonempty [OF slug] by (simp add: or_else_def)
  have s: "store_inv s" "s_within (c_domain c) (mStore a) s"
    using addSession_inv [OF inv_parts(1) [OF inv] _ _ _ run] addSession_within [OF run] room m0 slug by (auto simp: roomy_def t)
  obtain m where m: "s = (mStore a)\<lparr>mNextSession := mNextSession (mStore a) + 1, st_sessions := st_sessions (mStore a) @ [m]\<rparr>"
      "ss_id m = ''s'' @ u_str (mNextSession (mStore a))" "ss_domain m = c_domain c" "i = ss_id m"
    using addSession_cases [OF run] m0(1) t by (metis sum.distinct(1) sum.inject(2))
  let ?x = "new_session k m0 i s"
  have x: "se_id ?x = ss_id m" "se_domain ?x = ss_domain m" by (simp_all add: new_session_def m(3,4) m0(1))
  have l: "linked s (engine_start ?x (mEngine a))" "engine_find (ss_id m) (mEngine a) = None"
    using linked_add [of "mStore a" "mEngine a" m ?x] inv room m(2) x by (simp_all add: m(1) api_inv_def store_inv_def roomy_def)
  have "filter (\<lambda>(j, y). se_domain y = t) (mSessions (engine_start ?x (mEngine a))) = filter (\<lambda>(j, y). se_domain y = t) (mSessions (mEngine a))"
    if "t \<noteq> c_domain c" for t
    using that l(2) x m(3) by (auto simp: engine_start_def engine_add_def engine_find_def intro!: filter_om_set_skip)
  then show ?thesis
    using inv s l by (auto simp: confined_def api_inv_def tenant_view_def s_within_def engine_start_def engine_add_def)
qed

text \<open>The request's metadata carry the caller's domain, whatever it asks to open.\<close>

lemma source_meta:
  "session_source_of k body c s = Inr (m, combine) \<Longrightarrow> ss_domain m = c_domain c \<and> ss_pcapAliases m = []"
  by (auto simp: session_source_of_def Let_def SessionMeta_def split: if_splits option.splits)

lemma stage_meta:
  assumes "stage_path k m a = (r, a1)"
  shows "core a1 = core a" and "r = Inr (m1, staged) \<Longrightarrow> ss_domain m1 = ss_domain m \<and> ss_pcapAliases m1 = ss_pcapAliases m"
  using assms by (auto simp: stage_path_def Let_def core_def set_disk_def split: if_splits prod.splits sum.splits)

lemma confined_sessionsPost:
  assumes inv: "api_inv a" and room: "roomy a" and slug: "slug (c_domain c)"
  shows "leads (confined (c_domain c) a) (handleSessionsPost k q c a)"
proof (cases "session_source_of k (body_of q) c (mStore a)")
  case (Inl e)
  then show ?thesis using inv by (simp add: handleSessionsPost_def split: prod.split)
next
  case (Inr mc)
  obtain m combine where mc: "mc = (m, combine)" by fastforce
  obtain r a1 where st: "stage_path k m a = (r, a1)" by fastforce
  note c1 = stage_meta(1) [OF st]
  show ?thesis
  proof (cases r)
    case (Inl derr)
    then show ?thesis using inv c1 Inr mc st by (simp add: handleSessionsPost_def confined_same)
  next
    case r: (Inr ms)
    obtain m1 staged where ms: "ms = (m1, staged)" by fastforce
    have m1: "ss_domain m1 = c_domain c" "ss_pcapAliases m1 = []"
      using source_meta [OF Inr [unfolded mc]] stage_meta(2) [OF st r [unfolded ms]] by simp_all
    have a1: "api_inv a1" "roomy a1" using inv room confined_core(3) [OF c1] c1 by (simp_all add: roomy_def core_def)
    show ?thesis
    proof (cases "addSession (as_env k 0) m1 (mStore a1, ap_disk a1)")
      case (Ok rsd)
      obtain r' s d where rsd: "rsd = (r', s, d)" by (metis prod_cases3)
      note run = Ok [unfolded rsd]
      define d' where "d' = (if staged = [] then d else remove_file (as_env k 0) staged d)"
      have eq: "handleSessionsPost k q c a = (case r' of
            Inl err \<Rightarrow> reject (if combine then 400 else 500) err (a1\<lparr>mStore := s, ap_disk := d'\<rparr>)
          | Inr i \<Rightarrow> accept (created (json_ok (obj [kv_str ''id'' i, kv_str ''status'' ''running''])))
              (a1\<lparr>mStore := s, ap_disk := d', mEngine := engine_start (new_session k m1 i s) (mEngine a1)\<rparr>))"
        unfolding handleSessionsPost_def Inr mc st r ms sum.case prod.case run outcome.case Let_def d'_def by (cases r') simp_all
      have "leads (confined (c_domain c) a1) (handleSessionsPost k q c a)"
      proof (cases r')
        case (Inl err)
        then have "s = mStore a1" using addSession_cases [OF run] by (metis sum.distinct(1))
        then show ?thesis using a1(1) unfolding eq Inl by (simp add: confined_same core_def)
      next
        case (Inr i)
        with run have "confined (c_domain c) a1 (a1\<lparr>mStore := s, ap_disk := d', mEngine := engine_start (new_session k m1 i s) (mEngine a1)\<rparr>)"
          by (intro confined_new_session [OF a1 slug m1]) simp
        then show ?thesis unfolding eq Inr by simp
      qed
      then show ?thesis by (rule leads_mono) (simp add: confined_core(1) [OF c1])
    qed (simp_all add: handleSessionsPost_def Inr mc st r ms)
  qed
qed

section \<open>The domain owner's endpoints\<close>

text \<open>What libsodium answers is a C string that is not empty.\<close>

definition hashes :: "ask \<Rightarrow> bool" where
  "hashes k \<longleftrightarrow> (\<forall>pw h. as_hash k pw = Some h \<longrightarrow> c_str h \<noteq> [])"

lemma api_users_ok: "api_inv a \<Longrightarrow> users_ok (mAuth a)"
  by (simp add: api_inv_def)

lemma confined_register:
  assumes "api_inv a" and "hashes k" and "slug t" and "rl \<noteq> ''admin''"
  shows "leads (confined t a) (on_auth (registerUser io (as_hash k pw) n pw rl t) (accept rp) (\<lambda>e. reject (st e) (msg e)) a)"
  using assms by (intro leads_on_auth confined_auth register_ok register_within api_users_ok) (simp_all add: hashes_def)

lemma confined_removal:
  assumes "api_inv a" and "om_get (mUsers (mAuth a)) n = Some u" and "\<not> is_admin u"
  shows "leads (confined (u_domain u) a) (remove_account k n a)"
  unfolding remove_account_def using assms by (intro leads_on_auth confined_auth delete_ok delete_within api_users_ok)

lemma confined_domainApi:
  assumes "api_inv a" and "hashes k" and "slug (c_domain c)"
  shows "leads (confined (c_domain c) a) (handleDomainApi k q c a)"
proof -
  have "leads (confined (c_domain c) a) (domain_user_post k q c a)"
    unfolding domain_user_post_def created_ok_def account_error_def Let_def by (rule confined_register) (use assms in simp_all)
  moreover have "leads (confined (c_domain c) a) (domain_user_delete k n c a)" for n
  proof (cases "om_get (mUsers (mAuth a)) n")
    case (Some u)
    then have "ui_domain (infoOf n (mAuth a)) = u_domain u" "ui_role (infoOf n (mAuth a)) = u_role u"
      using users_ok_slug [OF api_users_ok [OF assms(1)] Some] slug_nonempty by (auto simp: infoOf_def or_else_def)
    then show ?thesis
      using confined_removal [OF assms(1) Some, of k] assms(1)
      by (cases "u_domain u = c_domain c") (simp_all add: domain_user_delete_def is_admin_def Let_def)
  qed (use assms(1) in \<open>simp add: domain_user_delete_def infoOf_def\<close>)
  ultimately show ?thesis
    using assms(1) idle_good [OF idle_library(5) assms(1)] unfolding handleDomainApi_def Let_def by (auto split: option.split)
qed

section \<open>The routes of an account\<close>

lemmas confined_handlers = confined_pcapDelete confined_pcapMove confined_folders confined_deviceName confined_pcapsPost confined_notesPut confined_sourceAlias
  confined_sessionDelete confined_sessionsPost confined_domainApi

lemma confined_routeSession:
  assumes "api_inv a"
  shows "leads (confined (c_domain c) a) (route_session k q i tail c a)"
  unfolding route_session_def Let_def
  using assms by (simp add: idle_handlers [THEN idle_good] confined_handlers split: option.split)

lemma confined_routePcaps:
  assumes "api_inv a" and "roomy a" and "slug (c_domain c)" and "leads (confined (c_domain c) a) (other a)"
  shows "leads (confined (c_domain c) a) (route_pcaps k q c other a)"
  unfolding route_pcaps_def Let_def
  using assms by (simp add: idle_handlers [THEN idle_good] confined_handlers split: option.split)

lemma confined_logout:
  assumes "api_inv a" and "domainOf (check_token token (mAuth a)) (mAuth a) = i" and "token \<noteq> []"
  shows "leads (confined i a) (handleLogout token a)"
  using assms confined_auth(2) [OF assms(1) logout_ok [OF api_users_ok [OF assms(1)], of token] logout_within [of token "mAuth a"]]
  by (simp add: handleLogout_def)

text \<open>A caller as the routes make one: the account behind the token.\<close>

definition authentic :: "string \<Rightarrow> caller \<Rightarrow> api \<Rightarrow> bool" where
  "authentic token c a \<longleftrightarrow> check_token token (mAuth a) \<noteq> [] \<and> c = caller_of (check_token token (mAuth a)) (mAuth a)"

lemma authentic_domain:
  assumes "api_inv a" and "authentic token c a"
  shows "slug (c_domain c)" and "domainOf (check_token token (mAuth a)) (mAuth a) = c_domain c" and "token \<noteq> []"
proof -
  note ok = api_users_ok [OF assms(1)]
  obtain u where u: "om_get (mUsers (mAuth a)) (check_token token (mAuth a)) = Some u"
    using check_known [of "mAuth a" token] assms(2) ok by (auto simp: users_ok_def authentic_def)
  have "c_domain c = u_domain u"
    using assms(2) u users_ok_slug [OF ok u] slug_nonempty by (auto simp: authentic_def caller_of_def infoOf_def or_else_def Let_def)
  then show "slug (c_domain c)" "domainOf (check_token token (mAuth a)) (mAuth a) = c_domain c"
    using users_ok_slug [OF ok u] domainOf_user [OF ok u] by simp_all
  show "token \<noteq> []" using assms(2) by (auto simp: authentic_def check_token_def)
qed

lemma confined_routeCaller:
  assumes "api_inv a" and "roomy a" and "hashes k" and "authentic token c a" and "\<not> prefix ''/api/admin/'' (hr_path q)"
  shows "leads (confined (c_domain c) a) (route_caller k cf q token c a)"
proof -
  note d = authentic_domain [OF assms(1,4)]
  show ?thesis
    unfolding route_caller_def Let_def
    using assms(1-3,5) d
    by (simp add: idle_handlers [THEN idle_good] confined_handlers confined_routeSession confined_routePcaps confined_logout split: option.split prod.split)
qed

section \<open>The administrator's endpoints\<close>

lemma inv_store:
  "api_inv a \<Longrightarrow> store_inv s \<Longrightarrow> keeps_sessions (mStore a) s \<Longrightarrow> api_inv (a\<lparr>mStore := s, ap_disk := d\<rparr>)"
  using linked_keeps by (auto simp: api_inv_def)

lemma inv_auth: "api_inv a \<Longrightarrow> users_ok au \<Longrightarrow> api_inv (a\<lparr>mAuth := au, ap_disk := d\<rparr>)"
  by (simp add: api_inv_def)

lemma inv_register:
  assumes "api_inv a" and "hashes k" and "slug t"
  shows "leads api_inv (on_auth (registerUser io (as_hash k pw) n pw rl t) (accept rp) (\<lambda>e. reject (st e) (msg e)) a)"
  using assms by (intro leads_on_auth inv_auth register_ok api_users_ok) (simp_all add: hashes_def)

lemma inv_usersPost:
  assumes "api_inv a" and "hashes k"
  shows "leads api_inv (admin_users_post k q a)"
proof -
  have "hasDomain t (mStore a) \<Longrightarrow> slug t" for t using hasDomain_slug [of "mStore a" t] inv_parts(1) [OF assms(1)] by (simp add: store_inv_def)
  then show ?thesis
    unfolding admin_users_post_def created_ok_def account_error_def Let_def
    using inv_register [OF assms] assms(1) by simp
qed

lemma inv_userDelete: "api_inv a \<Longrightarrow> leads api_inv (admin_user_delete k n c a)"
  unfolding admin_user_delete_def remove_account_def
  by (simp add: leads_on_auth inv_auth delete_ok api_users_ok)

lemma inv_storagePut:
  assumes "api_inv a"
  shows "leads api_inv (admin_storage_put k q a)"
proof -
  have "api_inv (a\<lparr>mStore := fst (snd (setPcapRoot (as_env k 0) dir (mStore a, ap_disk a))), ap_disk := d\<rparr>)" for dir d
    using inv_parts(1) [OF assms] by (intro inv_store assms setPcapRoot_inv keeps_domains)
  then have "leads api_inv (on_store (setPcapRoot (as_env k 0) dir)
      (\<lambda>a1. accept (json_ok (obj [kv_bool ''ok'' True, kv_str ''pcap_root'' (pcapRoot (mStore a1))])) a1) (reject 400) a)" for dir
    by (intro leads_on_store_then) simp_all
  then show ?thesis
    using assms unfolding admin_storage_put_def by (auto split: option.split json.split)
qed

lemma inv_domainsPost:
  assumes "api_inv a" and "hashes k"
  shows "leads api_inv (admin_domains_post k q a)"
proof -
  have owner: "leads api_inv (settle_owner k ex i ow pw a1)" if a1: "api_inv a1" and i: "slug i" for ex i ow pw a1
  proof -
    have reg: "api_inv (a1\<lparr>mAuth := fst (snd (registerUser io (as_hash k pw) ow pw ''user'' i (mAuth a1, ap_disk a1))), ap_disk := d\<rparr>)" for io d
      using assms(2) by (intro inv_auth a1 register_ok api_users_ok i) (simp add: hashes_def)
    have undo: "leads api_inv (case removeDomain e i False (mStore a2, ap_disk a2) of
        (_, r, s, d) \<Rightarrow> if r = None then None else reject st msg (a2\<lparr>mStore := s, ap_disk := d\<rparr>))" if "api_inv a2" for a2 e st msg
      using inv_store [OF that] removeDomain_inv [OF inv_parts(1) [OF that], of e i False "ap_disk a2"]
        keeps_domains(2) [of "mStore a2" e i False "ap_disk a2"] by (auto split: prod.split)
    have "leads api_inv (on_auth (setDomain (as_users_io k 0) ow i) (accept rp) (reject 500) a1)" for rp
      by (intro leads_on_auth inv_auth a1 setDomain_ok api_users_ok i)
    then show ?thesis
      unfolding settle_owner_def Let_def
      by (cases ex) (simp, simp only: if_False, intro leads_on_auth_then undo reg, simp only: leads_simps reg)
  qed
  have "leads api_inv (on_store (addDomain (as_env k 0) i nm ow) (settle_owner k ex i ow pw)
      (\<lambda>err. reject (if err = ''domain already exists'' then 409 else 400) err) a)" for i nm ow ex pw
  proof (cases "validDomainId i")
    case True
    have "api_inv (a\<lparr>mStore := fst (snd (addDomain (as_env k 0) i nm ow (mStore a, ap_disk a))), ap_disk := d\<rparr>)" for d
      using inv_parts(1) [OF assms(1)] by (intro inv_store assms(1) addDomain_inv keeps_domains)
    then show ?thesis
      using owner True by (intro leads_on_store_then) (simp_all add: slug_def)
  next
    case False
    then show ?thesis using assms(1) by (simp add: on_store_def addDomain_def st_refuse_def)
  qed
  then show ?thesis
    using assms(1) unfolding admin_domains_post_def Let_def by simp
qed

lemma fall_back_ok: "fall_back io ns (au, d) = Some (au', d') \<Longrightarrow> users_ok au \<Longrightarrow> users_ok au'"
proof (induction io ns "(au, d)" arbitrary: au d rule: fall_back.induct)
  case (2 io n ns au d)
  obtain r au1 d1 where s: "setDomain (io 0) n ''default'' (au, d) = (r, au1, d1)" by (metis prod_cases3)
  have "users_ok au1" using setDomain_ok [OF 2(3), of "''default''" "io 0" n d] by (simp add: s)
  then show ?case using 2(1) [OF s [symmetric]] 2(2) s by (auto split: if_splits)
qed simp

lemma drop_sessions_inv: "om_ok (mSessions e) \<and> linked s e \<Longrightarrow> om_ok (mSessions (drop_sessions is e)) \<and> linked s (drop_sessions is e)"
  unfolding drop_sessions_def
proof (induction "is" arbitrary: e)
  case (Cons i "is")
  then show ?case using Cons.IH [of "snd (engine_remove i e)"] linked_remove [of s e i] by (simp add: engine_remove_def)
qed simp

lemma inv_domainDelete:
  assumes "api_inv a"
  shows "leads api_inv (admin_domain_delete k i force a)"
proof -
  obtain gone r s d where rm: "removeDomain (as_env k 0) i force (mStore a, ap_disk a) = (gone, r, s, d)" by (metis prod_cases4)
  have "store_inv s" "keeps_sessions (mStore a) s"
    using removeDomain_inv [of slug aligned "mStore a" "as_env k 0" i force "ap_disk a"] keeps_domains(2) [of "mStore a" "as_env k 0" i force "ap_disk a"]
      inv_parts(1) [OF assms] by (simp_all add: rm)
  with assms have a1: "api_inv (a\<lparr>mStore := s, ap_disk := d\<rparr>)" by (intro inv_store)
  then have e: "om_ok (mSessions (mEngine a))" "linked s (mEngine a)" "users_ok (mAuth a)" "store_inv s" by (simp_all add: api_inv_def)
  have "api_inv (a\<lparr>mStore := s, mEngine := drop_sessions gone (mEngine a), mAuth := au, ap_disk := d2\<rparr>)"
    if "fall_back io ns (mAuth a, d) = Some (au, d2)" for io ns au d2
    using fall_back_ok [OF that e(3)] drop_sessions_inv [of "mEngine a" s gone] e by (simp add: api_inv_def)
  then show ?thesis
    using a1 unfolding admin_domain_delete_def rm prod.case Let_def by (auto split: option.split)
qed

lemma inv_admin:
  assumes "api_inv a" and "hashes k"
  shows "leads api_inv (handleAdmin k cf q c a)"
proof -
  have "leads api_inv (admin_users_get k a)" "leads api_inv (admin_domains_get a)" "leads api_inv (admin_storage_get a)"
    using assms(1) unfolding admin_users_get_def admin_domains_get_def admin_storage_get_def Let_def by (simp_all only: leads_simps)
  moreover have "leads api_inv (handleAdminMonitor k cf a)"
    using confined_core(3) [of "a\<lparr>mCpu := s\<rparr>" a for s] assms(1)
    unfolding handleAdminMonitor_def Let_def by (simp only: leads_simps) (simp add: core_def)
  ultimately show ?thesis
    unfolding handleAdmin_def Let_def
    using assms inv_usersPost inv_userDelete inv_storagePut inv_domainsPost inv_domainDelete by (simp split: option.split)
qed

section \<open>Every request\<close>

lemma ask_limiter_core: "core (snd (ask_limiter k n b rps burst pen a)) = core a"
  by (simp add: ask_limiter_def core_def split: prod.split)

lemma limit_core: "core (snd (limit_caller k cf q actor c a)) = core a"
  using ask_limiter_core by (auto simp: limit_caller_def Let_def split: prod.split option.split) (metis snd_conv)+

lemma set_client_core: "core (set_client_user client user a) = core a"
  by (simp add: set_client_user_def core_def split: option.split)

lemma core_roomy: "core a1 = core a \<Longrightarrow> roomy a1 \<longleftrightarrow> roomy a" "core a1 = core a \<Longrightarrow> authentic t c a1 \<longleftrightarrow> authentic t c a"
    "core a1 = core a \<Longrightarrow> hasAdmin (mAuth a1) \<longleftrightarrow> hasAdmin (mAuth a)"
  by (simp_all add: core_def roomy_def authentic_def)

lemma confined_inv: "leads (confined i a) r \<Longrightarrow> leads api_inv r"
  by (erule leads_mono) (simp add: confined_def)

lemma inv_anonymous:
  assumes "api_inv a" and "hashes k"
  shows "leads api_inv (route_anonymous k cf q ip a)"
proof -
  obtain w a1 where l: "ask_limiter k 1 (''ip:'' @ ip) (mLoginRps cf) (mLoginBurst cf) (penalty (as_clock k 0) (''ip:'' @ ip) (mGuard a)) a = (w, a1)"
    by fastforce
  have a1: "api_inv a1" using ask_limiter_core [of k 1 "''ip:'' @ ip" "mLoginRps cf" "mLoginBurst cf" _ a] l assms(1) confined_core(3)
    by (metis snd_conv)
  have "leads api_inv (handleRegister k cf q a1)"
    unfolding handleRegister_def Let_def using a1 inv_register [OF a1 assms(2) slug_default] by simp
  moreover have "leads api_inv (handleLogin k q a1)"
    using a1 login_ok [OF api_users_ok [OF a1], of "as_verify k" "as_random k"]
    unfolding handleLogin_def Let_def by (auto simp: api_inv_def split: prod.split option.split) (metis snd_conv)+
  ultimately show ?thesis
    unfolding route_anonymous_def l using a1 by (simp split: option.split)
qed

lemma routeCaller_inv:
  assumes "api_inv a" and "roomy a" and "hashes k" and "authentic token c a"
  shows "leads api_inv (route_caller k cf q token c a)"
proof (cases "prefix ''/api/admin/'' (hr_path q)")
  case True
  then have "\<And>x. x \<in> {''/api/logout'', ''/api/me'', ''/api/presence''} \<Longrightarrow> hr_path q \<noteq> x" by auto
  then have "route_caller k cf q token c a = handleAdmin k cf q c a"
    using True unfolding route_caller_def Let_def by simp
  then show ?thesis using inv_admin [OF assms(1,3)] by simp
next
  case False
  show ?thesis by (rule confined_inv [OF confined_routeCaller [OF assms False]])
qed

text \<open>What the limiter hands on is the same state to the handlers.\<close>

lemma routeApi_inv:
  assumes "api_inv a" and "roomy a" and "hashes k"
  shows "leads api_inv (fst (routeApi k cf q client ip a))"
proof -
  let ?token = "bearerToken q" and ?user = "check_token (bearerToken q) (mAuth a)"
  let ?c = "caller_of ?user (mAuth a)" and ?a1 = "set_client_user client ?user a"
  obtain w a2 where l: "limit_caller k cf q (''u:'' @ ?user) ?c ?a1 = (w, a2)" by fastforce
  have c2: "core a2 = core a" using limit_core [of k cf q "''u:'' @ ?user" ?c ?a1] set_client_core l by (metis snd_conv)
  have "leads api_inv (route_caller k cf q ?token ?c a2)" if "?user \<noteq> []"
    using that assms confined_core(3) [OF c2] core_roomy [OF c2] by (intro routeCaller_inv) (simp_all add: authentic_def)
  moreover have "api_inv a2" using assms(1) confined_core(3) [OF c2] by simp
  ultimately show ?thesis
    using assms(1) inv_anonymous [OF assms(1,3), of cf q ip] idle_good [OF idle_library(6) assms(1), THEN confined_inv]
    unfolding routeApi_def Let_def l by (simp split: option.split)
qed

lemma recorded_core: "core (a\<lparr>mGuard := g\<rparr>) = core a" "core (trafficHit n i a) = core a"
  by (simp_all add: core_def trafficHit_def)

lemma handleApi_leads:
  assumes "leads P (fst (routeApi k cf q client (clientIp k cf q) a))" and "\<And>a1 a2. P a1 \<Longrightarrow> core a2 = core a1 \<Longrightarrow> P a2"
  shows "leads P (handleApi k cf q client a)"
  using assms unfolding handleApi_def leads_def Let_def
  by (auto simp: recorded_core split: prod.split option.splits)

lemma handleStatic_same: "leads (\<lambda>a'. a' = a) (handleStatic k cf q a)"
  unfolding handleStatic_def by (simp split: option.split)

lemma handle_inv:
  assumes "api_inv a" and "roomy a" and "hashes k"
  shows "leads api_inv (handle k cf q client a)"
proof -
  have "leads api_inv (handleApi k cf q client a)"
    by (rule handleApi_leads [OF routeApi_inv [OF assms]]) (use confined_core(3) in blast)
  moreover have "leads api_inv (handleStatic k cf q a)"
    by (rule leads_mono [OF handleStatic_same]) (simp add: assms(1))
  ultimately show ?thesis by (simp add: handle_def)
qed

lemma handle_isolated:
  assumes "api_inv a" and "roomy a" and "hashes k" and "authentic (bearerToken q) c a" and "\<not> cadmin c"
    and "\<not> (hr_path q \<in> {''/api/register'', ''/api/login''} \<and> hr_method q = ''POST'')"
  shows "leads (confined (c_domain c) a) (handle k cf q client a)"
proof -
  let ?token = "bearerToken q" and ?user = "check_token (bearerToken q) (mAuth a)"
  let ?a1 = "set_client_user client ?user a"
  have c: "c = caller_of ?user (mAuth a)" "?user \<noteq> []" using assms(4) by (simp_all add: authentic_def)
  obtain w a2 where l: "limit_caller k cf q (''u:'' @ ?user) c ?a1 = (w, a2)" by fastforce
  have c2: "core a2 = core a" using limit_core [of k cf q "''u:'' @ ?user" c ?a1] set_client_core l by (metis snd_conv)
  have a2: "api_inv a2" "roomy a2" "authentic ?token c a2" using assms confined_core(3) [OF c2] core_roomy [OF c2] by simp_all
  have adm: "handleAdmin k cf q c a2 = reject 403 ''admin role required'' a2" unfolding handleAdmin_def Let_def using assms(5) by simp
  have "leads (confined (c_domain c) a2) (route_caller k cf q ?token c a2)"
  proof (cases "prefix ''/api/admin/'' (hr_path q)")
    case True
    then have "\<And>x. x \<in> {''/api/logout'', ''/api/me'', ''/api/presence''} \<Longrightarrow> hr_path q \<noteq> x" by auto
    then show ?thesis using True a2(1) adm unfolding route_caller_def Let_def by simp
  qed (rule confined_routeCaller [OF a2(1,2) assms(3) a2(3)])
  then have "leads (confined (c_domain c) a) (route_caller k cf q ?token c a2)"
    by (rule leads_mono) (simp add: confined_core(1) [OF c2])
  moreover have "confined (c_domain c) a a2" using assms(1) c2 by (simp add: confined_same)
  ultimately have "leads (confined (c_domain c) a) (fst (routeApi k cf q client (clientIp k cf q) a))"
    using assms(6) c(2) idle_good [OF idle_library(6) assms(1), of "c_domain c"] l
    unfolding routeApi_def Let_def c(1) [symmetric] by (auto split: option.split)
  then have "leads (confined (c_domain c) a) (handleApi k cf q client a)"
    by (rule handleApi_leads) (use confined_core(2) in blast)
  moreover have "leads (confined (c_domain c) a) (handleStatic k cf q a)"
    by (rule leads_mono [OF handleStatic_same]) (simp add: assms(1))
  ultimately show ?thesis by (simp add: handle_def)
qed

text \<open>
  Registration and login are open to everybody.  A registration reaches the domain \<open>default\<close>
  only, and makes an administrator only where there is none; a login adds a token.
\<close>

definition registered :: "api \<Rightarrow> api \<Rightarrow> bool" where
  "registered a a' \<longleftrightarrow> mStore a' = mStore a \<and> mEngine a' = mEngine a \<and>
     (\<forall>t. t \<noteq> ''default'' \<longrightarrow> tenant_view t a' = tenant_view t a) \<and>
     (hasAdmin (mAuth a) \<longrightarrow> admins (mAuth a') = admins (mAuth a))"

definition logged_in :: "api \<Rightarrow> api \<Rightarrow> bool" where
  "logged_in a a' \<longleftrightarrow> mStore a' = mStore a \<and> mEngine a' = mEngine a \<and> mUsers (mAuth a') = mUsers (mAuth a)"

lemma registered_core: "core a1 = core a \<Longrightarrow> registered a1 a' \<longleftrightarrow> registered a a'" "core a1 = core a \<Longrightarrow> registered a' a1 \<longleftrightarrow> registered a' a"
    "core a1 = core a \<Longrightarrow> logged_in a1 a' \<longleftrightarrow> logged_in a a'" "core a1 = core a \<Longrightarrow> logged_in a' a1 \<longleftrightarrow> logged_in a' a"
  by (simp_all add: core_def registered_def logged_in_def tenant_view_def)

lemma registered_refl [simp]: "registered a a" "logged_in a a"
  by (simp_all add: registered_def logged_in_def)

lemma register_registers:
  assumes "api_inv a"
  shows "leads (registered a) (handleRegister k cf q a)"
proof -
  note r = register_others [OF api_users_ok [OF assms] slug_default]
  have "registered a (a\<lparr>mAuth := fst (snd (registerUser io hashed n pw (if \<not> hasAdmin (mAuth a) then ''admin'' else ''user'') ''default''
      (mAuth a, ap_disk a))), ap_disk := d\<rparr>)" for io hashed n pw d
    by (auto simp: registered_def tenant_view_def r)
  then show ?thesis
    unfolding handleRegister_def Let_def by (auto intro: leads_on_auth)
qed

lemma login_logs_in: "leads (logged_in a) (handleLogin k q a)"
  unfolding handleLogin_def Let_def logged_in_def login_def by (simp split: prod.split option.split)

lemma anonymous_leads:
  assumes "api_inv a"
  shows "leads (if hr_path q = ''/api/register'' then registered a else logged_in a) (route_anonymous k cf q ip a)"
proof -
  obtain w a1 where l: "ask_limiter k 1 (''ip:'' @ ip) (mLoginRps cf) (mLoginBurst cf) (penalty (as_clock k 0) (''ip:'' @ ip) (mGuard a)) a = (w, a1)"
    by fastforce
  have c1: "core a1 = core a" using ask_limiter_core l by (metis snd_conv)
  have a1: "api_inv a1" using confined_core(3) [OF c1] assms by simp
  have "leads (registered a) (handleRegister k cf q a1)" "leads (logged_in a) (handleLogin k q a1)"
    by (rule leads_mono [OF register_registers [OF a1]], simp add: registered_core(1) [OF c1],
        rule leads_mono [OF login_logs_in], simp add: registered_core(3) [OF c1])
  moreover have "registered a a1" "logged_in a a1" by (simp_all add: registered_core(2,4) [OF c1])
  ultimately show ?thesis
    unfolding route_anonymous_def l by (simp split: option.split)
qed

lemma handle_anonymous:
  assumes "api_inv a" and "hr_path q \<in> {''/api/register'', ''/api/login''}" and "hr_method q = ''POST''"
  shows "leads (if hr_path q = ''/api/register'' then registered a else logged_in a) (handle k cf q client a)"
proof -
  have "prefix ''/api/'' (hr_path q)" "hr_path q \<noteq> ''/api/bootstrap''" using assms(2) by auto
  then have r: "fst (routeApi k cf q client (clientIp k cf q) a) = route_anonymous k cf q (clientIp k cf q) a"
    and h: "handle k cf q client a = handleApi k cf q client a"
    using assms(2,3) unfolding routeApi_def Let_def handle_def by simp_all
  show ?thesis
    unfolding h
  proof (rule handleApi_leads)
    show "leads (if hr_path q = ''/api/register'' then registered a else logged_in a) (fst (routeApi k cf q client (clientIp k cf q) a))"
      unfolding r by (rule anonymous_leads [OF assms(1)])
    fix a1 a2
    assume "(if hr_path q = ''/api/register'' then registered a else logged_in a) a1" and c: "core a2 = core a1"
    then show "(if hr_path q = ''/api/register'' then registered a else logged_in a) a2"
      by (simp add: registered_core(2,4) [OF c] split: if_splits)
  qed
qed

section \<open>Foreign is missing\<close>

text \<open>A session or capture of another domain is answered like one that does not exist.\<close>

lemma foreign_session_same:
  assumes "findScoped i c a = None" and "findScoped i c b = None"
  shows "\<exists>rp. route_session k q i tail c a = Some (rp, a) \<and> route_session k q i tail c b = Some (rp, b)"
proof -
  have s: "scoped i c f a = Some (jsonError 404 (cat [''no such session '', i]), a)"
    "scoped i c f b = Some (jsonError 404 (cat [''no such session '', i]), b)" for f
    by (simp_all add: scoped_def assms no_such_session_def reject_def)
  show ?thesis
    unfolding route_session_def Let_def handleSessionGet_def handleSessionDelete_def handleEvents_def handleState_def handleNotesGet_def
      handleNotesPut_def handleInfo_def handlePacket_def handleSrcMap_def handleSourceAlias_def no_endpoint_def reject_def
    by (simp add: s split: option.split)
qed

text \<open>Opening a capture by its id.\<close>

lemma foreign_source:
  assumes "pcapDomain j s \<noteq> c_domain c"
  shows "session_source_of k (Object [(''pcap_id'', Str j)]) c s =
    (if j = [] then Inl (400, ''body must contain pcap_id, pcap_ids, or path'') else Inl (404, cat [''unknown pcap_id '', j]))"
proof -
  have g: "getStr ''pcap_id'' [] (Object [(''pcap_id'', Str j)]) = j" "getStr ''path'' [] (Object [(''pcap_id'', Str j)]) = []"
      "member_arr ''pcap_ids'' (Object [(''pcap_id'', Str j)]) = []"
    by (simp_all add: getStr_def member_arr_def)
  show ?thesis using assms unfolding session_source_of_def Let_def g by simp
qed

end
