(* ===== verification/Websocket.thy ===== *)
theory Websocket
  imports Http Crypto
begin

text \<open>
  \<open>backend/src/net/websocket.cpp\<close>: the server side of a WebSocket.  The socket is what the peer
  still sends, as segments, whether the peer is gone, and the texts sent to it; the answer of
  \<open>poll(2)\<close> and zlib's \<open>compress2\<close> are arguments.
\<close>

section \<open>The socket\<close>

record websocket =
  ws_in :: "string list"
  ws_gone :: bool
  ws_out :: "string list"
  mBytesSent :: u64
  mMessagesSent :: u64

definition WebSocket :: "string list \<Rightarrow> bool \<Rightarrow> websocket" where
  "WebSocket segs gone = \<lparr>ws_in = segs, ws_gone = gone, ws_out = [], mBytesSent = 0, mMessagesSent = 0\<rparr>"

definition kMaxClientPayload :: nat where "kMaxClientPayload = 1 * 1024 * 1024"

definition handshake :: "string \<Rightarrow> string" where
  "handshake k = cat [''HTTP/1.1 101 Switching Protocols'', crlf, ''Upgrade: websocket'', crlf, ''Connection: Upgrade'', crlf,
     ''Sec-WebSocket-Accept: '', wsAcceptKey k, crlf, crlf]"

section \<open>Sending\<close>

definition octet :: "nat \<Rightarrow> char" where
  "octet n = char_of n"

definition frame_header :: "nat \<Rightarrow> nat \<Rightarrow> string" where
  "frame_header opcode len = octet (128 + opcode) #
     (if len < 126 then [octet len]
      else if len \<le> 65535 then [octet 126, octet (len div 256), octet len]
      else octet 127 # map (\<lambda>i. octet (len div 256 ^ i)) [7, 6, 5, 4, 3, 2, 1, 0])"

definition sendFrame :: "nat \<Rightarrow> string \<Rightarrow> websocket \<Rightarrow> bool \<times> websocket" where
  "sendFrame opcode payload sock =
     (if ws_gone sock then (False, sock)
      else let h = frame_header opcode (length payload)
           in (True, sock\<lparr>ws_out := ws_out sock @ [h @ payload], mBytesSent := mBytesSent sock + of_nat (length h + length payload)\<rparr>))"

definition sendJsonDeflated :: "(string \<Rightarrow> string option) \<Rightarrow> string \<Rightarrow> websocket \<Rightarrow> bool \<times> websocket" where
  "sendJsonDeflated deflate json sock =
     (case deflate json of
        None \<Rightarrow> (False, sock)
      | Some out \<Rightarrow> (case sendFrame 2 out sock of
            (False, ws1) \<Rightarrow> (False, ws1) | (True, ws1) \<Rightarrow> (True, ws1\<lparr>mMessagesSent := mMessagesSent ws1 + 1\<rparr>)))"

definition sendClose :: "nat \<Rightarrow> string \<Rightarrow> websocket \<Rightarrow> bool \<times> websocket" where
  "sendClose code why sock = sendFrame 8 (octet (code div 256) # octet code # why) sock"

section \<open>Receiving\<close>

function readExact :: "nat \<Rightarrow> string \<Rightarrow> string list \<Rightarrow> (string \<times> string list) option" where
  "readExact n acc segs =
     (if length acc < n
      then case recv (n - length acc) segs of None \<Rightarrow> None | Some (x, segs') \<Rightarrow> readExact n (acc @ x) segs'
      else Some (acc, segs))"
  by auto
termination by (relation "measure (\<lambda>(n, acc, segs). left_in segs)") (auto dest: recv_less)

declare readExact.simps [simp del]

datatype poll_ready = TimedOut | Broken | Readable

definition val :: "char \<Rightarrow> nat" where "val c = of_char c"

definition big_endian :: "string \<Rightarrow> nat" where
  "big_endian e = foldl (\<lambda>acc c. acc * 256 + val c) 0 e"

text \<open>The opcode, whether masked, the payload length and the segments left.\<close>

definition read_header :: "string list \<Rightarrow> (nat \<times> bool \<times> nat \<times> string list) option" where
  "read_header segs =
     (case readExact 2 [] segs of
        None \<Rightarrow> None
      | Some (h, s1) \<Rightarrow>
          (let opcode = val (h ! 0) mod 16; masked = (128 \<le> val (h ! 1)); len = val (h ! 1) mod 128
           in if len = 126 then map_option (\<lambda>(e, s2). (opcode, masked, big_endian e, s2)) (readExact 2 [] s1)
              else if len = 127 then map_option (\<lambda>(e, s2). (opcode, masked, big_endian e, s2)) (readExact 8 [] s1)
              else Some (opcode, masked, len, s1)))"

definition mask_bytes :: "string \<Rightarrow> string \<Rightarrow> string" where
  "mask_bytes mk msg = map (\<lambda>i. octet (val (msg ! i) XOR val (mk ! (i mod 4)))) [0..<length msg]"

definition read_frame :: "string list \<Rightarrow> (nat \<times> string \<times> string list) option" where
  "read_frame segs =
     (case read_header segs of
        None \<Rightarrow> None
      | Some (opcode, masked, len, s1) \<Rightarrow>
          if len > kMaxClientPayload then None
          else (case (if masked then readExact 4 [] s1 else Some (replicate 4 CHR 0x00, s1)) of
              None \<Rightarrow> None
            | Some (mk, s2) \<Rightarrow>
                map_option (\<lambda>(msg, s3). (opcode, if masked then mask_bytes mk msg else msg, s3)) (readExact len [] s2)))"

text \<open>The answer (1 a message, 0 none, -1 closed), the message, its opcode, and the socket.\<close>

definition ws_poll :: "poll_ready \<Rightarrow> websocket \<Rightarrow> int \<times> string \<times> nat \<times> websocket" where
  "ws_poll ready sock =
     (case ready of
        TimedOut \<Rightarrow> (0, [], 0, sock)
      | Broken \<Rightarrow> (- 1, [], 0, sock)
      | Readable \<Rightarrow>
          (case read_frame (ws_in sock) of
             None \<Rightarrow> (- 1, [], 0, sock)
           | Some (opcode, msg, segs) \<Rightarrow>
               (let ws1 = sock\<lparr>ws_in := segs\<rparr> in
                if opcode = 8 then (- 1, msg, opcode, snd (sendFrame 8 (take 2 msg) ws1))
                else if opcode = 9 then (0, msg, opcode, snd (sendFrame 10 msg ws1))
                else if opcode = 10 then (0, msg, opcode, ws1)
                else (1, msg, opcode, ws1))))"

section \<open>Frames read back\<close>

text \<open>A frame as a client writes it, from RFC 6455, section 5.2: \<open>FIN\<close> and the opcode, the mask
  bit with the length in its shortest form, the four bytes of the mask, and the payload with
  the bytes of the mask going round over it.\<close>

fun masked_by :: "string \<Rightarrow> string \<Rightarrow> string" where
  "masked_by mk [] = []"
| "masked_by mk (c # msg) = octet (val (hd mk) XOR val c) # masked_by (rotate1 mk) msg"

definition client_frame :: "nat \<Rightarrow> string \<Rightarrow> string \<Rightarrow> string" where
  "client_frame opcode mk msg =
     (let n = length msg in
      octet (128 + opcode) #
      (if n < 126 then [octet (128 + n)]
       else if n < 2 ^ 16 then [octet 254, octet (n div 256), octet n]
       else octet 255 # map (\<lambda>i. octet (n div 256 ^ i)) [7, 6, 5, 4, 3, 2, 1, 0]) @ mk @ masked_by mk msg)"

lemma length_masked_by [simp]: "length (masked_by mk msg) = length msg"
  by (induction mk msg rule: masked_by.induct) simp_all

lemma nth_masked_by:
  assumes "i < length msg" and "mk \<noteq> []"
  shows "masked_by mk msg ! i = octet (val (mk ! (i mod length mk)) XOR val (msg ! i))"
  using assms
proof (induction mk msg arbitrary: i rule: masked_by.induct)
  case (2 mk c msg)
  show ?case
  proof (cases i)
    case 0
    then show ?thesis using "2.prems"(2) by (simp add: hd_conv_nth)
  next
    case (Suc j)
    have "j mod length mk < length mk" using "2.prems"(2) by simp
    then have "rotate1 mk ! (j mod length mk) = mk ! (Suc j mod length mk)"
      using nth_rotate1 [of "j mod length mk" mk] by (simp add: mod_Suc_eq)
    then show ?thesis using "2.IH" [of j] "2.prems" Suc by simp
  qed
qed simp

lemma masked_by_code:
  assumes "length mk = 4"
  shows "masked_by mk msg = mask_bytes mk msg"
proof (rule nth_equalityI)
  fix i assume "i < length (masked_by mk msg)"
  then show "masked_by mk msg ! i = mask_bytes mk msg ! i"
    using nth_masked_by [of i msg mk] assms by (fastforce simp: mask_bytes_def xor.commute)
qed (simp add: mask_bytes_def)

lemma val_octet: "val (octet n) = n mod 256"
  by (simp add: val_def octet_def of_char_of)

lemma val_less [simp]: "val c < 256"
  by (simp add: val_def)

lemma octet_val [simp]: "octet (val c) = c"
  by (simp add: val_def octet_def)

lemma val_inj: "val a = val b \<Longrightarrow> a = b"
  by (metis octet_val)

lemma client_frame_parts:
  assumes "length mk = 4"
  shows "client_frame opcode mk msg =
    (let h = frame_header opcode (length msg) in h ! 0 # octet (128 + val (h ! 1)) # drop 2 h @ mk @ mask_bytes mk msg)"
  using masked_by_code [OF assms] by (simp add: client_frame_def frame_header_def Let_def val_octet)

lemma readExact_whole:
  assumes "concat segs = drop (length acc) x @ y" and "take (length acc) x = acc" and "length acc \<le> length x"
    and "list_all (\<lambda>s. s \<noteq> []) segs"
  shows "\<exists>segs'. readExact (length x) acc segs = Some (x, segs') \<and> concat segs' = y \<and> list_all (\<lambda>s. s \<noteq> []) segs'"
  using assms
proof (induction "length x" acc segs rule: readExact.induct)
  case (1 acc segs)
  show ?case
  proof (cases "length acc < length x")
    case True
    then have "segs \<noteq> []" using "1.prems"(1) by auto
    then obtain z segs' where r: "recv (length x - length acc) segs = Some (z, segs')" and ne: "list_all (\<lambda>s. s \<noteq> []) segs'"
      using recv_some "1.prems"(4) by blast
    have z: "concat segs = z @ concat segs'" "length z \<le> length x - length acc" using recv_concat [OF r] by auto
    have eq: "z @ concat segs' = drop (length acc) x @ y" using "1.prems"(1) z(1) by simp
    have zt: "z = take (length z) (drop (length acc) x)" "concat segs' = drop (length z) (drop (length acc) x) @ y"
      using arg_cong [OF eq, of "take (length z)"] arg_cong [OF eq, of "drop (length z)"] z(2) by simp_all
    have acc: "take (length (acc @ z)) x = acc @ z"
      using "1.prems"(2) zt(1) by (simp add: take_add)
    have "concat segs' = drop (length (acc @ z)) x @ y" using zt(2) by (simp add: add.commute)
    moreover have "length (acc @ z) \<le> length x" using z(2) True by simp
    ultimately obtain segs'' where rec: "readExact (length x) (acc @ z) segs' = Some (x, segs'')"
      "concat segs'' = y" "list_all (\<lambda>s. s \<noteq> []) segs''"
      using "1.hyps" [OF True r refl _ acc _ ne] by blast
    have "readExact (length x) acc segs = Some (x, segs'')"
      by (subst readExact.simps) (simp only: True r rec(1) if_True option.case prod.case)
    then show ?thesis using rec(2,3) by blast
  next
    case False
    then have l: "length acc = length x" using "1.prems"(3) by simp
    have "acc = x" using "1.prems"(2) unfolding l by simp
    moreover have "concat segs = y" using "1.prems"(1) unfolding l by simp
    ultimately show ?thesis using "1.prems"(4) by (subst readExact.simps) simp
  qed
qed

lemma readExact_start:
  assumes "concat segs = x @ y" and "list_all (\<lambda>s. s \<noteq> []) segs" and "length x = n"
  obtains segs' where "readExact n [] segs = Some (x, segs')" "concat segs' = y" "list_all (\<lambda>s. s \<noteq> []) segs'"
proof -
  have "concat segs = drop (length []) x @ y" "take (length []) x = []" using assms(1) by simp_all
  from readExact_whole [OF this _ assms(2)] that assms(3) show thesis by auto
qed

lemma mask_involution:
  assumes "length mk = 4"
  shows "mask_bytes mk (mask_bytes mk msg) = msg"
proof (rule nth_equalityI)
  fix i assume "i < length (mask_bytes mk (mask_bytes mk msg))"
  then have i: "i < length msg" by (simp add: mask_bytes_def)
  have "take_bit 8 (val c) = val c" for c by (simp add: take_bit_eq_mod)
  then have "take_bit 8 (val c XOR val d) = val c XOR val d" for c d by (simp add: take_bit_xor)
  then have "val (octet (val c XOR val d)) = val c XOR val d" for c d by (simp add: val_octet take_bit_eq_mod)
  then show "mask_bytes mk (mask_bytes mk msg) ! i = msg ! i"
    using i by (simp add: mask_bytes_def xor.assoc)
qed (simp add: mask_bytes_def)

lemma length_two: "len \<le> 65535 \<Longrightarrow> big_endian [octet (len div 256), octet len] = len"
  by (simp add: big_endian_def val_octet)

lemma length_eight:
  assumes "len \<le> kMaxClientPayload"
  shows "big_endian (map (\<lambda>i. octet (len div 256 ^ i)) [7, 6, 5, 4, 3, 2, 1, 0]) = len"
proof -
  have small: "len < 16777216" using assms by (simp add: kMaxClientPayload_def)
  have zero: "len div 256 ^ i = 0" if "3 \<le> i" for i
  proof -
    have "(256::nat) ^ 3 \<le> 256 ^ i" using that by (intro power_increasing) auto
    then show ?thesis using small by (intro div_less) simp
  qed
  have "len div 65536 < 256" using small by simp
  then have "len div 65536 mod 256 = len div 65536" by simp
  moreover have "len div 65536 = len div 256 div 256" by (simp add: div_mult2_eq [symmetric])
  then have "(len div 65536 * 256 + len div 256 mod 256) * 256 + len mod 256 = len" by simp
  ultimately show ?thesis by (simp add: big_endian_def val_octet zero)
qed

text \<open>What \<open>read_header\<close> finds in a client's frame.\<close>

lemma client_header_read:
  assumes op: "opcode < 16" and len: "length msg \<le> kMaxClientPayload" and mk: "length mk = 4"
    and segs: "concat segs = client_frame opcode mk msg @ y" "list_all (\<lambda>s. s \<noteq> []) segs"
  shows "\<exists>s1. read_header segs = Some (opcode, True, length msg, s1) \<and> concat s1 = mk @ mask_bytes mk msg @ y \<and>
    list_all (\<lambda>s. s \<noteq> []) s1"
proof -
  let ?n = "length msg" and ?h = "frame_header opcode (length msg)"
  have "(128 + opcode) mod 16 = opcode" using op by presburger
  then have h0: "val (?h ! 0) mod 16 = opcode" using op by (simp add: frame_header_def val_octet)
  have h1: "val (?h ! 1) = (if ?n < 126 then ?n else if ?n \<le> 65535 then 126 else 127)"
    by (simp add: frame_header_def val_octet)
  have b1: "128 \<le> val (octet (128 + val (?h ! 1))) \<and> val (octet (128 + val (?h ! 1))) mod 128 = val (?h ! 1)"
    unfolding h1 val_octet by simp
  have "concat segs = [?h ! 0, octet (128 + val (?h ! 1))] @ (drop 2 ?h @ mk @ mask_bytes mk msg @ y)"
    using segs(1) by (simp add: client_frame_parts [OF mk] Let_def)
  then obtain s1 where s1: "readExact 2 [] segs = Some ([?h ! 0, octet (128 + val (?h ! 1))], s1)"
    "concat s1 = drop 2 ?h @ mk @ mask_bytes mk msg @ y" "list_all (\<lambda>s. s \<noteq> []) s1"
    by (rule readExact_start [OF _ segs(2), of _ _ 2]) simp
  consider (short) "?n < 126" | (medium) "126 \<le> ?n" "?n \<le> 65535" | (long) "65535 < ?n" by linarith
  then show ?thesis
  proof cases
    case short
    then have "drop 2 ?h = []" by (simp add: frame_header_def)
    then show ?thesis using short s1 h0 h1 b1 by (simp add: read_header_def Let_def)
  next
    case medium
    then have "concat s1 = [octet (?n div 256), octet ?n] @ (mk @ mask_bytes mk msg @ y)" using s1(2) by (simp add: frame_header_def)
    then obtain s2 where "readExact 2 [] s1 = Some ([octet (?n div 256), octet ?n], s2)" "concat s2 = mk @ mask_bytes mk msg @ y"
      "list_all (\<lambda>s. s \<noteq> []) s2" by (rule readExact_start [OF _ s1(3), of _ _ 2]) simp
    then show ?thesis using medium s1(1) h0 h1 b1 length_two [OF medium(2)] by (simp add: read_header_def Let_def)
  next
    case long
    let ?e = "map (\<lambda>i. octet (?n div 256 ^ i)) [7, 6, 5, 4, 3, 2, 1, 0]"
    have "concat s1 = ?e @ (mk @ mask_bytes mk msg @ y)" using s1(2) long by (simp add: frame_header_def)
    then obtain s2 where "readExact 8 [] s1 = Some (?e, s2)" "concat s2 = mk @ mask_bytes mk msg @ y"
      "list_all (\<lambda>s. s \<noteq> []) s2" by (rule readExact_start [OF _ s1(3), of _ _ 8]) simp
    then show ?thesis using long s1(1) h0 h1 b1 length_eight [OF len] by (simp only: read_header_def Let_def) simp
  qed
qed

lemma client_frame_read:
  assumes op: "opcode < 16" and len: "length msg \<le> kMaxClientPayload" and mk: "length mk = 4"
    and segs: "concat segs = client_frame opcode mk msg @ y" "list_all (\<lambda>s. s \<noteq> []) segs"
  shows "\<exists>segs'. read_frame segs = Some (opcode, msg, segs') \<and> concat segs' = y \<and> list_all (\<lambda>s. s \<noteq> []) segs'"
proof -
  obtain s1 where s1: "read_header segs = Some (opcode, True, length msg, s1)" "concat s1 = mk @ mask_bytes mk msg @ y"
    "list_all (\<lambda>s. s \<noteq> []) s1" using client_header_read [OF op len mk segs] by blast
  obtain s2 where s2: "readExact 4 [] s1 = Some (mk, s2)" "concat s2 = mask_bytes mk msg @ y" "list_all (\<lambda>s. s \<noteq> []) s2"
    by (rule readExact_start [OF s1(2,3) mk])
  obtain s3 where "readExact (length msg) [] s2 = Some (mask_bytes mk msg, s3)" "concat s3 = y" "list_all (\<lambda>s. s \<noteq> []) s3"
    by (rule readExact_start [OF s2(2,3), of "length msg"]) (simp add: mask_bytes_def)
  then show ?thesis using s1(1) s2(1) len mask_involution [OF mk] by (simp add: read_frame_def)
qed

end
