(* ===== verification/Api_Stream.thy ===== *)
theory Api_Stream
  imports Api_Routes Websocket
begin

text \<open>
  \<open>handleUpgrade\<close> and \<open>streamSession\<close> of \<open>backend/src/api/api.cpp\<close>.  The session grows while it is
  streamed, so the loop works through a list of turns, each holding what the loop reads in that
  turn: the stop flag, the log and status under the session's lock, the clock and the socket.  An
  exhausted list is a stream still open.  \<open>sr_batches\<close> is a ghost: the batches handed to the socket.
\<close>

section \<open>The upgrade\<close>

text \<open>Where the handshake fails nothing more is written; otherwise the stream of one session starts.\<close>

datatype upgrade = Dropped | Refused websocket | Streaming string session websocket

definition handleUpgrade :: "bool \<Rightarrow> http_request \<Rightarrow> websocket \<Rightarrow> api \<Rightarrow> upgrade" where
  "handleUpgrade shaken q sock a =
     (if hr_path q \<noteq> ''/api/ws'' \<or> header ''sec-websocket-key'' q = [] then Dropped
      else if \<not> shaken then Dropped
      else let user = check_token (queryParam ''token'' q) (mAuth a) in
        if user = [] then Refused (snd (sendClose 4001 ''bad token'' sock))
        else case engine_find (queryParam ''session'' q) (mEngine a) of
          None \<Rightarrow> Refused (snd (sendClose 4004 ''unknown session'' sock))
        | Some s \<Rightarrow> if se_domain s \<noteq> domainOf user (mAuth a) then Refused (snd (sendClose 4004 ''unknown session'' sock))
                    else Streaming user s sock)"

section \<open>The stream\<close>

record stream =
  sr_sent :: nat
  sr_progress :: double
  sr_sock :: websocket
  sr_client :: client_info
  sr_batches :: "event list list"

record stream_turn =
  tn_stopping :: bool
  tn_events :: "event list"
  tn_status :: status
  tn_packets :: nat
  tn_now :: double
  tn_poll :: poll_ready
  tn_linger :: "(bool \<times> poll_ready) list"

definition new_stream :: "string \<Rightarrow> string \<Rightarrow> int \<Rightarrow> double \<Rightarrow> websocket \<Rightarrow> stream" where
  "new_stream user addr fd now sock = \<lparr>sr_sent = 0, sr_progress = now, sr_sock = sock,
     sr_client = (ClientInfo addr ''ws'' fd)\<lparr>ci_user := user\<rparr>, sr_batches = []\<rparr>"

definition send_json :: "(string \<Rightarrow> string option) \<Rightarrow> (writer \<Rightarrow> writer) list \<Rightarrow> websocket \<Rightarrow> bool \<times> websocket" where
  "send_json deflate fs sock = sendJsonDeflated deflate (json_of (obj fs)) sock"

text \<open>A text frame that says ping is answered with a pong; the answer is whether the loop goes on.\<close>

definition on_message :: "(string \<Rightarrow> string option) \<Rightarrow> int \<times> string \<times> nat \<times> websocket \<Rightarrow> bool \<times> websocket" where
  "on_message deflate = (\<lambda>(pr, msg, opcode, sock).
     if pr < 0 then (False, sock)
     else if pr = 1 \<and> opcode = 1 \<and> getStr ''type'' [] (case parse msg of Inl _ \<Rightarrow> Null | Inr j \<Rightarrow> j) = ''ping''
     then send_json deflate [kv_str ''type'' ''pong''] sock
     else (True, sock))"

fun linger :: "(string \<Rightarrow> string option) \<Rightarrow> (bool \<times> poll_ready) list \<Rightarrow> websocket \<Rightarrow> websocket" where
  "linger deflate [] sock = sock"
| "linger deflate ((stopping, ready) # ts) sock =
     (if stopping then sock
      else case on_message deflate (ws_poll ready sock) of (go_on, s1) \<Rightarrow> if go_on then linger deflate ts s1 else s1)"

definition kBatch :: nat where "kBatch = 500"

definition batch_json :: "event list \<Rightarrow> (writer \<Rightarrow> writer) list" where
  "batch_json es = [kv_str ''type'' ''batch'', kv ''events'' (arr (map event_json es))]"

definition last_json :: "status \<Rightarrow> nat \<Rightarrow> (writer \<Rightarrow> writer) list" where
  "last_json st sent = (case st of Failed e \<Rightarrow> [kv_str ''type'' ''error'', kv_str ''error'' e]
     | _ \<Rightarrow> [kv_str ''type'' ''complete'', kv_nat ''total'' sent])"

definition set_sock :: "websocket \<Rightarrow> stream \<Rightarrow> stream" where
  "set_sock sock s = s\<lparr>sr_sock := sock\<rparr>"

definition send_batch :: "(string \<Rightarrow> string option) \<Rightarrow> poll_ready \<Rightarrow> event list \<Rightarrow> stream \<Rightarrow> bool \<times> stream" where
  "send_batch deflate ready chunk s =
     (let s1 = s\<lparr>sr_sent := sr_sent s + length chunk, sr_batches := sr_batches s @ [chunk]\<rparr> in
      case send_json deflate (batch_json chunk) (sr_sock s) of
        (False, sock) \<Rightarrow> (False, set_sock sock s1)
      | (True, sock) \<Rightarrow>
          (let s2 = s1\<lparr>sr_client := (sr_client s1)\<lparr>ci_messages := mMessagesSent sock, ci_bytesSent := mBytesSent sock\<rparr>\<rparr>
           in case ws_poll ready sock of (pr, msg, opcode, sock2) \<Rightarrow> (\<not> pr < 0, set_sock sock2 s2)))"

definition send_last :: "(string \<Rightarrow> string option) \<Rightarrow> stream_turn \<Rightarrow> stream \<Rightarrow> stream" where
  "send_last deflate t s = set_sock (snd (sendClose 1000 []
     (linger deflate (take 20 (tn_linger t)) (snd (send_json deflate (last_json (tn_status t) (sr_sent s)) (sr_sock s)))))) s"

text \<open>Waiting: progress once a second, then the client's messages.\<close>

definition send_progress :: "(string \<Rightarrow> string option) \<Rightarrow> stream_turn \<Rightarrow> stream \<Rightarrow> bool \<times> stream" where
  "send_progress deflate t s =
     (if tn_now t - sr_progress s > 1
      then (case send_json deflate [kv_str ''type'' ''progress'', kv_nat ''packets'' (tn_packets t), kv_nat ''events'' (sr_sent s)]
              (sr_sock s) of (ok, sock) \<Rightarrow> (ok, set_sock sock (s\<lparr>sr_progress := tn_now t\<rparr>)))
      else (True, s))"

definition wait_turn :: "(string \<Rightarrow> string option) \<Rightarrow> stream_turn \<Rightarrow> stream \<Rightarrow> bool \<times> stream" where
  "wait_turn deflate t s =
     (case send_progress deflate t s of
        (False, s1) \<Rightarrow> (False, s1)
      | (True, s1) \<Rightarrow> (case on_message deflate (ws_poll (tn_poll t) (sr_sock s1)) of (ok, sock) \<Rightarrow> (ok, set_sock sock s1)))"

definition streamTurn :: "(string \<Rightarrow> string option) \<Rightarrow> stream_turn \<Rightarrow> stream \<Rightarrow> bool \<times> stream" where
  "streamTurn deflate t s =
     (if tn_stopping t then (False, set_sock (snd (sendClose 1001 ''server shutting down'' (sr_sock s))) s)
      else let chunk = take kBatch (drop (sr_sent s) (tn_events t)) in
        if chunk \<noteq> [] then send_batch deflate (tn_poll t) chunk s
        else if tn_status t \<noteq> Running then (False, send_last deflate t s)
        else wait_turn deflate t s)"

fun streamSession :: "(string \<Rightarrow> string option) \<Rightarrow> stream_turn list \<Rightarrow> stream \<Rightarrow> bool \<times> stream" where
  "streamSession deflate [] s = (True, s)"
| "streamSession deflate (t # ts) s =
     (case streamTurn deflate t s of (go_on, s1) \<Rightarrow> if go_on then streamSession deflate ts s1 else (False, s1))"

section \<open>Every event once, in order\<close>

definition stream_ok :: "event list \<Rightarrow> stream \<Rightarrow> bool" where
  "stream_ok es s \<longleftrightarrow> sr_sent s \<le> length es \<and> concat (sr_batches s) = take (sr_sent s) es \<and>
     list_all (\<lambda>b. b \<noteq> [] \<and> length b \<le> kBatch) (sr_batches s)"

lemma stream_ok_mono: "stream_ok es s \<Longrightarrow> prefix es es' \<Longrightarrow> stream_ok es' s"
  by (auto simp: stream_ok_def prefix_def)

lemma set_sock_simps [simp]: "sr_sent (set_sock x s) = sr_sent s" "sr_batches (set_sock x s) = sr_batches s"
    "sr_sock (set_sock x s) = x"
  by (simp_all add: set_sock_def)

lemma stream_ok_same: "sr_sent s' = sr_sent s \<Longrightarrow> sr_batches s' = sr_batches s \<Longrightarrow> stream_ok es s' \<longleftrightarrow> stream_ok es s"
  by (simp add: stream_ok_def)

lemma send_batch_state:
  "sr_sent (snd (send_batch deflate r chunk s)) = sr_sent s + length chunk"
  "sr_batches (snd (send_batch deflate r chunk s)) = sr_batches s @ [chunk]"
  by (simp_all add: send_batch_def Let_def split: prod.split bool.split)

lemma wait_turn_state:
  "sr_sent (snd (wait_turn deflate t s)) = sr_sent s" "sr_batches (snd (wait_turn deflate t s)) = sr_batches s"
  by (simp_all add: wait_turn_def send_progress_def split: prod.split bool.split)

lemma take_more: "take n xs @ take m (drop n xs) = take (n + length (take m (drop n xs))) xs"
proof -
  have "take (n + length (take m (drop n xs))) xs = take (n + min m (length xs - n)) xs" by (simp add: min.commute)
  also have "\<dots> = take (n + m) xs" by (cases "m \<le> length xs - n") simp_all
  finally show ?thesis by (simp add: take_add)
qed

lemma send_batch_ok:
  assumes "stream_ok es s" and chunk: "chunk = take kBatch (drop (sr_sent s) es)" and "chunk \<noteq> []"
  shows "stream_ok es (snd (send_batch deflate r chunk s))"
proof -
  have "sr_sent s + length chunk \<le> length es" using assms(1) by (auto simp: chunk stream_ok_def)
  moreover have "length chunk \<le> kBatch" by (simp add: chunk)
  ultimately show ?thesis
    using assms(1,3) take_more [of "sr_sent s" es kBatch] chunk by (simp add: stream_ok_def send_batch_state del: length_take)
qed

lemma streamTurn_ok:
  assumes "stream_ok (tn_events t) s"
  shows "stream_ok (tn_events t) (snd (streamTurn deflate t s))"
proof -
  let ?c = "take kBatch (drop (sr_sent s) (tn_events t))"
  consider "tn_stopping t" | "\<not> tn_stopping t" "?c \<noteq> []" | "\<not> tn_stopping t" "?c = []" "tn_status t \<noteq> Running"
    | "\<not> tn_stopping t" "?c = []" "tn_status t = Running" by blast
  then show ?thesis
  proof cases
    case 1
    then show ?thesis using assms by (simp add: streamTurn_def stream_ok_def)
  next
    case 2
    then show ?thesis using send_batch_ok [OF assms refl 2(2)] unfolding streamTurn_def Let_def by simp
  next
    case 3
    then show ?thesis using assms unfolding streamTurn_def Let_def by (simp add: send_last_def stream_ok_def)
  next
    case 4
    then show ?thesis using assms unfolding streamTurn_def Let_def by (simp add: stream_ok_def wait_turn_state)
  qed
qed

lemma streamSession_ok:
  assumes "stream_ok es s" and "sorted_wrt prefix (es # map tn_events ts)"
  shows "stream_ok (last (es # map tn_events ts)) (snd (streamSession deflate ts s))"
  using assms
proof (induction ts arbitrary: es s)
  case Nil
  then show ?case by simp
next
  case (Cons t ts)
  obtain go_on s1 where step: "streamTurn deflate t s = (go_on, s1)" by fastforce
  have "stream_ok (tn_events t) s" using Cons.prems by (auto intro: stream_ok_mono)
  from streamTurn_ok [OF this, of deflate] have ok: "stream_ok (tn_events t) s1" by (simp add: step)
  have sorted: "sorted_wrt prefix (tn_events t # map tn_events ts)" using Cons.prems(2) by simp
  have "prefix (tn_events t) (last (tn_events t # map tn_events ts))" using sorted by (cases ts rule: rev_cases) simp_all
  with ok have "stream_ok (last (tn_events t # map tn_events ts)) s1" by (rule stream_ok_mono)
  then show ?case using Cons.IH [OF ok sorted] by (cases go_on) (auto simp: step)
qed

section \<open>A finished session is delivered\<close>

definition sendable :: "(string \<Rightarrow> string option) \<Rightarrow> websocket \<Rightarrow> bool" where
  "sendable deflate sock \<longleftrightarrow> (\<forall>x. deflate x \<noteq> None) \<and> \<not> ws_gone sock"

text \<open>A turn with nothing to stop it: the session is over, the client silent.\<close>

definition quiet_turn :: "event list \<Rightarrow> stream_turn \<Rightarrow> bool" where
  "quiet_turn es t \<longleftrightarrow> \<not> tn_stopping t \<and> tn_events t = es \<and> tn_status t \<noteq> Running \<and> tn_poll t = TimedOut"

lemma send_json_sendable:
  assumes "sendable deflate sock"
  shows "\<exists>sock'. send_json deflate fs sock = (True, sock') \<and> sendable deflate sock'"
proof -
  obtain x where x: "deflate (json_of (obj fs)) = Some x" using assms by (auto simp: sendable_def)
  then show ?thesis using assms by (auto simp: send_json_def sendJsonDeflated_def sendFrame_def sendable_def Let_def)
qed

lemma quiet_batch:
  assumes "quiet_turn es t" and "sendable deflate (sr_sock s)" and "sr_sent s < length es"
  shows "\<exists>s1. streamTurn deflate t s = (True, s1) \<and> sendable deflate (sr_sock s1) \<and> sr_sent s1 = sr_sent s + min kBatch (length es - sr_sent s)"
proof -
  let ?c = "take kBatch (drop (sr_sent s) es)"
  obtain sock where sock: "send_json deflate (batch_json ?c) (sr_sock s) = (True, sock)" "sendable deflate sock"
    using send_json_sendable [OF assms(2)] by blast
  have "?c \<noteq> []" using assms(3) by (simp add: kBatch_def)
  then have "streamTurn deflate t s = send_batch deflate TimedOut ?c s"
    using assms(1) unfolding streamTurn_def Let_def quiet_turn_def by simp
  then show ?thesis using sock by (simp add: send_batch_def ws_poll_def Let_def min.commute)
qed

lemma quiet_last:
  assumes "quiet_turn es t" and "sr_sent s = length es"
  shows "streamTurn deflate t s = (False, send_last deflate t s)"
  using assms unfolding streamTurn_def Let_def quiet_turn_def by simp

lemma quiet_stream:
  assumes "list_all (quiet_turn es) ts" and "sendable deflate (sr_sock s)" and "sr_sent s \<le> length es"
    and "length es - sr_sent s + kBatch \<le> kBatch * length ts"
  shows "\<exists>s1. streamSession deflate ts s = (False, s1) \<and> sr_sent s1 = length es"
  using assms
proof (induction ts arbitrary: s)
  case Nil
  then show ?case by (simp add: kBatch_def)
next
  case (Cons t ts)
  show ?case
  proof (cases "sr_sent s < length es")
    case True
    then obtain s1 where s1: "streamTurn deflate t s = (True, s1)" "sendable deflate (sr_sock s1)"
        "sr_sent s1 = sr_sent s + min kBatch (length es - sr_sent s)"
      using quiet_batch [of es t deflate s] Cons.prems by auto
    have "length es - sr_sent s1 + kBatch \<le> kBatch * length ts"
      using Cons.prems(4) True s1(3) by (cases ts) (auto simp: kBatch_def min_def split: if_splits)
    moreover have "sr_sent s1 \<le> length es" using True s1(3) by simp
    ultimately show ?thesis using Cons.IH [of s1] Cons.prems(1) s1(1,2) by simp
  next
    case False
    then show ?thesis using quiet_last [of es t s deflate] Cons.prems by (simp add: send_last_def)
  qed
qed

lemma quiet_stream_complete:
  assumes "list_all (quiet_turn es) ts" and "sendable deflate sock" and "length es + kBatch \<le> kBatch * length ts"
  shows "\<exists>s. streamSession deflate ts (new_stream user addr fd now sock) = (False, s) \<and> sr_sent s = length es \<and>
    concat (sr_batches s) = es \<and> list_all (\<lambda>b. b \<noteq> [] \<and> length b \<le> kBatch) (sr_batches s)"
proof -
  let ?s0 = "new_stream user addr fd now sock"
  obtain s where s: "streamSession deflate ts ?s0 = (False, s)" "sr_sent s = length es"
    using quiet_stream [OF assms(1), of deflate ?s0] assms(2,3) by (auto simp: new_stream_def)
  have logs: "map tn_events ts = replicate (length ts) es"
    using assms(1) by (induction ts) (simp_all add: quiet_turn_def)
  have "sorted_wrt prefix (es # replicate n es)" for n by (induction n) simp_all
  moreover have "stream_ok es ?s0" by (simp add: stream_ok_def new_stream_def)
  ultimately have "stream_ok (last (es # map tn_events ts)) (snd (streamSession deflate ts ?s0))"
    using streamSession_ok [of es ?s0 ts deflate] unfolding logs by blast
  moreover have "last (es # map tn_events ts) = es" unfolding logs by (cases "length ts") simp_all
  ultimately show ?thesis using s by (simp add: stream_ok_def)
qed

end
