(* ===== verification/Server.thy ===== *)
theory Server
  imports Api_Proofs Api_Stream
begin

text \<open>
  \<open>backend/src/main.cpp\<close> and the constructor of \<open>Api\<close>: the command line, the environment, the
  start of the program and the restart of stored sessions; then the program as a whole, a step
  relation of requests and finishing analyses, whose reachable states keep the invariant.
\<close>

section \<open>The command line\<close>

text \<open>\<open>strtol\<close> in base ten, with the limits of a 64-bit \<open>long\<close>.\<close>

definition strtol :: "string \<Rightarrow> int \<times> string" where
  "strtol s =
     (case sign_of (dropWhile is_space s) of (sg, u) \<Rightarrow>
       (let ds = takeWhile is_digit u; v = (if sg < 0 then - int (dec_val ds) else int (dec_val ds))
        in if ds = [] then (0, s) else (max (- (2 ^ 63)) (min v (2 ^ 63 - 1)), dropWhile is_digit u)))"

definition parseUInt :: "string \<Rightarrow> int \<Rightarrow> int \<Rightarrow> int option" where
  "parseUInt t lo hi =
     (if t = [] then None
      else case strtol t of (v, rest) \<Rightarrow> if rest \<noteq> [] \<or> v < lo \<or> v > hi then None else Some v)"

record options =
  op_bind :: string
  op_port :: int
  op_data :: string
  op_frontend :: string
  op_threads :: int
  op_upload_mb :: int

definition default_options :: options where
  "default_options = \<lparr>op_bind = ''0.0.0.0'', op_port = 8342, op_data = ''./data'', op_frontend = ''./frontend'',
     op_threads = 64, op_upload_mb = 1024\<rparr>"

definition number :: "string \<Rightarrow> int \<Rightarrow> int \<Rightarrow> (int \<Rightarrow> options) \<Rightarrow> int + options" where
  "number t lo hi f = (case parseUInt t lo hi of None \<Rightarrow> Inl 2 | Some v \<Rightarrow> Inr (f v))"

text \<open>One option with its value: the options, or the exit code.\<close>

definition set_option :: "string \<Rightarrow> string \<Rightarrow> options \<Rightarrow> int + options" where
  "set_option a v p =
     (if a = ''--bind'' then Inr (p\<lparr>op_bind := v\<rparr>)
      else if a = ''--port'' then number v 1 65535 (\<lambda>n. p\<lparr>op_port := n\<rparr>)
      else if a = ''--data'' then Inr (p\<lparr>op_data := v\<rparr>)
      else if a = ''--frontend'' then Inr (p\<lparr>op_frontend := v\<rparr>)
      else if a = ''--max-threads'' then number v 1 65536 (\<lambda>n. p\<lparr>op_threads := n\<rparr>)
      else if a = ''--max-upload-mb'' then number v 1 (1024 * 1024) (\<lambda>n. p\<lparr>op_upload_mb := n\<rparr>)
      else Inl 2)"

text \<open>The command line: the last option may lack its value; an unknown one ends the program too.\<close>

fun parse_args :: "string list \<Rightarrow> options \<Rightarrow> int + options" where
  "parse_args (a # args) p =
     (if a \<in> {''--version'', ''-V'', ''--help'', ''-h''} then Inl 0
      else case args of
        [] \<Rightarrow> Inl 2
      | v # rest \<Rightarrow> (case set_option a v p of Inl code \<Rightarrow> Inl code | Inr p' \<Rightarrow> parse_args rest p'))"
| "parse_args [] p = Inr p"

text \<open>What the parser lets through.\<close>

definition options_ok :: "options \<Rightarrow> bool" where
  "options_ok p \<longleftrightarrow> op_port p \<in> {1..65535} \<and> op_threads p \<in> {1..65536} \<and> op_upload_mb p \<in> {1..1048576}"

lemma parseUInt_range: "parseUInt t lo hi = Some v \<Longrightarrow> v \<in> {lo..hi}"
  by (auto simp: parseUInt_def split: if_splits prod.splits)

lemma set_option_ok: "set_option a v p = Inr p' \<Longrightarrow> options_ok p \<Longrightarrow> options_ok p'"
  unfolding set_option_def number_def options_ok_def
  by (auto split: if_splits option.splits dest!: parseUInt_range)

lemma parse_args_ok: "parse_args args p = Inr p' \<Longrightarrow> options_ok p \<Longrightarrow> options_ok p'"
  by (induction args p rule: parse_args.induct) (auto split: if_splits list.splits sum.splits dest: set_option_ok)

section \<open>The environment\<close>

definition envDouble :: "string option \<Rightarrow> double \<Rightarrow> double" where
  "envDouble v dflt = (case v of None \<Rightarrow> dflt
     | Some s \<Rightarrow> if s = [] then dflt
         else case strtod (dropWhile is_space s) of Some (x, rest) \<Rightarrow> if rest = [] then x else dflt | None \<Rightarrow> dflt)"

definition set_env :: "string option \<Rightarrow> string" where
  "set_env v = (case v of None \<Rightarrow> [] | Some s \<Rightarrow> s)"

definition Api_config :: "(string \<Rightarrow> string option) \<Rightarrow> ip_net list \<Rightarrow> string \<Rightarrow> double \<Rightarrow> config" where
  "Api_config env nets frontend now =
     \<lparr>mRateRps = envDouble (env ''AVB_RATE_RPS'') 30, mRateBurst = envDouble (env ''AVB_RATE_BURST'') 90,
       mLoginRps = envDouble (env ''AVB_LOGIN_RPS'') 0.5, mLoginBurst = envDouble (env ''AVB_LOGIN_BURST'') 6,
       mRegistrationDisabled = (set_env (env ''AVB_DISABLE_REGISTRATION'') \<noteq> [] \<and>
         set_env (env ''AVB_DISABLE_REGISTRATION'') \<noteq> ''0''),
       mTrustedProxies = nets, mFrontendDir = frontend, mStart = now\<rparr>"

definition new_api :: "auth \<Rightarrow> store \<Rightarrow> engine \<Rightarrow> files \<Rightarrow> api" where
  "new_api au s e d = \<lparr>mAuth = au, mStore = s, ap_disk = d, mEngine = e, mLimiter = [],
     mGuard = FlowGuard (mDataDir s @ ''/security.log''), mPresence = [], mTraffic = [],
     mCpu = \<lparr>mCpuProcJiffies = 0, mCpuTotalJiffies = 0, mCpuIdleJiffies = 0, mCpuAt = None, mCpuProcPct = 0, mCpuSysPct = 0\<rparr>,
     mUploadSeq = 0, ap_clients = []\<rparr>"

section \<open>Starting\<close>

definition restored_session :: "store \<Rightarrow> session_meta \<Rightarrow> session" where
  "restored_session s m = Session\<lparr>se_id := ss_id m, se_name := ss_name m, se_pcapId := ss_pcapId m, se_path := ss_path m,
     se_createdAt := ss_createdAt m, se_domain := ss_domain m, se_pcapFilePath := sessionPcapPath s (ss_id m)\<rparr>"

definition restore :: "store \<Rightarrow> engine" where
  "restore s = fold (\<lambda>m. engine_start (restored_session s m)) (st_sessions s) \<lparr>mSessions = [], mRunning = 0\<rparr>"

definition usersFile :: "store \<Rightarrow> string" where
  "usersFile s = mDataDir s @ ''/users.json''"

text \<open>What the system answers while the program starts.\<close>

record start_env =
  sv_env :: "string \<Rightarrow> string option"
  sv_inet :: inet
  sv_store :: env
  sv_sodium :: bool
  sv_users_io :: io_script
  sv_hash :: "string \<Rightarrow> string option"
  sv_now :: double

text \<open>A failed provisioning of the administrator is a warning only.\<close>

definition provision :: "start_env \<Rightarrow> auth \<times> files \<Rightarrow> (auth \<times> files) option" where
  "provision v = (\<lambda>(au, d).
     let user = set_env (sv_env v ''AVB_ADMIN_USER''); pw = set_env (sv_env v ''AVB_ADMIN_PASSWORD'') in
     if user = [] then Some (au, d)
     else case ensureAdmin (sv_users_io v) (sv_hash v pw) user pw (au, d) of
       (r, au', d') \<Rightarrow> if r = None then None else Some (au', d'))"

text \<open>The exit code, or the server ready to listen; \<open>None\<close> where the save's script ends.\<close>

definition start_server :: "start_env \<Rightarrow> options \<Rightarrow> files \<Rightarrow> (int + config \<times> api) option" where
  "start_server v p d =
     (case (let tp = set_env (sv_env v ''AVB_TRUSTED_PROXIES'') in if tp = [] then Inr [] else parseCidrList (sv_inet v) tp []) of
        Inl _ \<Rightarrow> Some (Inl 2)
      | Inr nets \<Rightarrow>
          (case store_init (sv_store v) (op_data p) d of
             Inl _ \<Rightarrow> Some (Inl 1)
           | Inr s \<Rightarrow>
               (case auth_init (sv_sodium v) (usersFile s) d of
                  Inl _ \<Rightarrow> Some (Inl 1)
                | Inr au \<Rightarrow> map_option (\<lambda>(au', d'). Inr (Api_config (sv_env v) nets (op_frontend p) (sv_now v),
                    new_api au' s (restore s) d')) (provision v (au, d)))))"

text \<open>The first signal stops the server, the second ends the process with a code.\<close>

definition onSignal :: "int \<Rightarrow> nat \<Rightarrow> int option \<times> nat" where
  "onSignal sig earlier = (if earlier = 0 then None else Some (128 + sig), earlier + 1)"

section \<open>A started server is well formed\<close>

lemma restore_linked:
  assumes "sessions_inv s"
  shows "om_ok (mSessions (restore s)) \<and> linked s (restore s)"
proof -
  define step where "step = (\<lambda>m. engine_start (restored_session s m))"
  have "om_ok (mSessions (fold step ms e)) \<and> linked s (fold step ms e)"
    if "om_ok (mSessions e)" "linked s e" "set ms \<subseteq> set (st_sessions s)" for ms e
    using that
  proof (induction ms arbitrary: e)
    case (Cons m ms)
    have m: "m \<in> set (st_sessions s)" using Cons.prems by simp
    have "id_ok (CHR ''s'') (unat (mNextSession s)) (ss_id m)" using assms m by (simp add: sessions_inv_def list_all_iff)
    moreover have "t = ss_domain m" if "(ss_id m, t) \<in> pairs s" for t
      using session_ids_distinct [OF assms m] that by (auto simp: pairs_def)
    ultimately have "linked s (step m e)"
      using Cons.prems(2) by (auto simp: linked_def step_def engine_start_def engine_add_def engine_find_def restored_session_def om_simps)
    then show ?case using Cons.IH [of "step m e"] Cons.prems by (simp add: step_def engine_start_def engine_add_def)
  qed simp
  from this [of "\<lparr>mSessions = [], mRunning = 0\<rparr>" "st_sessions s"] show ?thesis
    by (simp add: restore_def step_def linked_def engine_find_def)
qed

lemma provision_ok:
  assumes "users_ok au" and "\<forall>pw h. sv_hash v pw = Some h \<longrightarrow> c_str h \<noteq> []" and "provision v (au, d) = Some (au', d')"
  shows "users_ok au'"
proof -
  have "users_ok (fst (snd (ensureAdmin io (sv_hash v pw) n pw (au, d))))" for io n pw
  proof (cases "om_get (mUsers au) n")
    case None
    then show ?thesis
      using register_ok [OF assms(1), of "sv_hash v pw" "''default''" io n pw "''admin''" d] assms(2)
      by (simp add: ensureAdmin_def)
  next
    case (Some u)
    then show ?thesis
      using ensureAdmin_inv [of au "sv_hash v pw" io n pw d] assms(1,2) users_ok_slug [OF assms(1) Some]
      by (auto simp: ensureAdmin_def users_ok_def intro!: om_all_set)
  qed
  then show ?thesis
    using assms(1,3) by (auto simp: provision_def Let_def split: if_splits prod.splits) (metis fst_conv snd_conv)
qed

section \<open>The program as a whole\<close>

text \<open>
  One step of the running server: a request is answered, an analysis thread ends with its session
  still listed or already deleted, a client connects or leaves.  Requests come while the id
  counters have not wrapped, and libsodium's hashes are C strings that are not empty.
\<close>

definition analysed :: "string \<Rightarrow> session \<Rightarrow> api \<Rightarrow> api" where
  "analysed i s a = a\<lparr>mEngine := engine_finish ((mEngine a)\<lparr>mSessions := om_set i s (mSessions (mEngine a))\<rparr>)\<rparr>"

inductive server_step :: "api \<Rightarrow> api \<Rightarrow> bool" where
  request: "handle k cf q client a = Some (rp, a') \<Longrightarrow> hashes k \<Longrightarrow> roomy a \<Longrightarrow> server_step a a'"
| analysis: "engine_find i (mEngine a) = Some s \<Longrightarrow> analyze fs reg sched order s = Ok s' \<Longrightarrow> server_step a (analysed i s' a)"
| orphan: "server_step a (a\<lparr>mEngine := engine_finish (mEngine a)\<rparr>)"
| clients: "server_step a (a\<lparr>ap_clients := cs\<rparr>)"

inductive_cases server_stepE: "server_step a b"

lemma analyze_domain: "analyze fs reg sched order s = Ok s' \<Longrightarrow> se_domain s' = se_domain s \<and> se_id s' = se_id s"
  by (auto simp: analyze_def finish_session_def index_session_def split: outcome.splits option.splits)

lemma analysed_inv:
  assumes "api_inv a" and "engine_find i (mEngine a) = Some s" and "se_domain s' = se_domain s"
  shows "api_inv (analysed i s' a)"
  using assms by (auto simp: api_inv_def analysed_def linked_def engine_finish_def engine_find_def om_simps)

lemma server_step_inv: "server_step a b \<Longrightarrow> api_inv a \<Longrightarrow> api_inv b"
proof (induction rule: server_step.induct)
  case (request k cf q client a rp a')
  then show ?case using handle_inv [of a k cf q client] by (simp add: leads_def)
next
  case (analysis i a s fs reg sched order s')
  then show ?case using analysed_inv analyze_domain by blast
qed (simp_all add: api_inv_def linked_def engine_finish_def engine_find_def)

lemma server_steps_inv: "server_step\<^sup>*\<^sup>* a b \<Longrightarrow> api_inv a \<Longrightarrow> api_inv b"
  by (induction rule: rtranclp_induct) (auto dest: server_step_inv)

text \<open>A data directory without the server's files.\<close>

definition fresh_dir :: "string \<Rightarrow> files \<Rightarrow> bool" where
  "fresh_dir dir d \<longleftrightarrow> d (dir @ ''/meta.json'') = None \<and> d (dir @ ''/devices.json'') = None \<and> d (dir @ ''/users.json'') = None"

definition hashing :: "start_env \<Rightarrow> bool" where
  "hashing v \<longleftrightarrow> (\<forall>pw h. sv_hash v pw = Some h \<longrightarrow> c_str h \<noteq> [])"

lemma started_inv:
  assumes "start_server v p d = Some (Inr (cf, a))" and "fresh_dir (op_data p) d" and "hashing v"
  shows "api_inv a"
proof -
  obtain s au nets au' d' where s: "store_init (sv_store v) (op_data p) d = Inr s"
    and au: "auth_init (sv_sodium v) (usersFile s) d = Inr au" and pr: "provision v (au, d) = Some (au', d')"
    and a: "a = new_api au' s (restore s) d'"
    using assms(1) unfolding start_server_def Let_def by (auto split: sum.splits if_splits)
  have st: "s = Store (op_data p)"
    using s assms(2) by (auto simp: store_init_def fresh_dir_def Let_def Store_def split: if_splits)
  have "users_ok au"
    using init_inv [OF au] au assms(2) by (auto simp: st users_ok_def auth_init_def usersFile_def fresh_dir_def Store_def split: if_splits)
  then have "users_ok au'" using provision_ok [OF _ _ pr] assms(3) by (simp add: hashing_def)
  moreover have "store_inv s" using inv_Store st by simp
  ultimately show ?thesis
    using restore_linked [of s] by (simp add: a api_inv_def new_api_def store_inv_def)
qed

section \<open>An example\<close>

definition calm_ask :: ask where
  "calm_ask = \<lparr>as_clock = (\<lambda>n. 1000 + real n),
     as_inet = \<lparr>pton4 = (\<lambda>_. None), pton6 = (\<lambda>_. None), ntop4 = (\<lambda>_. []), ntop6 = (\<lambda>_. [])\<rparr>,
     as_users_io = (\<lambda>_. healthy), as_env = (\<lambda>_. calm_env), as_notes_io = healthy, as_hash = (\<lambda>pw. Some (''$argon2id$'' @ pw)),
     as_verify = (\<lambda>h pw. h = ''$argon2id$'' @ pw), as_random = [1, 2, 3], as_iso = ''2026-01-01T00:00:00Z'', as_gmt = (\<lambda>_. []),
     as_log_opens = True, as_regular = (\<lambda>_. False), as_is_dir = (\<lambda>_. False), as_stat = (\<lambda>_. None),
     as_tools = (\<lambda>_ _. NotInstalled), as_rename = True,
     as_proc = \<lparr>pc_self_stat = [], pc_stat = [], pc_status = [], pc_meminfo = [], pc_hz = 100, pc_cores = 1, pc_utime = (0, 0), pc_stime = (0, 0)\<rparr>,
     as_pool = ThreadPool 64, as_analysisMs = (\<lambda>_. 0), as_since = (\<lambda>_. 0)\<rparr>"

definition calm_start :: start_env where
  "calm_start = \<lparr>sv_env = (\<lambda>_. None), sv_inet = as_inet calm_ask, sv_store = calm_env, sv_sodium = True, sv_users_io = healthy,
     sv_hash = as_hash calm_ask, sv_now = 0\<rparr>"

definition calm_config :: config where
  "calm_config = Api_config (\<lambda>_. None) [] ''./frontend'' 0"

definition plain_request :: "string \<Rightarrow> string \<Rightarrow> http_request" where
  "plain_request m p = \<lparr>hr_method = m, hr_path = p, hr_query = [], hr_headers = [(''authorization'', ''Bearer tk'')], hr_body = [],
     hr_clientAddr = ''192.0.2.7:4000''\<rparr>"

text \<open>Two tenants, the administrator in one and an owner with a login in the other.\<close>

definition two_accounts :: auth where
  "two_accounts = \<lparr>users_path = ''/data/users.json'',
     mUsers = [(''ann'', \<lparr>u_hash = ''h'', u_role = ''user'', u_domain = ''lab''\<rparr>), (''bob'', \<lparr>u_hash = ''h'', u_role = ''admin'', u_domain = ''default''\<rparr>)],
     mTokens = [''tk'' \<mapsto> ''ann'']\<rparr>"

definition busy_api :: api where
  "busy_api = new_api two_accounts two_tenants (restore two_tenants) (\<lambda>_. None)"

lemma hashes_calm [simp]: "hashes calm_ask"
  by (simp add: hashes_def calm_ask_def c_str_def)

lemma slug_lab [simp]: "slug ''lab''"
  by (simp add: slug_def validDomainId_def domain_char_def)

lemma busy_inv: "api_inv busy_api" and busy_roomy: "roomy busy_api"
proof -
  have "store_inv two_tenants" by (rule two_tenants_inv)
  moreover have "users_ok two_accounts"
    by (simp add: users_ok_def auth_inv_def two_accounts_def om_ok_def user_ok_def)
  ultimately show "api_inv busy_api"
    using restore_linked [of two_tenants] by (simp add: busy_api_def new_api_def api_inv_def store_inv_def)
  show "roomy busy_api" by (simp add: roomy_def busy_api_def new_api_def two_tenants_def Store_def)
qed

text \<open>The owner of the second tenant logs out; an anonymous request asks for the bootstrap state.\<close>

lemma busy_authentic: "authentic (bearerToken (plain_request ''POST'' ''/api/logout'')) (caller_of ''ann'' two_accounts) busy_api"
    "c_domain (caller_of ''ann'' two_accounts) = ''lab''" "\<not> cadmin (caller_of ''ann'' two_accounts)"
  by (simp_all add: authentic_def busy_api_def new_api_def bearerToken_def header_def plain_request_def check_token_def two_accounts_def
      caller_of_def infoOf_def cadmin_def or_else_def om_at_def Let_def)

lemma handle_logout: "\<exists>rp a'. handle k cf (plain_request ''POST'' ''/api/logout'') None busy_api = Some (rp, a')"
  by (simp add: handle_def handleApi_def routeApi_def Let_def route_caller_def handleLogout_def accept_def reject_def plain_request_def
      split: prod.split option.split)

lemma handle_bootstrap: "\<exists>rp a'. handle k cf (plain_request ''GET'' ''/api/bootstrap'') None a = Some (rp, a')"
  by (simp add: handle_def handleApi_def routeApi_def Let_def needs_admin_def accept_def plain_request_def split: prod.split)

lemma calm_started: "\<exists>cf a. start_server calm_start (default_options\<lparr>op_data := ''/data''\<rparr>) (\<lambda>_. None) = Some (Inr (cf, a))"
  by (simp add: start_server_def calm_start_def set_env_def store_init_def calm_env_def auth_init_def provision_def Let_def)

lemma calm_roomy: "start_server calm_start (default_options\<lparr>op_data := ''/data''\<rparr>) (\<lambda>_. None) = Some (Inr (cf, a)) \<Longrightarrow> roomy a"
  by (auto simp: start_server_def calm_start_def set_env_def store_init_def calm_env_def auth_init_def provision_def Let_def
      roomy_def new_api_def Store_def)

end
