(* ===== verification/Spec2Isabelle.thy ===== *)
theory Spec2Isabelle
  imports Inspector Engine_Proofs Ratelimit Flowguard Auth Store_Proofs Thread_Pool Server
begin

text \<open>
  \<^bold>\<open>A model of the avb-introspection server, and its correctness.\<close>

  The program (C++, under \<open>src/backend/src\<close>) is a web server for captures of AVB/TSN networks.
  A capture is uploaded into a library, decoded by worker threads, and fed packet by packet to
  seven protocol state machines; the event log and the state they build are served over REST and
  streamed over WebSockets to the users of separate tenant domains.  Paths below are relative to
  that directory.  The theories follow the code, bottom up.

  \<^bold>\<open>Foundations.\<close>
  \<^item> \<open>Prelude\<close>: machine types (\<open>u8\<close> to \<open>u64\<close> are words of their width), the formatting of
    numbers, the ordered map \<open>omap\<close> that stands for \<open>std::map\<close> and \<open>std::set\<close> with the locale
    \<open>std_map\<close> of its laws, the capped vectors of histories (\<open>bounded_log\<close>), the monad of
    exceptions and state in which the decoders are written, and the locale \<open>published\<close> for a
    table that is mirrored in a view.
  \<^item> \<open>Bytes\<close> (\<open>util/bytes.h\<close>): the bounds-checked reader and the formatting helpers.
    \<open>Event_Model\<close> (\<open>model/event.h\<close>, \<open>tsn_gen\<close>): events, transitions, variable contexts, the
    registry of modules, the locale \<open>object_log\<close> of the history every observed object keeps.
    \<open>Names\<close> (\<open>decode/names.cpp\<close>): the name tables.
  \<^item> \<open>Json\<close> (\<open>util/json.cpp\<close>, \<open>json.h\<close>): writer and parser.  \<open>Fsutil\<close> (\<open>util/fsutil.cpp\<close>):
    the replacement of a file, as the system calls it makes, with what a reader sees after each
    and what a power failure leaves of them.  \<open>Netaddr\<close>, \<open>Crypto\<close>, \<open>Decompress\<close> (the files of \<open>util\<close> of
    these names): addresses, SHA-1 and base64, compressed captures.

  \<^bold>\<open>The analysis of a capture.\<close>
  \<^item> \<open>Decode_Fields\<close>, \<open>Decode_Mrp\<close>, \<open>Decode_Gptp\<close>, \<open>Decode\<close> (\<open>decode/decode.cpp\<close>): every frame
    format, into a sink that is the decoded packet or the inspector's layers.  The lemmas
    (\<open>in_span\<close>, \<open>rides\<close>, \<open>sinks\<close>, \<open>stamp\<close>) show that no read leaves the span, that the loops
    end, which exceptions can arrive and that the time stamp only passes through.  \<open>Inspector\<close>
    relates the two sinks: the same parser makes the same choices whichever it writes into.
  \<^item> \<open>Pcap_Reader\<close> (\<open>pcapio/pcap_reader.cpp\<close>): pcap, pcapng and the merge.  An access outside
    the file is the outcome \<open>UB\<close>, a loop that does not end \<open>Diverges\<close>.
  \<^item> \<open>Mrp_Registrar\<close> (\<open>logic/avb_logic.h\<close>, \<open>mrp_registrar.cpp\<close>): the shared model and the
    registrar, which runs a reference machine of IEEE 802.1Q per attribute over any history of
    calls, and the locale \<open>avb_logic\<close>: what the engine expects of a module (an invariant
    with what it publishes, kept by every call, and the part of the shared model it leaves alone).
  \<^item> \<open>Mvrp_Logic\<close>, \<open>Maap_Logic\<close>, \<open>Adp_Logic\<close>, \<open>Aecp_Logic\<close>, \<open>Msrp_Logic\<close>, \<open>Acmp_Logic\<close> with
    \<open>Acmp_Proofs\<close>, \<open>Gptp_Logic\<close> with \<open>Gptp_Proofs\<close> and \<open>Gptp_Publish\<close>: one theory per module of
    \<open>logic\<close>, each an interpretation of \<open>avb_logic\<close>.
  \<^item> \<open>Engine\<close>, \<open>Engine_Proofs\<close> (\<open>engine/engine.cpp\<close>, \<open>session.h\<close>): the parallel decode under any
    schedule, the capture order, the pass with its counters, devices and log; \<open>Snapshot\<close>: the
    state document; \<open>Thread_Pool\<close> (\<open>engine/thread_pool.h\<close>): the pool as a step relation over its
    critical sections, its invariant by rule induction.

  \<^bold>\<open>The server.\<close>
  \<^item> \<open>Ratelimit\<close>, \<open>Flowguard\<close>, \<open>Auth\<close>, \<open>Store\<close> with \<open>Store_Proofs\<close> (\<open>util/ratelimit.h\<close>,
    \<open>sec/flowguard.cpp\<close>, \<open>auth/auth.cpp\<close>, \<open>store/store.cpp\<close>): each with its invariant; the guard's
    window refines the count of an actor's requests per slot, the files of the store and of the
    accounts read back.  The invariant of the library is stated over any set of valid
    domains, so that it holds with and without what the callers of the store check.
  \<^item> \<open>Http\<close>, \<open>Websocket\<close> (\<open>net\<close>): a socket is the list of segments the peer sends; the lemmas
    show where the segmentation matters (for a head about as long as the limit) and that
    elsewhere it does not, and that frames read back.
  \<^item> \<open>Api\<close>, \<open>Api_Sessions\<close>, \<open>Api_Admin\<close>, \<open>Api_Routes\<close>, \<open>Api_Stream\<close> (\<open>api/api.cpp\<close>): the state
    record \<open>api\<close> of the server and one definition per handler, from its guards to its answer;
    \<open>handle\<close> is the whole of a request.  \<open>Tenancy\<close> and \<open>Api_Proofs\<close>: the view of a domain, one
    lemma per operation and per handler that other domains' views stay, and the invariant of
    the state.
  \<^item> \<open>Server\<close> (\<open>main.cpp\<close>): command line, environment, start, and the steps of the running
    program.
  \<^item> This theory: the properties, each over the definitions of the components.

  \<^bold>\<open>What the properties show.\<close>  C1 to C12: the decoder, the inspector and the engine (safety,
  consistency of the state and of the published views, timeouts, the equivalence of the parallel
  decode, an exact log and exact counters, the registrars over any history).  C13, C14: captures are merged in order and located in their
  file.  C15 to C18: JSON.  C19 to C24: addresses, limits and the guard.  C25 to C33: files,
  accounts and the library.  C34 to C37: the server's state, tenant isolation and streams.
  C38 to C40: WebSocket frames, requests and the thread pool.

  \<^bold>\<open>Conventions.\<close>  \<open>double\<close> is modelled by the real numbers: there are no infinities, and
  rounding is not modelled except where it loses something that matters: printing with \<open>%.9g\<close>,
  and the counters and sizes the store reads back through a \<open>double\<close> (\<open>dbl\<close>).  A string is the list of its bytes.  \<open>std::unordered_map\<close> has the order of the
  keys where no operation depends on it; the order in which the modules are ticked, which does,
  is an argument.  Errors are values: \<open>Inl\<close> or \<open>Some message\<close>; \<open>None\<close>, \<open>UB\<close> or an exhausted
  script is what the source leaves undefined or unfinished, and the properties say when it
  cannot happen.  Clocks, random bytes, the answers of the operating system (the records \<open>env\<close>,
  \<open>ask\<close>, \<open>config\<close>, \<open>io_script\<close>), the texts of \<open>/proc\<close>, zlib, libsodium, \<open>inet_pton\<close> and the
  external tools are arguments of the definitions that use them, arbitrary in the theorems
  unless a hypothesis says what is documented of them.  That includes the failures the code does
  not look at: a file that cannot be removed (\<open>env_stuck\<close>) and the last bytes of a stream that its
  destructor fails to flush (\<open>env_lost\<close>).

  \<^bold>\<open>Bounds and fuel.\<close>  The loops of the decoder run on one round more than the bytes left, and
  \<open>adv_loop\<close> and \<open>progresses\<close> show that each round reads a byte.  The loops over members and
  elements of the parser carry one more than the length of the text (C18), its depth 64 is the
  limit of the source.  The pcapng loop has one more than the bytes of the file:
  \<open>ng_loop_fuel\<close> shows that when this does not suffice no fuel does.  Reading from a socket ends
  by the measure of the bytes left in the segments, a write loop by the script of the kernel.

  \<^bold>\<open>Not modelled.\<close>  Creating, binding and accepting sockets, socket options and timeouts; the
  memory model (the mutexes are taken as making each operation one step; the pool and the
  parallel decode are modelled with their interleavings); the text printed and the sleeps of the
  shutdown in \<open>main\<close>; the order in which
  \<open>unordered_map\<close>s are listed; the front end, the capture generator and the unit tests.
\<close>

section \<open>The analysis of a capture\<close>

text \<open>C1: For every frame the decoder either accepts it or rejects it with an error and hands the
  state machines nothing: no byte sequence makes it read outside the frame or leave by
  another exception, and its loops end.\<close>

theorem decodePacket_accepts_or_rejects:
  "\<exists>dp. decodePacket frame out = Some dp \<and> (dp_ok dp \<or> dp_interesting dp \<and> dp_logicCtxs dp = [])"
  by (rule decodePacket_cases [of frame out]) auto

text \<open>C2: The inspector shows layers for every frame, and they say what the decoder says: the first
  one is that of the Ethernet header with its fields, where it could be read; when the decoder
  accepts the frame no layer is an error layer, and when it rejects it the last layer, and only
  that, is one with the decoder's message.  One rejection the inspector does not share, that of
  a PDU of more than 8192 MRP declarations, which it does not expand.\<close>

theorem inspectPacket_always_shows:
  "\<exists>ls dp. inspectPacket frame = Some ls \<and> decodePacket frame out = Some dp \<and> ls \<noteq> [] \<and>
     hd ls = \<lparr>ly_service = ''ethernet_mac_frame'', ly_fields = (case eth_of frame of Inl _ \<Rightarrow> [] | Inr h \<Rightarrow> ethFields h)\<rparr> \<and>
     (dp_ok dp \<and> list_all (\<lambda>l. ly_service l \<noteq> ''decode_error'') ls \<or>
      \<not> dp_ok dp \<and> last ls = \<lparr>ly_service = ''decode_error'', ly_fields = [(''message'', dp_error dp)]\<rparr> \<and>
        list_all (\<lambda>l. ly_service l \<noteq> ''decode_error'') (butlast ls) \<or>
      \<not> dp_ok dp \<and> dp_error dp = ''too many MRP declarations in one PDU'' \<and> list_all (\<lambda>l. ly_service l \<noteq> ''decode_error'') ls)"
proof -
  obtain ls where ls: "inspectPacket frame = Some ls" using inspectPacket_total by blast
  obtain dp where dp: "decodePacket frame out = Some dp" by (rule decodePacket_cases)
  show ?thesis
    using ls dp first_layer [OF ls] inspector_agrees [OF ls dp]
    by (auto simp: eth_layer_def error_layer_def no_error_def runaway_def)
qed

theorem inspectPacket_always_shows_witness:
  "\<exists>ls. inspectPacket [1, 2, 3] = Some ls \<and> ls \<noteq> []"
  using inspectPacket_always_shows [of "[1, 2, 3]" DecodedPacket] by blast

text \<open>C3: Whatever packets the state pass processes, in whatever order the modules are ticked, the
  analysis stays consistent: the seven modules stay registered under their services, every
  module keeps its invariant, the registrars are well-formed with an exact count of leaving
  ones, and every view a module publishes shows its state.\<close>

theorem analysis_stays_consistent:
  "analysis_ok (analysis_after order ds s)"
  by (rule analysis_after_ok)

text \<open>C4: After any packets the shared model shows exactly what the modules know: the available
  entities are the ADP entities in state AVAILABLE, the established streams the MSRP
  reservations in state ESTABLISHED, and the talker declarations those of the reservations.\<close>

theorem published_views_exact:
  "\<exists>a e r. a = analysis_after order ds s \<and>
     module_of ''atdecc_adp'' a = Some (AdpM e) \<and> module_of ''mrp_msrp'' a = Some (MsrpM r) \<and>
     adpAvailable (an_shared a) = {i. \<exists>x. om_get (mEntities e) i = Some x \<and> en_state x = ''AVAILABLE''} \<and>
     establishedStreams (an_shared a) = {i. \<exists>x. om_get (mRes r) i = Some x \<and> rs_state x = ''ESTABLISHED''} \<and>
     msrpTalkerDecl (an_shared a) = (\<lambda>i. case om_get (mRes r) i of None \<Rightarrow> None
       | Some x \<Rightarrow> if rs_decl x = DeclNone then None else Some (rs_decl x))"
proof -
  let ?a = "analysis_after order ds s"
  have ok: "analysis_ok ?a" by (rule analysis_after_ok)
  obtain e where e: "module_of ''atdecc_adp'' ?a = Some (AdpM e)" "adp_published e (an_shared ?a)"
    by (rule analysis_adp [OF ok])
  obtain r where r: "module_of ''mrp_msrp'' ?a = Some (MsrpM r)" "msrp_published r (an_shared ?a)"
    by (rule analysis_msrp [OF ok])
  show ?thesis
    using e r by (intro exI conjI refl) (auto simp: adp_published_def msrp_published_def fun_eq_iff split: option.split)
qed

text \<open>C5: What the gPTP module publishes follows its domains: after any packets, every domain with
  an announced grandmaster is known to the others under that grandmaster, and a domain whose
  Sync is healthy or lost is published as such.\<close>

theorem gptp_truth_follows:
  "\<exists>a g. a = analysis_after order ds s \<and>
     module_of ''8021as_gptp'' a = Some (GptpM g) \<and>
     list_all (\<lambda>(k, d).
       (if gd_gmId d \<noteq> 0 then map_option (\<lambda>x. (gmKnown x, gmIdentity x)) (om_get (gptpDomains (an_shared a)) k) = Some (True, gd_gmId d) else True) \<and>
       (if gd_sync d = ''HEALTHY'' then map_option syncState (om_get (gptpDomains (an_shared a)) k) = Some 1 else True) \<and>
       (if gd_sync d = ''LOST'' then map_option syncState (om_get (gptpDomains (an_shared a)) k) = Some 2 else True))
     (gp_domains g)"
proof -
  let ?a = "analysis_after order ds s"
  have ok: "analysis_ok ?a" by (rule analysis_after_ok)
  obtain g where g: "module_of ''8021as_gptp'' ?a = Some (GptpM g)" "gptp_good g (an_shared ?a)"
    by (rule analysis_gptp [OF ok])
  have "told d (om_get (gptpDomains (an_shared ?a)) k)" if "(k, d) \<in> set (gp_domains g)" for k d
    using g(2) that by (auto simp: gptp_good_def told_but_def om_all_def truth_def)
  then have "list_all (\<lambda>(k, d).
       (if gd_gmId d \<noteq> 0 then map_option (\<lambda>x. (gmKnown x, gmIdentity x)) (om_get (gptpDomains (an_shared ?a)) k) = Some (True, gd_gmId d) else True) \<and>
       (if gd_sync d = ''HEALTHY'' then map_option syncState (om_get (gptpDomains (an_shared ?a)) k) = Some 1 else True) \<and>
       (if gd_sync d = ''LOST'' then map_option syncState (om_get (gptpDomains (an_shared ?a)) k) = Some 2 else True))
     (gp_domains g)"
    by (fastforce simp: list_all_iff told_def)
  with g(1) show ?thesis by blast
qed

text \<open>C6: After the last packet's ticks nothing is overdue: no available entity is past its
  valid_time, no AECP or ACMP command past its timeout is still in flight, and no gPTP domain
  is shown healthy or with a grandmaster past its receipt timeouts.\<close>

theorem nothing_overdue_after_packet:
  assumes "dp_interesting d" and "svc \<in> set order"
    and "module_of svc (analysis_after order (ds @ [d]) s) = Some m"
  shows "fresh (dp_ts d) m"
proof -
  obtain m0 sh where "m = snd (lm_drain (fst (lm_onTimeTick (dp_ts d) (m0, Some sh))))"
    using ticked_module [OF assms(2)] assms(3) unfolding analysis_after_last [OF assms(1)] by blast
  then show ?thesis by (simp add: tick_fresh)
qed

theorem nothing_overdue_after_packet_witness:
  "\<exists>m. fresh 3 (AdpM m) \<and>
     module_of ''atdecc_adp'' (analysis_after kServices [DecodedPacket\<lparr>dp_interesting := True, dp_ts := 3\<rparr>] Session) = Some (AdpM m)"
proof -
  obtain e where e: "module_of ''atdecc_adp'' (analysis_after kServices
      [DecodedPacket\<lparr>dp_interesting := True, dp_ts := 3\<rparr>] Session) = Some (AdpM e)"
    by (rule analysis_adp [OF analysis_after_ok])
  with nothing_overdue_after_packet [of "DecodedPacket\<lparr>dp_interesting := True, dp_ts := 3\<rparr>" "''atdecc_adp''" kServices "[]" Session]
  show ?thesis by (simp add: kServices_def DecodedPacket_def)
qed

text \<open>C7: The packets decoded by the worker threads are the packets decoded one after the other,
  for every number of cores and every interleaving of the workers' writes.\<close>

theorem parallel_decode_sequential:
  assumes "mset sched = mset (concat (map (\<lambda>(b, e). [b..<e]) (chunks hw (length (mPackets f)))))"
    and "mPackets f \<noteq> []"
  shows "decodeAll f sched = those (map (decode_one f) [0..<length (mPackets f)])"
  using assms by (intro decodeAll_schedule schedule_of_chunks [of sched hw]) auto

theorem parallel_decode_sequential_witness:
  "decodeAll \<lparr>mData = [1, 2, 3], mPackets = [\<lparr>pk_tsNanos = 5, pk_caplen = 1, pk_origlen = 1, pk_offset = 2\<rparr>]\<rparr> [0] =
     those (map (decode_one \<lparr>mData = [1, 2, 3], mPackets = [\<lparr>pk_tsNanos = 5, pk_caplen = 1, pk_origlen = 1, pk_offset = 2\<rparr>]\<rparr>) [0])"
  using parallel_decode_sequential [of "[0]" 4
      "\<lparr>mData = [1, 2, 3], mPackets = [\<lparr>pk_tsNanos = 5, pk_caplen = 1, pk_origlen = 1, pk_offset = 2\<rparr>]\<rparr>"]
  by (simp add: chunks_def worker_count_def)

text \<open>C8: The log of a session is complete and ordered: stripped of transitions it is exactly one
  entry per interesting packet, in order, an error entry when the packet did not decode;
  whatever the batches, the indices count up from zero.\<close>

theorem event_log_complete:
  assumes "se_events s = []"
  shows "let p = state_pass order ds (pass_init s a) in
    map (\<lambda>e. e\<lparr>ev_i := 0\<rparr>) (filter (\<lambda>e. ev_kind e \<noteq> TransitionEv) (ps_events p)) =
      map (\<lambda>d. if dp_ok d then packet_event d else error_event d) (filter dp_interesting ds) \<and>
    map ev_i (ps_events p) = map of_nat [0..<length (ps_events p)]"
proof -
  let ?p = "state_pass order ds (pass_init s a)"
  have num: "map ev_i (ps_events ?p) = map of_nat [0..<length (ps_events ?p)]" "ps_batch ?p = []"
    using numbered_pass [of "[]" "pass_init s a" order ds] assms pass_init_sel(2) [of s a]
    by (auto simp: numbered_def log_of_def)
  obtain tss where t: "length tss = length (filter dp_interesting ds)"
    "entries (fold (packet_step order) ds (pass_init s a)) =
      entries (pass_init s a) @ concat (map (\<lambda>(d, ts). own_event d # ts) (zip (filter dp_interesting ds) tss))"
    "\<forall>(d, ts) \<in> set (zip (filter dp_interesting ds) tss). list_all (transition_at (dp_ts d)) ts"
    by (rule fold_entries)
  have "entries ?p = concat (map (\<lambda>(d, ts). own_event d # ts) (zip (filter dp_interesting ds) tss))"
    using t(2) assms by (simp add: state_pass_def)
  then have "filter (\<lambda>e. ev_kind e \<noteq> TransitionEv) (entries ?p) = map own_event (filter dp_interesting ds)"
    using own_events [OF t(1,3)] by simp
  then have "map (\<lambda>e. e\<lparr>ev_i := 0\<rparr>) (filter (\<lambda>e. ev_kind e \<noteq> TransitionEv) (ps_events ?p)) =
      map own_event (filter dp_interesting ds)"
    by (simp add: entries_def log_of_def num(2) filter_map comp_def)
  with num(1) show ?thesis by (simp add: Let_def own_event_def)
qed

theorem event_log_complete_witness:
  "map ev_i (ps_events (state_pass kServices [DecodedPacket\<lparr>dp_interesting := True\<rparr>]
     (pass_init Session (AnalysisState_create (registrations avb_modules))))) =
   map of_nat [0..<length (ps_events (state_pass kServices [DecodedPacket\<lparr>dp_interesting := True\<rparr>]
     (pass_init Session (AnalysisState_create (registrations avb_modules)))))]"
  using event_log_complete [of Session kServices "[DecodedPacket\<lparr>dp_interesting := True\<rparr>]"
      "AnalysisState_create (registrations avb_modules)"]
  by (simp add: Let_def Session_def)

text \<open>C9: The log is in time order: when no packet of the capture is older than the first one, the
  events of the pass over the packets in capture order carry non-decreasing times.\<close>

theorem event_log_in_time_order:
  assumes "first_is_earliest f" and "decodeAll f sched = Some ds"
    and "set sched = {0..<length (mPackets f)}" and "se_events s = []"
  shows "sorted (map ev_ts (ps_events (state_pass order (map (\<lambda>i. ds ! i) (capture_order f)) (pass_init s a))))"
proof -
  let ?ds = "map (\<lambda>i. ds ! i) (capture_order f)"
  let ?p = "state_pass order ?ds (pass_init s a)"
  obtain tss where t: "length tss = length (filter dp_interesting ?ds)"
    "entries (fold (packet_step order) ?ds (pass_init s a)) =
      entries (pass_init s a) @ concat (map (\<lambda>(d, ts). own_event d # ts) (zip (filter dp_interesting ?ds) tss))"
    "\<forall>(d, ts) \<in> set (zip (filter dp_interesting ?ds) tss). list_all (transition_at (dp_ts d)) ts"
    by (rule fold_entries)
  have "sorted (map dp_ts (filter dp_interesting ?ds))"
    using capture_order_times [OF assms(1,2,3)] by (rule sorted_filter)
  from event_times [OF t(1,3) this] have "sorted (map ev_ts (entries ?p))"
    using t(2) assms(4) by (simp add: state_pass_def)
  moreover have "ps_batch ?p = []"
    using numbered_pass(2) [of "se_events s" "pass_init s a" order ?ds] by simp
  ultimately show ?thesis by (simp add: entries_def log_of_def comp_def)
qed

theorem event_log_in_time_order_witness:
  "\<exists>f ds. map pk_tsNanos (mPackets f) = [5, 9, 7] \<and> capture_order f = [0, 2, 1] \<and> decodeAll f [2, 0, 1] = Some ds \<and>
     sorted (map ev_ts (ps_events (state_pass kServices (map (\<lambda>i. ds ! i) (capture_order f))
       (pass_init Session (AnalysisState_create (registrations avb_modules))))))"
proof -
  let ?pk = "\<lambda>t k. \<lparr>pk_tsNanos = t, pk_caplen = 1, pk_origlen = 1, pk_offset = k\<rparr>"
  let ?f = "\<lparr>mData = [1, 2, 3], mPackets = [?pk 5 0, ?pk 9 1, ?pk 7 2]\<rparr>"
  have all: "set [2, 0, 1] = {0..<length (mPackets ?f)}" by auto
  have first: "first_is_earliest ?f" by (auto simp: first_is_earliest_def)
  obtain ds where ds: "decodeAll ?f [2, 0, 1] = Some ds"
    using decodeAll_total [OF all] by (auto simp: in_file_def)
  have "capture_order ?f = [0, 2, 1]" by (simp add: capture_order_def upt_rec)
  with ds event_log_in_time_order [OF first ds all, of Session kServices "AnalysisState_create (registrations avb_modules)"]
  show ?thesis by (intro exI [of _ ?f] exI [of _ ds]) (simp add: Session_def)
qed

text \<open>C10: The device inventory counts: for a source address every interesting frame of it, and
  its protocol mask has the bit of exactly the protocols seen from it.\<close>

theorem device_inventory_counts:
  assumes "mac \<noteq> 0" and "se_devices s = []"
  shows "let dev = om_at DeviceInfo (ps_devices (state_pass order ds (pass_init s a))) mac in
    dv_packets dev = of_nat (length (filter (\<lambda>d. dp_interesting d \<and> dp_srcMac d = mac) ds)) \<and>
    (bit (dv_protoMask dev) (proto_id q) = (\<exists>d. d \<in> set ds \<and> dp_interesting d \<and> dp_srcMac d = mac \<and> dp_proto d = q)) \<and>
    (dv_entityId dev = 0 \<or> dv_entityId dev \<in> dv_assocIds dev)"
proof -
  let ?p = "state_pass order ds (pass_init s a)"
  have dev: "ps_devices ?p = ps_devices (fold (packet_step order) ds (pass_init s a))" by (simp add: state_pass_def)
  have "om_all (\<lambda>_. device_ok) (ps_devices ?p)"
    by (rule pass_devices_ok) (simp add: assms(2))
  then have "device_ok (om_at DeviceInfo (ps_devices ?p) mac)"
    by (rule om_all_at [where P = "\<lambda>_. device_ok"]) (simp add: device_ok_def DeviceInfo_def)
  moreover have "from_mac mac ds = filter (\<lambda>d. dp_interesting d \<and> dp_srcMac d = mac) ds"
    by (simp add: from_mac_def logged_def conj_commute)
  ultimately show ?thesis
    unfolding Let_def dev device_ok_def
    using pass_devices [OF assms(1), of order ds "pass_init s a"] assms(2)
    by (auto simp: DeviceInfo_def om_at_def)
qed

theorem device_inventory_counts_witness:
  "let dev = om_at DeviceInfo (ps_devices (state_pass [] [DecodedPacket\<lparr>dp_interesting := True, dp_srcMac := 7\<rparr>]
      (pass_init Session (AnalysisState_create [])))) 7 in dv_packets dev = 1 \<and> bit (dv_protoMask dev) (proto_id ETH)"
  using device_inventory_counts [of 7 Session "[]" "[DecodedPacket\<lparr>dp_interesting := True, dp_srcMac := 7\<rparr>]"
      "AnalysisState_create []" ETH]
  by (simp add: Let_def Session_def DecodedPacket_def)

text \<open>C11: The counters count: decode errors are the interesting frames that did not decode, a
  protocol's count the decoded interesting frames of it.\<close>

theorem pass_counters_count:
  "let p = state_pass order ds (pass_init Session a) in
     ps_decodeErrors p = of_nat (length (filter (\<lambda>d. dp_interesting d \<and> \<not> dp_ok d) ds)) \<and>
     ps_protoCounts p q = of_nat (length (filter (\<lambda>d. dp_interesting d \<and> dp_ok d \<and> dp_proto d = q) ds))"
proof -
  have "filter (\<lambda>d. \<not> dp_ok d) (logged ds) = filter (\<lambda>d. dp_interesting d \<and> \<not> dp_ok d) ds"
    "filter (\<lambda>d. dp_ok d \<and> dp_proto d = q) (logged ds) = filter (\<lambda>d. dp_interesting d \<and> dp_ok d \<and> dp_proto d = q) ds"
    by (simp_all add: logged_def conj_ac)
  then show ?thesis using pass_counters [of order ds "pass_init Session a"] by (simp add: Let_def Session_def)
qed

text \<open>C12: Every MRP registrar runs its state table: after any history of heard events, LeaveAlls
  and clock ticks, the attribute type, the state and the leave timer of each (protocol,
  attribute, source) are those of the reference machine, which reads only the events of that
  attribute, the LeaveAlls of its protocol and type, and the clock.  The count of leaving
  registrars, on which a tick returns early, stays exact.\<close>

theorem registrar_runs_its_table:
  "let sh = fold mrp_do cs SharedModel; a = om_at MrpAttr (mrpAttrs sh) k in
     (ma_kind a, reg_of (registrar a), leaveTimerStart a) = fold (reg_reads k) cs ('''', RegMT, -1) \<and>
     mrpLvCount sh = length (filter (\<lambda>(_, b). registrar b = ''LV'') (mrpAttrs sh))"
proof -
  have "reg_machine_at SharedModel k = ('''', RegMT, -1)"
    by (simp add: reg_machine_at_def om_at_def SharedModel_def)
  with run_machine [OF reg_inv_init, of cs k] show ?thesis
    by (simp add: Let_def reg_machine_at_def machine_of_def reg_inv_def leaving_def)
qed

section \<open>Captures\<close>

text \<open>C13: A successful merge writes exactly the frames of the opened sources, stably sorted by
  timestamp, and (timestamps and lengths fitting the classic record) opening the written file
  again gives those frames back.\<close>

theorem mergePcaps_sorted_roundtrip:
  assumes "mergePcaps fs disk sources names outPath srcMapPath = Ok res"
  shows "\<exists>files frames. list_all2 (\<lambda>src f. pcap_open fs src = Ok f) sources files \<and>
    frames = sort_key fst (concat (map file_frames files)) \<and>
    mg_file res = global_header @ concat (map encode_record frames) \<and> mg_packets res = length frames \<and>
    (list_all writable frames \<longrightarrow> (\<exists>f. pcap_open (\<lambda>_. Some (mg_file res)) path = Ok f \<and>
       contents f = map (\<lambda>(ts, ol, bs). (ts, ol, Some bs)) frames))"
proof -
  obtain files where opened: "list_all2 (\<lambda>src f. pcap_open fs src = Ok f) sources files"
    and written: "merge_write disk outPath srcMapPath (length sources) files = Ok res"
    by (rule merge_Ok [OF assms])
  have ne: "timeline files \<noteq> []" by (rule timeline_nonempty [OF opened merge_sources [OF assms]])
  have reopened: "\<exists>f. pcap_open (\<lambda>_. Some (mg_file res)) path = Ok f \<and>
      contents f = map (\<lambda>(ts, ol, bs). (ts, ol, Some bs)) (timeline files)" if "list_all writable (timeline files)"
    using timeline_readback [OF that ne] unfolding merge_write_Ok(1) [OF written] by metis
  show ?thesis
    using opened merge_write_Ok [OF written] reopened by (auto simp: timeline_frames)
qed

theorem mergePcaps_sorted_roundtrip_witness:
  "\<exists>(res :: merge_result) files frames.
    list_all2 (\<lambda>src f. pcap_open (\<lambda>_. Some one_frame_capture) src = Ok f) [''a''] files \<and>
    frames = sort_key fst (concat (map file_frames files)) \<and>
    mg_file res = global_header @ concat (map encode_record frames)"
proof -
  obtain res where "mergePcaps (\<lambda>_. Some one_frame_capture) (\<lambda>_. Writes) [''a''] [] ''o'' '''' = Ok res"
    using merge_one_frame by blast
  from mergePcaps_sorted_roundtrip [OF this] show ?thesis by blast
qed

text \<open>C14: Every packet the reader indexes lies inside the file, save those whose captured length
  a pcapng block underflows to within twenty bytes of \<open>2 ^ 32\<close>.\<close>

theorem pcap_packets_located:
  assumes "pcap_open fs path = Ok f"
  shows "list_all (\<lambda>p. in_file (mData f) p \<or> 2 ^ 32 - 20 \<le> unat (pk_caplen p)) (mPackets f)"
  using pcap_open_located [OF assms] by (simp add: list_all_iff located_def)

theorem pcap_packets_located_witness:
  "list_all (\<lambda>p. in_file one_frame_capture p \<or> 2 ^ 32 - 20 \<le> unat (pk_caplen p))
     [\<lparr>pk_tsNanos = 5, pk_caplen = 1, pk_origlen = 1, pk_offset = 40\<rparr>]"
  using pcap_packets_located [OF open_one_frame] by simp

section \<open>The state as JSON\<close>

text \<open>C15: Whatever the modules have learned, the state document is JSON: the repository's own
  parser reads it (up to its limit of a mebibyte) as an object with exactly the eleven
  published tables, in module order.\<close>

theorem state_document_is_json:
  assumes "se_logic s = Some (analysis_after order ds s0)" and "length (stateJson s) \<le> 1024 * 1024"
  shows "\<exists>kvs. parse (stateJson s) = Inr (Object kvs) \<and> map fst kvs = state_keys"
  using stateJson_parses [OF assms(1) _ assms(2)] analysis_after_ok by (simp add: analysis_ok_def)

theorem state_document_is_json_witness:
  "\<exists>kvs. parse (stateJson (Session\<lparr>se_logic := Some (analysis_after [] [] Session)\<rparr>)) = Inr (Object kvs) \<and>
     map fst kvs = state_keys"
proof (rule state_document_is_json)
  have "an_modules (analysis_after [] [] Session) = avb_modules" "mrpAttrs (an_shared (analysis_after [] [] Session)) = []"
    by (simp_all add: analysis_after_def state_pass_def pass_init_def flush_def create_registered SharedModel_def)
  then show "length (stateJson (Session\<lparr>se_logic := Some (analysis_after [] [] Session)\<rparr>)) \<le> 1024 * 1024"
    by (simp add: stateJson_def snapshotJson_def obj_def arr_def kv_def run_def avb_modules_def snapshotMrp_def
        adp_snapshot_def msrp_snapshot_def mvrp_snapshot_def maap_snapshot_def acmp_snapshot_def aecp_snapshot_def
        gptp_snapshot_def AdpLogic_def MsrpLogic_def MvrpLogic_def MaapLogic_def AcmpLogic_def AecpLogic_def GptpLogic_def
        beginObj_def endObj_def beginArr_def endArr_def key_def comma_def append_out_def push_def pop_def JsonWriter_def
        jsonEscape_def escape_char_def)
qed simp

text \<open>C16: What the writer writes, the parser reads back: a document of at most 64 nested
  containers and numbers that are numbers becomes the value it stands for.\<close>

theorem json_writer_roundtrip:
  assumes "good 65 d" and "length (mOut (emit_doc d JsonWriter)) \<le> 1024 * 1024"
  shows "parse (mOut (emit_doc d JsonWriter)) = Inr (value_of d)"
  by (rule writer_parses [OF assms])

theorem json_writer_roundtrip_witness:
  "parse (mOut (emit_doc (DObj [(''k'', DArr [DNull, DStr ''v''])]) JsonWriter)) = Inr (Object [(''k'', Array [Null, Str ''v''])])"
proof -
  have g: "good (Suc (Suc (Suc n))) (DObj [(''k'', DArr [DNull, DStr ''v''])])" for n by simp
  have "length (mOut (emit_doc (DObj [(''k'', DArr [DNull, DStr ''v''])]) JsonWriter)) \<le> 1024 * 1024"
    by (simp add: null_value_def value_str_def beginObj_def endObj_def beginArr_def endArr_def key_def comma_def
        append_out_def push_def pop_def JsonWriter_def jsonEscape_def escape_char_def)
  with json_writer_roundtrip [of "DObj [(''k'', DArr [DNull, DStr ''v''])]"] g [of 62] show ?thesis by simp
qed

text \<open>C17: Escaping loses nothing: the parser's string reader gives every byte string back,
  control characters and quotes included.\<close>

theorem json_string_roundtrip:
  "parseString [] (tl (jsonEscape s) @ rest) = Inr (s, rest)"
  by (rule parseString_jsonEscape)

text \<open>C18: The parser ends on every input: the loops over members and elements never use up
  their fuel, so the answer is a value or one of the messages of the source.\<close>

theorem json_parser_ends: "parse body \<noteq> Inl ''out of fuel''"
  by (rule parse_total)

section \<open>Addresses and rates\<close>

text \<open>C19: A range contains an address exactly when they are of one family and share the leading
  bits of the prefix: the byte-wise masked comparison is prefix comparison.\<close>

theorem cidr_is_prefix:
  assumes "inet_ok os" and "parseCidr os s = Some net" and "parseIp os t = Some ip"
  shows "net_contains net ip \<longleftrightarrow> v6 ip = v6 (net_addr net) \<and>
    take (nat (net_bits net)) (bits_of (ip_bytes ip)) = take (nat (net_bits net)) (bits_of (ip_bytes (net_addr net)))"
  using parseCidr_valid [OF assms(1,2)] by (intro net_contains_bits parseIp_valid [OF assms(1,3)]) simp_all

theorem cidr_is_prefix_witness:
  "\<exists>net ip. parseCidr letter_inet ''AKAAAAAA/8'' = Some net \<and> parseIp letter_inet ''AKABACAD'' = Some ip \<and>
     (net_contains net ip \<longleftrightarrow> v6 ip = v6 (net_addr net) \<and>
       take (nat (net_bits net)) (bits_of (ip_bytes ip)) = take (nat (net_bits net)) (bits_of (ip_bytes (net_addr net))))"
proof -
  have "parseCidr letter_inet ''AKAAAAAA/8'' \<noteq> None" "parseIp letter_inet ''AKABACAD'' \<noteq> None" by code_simp+
  then obtain net ip where "parseCidr letter_inet ''AKAAAAAA/8'' = Some net" "parseIp letter_inet ''AKABACAD'' = Some ip" by blast
  with cidr_is_prefix [OF letter_inet_ok this] show ?thesis by blast
qed

text \<open>C20: A client cannot choose the address it is counted under.  A peer that is neither loopback
  nor in a trusted range is counted under its own address, whatever headers it sends.  Behind
  such a proxy the address is the \<open>X-Real-IP\<close> the proxy set, when that is an address; else the
  last hop of \<open>X-Forwarded-For\<close>, the proxy's own entry, whatever the client wrote before it;
  else the proxy's own.\<close>

theorem client_address_not_spoofed:
  assumes "CHR '','' \<notin> set hop"
  shows "resolveClientIp os peer realIp (spoofed @ CHR '','' # hop) trusted =
    (case parseIp os (hostOfPeer peer) of
       None \<Rightarrow> hostOfPeer peer
     | Some ip \<Rightarrow>
         if \<not> isLoopback ip \<and> list_all (\<lambda>net. \<not> net_contains net ip) trusted then ipToString os ip
         else ipToString os (case parseIp os (trim realIp) of
                Some x \<Rightarrow> x
              | None \<Rightarrow> (case parseIp os (trim hop) of Some x \<Rightarrow> x | None \<Rightarrow> ip)))"
  unfolding resolve_last_hop [OF assms] resolve_single_hop [OF assms]
  by (auto simp: list_ex_iff list_all_iff split: option.split)

theorem client_address_not_spoofed_witness:
  "\<exists>net. parseCidr letter_inet ''AKAAAAAA/8'' = Some net \<and>
     resolveClientIp letter_inet ''AKABACAD:80'' '''' (''CACACACA'' @ CHR '','' # '' DADADADA'') [net] = ''DADADADA''"
proof -
  have "parseCidr letter_inet ''AKAAAAAA/8'' \<noteq> None" by code_simp
  then obtain net where net: "parseCidr letter_inet ''AKAAAAAA/8'' = Some net" by blast
  have "map_option (\<lambda>net. case parseIp letter_inet (hostOfPeer ''AKABACAD:80'') of None \<Rightarrow> '''' | Some ip \<Rightarrow>
      if \<not> isLoopback ip \<and> list_all (\<lambda>net. \<not> net_contains net ip) [net] then '''' else
      ipToString letter_inet (case parseIp letter_inet (trim '''') of Some x \<Rightarrow> x
        | None \<Rightarrow> (case parseIp letter_inet (trim '' DADADADA'') of Some x \<Rightarrow> x | None \<Rightarrow> ip)))
      (parseCidr letter_inet ''AKAAAAAA/8'') = Some ''DADADADA''" by code_simp
  with net client_address_not_spoofed [of "'' DADADADA''" letter_inet "''AKABACAD:80''" "''''" "''CACACACA''" "[net]"]
  show ?thesis by (auto split: option.splits if_splits)
qed

text \<open>C21: The rate limit holds: over any span of time, whatever happened before it, whoever else
  calls and whatever the penalties, a key is granted at most its burst and the tokens that
  refill in the span (on a table small enough that nothing is pruned).\<close>

theorem rate_limit_bounds:
  assumes "enabled rate burst" and "sorted (map call_time calls)" and "list_all (call_limits k rate burst) calls"
    and "\<forall>c \<in> set calls. since \<le> call_time c \<and> call_time c \<le> until" and "since \<le> until"
    and "length m + length calls \<le> 8192" and "om_ok m"
  shows "real (granted k (serve calls m)) \<le> burst + rate * (until - since)"
  by (rule serve_bound [OF assms])

theorem rate_limit_bounds_witness:
  "real (granted ''a'' (serve [(''a'', 1, 2, 1, 9), (''b'', 5, 8, 1, 9), (''a'', 1, 2, 1, 9), (''a'', 1, 2, 4, 10)]
     [(''a'', \<lparr>tokens = 0, b_last = 0\<rparr>)])) \<le> 2 + 1 * (10 - 9)"
  by (rule rate_limit_bounds) (auto simp: enabled_def om_ok_Cons)

text \<open>C22: A caller that is refused and told to wait is granted its next call that long later, whoever
  else calls in between and whatever is pruned, as long as its penalty was not raised in the
  meantime.  The exception is a configured burst below one token: then no call is ever granted,
  however long the caller waits.\<close>

theorem retry_after_is_enough:
  assumes "enabled rate burst" and "om_ok m"
    and "allow k rate burst pen pnow now m = (False, Some w, m')"
    and "list_all (\<lambda>(k', _). k' \<noteq> k) others" and "max 1 pen' \<le> max 1 pen" and "now + w \<le> later"
  shows "fst (allow k rate burst pen' pnow' later (after_calls others m')) \<longleftrightarrow> 1 \<le> burst"
  by (rule retry_after_works [OF assms])

theorem retry_after_is_enough_witness:
  "fst (allow ''k'' 1 2 1 0 1 (after_calls [(''j'', 1, 2, 4, 0)]
     (snd (snd (allow ''k'' 1 2 1 0 0 [(''k'', \<lparr>tokens = 0, b_last = 0\<rparr>)])))))"
proof -
  have "allow ''k'' 1 2 1 0 0 [(''k'', \<lparr>tokens = 0, b_last = 0\<rparr>)] =
      (False, Some 1, snd (snd (allow ''k'' 1 2 1 0 0 [(''k'', \<lparr>tokens = 0, b_last = 0\<rparr>)])))"
    by (simp add: allow_def slowed_def refilled_def take_token_def Let_def)
  from retry_after_is_enough [OF _ _ this, of "[(''j'', 1, 2, 4, 0)]" 1 1 0] show ?thesis
    by (simp add: enabled_def om_ok_def)
qed

section \<open>Flow guard and accounts\<close>

text \<open>C23: The guard counts right: after any requests on a clock that does not run backwards, the
  window of an actor sums to exactly its requests in the twelve five-second slots up to the
  one it was last seen in, whoever else was active and whenever the table was pruned.\<close>

theorem guard_window_exact:
  assumes "sorted (map rq_now rs)" and "\<forall>r \<in> set rs. 0 \<le> rq_now r"
    and "om_get (mActors (fold fg_record rs (FlowGuard p))) k = Some a"
  shows "sum_counts a = tally (recent (bucketOf (lastSeen a)) (of_actor k rs))"
  using window_exact [OF assms] by simp

theorem guard_window_exact_witness:
  "\<exists>r a. om_get (mActors (fold fg_record [r] (FlowGuard []))) ''u'' = Some a \<and>
     sum_counts a = tally (recent (bucketOf (lastSeen a)) (of_actor ''u'' [r]))"
proof -
  let ?r = "\<lparr>rq_now = 7, rq_iso = [], rq_log_opens = False, rq_actor = ''u'', rq_domain = [], rq_role = [],
     rq_method = [], rq_path = [], rq_status = 200, rq_bytes = 0\<rparr>"
  obtain a where "om_get (mActors (fold fg_record [?r] (FlowGuard []))) ''u'' = Some a"
    by (simp add: record_actors Let_def om_get_set)
  with guard_window_exact [OF _ _ this] show ?thesis by auto
qed

text \<open>C24: Guessing passwords is slowed: an actor with eight failed logins in its window is under
  the penalty factor of four, even within the silence after an earlier alert.\<close>

theorem bruteforce_is_penalised:
  assumes "sorted (map rq_now (rs @ [r]))" and "\<forall>x \<in> set (rs @ [r]). 0 \<le> rq_now x"
    and "n = length (filter (\<lambda>x. rq_status x = 401) (recent (bucketOf (rq_now r)) (of_actor (rq_actor r) (rs @ [r]))))"
    and "8 \<le> n" and "n < 2 ^ 32"
  shows "penalty (rq_now r) (rq_actor r) (fold fg_record (rs @ [r]) (FlowGuard p)) = 4"
  by (rule many_401_penalised [OF assms])

theorem bruteforce_is_penalised_witness:
  "let r = \<lparr>rq_now = 3, rq_iso = [], rq_log_opens = False, rq_actor = ''ip:1'',
     rq_domain = [], rq_role = [], rq_method = [], rq_path = [], rq_status = 401, rq_bytes = 0\<rparr>
   in penalty (rq_now r) (rq_actor r) (fold fg_record ([r, r, r, r, r, r, r] @ [r]) (FlowGuard [])) = 4"
proof -
  define r where "r = \<lparr>rq_now = 3, rq_iso = [], rq_log_opens = False, rq_actor = ''ip:1'',
     rq_domain = [], rq_role = [], rq_method = [], rq_path = [], rq_status = 401, rq_bytes = 0\<rparr>"
  have r: "rq_now r = 3" "rq_status r = 401" by (simp_all add: r_def)
  have "penalty (rq_now r) (rq_actor r) (fold fg_record ([r, r, r, r, r, r, r] @ [r]) (FlowGuard [])) = 4"
    by (rule bruteforce_is_penalised [where n = 8]) (simp_all add: of_actor_def recent_def r)
  then show ?thesis unfolding r_def Let_def .
qed

text \<open>C25: Saving is crash-safe: at every moment of a save, whatever the kernel answers, a reader of
  the file sees its old contents or the new ones, and the answer says which are left.  And on a
  file system that caches writes until \<open>fsync\<close> and may lose the last directory operations, a
  power failure after any of the save's system calls leaves the old contents or the new ones;
  after the last of them the old ones when the save answered an error, and the new ones when it
  answered success and the directory could be synced.\<close>

theorem save_is_atomic:
  assumes "prefix cs (fst (replace_calls path data io))" and "crash (fs_run cs d0) D"
  shows "(\<forall>d \<in> set (snd (writeFileAtomic path data io d0)). d path = d0 path \<or> d path = Some data) \<and>
    (case fst (writeFileAtomic path data io d0) of
       None \<Rightarrow> True
     | Some None \<Rightarrow> disk_after path data io d0 path = Some data
     | Some (Some e) \<Rightarrow> disk_after path data io d0 path = d0 path) \<and>
    (D path = d0 path \<or> D path = Some data) \<and>
    (cs = fst (replace_calls path data io) \<longrightarrow>
       (case fst (writeFileAtomic path data io d0) of
          Some None \<Rightarrow> io_dirsync io \<longrightarrow> D path = Some data
        | _ \<Rightarrow> D path = d0 path))"
proof -
  have "fst (writeFileAtomic path data io d0) = snd (replace_calls path data io)"
    by (simp add: writeFileAtomic_def case_prod_beta)
  then show ?thesis
    using write_atomic_seen [of _ path data io d0] write_atomic_answer [of path data io d0] replace_crash [OF assms]
    by (auto split: option.split)
qed

theorem save_is_atomic_witness:
  "let io = \<lparr>io_open = None, io_writes = [Interrupted, Wrote 2, Wrote 1], io_fsync = None, io_rename = None, io_dirsync = True\<rparr>
   in \<exists>D. crash (fs_run (fst (replace_calls ''f'' ''new'' io)) [''f'' \<mapsto> ''old'']) D \<and> D ''f'' = Some ''new''"
proof -
  define io where "io = \<lparr>io_open = None, io_writes = [Interrupted, Wrote 2, Wrote 1], io_fsync = None, io_rename = None,
    io_dirsync = True\<rparr>"
  have calls: "replace_calls ''f'' ''new'' io = ([Creat ''f.tmp'', Append ''f.tmp'' ''ne'', Append ''f.tmp'' ''w'', Sync ''f.tmp'',
      Rename ''f.tmp'' ''f'', SyncDir ''.''], Some None)"
    by (simp add: io_def replace_calls_def Let_def dir_of_def)
  have c: "crash (fs_run (fst (replace_calls ''f'' ''new'' io)) [''f'' \<mapsto> ''old'']) [''f'' \<mapsto> ''new'']"
    unfolding calls by (simp add: fs_run_def fs_of_def Let_def set_names_def set_data_def crash_def)
  have "fst (writeFileAtomic ''f'' ''new'' io [''f'' \<mapsto> ''old'']) = Some None" by (simp add: writeFileAtomic_def calls)
  with save_is_atomic [OF _ c] c show ?thesis unfolding io_def [symmetric] Let_def by (auto simp: io_def)
qed

text \<open>C26: The accounts stay well-formed under every operation: names and hashes are not empty,
  roles are admin or user, and every token belongs to an account.\<close>

theorem accounts_stay_consistent:
  assumes "auth_inv a" and "hashed = Some h \<and> c_str h \<noteq> [] \<or> hashed = None"
  shows "auth_inv (fst (snd (registerUser io hashed n pw rl tenant (a, d)))) \<and>
    auth_inv (fst (snd (ensureAdmin io hashed n pw (a, d)))) \<and>
    auth_inv (fst (snd (setDomain io n tenant (a, d)))) \<and>
    auth_inv (fst (snd (deleteUser io n (a, d)))) \<and>
    auth_inv (snd (login verify rnd n pw a)) \<and> auth_inv (logout t a)"
  using assms register_inv [of a hashed io n pw rl tenant d] ensureAdmin_inv [of a hashed io n pw d]
  by (auto simp: setDomain_inv deleteUser_inv login_inv logout_inv)

theorem accounts_stay_consistent_witness:
  "auth_inv (fst (snd (registerUser healthy (Some ''h'') ''bob'' ''password'' ''user'' ''''
     (\<lparr>users_path = ''u'', mUsers = [], mTokens = (\<lambda>_. None)\<rparr>, (\<lambda>_. None)))))"
  using accounts_stay_consistent [of "\<lparr>users_path = ''u'', mUsers = [], mTokens = (\<lambda>_. None)\<rparr>" "Some ''h''" "''h''"]
  by (simp add: auth_inv_def c_str_def)

text \<open>C27: Deleting accounts never removes the last administrator, and leaves no token of a
  deleted account.\<close>

theorem deletion_is_safe:
  assumes "auth_inv a" and "hasAdmin a" and "n \<noteq> ''''"
  shows "hasAdmin (fst (snd (deleteUser io n (a, d)))) \<and>
    (om_get (mUsers (fst (snd (deleteUser io n (a, d))))) n \<noteq> None \<or>
     check_token t (fst (snd (deleteUser io n (a, d)))) \<noteq> n)"
  using hasAdmin_delete [OF assms(1,2)] deleted_no_token [OF assms(1)] assms(3) by blast

theorem deletion_is_safe_witness:
  "hasAdmin (fst (snd (deleteUser healthy ''bob'' (\<lparr>users_path = ''u'',
     mUsers = [(''bob'', \<lparr>u_hash = ''h'', u_role = ''admin'', u_domain = ''default''\<rparr>)], mTokens = (\<lambda>_. None)\<rparr>, (\<lambda>_. None)))))"
  using deletion_is_safe [of "\<lparr>users_path = ''u'',
     mUsers = [(''bob'', \<lparr>u_hash = ''h'', u_role = ''admin'', u_domain = ''default''\<rparr>)], mTokens = (\<lambda>_. None)\<rparr>" "''bob''" healthy "\<lambda>_. None"]
  by (simp add: auth_inv_def om_ok_Cons user_ok_def hasAdmin_def is_admin_def)

text \<open>C28: The users file reads back: a restart on the saved file has the same accounts, as long
  as the file is within the parser's mebibyte; a larger one, which the save writes all the
  same, makes the start fail.\<close>

theorem accounts_persist:
  assumes "auth_inv a" and "d p = Some (users_json a)"
  shows "auth_init True p d =
    (if length (users_json a) \<le> 1024 * 1024 then Inr \<lparr>users_path = p, mUsers = mUsers a, mTokens = (\<lambda>_. None)\<rparr>
     else Inl (cat [''cannot parse '', p, '': '', ''JSON body too large'']))"
  using auth_persists [OF assms(1), of d p] auth_oversize [of a d p] assms(2) by simp

theorem accounts_persist_witness:
  "auth_init True ''u'' (\<lambda>_. Some (users_json \<lparr>users_path = ''u'',
     mUsers = [(''bob'', \<lparr>u_hash = ''h'', u_role = ''admin'', u_domain = ''default''\<rparr>)], mTokens = (\<lambda>_. None)\<rparr>)) =
   Inr \<lparr>users_path = ''u'', mUsers = [(''bob'', \<lparr>u_hash = ''h'', u_role = ''admin'', u_domain = ''default''\<rparr>)], mTokens = (\<lambda>_. None)\<rparr>"
proof -
  let ?a = "\<lparr>users_path = ''u'', mUsers = [(''bob'', \<lparr>u_hash = ''h'', u_role = ''admin'', u_domain = ''default''\<rparr>)],
     mTokens = (\<lambda>_. None)\<rparr> :: auth"
  have "length (users_json ?a) \<le> 1024 * 1024"
    by (simp add: users_json_def obj_def arr_def kv_def kv_str_def run_def value_str_def or_else_def beginObj_def endObj_def
        beginArr_def endArr_def key_def comma_def append_out_def push_def pop_def JsonWriter_def jsonEscape_def escape_char_def)
  with accounts_persist [of ?a "\<lambda>_. Some (users_json ?a)" "''u''"] show ?thesis
    by (simp add: auth_inv_def om_ok_Cons user_ok_def)
qed

section \<open>The capture library\<close>

text \<open>C29: The library stays consistent: from an empty store, through fewer than \<open>2\<^sup>6\<^sup>4 - 1\<close> calls of
  its operations with any arguments, whatever the operating system answers to each, the capture
  and session ids are distinct and below their counters, the domains have valid ids and are
  distinct, the folders are sorted, distinct and named, and the names of devices are never
  empty.  (That captures, sessions and folders are in existing domains is up to the callers.)\<close>

theorem library_stays_consistent:
  assumes "(store_step ^^ n) (Store dir, d) (s, d')" and "n < 2 ^ 64 - 1"
  shows "list_all (\<lambda>p. id_ok (CHR ''p'') (unat (mNextPcap s)) (pm_id p)) (mPcaps s) \<and> distinct (map pm_id (mPcaps s)) \<and>
    list_all (\<lambda>m. id_ok (CHR ''s'') (unat (mNextSession s)) (ss_id m)) (st_sessions s) \<and> distinct (map ss_id (st_sessions s)) \<and>
    list_all (\<lambda>m. validDomainId (dm_id m)) (st_domains s) \<and> distinct (map dm_id (st_domains s)) \<and>
    sorted (mPcapFolders s) \<and> distinct (mPcapFolders s) \<and> list_all (\<lambda>(t, f). f \<noteq> []) (mPcapFolders s) \<and>
    om_all (\<lambda>t names. names \<noteq> [] \<and> om_all (\<lambda>mac n. n \<noteq> []) names) (mDeviceNames s)"
  using steps_library [OF assms] by (auto simp: store_inv_on_defs list_all_iff om_all_def)

theorem library_stays_consistent_witness:
  "distinct (map pm_id (mPcaps (fst (snd (addPcap calm_env ''a.pcap'' ''bytes'' ''lab'' ''no such domain'' (Store ''/data'', (\<lambda>_. None)))))))"
proof -
  let ?x = "addPcap calm_env ''a.pcap'' ''bytes'' ''lab'' ''no such domain'' (Store ''/data'', (\<lambda>_. None))"
  have "store_step (Store ''/data'', (\<lambda>_. None)) (fst (snd ?x), snd (snd ?x))"
    by (rule store_step.add_pcap [of calm_env "''a.pcap''" "''bytes''" "''lab''" "''no such domain''" _ "fst ?x"]) simp
  then have "(store_step ^^ 1) (Store ''/data'', (\<lambda>_. None)) (fst (snd ?x), snd (snd ?x))" unfolding relpowp_1 .
  from library_stays_consistent [OF this] show ?thesis by simp
qed

text \<open>C30: Tenants are isolated: removing a domain, with whatever answers of the operating system,
  leaves every other domain's captures, sessions, folders and device names listed as before and
  each of its files with its contents; a removal that is not refused leaves none of the removed
  domain's own entries, and of its files only those the operating system failed to remove.
  This is for a library that does not overlap the directory of the sessions, as by default;
  \<open>setPcapRoot\<close> would take such a place.\<close>

theorem tenant_removal_isolated:
  assumes "store_inv s" and "apart s" and "removeDomain e i force (s, d) = (gone, r, s', d')"
  shows "(t \<noteq> i \<longrightarrow> pcaps_of t s' = pcaps_of t s \<and>
      filter (\<lambda>m. ss_domain m = t) (st_sessions s') = filter (\<lambda>m. ss_domain m = t) (st_sessions s) \<and>
      deviceNames t s' = deviceNames t s \<and> pcapFolders t s' = pcapFolders t s \<and> (owned s t q \<longrightarrow> d' q = d q)) \<and>
    (\<not> removal_refused i force s \<longrightarrow> pcaps_of i s' = [] \<and> list_all (\<lambda>m. ss_domain m \<noteq> i) (st_sessions s') \<and>
      deviceNames i s' = [] \<and> pcapFolders i s' = [] \<and> \<not> hasDomain i s' \<and>
      set gone = ss_id ` {m \<in> set (st_sessions s). ss_domain m = i} \<and> (owned s i q \<longrightarrow> d' q = None \<or> env_stuck e q))"
proof -
  have "distinct (map dm_id (st_domains s))" using assms(1) by (simp add: store_inv_defs)
  then show ?thesis using removal_isolated [OF assms] removal_complete [OF _ assms(3)] by blast
qed

theorem tenant_removal_isolated_witness:
  "let x = removeDomain calm_env ''lab'' True (two_tenants, (\<lambda>_. Some ''bytes'')) in
    snd (snd (snd x)) ''/data/pcaps/p1.pcap'' = Some ''bytes'' \<and> snd (snd (snd x)) ''/data/pcaps/domains/lab/p2.pcap'' = None"
proof -
  let ?x = "removeDomain calm_env ''lab'' True (two_tenants, (\<lambda>_. Some ''bytes''))"
  have run: "?x = (fst ?x, fst (snd ?x), fst (snd (snd ?x)), snd (snd (snd ?x)))" by simp
  note iso = tenant_removal_isolated [OF two_tenants_inv run]
  have own: "owned two_tenants ''default'' ''/data/pcaps/p1.pcap''" "owned two_tenants ''lab'' ''/data/pcaps/domains/lab/p2.pcap''"
    by (simp_all add: owned_def two_tenants_def Store_def pcap_path_def pcapRoot_def pcapRelPath_def)
  have "\<not> removal_refused ''lab'' True two_tenants" by (simp add: removal_refused_def two_tenants_def Store_def)
  with iso [of "''default''" "''/data/pcaps/p1.pcap''"] iso [of "''default''" "''/data/pcaps/domains/lab/p2.pcap''"] own
  show ?thesis by (simp add: Let_def calm_env_def)
qed

text \<open>C31: An upload is listed under a fresh id or not at all: when it is refused or its index
  cannot be saved, the list of captures is the old one; when it is listed, its file holds the
  bytes uploaded, less the last ones that the flush in the stream's destructor loses (the code
  looks at the stream before it, so such an upload is listed and acknowledged all the same); and
  no other capture's file changes either way.\<close>

theorem upload_all_or_nothing:
  assumes "store_inv s" and "addPcap e n x f t (s, d) = (a, s', d')"
  shows "((\<exists>err. a = Some (Inl err) \<and> mPcaps s' = mPcaps s) \<or>
      (\<exists>m. m = new_pcap e n x f t s \<and> a \<in> {None, Some (Inr (pm_id m))} \<and> \<not> hasPcap (pm_id m) s \<and>
         mPcaps s' = mPcaps s @ [m] \<and> d' (pcap_path s' m) = Some (reached e (pcap_path s m) x) \<and>
         (env_lost e (pcap_path s m) = 0 \<longrightarrow> d' (pcap_path s' m) = Some x))) \<and>
    list_all (\<lambda>p. d' (pcap_path s p) = d (pcap_path s p)) (mPcaps s)"
proof -
  have "pcaps_inv s" using assms(1) by (simp add: store_inv_def)
  from upload_effect [OF this assms(2)] show ?thesis by (auto simp: list_all_iff reached_whole)
qed

theorem upload_all_or_nothing_witness:
  "snd (snd (addPcap calm_env ''c'' ''new'' '''' ''default'' (two_tenants, (\<lambda>_. Some ''old'')))) ''/data/pcaps/p1.pcap'' = Some ''old''"
proof -
  let ?x = "addPcap calm_env ''c'' ''new'' '''' ''default'' (two_tenants, (\<lambda>_. Some ''old''))"
  have "?x = (fst ?x, fst (snd ?x), snd (snd ?x))" by simp
  note upload = upload_all_or_nothing [OF two_tenants_inv(1) this]
  have "mPcaps two_tenants ! 0 \<in> set (mPcaps two_tenants)" by (simp add: two_tenants_def)
  with upload show ?thesis unfolding list_all_iff by (metis two_tenants_files(1))
qed

text \<open>C32: Moving the library never loses a capture: whether the move is refused, fails half-way,
  fails in the save or succeeds, every capture listed before is listed after, and its file at the
  place the new state gives has the contents it had.\<close>

theorem library_move_keeps_captures:
  assumes "store_inv s" and "setPcapRoot e path (s, d) = (r, s', d')"
  shows "mPcaps s' = mPcaps s \<and> list_all (\<lambda>p. d' (pcap_path s' p) = d (pcap_path s p)) (mPcaps s)"
proof -
  have "pcaps_inv s" using assms(1) by (simp add: store_inv_def)
  from move_keeps_captures [OF this assms(2)] show ?thesis
    by (cases "mPcaps s") (auto simp: list_all_iff setPcapRoot_lists [OF assms(2)])
qed

theorem library_move_keeps_captures_witness:
  "mPcaps (fst (snd (setPcapRoot calm_env ''/big'' (two_tenants, (\<lambda>_. Some ''old''))))) = mPcaps two_tenants"
proof -
  let ?x = "setPcapRoot calm_env ''/big'' (two_tenants, (\<lambda>_. Some ''old''))"
  have "?x = (fst ?x, fst (snd ?x), snd (snd ?x))" by simp
  from library_move_keeps_captures [OF two_tenants_inv(1) this] show ?thesis by simp
qed

text \<open>C33: A restart reads the library back: over the index files of a consistent store, where the
  directories can be made and a configured root is there, the start gives the same captures,
  sessions, domains, folders, root and names (a session's transient path apart), and the same
  counters and sizes as far as a \<open>double\<close> holds them, which is exactly below \<open>2\<^sup>5\<^sup>3\<close>; as long as
  each file is within the parser's mebibyte.  Past it, an index that was saved without error
  makes the start fail, and oversized device names are silently lost.\<close>

theorem library_persists:
  assumes "store_inv s" and "all_dirs e (mDataDir s)" and "mPcapRoot s = [] \<or> env_mkdirs e (mPcapRoot s) = None"
    and "d (meta_path s) = Some (meta_json s)" and "d (devices_path s) = Some (names_json s)"
  shows "store_init e (mDataDir s) d =
    (if length (meta_json s) \<le> 1024 * 1024
     then Inr (if length (names_json s) \<le> 1024 * 1024 then restored s else (restored s)\<lparr>mDeviceNames := []\<rparr>)
     else Inl (cat [''cannot parse meta.json: '', ''JSON body too large''])) \<and>
   (small_numbers s \<longrightarrow> restored s = s\<lparr>st_sessions := map (\<lambda>m. m\<lparr>ss_resolvedPath := []\<rparr>) (st_sessions s)\<rparr>)"
  using store_restarts [OF assms] restored_small by (simp add: restarted_def)

theorem library_persists_witness:
  "store_init calm_env ''/data'' (\<lambda>p. if p = ''/data/meta.json'' then Some (meta_json two_tenants)
     else Some (names_json two_tenants)) = Inr two_tenants"
proof -
  let ?d = "\<lambda>p. if p = ''/data/meta.json'' then Some (meta_json two_tenants) else Some (names_json two_tenants)"
  have paths: "mDataDir two_tenants = ''/data''" "mPcapRoot two_tenants = []" "meta_path two_tenants = ''/data/meta.json''"
    "devices_path two_tenants = ''/data/devices.json''" "small_numbers two_tenants"
    by (simp_all add: two_tenants_def Store_def meta_path_def devices_path_def small_numbers_def)
  have "length (meta_json two_tenants) \<le> 1024 * 1024 \<and> length (names_json two_tenants) \<le> 1024 * 1024"
    by (simp add: two_tenants_def meta_json_def names_json_def Store_def obj_def arr_def kv_def kv_str_def kv_u64_def run_def
        value_str_def value_u64_def tenant_json_def pcap_json_def or_else_def beginObj_def endObj_def beginArr_def endArr_def key_def
        comma_def append_out_def push_def pop_def JsonWriter_def jsonEscape_def escape_char_def u_str_def nat_str.simps)
  moreover have "two_tenants\<lparr>st_sessions := map (\<lambda>m. m\<lparr>ss_resolvedPath := []\<rparr>) (st_sessions two_tenants)\<rparr> = two_tenants"
    by (simp add: two_tenants_def Store_def)
  ultimately show ?thesis
    using library_persists [of two_tenants calm_env ?d] two_tenants_inv(1) paths by simp
qed

section \<open>The server\<close>

text \<open>C34: The state of the running server is well formed: from a start on a fresh data directory,
  after any requests, finished analyses and connects, the library, the accounts and the table of
  sessions satisfy their invariants, every account belongs to a valid domain, and a listed
  session has an id the library has given out and the domain the library says.\<close>

theorem server_state_well_formed:
  assumes "start_server v p d = Some (Inr (cf, a))" and "fresh_dir (op_data p) d" and "hashing v"
    and "server_step\<^sup>*\<^sup>* a b"
  shows "api_inv b"
  using server_steps_inv [OF assms(4) started_inv [OF assms(1-3)]] .

theorem server_state_well_formed_witness:
  "\<exists>cf a b rp. start_server calm_start (default_options\<lparr>op_data := ''/data''\<rparr>) (\<lambda>_. None) = Some (Inr (cf, a)) \<and>
     handle calm_ask cf (plain_request ''GET'' ''/api/bootstrap'') None a = Some (rp, b) \<and> api_inv b"
proof -
  obtain cf a where s: "start_server calm_start (default_options\<lparr>op_data := ''/data''\<rparr>) (\<lambda>_. None) = Some (Inr (cf, a))"
    using calm_started by blast
  obtain rp b where h: "handle calm_ask cf (plain_request ''GET'' ''/api/bootstrap'') None a = Some (rp, b)"
    using handle_bootstrap by blast
  have "roomy a" using s calm_roomy by blast
  with h have "server_step\<^sup>*\<^sup>* a b" by (intro r_into_rtranclp server_step.request [OF h hashes_calm])
  then have "api_inv b"
    using server_state_well_formed [OF s] by (simp add: fresh_dir_def hashing_def calm_start_def calm_ask_def c_str_def)
  with s h show ?thesis by blast
qed

text \<open>C35: Tenants are isolated: whatever a caller who is not an administrator sends, the captures,
  folders, device names, session entries, owner, accounts, logins and listed sessions of every
  other domain stay as they were, and so does the set of administrators, in any state the server
  reaches (C34) whose id counters are not at their end.  Two requests are open
  to everybody and are stated apart: a registration touches neither library nor sessions, adds
  an account to the domain \<open>default\<close> only and an administrator only where there is none, and a
  login touches nothing but the table of logins.\<close>

theorem tenants_are_isolated:
  assumes "api_inv a" and "roomy a" and "hashes k" and "authentic (bearerToken q) c a" and "\<not> cadmin c"
    and "handle k cf q client a = Some (rp, a')" and "t \<noteq> c_domain c"
  shows "if hr_path q = ''/api/register'' \<and> hr_method q = ''POST'' then
      mStore a' = mStore a \<and> mEngine a' = mEngine a \<and>
      (t = ''default'' \<or> tenant_view t a' = tenant_view t a) \<and>
      (\<not> hasAdmin (mAuth a) \<or> admins (mAuth a') = admins (mAuth a))
    else if hr_path q = ''/api/login'' \<and> hr_method q = ''POST'' then
      mStore a' = mStore a \<and> mEngine a' = mEngine a \<and> mUsers (mAuth a') = mUsers (mAuth a)
    else tenant_view t a' = tenant_view t a \<and> admins (mAuth a') = admins (mAuth a)"
proof (cases "hr_path q \<in> {''/api/register'', ''/api/login''} \<and> hr_method q = ''POST''")
  case True
  then show ?thesis
    using handle_anonymous [OF assms(1), of q k cf client] assms(6)
    by (auto simp: leads_def registered_def logged_in_def)
next
  case False
  then have "tenant_view t a' = tenant_view t a \<and> admins (mAuth a') = admins (mAuth a)"
    using handle_isolated [OF assms(1-5) False, of cf client] assms(6,7) by (simp add: leads_def confined_def)
  with False show ?thesis by auto
qed

theorem tenants_are_isolated_witness:
  "\<exists>rp a'. handle calm_ask calm_config (plain_request ''POST'' ''/api/logout'') None busy_api = Some (rp, a') \<and>
     tenant_view ''default'' a' = tenant_view ''default'' busy_api"
proof -
  obtain rp a' where h: "handle calm_ask calm_config (plain_request ''POST'' ''/api/logout'') None busy_api = Some (rp, a')"
    using handle_logout by blast
  have "tenant_view ''default'' a' = tenant_view ''default'' busy_api"
    using tenants_are_isolated [OF busy_inv busy_roomy hashes_calm busy_authentic(1,3) h, of "''default''"] busy_authentic(2)
    by (simp add: plain_request_def)
  with h show ?thesis by blast
qed



text \<open>C37: A stream delivers the log of a finished session completely: in enough undisturbed turns
  (one per five hundred events and one more) the stream ends with every event sent once, in
  order, in batches of at most five hundred.\<close>

theorem stream_delivers:
  assumes "list_all (quiet_turn es) ts" and "sendable deflate sock" and "length es + kBatch \<le> kBatch * length ts"
  shows "\<exists>s. streamSession deflate ts (new_stream user addr fd now sock) = (False, s) \<and> sr_sent s = length es \<and>
    concat (sr_batches s) = es \<and> list_all (\<lambda>b. b \<noteq> [] \<and> length b \<le> 500) (sr_batches s)"
  using quiet_stream_complete [OF assms, of user addr fd now] by (simp add: kBatch_def)

theorem stream_delivers_witness:
  "\<exists>s. streamSession Some [\<lparr>tn_stopping = False, tn_events = [], tn_status = Done, tn_packets = 0, tn_now = 0, tn_poll = TimedOut,
       tn_linger = []\<rparr>] (new_stream ''ann'' ''192.0.2.7:4000'' 5 0 (WebSocket [] False)) = (False, s) \<and> sr_sent s = 0"
  using stream_delivers [of "[]" "[\<lparr>tn_stopping = False, tn_events = [], tn_status = Done, tn_packets = 0, tn_now = 0, tn_poll = TimedOut,
       tn_linger = []\<rparr>]" Some "WebSocket [] False" "''ann''" "''192.0.2.7:4000''" 5 0]
  by (auto simp: quiet_turn_def sendable_def WebSocket_def kBatch_def)

text \<open>C38: A WebSocket frame as RFC 6455 has clients write it, of any opcode, mask and payload up
  to the mebibyte, is read back whole, however the bytes arrive, and what follows it stays.\<close>

theorem client_frames_read_back:
  assumes "opcode < 16" and "length msg \<le> kMaxClientPayload" and "length mk = 4"
    and "concat segs = client_frame opcode mk msg @ y" and "list_all (\<lambda>s. s \<noteq> []) segs"
  shows "\<exists>segs'. read_frame segs = Some (opcode, msg, segs') \<and> concat segs' = y"
  using client_frame_read [OF assms] by blast

theorem client_frames_read_back_witness:
  "\<exists>segs'. read_frame [client_frame 1 ''abcd'' ''hi''] = Some (1, ''hi'', segs') \<and> concat segs' = []"
  using client_frames_read_back [of 1 "''hi''" "''abcd''" "[client_frame 1 ''abcd'' ''hi'']" "[]"]
  by (simp add: kMaxClientPayload_def client_frame_def Let_def)

text \<open>C39: How the network cuts a request into segments does not matter: the request or the refusal
  the reader answers, and the bytes it leaves, are those of the whole byte stream, and the buffer
  stays within the bound this rests on.  The exception is a head that ends between the limit of
  64 KiB and the one receive beyond it which the buffer can hold: it is read or refused with 431
  as the segments fall.  A head up to the limit is always read, a longer one always refused.\<close>

theorem requests_ignore_segmentation:
  assumes "list_all (\<lambda>s. s \<noteq> []) segs" and "length buffered \<le> 64 * 1024 + 16 * 1024"
  shows "let s = buffered @ concat segs; v = answer_of (readRequest maxBody addr buffered segs) in
    (case cut (crlf @ crlf) s of
       None \<Rightarrow> v = Inl (if length s > 64 * 1024 then 431 else 0)
     | Some (h, rest) \<Rightarrow>
         if length h + 3 \<le> 64 * 1024 then v = answer_to_head maxBody addr h rest
         else if length h + 4 \<le> 64 * 1024 + 16 * 1024 then v = answer_to_head maxBody addr h rest \<or> v = Inl 431
         else v = Inl 431) \<and>
    (case fst (readRequest maxBody addr buffered segs) of Inl _ \<Rightarrow> True | Inr (_, buffered') \<Rightarrow> length buffered' \<le> 64 * 1024 + 16 * 1024)"
proof -
  have k: "kMaxHeaderBytes = 64 * 1024" "kBuffered = 64 * 1024 + 16 * 1024" by (simp_all add: kBuffered_def kMaxHeaderBytes_def)
  show ?thesis
    using readRequest_answers [OF assms(1), of buffered maxBody addr] readRequest_buffer [OF _ assms(1), of maxBody addr buffered] assms(2)
    unfolding Let_def stream_answers_def k by (auto split: option.splits if_splits sum.split)
      (metis prod.collapse)+
qed

theorem requests_ignore_segmentation_witness:
  "\<exists>r. answer_of (readRequest 10 ''peer'' [] [''GET /x HTTP/1.1'' @ crlf, crlf @ ''next'']) = Inr (r, ''next'') \<and> hr_path r = ''/x''"
proof -
  let ?h = "''GET /x HTTP/1.1''"
  have c: "cut (crlf @ crlf) ([] @ concat [?h @ crlf, crlf @ ''next'']) = Some (?h, ''next'')" by (simp add: crlf_def)
  have "\<exists>r. answer_to_head 10 ''peer'' ?h ''next'' = Inr (r, ''next'') \<and> hr_path r = ''/x''"
    by (simp add: answer_to_head_def crlf_def parse_head_def Let_def body_length_def parse_headers_def one_line
        add_header_def header_def om_at_def plus_char_def)
  with requests_ignore_segmentation [of "[?h @ crlf, crlf @ ''next'']" "[]" 10 "''peer''"] c
  show ?thesis by (simp add: Let_def crlf_def)
qed

text \<open>C40: The thread pool, under any interleaving of posts, workers and the stop, runs at most the
  threads it is allowed, counts its idle and active ones exactly, and starts the tasks it
  accepted in their order, none twice and none lost.\<close>

theorem pool_stays_consistent:
  assumes "pool_step\<^sup>*\<^sup>* (ThreadPool n) p"
  shows "length (mThreads p) \<le> max 1 (unat n) \<and> unat (mIdle p) = waiting_count p \<and> unat (mActive p) = active_count p \<and>
    accepted p = taken p @ mQueue p"
  using pool_reachable [OF assms] by simp

theorem pool_stays_consistent_witness:
  "accepted starved = taken starved @ mQueue starved \<and> unat (mActive starved) = active_count starved"
  using pool_stays_consistent [OF starvation_reachable] by simp

end
